(* ===== verification/Prelude.thy ===== *)
theory Prelude
  imports "HOL-Library.Word"
begin

text \<open>
  Shared vocabulary of the development: Python errors as values of a sum type, Python's
  unbounded integers as \<open>int\<close> with the library's bit operations, byte strings as lists of
  8-bit words, slices, and the little-endian packing the sources get from \<open>struct\<close> and
  from \<open>int.to_bytes\<close>. The collections \<open>masks\<close> and \<open>pybits\<close> hold the rewrite rules
  that turn \<open>x & 0x3ff\<close> and shifts into the library's \<open>take_bit\<close>, \<open>drop_bit\<close> and
  \<open>push_bit\<close>; every component proof about registers and headers rests on them.
  The two locales at the end are the interfaces shared by the components: an encoder paired
  with its decoder, and the cutting of a transfer into pieces.
\<close>

unbundle bit_operations_syntax

named_theorems masks \<open>masking with a constant is taking the low bits\<close>
named_theorems pybits \<open>normal form of shifts and masks on Python integers\<close>

section \<open>Errors as values\<close>

datatype py_error =
    AssertionError
  | PyException string
  | IndexError
  | KeyError
  | TypeError
  | ValueError
  | NameError
  | ZeroDivisionError
  | AttributeError
  | UnboundLocalError
  | OverflowError
  | StructError

type_synonym 'a result = "py_error + 'a"

text \<open>Sequencing: the first error ends the computation, as an uncaught exception does.\<close>

fun bindE :: "'a result \<Rightarrow> ('a \<Rightarrow> 'b result) \<Rightarrow> 'b result" where
  "bindE (Inl e) f = Inl e"
| "bindE (Inr x) f = f x"

lemma bindE_Inr_iff: "bindE m f = Inr y \<longleftrightarrow> (\<exists>x. m = Inr x \<and> f x = Inr y)"
  by (cases m) auto

lemma bindE_assoc: "bindE (bindE m f) g = bindE m (\<lambda>x. bindE (f x) g)"
  by (cases m) auto

lemma bindE_cong [fundef_cong]:
  "m = m' \<Longrightarrow> (\<And>x. m' = Inr x \<Longrightarrow> f x = f' x) \<Longrightarrow> bindE m f = bindE m' f'"
  by (cases m') auto

definition assertE :: "bool \<Rightarrow> unit result" where
  "assertE b = (if b then Inr () else Inl AssertionError)"

lemma assertE_simps [simp]: "assertE True = Inr ()" "assertE False = Inl AssertionError"
  by (simp_all add: assertE_def)

lemma assertE_Inr_iff [simp]: "assertE b = Inr u \<longleftrightarrow> b"
  by (simp add: assertE_def)

fun mapE :: "('a \<Rightarrow> 'b result) \<Rightarrow> 'a list \<Rightarrow> 'b list result" where
  "mapE f [] = Inr []"
| "mapE f (x # xs) = bindE (f x) (\<lambda>y. bindE (mapE f xs) (\<lambda>ys. Inr (y # ys)))"

lemma mapE_Inr_map: "(\<And>x. x \<in> set xs \<Longrightarrow> f x = Inr (g x)) \<Longrightarrow> mapE f xs = Inr (map g xs)"
  by (induction xs) auto

lemma mapE_length: "mapE f xs = Inr ys \<Longrightarrow> length ys = length xs"
  by (induction xs arbitrary: ys) (auto simp: bindE_Inr_iff)

section \<open>Sequencing with non-termination\<close>

definition bindO :: "'x result option \<Rightarrow> ('x \<Rightarrow> 'y result option) \<Rightarrow> 'y result option" where
  "bindO m f = (case m of None \<Rightarrow> None | Some (Inl e) \<Rightarrow> Some (Inl e) | Some (Inr x) \<Rightarrow> f x)"

lemma bindO_simps [simp]:
  "bindO None f = None" "bindO (Some (Inl e)) f = Some (Inl e)" "bindO (Some (Inr x)) f = f x"
  by (simp_all add: bindO_def)

fun foldO :: "('x \<Rightarrow> 's \<Rightarrow> 's result option) \<Rightarrow> 'x list \<Rightarrow> 's \<Rightarrow> 's result option" where
  "foldO f [] s = Some (Inr s)"
| "foldO f (x # xs) s = bindO (f x s) (foldO f xs)"

lemma bindO_Inr_iff: "bindO m f = Some (Inr y) \<longleftrightarrow> (\<exists>x. m = Some (Inr x) \<and> f x = Some (Inr y))"
  by (auto simp: bindO_def split: option.splits sum.splits)

lemma bindO_mono [partial_function_mono]:
  assumes "mono_option B" "\<And>y. mono_option (C y)"
  shows "mono_option (\<lambda>f. bindO (B f) (\<lambda>y. C y f))"
proof (rule monotoneI)
  fix f g :: "'a \<Rightarrow> 'b option" assume fg: "fun_ord option_ord f g"
  have B: "option_ord (B f) (B g)" and C: "option_ord (C y f) (C y g)" for y
    using assms fg by (auto dest: monotoneD)
  show "option_ord (bindO (B f) (\<lambda>y. C y f)) (bindO (B g) (\<lambda>y. C y g))"
  proof (cases "B f")
    case None
    then show ?thesis by (simp add: flat_ord_def)
  next
    case (Some r)
    then have "B g = Some r" using B by (auto simp: flat_ord_def)
    then show ?thesis using Some C by (cases r) (auto simp: flat_ord_def)
  qed
qed

section \<open>Bit length\<close>

fun bit_length :: "nat \<Rightarrow> nat" where
  "bit_length n = (if n = 0 then 0 else Suc (bit_length (n div 2)))"

declare bit_length.simps [simp del]

section \<open>Indexing and slices\<close>

text \<open>\<open>py_nth\<close> is \<open>xs[i]\<close> for a non-negative \<open>i\<close>: reading past the end raises.\<close>

definition py_nth :: "'a list \<Rightarrow> nat \<Rightarrow> 'a result" where
  "py_nth xs i = (if i < length xs then Inr (xs ! i) else Inl IndexError)"

lemma py_nth_Inr [simp]: "i < length xs \<Longrightarrow> py_nth xs i = Inr (xs ! i)"
  by (simp add: py_nth_def)

lemma py_nth_Inl [simp]: "length xs \<le> i \<Longrightarrow> py_nth xs i = Inl IndexError"
  by (simp add: py_nth_def)

text \<open>\<open>slice xs a b\<close> is \<open>xs[a:b]\<close> for non-negative bounds: it never raises.\<close>

definition slice :: "'a list \<Rightarrow> nat \<Rightarrow> nat \<Rightarrow> 'a list" where
  "slice xs a b = take (b - a) (drop a xs)"

lemma length_slice [simp]: "length (slice xs a b) = min (b - a) (length xs - a)"
  by (simp add: slice_def min.commute)

lemma slice_0 [simp]: "slice xs 0 b = take b xs"
  by (simp add: slice_def)

lemma slice_self [simp]: "slice xs a a = []"
  by (simp add: slice_def)

lemma slice_append: "a \<le> b \<Longrightarrow> b \<le> c \<Longrightarrow> slice xs a b @ slice xs b c = slice xs a c"
proof -
  assume "a \<le> b" "b \<le> c"
  then have "slice xs a c = take ((b - a) + (c - b)) (drop a xs)"
    by (simp add: slice_def)
  also have "\<dots> = take (b - a) (drop a xs) @ take (c - b) (drop (b - a) (drop a xs))"
    by (simp only: take_add)
  also have "drop (b - a) (drop a xs) = drop b xs" using \<open>a \<le> b\<close> by simp
  finally show ?thesis by (simp add: slice_def)
qed

lemma nth_slice: "i < b - a \<Longrightarrow> a + i < length xs \<Longrightarrow> slice xs a b ! i = xs ! (a + i)"
  by (simp add: slice_def)

text \<open>\<open>splice xs a ys\<close> is the slice assignment \<open>xs[a:a+len(ys)] = ys\<close> of a bytearray,
  which keeps the length when the slice lies inside and extends it otherwise.\<close>

definition splice :: "'a list \<Rightarrow> nat \<Rightarrow> 'a list \<Rightarrow> 'a list" where
  "splice xs a ys = take a xs @ ys @ drop (a + length ys) xs"

lemma length_splice [simp]: "a + length ys \<le> length xs \<Longrightarrow> length (splice xs a ys) = length xs"
  by (simp add: splice_def)

lemma nth_splice:
  assumes "a + length ys \<le> length xs" "i < length xs"
  shows "splice xs a ys ! i = (if a \<le> i \<and> i < a + length ys then ys ! (i - a) else xs ! i)"
  using assms by (auto simp: splice_def nth_append)

lemma slice_splice_same:
  "a + length ys \<le> length xs \<Longrightarrow> slice (splice xs a ys) a (a + length ys) = ys"
  by (simp add: slice_def splice_def)

section \<open>Masks and shifts\<close>

text \<open>One-bit fields stay \<open>take_bit\<close> terms instead of becoming \<open>mod 2\<close>.\<close>

declare take_bit_Suc_0 [simp del] push_bit_Suc [simp del] and_one_eq [simp del] one_and_eq [simp del] push_bit_and [simp del]

lemma and_low_mask: "m = mask n \<Longrightarrow> (x :: int) AND m = take_bit n x"
  by (simp add: take_bit_eq_mask)

lemma and_masks [masks]:
  "(x :: int) AND 1 = take_bit 1 x" "x AND 3 = take_bit 2 x" "x AND 7 = take_bit 3 x"
  "x AND 15 = take_bit 4 x" "x AND 31 = take_bit 5 x" "x AND 63 = take_bit 6 x"
  "x AND 127 = take_bit 7 x" "x AND 255 = take_bit 8 x" "x AND 511 = take_bit 9 x"
  "x AND 1023 = take_bit 10 x" "x AND 2047 = take_bit 11 x" "x AND 4095 = take_bit 12 x"
  "x AND 8191 = take_bit 13 x" "x AND 65535 = take_bit 16 x"
  "x AND 1048575 = take_bit 20 x" "x AND 4294967295 = take_bit 32 x"
  by (simp_all add: take_bit_eq_mask mask_eq_exp_minus_1)

lemma and_field_masks [masks]:
  "(x :: int) AND 4 = push_bit 2 (take_bit 1 (drop_bit 2 x))"
  "x AND 4294967292 = push_bit 2 (take_bit 30 (drop_bit 2 x))"
proof -
  have "x AND push_bit k (mask n) = push_bit k (take_bit n (drop_bit k x))" for k n
    by (rule bit_eqI) (auto simp: bit_simps)
  from this[of 2 1] this[of 2 30] show
    "(x :: int) AND 4 = push_bit 2 (take_bit 1 (drop_bit 2 x))"
    "x AND 4294967292 = push_bit 2 (take_bit 30 (drop_bit 2 x))"
    by (simp_all add: mask_eq_exp_minus_1)
qed

lemma take_bit_split: "take_bit n x OR push_bit n (take_bit m (drop_bit n x)) = take_bit (n + m) (x :: int)"
  by (rule bit_eqI) (auto simp: bit_simps)

lemmas shift_pybits [pybits] =
  take_bit_push_bit drop_bit_push_bit drop_bit_take_bit push_bit_take_bit[symmetric]
  take_bit_take_bit

text \<open>\<open>flag k b\<close> is the contribution of \<open>if b: val |= 1 << k\<close>; \<open>tst x k\<close> is the test
  \<open>x & 1 << k != 0\<close>.\<close>

definition flag :: "nat \<Rightarrow> bool \<Rightarrow> int" where
  "flag k b = (if b then push_bit k 1 else 0)"

definition tst :: "int \<Rightarrow> nat \<Rightarrow> bool" where
  "tst x k \<longleftrightarrow> x AND push_bit k 1 \<noteq> 0"

lemma bit_flag [simp]: "bit (flag k b) i \<longleftrightarrow> b \<and> i = k"
  by (auto simp: flag_def bit_simps)

lemma tst_bit [simp]: "tst x k = bit x k"
  by (simp add: tst_def push_bit_of_1 and_exp_eq_0_iff_not_bit)

lemma bit_field [simp]: "bit (push_bit k (take_bit n (x :: int))) i \<longleftrightarrow> k \<le> i \<and> i - k < n \<and> bit x (i - k)"
  by (auto simp: bit_simps)

text \<open>A value that fits in \<open>n\<close> bits is its own low part.\<close>

definition fits :: "nat \<Rightarrow> int \<Rightarrow> bool" where
  "fits n x \<longleftrightarrow> 0 \<le> x \<and> x < 2 ^ n"

lemma fits_take_bit [simp]: "fits n x \<Longrightarrow> take_bit n x = x"
  by (simp add: fits_def take_bit_int_eq_self)

lemma take_bit_fits [simp, intro]: "fits n (take_bit n x)"
  by (simp add: fits_def)

lemma fits_iff_take_bit: "fits n x \<longleftrightarrow> take_bit n x = x"
  by (metis fits_take_bit take_bit_fits)

lemma fits_mono: "fits m x \<Longrightarrow> m \<le> n \<Longrightarrow> fits n x"
  unfolding fits_iff_take_bit by (metis min.absorb2 take_bit_take_bit)

lemma fits_bit_high: "fits n x \<Longrightarrow> n \<le> i \<Longrightarrow> \<not> bit x i"
  by (metis bit_take_bit_iff fits_take_bit not_le)

lemma fits_or: "fits n x \<Longrightarrow> fits n y \<Longrightarrow> fits n (x OR y)"
  by (simp add: fits_iff_take_bit)

lemma fits_push_bit: "fits (n - k) x \<Longrightarrow> k \<le> n \<Longrightarrow> fits n (push_bit k x)"
  by (simp add: fits_iff_take_bit take_bit_push_bit)

lemma fits_take_bit_le: "m \<le> n \<Longrightarrow> fits n (take_bit m x)"
  by (rule fits_mono[OF take_bit_fits])

lemmas fits_intros = fits_or fits_push_bit fits_take_bit_le

lemma drop_bit_fits [simp]: "fits n x \<Longrightarrow> n \<le> m \<Longrightarrow> drop_bit m x = 0"
  by (rule bit_eqI) (simp add: bit_drop_bit_eq fits_bit_high)

lemma take_bit_fits_le [simp]: "fits n x \<Longrightarrow> n \<le> m \<Longrightarrow> take_bit m x = x"
  by (rule fits_take_bit[OF fits_mono])

section \<open>Bytes and little-endian packing\<close>

type_synonym byte = "8 word"
type_synonym bytes = "byte list"

primrec to_le :: "nat \<Rightarrow> int \<Rightarrow> bytes" where
  "to_le 0 x = []"
| "to_le (Suc n) x = word_of_int x # to_le n (drop_bit 8 x)"

primrec from_le :: "bytes \<Rightarrow> int" where
  "from_le [] = 0"
| "from_le (b # bs) = uint b OR push_bit 8 (from_le bs)"

lemma length_to_le [simp]: "length (to_le n x) = n"
  by (induction n arbitrary: x) auto

lemma to_le_4:
  "to_le 4 x = [word_of_int x, word_of_int (drop_bit 8 x), word_of_int (drop_bit 16 x),
                word_of_int (drop_bit 24 x)]"
  by (simp add: eval_nat_numeral)

lemma uint_byte_fits: "fits 8 (uint (b :: byte))"
  using uint_lt2p[of b] by (simp add: fits_def)

lemma from_le_fits: "fits (8 * length bs) (from_le bs)"
proof (induction bs)
  case Nil
  then show ?case by (simp add: fits_def)
next
  case (Cons b bs)
  then show ?case
    by (auto intro!: fits_or fits_push_bit fits_mono[OF uint_byte_fits])
qed

lemma from_le_to_le: "from_le (to_le n x) = take_bit (8 * n) x"
proof (induction n arbitrary: x)
  case 0
  then show ?case by simp
next
  case (Suc n)
  have "from_le (to_le (Suc n) x) = take_bit 8 x OR push_bit 8 (take_bit (8 * n) (drop_bit 8 x))"
    by (simp add: Suc.IH unsigned_of_int)
  also have "\<dots> = take_bit (8 * Suc n) x"
    by (rule bit_eqI) (auto simp: bit_simps)
  finally show ?case .
qed

lemma to_le_from_le: "to_le (length bs) (from_le bs) = bs"
proof (induction bs)
  case Nil
  then show ?case by simp
next
  case (Cons b bs)
  have low: "word_of_int (uint b OR push_bit 8 (from_le bs)) = b"
    by (rule bit_word_eqI) (auto simp: bit_simps)
  have "drop_bit 8 (uint b) = 0"
    using uint_lt2p[of b] by (simp add: drop_bit_eq_div)
  then have "drop_bit 8 (uint b OR push_bit 8 (from_le bs)) = from_le bs"
    by (simp add: drop_bit_push_bit)
  with low Cons.IH show ?case by simp
qed

text \<open>\<open>struct.pack('<L', x)\<close>, \<open>struct.unpack('<L', bs)\<close> and \<open>x.to_bytes(n, 'little')\<close>.\<close>

definition pack_L :: "int \<Rightarrow> bytes result" where
  "pack_L x = (if 0 \<le> x \<and> x < 2 ^ 32 then Inr (to_le 4 x) else Inl StructError)"

definition unpack_L :: "bytes \<Rightarrow> int result" where
  "unpack_L bs = (if length bs = 4 then Inr (from_le bs) else Inl StructError)"

definition to_bytes_little :: "nat \<Rightarrow> int \<Rightarrow> bytes result" where
  "to_bytes_little n x =
     (if 0 \<le> x \<and> x < 2 ^ (8 * n) then Inr (to_le n x) else Inl OverflowError)"

text \<open>Packing a list of elements one after the other, and cutting it back into pieces of
  a fixed width (the last piece may be short, as \<open>data[k:k+4]\<close> is).\<close>

definition pack_all :: "('a \<Rightarrow> bytes result) \<Rightarrow> 'a list \<Rightarrow> bytes result" where
  "pack_all pk xs = bindE (mapE pk xs) (\<lambda>bss. Inr (concat bss))"

function unpack_all :: "nat \<Rightarrow> (bytes \<Rightarrow> 'a result) \<Rightarrow> bytes \<Rightarrow> 'a list result" where
  "unpack_all w upk bs =
     (if bs = [] \<or> w = 0 then Inr []
      else bindE (upk (take w bs)) (\<lambda>x. bindE (unpack_all w upk (drop w bs)) (\<lambda>xs. Inr (x # xs))))"
  by pat_completeness auto
termination
  by (relation "measure (\<lambda>(w, upk, bs). length bs)") auto

declare unpack_all.simps [simp del]

lemma unpack_all_Nil [simp]: "unpack_all w upk [] = Inr []"
  by (subst unpack_all.simps) simp

lemma unpack_all_append:
  "0 < w \<Longrightarrow> length b = w \<Longrightarrow>
   unpack_all w upk (b @ bs) =
     bindE (upk b) (\<lambda>x. bindE (unpack_all w upk bs) (\<lambda>xs. Inr (x # xs)))"
  by (subst unpack_all.simps) auto

section \<open>Interface: an encoder and its decoder\<close>

locale codec =
  fixes enc :: "'a \<Rightarrow> 'b result"
    and dec :: "'b \<Rightarrow> 'a result"
    and ok :: "'a \<Rightarrow> bool"
  assumes enc_total: "ok x \<Longrightarrow> \<exists>y. enc x = Inr y"
    and dec_enc: "ok x \<Longrightarrow> enc x = Inr y \<Longrightarrow> dec y = Inr x"
begin

lemma roundtrip: "ok x \<Longrightarrow> bindE (enc x) dec = Inr x"
  using enc_total dec_enc by fastforce

lemma enc_inj: "ok x \<Longrightarrow> ok x' \<Longrightarrow> enc x = enc x' \<Longrightarrow> x = x'"
  by (metis dec_enc enc_total sum.inject(2))

end

text \<open>A codec onto byte strings of a fixed width extends to lists of elements.\<close>

locale fixed_codec = codec enc dec ok
  for enc :: "'a \<Rightarrow> bytes result" and dec and ok +
  fixes width :: nat
  assumes width_pos: "0 < width"
    and enc_width: "enc x = Inr bs \<Longrightarrow> length bs = width"
begin

lemma mapE_enc_total: "list_all ok xs \<Longrightarrow> \<exists>bss. mapE enc xs = Inr bss"
  by (induction xs) (auto dest!: enc_total)

lemma pack_all_total: "list_all ok xs \<Longrightarrow> \<exists>bs. pack_all enc xs = Inr bs"
  using mapE_enc_total by (fastforce simp: pack_all_def)

lemma pack_all_length: "pack_all enc xs = Inr bs \<Longrightarrow> length bs = width * length xs"
  by (induction xs arbitrary: bs) (auto simp: pack_all_def bindE_Inr_iff dest!: enc_width)

lemma unpack_all_pack_all:
  "list_all ok xs \<Longrightarrow> pack_all enc xs = Inr bs \<Longrightarrow> unpack_all width dec bs = Inr xs"
proof (induction xs arbitrary: bs)
  case Nil
  then show ?case by (simp add: pack_all_def)
next
  case (Cons x xs)
  from Cons.prems(2) obtain b bs' where
    b: "enc x = Inr b" and bs': "pack_all enc xs = Inr bs'" and "bs = b @ bs'"
    by (auto simp: pack_all_def bindE_Inr_iff)
  moreover have "dec b = Inr x" using Cons.prems(1) b dec_enc by simp
  moreover have "unpack_all width dec bs' = Inr xs"
    using Cons.prems(1) bs' by (intro Cons.IH) auto
  ultimately show ?case
    using width_pos enc_width[OF b] by (simp add: unpack_all_append)
qed

end

interpretation le32: fixed_codec pack_L unpack_L "fits 32" 4
  by unfold_locales
    (auto simp: pack_L_def unpack_L_def fits_def from_le_to_le take_bit_int_eq_self split: if_splits)

end
