(* ===== verification/PcieId.thy ===== *)
theory PcieId
  imports Prelude
begin

text \<open>
  The helpers at the top of \<open>fpga/lib/pcie/tb/pcie.py\<close>: \<open>align\<close>, \<open>byte_mask_update\<close> and
  the bus/device/function identifier \<open>PcieId\<close> with its 16-bit integer form.
  \<open>bit_byte_mask_update\<close> is the bit-level meaning of the byte-lane loop; every
  configuration register write of the later theories is read through it.
\<close>

unbundle bit_operations_syntax

section \<open>align\<close>

definition align :: "int \<Rightarrow> int \<Rightarrow> int" where
  "align val msk = (if val AND msk \<noteq> 0 then val + msk + 1 - (val AND msk) else val)"

lemma align_mask: "align val (2 ^ n - 1) = - (- val div 2 ^ n) * 2 ^ n"
proof -
  have low: "val AND (2 ^ n - 1) = val mod 2 ^ n"
    by (simp flip: mask_eq_exp_minus_1 take_bit_eq_mask add: take_bit_eq_mod)
  show ?thesis
  proof (cases "val mod 2 ^ n = 0")
    case True
    then have "2 ^ n dvd val" by (simp add: dvd_eq_mod_eq_0)
    then show ?thesis by (auto simp: align_def low)
  next
    case False
    then have "- (- val div 2 ^ n) = val div 2 ^ n + 1"
      by (simp add: zdiv_zminus1_eq_if)
    moreover have "val - val mod 2 ^ n = 2 ^ n * (val div 2 ^ n)"
      by (simp add: minus_mod_eq_mult_div)
    ultimately show ?thesis using False by (simp add: align_def low algebra_simps)
  qed
qed

lemma align_dvd: "2 ^ n dvd align val (2 ^ n - 1)"
  by (simp add: align_mask)

lemma align_ge: "val \<le> align val (2 ^ n - 1)"
proof -
  have "- val div 2 ^ n * 2 ^ n \<le> - val"
    using pos_mod_sign[of "2 ^ n" "- val"] by (simp flip: minus_mod_eq_div_mult)
  then show ?thesis by (simp add: align_mask)
qed

lemma align_less: "align val (2 ^ n - 1) < val + 2 ^ n"
proof -
  have "- val - 2 ^ n < - val div 2 ^ n * 2 ^ n"
    using pos_mod_bound[of "2 ^ n" "- val"] by (simp flip: minus_mod_eq_div_mult)
  then show ?thesis by (simp add: align_mask)
qed

text \<open>\<open>align\<close> rounds up: its result is a multiple of the (power of two)
  alignment, not below the value, and no smaller multiple lies at or above the value.\<close>

theorem align_least_multiple:
  fixes m :: int
  shows "2 ^ n dvd align val (2 ^ n - 1) \<and> val \<le> align val (2 ^ n - 1) \<and>
    \<not> (2 ^ n dvd m \<and> val \<le> m \<and> m < align val (2 ^ n - 1))"
proof -
  have "False" if "2 ^ n dvd m" "val \<le> m" "m < align val (2 ^ n - 1)"
  proof -
    have "2 ^ n dvd align val (2 ^ n - 1) - m" using that align_dvd by (simp add: dvd_diff)
    moreover have "0 < align val (2 ^ n - 1) - m" using that by simp
    moreover have "align val (2 ^ n - 1) - m < 2 ^ n" using that align_less[of val n] by simp
    ultimately show False using zdvd_not_zless by blast
  qed
  then show ?thesis using align_dvd align_ge by blast
qed

section \<open>byte\_mask\_update\<close>

text \<open>
  The loop walks a one-bit mask \<open>m1 = 1 << k\<close> and a byte mask \<open>m2 = 0xff << 8*k\<close> upwards
  while \<open>mask >= m1\<close>, copying a byte of \<open>new\<close> into \<open>old\<close> for every set mask bit.
\<close>

function bmu_loop :: "nat \<Rightarrow> int \<Rightarrow> int \<Rightarrow> int \<Rightarrow> int" where
  "bmu_loop k old msk new =
     (let m1 = push_bit k 1; m2 = push_bit (8 * k) 0xff
      in if msk \<ge> m1
         then bmu_loop (k + 1)
                (if msk AND m1 \<noteq> 0 then (old AND NOT m2) OR (new AND m2) else old) msk new
         else old)"
  by pat_completeness auto
termination
proof (relation "measure (\<lambda>(k, old, msk, new). nat (msk + 1 - 2 ^ k))")
  fix k old msk new and m1 m2 :: int
  assume "m1 = push_bit k 1" and "m1 \<le> msk"
  then have "2 ^ k \<le> msk" by (simp add: push_bit_eq_mult)
  moreover have "(2 :: int) ^ k < 2 ^ (k + 1)" by simp
  ultimately show "((k + 1, if msk AND m1 \<noteq> 0 then old AND NOT m2 OR new AND m2 else old, msk, new),
      k, old, msk, new) \<in> measure (\<lambda>(k, old, msk, new). nat (msk + 1 - 2 ^ k))"
    by simp
qed simp

declare bmu_loop.simps [simp del]

definition byte_mask_update :: "int \<Rightarrow> int \<Rightarrow> int \<Rightarrow> int \<Rightarrow> int" where
  "byte_mask_update old msk new bitmask =
     (let new = (new AND bitmask) OR (old AND NOT bitmask) in bmu_loop 0 old msk new)"

lemma bit_lane: "bit (push_bit (8 * k) (0xff :: int)) i \<longleftrightarrow> i div 8 = k"
proof -
  have "bit (push_bit (8 * k) (mask 8 :: int)) i \<longleftrightarrow> i div 8 = k"
    by (auto simp: bit_simps)
  then show ?thesis by (simp add: mask_eq_exp_minus_1)
qed

lemma and_single_bit: "(msk :: int) AND 2 ^ k = 0 \<longleftrightarrow> \<not> bit msk k"
  by (simp add: and_exp_eq_0_iff_not_bit)

lemma bit_above: "0 \<le> msk \<Longrightarrow> msk < 2 ^ k \<Longrightarrow> k \<le> i \<Longrightarrow> \<not> bit (msk :: int) i"
  by (rule fits_bit_high[of k]) (auto simp: fits_def)

lemma bit_bmu_loop:
  "0 \<le> msk \<Longrightarrow> bit (bmu_loop k old msk new) i =
     (if k \<le> i div 8 \<and> bit msk (i div 8) then bit new i else bit old i)"
proof (induction k old msk new rule: bmu_loop.induct)
  case (1 k old msk new)
  let ?m1 = "push_bit k (1 :: int)" and ?m2 = "push_bit (8 * k) (0xff :: int)"
  let ?old' = "if msk AND ?m1 \<noteq> 0 then (old AND NOT ?m2) OR (new AND ?m2) else old"
  have old': "bit ?old' i = (if i div 8 = k \<and> bit msk k then bit new i else bit old i)"
    by (auto simp: and_single_bit bit_or_iff bit_and_iff bit_not_iff bit_lane)
  show ?case
  proof (cases "msk \<ge> ?m1")
    case True
    then have "bit (bmu_loop k old msk new) i = bit (bmu_loop (k + 1) ?old' msk new) i"
      by (subst bmu_loop.simps) (simp add: Let_def)
    also have "\<dots> = (if k + 1 \<le> i div 8 \<and> bit msk (i div 8) then bit new i else bit ?old' i)"
      using "1.IH"[OF refl refl True] "1.prems" by simp
    finally show ?thesis unfolding old' by (auto simp: Suc_le_eq le_less)
  next
    case False
    then have "msk < 2 ^ k" by (simp add: push_bit_eq_mult)
    with "1.prems" have "\<not> (k \<le> i div 8 \<and> bit msk (i div 8))" using bit_above by blast
    moreover have "bmu_loop k old msk new = old"
      using False by (subst bmu_loop.simps) (simp add: Let_def)
    ultimately show ?thesis by auto
  qed
qed

lemma bit_byte_mask_update:
  "0 \<le> msk \<Longrightarrow> bit (byte_mask_update old msk new bitmask) i =
     (if bit msk (i div 8) \<and> bit bitmask i then bit new i else bit old i)"
  by (auto simp: byte_mask_update_def bit_bmu_loop bit_or_iff bit_and_iff bit_not_iff)

lemma byte_mask_update_0 [simp]: "byte_mask_update old 0 new bitmask = old"
  by (rule bit_eqI) (simp add: bit_byte_mask_update)

lemma byte_mask_update_fits:
  assumes "fits n old" "fits k msk" "8 * k \<le> n"
  shows "fits n (byte_mask_update old msk new bitmask)"
proof -
  have "take_bit n (byte_mask_update old msk new bitmask) = byte_mask_update old msk new bitmask"
  proof (rule bit_eqI)
    fix i
    show "bit (take_bit n (byte_mask_update old msk new bitmask)) i =
          bit (byte_mask_update old msk new bitmask) i"
    proof (cases "i < n")
      case True
      then show ?thesis by (simp add: bit_take_bit_iff)
    next
      case False
      with assms have "k \<le> i div 8" by linarith
      with assms False have "\<not> bit msk (i div 8)" "\<not> bit old i" "0 \<le> msk"
        using fits_bit_high by (auto simp: fits_def)
      with False show ?thesis by (simp add: bit_take_bit_iff bit_byte_mask_update)
    qed
  qed
  then show ?thesis by (simp only: fits_iff_take_bit)
qed

text \<open>\<open>byte_mask_update\<close> replaces exactly the bits that lie in an enabled byte
  lane and under the bit mask; every other bit of the old value survives.\<close>

theorem byte_mask_update_lanes:
  assumes "0 \<le> msk"
  shows "bit (byte_mask_update old msk new bitmask) i =
    (if bit msk (i div 8) \<and> bit bitmask i then bit new i else bit old i)"
  using assms by (rule bit_byte_mask_update)

theorem byte_mask_update_lanes_witness:
  "bit (byte_mask_update 0x11223344 0x5 0xaabbccdd (-1)) 0 = bit (0xaabbccdd :: int) 0 \<and>
   byte_mask_update 0x11223344 0x5 0xaabbccdd (-1) = 0x11bb33dd"
  using byte_mask_update_lanes[of "0x5" "0x11223344" "0xaabbccdd" "-1" 0]
  by (simp add: byte_mask_update_def bmu_loop.simps Let_def bit_0)

text \<open>Writing twice is writing the second value over the lanes it enables.\<close>

lemma byte_mask_update_idem:
  "0 \<le> msk \<Longrightarrow>
   byte_mask_update (byte_mask_update old msk new bm) msk new bm = byte_mask_update old msk new bm"
  by (rule bit_eqI) (simp add: bit_byte_mask_update)

section \<open>PcieId\<close>

record pcie_id =
  pid_bus :: int
  pid_device :: int
  pid_function :: int

definition mk_id :: "int \<Rightarrow> int \<Rightarrow> int \<Rightarrow> pcie_id" where
  "mk_id b d f = \<lparr>pid_bus = b, pid_device = d, pid_function = f\<rparr>"

definition id_from_int :: "int \<Rightarrow> pcie_id" where
  "id_from_int val = mk_id (drop_bit 8 val AND 0xff) (drop_bit 3 val AND 0x1f) (val AND 0x7)"

definition id_to_int :: "pcie_id \<Rightarrow> int" where
  "id_to_int p = push_bit 8 (pid_bus p AND 0xff) OR push_bit 3 (pid_device p AND 0x1f)
     OR (pid_function p AND 0x7)"

definition id_ok :: "pcie_id \<Rightarrow> bool" where
  "id_ok p \<longleftrightarrow> fits 8 (pid_bus p) \<and> fits 5 (pid_device p) \<and> fits 3 (pid_function p)"

lemma mk_id_sel [simp]:
  "pid_bus (mk_id b d f) = b" "pid_device (mk_id b d f) = d" "pid_function (mk_id b d f) = f"
  by (simp_all add: mk_id_def)

lemma mk_id_eq_iff: "mk_id b d f = p \<longleftrightarrow> b = pid_bus p \<and> d = pid_device p \<and> f = pid_function p"
  by (cases p) (auto simp: mk_id_def)

lemma mk_id_inject [simp]: "mk_id b d f = mk_id b' d' f' \<longleftrightarrow> b = b' \<and> d = d' \<and> f = f'"
  by (simp add: mk_id_def)

lemma fits_id_to_int [simp, intro]: "fits 16 (id_to_int p)"
  unfolding id_to_int_def masks by (intro fits_intros) simp_all

lemma id_from_to_int: "id_ok p \<Longrightarrow> id_from_int (id_to_int p) = p"
  by (clarsimp simp: id_from_int_def id_to_int_def masks pybits id_ok_def mk_id_eq_iff)

lemma id_to_from_int: "id_to_int (id_from_int v) = take_bit 16 v"
  unfolding id_from_int_def id_to_int_def masks mk_id_sel
proof (rule bit_eqI)
  fix n
  show "bit (push_bit 8 (take_bit 8 (take_bit 8 (drop_bit 8 v))) OR
      push_bit 3 (take_bit 5 (take_bit 5 (drop_bit 3 v))) OR take_bit 3 (take_bit 3 v)) n =
      bit (take_bit 16 v) n"
    by (cases "n < 3"; cases "n < 8") (auto simp: bit_simps)
qed

lemma id_from_int_ok [simp]: "id_ok (id_from_int v)"
  unfolding id_from_int_def id_ok_def masks mk_id_sel by simp

lemma id_from_int_high: "id_from_int (take_bit 16 v) = id_from_int v"
  by (simp add: id_from_int_def masks pybits)

end
