(* ===== verification/PcieRegs.thy ===== *)
theory PcieRegs
  imports PcieId
begin

text \<open>
  The capability registers of \<open>fpga/lib/pcie/tb/pcie.py\<close>: power management
  (\<open>PMCapability\<close>), PCI Express (\<open>PCIECapability\<close>), MSI and MSI-X. The attributes of the
  Python mixins are grouped in one record per hardware register half; a register read
  assembles its value from them and a register write updates the ones in the enabled byte
  lanes. A \<open>read\<close> that returns nothing is \<open>None\<close>.
\<close>

unbundle bit_operations_syntax

section \<open>Power management\<close>

record pm_regs =
  pm_capabilities :: int
  pm_control_status :: int
  pm_data :: int

definition read_pm_cap_register :: "pm_regs \<Rightarrow> int \<Rightarrow> int option" where
  "read_pm_cap_register s reg =
     (if reg = 0 then Some (push_bit 16 (pm_capabilities s))
      else if reg = 1 then Some (push_bit 24 (pm_data s) OR pm_control_status s)
      else None)"

definition write_pm_cap_register :: "int \<Rightarrow> int \<Rightarrow> int \<Rightarrow> pm_regs \<Rightarrow> pm_regs" where
  "write_pm_cap_register reg dat msk s = s"

section \<open>PCI Express capability: state\<close>

record pcie_cap_hdr =
  pcie_device_type :: int
  pcie_slot_implemented :: bool
  interrupt_message_number :: int

record dev_cap =
  max_payload_size_supported :: int
  phantom_functions_supported :: int
  extended_tag_supported :: bool
  endpoint_l0s_acceptable_latency :: int
  endpoint_l1_acceptable_latency :: int
  role_based_error_reporting :: bool
  captured_slot_power_limit_value :: int
  captured_slot_power_limit_scale :: int
  function_level_reset_capability :: bool

record dev_ctl =
  correctable_error_reporting_enable :: bool
  non_fatal_error_reporting_enable :: bool
  fatal_error_reporting_enable :: bool
  unsupported_request_reporting_enable :: bool
  enable_relaxed_ordering :: bool
  max_payload_size :: int
  extended_tag_field_enable :: bool
  phantom_functions_enable :: bool
  aux_power_pm_enable :: bool
  enable_no_snoop :: bool
  max_read_request_size :: int

record dev_sta =
  correctable_error_detected :: bool
  nonfatal_error_detected :: bool
  fatal_error_detected :: bool
  unsupported_request_detected :: bool
  aux_power_detected :: bool
  transactions_pending :: bool

record link_cap =
  max_link_speed :: int
  max_link_width :: int
  aspm_support :: int
  l0s_exit_latency :: int
  l1_exit_latency :: int
  clock_power_management :: bool
  surprise_down_error_reporting_capability :: bool
  data_link_layer_link_active_reporting_capable :: bool
  link_bandwidth_notification_capability :: bool
  aspm_optionality_compliance :: bool
  port_number :: int

record link_ctl =
  aspm_control :: int
  read_completion_boundary :: bool
  link_disable :: bool
  common_clock_configuration :: bool
  extended_synch :: bool
  enable_clock_power_management :: bool
  hardware_autonomous_width_disable :: bool
  link_bandwidth_management_interrupt_enable :: bool
  link_autonomous_bandwidth_interrupt_enable :: bool

record link_sta =
  current_link_speed :: int
  negotiated_link_width :: int
  link_training :: bool
  slot_clock_configuration :: bool
  data_link_layer_link_active :: bool
  link_bandwidth_management_status :: bool
  link_autonomous_bandwidth_status :: bool

record slot_cap =
  attention_button_present :: bool
  power_controller_present :: bool
  mrl_sensor_present :: bool
  attention_indicator_present :: bool
  power_indicator_present :: bool
  hot_plug_surprise :: bool
  hot_plug_capable :: bool
  slot_power_limit_value :: int
  slot_power_limit_scale :: int
  electromechanical_interlock_present :: bool
  no_command_completed_support :: bool
  physical_slot_number :: int

record slot_ctl =
  attention_button_pressed_enable :: bool
  power_fault_detected_enable :: bool
  mrl_sensor_changed_enable :: bool
  presence_detect_changed_enable :: bool
  command_completed_interrupt_enable :: bool
  hot_plug_interrupt_enable :: bool
  attention_indicator_control :: int
  power_indicator_control :: int
  power_controller_control :: bool
  electromechanical_interlock_control :: bool
  data_link_layer_state_changed_enable :: bool

record slot_sta =
  attention_button_pressed :: bool
  power_fault_detected :: bool
  mrl_sensor_changed :: bool
  presence_detect_changed :: bool
  command_completed :: bool
  mrl_sensor_state :: bool
  presence_detect_state :: bool
  electromechanical_interlock_status :: bool
  data_link_layer_state_changed :: bool

record root_regs =
  system_error_on_correctable_error_enable :: bool
  system_error_on_non_fatal_error_enable :: bool
  system_error_on_fatal_error_enable :: bool
  pme_interrupt_enable :: bool
  crs_software_visibility_enable :: bool
  crs_software_visibility :: bool
  pme_requester_id :: int
  pme_status :: bool
  pme_pending :: bool

record dev_cap2 =
  completion_timeout_ranges_supported :: int
  completion_timeout_disable_supported :: bool
  ari_forwarding_supported :: bool
  atomic_op_forwarding_supported :: bool
  atomic_op_32_bit_completer_supported :: bool
  atomic_op_64_bit_completer_supported :: bool
  cas_128_bit_completer_supported :: bool
  no_ro_enabled_pr_pr_passing :: bool
  ltr_mechanism_supported :: bool
  tph_completer_supported :: int
  obff_supported :: int
  extended_fmt_field_supported :: bool
  end_end_tlp_prefix_supported :: bool
  max_end_end_tlp_prefix :: int

record dev_ctl2 =
  completion_timeout_value :: int
  completion_timeout_disable :: bool
  ari_forwarding_enable :: bool
  atomic_op_requester_enable :: bool
  atomic_op_egress_blocking :: bool
  ido_request_enable :: bool
  ido_completion_enable :: bool
  ltr_mechanism_enable :: bool
  obff_enable :: int
  end_end_tlp_prefix_blocking :: bool

record link_ctl2 =
  supported_link_speeds :: int
  crosslink_supported :: bool
  target_link_speed :: int
  enter_compliance :: bool
  hardware_autonomous_speed_disable :: bool
  selectable_de_emphasis :: bool
  transmit_margin :: int
  enter_modified_compliance :: bool
  compliance_sos :: bool
  compliance_preset_de_emphasis :: int

record link_sta2 =
  current_de_emphasis_level :: bool
  equalization_complete :: bool
  equalization_phase_1_successful :: bool
  equalization_phase_2_successful :: bool
  equalization_phase_3_successful :: bool
  link_equalization_request :: bool

record pcie_regs =
  r_hdr :: pcie_cap_hdr
  r_dev_cap :: dev_cap
  r_dev_ctl :: dev_ctl
  r_dev_sta :: dev_sta
  r_link_cap :: link_cap
  r_link_ctl :: link_ctl
  r_link_sta :: link_sta
  r_slot_cap :: slot_cap
  r_slot_ctl :: slot_ctl
  r_slot_sta :: slot_sta
  r_root :: root_regs
  r_dev_cap2 :: dev_cap2
  r_dev_ctl2 :: dev_ctl2
  r_link_ctl2 :: link_ctl2
  r_link_sta2 :: link_sta2

section \<open>PCI Express capability: reset values\<close>

text \<open>\<open>PCIECapability.__init__\<close>, one definition per register group.\<close>

definition pcie_cap_hdr_init :: pcie_cap_hdr where
  "pcie_cap_hdr_init = \<lparr>
     pcie_device_type = 0,
     pcie_slot_implemented = False,
     interrupt_message_number = 0\<rparr>"

definition dev_cap_init :: dev_cap where
  "dev_cap_init = \<lparr>
     max_payload_size_supported = 0x5,
     phantom_functions_supported = 0,
     extended_tag_supported = True,
     endpoint_l0s_acceptable_latency = 0x7,
     endpoint_l1_acceptable_latency = 0x7,
     role_based_error_reporting = True,
     captured_slot_power_limit_value = 0,
     captured_slot_power_limit_scale = 0,
     function_level_reset_capability = False\<rparr>"

definition dev_ctl_init :: dev_ctl where
  "dev_ctl_init = \<lparr>
     correctable_error_reporting_enable = False,
     non_fatal_error_reporting_enable = False,
     fatal_error_reporting_enable = False,
     unsupported_request_reporting_enable = False,
     enable_relaxed_ordering = True,
     max_payload_size = 0x0,
     extended_tag_field_enable = False,
     phantom_functions_enable = False,
     aux_power_pm_enable = False,
     enable_no_snoop = True,
     max_read_request_size = 0x2\<rparr>"

definition dev_sta_init :: dev_sta where
  "dev_sta_init = \<lparr>
     correctable_error_detected = False,
     nonfatal_error_detected = False,
     fatal_error_detected = False,
     unsupported_request_detected = False,
     aux_power_detected = False,
     transactions_pending = False\<rparr>"

definition link_cap_init :: link_cap where
  "link_cap_init = \<lparr>
     max_link_speed = 0,
     max_link_width = 0,
     aspm_support = 0,
     l0s_exit_latency = 0,
     l1_exit_latency = 0,
     clock_power_management = False,
     surprise_down_error_reporting_capability = False,
     data_link_layer_link_active_reporting_capable = False,
     link_bandwidth_notification_capability = False,
     aspm_optionality_compliance = False,
     port_number = 0\<rparr>"

definition link_ctl_init :: link_ctl where
  "link_ctl_init = \<lparr>
     aspm_control = 0,
     read_completion_boundary = False,
     link_disable = False,
     common_clock_configuration = False,
     extended_synch = False,
     enable_clock_power_management = False,
     hardware_autonomous_width_disable = False,
     link_bandwidth_management_interrupt_enable = False,
     link_autonomous_bandwidth_interrupt_enable = False\<rparr>"

definition link_sta_init :: link_sta where
  "link_sta_init = \<lparr>
     current_link_speed = 0,
     negotiated_link_width = 0,
     link_training = False,
     slot_clock_configuration = False,
     data_link_layer_link_active = False,
     link_bandwidth_management_status = False,
     link_autonomous_bandwidth_status = False\<rparr>"

definition slot_cap_init :: slot_cap where
  "slot_cap_init = \<lparr>
     attention_button_present = False,
     power_controller_present = False,
     mrl_sensor_present = False,
     attention_indicator_present = False,
     power_indicator_present = False,
     hot_plug_surprise = False,
     hot_plug_capable = False,
     slot_power_limit_value = 0,
     slot_power_limit_scale = 0,
     electromechanical_interlock_present = False,
     no_command_completed_support = False,
     physical_slot_number = 0\<rparr>"

definition slot_ctl_init :: slot_ctl where
  "slot_ctl_init = \<lparr>
     attention_button_pressed_enable = False,
     power_fault_detected_enable = False,
     mrl_sensor_changed_enable = False,
     presence_detect_changed_enable = False,
     command_completed_interrupt_enable = False,
     hot_plug_interrupt_enable = False,
     attention_indicator_control = 0,
     power_indicator_control = 0,
     power_controller_control = False,
     electromechanical_interlock_control = False,
     data_link_layer_state_changed_enable = False\<rparr>"

definition slot_sta_init :: slot_sta where
  "slot_sta_init = \<lparr>
     attention_button_pressed = False,
     power_fault_detected = False,
     mrl_sensor_changed = False,
     presence_detect_changed = False,
     command_completed = False,
     mrl_sensor_state = False,
     presence_detect_state = False,
     electromechanical_interlock_status = False,
     data_link_layer_state_changed = False\<rparr>"

definition root_regs_init :: root_regs where
  "root_regs_init = \<lparr>
     system_error_on_correctable_error_enable = False,
     system_error_on_non_fatal_error_enable = False,
     system_error_on_fatal_error_enable = False,
     pme_interrupt_enable = False,
     crs_software_visibility_enable = False,
     crs_software_visibility = False,
     pme_requester_id = 0,
     pme_status = False,
     pme_pending = False\<rparr>"

definition dev_cap2_init :: dev_cap2 where
  "dev_cap2_init = \<lparr>
     completion_timeout_ranges_supported = 0,
     completion_timeout_disable_supported = False,
     ari_forwarding_supported = False,
     atomic_op_forwarding_supported = False,
     atomic_op_32_bit_completer_supported = False,
     atomic_op_64_bit_completer_supported = False,
     cas_128_bit_completer_supported = False,
     no_ro_enabled_pr_pr_passing = False,
     ltr_mechanism_supported = False,
     tph_completer_supported = 0,
     obff_supported = 0,
     extended_fmt_field_supported = False,
     end_end_tlp_prefix_supported = False,
     max_end_end_tlp_prefix = 0\<rparr>"

definition dev_ctl2_init :: dev_ctl2 where
  "dev_ctl2_init = \<lparr>
     completion_timeout_value = 0,
     completion_timeout_disable = False,
     ari_forwarding_enable = False,
     atomic_op_requester_enable = False,
     atomic_op_egress_blocking = False,
     ido_request_enable = False,
     ido_completion_enable = False,
     ltr_mechanism_enable = False,
     obff_enable = 0,
     end_end_tlp_prefix_blocking = False\<rparr>"

definition link_ctl2_init :: link_ctl2 where
  "link_ctl2_init = \<lparr>
     supported_link_speeds = 0,
     crosslink_supported = False,
     target_link_speed = 0,
     enter_compliance = False,
     hardware_autonomous_speed_disable = False,
     selectable_de_emphasis = False,
     transmit_margin = 0,
     enter_modified_compliance = False,
     compliance_sos = False,
     compliance_preset_de_emphasis = 0\<rparr>"

definition link_sta2_init :: link_sta2 where
  "link_sta2_init = \<lparr>
     current_de_emphasis_level = False,
     equalization_complete = False,
     equalization_phase_1_successful = False,
     equalization_phase_2_successful = False,
     equalization_phase_3_successful = False,
     link_equalization_request = False\<rparr>"

definition pcie_regs_init :: pcie_regs where
  "pcie_regs_init = \<lparr>
     r_hdr = pcie_cap_hdr_init,
     r_dev_cap = dev_cap_init,
     r_dev_ctl = dev_ctl_init,
     r_dev_sta = dev_sta_init,
     r_link_cap = link_cap_init,
     r_link_ctl = link_ctl_init,
     r_link_sta = link_sta_init,
     r_slot_cap = slot_cap_init,
     r_slot_ctl = slot_ctl_init,
     r_slot_sta = slot_sta_init,
     r_root = root_regs_init,
     r_dev_cap2 = dev_cap2_init,
     r_dev_ctl2 = dev_ctl2_init,
     r_link_ctl2 = link_ctl2_init,
     r_link_sta2 = link_sta2_init\<rparr>"

section \<open>PCI Express capability: reading\<close>

definition read_cap_hdr :: "pcie_cap_hdr \<Rightarrow> int" where
  "read_cap_hdr h =
     push_bit 16 2 OR push_bit 20 (pcie_device_type h AND 0xf) OR flag 24 (pcie_slot_implemented h)
     OR push_bit 25 (interrupt_message_number h AND 0x1f)"

definition read_dev_cap :: "dev_cap \<Rightarrow> int" where
  "read_dev_cap d =
     (max_payload_size_supported d AND 0x7) OR push_bit 3 (phantom_functions_supported d AND 0x3)
     OR flag 5 (extended_tag_supported d)
     OR push_bit 6 (endpoint_l0s_acceptable_latency d AND 0x7)
     OR push_bit 9 (endpoint_l1_acceptable_latency d AND 7)
     OR flag 15 (role_based_error_reporting d)
     OR push_bit 18 (captured_slot_power_limit_value d AND 0xff)
     OR push_bit 26 (captured_slot_power_limit_scale d AND 0x3)
     OR flag 28 (function_level_reset_capability d)"

definition read_dev_ctl :: "dev_ctl \<Rightarrow> int" where
  "read_dev_ctl d =
     flag 0 (correctable_error_reporting_enable d) OR flag 1 (non_fatal_error_reporting_enable d)
     OR flag 2 (fatal_error_reporting_enable d) OR flag 3 (unsupported_request_reporting_enable d)
     OR flag 4 (enable_relaxed_ordering d) OR push_bit 5 (max_payload_size d AND 0x7)
     OR flag 8 (extended_tag_field_enable d) OR flag 9 (phantom_functions_enable d)
     OR flag 10 (aux_power_pm_enable d) OR flag 11 (enable_no_snoop d)
     OR push_bit 12 (max_read_request_size d AND 0x7)"

definition read_dev_sta :: "dev_sta \<Rightarrow> int" where
  "read_dev_sta d =
     flag 16 (correctable_error_detected d) OR flag 17 (nonfatal_error_detected d)
     OR flag 18 (fatal_error_detected d) OR flag 19 (unsupported_request_detected d)
     OR flag 20 (aux_power_detected d) OR flag 21 (transactions_pending d)"

text \<open>The right shifts are the source's.\<close>

definition read_link_cap :: "link_cap \<Rightarrow> int" where
  "read_link_cap l =
     (max_link_speed l AND 0xf) OR drop_bit 4 (max_link_width l AND 0x3f)
     OR drop_bit 10 (aspm_support l AND 0x3) OR drop_bit 12 (l0s_exit_latency l AND 0x7)
     OR drop_bit 15 (l1_exit_latency l AND 0x7)
     OR flag 18 (clock_power_management l) OR flag 19 (surprise_down_error_reporting_capability l)
     OR flag 20 (data_link_layer_link_active_reporting_capable l)
     OR flag 21 (link_bandwidth_notification_capability l) OR flag 22 (aspm_optionality_compliance l)
     OR push_bit 24 (port_number l AND 0xff)"

definition read_link_ctl :: "link_ctl \<Rightarrow> int" where
  "read_link_ctl l =
     (aspm_control l AND 0x3) OR flag 3 (read_completion_boundary l) OR flag 4 (link_disable l)
     OR flag 6 (common_clock_configuration l) OR flag 7 (extended_synch l)
     OR flag 8 (enable_clock_power_management l) OR flag 9 (hardware_autonomous_width_disable l)
     OR flag 10 (link_bandwidth_management_interrupt_enable l)
     OR flag 11 (link_autonomous_bandwidth_interrupt_enable l)"

definition read_link_sta :: "link_sta \<Rightarrow> int" where
  "read_link_sta l =
     push_bit 16 (current_link_speed l AND 0xf) OR push_bit 20 (negotiated_link_width l AND 0x3f)
     OR flag 27 (link_training l) OR flag 28 (slot_clock_configuration l)
     OR flag 29 (data_link_layer_link_active l) OR flag 30 (link_bandwidth_management_status l)
     OR flag 31 (link_autonomous_bandwidth_status l)"

definition read_slot_cap :: "slot_cap \<Rightarrow> int" where
  "read_slot_cap c =
     flag 0 (attention_button_present c) OR flag 1 (power_controller_present c)
     OR flag 2 (mrl_sensor_present c) OR flag 3 (attention_indicator_present c)
     OR flag 4 (power_indicator_present c) OR flag 5 (hot_plug_surprise c) OR flag 6 (hot_plug_capable c)
     OR push_bit 7 (slot_power_limit_value c AND 0xff) OR push_bit 15 (slot_power_limit_scale c AND 0x3)
     OR flag 17 (electromechanical_interlock_present c) OR flag 18 (no_command_completed_support c)
     OR push_bit 19 (physical_slot_number c AND 0x1fff)"

definition read_slot_ctl :: "slot_ctl \<Rightarrow> int" where
  "read_slot_ctl c =
     flag 0 (attention_button_pressed_enable c) OR flag 1 (power_fault_detected_enable c)
     OR flag 2 (mrl_sensor_changed_enable c) OR flag 3 (presence_detect_changed_enable c)
     OR flag 4 (command_completed_interrupt_enable c) OR flag 5 (hot_plug_interrupt_enable c)
     OR push_bit 6 (attention_indicator_control c AND 0x3) OR push_bit 8 (power_indicator_control c AND 0x3)
     OR flag 10 (power_controller_control c) OR flag 11 (electromechanical_interlock_control c)
     OR flag 12 (data_link_layer_state_changed_enable c)"

definition read_slot_sta :: "slot_sta \<Rightarrow> int" where
  "read_slot_sta c =
     flag 16 (attention_button_pressed c) OR flag 17 (power_fault_detected c)
     OR flag 18 (mrl_sensor_changed c) OR flag 19 (presence_detect_changed c)
     OR flag 20 (command_completed c) OR flag 21 (mrl_sensor_state c)
     OR flag 22 (presence_detect_state c) OR flag 23 (electromechanical_interlock_status c)
     OR flag 24 (data_link_layer_state_changed c)"

definition read_root_ctl :: "root_regs \<Rightarrow> int" where
  "read_root_ctl d =
     flag 0 (system_error_on_correctable_error_enable d)
     OR flag 1 (system_error_on_non_fatal_error_enable d)
     OR flag 2 (system_error_on_fatal_error_enable d)
     OR flag 3 (pme_interrupt_enable d) OR flag 4 (crs_software_visibility_enable d)
     OR flag 16 (crs_software_visibility d)"

definition read_root_sta :: "root_regs \<Rightarrow> int" where
  "read_root_sta d =
     (pme_requester_id d AND 0xffff) OR flag 16 (pme_status d) OR flag 17 (pme_pending d)"

definition read_dev_cap2 :: "dev_cap2 \<Rightarrow> int" where
  "read_dev_cap2 d =
     (completion_timeout_ranges_supported d AND 0xf)
     OR flag 4 (completion_timeout_disable_supported d) OR flag 5 (ari_forwarding_supported d)
     OR flag 6 (atomic_op_forwarding_supported d) OR flag 7 (atomic_op_32_bit_completer_supported d)
     OR flag 8 (atomic_op_64_bit_completer_supported d) OR flag 9 (cas_128_bit_completer_supported d)
     OR flag 10 (no_ro_enabled_pr_pr_passing d) OR flag 11 (ltr_mechanism_supported d)
     OR push_bit 12 (tph_completer_supported d AND 0x3) OR push_bit 18 (obff_supported d AND 0x3)
     OR flag 20 (extended_fmt_field_supported d) OR flag 21 (end_end_tlp_prefix_supported d)
     OR push_bit 22 (max_end_end_tlp_prefix d AND 0x3)"

definition read_dev_ctl2 :: "dev_ctl2 \<Rightarrow> int" where
  "read_dev_ctl2 d =
     (completion_timeout_value d AND 0xf) OR flag 4 (completion_timeout_disable d)
     OR flag 5 (ari_forwarding_enable d) OR flag 6 (atomic_op_requester_enable d)
     OR flag 7 (atomic_op_egress_blocking d) OR flag 8 (ido_request_enable d)
     OR flag 9 (ido_completion_enable d) OR flag 10 (ltr_mechanism_enable d)
     OR push_bit 13 (obff_enable d AND 0x3) OR flag 15 (end_end_tlp_prefix_blocking d)"

definition read_link_ctl2 :: "link_ctl2 \<Rightarrow> int" where
  "read_link_ctl2 l =
     (target_link_speed l AND 0xf) OR flag 4 (enter_compliance l)
     OR flag 5 (hardware_autonomous_speed_disable l) OR flag 6 (selectable_de_emphasis l)
     OR push_bit 7 (transmit_margin l AND 0x7) OR flag 10 (enter_modified_compliance l)
     OR flag 11 (compliance_sos l) OR push_bit 12 (compliance_preset_de_emphasis l AND 0xf)"

definition read_link_sta2 :: "link_sta2 \<Rightarrow> int" where
  "read_link_sta2 l =
     flag 16 (current_de_emphasis_level l) OR flag 17 (equalization_complete l)
     OR flag 18 (equalization_phase_1_successful l) OR flag 19 (equalization_phase_2_successful l)
     OR flag 20 (equalization_phase_3_successful l) OR flag 21 (link_equalization_request l)"

definition read_pcie_cap_register :: "pcie_regs \<Rightarrow> int \<Rightarrow> int" where
  "read_pcie_cap_register s reg =
     (if reg = 0 then read_cap_hdr (r_hdr s)
      else if reg = 1 then read_dev_cap (r_dev_cap s)
      else if reg = 2 then read_dev_ctl (r_dev_ctl s) OR read_dev_sta (r_dev_sta s)
      else if reg = 3 then read_link_cap (r_link_cap s)
      else if reg = 4 then read_link_ctl (r_link_ctl s) OR read_link_sta (r_link_sta s)
      else if reg = 5 then read_slot_cap (r_slot_cap s)
      else if reg = 6 then read_slot_ctl (r_slot_ctl s) OR read_slot_sta (r_slot_sta s)
      else if reg = 7 then read_root_ctl (r_root s)
      else if reg = 8 then read_root_sta (r_root s)
      else if reg = 9 then read_dev_cap2 (r_dev_cap2 s)
      else if reg = 10 then read_dev_ctl2 (r_dev_ctl2 s)
      else if reg = 11 then
        push_bit 1 (supported_link_speeds (r_link_ctl2 s) AND 0x7f)
        OR flag 8 (crosslink_supported (r_link_ctl2 s))
      else if reg = 12 then read_link_ctl2 (r_link_ctl2 s) OR read_link_sta2 (r_link_sta2 s)
      else 0)"

section \<open>PCI Express capability: writing\<close>

text \<open>\<open>upd b new old\<close> is an assignment guarded by a byte lane; a status bit is cleared by
  writing one to it. \<open>initiate_function_level_reset\<close> and \<open>initiate_retrain_link\<close> are empty
  methods. The branch of register 12 ends in \<open>val |= 1 << 21\<close> where \<open>val\<close> was never
  assigned.\<close>

definition upd :: "bool \<Rightarrow> 'a \<Rightarrow> 'a \<Rightarrow> 'a" where
  "upd b new old = (if b then new else old)"

definition write_dev_ctl :: "int \<Rightarrow> int \<Rightarrow> dev_ctl \<Rightarrow> dev_ctl" where
  "write_dev_ctl dat msk d = d\<lparr>
     correctable_error_reporting_enable :=
       upd (tst msk 0) (tst dat 0) (correctable_error_reporting_enable d),
     non_fatal_error_reporting_enable :=
       upd (tst msk 0) (tst dat 1) (non_fatal_error_reporting_enable d),
     fatal_error_reporting_enable :=
       upd (tst msk 0) (tst dat 2) (fatal_error_reporting_enable d),
     unsupported_request_reporting_enable :=
       upd (tst msk 0) (tst dat 3) (unsupported_request_reporting_enable d),
     enable_relaxed_ordering := upd (tst msk 0) (tst dat 4) (enable_relaxed_ordering d),
     max_payload_size := upd (tst msk 0) (drop_bit 5 dat AND 0x7) (max_payload_size d),
     extended_tag_field_enable := upd (tst msk 1) (tst dat 8) (extended_tag_field_enable d),
     phantom_functions_enable := upd (tst msk 1) (tst dat 9) (phantom_functions_enable d),
     aux_power_pm_enable := upd (tst msk 1) (tst dat 10) (aux_power_pm_enable d),
     enable_no_snoop := upd (tst msk 1) (tst dat 11) (enable_no_snoop d),
     max_read_request_size :=
       upd (tst msk 1) (drop_bit 12 dat AND 0x7) (max_read_request_size d)\<rparr>"

definition write_dev_sta :: "int \<Rightarrow> int \<Rightarrow> dev_sta \<Rightarrow> dev_sta" where
  "write_dev_sta dat msk d = d\<lparr>
     correctable_error_detected :=
       (correctable_error_detected d \<and> \<not> (tst msk 2 \<and> tst dat 16)),
     nonfatal_error_detected :=
       (nonfatal_error_detected d \<and> \<not> (tst msk 2 \<and> tst dat 17)),
     fatal_error_detected :=
       (fatal_error_detected d \<and> \<not> (tst msk 2 \<and> tst dat 18)),
     unsupported_request_detected :=
       (unsupported_request_detected d \<and> \<not> (tst msk 2 \<and> tst dat 19)),
     aux_power_detected := (aux_power_detected d \<and> \<not> (tst msk 2 \<and> tst dat 20)),
     transactions_pending :=
       (transactions_pending d \<and> \<not> (tst msk 2 \<and> tst dat 21))\<rparr>"

definition write_link_ctl :: "int \<Rightarrow> int \<Rightarrow> link_ctl \<Rightarrow> link_ctl" where
  "write_link_ctl dat msk d = d\<lparr>
     aspm_control := upd (tst msk 0) (dat AND 3) (aspm_control d),
     read_completion_boundary := upd (tst msk 0) (tst dat 4) (read_completion_boundary d),
     common_clock_configuration := upd (tst msk 0) (tst dat 6) (common_clock_configuration d),
     extended_synch := upd (tst msk 0) (tst dat 7) (extended_synch d),
     enable_clock_power_management :=
       upd (tst msk 1) (tst dat 8) (enable_clock_power_management d),
     hardware_autonomous_width_disable :=
       upd (tst msk 1) (tst dat 9) (hardware_autonomous_width_disable d),
     link_bandwidth_management_interrupt_enable :=
       upd (tst msk 1) (tst dat 10) (link_bandwidth_management_interrupt_enable d),
     link_autonomous_bandwidth_interrupt_enable :=
       upd (tst msk 1) (tst dat 11) (link_autonomous_bandwidth_interrupt_enable d)\<rparr>"

definition write_link_sta :: "int \<Rightarrow> int \<Rightarrow> link_sta \<Rightarrow> link_sta" where
  "write_link_sta dat msk d = d\<lparr>
     link_bandwidth_management_status :=
       (link_bandwidth_management_status d \<and> \<not> (tst msk 3 \<and> tst dat 30)),
     link_autonomous_bandwidth_status :=
       (link_autonomous_bandwidth_status d \<and> \<not> (tst msk 3 \<and> tst dat 31))\<rparr>"

definition write_slot_ctl :: "int \<Rightarrow> int \<Rightarrow> slot_ctl \<Rightarrow> slot_ctl" where
  "write_slot_ctl dat msk d = d\<lparr>
     attention_button_pressed_enable :=
       upd (tst msk 0) (tst dat 0) (attention_button_pressed_enable d),
     power_fault_detected_enable := upd (tst msk 0) (tst dat 1) (power_fault_detected_enable d),
     mrl_sensor_changed_enable := upd (tst msk 0) (tst dat 2) (mrl_sensor_changed_enable d),
     presence_detect_changed_enable :=
       upd (tst msk 0) (tst dat 3) (presence_detect_changed_enable d),
     command_completed_interrupt_enable :=
       upd (tst msk 0) (tst dat 4) (command_completed_interrupt_enable d),
     hot_plug_interrupt_enable := upd (tst msk 0) (tst dat 5) (hot_plug_interrupt_enable d),
     attention_indicator_control :=
       upd (tst msk 0) (drop_bit 6 dat AND 0x3) (attention_indicator_control d),
     power_indicator_control :=
       upd (tst msk 1) (drop_bit 8 dat AND 0x3) (power_indicator_control d),
     power_controller_control := upd (tst msk 1) (tst dat 10) (power_controller_control d),
     electromechanical_interlock_control :=
       upd (tst msk 1) (tst dat 11) (electromechanical_interlock_control d),
     data_link_layer_state_changed_enable :=
       upd (tst msk 1) (tst dat 12) (data_link_layer_state_changed_enable d)\<rparr>"

definition write_slot_sta :: "int \<Rightarrow> int \<Rightarrow> slot_sta \<Rightarrow> slot_sta" where
  "write_slot_sta dat msk d = d\<lparr>
     attention_button_pressed :=
       (attention_button_pressed d \<and> \<not> (tst msk 2 \<and> tst dat 16)),
     power_fault_detected :=
       (power_fault_detected d \<and> \<not> (tst msk 2 \<and> tst dat 17)),
     mrl_sensor_changed := (mrl_sensor_changed d \<and> \<not> (tst msk 2 \<and> tst dat 18)),
     presence_detect_changed :=
       (presence_detect_changed d \<and> \<not> (tst msk 2 \<and> tst dat 19)),
     command_completed := (command_completed d \<and> \<not> (tst msk 2 \<and> tst dat 20)),
     data_link_layer_state_changed :=
       (data_link_layer_state_changed d \<and> \<not> (tst msk 3 \<and> tst dat 24))\<rparr>"

definition write_root_ctl :: "int \<Rightarrow> int \<Rightarrow> root_regs \<Rightarrow> root_regs" where
  "write_root_ctl dat msk d = d\<lparr>
     system_error_on_correctable_error_enable :=
       upd (tst msk 0) (tst dat 0) (system_error_on_correctable_error_enable d),
     system_error_on_non_fatal_error_enable :=
       upd (tst msk 0) (tst dat 1) (system_error_on_non_fatal_error_enable d),
     system_error_on_fatal_error_enable :=
       upd (tst msk 0) (tst dat 2) (system_error_on_fatal_error_enable d),
     pme_interrupt_enable := upd (tst msk 0) (tst dat 3) (pme_interrupt_enable d),
     crs_software_visibility_enable :=
       upd (tst msk 0) (tst dat 4) (crs_software_visibility_enable d)\<rparr>"

definition write_root_sta :: "int \<Rightarrow> int \<Rightarrow> root_regs \<Rightarrow> root_regs" where
  "write_root_sta dat msk d = d\<lparr>
     pme_status := (pme_status d \<and> \<not> (tst msk 2 \<and> tst dat 16))\<rparr>"

definition write_dev_ctl2 :: "int \<Rightarrow> int \<Rightarrow> dev_ctl2 \<Rightarrow> dev_ctl2" where
  "write_dev_ctl2 dat msk d = d\<lparr>
     completion_timeout_value := upd (tst msk 0) (dat AND 0xf) (completion_timeout_value d),
     completion_timeout_disable := upd (tst msk 0) (tst dat 4) (completion_timeout_disable d),
     ari_forwarding_enable := upd (tst msk 0) (tst dat 5) (ari_forwarding_enable d),
     atomic_op_requester_enable := upd (tst msk 0) (tst dat 6) (atomic_op_requester_enable d),
     atomic_op_egress_blocking := upd (tst msk 0) (tst dat 7) (atomic_op_egress_blocking d),
     ido_request_enable := upd (tst msk 1) (tst dat 8) (ido_request_enable d),
     ido_completion_enable := upd (tst msk 1) (tst dat 9) (ido_completion_enable d),
     ltr_mechanism_enable := upd (tst msk 1) (tst dat 10) (ltr_mechanism_enable d),
     obff_enable := upd (tst msk 1) (drop_bit 13 dat AND 0x3) (obff_enable d),
     end_end_tlp_prefix_blocking :=
       upd (tst msk 1) (tst dat 15) (end_end_tlp_prefix_blocking d)\<rparr>"

definition write_link_ctl2 :: "int \<Rightarrow> int \<Rightarrow> link_ctl2 \<Rightarrow> link_ctl2" where
  "write_link_ctl2 dat msk d = d\<lparr>
     target_link_speed := upd (tst msk 0) (dat AND 0xf) (target_link_speed d),
     enter_compliance := upd (tst msk 0) (tst dat 4) (enter_compliance d),
     hardware_autonomous_speed_disable :=
       upd (tst msk 0) (tst dat 5) (hardware_autonomous_speed_disable d),
     transmit_margin :=
       (let m = upd (tst msk 0) (transmit_margin d AND 0x6 OR drop_bit 7 dat AND 0x1) (transmit_margin d)
       in upd (tst msk 1) (m AND 0x1 OR drop_bit 7 dat AND 0x6) m),
     enter_modified_compliance := upd (tst msk 1) (tst dat 10) (enter_modified_compliance d),
     compliance_sos := upd (tst msk 1) (tst dat 11) (compliance_sos d),
     compliance_preset_de_emphasis :=
       upd (tst msk 1) (drop_bit 12 dat AND 0xff) (compliance_preset_de_emphasis d)\<rparr>"

definition write_pcie_cap_register :: "int \<Rightarrow> int \<Rightarrow> int \<Rightarrow> pcie_regs \<Rightarrow> pcie_regs result" where
  "write_pcie_cap_register reg dat msk s =
     (if reg = 2 then
        Inr (s\<lparr>r_dev_ctl := write_dev_ctl dat msk (r_dev_ctl s),
               r_dev_sta := write_dev_sta dat msk (r_dev_sta s)\<rparr>)
      else if reg = 4 then
        Inr (s\<lparr>r_link_ctl := write_link_ctl dat msk (r_link_ctl s),
               r_link_sta := write_link_sta dat msk (r_link_sta s)\<rparr>)
      else if reg = 6 then
        Inr (s\<lparr>r_slot_ctl := write_slot_ctl dat msk (r_slot_ctl s),
               r_slot_sta := write_slot_sta dat msk (r_slot_sta s)\<rparr>)
      else if reg = 7 then Inr (s\<lparr>r_root := write_root_ctl dat msk (r_root s)\<rparr>)
      else if reg = 8 then Inr (s\<lparr>r_root := write_root_sta dat msk (r_root s)\<rparr>)
      else if reg = 10 then Inr (s\<lparr>r_dev_ctl2 := write_dev_ctl2 dat msk (r_dev_ctl2 s)\<rparr>)
      else if reg = 12 then
        (if link_equalization_request (r_link_sta2 s) then Inl UnboundLocalError
         else Inr (s\<lparr>r_link_ctl2 := write_link_ctl2 dat msk (r_link_ctl2 s)\<rparr>))
      else Inr s)"

section \<open>Read-write and write-one-to-clear bits\<close>

text \<open>The contract of a control and status register: the bits of \<open>rw\<close> take the written
  value in the enabled lanes, the bits of \<open>w1c\<close> are cleared where a one is written in an
  enabled lane, every other bit is read-only.\<close>

definition rw1c_update :: "int \<Rightarrow> int \<Rightarrow> int \<Rightarrow> int \<Rightarrow> int \<Rightarrow> int" where
  "rw1c_update rw w1c old msk dat =
     byte_mask_update old msk dat rw AND NOT (byte_mask_update 0 msk dat w1c)"

lemma bit_rw1c_update:
  "0 \<le> msk \<Longrightarrow> bit (rw1c_update rw w1c old msk dat) i =
     ((if bit msk (i div 8) \<and> bit rw i then bit dat i else bit old i) \<and>
      \<not> (bit msk (i div 8) \<and> bit w1c i \<and> bit dat i))"
  by (auto simp: rw1c_update_def bit_byte_mask_update bit_and_iff bit_not_iff)

lemma bit_upd [simp]: "bit (upd b x y) i = (if b then bit x i else bit y i)"
  by (simp add: upd_def)

lemma upd_True [simp]: "upd True x y = x" and upd_False [simp]: "upd False x y = y"
  by (simp_all add: upd_def)


lemma upt_32:
  "[0..<32] = [0::nat, 1, 2, 3, 4, 5, 6, 7, 8, 9, 10, 11, 12, 13, 14, 15,
               16, 17, 18, 19, 20, 21, 22, 23, 24, 25, 26, 27, 28, 29, 30, 31]"
  by (simp add: upt_rec)

lemma fits_rw1c:
  assumes "0 \<le> msk" "fits n old" "fits n rw"
  shows "fits n (rw1c_update rw w1c old msk dat)"
proof -
  have "take_bit n (rw1c_update rw w1c old msk dat) = rw1c_update rw w1c old msk dat"
    using assms fits_bit_high[of n old] fits_bit_high[of n rw]
    by (intro bit_eqI) (auto simp: bit_rw1c_update bit_take_bit_iff not_less[symmetric])
  then show ?thesis by (simp only: fits_iff_take_bit)
qed

text \<open>A register read-back meets the contract when its 32 bits do.\<close>

lemma rw1c_eqI:
  assumes "0 \<le> msk" "fits 32 rw" "fits 32 old" "fits 32 new"
    and bits: "list_all (\<lambda>i. bit new i =
       ((if bit msk (i div 8) \<and> bit rw i then bit dat i else bit old i) \<and>
        \<not> (bit msk (i div 8) \<and> bit w1c i \<and> bit dat i)))
      [0, 1, 2, 3, 4, 5, 6, 7, 8, 9, 10, 11, 12, 13, 14, 15,
       16, 17, 18, 19, 20, 21, 22, 23, 24, 25, 26, 27, 28, 29, 30, 31]"
  shows "new = rw1c_update rw w1c old msk dat"
proof (rule bit_eqI)
  fix i
  show "bit new i = bit (rw1c_update rw w1c old msk dat) i"
  proof (cases "i < 32")
    case True
    then have "i \<in> set [0..<32]" by (simp only: set_upt atLeastLessThan_iff) simp
    with bits show ?thesis
      unfolding upt_32[symmetric] list_all_iff bit_rw1c_update[OF assms(1)] by (rule bspec)
  next
    case False
    then show ?thesis
      using fits_bit_high[OF assms(4)] fits_bit_high[OF fits_rw1c[OF assms(1,3,2)]] by simp
  qed
qed

lemma fits_flag: "k < n \<Longrightarrow> fits n (flag k b)"
  by (auto simp: flag_def fits_def push_bit_of_1)

lemmas reg_fits = fits_or fits_push_bit fits_take_bit_le fits_flag

lemmas reg_bits = masks bit_or_iff bit_take_bit_iff bit_drop_bit_eq

lemmas ctl_defs = read_dev_ctl_def write_dev_ctl_def read_dev_sta_def write_dev_sta_def
  read_slot_ctl_def write_slot_ctl_def read_slot_sta_def write_slot_sta_def
  read_dev_ctl2_def write_dev_ctl2_def

lemmas root_defs = read_root_ctl_def read_root_sta_def write_root_ctl_def write_root_sta_def

lemma dev_control_rw1c: "0 \<le> msk \<Longrightarrow>
  read_dev_ctl (write_dev_ctl dat msk c) OR read_dev_sta (write_dev_sta dat msk d) =
    rw1c_update 0x7fff 0x3f0000 (read_dev_ctl c OR read_dev_sta d) msk dat"
  by (rule rw1c_eqI) (simp_all add: ctl_defs reg_fits reg_bits fits_def[of 32 "0x7fff"])

lemma slot_control_rw1c: "0 \<le> msk \<Longrightarrow>
  read_slot_ctl (write_slot_ctl dat msk c) OR read_slot_sta (write_slot_sta dat msk d) =
    rw1c_update 0x1fff 0x11f0000 (read_slot_ctl c OR read_slot_sta d) msk dat"
  by (rule rw1c_eqI) (simp_all add: ctl_defs reg_fits reg_bits fits_def[of 32 "0x1fff"])

lemma dev_control2_rw1c: "0 \<le> msk \<Longrightarrow>
  read_dev_ctl2 (write_dev_ctl2 dat msk c) = rw1c_update 0xe7ff 0 (read_dev_ctl2 c) msk dat"
  by (rule rw1c_eqI) (simp_all add: ctl_defs reg_fits reg_bits fits_def[of 32 "0xe7ff"])

lemma root_control_rw1c: "0 \<le> msk \<Longrightarrow>
  read_root_ctl (write_root_ctl dat msk c) = rw1c_update 0x1f 0 (read_root_ctl c) msk dat"
  by (rule rw1c_eqI) (simp_all add: root_defs reg_fits reg_bits fits_def[of 32 "0x1f"])

lemma root_status_rw1c: "0 \<le> msk \<Longrightarrow>
  read_root_sta (write_root_sta dat msk c) = rw1c_update 0 0x10000 (read_root_sta c) msk dat"
  by (rule rw1c_eqI) (simp_all add: root_defs reg_fits reg_bits fits_def[of 32 0])

lemma root_frame:
  "read_root_sta (write_root_ctl dat msk c) = read_root_sta c"
  "read_root_ctl (write_root_sta dat msk c) = read_root_ctl c"
  by (simp_all add: root_defs)

text \<open>The registers that meet the contract, with their read-write and write-one-to-clear
  bits: device, slot, root control, root status and device control 2.\<close>

definition rw1c_table :: "(int \<times> int \<times> int) list" where
  "rw1c_table = [(2, 0x7fff, 0x3f0000), (6, 0x1fff, 0x11f0000), (7, 0x1f, 0), (8, 0, 0x10000),
                 (10, 0xe7ff, 0)]"




text \<open>The two byte lanes of link control 2 write the transmit margin in two parts.\<close>

lemma link_control2_rw: "0 \<le> msk \<Longrightarrow>
  read_link_ctl2 (write_link_ctl2 dat msk c) OR read_link_sta2 d =
    rw1c_update 0xffbf 0 (read_link_ctl2 c OR read_link_sta2 d) msk dat"
  by (rule rw1c_eqI)
    (simp_all add: read_link_ctl2_def write_link_ctl2_def read_link_sta2_def Let_def
      reg_fits reg_bits fits_def[of 32 "0xffbf"] bit_and_iff)

text \<open>Link control 2 is read-write except the de-emphasis bit, and writing it
  while a link equalization request is pending raises, because the branch ends in an
  assignment to a variable it never set.\<close>

theorem link_control2_write:
  assumes "0 \<le> msk"
  shows "case write_pcie_cap_register 12 dat msk s of
      Inl e \<Rightarrow> e = UnboundLocalError \<and> bit (read_pcie_cap_register s 12) 21
    | Inr s' \<Rightarrow> \<not> bit (read_pcie_cap_register s 12) 21 \<and>
        read_pcie_cap_register s' 12 = rw1c_update 0xffbf 0 (read_pcie_cap_register s 12) msk dat"
proof -
  have "bit (read_pcie_cap_register s 12) 21 \<longleftrightarrow> link_equalization_request (r_link_sta2 s)"
    by (simp add: read_pcie_cap_register_def read_link_ctl2_def read_link_sta2_def reg_bits)
  with link_control2_rw[OF assms, of dat "r_link_ctl2 s" "r_link_sta2 s"] show ?thesis
    by (simp add: write_pcie_cap_register_def read_pcie_cap_register_def)
qed

theorem link_control2_write_witness:
  "case write_pcie_cap_register 12 0x381 3 pcie_regs_init of
     Inl e \<Rightarrow> e = UnboundLocalError \<and> bit (read_pcie_cap_register pcie_regs_init 12) 21
   | Inr s' \<Rightarrow> \<not> bit (read_pcie_cap_register pcie_regs_init 12) 21 \<and>
       read_pcie_cap_register s' 12 =
         rw1c_update 0xffbf 0 (read_pcie_cap_register pcie_regs_init 12) 3 0x381"
  by (rule link_control2_write) simp

text \<open>The link capabilities register never shows the link width, the ASPM
  support or the exit latencies: the fields are shifted right instead of left, so bits 4 to
  17 read as zero whatever the device supports.\<close>

theorem link_capability_fields_lost:
  "take_bit 14 (drop_bit 4 (read_pcie_cap_register s 3)) = 0"
proof (rule bit_eqI)
  fix i
  show "bit (take_bit 14 (drop_bit 4 (read_pcie_cap_register s 3))) i = bit 0 i"
    by (auto simp: read_pcie_cap_register_def read_link_cap_def reg_bits)
qed

text \<open>Bit 4 written to link control comes back as bit 3 (the read completion
  boundary), and the link disable bit 4 keeps its old value: software cannot disable the
  link.\<close>

theorem link_control_rcb_misplaced:
  assumes "bit msk 0" and "write_pcie_cap_register 4 dat msk s = Inr s'"
  shows "bit (read_pcie_cap_register s' 4) 3 = bit dat 4 \<and>
         bit (read_pcie_cap_register s' 4) 4 = bit (read_pcie_cap_register s 4) 4"
  using assms by (auto simp: write_pcie_cap_register_def read_pcie_cap_register_def
      read_link_ctl_def write_link_ctl_def read_link_sta_def write_link_sta_def reg_bits)

theorem link_control_rcb_misplaced_witness:
  "\<exists>s'. write_pcie_cap_register 4 0x10 0xf pcie_regs_init = Inr s' \<and>
     bit (read_pcie_cap_register s' 4) 3 \<and> \<not> bit (read_pcie_cap_register s' 4) 4"
proof -
  obtain s' where w: "write_pcie_cap_register 4 0x10 0xf pcie_regs_init = Inr s'"
    by (simp add: write_pcie_cap_register_def)
  have "\<not> bit (read_pcie_cap_register pcie_regs_init 4) 4"
    by (simp add: read_pcie_cap_register_def pcie_regs_init_def read_link_ctl_def link_ctl_init_def
        read_link_sta_def link_sta_init_def reg_bits)
  with w link_control_rcb_misplaced[of "0xf" "0x10" pcie_regs_init s'] show ?thesis
    by (simp add: bit_0)
qed

end
