(* ===== verification/PcieMsi.thy ===== *)
theory PcieMsi
  imports PcieRegs
begin

text \<open>
  The MSI and MSI-X capabilities of \<open>fpga/lib/pcie/tb/pcie.py\<close> (\<open>MSICapability\<close>,
  \<open>MSIXCapability\<close>): registers whose position depends on the 64-bit and mask options, and
  the memory write an interrupt turns into. An interrupt yields the address and the four
  data bytes handed to \<open>mem_write\<close>, or nothing when it is refused.
\<close>

unbundle bit_operations_syntax

section \<open>MSI\<close>

record msi_regs =
  msi_enable :: bool
  msi_multiple_message_capable :: int
  msi_multiple_message_enable :: int
  msi_64bit_address_capable :: bool
  msi_per_vector_mask_capable :: bool
  msi_message_address :: int
  msi_message_data :: int
  msi_mask_bits :: int
  msi_pending_bits :: int

definition msi_regs_init :: msi_regs where
  "msi_regs_init = \<lparr>msi_enable = False, msi_multiple_message_capable = 0,
     msi_multiple_message_enable = 0, msi_64bit_address_capable = False,
     msi_per_vector_mask_capable = False, msi_message_address = 0, msi_message_data = 0,
     msi_mask_bits = 0, msi_pending_bits = 0\<rparr>"

definition read_msi_cap_register :: "msi_regs \<Rightarrow> int \<Rightarrow> int option" where
  "read_msi_cap_register s reg =
     (if reg = 0 then
        Some (flag 16 (msi_enable s) OR push_bit 17 (msi_multiple_message_capable s AND 0x7)
              OR push_bit 20 (msi_multiple_message_enable s AND 0x7)
              OR flag 23 (msi_64bit_address_capable s) OR flag 24 (msi_per_vector_mask_capable s))
      else if reg = 1 then Some (msi_message_address s AND 0xfffffffc)
      else if reg = 2 \<and> msi_64bit_address_capable s then
        Some (drop_bit 32 (msi_message_address s) AND 0xffffffff)
      else if reg = (if msi_64bit_address_capable s then 3 else 2) then
        Some (msi_message_data s AND 0xffff)
      else if reg = (if msi_64bit_address_capable s then 4 else 3) \<and> msi_per_vector_mask_capable s then
        Some (msi_mask_bits s AND 0xffffffff)
      else if reg = (if msi_64bit_address_capable s then 5 else 4) \<and> msi_per_vector_mask_capable s then
        Some (msi_pending_bits s AND 0xffffffff)
      else None)"

definition write_msi_cap_register :: "int \<Rightarrow> int \<Rightarrow> int \<Rightarrow> msi_regs \<Rightarrow> msi_regs" where
  "write_msi_cap_register reg dat msk s =
     (if reg = 0 then
        s\<lparr>msi_enable := upd (tst msk 2) (tst dat 16) (msi_enable s),
          msi_multiple_message_enable :=
            upd (tst msk 2) (drop_bit 20 dat AND 0x7) (msi_multiple_message_enable s)\<rparr>
      else if reg = 1 then
        s\<lparr>msi_message_address :=
            byte_mask_update (msi_message_address s) msk dat (-1) AND 0xfffffffffffffffc\<rparr>
      else if reg = 2 \<and> msi_64bit_address_capable s then
        s\<lparr>msi_message_address :=
            byte_mask_update (msi_message_address s) (push_bit 4 msk) (push_bit 32 dat) (-1)
              AND 0xfffffffffffffffc\<rparr>
      else if reg = (if msi_64bit_address_capable s then 3 else 2) then
        s\<lparr>msi_message_data := byte_mask_update (msi_message_data s) (msk AND 0x3) dat (-1) AND 0xffff\<rparr>
      else if reg = (if msi_64bit_address_capable s then 4 else 3) \<and> msi_per_vector_mask_capable s then
        s\<lparr>msi_mask_bits := byte_mask_update (msi_mask_bits s) msk dat (-1) AND 0xffffffff\<rparr>
      else s)"

definition issue_msi_interrupt :: "msi_regs \<Rightarrow> int \<Rightarrow> (int \<times> bytes) option result" where
  "issue_msi_interrupt s number =
     (if \<not> msi_enable s then Inr None
      else if number < 0 \<or> number \<ge> 2 ^ nat (msi_multiple_message_enable s)
              \<or> number \<ge> 2 ^ nat (msi_multiple_message_capable s) then Inr None
      else bindE (pack_L (msi_message_data s AND NOT (2 ^ nat (msi_multiple_message_enable s) - 1) OR number))
             (\<lambda>bs. Inr (Some (msi_message_address s, bs))))"

section \<open>MSI-X\<close>

record msix_regs =
  msix_table_size :: int
  msix_function_mask :: bool
  msix_enable :: bool
  msix_table_bar_indicator_register :: int
  msix_table_offset :: int
  msix_pba_bar_indicator_register :: int
  msix_pba_offset :: int

definition msix_regs_init :: msix_regs where
  "msix_regs_init = \<lparr>msix_table_size = 0, msix_function_mask = False, msix_enable = False,
     msix_table_bar_indicator_register = 0, msix_table_offset = 0,
     msix_pba_bar_indicator_register = 0, msix_pba_offset = 0\<rparr>"

definition read_msix_cap_register :: "msix_regs \<Rightarrow> int \<Rightarrow> int option" where
  "read_msix_cap_register s reg =
     (if reg = 0 then
        Some (push_bit 16 (msix_table_size s AND 0x7ff) OR flag 30 (msix_function_mask s)
              OR flag 31 (msix_enable s))
      else if reg = 1 then
        Some ((msix_table_bar_indicator_register s AND 0x7) OR (msix_table_offset s AND 0xfffffff8))
      else if reg = 2 then
        Some ((msix_pba_bar_indicator_register s AND 0x7) OR (msix_pba_offset s AND 0xfffffff8))
      else None)"

definition write_msix_cap_register :: "int \<Rightarrow> int \<Rightarrow> int \<Rightarrow> msix_regs \<Rightarrow> msix_regs" where
  "write_msix_cap_register reg dat msk s =
     (if reg = 0 then
        s\<lparr>msix_function_mask := upd (tst msk 3) (tst dat 30) (msix_function_mask s),
          msix_enable := upd (tst msk 3) (tst dat 31) (msix_enable s)\<rparr>
      else s)"

definition issue_msix_interrupt :: "msix_regs \<Rightarrow> int \<Rightarrow> int \<Rightarrow> (int \<times> bytes) option result" where
  "issue_msix_interrupt s addr dat =
     (if \<not> msix_enable s then Inr None
      else bindE (pack_L dat) (\<lambda>bs. Inr (Some (addr, bs))))"

section \<open>Register contracts\<close>

lemma bit_and_shifted_mask:
  "bit ((x :: int) AND push_bit k (mask n)) i \<longleftrightarrow> k \<le> i \<and> i < k + n \<and> bit x i"
  by (auto simp: bit_simps)

lemma bit_dword64: "bit ((x :: int) AND 0xfffffffffffffffc) i \<longleftrightarrow> 2 \<le> i \<and> i < 64 \<and> bit x i"
  using bit_and_shifted_mask[of x 2 62 i] by (simp add: mask_eq_exp_minus_1)

lemma nibble_lanes: "bit (0xf :: int) (i div 8) \<longleftrightarrow> i < 32"
proof -
  have "bit (0xf :: int) (i div 8) \<longleftrightarrow> i div 8 < 4"
    using bit_mask_iff[where 'a = int, of 4 "i div 8"] by (simp add: mask_eq_exp_minus_1)
  also have "\<dots> \<longleftrightarrow> i < 32" by linarith
  finally show ?thesis .
qed

lemma lanes_low:
  "bit (byte_mask_update a 0xf x (-1)) i = (if i < 32 then bit x i else bit a i)"
  by (simp add: bit_byte_mask_update nibble_lanes)

lemma lanes_high:
  "bit (byte_mask_update a 0xf0 x (-1)) i = (if 32 \<le> i \<and> i < 64 then bit x i else bit a i)"
proof -
  have "bit (0xf0 :: int) (i div 8) \<longleftrightarrow> 4 \<le> i div 8 \<and> i div 8 < 8"
    using bit_and_shifted_mask[of "-1" 4 4 "i div 8"] by (simp add: mask_eq_exp_minus_1)
  also have "\<dots> \<longleftrightarrow> 32 \<le> i \<and> i < 64" by linarith
  finally show ?thesis by (simp add: bit_byte_mask_update)
qed

text \<open>Two full writes program the address: the low dword without its two low bits, the high
  dword above it.\<close>

lemma msi_address_programmed:
  assumes "fits 32 lo" "fits 32 hi"
  shows "byte_mask_update (byte_mask_update a 0xf lo (-1) AND 0xfffffffffffffffc)
           0xf0 (push_bit 32 hi) (-1) AND 0xfffffffffffffffc =
         push_bit 32 hi OR (lo AND 0xfffffffc)"
proof (rule bit_eqI)
  fix i
  have lo: "bit (lo AND 0xfffffffc) i \<longleftrightarrow> 2 \<le> i \<and> i < 32 \<and> bit lo i"
    using bit_and_shifted_mask[of lo 2 30 i] by (simp add: mask_eq_exp_minus_1)
  show "bit (byte_mask_update (byte_mask_update a 0xf lo (-1) AND 0xfffffffffffffffc)
           0xf0 (push_bit 32 hi) (-1) AND 0xfffffffffffffffc) i =
        bit (push_bit 32 hi OR (lo AND 0xfffffffc)) i"
    using fits_bit_high[OF assms(2), of "i - 32"]
    by (cases "i < 32") (auto simp: bit_dword64 lanes_low lanes_high bit_push_bit_iff bit_or_iff lo)
qed

lemma msi_data_programmed: "byte_mask_update d 0x3 dat (-1) AND 0xffff = take_bit 16 dat"
proof (rule bit_eqI)
  fix i
  have "bit (0x3 :: int) (i div 8) \<longleftrightarrow> i div 8 < 2"
    using bit_mask_iff[where 'a = int, of 2 "i div 8"] by (simp add: mask_eq_exp_minus_1)
  also have "\<dots> \<longleftrightarrow> i < 16" by linarith
  finally show "bit (byte_mask_update d 0x3 dat (-1) AND 0xffff) i = bit (take_bit 16 dat) i"
    by (simp add: masks bit_take_bit_iff bit_byte_mask_update)
qed

lemma msi_control_value:
  "tst (0x10000 OR push_bit 20 m) 16" "fits 3 m \<Longrightarrow> drop_bit 20 (0x10000 OR push_bit 20 m) AND 7 = m"
proof -
  show "tst (0x10000 OR push_bit 20 m) 16"
    using bit_push_bit_iff[of 16 "1 :: int" 16] by (simp add: bit_or_iff)
  have "drop_bit 20 (0x10000 OR push_bit 20 m) = m" 
    by (simp add: drop_bit_push_bit)
  then show "fits 3 m \<Longrightarrow> drop_bit 20 (0x10000 OR push_bit 20 m) AND 7 = m"
    by (simp add: masks)
qed

text \<open>The writes software performs to program a 64-bit MSI capability: low address, high
  address, data, then the enable bit with the number of vectors.\<close>

definition program_msi :: "int \<Rightarrow> int \<Rightarrow> int \<Rightarrow> int \<Rightarrow> msi_regs \<Rightarrow> msi_regs" where
  "program_msi lo hi dat m s =
     write_msi_cap_register 0 (0x10000 OR push_bit 20 m) 0xf
       (write_msi_cap_register 3 dat 0xf
         (write_msi_cap_register 2 hi 0xf (write_msi_cap_register 1 lo 0xf s)))"

lemma program_msi_fields:
  assumes "msi_64bit_address_capable s" "fits 32 lo" "fits 32 hi" "fits 3 m"
  shows "program_msi lo hi dat m s =
     s\<lparr>msi_message_address := push_bit 32 hi OR (lo AND 0xfffffffc),
       msi_message_data := take_bit 16 dat, msi_enable := True,
       msi_multiple_message_enable := m\<rparr>"
  using assms msi_address_programmed[OF assms(2,3), of "msi_message_address s"]
    msi_data_programmed[of "msi_message_data s" dat] msi_control_value(2)[OF assms(4)]
    msi_control_value(1)[of m] bit_and_shifted_mask[of "0xf" 2 1 2]
  by (simp add: program_msi_def write_msi_cap_register_def upd_def)

lemma msi_data_fits:
  assumes "fits 16 d" "0 \<le> n" "n < 2 ^ k" "k \<le> 16"
  shows "fits 32 (d AND NOT (2 ^ k - 1) OR n)"
proof (rule fits_or)
  have "0 \<le> d" "d < 2 ^ 16" using assms(1) by (auto simp: fits_def)
  then show "fits 32 (d AND NOT (2 ^ k - 1))"
    using AND_upper1[of d "NOT (2 ^ k - 1)"] by (simp add: fits_def)
  have "(2 :: int) ^ k \<le> 2 ^ 32" using assms(4) by (intro power_increasing) auto
  then show "fits 32 n" using assms unfolding fits_def by linarith
qed

text \<open>Property C9: software that programs a 64-bit MSI capability with full-width register
  writes makes vector \<open>n\<close> write the programmed 16-bit data, its low bits replaced by \<open>n\<close>, as
  a little-endian dword at the dword-aligned 64-bit address.\<close>

theorem msi_programmed_interrupt:
  assumes "msi_64bit_address_capable s" "fits 32 lo" "fits 32 hi" "fits 3 m"
    and "0 \<le> n" "n < 2 ^ nat m" "n < 2 ^ nat (msi_multiple_message_capable s)"
  shows "issue_msi_interrupt (program_msi lo hi dat m s) n =
    Inr (Some (push_bit 32 hi OR (lo AND 0xfffffffc),
               to_le 4 (take_bit 16 dat AND NOT (2 ^ nat m - 1) OR n)))"
proof -
  have "nat m \<le> 16" using assms(4) by (auto simp: fits_def)
  then have "fits 32 (take_bit 16 dat AND NOT (2 ^ nat m - 1) OR n)"
    using assms(5,6) by (intro msi_data_fits) auto
  with assms show ?thesis
    by (simp add: program_msi_fields issue_msi_interrupt_def pack_L_def fits_def)
qed

theorem msi_programmed_interrupt_witness:
  "issue_msi_interrupt (program_msi 0xfee00003 0x1 0x40 2
     (msi_regs_init\<lparr>msi_64bit_address_capable := True, msi_multiple_message_capable := 5\<rparr>)) 3 =
   Inr (Some (0x1fee00000, [0x43, 0, 0, 0]))"
  using msi_programmed_interrupt[of "msi_regs_init\<lparr>msi_64bit_address_capable := True,
      msi_multiple_message_capable := 5\<rparr>" "0xfee00003" 1 2 3 "0x40"]
  by (simp add: fits_def msi_regs_init_def masks eval_nat_numeral)

text \<open>An interrupt vector outside the enabled or the supported range, or any
  vector while MSI is disabled, issues nothing.\<close>

theorem msi_interrupt_refused:
  "issue_msi_interrupt s n = Inr None \<longleftrightarrow>
     \<not> (msi_enable s \<and> 0 \<le> n \<and> n < 2 ^ nat (msi_multiple_message_enable s) \<and>
        n < 2 ^ nat (msi_multiple_message_capable s))"
  by (auto simp: issue_msi_interrupt_def bindE_Inr_iff)

end
