(* ===== verification/PcieCap.thy ===== *)
theory PcieCap
  imports PcieId
begin

text \<open>
  Capability lists of a configuration space (\<open>PcieCap\<close>, \<open>PcieExtCap\<close>, \<open>PcieCapList\<close> and
  \<open>PcieExtCapList\<close> of \<open>fpga/lib/pcie/tb/pcie.py\<close>): lookup by id and by register,
  placement of a capability at a free or a requested offset, and the next pointers software
  walks. A capability's \<open>read\<close> and \<open>write\<close> are names of the handler (type \<open>'h\<close>); calling
  the handler is a parameter of the read and write operations, supplied by the function that
  owns the list. Mutable list entries are values: \<open>register\<close> returns the new list.
\<close>

unbundle bit_operations_syntax

record 'h pcie_cap =
  cap_id :: int
  cap_ver :: "int option"
  cap_length :: int
  cap_read :: 'h
  cap_write :: 'h
  cap_offset :: int
  cap_next :: "int option"

section \<open>Reading and writing through a capability\<close>

text \<open>A handler may fall off its end and return \<open>None\<close>; masking \<open>None\<close> is a \<open>TypeError\<close>.\<close>

definition cap_read_register ::
  "('h \<Rightarrow> int \<Rightarrow> int option) \<Rightarrow> 'h pcie_cap \<Rightarrow> int \<Rightarrow> int option result" where
  "cap_read_register rd c reg =
     (let val = rd (cap_read c) reg
      in if reg = 0 then
           (case (val, cap_next c) of
              (Some v, Some n) \<Rightarrow>
                Inr (Some ((v AND 0xffff0000) OR push_bit 8 (n AND 0xff) OR (cap_id c AND 0xff)))
            | _ \<Rightarrow> Inl TypeError)
         else Inr val)"

definition ext_cap_read_register ::
  "('h \<Rightarrow> int \<Rightarrow> int option) \<Rightarrow> 'h pcie_cap \<Rightarrow> int \<Rightarrow> int option result" where
  "ext_cap_read_register rd c reg =
     (if reg = 0 then
        (case (cap_next c, cap_ver c) of
           (Some n, Some v) \<Rightarrow>
             Inr (Some (push_bit 20 (n AND 0xfff) OR push_bit 16 (v AND 0xf) OR (cap_id c AND 0xffff)))
         | _ \<Rightarrow> Inl TypeError)
      else Inr (rd (cap_read c) reg))"

section \<open>The list\<close>

definition find_by_id :: "'h pcie_cap list \<Rightarrow> int \<Rightarrow> 'h pcie_cap option" where
  "find_by_id l i = find (\<lambda>c. cap_id c = i) l"

definition find_by_reg :: "'h pcie_cap list \<Rightarrow> int \<Rightarrow> 'h pcie_cap option" where
  "find_by_reg l reg = find (\<lambda>c. cap_offset c \<le> reg \<and> reg < cap_offset c + cap_length c) l"

definition caps_read_register ::
  "(('h \<Rightarrow> int \<Rightarrow> int option) \<Rightarrow> 'h pcie_cap \<Rightarrow> int \<Rightarrow> int option result) \<Rightarrow>
   ('h \<Rightarrow> int \<Rightarrow> int option) \<Rightarrow> 'h pcie_cap list \<Rightarrow> int \<Rightarrow> int option result" where
  "caps_read_register cap_rd rd l reg =
     (case find_by_reg l reg of Some c \<Rightarrow> cap_rd rd c (reg - cap_offset c) | None \<Rightarrow> Inr (Some 0))"

text \<open>A write reaches the handler of the capability that covers the register, if any.\<close>

definition caps_write_register ::
  "('h \<Rightarrow> int \<Rightarrow> int \<Rightarrow> int \<Rightarrow> 's \<Rightarrow> 's result) \<Rightarrow> 'h pcie_cap list \<Rightarrow>
   int \<Rightarrow> int \<Rightarrow> int \<Rightarrow> 's \<Rightarrow> 's result" where
  "caps_write_register wr l reg dat msk s =
     (case find_by_reg l reg of
        Some c \<Rightarrow> wr (cap_write c) (reg - cap_offset c) dat msk s
      | None \<Rightarrow> Inr s)"

text \<open>The next-pointer loop: nothing is assigned in a list of fewer than two entries.\<close>

fun relink2 :: "'h pcie_cap list \<Rightarrow> 'h pcie_cap list" where
  "relink2 [] = []"
| "relink2 [c] = [c\<lparr>cap_next := Some 0\<rparr>]"
| "relink2 (c # d # cs) = c\<lparr>cap_next := Some (cap_offset d * 4)\<rparr> # relink2 (d # cs)"

definition relink :: "'h pcie_cap list \<Rightarrow> 'h pcie_cap list" where
  "relink l = (if length l < 2 then l else relink2 l)"

definition insert_sorted :: "'h pcie_cap list \<Rightarrow> 'h pcie_cap \<Rightarrow> 'h pcie_cap list" where
  "insert_sorted l c = relink (sort_key cap_offset (l @ [c]))"

text \<open>The search for a free offset. The first comparison is strict, as in the source.\<close>

definition auto_offset :: "int \<Rightarrow> int \<Rightarrow> 'h pcie_cap list \<Rightarrow> int" where
  "auto_offset start len l =
     foldl (\<lambda>off c. if cap_offset c < off + len - 1 \<and> off \<le> cap_offset c + cap_length c - 1
                    then cap_offset c + cap_length c else off) start l"

definition place_auto :: "int \<Rightarrow> 'h pcie_cap list \<Rightarrow> 'h pcie_cap \<Rightarrow> 'h pcie_cap list" where
  "place_auto start l c = insert_sorted l (c\<lparr>cap_offset := auto_offset start (cap_length c) l\<rparr>)"

definition caps_overlap :: "'h pcie_cap \<Rightarrow> 'h pcie_cap \<Rightarrow> bool" where
  "caps_overlap c d \<longleftrightarrow>
     cap_offset c \<le> cap_offset d + cap_length d - 1 \<and> cap_offset d \<le> cap_offset c + cap_length c - 1"

text \<open>A capability at a requested offset bumps the ones it overlaps; they are re-inserted
  one by one at a free offset.\<close>

definition place_at :: "int \<Rightarrow> 'h pcie_cap list \<Rightarrow> 'h pcie_cap \<Rightarrow> 'h pcie_cap list" where
  "place_at start l c =
     (let bump_list = filter (\<lambda>d. caps_overlap d c) l;
          l1 = insert_sorted (filter (\<lambda>d. \<not> caps_overlap d c) l) c
      in foldl (place_auto start) l1 bump_list)"

definition truthy :: "int option \<Rightarrow> bool" where
  "truthy v = (case v of None \<Rightarrow> False | Some x \<Rightarrow> x \<noteq> 0)"

definition or_old :: "int option \<Rightarrow> int \<Rightarrow> int" where
  "or_old v old = (if truthy v then the v else old)"

definition cap_register ::
  "int \<Rightarrow> 'h pcie_cap list \<Rightarrow> int \<Rightarrow> int option \<Rightarrow> int option \<Rightarrow> 'h option \<Rightarrow> 'h option \<Rightarrow>
   int option \<Rightarrow> 'h pcie_cap list result" where
  "cap_register start l i ver len rd wr off =
     (case find_by_id l i of
        Some c \<Rightarrow>
          let c1 = c\<lparr>cap_ver := (case ver of None \<Rightarrow> cap_ver c | Some v \<Rightarrow> Some v),
                     cap_length := or_old len (cap_length c),
                     cap_read := (case rd of None \<Rightarrow> cap_read c | Some r \<Rightarrow> r),
                     cap_write := (case wr of None \<Rightarrow> cap_write c | Some w \<Rightarrow> w),
                     cap_offset := or_old off (cap_offset c)\<rparr>
          in Inr (if cap_offset c1 \<noteq> 0 then place_at start (remove1 c l) c1
                  else place_auto start (remove1 c l) c1)
      | None \<Rightarrow>
          (case (len, rd, wr) of
             (Some n, Some r, Some w) \<Rightarrow>
               if n = 0 then Inl (PyException ''Missing required parameter'')
               else let c = \<lparr>cap_id = i, cap_ver = ver, cap_length = n, cap_read = r,
                             cap_write = w, cap_offset = or_old off 0, cap_next = None\<rparr>
                    in Inr (if truthy off then place_at start l c else place_auto start l c)
           | _ \<Rightarrow> Inl (PyException ''Missing required parameter'')))"

section \<open>Next pointers\<close>

text \<open>What software relies on: the entries are in offset order and each points to the
  register after it, the last to 0.\<close>

fun linked :: "'h pcie_cap list \<Rightarrow> bool" where
  "linked [] = True"
| "linked [c] = (cap_next c = Some 0)"
| "linked (c # d # cs) = (cap_next c = Some (cap_offset d * 4) \<and> linked (d # cs))"

abbreviation offsets :: "'h pcie_cap list \<Rightarrow> int list" where
  "offsets l \<equiv> map cap_offset l"

lemma relink2_map [simp]:
  "offsets (relink2 l) = offsets l" "map cap_id (relink2 l) = map cap_id l"
  "map cap_length (relink2 l) = map cap_length l" "map cap_read (relink2 l) = map cap_read l"
  "length (relink2 l) = length l"
  by (induction l rule: relink2.induct) auto

lemma relink_map [simp]:
  "offsets (relink l) = offsets l" "map cap_id (relink l) = map cap_id l"
  "map cap_length (relink l) = map cap_length l" "map cap_read (relink l) = map cap_read l"
  "length (relink l) = length l"
  by (simp_all add: relink_def)

lemma linked_relink2: "linked (relink2 l)"
proof (induction l rule: relink2.induct)
  case (3 c d cs)
  then show ?case by (cases cs) auto
qed auto

lemma linked_relink: "2 \<le> length l \<Longrightarrow> linked (relink l)"
  by (simp add: relink_def linked_relink2)

lemma insert_sorted_sorted: "sorted (offsets (insert_sorted l c))"
  by (simp add: insert_sorted_def)

lemma insert_sorted_linked: "l \<noteq> [] \<Longrightarrow> linked (insert_sorted l c)"
  unfolding insert_sorted_def by (rule linked_relink) (cases l; simp)

lemma length_insert_sorted [simp]: "length (insert_sorted l c) = Suc (length l)"
  by (simp add: insert_sorted_def)

lemma length_place_auto [simp]: "length (place_auto start l c) = Suc (length l)"
  by (simp add: place_auto_def)

lemma mset_relink: "mset (map cap_id (relink l)) = mset (map cap_id l)"
  by simp

lemma place_at_ordered:
  assumes "l \<noteq> []"
  shows "sorted (offsets (place_at start l c)) \<and> linked (place_at start l c)"
proof -
  let ?bump = "filter (\<lambda>d. caps_overlap d c) l" and ?keep = "filter (\<lambda>d. \<not> caps_overlap d c) l"
  have step: "l1 \<noteq> [] \<Longrightarrow> (sorted (offsets l1) \<and> (linked l1 \<or> bs \<noteq> [])) \<Longrightarrow>
      sorted (offsets (foldl (place_auto start) l1 bs)) \<and> linked (foldl (place_auto start) l1 bs)"
    for l1 and bs :: "'a pcie_cap list"
  proof (induction bs arbitrary: l1)
    case Nil
    then show ?case by simp
  next
    case (Cons b bs)
    have "place_auto start l1 b \<noteq> []"
      using length_place_auto[of start l1 b] by fastforce
    moreover have "sorted (offsets (place_auto start l1 b)) \<and> linked (place_auto start l1 b)"
      using Cons.prems(1) by (simp add: place_auto_def insert_sorted_sorted insert_sorted_linked)
    ultimately show ?case using Cons.IH by simp
  qed
  have "insert_sorted ?keep c \<noteq> []"
    using length_insert_sorted[of ?keep c] by fastforce
  moreover have "linked (insert_sorted ?keep c) \<or> ?bump \<noteq> []"
  proof (cases "?bump = []")
    case True
    then have "?keep = l" by (simp add: filter_empty_conv filter_id_conv)
    with assms show ?thesis by (simp add: insert_sorted_linked)
  qed simp
  ultimately show ?thesis
    unfolding place_at_def Let_def by (intro step) (simp_all add: insert_sorted_sorted)
qed

section \<open>Automatic placement\<close>

text \<open>The lists built by automatic registration: contiguous from the start register.\<close>

fun packed :: "int \<Rightarrow> 'h pcie_cap list \<Rightarrow> bool" where
  "packed start [] = True"
| "packed start (c # cs) =
     (cap_offset c = start \<and> 1 \<le> cap_length c \<and> packed (start + cap_length c) cs)"

definition caps_end :: "int \<Rightarrow> 'h pcie_cap list \<Rightarrow> int" where
  "caps_end start l = start + sum_list (map cap_length l)"

lemma packed_append:
  "packed start (l @ m) \<longleftrightarrow> packed start l \<and> packed (caps_end start l) m"
  by (induction l arbitrary: start) (auto simp: caps_end_def add.assoc)

lemma packed_bounds:
  "packed start l \<Longrightarrow> c \<in> set l \<Longrightarrow>
   start \<le> cap_offset c \<and> 1 \<le> cap_length c \<and> cap_offset c + cap_length c \<le> caps_end start l"
proof (induction l arbitrary: start c)
  case Nil
  then show ?case by simp
next
  case (Cons d l)
  then have p: "packed (start + cap_length d) l" "cap_offset d = start" "1 \<le> cap_length d" by simp_all
  have "0 \<le> cap_length x" if "x \<in> set l" for x using Cons.IH[OF p(1) that] by linarith
  then have "0 \<le> sum_list (map cap_length l)" by (intro sum_list_nonneg) auto
  moreover have "start + cap_length d \<le> cap_offset c \<and> 1 \<le> cap_length c \<and>
      cap_offset c + cap_length c \<le> caps_end (start + cap_length d) l" if "c \<in> set l"
    using Cons.IH[OF p(1) that] .
  ultimately show ?case using Cons.prems(2) p by (auto simp: caps_end_def add.assoc)
qed

lemma packed_sorted: "packed start l \<Longrightarrow> sorted (offsets l)"
proof (induction l arbitrary: start)
  case (Cons c l)
  then show ?case using packed_bounds by fastforce
qed simp

lemma packed_relink2 [simp]: "packed start (relink2 l) = packed start l"
  by (induction l arbitrary: start rule: relink2.induct) auto

lemma packed_relink [simp]: "packed start (relink l) = packed start l"
  by (simp add: relink_def)

lemma auto_offset_packed:
  "packed start l \<Longrightarrow> 2 \<le> len \<Longrightarrow> auto_offset start len l = caps_end start l"
  by (induction l arbitrary: start) (auto simp: auto_offset_def caps_end_def add.assoc)

lemma place_auto_packed:
  assumes "packed start l" "2 \<le> cap_length c"
  shows "place_auto start l c = relink (l @ [c\<lparr>cap_offset := caps_end start l\<rparr>])"
    and "packed start (place_auto start l c)"
proof -
  let ?c = "c\<lparr>cap_offset := caps_end start l\<rparr>"
  have p: "packed start (l @ [?c])" using assms by (simp add: packed_append)
  have "sort_key cap_offset (l @ [?c]) = l @ [?c]"
    using packed_sorted[OF p] by (rule sort_key_id_if_sorted)
  then show eq: "place_auto start l c = relink (l @ [?c])"
    using assms by (simp add: place_auto_def insert_sorted_def auto_offset_packed)
  show "packed start (place_auto start l c)" unfolding eq using p by simp
qed

lemma find_by_reg_packed:
  assumes "packed start l" "c \<in> set l" "cap_offset c \<le> reg" "reg < cap_offset c + cap_length c"
  shows "find_by_reg l reg = Some c"
  using assms
proof (induction l arbitrary: start)
  case Nil
  then show ?case by simp
next
  case (Cons d l)
  show ?case
  proof (cases "c = d")
    case True
    with Cons.prems show ?thesis by (simp add: find_by_reg_def)
  next
    case False
    with Cons.prems have "packed (start + cap_length d) l" "c \<in> set l" "cap_offset d = start" by auto
    moreover from this have "start + cap_length d \<le> cap_offset c" using packed_bounds by blast
    ultimately show ?thesis using Cons.IH Cons.prems(3,4) by (simp add: find_by_reg_def)
  qed
qed

lemma find_by_reg_outside:
  "packed start l \<Longrightarrow> reg < start \<or> caps_end start l \<le> reg \<Longrightarrow> find_by_reg l reg = None"
  unfolding find_by_reg_def find_None_iff using packed_bounds by fastforce

lemma find_by_id_same_id:
  "map cap_id l = map cap_id m \<Longrightarrow> (find_by_id l i = None) = (find_by_id m i = None)"
  by (auto simp: find_by_id_def find_None_iff dest: map_eq_imp_length_eq)
     (metis imageE image_eqI list.set_map)+

text \<open>Registering a new capability of at least two registers without an offset
  keeps the list contiguous: the new capability lies right after the existing ones, which
  keep their places, and from two capabilities on the next pointers form the chain that
  software walks.\<close>

theorem register_auto_contiguous:
  assumes "packed start l" "find_by_id l i = None" "2 \<le> n"
  shows "\<exists>l'. cap_register start l i ver (Some n) (Some r) (Some w) None = Inr l' \<and>
    packed start l' \<and>
    map (\<lambda>c. (cap_id c, cap_offset c, cap_length c)) l' =
      map (\<lambda>c. (cap_id c, cap_offset c, cap_length c)) l @ [(i, caps_end start l, n)] \<and>
    (l = [] \<or> linked l')"
proof -
  let ?c = "\<lparr>cap_id = i, cap_ver = ver, cap_length = n, cap_read = r, cap_write = w,
    cap_offset = 0, cap_next = None\<rparr>"
  let ?l' = "place_auto start l ?c"
  have reg: "cap_register start l i ver (Some n) (Some r) (Some w) None = Inr ?l'"
    using assms(2,3) by (simp add: cap_register_def truthy_def or_old_def)
  have eq: "?l' = relink (l @ [?c\<lparr>cap_offset := caps_end start l\<rparr>])"
    using place_auto_packed(1)[OF assms(1), of ?c] assms(3) by simp
  have trip: "map (\<lambda>c. (cap_id c, cap_offset c, cap_length c)) (relink m) =
      map (\<lambda>c. (cap_id c, cap_offset c, cap_length c)) m" for m :: "'a pcie_cap list"
  proof -
    have "map (\<lambda>c. (cap_id c, cap_offset c, cap_length c)) (relink2 m) =
        map (\<lambda>c. (cap_id c, cap_offset c, cap_length c)) m"
      by (induction m rule: relink2.induct) auto
    then show ?thesis by (simp add: relink_def)
  qed
  have "linked ?l'" if "l \<noteq> []"
    unfolding eq using that by (intro linked_relink) (cases l; simp)
  then show ?thesis
    using reg place_auto_packed(2)[OF assms(1), of ?c] assms(3) trip[of "l @ [_]"]
    unfolding eq by auto
qed

theorem register_auto_contiguous_witness:
  "\<exists>l'. cap_register 0x10 [\<lparr>cap_id = 1, cap_ver = Some 0, cap_length = 2, cap_read = (), cap_write = (),
        cap_offset = 0x10, cap_next = None\<rparr>] 0x10 (Some 0) (Some 15) (Some ()) (Some ()) None = Inr l' \<and>
     packed 0x10 l' \<and> linked l'"
proof -
  let ?l = "[\<lparr>cap_id = 1, cap_ver = Some 0, cap_length = 2, cap_read = (), cap_write = (),
        cap_offset = 0x10, cap_next = None\<rparr>]"
  have "packed 0x10 ?l" "find_by_id ?l 0x10 = None" "(2 :: int) \<le> 15"
    by (simp_all add: find_by_id_def)
  from register_auto_contiguous[OF this, of "Some 0" "()" "()"] show ?thesis by auto
qed

text \<open>A register inside a capability of a contiguous list is read through that
  capability, relative to its offset; a register outside all of them reads as 0.\<close>

theorem caps_read_dispatch:
  assumes "packed start l"
  shows "(c \<in> set l \<and> 0 \<le> k \<and> k < cap_length c \<longrightarrow>
      caps_read_register cap_rd rd l (cap_offset c + k) = cap_rd rd c k) \<and>
    (reg < start \<or> caps_end start l \<le> reg \<longrightarrow>
      caps_read_register cap_rd rd l reg = Inr (Some 0))"
  using find_by_reg_packed[OF assms, of c "cap_offset c + k"] find_by_reg_outside[OF assms, of reg]
  by (auto simp: caps_read_register_def)

theorem caps_read_dispatch_witness:
  "caps_read_register cap_read_register (\<lambda>_ k. Some (7 + k))
     [\<lparr>cap_id = 1, cap_ver = Some 0, cap_length = 2, cap_read = (), cap_write = (),
       cap_offset = 0x10, cap_next = Some 0\<rparr>] 0x11 = Inr (Some 8)"
proof -
  let ?c = "\<lparr>cap_id = 1, cap_ver = Some 0, cap_length = 2, cap_read = (), cap_write = (),
       cap_offset = 0x10, cap_next = Some 0\<rparr>"
  have "packed 0x10 [?c]" by simp
  from caps_read_dispatch[OF this, where c = ?c and k = 1 and cap_rd = cap_read_register
      and rd = "\<lambda>_ k. Some (7 + k)"]
  show ?thesis by (simp add: cap_read_register_def)
qed

text \<open>The search for a free offset ignores a capability that starts at the last
  register it would occupy, so automatic placement there produces two capabilities that share
  that register.\<close>

theorem auto_offset_overlap:
  assumes "1 \<le> cap_length d" "1 \<le> cap_length c" "cap_offset c = start + cap_length d - 1"
  shows "caps_overlap c (d\<lparr>cap_offset := auto_offset start (cap_length d) [c]\<rparr>)"
  using assms by (simp add: auto_offset_def caps_overlap_def)

theorem auto_offset_overlap_witness:
  "caps_overlap \<lparr>cap_id = 5, cap_ver = None, cap_length = 2, cap_read = (), cap_write = (),
       cap_offset = 0x14, cap_next = None\<rparr>
     \<lparr>cap_id = 6, cap_ver = None, cap_length = 5, cap_read = (), cap_write = (),
       cap_offset = 0x10, cap_next = None\<rparr>"
  using auto_offset_overlap[of
      "\<lparr>cap_id = 6, cap_ver = None, cap_length = 5, cap_read = (), cap_write = (),
       cap_offset = 0x10, cap_next = None\<rparr>"
      "\<lparr>cap_id = 5, cap_ver = None, cap_length = 2, cap_read = (), cap_write = (),
       cap_offset = 0x14, cap_next = None\<rparr>" "0x10"]
  by (simp add: auto_offset_def)

text \<open>The only entry of a list has no next pointer yet, and reading its first register masks
  \<open>None\<close>: extended capabilities, which start with one entry, fail here.\<close>

lemma single_cap_read_raises:
  assumes "cap_register start [] i ver (Some n) (Some r) (Some w) off = Inr l" "n \<noteq> 0"
  shows "\<exists>c. l = [c] \<and> ext_cap_read_register rd c 0 = Inl TypeError \<and>
    cap_read_register rd c 0 = Inl TypeError"
proof -
  obtain c where "l = [c]" "cap_next c = None"
    using assms
    by (auto simp: cap_register_def find_by_id_def place_at_def place_auto_def insert_sorted_def
        relink_def Let_def split: if_splits)
  then show ?thesis
    by (auto simp: ext_cap_read_register_def cap_read_register_def split: option.splits)
qed

end
