(* ===== verification/Tlp.thy ===== *)
theory Tlp
  imports PcieId
begin

text \<open>
  The transaction layer packet of \<open>fpga/lib/pcie/tb/pcie.py\<close>, class \<open>TLP\<close>: the format and
  type constants, the packet record, validation, the completion constructors, byte-enable
  arithmetic, size accounting, and the DWORD codec \<open>pack\<close>/\<open>unpack\<close>.
\<close>

unbundle bit_operations_syntax

section \<open>Constants\<close>

abbreviation (input) FMT_3DW :: int where "FMT_3DW \<equiv> 0x0"
abbreviation (input) FMT_4DW :: int where "FMT_4DW \<equiv> 0x1"
abbreviation (input) FMT_3DW_DATA :: int where "FMT_3DW_DATA \<equiv> 0x2"
abbreviation (input) FMT_4DW_DATA :: int where "FMT_4DW_DATA \<equiv> 0x3"

type_synonym fmt_type = "int \<times> int"

abbreviation (input) TLP_MEM_READ :: fmt_type where "TLP_MEM_READ \<equiv> (FMT_3DW, 0x00)"
abbreviation (input) TLP_MEM_READ_64 :: fmt_type where "TLP_MEM_READ_64 \<equiv> (FMT_4DW, 0x00)"
abbreviation (input) TLP_MEM_READ_LOCKED :: fmt_type where "TLP_MEM_READ_LOCKED \<equiv> (FMT_3DW, 0x01)"
abbreviation (input) TLP_MEM_READ_LOCKED_64 :: fmt_type where "TLP_MEM_READ_LOCKED_64 \<equiv> (FMT_4DW, 0x01)"
abbreviation (input) TLP_MEM_WRITE :: fmt_type where "TLP_MEM_WRITE \<equiv> (FMT_3DW_DATA, 0x00)"
abbreviation (input) TLP_MEM_WRITE_64 :: fmt_type where "TLP_MEM_WRITE_64 \<equiv> (FMT_4DW_DATA, 0x00)"
abbreviation (input) TLP_IO_READ :: fmt_type where "TLP_IO_READ \<equiv> (FMT_3DW, 0x02)"
abbreviation (input) TLP_IO_WRITE :: fmt_type where "TLP_IO_WRITE \<equiv> (FMT_3DW_DATA, 0x02)"
abbreviation (input) TLP_CFG_READ_0 :: fmt_type where "TLP_CFG_READ_0 \<equiv> (FMT_3DW, 0x04)"
abbreviation (input) TLP_CFG_WRITE_0 :: fmt_type where "TLP_CFG_WRITE_0 \<equiv> (FMT_3DW_DATA, 0x04)"
abbreviation (input) TLP_CFG_READ_1 :: fmt_type where "TLP_CFG_READ_1 \<equiv> (FMT_3DW, 0x05)"
abbreviation (input) TLP_CFG_WRITE_1 :: fmt_type where "TLP_CFG_WRITE_1 \<equiv> (FMT_3DW_DATA, 0x05)"
abbreviation (input) TLP_MSG_TO_RC :: fmt_type where "TLP_MSG_TO_RC \<equiv> (FMT_4DW, 0x10)"
abbreviation (input) TLP_MSG_ID :: fmt_type where "TLP_MSG_ID \<equiv> (FMT_4DW, 0x12)"
abbreviation (input) TLP_MSG_BCAST :: fmt_type where "TLP_MSG_BCAST \<equiv> (FMT_4DW, 0x13)"
abbreviation (input) TLP_MSG_LOCAL :: fmt_type where "TLP_MSG_LOCAL \<equiv> (FMT_4DW, 0x14)"
abbreviation (input) TLP_MSG_GATHER :: fmt_type where "TLP_MSG_GATHER \<equiv> (FMT_4DW, 0x15)"
abbreviation (input) TLP_MSG_DATA_TO_RC :: fmt_type where "TLP_MSG_DATA_TO_RC \<equiv> (FMT_4DW_DATA, 0x10)"
abbreviation (input) TLP_MSG_DATA_ID :: fmt_type where "TLP_MSG_DATA_ID \<equiv> (FMT_4DW_DATA, 0x12)"
abbreviation (input) TLP_MSG_DATA_BCAST :: fmt_type where "TLP_MSG_DATA_BCAST \<equiv> (FMT_4DW_DATA, 0x13)"
abbreviation (input) TLP_MSG_DATA_LOCAL :: fmt_type where "TLP_MSG_DATA_LOCAL \<equiv> (FMT_4DW_DATA, 0x14)"
abbreviation (input) TLP_MSG_DATA_GATHER :: fmt_type where "TLP_MSG_DATA_GATHER \<equiv> (FMT_4DW_DATA, 0x15)"
abbreviation (input) TLP_CPL :: fmt_type where "TLP_CPL \<equiv> (FMT_3DW, 0x0A)"
abbreviation (input) TLP_CPL_DATA :: fmt_type where "TLP_CPL_DATA \<equiv> (FMT_3DW_DATA, 0x0A)"
abbreviation (input) TLP_CPL_LOCKED :: fmt_type where "TLP_CPL_LOCKED \<equiv> (FMT_3DW, 0x0B)"
abbreviation (input) TLP_CPL_LOCKED_DATA :: fmt_type where "TLP_CPL_LOCKED_DATA \<equiv> (FMT_3DW_DATA, 0x0B)"

abbreviation (input) CPL_STATUS_SC :: int where "CPL_STATUS_SC \<equiv> 0x0"
abbreviation (input) CPL_STATUS_UR :: int where "CPL_STATUS_UR \<equiv> 0x1"
abbreviation (input) CPL_STATUS_CRS :: int where "CPL_STATUS_CRS \<equiv> 0x2"
abbreviation (input) CPL_STATUS_CA :: int where "CPL_STATUS_CA \<equiv> 0x4"

text \<open>The chains of comparisons the sources repeat, as lists of the types they name.\<close>

definition is_cfg_type :: "fmt_type \<Rightarrow> bool" where
  "is_cfg_type ft \<longleftrightarrow> ft = TLP_CFG_READ_0 \<or> ft = TLP_CFG_WRITE_0 \<or>
     ft = TLP_CFG_READ_1 \<or> ft = TLP_CFG_WRITE_1"

definition is_mem_type :: "fmt_type \<Rightarrow> bool" where
  "is_mem_type ft \<longleftrightarrow> ft = TLP_MEM_READ \<or> ft = TLP_MEM_READ_64 \<or>
     ft = TLP_MEM_READ_LOCKED \<or> ft = TLP_MEM_READ_LOCKED_64 \<or>
     ft = TLP_MEM_WRITE \<or> ft = TLP_MEM_WRITE_64"

definition is_io_type :: "fmt_type \<Rightarrow> bool" where
  "is_io_type ft \<longleftrightarrow> ft = TLP_IO_READ \<or> ft = TLP_IO_WRITE"

definition is_cpl_type :: "fmt_type \<Rightarrow> bool" where
  "is_cpl_type ft \<longleftrightarrow> ft = TLP_CPL \<or> ft = TLP_CPL_DATA \<or>
     ft = TLP_CPL_LOCKED \<or> ft = TLP_CPL_LOCKED_DATA"

lemmas tlp_type_defs = is_cfg_type_def is_mem_type_def is_io_type_def is_cpl_type_def

section \<open>The packet\<close>

record tlp =
  tlp_fmt :: int
  tlp_type :: int
  tlp_tc :: int
  tlp_th :: int
  tlp_td :: int
  tlp_ep :: int
  tlp_attr :: int
  tlp_at :: int
  tlp_length :: int
  tlp_completer_id :: pcie_id
  tlp_status :: int
  tlp_bcm :: int
  tlp_byte_count :: int
  tlp_requester_id :: pcie_id
  tlp_dest_id :: pcie_id
  tlp_tag :: int
  tlp_first_be :: int
  tlp_last_be :: int
  tlp_lower_address :: int
  tlp_address :: int
  tlp_register_number :: int
  tlp_data :: "int list"

definition tlp_new :: tlp where
  "tlp_new = \<lparr>tlp_fmt = 0, tlp_type = 0, tlp_tc = 0, tlp_th = 0, tlp_td = 0, tlp_ep = 0,
     tlp_attr = 0, tlp_at = 0, tlp_length = 0, tlp_completer_id = mk_id 0 0 0, tlp_status = 0,
     tlp_bcm = 0, tlp_byte_count = 0, tlp_requester_id = mk_id 0 0 0, tlp_dest_id = mk_id 0 0 0,
     tlp_tag = 0, tlp_first_be = 0, tlp_last_be = 0, tlp_lower_address = 0, tlp_address = 0,
     tlp_register_number = 0, tlp_data = []\<rparr>"

text \<open>The copy constructor \<open>TLP(tlp)\<close> copies every field but \<open>th\<close>.\<close>

definition tlp_copy :: "tlp \<Rightarrow> tlp" where
  "tlp_copy t = t\<lparr>tlp_th := 0\<rparr>"

definition fmt_type_of :: "tlp \<Rightarrow> fmt_type" where
  "fmt_type_of t = (tlp_fmt t, tlp_type t)"

definition set_fmt_type :: "fmt_type \<Rightarrow> tlp \<Rightarrow> tlp" where
  "set_fmt_type v t = t\<lparr>tlp_fmt := fst v, tlp_type := snd v\<rparr>"

lemma fmt_type_of_set [simp]: "fmt_type_of (set_fmt_type v t) = v"
  by (simp add: fmt_type_of_def set_fmt_type_def)

text \<open>\<open>__eq__\<close> compares every field but \<open>th\<close>.\<close>

definition tlp_eq :: "tlp \<Rightarrow> tlp \<Rightarrow> bool" where
  "tlp_eq a b \<longleftrightarrow> a\<lparr>tlp_th := 0\<rparr> = b\<lparr>tlp_th := 0\<rparr>"

text \<open>\<open>check\<close>. The chained test \<open>0 > length > 1024\<close> is kept as Python reads it.\<close>

definition tlp_check :: "tlp \<Rightarrow> bool" where
  "tlp_check t \<longleftrightarrow>
     ((tlp_fmt t = FMT_3DW_DATA \<or> tlp_fmt t = FMT_4DW_DATA) \<longrightarrow>
        tlp_length t = int (length (tlp_data t)) \<and>
        \<not> (0 > tlp_length t \<and> tlp_length t > 1024)) \<and>
     (is_mem_type (fmt_type_of t) \<longrightarrow>
        \<not> tlp_length t * 4 > 0x1000 - (tlp_address t AND 0xfff)) \<and>
     (is_io_type (fmt_type_of t) \<longrightarrow> tlp_length t = 1 \<and> tlp_last_be t = 0) \<and>
     (fmt_type_of t = TLP_CPL_DATA \<longrightarrow>
        \<not> tlp_byte_count t + (tlp_lower_address t AND 3) + 3 < tlp_length t * 4)"

section \<open>Completions\<close>

definition set_completion :: "tlp \<Rightarrow> tlp \<Rightarrow> pcie_id \<Rightarrow> bool \<Rightarrow> int \<Rightarrow> tlp" where
  "set_completion c t completer has_data stat =
     (set_fmt_type (if has_data then TLP_CPL_DATA else TLP_CPL) c)
       \<lparr>tlp_requester_id := tlp_requester_id t, tlp_completer_id := completer,
        tlp_status := stat, tlp_attr := tlp_attr t, tlp_tag := tlp_tag t, tlp_tc := tlp_tc t\<rparr>"

definition set_completion_data :: "tlp \<Rightarrow> tlp \<Rightarrow> pcie_id \<Rightarrow> tlp" where
  "set_completion_data c t completer = set_completion c t completer True CPL_STATUS_SC"

definition set_ur_completion :: "tlp \<Rightarrow> tlp \<Rightarrow> pcie_id \<Rightarrow> tlp" where
  "set_ur_completion c t completer = set_completion c t completer False CPL_STATUS_UR"

definition set_crs_completion :: "tlp \<Rightarrow> tlp \<Rightarrow> pcie_id \<Rightarrow> tlp" where
  "set_crs_completion c t completer = set_completion c t completer False CPL_STATUS_CRS"

definition set_ca_completion :: "tlp \<Rightarrow> tlp \<Rightarrow> pcie_id \<Rightarrow> tlp" where
  "set_ca_completion c t completer = set_completion c t completer False CPL_STATUS_CA"

lemmas completion_defs = set_completion_def set_completion_data_def set_ur_completion_def
  set_crs_completion_def set_ca_completion_def set_fmt_type_def

section \<open>Byte enables\<close>

text \<open>\<open>math.ceil(x / 4)\<close>; Python divides in floating point, exact below \<open>2 ** 53\<close>.\<close>

definition ceil_div4 :: "int \<Rightarrow> int" where
  "ceil_div4 x = - (- x div 4)"

definition set_be :: "tlp \<Rightarrow> int \<Rightarrow> int \<Rightarrow> tlp \<times> (nat \<times> nat)" where
  "set_be t addr len =
     (let first_pad = nat (addr mod 4);
          last_pad = nat (3 - (addr + len - 1) mod 4);
          dws = ceil_div4 (len + int first_pad + int last_pad);
          fbe = push_bit first_pad 0xf AND 0xf;
          lbe = drop_bit last_pad 0xf;
          t1 = t\<lparr>tlp_address := addr AND NOT 3, tlp_length := dws,
                 tlp_first_be := (if dws = 1 then fbe AND lbe else fbe),
                 tlp_last_be := (if dws = 1 then 0 else lbe)\<rparr>
      in (t1, (first_pad, last_pad)))"

definition set_data :: "tlp \<Rightarrow> bytes \<Rightarrow> tlp result" where
  "set_data t d = bindE (unpack_all 4 unpack_L d)
     (\<lambda>dws. Inr (t\<lparr>tlp_data := dws, tlp_length := int (length dws)\<rparr>))"

definition set_be_data :: "tlp \<Rightarrow> int \<Rightarrow> bytes \<Rightarrow> tlp result" where
  "set_be_data t addr d =
     (case set_be (t\<lparr>tlp_address := addr AND NOT 3\<rparr>) addr (int (length d)) of
        (t1, (first_pad, last_pad)) \<Rightarrow>
          set_data t1 (replicate first_pad 0 @ d @ replicate last_pad 0))"

definition get_data :: "tlp \<Rightarrow> bytes result" where
  "get_data t = pack_all pack_L (tlp_data t)"

definition get_first_be_offset :: "tlp \<Rightarrow> int" where
  "get_first_be_offset t =
     (if tlp_first_be t AND 0x7 = 0 then 3
      else if tlp_first_be t AND 0x3 = 0 then 2
      else if tlp_first_be t AND 0x1 = 0 then 1 else 0)"

definition get_last_be_offset :: "tlp \<Rightarrow> int" where
  "get_last_be_offset t =
     (let be = if tlp_length t = 1 then tlp_first_be t else tlp_last_be t
      in if be AND 0xf = 0x1 then 3
         else if be AND 0xe = 0x2 then 2
         else if be AND 0xc = 0x4 then 1 else 0)"

definition get_be_byte_count :: "tlp \<Rightarrow> int" where
  "get_be_byte_count t = tlp_length t * 4 - get_first_be_offset t - get_last_be_offset t"

text \<open>Python's \<open>+\<close> binds tighter than \<open>&\<close>.\<close>

definition get_lower_address :: "tlp \<Rightarrow> int" where
  "get_lower_address t = tlp_address t AND (0x7c + get_first_be_offset t)"

section \<open>Sizes\<close>

text \<open>\<open>get_size\<close> falls off its end (returning \<open>None\<close>) for a prefix format; adding 12 to
  that raises a \<open>TypeError\<close>.\<close>

definition get_size :: "tlp \<Rightarrow> int option" where
  "get_size t =
     (if tlp_fmt t = FMT_3DW then Some 12
      else if tlp_fmt t = FMT_3DW_DATA then Some (12 + int (length (tlp_data t)) * 4)
      else if tlp_fmt t = FMT_4DW then Some 16
      else if tlp_fmt t = FMT_4DW_DATA then Some (16 + int (length (tlp_data t)) * 4)
      else None)"

definition get_wire_size :: "tlp \<Rightarrow> int result" where
  "get_wire_size t = (case get_size t of None \<Rightarrow> Inl TypeError | Some n \<Rightarrow> Inr (n + 12))"

definition get_data_credits :: "tlp \<Rightarrow> int" where
  "get_data_credits t = (int (length (tlp_data t)) + 3) div 4"

section \<open>The DWORD codec\<close>

definition pack_dw0 :: "tlp \<Rightarrow> int" where
  "pack_dw0 t =
     (tlp_length t AND 0x3ff) OR push_bit 10 (tlp_at t AND 0x3) OR
     push_bit 12 (tlp_attr t AND 0x3) OR push_bit 14 (tlp_ep t AND 1) OR
     push_bit 15 (tlp_td t AND 1) OR push_bit 16 (tlp_th t AND 1) OR
     push_bit 16 (tlp_attr t AND 0x4) OR push_bit 20 (tlp_tc t AND 0x7) OR
     push_bit 24 (tlp_type t AND 0x1f) OR push_bit 29 (tlp_fmt t AND 0x7)"

definition pack_header :: "tlp \<Rightarrow> int list result" where
  "pack_header t =
     (if is_cfg_type (fmt_type_of t) \<or> is_mem_type (fmt_type_of t) \<or> is_io_type (fmt_type_of t) then
        let dw1 = (tlp_first_be t AND 0xf) OR push_bit 4 (tlp_last_be t AND 0xf) OR
                  push_bit 8 (tlp_tag t AND 0xff) OR push_bit 16 (id_to_int (tlp_requester_id t))
        in if is_cfg_type (fmt_type_of t) then
             Inr [pack_dw0 t, dw1,
                  push_bit 2 (tlp_register_number t AND 0x3ff) OR
                  push_bit 16 (id_to_int (tlp_dest_id t))]
           else if tlp_fmt t = FMT_4DW \<or> tlp_fmt t = FMT_4DW_DATA then
             let hi = drop_bit 32 (tlp_address t) AND 0xffffffff
             in Inr [pack_dw0 t, dw1, hi, hi OR (tlp_address t AND 0xfffffffc)]
           else Inr [pack_dw0 t, dw1, tlp_address t AND 0xfffffffc]
      else if is_cpl_type (fmt_type_of t) then
        Inr [pack_dw0 t,
             (tlp_byte_count t AND 0xfff) OR push_bit 12 (tlp_bcm t AND 1) OR
             push_bit 13 (tlp_status t AND 0x7) OR push_bit 16 (id_to_int (tlp_completer_id t)),
             (tlp_lower_address t AND 0x7f) OR push_bit 8 (tlp_tag t AND 0xff) OR
             push_bit 16 (id_to_int (tlp_requester_id t))]
      else Inl (PyException ''Unknown TLP type''))"

definition tlp_pack :: "tlp \<Rightarrow> int list result" where
  "tlp_pack t = bindE (pack_header t) (\<lambda>pkt.
     Inr (if tlp_fmt t = FMT_3DW_DATA \<or> tlp_fmt t = FMT_4DW_DATA then pkt @ tlp_data t else pkt))"

text \<open>
  \<open>unpack\<close> decodes into an existing packet: fields it does not assign keep their value.
  Each \<open>pkt[i]\<close> is a read that raises past the end. The indices, the shift of the register
  number and the words of the address are the source's own.
\<close>

definition unpack_dw0 :: "tlp \<Rightarrow> int \<Rightarrow> tlp" where
  "unpack_dw0 t d =
     t\<lparr>tlp_length := d AND 0x3ff, tlp_at := drop_bit 10 d AND 0x3,
       tlp_ep := drop_bit 14 d AND 1, tlp_td := drop_bit 15 d AND 1,
       tlp_th := drop_bit 16 d AND 1,
       tlp_attr := (drop_bit 12 d AND 0x3) OR (drop_bit 16 d AND 0x4),
       tlp_tc := drop_bit 20 d AND 0x7, tlp_type := drop_bit 24 d AND 0x1f,
       tlp_fmt := drop_bit 29 d AND 0x7\<rparr>"

definition unpack_length :: "tlp \<Rightarrow> tlp" where
  "unpack_length t =
     (if (tlp_fmt t = FMT_3DW_DATA \<or> tlp_fmt t = FMT_4DW_DATA) \<and> tlp_length t = 0
      then t\<lparr>tlp_length := 1024\<rparr> else t)"

definition unpack_request :: "tlp \<Rightarrow> int list \<Rightarrow> tlp result" where
  "unpack_request t pkt = bindE (py_nth pkt 1) (\<lambda>d1.
     let t1 = t\<lparr>tlp_first_be := d1 AND 0xf, tlp_last_be := drop_bit 4 d1 AND 0xf,
                tlp_tag := drop_bit 8 d1 AND 0xff,
                tlp_requester_id := id_from_int (drop_bit 16 d1)\<rparr>
     in if is_cfg_type (fmt_type_of t) then
          bindE (py_nth pkt 2) (\<lambda>d2.
            Inr (t1\<lparr>tlp_register_number := drop_bit 0x3ff (drop_bit 2 d2),
                    tlp_dest_id := id_from_int (drop_bit 16 d2)\<rparr>))
        else if tlp_fmt t = FMT_3DW \<or> tlp_fmt t = FMT_3DW_DATA then
          bindE (py_nth pkt 3) (\<lambda>d3. Inr (t1\<lparr>tlp_address := d3 AND 0xfffffffc\<rparr>))
        else if tlp_fmt t = FMT_4DW \<or> tlp_fmt t = FMT_4DW_DATA then
          bindE (py_nth pkt 4) (\<lambda>d4.
            Inr (t1\<lparr>tlp_address := push_bit 32 (d4 AND 0xffffffff) OR (d4 AND 0xfffffffc)\<rparr>))
        else Inr t1)"

definition unpack_completion :: "tlp \<Rightarrow> int list \<Rightarrow> tlp result" where
  "unpack_completion t pkt = bindE (py_nth pkt 1) (\<lambda>d1. bindE (py_nth pkt 2) (\<lambda>d2.
     let bc = d1 AND 0xfff
     in Inr (t\<lparr>tlp_byte_count := (if bc = 0 then 4096 else bc),
              tlp_bcm := drop_bit 12 d1 AND 1, tlp_status := drop_bit 13 d1 AND 0x7,
              tlp_completer_id := id_from_int (drop_bit 16 d1),
              tlp_lower_address := d2 AND 0x7f, tlp_tag := drop_bit 8 d2 AND 0xff,
              tlp_requester_id := id_from_int (drop_bit 16 d2)\<rparr>)))"

definition tlp_unpack :: "tlp \<Rightarrow> int list \<Rightarrow> tlp result" where
  "tlp_unpack t pkt = bindE (py_nth pkt 0) (\<lambda>d0.
     let t0 = unpack_length (unpack_dw0 t d0)
     in bindE
          (if is_cfg_type (fmt_type_of t0) \<or> is_mem_type (fmt_type_of t0) \<or>
              is_io_type (fmt_type_of t0) then unpack_request t0 pkt
           else if is_cpl_type (fmt_type_of t0) then unpack_completion t0 pkt
           else Inl (PyException ''Unknown TLP type''))
          (\<lambda>t1. Inr (if tlp_fmt t1 = FMT_3DW_DATA then t1\<lparr>tlp_data := drop 3 pkt\<rparr>
                     else if tlp_fmt t1 = FMT_4DW_DATA then t1\<lparr>tlp_data := drop 4 pkt\<rparr>
                     else t1)))"

section \<open>Byte enables select exactly the requested bytes\<close>

lemma ceil_div4_mult: "ceil_div4 (4 * n) = n"
  by (simp add: ceil_div4_def)

text \<open>The DWORD span of a byte range, in closed form.\<close>

lemma span_dws:
  fixes addr len :: int
  assumes "1 \<le> len"
  shows "len + addr mod 4 + (3 - (addr + len - 1) mod 4) = 4 * ((addr + len - 1) div 4 - addr div 4 + 1)"
proof -
  have "addr mod 4 = addr - 4 * (addr div 4)" by (simp add: minus_mult_div_eq_mod)
  moreover have "(addr + len - 1) mod 4 = addr + len - 1 - 4 * ((addr + len - 1) div 4)"
    by (simp add: minus_mult_div_eq_mod)
  ultimately show ?thesis by (simp add: algebra_simps)
qed

lemma set_be_dws:
  assumes "1 \<le> len"
  shows "tlp_length (fst (set_be t addr len)) = (addr + len - 1) div 4 - addr div 4 + 1"
proof -
  have "0 \<le> addr mod 4" "0 \<le> 3 - (addr + len - 1) mod 4"
    using pos_mod_bound[of 4 "addr + len - 1"] by simp_all
  then have "len + int (nat (addr mod 4)) + int (nat (3 - (addr + len - 1) mod 4)) =
      4 * ((addr + len - 1) div 4 - addr div 4 + 1)"
    using span_dws[OF assms] by (simp only: int_nat_eq if_True)
  then show ?thesis by (simp only: set_be_def Let_def fst_conv ceil_div4_mult) simp
qed

lemma set_be_address [simp]: "tlp_address (fst (set_be t addr len)) = addr AND NOT 3"
  by (simp add: set_be_def Let_def)

lemma addr_align4: "(addr :: int) AND NOT 3 = addr - addr mod 4"
proof -
  have "addr AND NOT (mask 2) = push_bit 2 (drop_bit 2 addr)"
    by (rule bit_eqI) (auto simp: bit_simps not_less dest!: le_Suc_ex)
  also have "\<dots> = addr div 4 * 4"
    by (simp add: push_bit_eq_mult drop_bit_eq_div)
  finally show ?thesis by (simp add: mask_eq_exp_minus_1 minus_mod_eq_div_mult)
qed

lemma less4_cases: "(n :: nat) < 4 \<Longrightarrow> n = 0 \<or> n = 1 \<or> n = 2 \<or> n = 3"
  by linarith

text \<open>What the two byte-enable nibbles say, for every pair of paddings.\<close>

lemma first_be_multi:
  "fp < 4 \<Longrightarrow> tlp_first_be t = push_bit fp 0xf AND 0xf \<Longrightarrow> get_first_be_offset t = int fp"
  by (drule less4_cases) (auto simp: get_first_be_offset_def)

lemma last_be_multi:
  "lp < 4 \<Longrightarrow> tlp_length t \<noteq> 1 \<Longrightarrow> tlp_last_be t = drop_bit lp 0xf \<Longrightarrow>
   get_last_be_offset t = int lp"
  by (drule less4_cases) (auto simp: get_last_be_offset_def)

lemma be_single:
  assumes "fp + lp < 4" "tlp_length t = 1"
    "tlp_first_be t = (push_bit fp 0xf AND 0xf) AND drop_bit lp 0xf"
  shows "get_first_be_offset t = int fp \<and> get_last_be_offset t = int lp"
proof -
  have "fp < 4" "lp < 4" using assms(1) by linarith+
  from less4_cases[OF this(1)] less4_cases[OF this(2)] show ?thesis
    using assms
    by (elim disjE) (simp_all add: get_first_be_offset_def get_last_be_offset_def Let_def)
qed

text \<open>Reading of the byte enables: byte \<open>i\<close> of the DWORD span is transferred.\<close>

definition be_enabled :: "tlp \<Rightarrow> nat \<Rightarrow> bool" where
  "be_enabled t i =
     (if i div 4 = 0 then bit (tlp_first_be t) (i mod 4)
      else if int (i div 4) = tlp_length t - 1 then bit (tlp_last_be t) (i mod 4)
      else True)"

lemma bit_first_nibble: "bit (push_bit fp (0xf :: int) AND 0xf) j \<longleftrightarrow> fp \<le> j \<and> j < 4"
proof -
  have "bit (push_bit fp (mask 4 :: int) AND mask 4) j \<longleftrightarrow> fp \<le> j \<and> j < 4"
    by (auto simp: bit_simps)
  then show ?thesis by (simp add: mask_eq_exp_minus_1)
qed

lemma bit_last_nibble: "lp < 4 \<Longrightarrow> bit (drop_bit lp (0xf :: int)) j \<longleftrightarrow> j + lp < 4"
proof -
  have "bit (drop_bit lp (mask 4 :: int)) j \<longleftrightarrow> j + lp < 4"
    by (auto simp: bit_simps)
  then show "lp < 4 \<Longrightarrow> ?thesis" by (simp add: mask_eq_exp_minus_1)
qed

text \<open>The paddings and the span of a range, with everything a byte position needs.\<close>

lemma set_be_shape:
  assumes "1 \<le> len"
  obtains fp lp n where
    "fp < 4" "lp < 4" "int fp = addr mod 4" "1 \<le> n" "int fp + len + int lp = 4 * n"
    "fst (set_be t addr len) = t\<lparr>tlp_address := addr - int fp, tlp_length := n,
       tlp_first_be := (if n = 1 then (push_bit fp 0xf AND 0xf) AND drop_bit lp 0xf
                        else push_bit fp 0xf AND 0xf),
       tlp_last_be := (if n = 1 then 0 else drop_bit lp 0xf)\<rparr>"
    "snd (set_be t addr len) = (fp, lp)"
proof -
  define fp where "fp = nat (addr mod 4)"
  define lp where "lp = nat (3 - (addr + len - 1) mod 4)"
  define n where "n = (addr + len - 1) div 4 - addr div 4 + 1"
  have r: "0 \<le> addr mod 4" "addr mod 4 < 4" "0 \<le> (addr + len - 1) mod 4" "(addr + len - 1) mod 4 < 4"
    by simp_all
  then have 1: "fp < 4" "lp < 4" "int fp = addr mod 4" "int lp = 3 - (addr + len - 1) mod 4"
    by (simp_all add: fp_def lp_def nat_less_iff)
  have 2: "int fp + len + int lp = 4 * n"
    unfolding 1(3,4) n_def using span_dws[OF assms, of addr] by linarith
  then have 3: "1 \<le> n" using assms by linarith
  have c: "ceil_div4 (len + int fp + int lp) = n"
    using 2 ceil_div4_mult[of n] by (simp add: algebra_simps)
  have a: "addr AND NOT 3 = addr - int fp" using 1(3) by (simp only: addr_align4)
  have "fst (set_be t addr len) = t\<lparr>tlp_address := addr - int fp, tlp_length := n,
       tlp_first_be := (if n = 1 then (push_bit fp 0xf AND 0xf) AND drop_bit lp 0xf
                        else push_bit fp 0xf AND 0xf),
       tlp_last_be := (if n = 1 then 0 else drop_bit lp 0xf)\<rparr>"
    unfolding set_be_def Let_def fst_conv fp_def[symmetric] lp_def[symmetric] c a ..
  moreover have "snd (set_be t addr len) = (fp, lp)"
    by (simp add: set_be_def Let_def fp_def lp_def)
  ultimately show ?thesis using that 1 2 3 by blast
qed

lemma set_be_counts:
  assumes "1 \<le> len"
  shows "get_be_byte_count (fst (set_be t addr len)) = len \<and>
    get_first_be_offset (fst (set_be t addr len)) = addr mod 4"
proof -
  obtain fp lp n where h: "fp < 4" "lp < 4" "int fp = addr mod 4" "1 \<le> n"
    "int fp + len + int lp = 4 * n"
    and eq: "fst (set_be t addr len) = t\<lparr>tlp_address := addr - int fp, tlp_length := n,
       tlp_first_be := (if n = 1 then (push_bit fp 0xf AND 0xf) AND drop_bit lp 0xf
                        else push_bit fp 0xf AND 0xf),
       tlp_last_be := (if n = 1 then 0 else drop_bit lp 0xf)\<rparr>" (is "_ = ?t")
    by (rule set_be_shape[OF assms, of addr t])
  have "get_first_be_offset ?t = int fp \<and> get_last_be_offset ?t = int lp"
  proof (cases "n = 1")
    case True
    then have "fp + lp < 4" using h assms by linarith
    then show ?thesis using True by (intro be_single) simp_all
  next
    case False
    then show ?thesis
      using first_be_multi[OF h(1), of ?t] last_be_multi[OF h(2), of ?t] by simp
  qed
  then show ?thesis unfolding eq get_be_byte_count_def using h by simp
qed

lemma set_be_enabled:
  assumes "1 \<le> len" and "int i < 4 * tlp_length (fst (set_be t addr len))"
  shows "be_enabled (fst (set_be t addr len)) i \<longleftrightarrow>
      addr \<le> tlp_address (fst (set_be t addr len)) + int i \<and>
      tlp_address (fst (set_be t addr len)) + int i < addr + len"
proof -
  obtain fp lp n where h: "fp < 4" "lp < 4" "int fp = addr mod 4" "1 \<le> n"
    "int fp + len + int lp = 4 * n"
    and eq: "fst (set_be t addr len) = t\<lparr>tlp_address := addr - int fp, tlp_length := n,
       tlp_first_be := (if n = 1 then (push_bit fp 0xf AND 0xf) AND drop_bit lp 0xf
                        else push_bit fp 0xf AND 0xf),
       tlp_last_be := (if n = 1 then 0 else drop_bit lp 0xf)\<rparr>" (is "_ = ?t")
    by (rule set_be_shape[OF assms(1), of addr t])
  define q r where "q = i div 4" and "r = i mod 4"
  have i: "i = 4 * q + r" "r < 4" by (simp_all add: q_def r_def)
  have q: "int q < n" using assms(2) i unfolding eq by simp
  have "be_enabled ?t i \<longleftrightarrow> int fp \<le> int i \<and> int i + int lp < 4 * n"
  proof (cases "n = 1")
    case True
    then have "q = 0" using q by simp
    then show ?thesis
      using True i h(1,2) by (auto simp: be_enabled_def q_def[symmetric] r_def[symmetric]
          bit_and_iff[of "_ AND _"] bit_first_nibble bit_last_nibble)
  next
    case False
    then have "2 \<le> n" using h(4) by simp
    then show ?thesis
      using False i h(1,2) q by (auto simp: be_enabled_def q_def[symmetric] r_def[symmetric]
          bit_first_nibble bit_last_nibble)
  qed
  then show ?thesis
    using h(3,5) unfolding eq by auto
qed

text \<open>Property C4: for a non-empty byte range, \<open>set_be\<close> sets byte enables that select exactly
  the bytes of the range: byte \<open>i\<close> of the DWORD span is enabled iff its address lies in
  \<open>[addr, addr+len)\<close>, and the byte count and first offset read back from the packet are
  the length and the misalignment asked for.\<close>

theorem set_be_selects_range:
  assumes "1 \<le> len" and "int i < 4 * tlp_length (fst (set_be t addr len))"
  shows "(be_enabled (fst (set_be t addr len)) i \<longleftrightarrow>
      addr \<le> tlp_address (fst (set_be t addr len)) + int i \<and>
      tlp_address (fst (set_be t addr len)) + int i < addr + len) \<and>
    get_be_byte_count (fst (set_be t addr len)) = len \<and>
    get_first_be_offset (fst (set_be t addr len)) = addr mod 4"
  using set_be_enabled[OF assms] set_be_counts[OF assms(1)] by blast

theorem set_be_selects_range_witness:
  "be_enabled (fst (set_be tlp_new 0x1003 6)) 3 \<and> \<not> be_enabled (fst (set_be tlp_new 0x1003 6)) 9"
proof -
  let ?t = "fst (set_be tlp_new 0x1003 6)"
  have l: "tlp_length ?t = 3" "tlp_address ?t = 0x1000"
    by (simp_all add: set_be_def Let_def ceil_div4_def)
  show ?thesis
    using set_be_selects_range[of 6 3 tlp_new "0x1003"]
      set_be_selects_range[of 6 9 tlp_new "0x1003"] by (simp add: l)
qed

section \<open>Packing and unpacking the data\<close>

lemma set_data_get_data:
  "list_all (fits 32) (tlp_data t) \<Longrightarrow> get_data t = Inr d \<Longrightarrow>
   set_data t' d = Inr (t'\<lparr>tlp_data := tlp_data t, tlp_length := int (length (tlp_data t))\<rparr>)"
  unfolding get_data_def set_data_def by (drule (1) le32.unpack_all_pack_all) simp

lemma unpack_L_take: "4 \<le> length d \<Longrightarrow> unpack_L (take 4 d) = Inr (from_le (take 4 d))"
  by (simp add: unpack_L_def)

lemma unpack_all_L_total:
  "4 dvd length d \<Longrightarrow>
   \<exists>dws. unpack_all 4 unpack_L d = Inr dws \<and> 4 * length dws = length d \<and>
         list_all (fits 32) dws \<and> pack_all pack_L dws = Inr d"
proof (induction "length d" arbitrary: d rule: less_induct)
  case less
  show ?case
  proof (cases "d = []")
    case True
    then show ?thesis by (simp add: pack_all_def)
  next
    case False
    with less.prems have len: "4 \<le> length d" by (auto dest: dvd_imp_le)
    moreover have "4 dvd length (drop 4 d)" using less.prems by simp
    moreover have "length (drop 4 d) < length d" using False by simp
    ultimately obtain dws where dws: "unpack_all 4 unpack_L (drop 4 d) = Inr dws"
      "4 * length dws = length (drop 4 d)" "list_all (fits 32) dws"
      "pack_all pack_L dws = Inr (drop 4 d)"
      using less.hyps by blast
    define x where "x = from_le (take 4 d)"
    have x: "fits 32 x" using from_le_fits[of "take 4 d"] len by (simp add: x_def)
    then have px: "pack_L x = Inr (take 4 d)"
      using to_le_from_le[of "take 4 d"] len by (simp add: pack_L_def fits_def x_def)
    have "unpack_all 4 unpack_L d = Inr (x # dws)"
      using False len dws(1) by (subst unpack_all.simps) (simp add: unpack_L_take x_def)
    moreover have "pack_all pack_L (x # dws) = Inr d"
      using px dws(4) by (auto simp: pack_all_def bindE_Inr_iff)
    ultimately show ?thesis using x dws(2,3) len by auto
  qed
qed

lemma set_be_data_shape:
  assumes "d \<noteq> []"
  obtains fp lp t' where
    "snd (set_be t addr (int (length d))) = (fp, lp)" "fp < 4" "lp < 4" "int fp = addr mod 4"
    "set_be_data t addr d = Inr t'"
    "get_data t' = Inr (replicate fp 0 @ d @ replicate lp 0)"
    "t' = (fst (set_be t addr (int (length d))))\<lparr>tlp_data := tlp_data t'\<rparr>"
    "list_all (fits 32) (tlp_data t')"
    "tlp_length t' = int (length (tlp_data t'))"
proof -
  have "1 \<le> int (length d)" using assms by (cases d) auto
  then obtain fp lp n where h: "fp < 4" "lp < 4" "int fp = addr mod 4" "1 \<le> n"
    "int fp + int (length d) + int lp = 4 * n"
    and eq: "fst (set_be t addr (int (length d))) = t\<lparr>tlp_address := addr - int fp, tlp_length := n,
       tlp_first_be := (if n = 1 then (push_bit fp 0xf AND 0xf) AND drop_bit lp 0xf
                        else push_bit fp 0xf AND 0xf),
       tlp_last_be := (if n = 1 then 0 else drop_bit lp 0xf)\<rparr>"
    and sn: "snd (set_be t addr (int (length d))) = (fp, lp)"
    by (rule set_be_shape[of "int (length d)" addr t])
  let ?d = "replicate fp 0 @ d @ replicate lp (0 :: byte)"
  have len: "int (length ?d) = 4 * n" using h(5) by simp
  then have "4 dvd length ?d" by presburger
  then obtain dws where dws: "unpack_all 4 unpack_L ?d = Inr dws" "4 * length dws = length ?d"
    "list_all (fits 32) dws" "pack_all pack_L dws = Inr ?d"
    using unpack_all_L_total by blast
  have ldws: "int (length dws) = n" using dws(2) len by linarith
  have addr_upd: "set_be (t\<lparr>tlp_address := a\<rparr>) addr l = set_be t addr l" for a l
    by (simp add: set_be_def Let_def)
  let ?t = "(fst (set_be t addr (int (length d))))\<lparr>tlp_data := dws\<rparr>"
  have "set_be_data t addr d = Inr ?t"
    using sn dws(1) unfolding set_be_data_def set_data_def addr_upd
    by (simp add: prod.case_eq_if eq ldws)
  then show ?thesis
    using that[of fp lp ?t] h sn dws by (simp add: get_data_def eq ldws)
qed

section \<open>The codec on completions\<close>

definition hdr_ok :: "tlp \<Rightarrow> bool" where
  "hdr_ok t \<longleftrightarrow> fits 3 (tlp_fmt t) \<and> fits 5 (tlp_type t) \<and> fits 3 (tlp_tc t) \<and> fits 1 (tlp_th t) \<and>
     fits 1 (tlp_td t) \<and> fits 1 (tlp_ep t) \<and> fits 3 (tlp_attr t) \<and> fits 2 (tlp_at t)"

lemma unpack_pack_dw0:
  "hdr_ok t \<Longrightarrow> unpack_dw0 u (pack_dw0 t) =
     u\<lparr>tlp_length := take_bit 10 (tlp_length t), tlp_at := tlp_at t, tlp_ep := tlp_ep t,
       tlp_td := tlp_td t, tlp_th := tlp_th t, tlp_attr := tlp_attr t, tlp_tc := tlp_tc t,
       tlp_type := tlp_type t, tlp_fmt := tlp_fmt t\<rparr>"
  using take_bit_split[of 2 "tlp_attr t" 1]
  by (clarsimp simp: hdr_ok_def unpack_dw0_def pack_dw0_def masks pybits)

text \<open>The completions the codec carries: every field in range, the fields a completion has no
  room for at their initial value.\<close>

definition cpl_ok :: "tlp \<Rightarrow> bool" where
  "cpl_ok t \<longleftrightarrow> hdr_ok t \<and> is_cpl_type (fmt_type_of t) \<and>
     1 \<le> tlp_byte_count t \<and> tlp_byte_count t \<le> 4096 \<and>
     fits 1 (tlp_bcm t) \<and> fits 3 (tlp_status t) \<and> fits 7 (tlp_lower_address t) \<and>
     fits 8 (tlp_tag t) \<and> id_ok (tlp_completer_id t) \<and> id_ok (tlp_requester_id t) \<and>
     tlp_dest_id t = mk_id 0 0 0 \<and> tlp_first_be t = 0 \<and> tlp_last_be t = 0 \<and>
     tlp_address t = 0 \<and> tlp_register_number t = 0 \<and>
     (if tlp_fmt t = FMT_3DW_DATA then 1 \<le> tlp_length t \<and> tlp_length t \<le> 1024
      else fits 10 (tlp_length t) \<and> tlp_data t = [])"

lemma unpack_pack_cpl_dws:
  assumes "id_ok (tlp_completer_id t)" "id_ok (tlp_requester_id t)" "fits 1 (tlp_bcm t)"
    "fits 3 (tlp_status t)" "fits 7 (tlp_lower_address t)" "fits 8 (tlp_tag t)"
    "1 \<le> tlp_byte_count t" "tlp_byte_count t \<le> 4096"
  shows "unpack_completion u (d0 #
      ((tlp_byte_count t AND 0xfff) OR push_bit 12 (tlp_bcm t AND 1) OR
        push_bit 13 (tlp_status t AND 0x7) OR push_bit 16 (id_to_int (tlp_completer_id t))) #
      ((tlp_lower_address t AND 0x7f) OR push_bit 8 (tlp_tag t AND 0xff) OR
        push_bit 16 (id_to_int (tlp_requester_id t))) # ds) =
    Inr (u\<lparr>tlp_byte_count := tlp_byte_count t, tlp_bcm := tlp_bcm t, tlp_status := tlp_status t,
      tlp_completer_id := tlp_completer_id t, tlp_lower_address := tlp_lower_address t,
      tlp_tag := tlp_tag t, tlp_requester_id := tlp_requester_id t\<rparr>)"
proof -
  show ?thesis
  proof (cases "tlp_byte_count t = 4096")
    case True
    then show ?thesis using assms(1-6)
      by (simp add: unpack_completion_def masks pybits id_from_to_int Let_def)
  next
    case False
    with assms(7,8) have "fits 12 (tlp_byte_count t)" "tlp_byte_count t \<noteq> 0"
      by (simp_all add: fits_def)
    then show ?thesis using assms(1-6)
      by (simp add: unpack_completion_def masks pybits id_from_to_int Let_def)
  qed
qed

lemma cpl_not_request:
  "is_cpl_type ft \<Longrightarrow> \<not> is_cfg_type ft \<and> \<not> is_mem_type ft \<and> \<not> is_io_type ft"
  by (auto simp: tlp_type_defs)

lemma tlp_unpack_completion:
  assumes "t0 = unpack_length (unpack_dw0 u d0)" "is_cpl_type (fmt_type_of t0)"
  shows "tlp_unpack u (d0 # ds) = bindE (unpack_completion t0 (d0 # ds))
    (\<lambda>t1. Inr (if tlp_fmt t1 = FMT_3DW_DATA then t1\<lparr>tlp_data := drop 2 ds\<rparr>
              else if tlp_fmt t1 = FMT_4DW_DATA then t1\<lparr>tlp_data := drop 3 ds\<rparr> else t1))"
  using assms(2) cpl_not_request[OF assms(2)]
  by (simp add: tlp_unpack_def Let_def assms(1)[symmetric] cong: if_cong)

lemma unpack_pack_cpl:
  assumes "cpl_ok t" "tlp_pack t = Inr pkt"
  shows "tlp_unpack tlp_new pkt = Inr t"
proof -
  have t: "hdr_ok t" "is_cpl_type (fmt_type_of t)" using assms by (simp_all add: cpl_ok_def)
  have fmt: "tlp_fmt t = FMT_3DW \<or> tlp_fmt t = FMT_3DW_DATA"
    using t by (auto simp: tlp_type_defs fmt_type_of_def)
  define t0 where "t0 = unpack_length (unpack_dw0 tlp_new (pack_dw0 t))"
  have len: "tlp_fmt t = FMT_3DW_DATA \<and> tlp_length t = 1024 \<or>
      fits 10 (tlp_length t) \<and> (tlp_fmt t = FMT_3DW_DATA \<longrightarrow> tlp_length t \<noteq> 0)"
    using assms(1) by (auto simp: cpl_ok_def fits_def split: if_splits)
  have t0: "t0 = tlp_new\<lparr>tlp_length := tlp_length t, tlp_at := tlp_at t, tlp_ep := tlp_ep t,
       tlp_td := tlp_td t, tlp_th := tlp_th t, tlp_attr := tlp_attr t, tlp_tc := tlp_tc t,
       tlp_type := tlp_type t, tlp_fmt := tlp_fmt t\<rparr>"
    unfolding t0_def unpack_pack_dw0[OF t(1)] using len fmt
    by (elim disjE conjE) (simp_all add: unpack_length_def)
  then have ft: "is_cpl_type (fmt_type_of t0)" using t(2) by (simp add: fmt_type_of_def)
  obtain d1 d2 where pkt: "pkt = pack_dw0 t # d1 # d2 # tlp_data t"
    and cpl: "\<And>u ds. unpack_completion u (pack_dw0 t # d1 # d2 # ds) =
      Inr (u\<lparr>tlp_byte_count := tlp_byte_count t, tlp_bcm := tlp_bcm t, tlp_status := tlp_status t,
        tlp_completer_id := tlp_completer_id t, tlp_lower_address := tlp_lower_address t,
        tlp_tag := tlp_tag t, tlp_requester_id := tlp_requester_id t\<rparr>)"
    using assms fmt cpl_not_request[OF t(2)] t(2)
    by (auto simp: tlp_pack_def pack_header_def cpl_ok_def unpack_pack_cpl_dws)
  show ?thesis
    unfolding pkt tlp_unpack_completion[OF t0_def ft] cpl
    using assms(1) fmt by (auto simp: t0 cpl_ok_def tlp_new_def intro!: tlp.equality)
qed

interpretation cpl: codec tlp_pack "tlp_unpack tlp_new" cpl_ok
proof
  fix t assume "cpl_ok t"
  then show "\<exists>pkt. tlp_pack t = Inr pkt"
    using cpl_not_request by (auto simp: cpl_ok_def tlp_pack_def pack_header_def)
next
  fix t pkt assume "cpl_ok t" "tlp_pack t = Inr pkt"
  then show "tlp_unpack tlp_new pkt = Inr t" by (rule unpack_pack_cpl)
qed

text \<open>Property C5: unpacking a packed completion gives the completion back, whatever its
  status, byte count (4096 travels as 0), length (1024 travels as 0) and payload; and
  packing is injective on completions.\<close>

theorem completion_roundtrip:
  assumes "cpl_ok t" "cpl_ok t'"
  shows "bindE (tlp_pack t) (tlp_unpack tlp_new) = Inr t \<and>
    (tlp_pack t = tlp_pack t' \<longleftrightarrow> t = t')"
  using cpl.roundtrip[OF assms(1)] cpl.enc_inj[OF assms] by auto

definition cpl_example :: tlp where
  "cpl_example = (set_completion_data tlp_new tlp_new (mk_id 1 2 3))
     \<lparr>tlp_byte_count := 4096, tlp_length := 1, tlp_data := [0xdeadbeef], tlp_lower_address := 4\<rparr>"

theorem completion_roundtrip_witness:
  "bindE (tlp_pack cpl_example) (tlp_unpack tlp_new) = Inr cpl_example"
proof -
  have "cpl_ok cpl_example"
    by (simp add: cpl_ok_def cpl_example_def completion_defs tlp_new_def hdr_ok_def fits_def
        tlp_type_defs fmt_type_of_def id_ok_def)
  then show ?thesis using completion_roundtrip by blast
qed

section \<open>The codec on requests\<close>

text \<open>
  \<open>unpack\<close> reads the address of a memory or IO request from one DWORD past its place, so a
  request without payload is cut off before it, and it shifts the register number of a
  configuration request right by 1023.
\<close>

lemma unpack_dw0_type:
  "hdr_ok t \<Longrightarrow> fmt_type_of (unpack_length (unpack_dw0 u (pack_dw0 t))) = fmt_type_of t"
  by (simp add: unpack_length_def unpack_pack_dw0 fmt_type_of_def)

lemma unpack_dw0_fmt:
  "hdr_ok t \<Longrightarrow> tlp_fmt (unpack_length (unpack_dw0 u (pack_dw0 t))) = tlp_fmt t"
  by (simp add: unpack_length_def unpack_pack_dw0)

text \<open>No memory or IO read request survives the codec: unpacking what \<open>pack\<close>
  produced for it raises an \<open>IndexError\<close>.\<close>

theorem unpack_read_request_raises:
  assumes "hdr_ok t" "is_mem_type (fmt_type_of t) \<or> is_io_type (fmt_type_of t)"
    "tlp_fmt t = FMT_3DW \<or> tlp_fmt t = FMT_4DW"
  shows "bindE (tlp_pack t) (tlp_unpack u) = Inl IndexError"
proof -
  have "\<not> is_cfg_type (fmt_type_of t)" using assms(2) by (auto simp: tlp_type_defs)
  then show ?thesis
    using assms by (auto simp: tlp_pack_def pack_header_def tlp_unpack_def unpack_request_def
        Let_def unpack_dw0_type unpack_dw0_fmt)
qed

theorem unpack_read_request_raises_witness:
  "bindE (tlp_pack (fst (set_be (set_fmt_type TLP_MEM_READ tlp_new) 0x1000 4))) (tlp_unpack tlp_new)
     = Inl IndexError"
  by (rule unpack_read_request_raises)
    (simp_all add: hdr_ok_def set_be_def Let_def set_fmt_type_def tlp_new_def fits_def
      tlp_type_defs fmt_type_of_def)

text \<open>A configuration request keeps its target and requester through the codec
  but never its register: the unpacked register number is 0.\<close>

theorem unpack_config_request:
  assumes "hdr_ok t" "is_cfg_type (fmt_type_of t)" "id_ok (tlp_dest_id t)" "id_ok (tlp_requester_id t)"
  shows "\<exists>t'. bindE (tlp_pack t) (tlp_unpack u) = Inr t' \<and> tlp_register_number t' = 0 \<and>
    tlp_dest_id t' = tlp_dest_id t \<and> tlp_requester_id t' = tlp_requester_id t \<and>
    tlp_tag t' = take_bit 8 (tlp_tag t)"
proof -
  have hi: "drop_bit 1009 (id_to_int (tlp_dest_id t)) = 0"
    by (rule drop_bit_fits[OF fits_id_to_int]) simp
  have fmt: "tlp_fmt t = FMT_3DW \<or> tlp_fmt t = FMT_3DW_DATA"
    using assms(2) by (auto simp: is_cfg_type_def fmt_type_of_def)
  define t0 where "t0 = unpack_length (unpack_dw0 u (pack_dw0 t))"
  have t0: "is_cfg_type (fmt_type_of t0)" "tlp_fmt t0 = tlp_fmt t"
    using assms(1,2) by (simp_all add: t0_def unpack_dw0_type unpack_dw0_fmt)
  show ?thesis
    using assms(2-4) fmt t0
    by (elim disjE) (simp_all add: tlp_pack_def pack_header_def tlp_unpack_def unpack_request_def
        Let_def t0_def[symmetric] masks pybits id_from_to_int hi)
qed

theorem unpack_config_request_witness:
  "\<exists>t'. bindE (tlp_pack ((set_fmt_type TLP_CFG_READ_1 tlp_new)\<lparr>tlp_register_number := 4\<rparr>))
      (tlp_unpack tlp_new) = Inr t' \<and> tlp_register_number t' = 0"
proof -
  let ?t = "(set_fmt_type TLP_CFG_READ_1 tlp_new)\<lparr>tlp_register_number := 4\<rparr>"
  have "hdr_ok ?t" "is_cfg_type (fmt_type_of ?t)" "id_ok (tlp_dest_id ?t)" "id_ok (tlp_requester_id ?t)"
    by (simp_all add: hdr_ok_def set_fmt_type_def tlp_new_def fits_def
        tlp_type_defs fmt_type_of_def id_ok_def)
  from unpack_config_request[OF this] show ?thesis by blast
qed

end
