(* ===== verification/PcieFunction.thy ===== *)
theory PcieFunction
  imports PcieMsi PcieCap Tlp
begin

text \<open>
  The PCIe function of \<open>fpga/lib/pcie/tb/pcie.py\<close>: class \<open>Function\<close> and the endpoint header
  \<open>Endpoint\<close>. State, configuration space, capability registration, base address registers,
  tags and the completion queues, and the handler of type 0 configuration requests. A method
  a subclass overrides is a parameter of the operations that call it through \<open>self\<close>; a
  coroutine that sends packets returns the packets it sends. Subclasses add fields by record
  extension, as the classes add attributes.
\<close>

unbundle bit_operations_syntax

section \<open>State\<close>

text \<open>The handlers the capability mixins register, and the packet handlers of the classes.\<close>

datatype cap_handler = PmHandler | PcieHandler | MsiHandler | MsixHandler

datatype rx_handler =
  HandleConfig0 | HandleConfig1 | HandleIoRead | HandleIoWrite | HandleMemRead | HandleMemWrite

record cfg_regs =
  vendor_id :: int
  device_id :: int
  bus_master_enable :: bool
  parity_error_response :: bool
  serr_enable :: bool
  interrupt_disable :: bool
  interrupt_status :: bool
  capabilities_list :: bool
  master_data_parity_error :: bool
  signaled_target_abort :: bool
  received_target_abort :: bool
  received_master_abort :: bool
  signaled_system_error :: bool
  detected_parity_error :: bool
  rev_id :: int
  class_code :: int
  cache_ln :: int
  lat_timer :: int
  header_type :: int
  bist :: int
  expansion_rom_addr :: int
  cap_ptr :: int
  intr_pin :: int
  intr_line :: int

record pfunction =
  bus_num :: int
  device_num :: int
  function_num :: int
  upstream_connected :: bool
  current_tag :: int
  rx_cpl_queues :: "tlp list list"
  rx_tlp_handler :: "fmt_type \<Rightarrow> rx_handler option"
  capabilities :: "cap_handler pcie_cap list"
  ext_capabilities :: "cap_handler pcie_cap list"
  fn_cfg :: cfg_regs
  bar :: "int list"
  bar_mask :: "int list"
  fn_pm :: pm_regs
  fn_pcie :: pcie_regs
  fn_msi :: msi_regs
  fn_msix :: msix_regs

definition cfg_regs_init :: cfg_regs where
  "cfg_regs_init = \<lparr>vendor_id = 0, device_id = 0, bus_master_enable = False,
     parity_error_response = False, serr_enable = False, interrupt_disable = False,
     interrupt_status = False, capabilities_list = True, master_data_parity_error = False,
     signaled_target_abort = False, received_target_abort = False, received_master_abort = False,
     signaled_system_error = False, detected_parity_error = False, rev_id = 0, class_code = 0,
     cache_ln = 0, lat_timer = 0, header_type = 0, bist = 0, expansion_rom_addr = 0, cap_ptr = 0,
     intr_pin = 0, intr_line = 0\<rparr>"

definition get_id :: "'a pfunction_scheme \<Rightarrow> pcie_id" where
  "get_id s = mk_id (bus_num s) (device_num s) (function_num s)"

section \<open>Capabilities of a function\<close>

definition cap_read_handler :: "'a pfunction_scheme \<Rightarrow> cap_handler \<Rightarrow> int \<Rightarrow> int option" where
  "cap_read_handler s h reg =
     (case h of
        PmHandler \<Rightarrow> read_pm_cap_register (fn_pm s) reg
      | PcieHandler \<Rightarrow> Some (read_pcie_cap_register (fn_pcie s) reg)
      | MsiHandler \<Rightarrow> read_msi_cap_register (fn_msi s) reg
      | MsixHandler \<Rightarrow> read_msix_cap_register (fn_msix s) reg)"

definition cap_write_handler ::
  "cap_handler \<Rightarrow> int \<Rightarrow> int \<Rightarrow> int \<Rightarrow> 'a pfunction_scheme \<Rightarrow> 'a pfunction_scheme result" where
  "cap_write_handler h reg dat msk s =
     (case h of
        PmHandler \<Rightarrow> Inr (s\<lparr>fn_pm := write_pm_cap_register reg dat msk (fn_pm s)\<rparr>)
      | PcieHandler \<Rightarrow>
          bindE (write_pcie_cap_register reg dat msk (fn_pcie s)) (\<lambda>r. Inr (s\<lparr>fn_pcie := r\<rparr>))
      | MsiHandler \<Rightarrow> Inr (s\<lparr>fn_msi := write_msi_cap_register reg dat msk (fn_msi s)\<rparr>)
      | MsixHandler \<Rightarrow> Inr (s\<lparr>fn_msix := write_msix_cap_register reg dat msk (fn_msix s)\<rparr>))"

definition read_capability_register :: "'a pfunction_scheme \<Rightarrow> int \<Rightarrow> int option result" where
  "read_capability_register s reg =
     caps_read_register cap_read_register (cap_read_handler s) (capabilities s) reg"

definition write_capability_register ::
  "int \<Rightarrow> int \<Rightarrow> int \<Rightarrow> 'a pfunction_scheme \<Rightarrow> 'a pfunction_scheme result" where
  "write_capability_register reg dat msk s =
     caps_write_register cap_write_handler (capabilities s) reg dat msk s"

definition register_capability ::
  "int \<Rightarrow> int option \<Rightarrow> cap_handler option \<Rightarrow> int option \<Rightarrow>
   'a pfunction_scheme \<Rightarrow> 'a pfunction_scheme result" where
  "register_capability i len h off s =
     bindE (cap_register 0x10 (capabilities s) i (Some 0) len h h off) (\<lambda>l.
       Inr (s\<lparr>capabilities := l,
              fn_cfg := (fn_cfg s)\<lparr>cap_ptr := (case l of [] \<Rightarrow> 0 | c # _ \<Rightarrow> cap_offset c * 4)\<rparr>\<rparr>))"

definition read_extended_capability_register ::
  "'a pfunction_scheme \<Rightarrow> int \<Rightarrow> int option result" where
  "read_extended_capability_register s reg =
     caps_read_register ext_cap_read_register (cap_read_handler s) (ext_capabilities s) reg"

definition write_extended_capability_register ::
  "int \<Rightarrow> int \<Rightarrow> int \<Rightarrow> 'a pfunction_scheme \<Rightarrow> 'a pfunction_scheme result" where
  "write_extended_capability_register reg dat msk s =
     caps_write_register cap_write_handler (ext_capabilities s) reg dat msk s"

definition register_extended_capability ::
  "int \<Rightarrow> int \<Rightarrow> int option \<Rightarrow> cap_handler option \<Rightarrow> int option \<Rightarrow>
   'a pfunction_scheme \<Rightarrow> 'a pfunction_scheme result" where
  "register_extended_capability i ver len h off s =
     bindE (cap_register 0x40 (ext_capabilities s) i (Some ver) len h h off) (\<lambda>l.
       Inr (s\<lparr>ext_capabilities := l\<rparr>))"

text \<open>\<open>Function.__init__\<close>: the attributes, then the capabilities of the two mixins in the
  order their constructors run.\<close>

definition pfunction_blank :: pfunction where
  "pfunction_blank = \<lparr>bus_num = 0, device_num = 0, function_num = 0, upstream_connected = False,
     current_tag = 0, rx_cpl_queues = replicate 256 [],
     rx_tlp_handler = (\<lambda>_. None)(TLP_CFG_READ_0 := Some HandleConfig0,
                                TLP_CFG_WRITE_0 := Some HandleConfig0),
     capabilities = [], ext_capabilities = [], fn_cfg = cfg_regs_init, bar = [], bar_mask = [],
     fn_pm = \<lparr>pm_capabilities = 0, pm_control_status = 0, pm_data = 0\<rparr>,
     fn_pcie = pcie_regs_init, fn_msi = msi_regs_init, fn_msix = msix_regs_init\<rparr>"

definition pfunction_init :: "pfunction result" where
  "pfunction_init =
     bindE (register_capability 0x10 (Some 15) (Some PcieHandler) None pfunction_blank)
       (register_capability 0x01 (Some 2) (Some PmHandler) None)"

section \<open>Configuration space\<close>

definition read_common_register :: "'a pfunction_scheme \<Rightarrow> int \<Rightarrow> int option result" where
  "read_common_register s reg =
     (let c = fn_cfg s in
      if reg = 0 then Inr (Some (push_bit 16 (device_id c) OR vendor_id c))
      else if reg = 1 then
        Inr (Some (flag 2 (bus_master_enable c) OR flag 6 (parity_error_response c)
          OR flag 8 (serr_enable c) OR flag 10 (interrupt_disable c)
          OR flag 19 (interrupt_status c) OR flag 20 (capabilities_list c)
          OR flag 24 (master_data_parity_error c) OR flag 27 (signaled_target_abort c)
          OR flag 28 (received_target_abort c) OR flag 29 (received_master_abort c)
          OR flag 30 (signaled_system_error c) OR flag 31 (detected_parity_error c)))
      else if reg = 2 then Inr (Some (push_bit 8 (class_code c) OR rev_id c))
      else if reg = 3 then
        Inr (Some (push_bit 24 (bist c) OR push_bit 16 (header_type c) OR push_bit 8 (lat_timer c)
          OR cache_ln c))
      else if reg = 13 then Inr (Some (cap_ptr c))
      else if reg = 15 then Inr (Some (push_bit 8 (intr_pin c) OR intr_line c))
      else if 16 \<le> reg \<and> reg < 256 then read_capability_register s reg
      else if 256 \<le> reg \<and> reg < 4096 then read_extended_capability_register s reg
      else Inr (Some 0))"

definition write_common_register ::
  "int \<Rightarrow> int \<Rightarrow> int \<Rightarrow> 'a pfunction_scheme \<Rightarrow> 'a pfunction_scheme result" where
  "write_common_register reg dat msk s =
     (let c = fn_cfg s in
      if reg = 1 then
        Inr (s\<lparr>fn_cfg := c\<lparr>
          bus_master_enable := upd (tst msk 0) (tst dat 2) (bus_master_enable c),
          parity_error_response := upd (tst msk 0) (tst dat 6) (parity_error_response c),
          serr_enable := upd (tst msk 1) (tst dat 8) (serr_enable c),
          interrupt_disable := upd (tst msk 1) (tst dat 10) (interrupt_disable c),
          master_data_parity_error := (master_data_parity_error c \<and> \<not> (tst msk 3 \<and> tst dat 24)),
          signaled_target_abort := (signaled_target_abort c \<and> \<not> (tst msk 3 \<and> tst dat 27)),
          received_target_abort := (received_target_abort c \<and> \<not> (tst msk 3 \<and> tst dat 28)),
          received_master_abort := (received_master_abort c \<and> \<not> (tst msk 3 \<and> tst dat 29)),
          signaled_system_error := (signaled_system_error c \<and> \<not> (tst msk 3 \<and> tst dat 30)),
          detected_parity_error := (detected_parity_error c \<and> \<not> (tst msk 3 \<and> tst dat 31))\<rparr>\<rparr>)
      else if reg = 3 then
        Inr (s\<lparr>fn_cfg := c\<lparr>
          cache_ln := byte_mask_update (cache_ln c) (msk AND 1) dat (-1),
          lat_timer := byte_mask_update (lat_timer c) (drop_bit 1 msk AND 1) (drop_bit 8 dat) (-1),
          bist := byte_mask_update (bist c) (drop_bit 3 msk AND 1) (drop_bit 24 dat) (-1)\<rparr>\<rparr>)
      else if reg = 15 then
        Inr (s\<lparr>fn_cfg := c\<lparr>
          intr_line := byte_mask_update (intr_line c) (msk AND 1) dat (-1),
          intr_pin := byte_mask_update (intr_pin c) (drop_bit 1 msk AND 1) (drop_bit 8 dat) (-1)\<rparr>\<rparr>)
      else if 16 \<le> reg \<and> reg < 256 then write_capability_register reg dat msk s
      else if 256 \<le> reg \<and> reg < 4096 then write_extended_capability_register reg dat msk s
      else Inr s)"

text \<open>Type 0 header of \<open>Endpoint\<close>. Six base address registers, indexed as \<open>self.bar[k]\<close>.\<close>

definition write_bar :: "nat \<Rightarrow> int \<Rightarrow> int \<Rightarrow> 'a pfunction_scheme \<Rightarrow> 'a pfunction_scheme result" where
  "write_bar k dat msk s =
     bindE (py_nth (bar s) k) (\<lambda>b. bindE (py_nth (bar_mask s) k) (\<lambda>m.
       Inr (s\<lparr>bar := (bar s)[k := byte_mask_update b msk dat m]\<rparr>)))"

record endpoint = pfunction +
  cardbus_cis :: int
  subsystem_vendor_id :: int
  subsystem_id :: int

definition read_endpoint_register :: "'a endpoint_scheme \<Rightarrow> int \<Rightarrow> int option result" where
  "read_endpoint_register s reg =
     (if 4 \<le> reg \<and> reg \<le> 9 then bindE (py_nth (bar s) (nat reg - 4)) (\<lambda>b. Inr (Some b))
      else if reg = 10 then Inr (Some (cardbus_cis s))
      else if reg = 11 then Inr (Some (push_bit 16 (subsystem_id s) OR subsystem_vendor_id s))
      else if reg = 12 then Inr (Some (expansion_rom_addr (fn_cfg s)))
      else if reg = 13 then Inr (Some (cap_ptr (fn_cfg s)))
      else if reg = 14 then Inr (Some 0)
      else if reg = 15 then Inr (Some (push_bit 8 (intr_pin (fn_cfg s)) OR intr_line (fn_cfg s)))
      else read_common_register s reg)"

definition write_endpoint_register ::
  "int \<Rightarrow> int \<Rightarrow> int \<Rightarrow> 'a endpoint_scheme \<Rightarrow> 'a endpoint_scheme result" where
  "write_endpoint_register reg dat msk s =
     (if 4 \<le> reg \<and> reg \<le> 9 then write_bar (nat reg - 4) dat msk s
      else if reg = 12 then
        Inr (s\<lparr>fn_cfg := (fn_cfg s)\<lparr>expansion_rom_addr :=
          byte_mask_update (expansion_rom_addr (fn_cfg s)) msk dat (-1)\<rparr>\<rparr>)
      else if reg = 15 then
        Inr (s\<lparr>fn_cfg := (fn_cfg s)\<lparr>
          intr_line := byte_mask_update (intr_line (fn_cfg s)) (msk AND 1) dat (-1),
          intr_pin := byte_mask_update (intr_pin (fn_cfg s)) (drop_bit 1 msk AND 1)
                        (drop_bit 8 dat) (-1)\<rparr>\<rparr>)
      else write_common_register reg dat msk s)"

definition endpoint_init :: "endpoint result" where
  "endpoint_init = bindE pfunction_init (\<lambda>f.
     Inr (pfunction.extend (f\<lparr>bar := replicate 6 0, bar_mask := replicate 6 0\<rparr>)
            (endpoint.fields 0 0 0)))"

end
