(* ===== verification/PcieBar.thy ===== *)
theory PcieBar
  imports PcieFunction
begin

text \<open>
  Base address registers of a function: \<open>Function.configure_bar\<close> and \<open>Function.match_bar\<close> of
  \<open>fpga/lib/pcie/tb/pcie.py\<close>. The exponent \<open>math.ceil(math.log(size, 2))\<close> is computed in
  floating point and can be one too large even for an exact power of two, so it is a
  parameter \<open>lg\<close>; \<open>clog2\<close> is the exact logarithm. The lemmas read a programmed register as an
  address range.
\<close>

unbundle bit_operations_syntax

section \<open>Operations\<close>

function clog2 :: "int \<Rightarrow> nat" where
  "clog2 n = (if n \<le> 1 then 0 else Suc (clog2 ((n + 1) div 2)))"
  by pat_completeness auto
termination
  by (relation "measure nat") auto

declare clog2.simps [simp del]

definition configure_bar ::
  "(int \<Rightarrow> nat) \<Rightarrow> nat \<Rightarrow> int \<Rightarrow> bool \<Rightarrow> bool \<Rightarrow> bool \<Rightarrow>
   'a pfunction_scheme \<Rightarrow> 'a pfunction_scheme result" where
  "configure_bar lg idx sz ext prefetch io s =
     (if sz \<le> 0 then Inl ValueError
      else let msk = 2 ^ lg sz - 1
      in if idx \<ge> length (bar s) \<or> ext \<and> idx + 1 \<ge> length (bar s)
         then Inl (PyException ''BAR index out of range'')
         else if io then
           Inr (s\<lparr>bar := (bar s)[idx := 1], bar_mask := (bar_mask s)[idx := 0xfffffffc AND NOT msk]\<rparr>)
         else
           let s1 = s\<lparr>bar := (bar s)[idx := 0],
                      bar_mask := (bar_mask s)[idx := 0xfffffff0 AND NOT msk]\<rparr>;
               s2 = (if ext then
                       s1\<lparr>bar := (bar s1)[idx := (bar s1 ! idx) OR 4, idx + 1 := 0],
                          bar_mask := (bar_mask s1)[idx + 1 := 0xffffffff AND drop_bit 32 (NOT msk)]\<rparr>
                     else s1)
           in Inr (if prefetch then s2\<lparr>bar := (bar s2)[idx := (bar s2 ! idx) OR 8]\<rparr> else s2))"

text \<open>The scan of \<open>match_bar\<close> over the pairs of a register and its mask, \<open>i\<close> the index of the
  first.\<close>

fun match_bar_loop :: "int \<Rightarrow> bool \<Rightarrow> nat \<Rightarrow> (int \<times> int) list \<Rightarrow> (nat \<times> int) list result" where
  "match_bar_loop addr io i [] = Inr []"
| "match_bar_loop addr io i ((v, m) # rest) =
     (if m = 0 then match_bar_loop addr io (i + 1) rest
      else if v AND 1 \<noteq> 0 then
        bindE (match_bar_loop addr io (i + 1) rest) (\<lambda>r.
          Inr (if io \<and> addr AND m = v AND m then (i, addr AND NOT m) # r else r))
      else if v AND 4 \<noteq> 0 then
        (case rest of
           [] \<Rightarrow> Inl (PyException ''Final BAR marked as 64 bit, but no extension BAR available'')
         | (v2, m2) # rest' \<Rightarrow>
             let v64 = v OR push_bit 32 v2; m64 = m OR push_bit 32 m2
             in bindE (match_bar_loop addr io (i + 2) rest') (\<lambda>r.
                  Inr (if \<not> io \<and> addr AND m64 = v64 AND m64 then (i, addr AND NOT m64) # r else r)))
      else
        bindE (match_bar_loop addr io (i + 1) rest) (\<lambda>r.
          Inr (if \<not> io \<and> addr AND m = v AND m then (i, addr AND NOT m) # r else r)))"

definition match_bar :: "'a pfunction_scheme \<Rightarrow> int \<Rightarrow> bool \<Rightarrow> (nat \<times> int) list result" where
  "match_bar s addr io = match_bar_loop addr io 0 (zip (bar s) (bar_mask s))"

section \<open>The exact logarithm\<close>

lemma clog2_bounds: "1 \<le> n \<Longrightarrow> n \<le> 2 ^ clog2 n \<and> 2 ^ clog2 n < 2 * n"
proof (induction n rule: clog2.induct)
  case (1 n)
  show ?case
  proof (cases "n \<le> 1")
    case True
    with "1.prems" show ?thesis by (simp add: clog2.simps)
  next
    case False
    let ?h = "(n + 1) div 2"
    have h: "?h \<le> 2 ^ clog2 ?h \<and> 2 ^ clog2 ?h < 2 * ?h"
      using "1.IH" False by auto
    have eq: "clog2 n = Suc (clog2 ?h)" using False by (subst clog2.simps) simp
    have "2 ^ clog2 ?h < n"
    proof (cases "clog2 ?h")
      case 0
      then show ?thesis using False by simp
    next
      case (Suc c)
      define e :: int where "e = 2 ^ c"
      have "e < ?h" using h Suc by (simp add: e_def)
      then have "2 * e < n" by presburger
      then show ?thesis using Suc by (simp add: e_def)
    qed
    moreover have "n \<le> 2 * ?h" by linarith
    ultimately show ?thesis using h eq by simp
  qed
qed

section \<open>A programmed register is an address range\<close>

text \<open>Bits of the masks and of an aligned base.\<close>

lemma not_mask_pow: "NOT (2 ^ k - 1 :: int) = NOT (mask k)"
  by (simp add: mask_eq_exp_minus_1)

lemma and_not_mask: "(a :: int) AND NOT (mask k) = push_bit k (drop_bit k a)"
  by (rule bit_eqI) (auto simp: bit_simps not_less dest!: le_Suc_ex)

lemma mask_window:
  assumes "k \<le> n"
  shows "mask n AND NOT (mask k :: int) = push_bit k (mask (n - k))"
  using assms by (intro bit_eqI) (auto simp: bit_simps)

lemma window_select:
  assumes "fits n a" "k \<le> n"
  shows "a AND push_bit k (mask (n - k)) = push_bit k (drop_bit k a)"
    and "a AND NOT (push_bit k (mask (n - k))) = take_bit k a"
proof -
  have hi: "bit a i \<Longrightarrow> i < n" for i
    using fits_bit_high[OF assms(1), of i] by (meson not_less)
  show "a AND push_bit k (mask (n - k)) = push_bit k (drop_bit k a)"
    using assms(2) by (intro bit_eqI) (auto simp: bit_simps not_less dest!: le_Suc_ex dest: hi)
  show "a AND NOT (push_bit k (mask (n - k))) = take_bit k a"
    using assms(2) by (intro bit_eqI) (auto simp: bit_simps not_less dest: hi)
qed

lemma drop_bit_eq_range:
  assumes "b = push_bit k q"
  shows "drop_bit k (a :: int) = q \<longleftrightarrow> b \<le> a \<and> a < b + 2 ^ k"
proof -
  have p: "(0 :: int) < 2 ^ k" by simp
  have "a div 2 ^ k = q \<longleftrightarrow> q * 2 ^ k \<le> a \<and> a < q * 2 ^ k + 2 ^ k"
  proof
    assume "a div 2 ^ k = q"
    then have "a = q * 2 ^ k + a mod 2 ^ k" using div_mult_mod_eq[of a "2 ^ k"] by simp
    then show "q * 2 ^ k \<le> a \<and> a < q * 2 ^ k + 2 ^ k"
      using pos_mod_bound[OF p, of a] pos_mod_sign[OF p, of a] by linarith
  next
    assume "q * 2 ^ k \<le> a \<and> a < q * 2 ^ k + 2 ^ k"
    then have "a = q * 2 ^ k + (a - q * 2 ^ k)" "0 \<le> a - q * 2 ^ k" "a - q * 2 ^ k < 2 ^ k" by auto
    then show "a div 2 ^ k = q"
      by (metis add.commute div_mult_self1 div_pos_pos_trivial add_0 less_numeral_extra(3) p)
  qed
  then show ?thesis using assms by (simp add: drop_bit_eq_div push_bit_eq_mult)
qed

lemma take_bit_offset:
  assumes "b = push_bit k q" "b \<le> a" "a < b + 2 ^ k"
  shows "take_bit k (a :: int) = a - b"
proof -
  have "drop_bit k a = q" using drop_bit_eq_range[OF assms(1)] assms(2,3) by blast
  then have "a = push_bit k q + take_bit k a"
    using bits_ident[of k a] by (simp add: push_bit_eq_mult)
  with assms(1) show ?thesis by simp
qed

text \<open>The mask of a memory BAR: a window of \<open>max 4 k\<close> address bits below 32.\<close>

lemma mem_bar_mask:
  "0xfffffff0 AND NOT (2 ^ k - 1) = (push_bit (max 4 k) (mask (32 - max 4 k)) :: int)"
proof -
  have n: "(0xfffffff0 :: int) = push_bit 4 (mask 28)" by (simp add: mask_eq_exp_minus_1)
  show ?thesis
    unfolding not_mask_pow n by (intro bit_eqI) (auto simp: bit_simps)
qed

lemma bmu_full:
  assumes "fits 32 m"
  shows "byte_mask_update old 0xf dat m = (dat AND m) OR (old AND NOT m)"
proof (rule bit_eqI)
  fix i
  have "bit m i \<Longrightarrow> i < 32" using fits_bit_high[OF assms, of i] by (meson not_less)
  then show "bit (byte_mask_update old 0xf dat m) i = bit ((dat AND m) OR (old AND NOT m)) i"
    by (auto simp: bit_byte_mask_update nibble_lanes bit_or_iff bit_and_iff bit_not_iff)
qed

text \<open>The scan passes over unimplemented registers.\<close>

lemma match_bar_loop_skip:
  "list_all (\<lambda>e. snd e = 0) xs \<Longrightarrow>
   match_bar_loop addr io i (xs @ ys) = match_bar_loop addr io (i + length xs) ys"
proof (induction xs arbitrary: i)
  case (Cons e xs)
  then show ?case by (cases e) simp
qed simp

lemma match_bar_loop_zeros: "list_all (\<lambda>e. snd e = 0) xs \<Longrightarrow> match_bar_loop addr io i xs = Inr []"
  using match_bar_loop_skip[of xs addr io i "[]"] by simp

lemma zip_update_split:
  assumes "k < length xs" "length ms = length xs"
  shows "zip (xs[k := v]) (ms[k := m]) = zip (take k xs) (take k ms) @ (v, m) # zip (drop (Suc k) xs) (drop (Suc k) ms)"
  using assms by (simp add: upd_conv_take_nth_drop zip_append)

lemma zip_zero_masks: "list_all (\<lambda>m. m = 0) ms \<Longrightarrow> list_all (\<lambda>e. snd e = 0) (zip xs ms)"
  by (auto simp: list_all_iff dest: set_zip_rightD)

text \<open>One 32-bit memory entry, on the low 32 bits of the address.\<close>

lemma match_window:
  fixes addr b :: int
  assumes "k \<le> n" "fits n b" "b = push_bit k q"
  defines "m \<equiv> push_bit k (mask (n - k))"
  shows "addr AND m = b AND m \<longleftrightarrow> b \<le> take_bit n addr \<and> take_bit n addr < b + 2 ^ k"
    and "addr AND m = b AND m \<Longrightarrow> addr AND NOT m = addr - b"
proof -
  have am: "addr AND m = push_bit k (drop_bit k (take_bit n addr))"
  proof -
    have "addr AND m = take_bit n addr AND m"
      using assms(1) by (intro bit_eqI) (auto simp: m_def bit_simps)
    then show ?thesis using window_select(1)[of n "take_bit n addr" k] assms(1) by (simp add: m_def)
  qed
  have bm: "b AND m = b"
    using window_select(1)[OF assms(2,1)] assms(3) by (simp add: m_def drop_bit_push_bit)
  have "push_bit k (drop_bit k (take_bit n addr)) = push_bit k q \<longleftrightarrow> drop_bit k (take_bit n addr) = q"
    by (simp add: push_bit_eq_mult)
  with am bm assms(3) drop_bit_eq_range[OF assms(3), of "take_bit n addr"]
  show "addr AND m = b AND m \<longleftrightarrow> b \<le> take_bit n addr \<and> take_bit n addr < b + 2 ^ k" by simp
  have "addr = (addr AND m) + (addr AND NOT m)"
  proof -
    have "(addr AND m) AND (addr AND NOT m) = 0" "(addr AND m) OR (addr AND NOT m) = addr"
      by (auto intro!: bit_eqI simp: bit_simps)
    then show ?thesis using plus_and_or[of "addr AND m" "addr AND NOT m"] by simp
  qed
  then show "addr AND m = b AND m \<Longrightarrow> addr AND NOT m = addr - b" using bm by simp
qed

section \<open>Configuring, sizing and matching\<close>

text \<open>No register implemented yet, and one mask per register.\<close>

definition bars_blank :: "'a pfunction_scheme \<Rightarrow> bool" where
  "bars_blank s \<longleftrightarrow> length (bar_mask s) = length (bar s) \<and> list_all (\<lambda>m. m = 0) (bar_mask s)"

lemma configure_mem32:
  assumes "idx < length (bar s)" "0 < sz"
  shows "configure_bar lg idx sz False pf False s =
    Inr (s\<lparr>bar := (bar s)[idx := if pf then 8 else 0],
           bar_mask := (bar_mask s)[idx := push_bit (max 4 (lg sz)) (mask (32 - max 4 (lg sz)))]\<rparr>)"
  using assms by (simp add: configure_bar_def mem_bar_mask Let_def)

lemma write_bar_eq:
  "idx < length (bar s) \<Longrightarrow> idx < length (bar_mask s) \<Longrightarrow>
   write_bar idx dat msk s =
     Inr (s\<lparr>bar := (bar s)[idx := byte_mask_update (bar s ! idx) msk dat (bar_mask s ! idx)]\<rparr>)"
  by (simp add: write_bar_def)

lemma fits_window: "k \<le> n \<Longrightarrow> fits n (push_bit k (mask (n - k)))"
  by (rule fits_push_bit) (auto simp: fits_def mask_eq_exp_minus_1)

lemma flag_outside_window: "4 \<le> k \<Longrightarrow> f \<in> {0, 4, 8, 12} \<Longrightarrow> f AND NOT (push_bit k (mask n)) = (f :: int)"
proof -
  assume "4 \<le> k" "f \<in> {0, 4, 8, 12}"
  then have "fits 4 f" by (auto simp: fits_def)
  then have "bit f i \<Longrightarrow> i < 4" for i using fits_bit_high[of 4 f i] by (meson not_less)
  with \<open>4 \<le> k\<close> show ?thesis by (intro bit_eqI) (fastforce simp: bit_simps)
qed

text \<open>Sizing a 32-bit memory BAR. Software writes all ones and reads the
  register back: the flag bits aside, it is the two's complement of the window size, the
  power of two chosen by \<open>configure_bar\<close> and at least 16 bytes.\<close>

theorem bar_sizing:
  assumes "idx < length (bar s)" "length (bar_mask s) = length (bar s)" "0 < sz" "lg sz \<le> 32"
    and "configure_bar lg idx sz False pf False s = Inr s1"
    and "write_bar idx 0xffffffff 0xf s1 = Inr s2"
  shows "2 ^ 32 - (bar s2 ! idx AND 0xfffffff0) = 2 ^ max 4 (lg sz)"
proof -
  let ?k = "max 4 (lg sz)" and ?f = "if pf then 8 else 0 :: int"
  let ?m = "push_bit ?k (mask (32 - ?k)) :: int"
  have k: "4 \<le> ?k" "?k \<le> 32" using assms(4) by auto
  have s1: "s1 = s\<lparr>bar := (bar s)[idx := ?f], bar_mask := (bar_mask s)[idx := ?m]\<rparr>"
    using assms(5) configure_mem32[OF assms(1,3)] by simp
  have "bar s2 ! idx = (0xffffffff AND ?m) OR (?f AND NOT ?m)"
    using assms(1,2,6) unfolding s1 by (auto simp: write_bar_eq bmu_full[OF fits_window[OF k(2)]])
  moreover have "(0xffffffff AND ?m) = ?m"
    using fits_window[OF k(2)] by (simp add: masks and.commute)
  moreover have "?f AND NOT ?m = ?f" using k by (intro flag_outside_window) auto
  ultimately have "bar s2 ! idx AND 0xfffffff0 = (?m OR ?f) AND (0xfffffff0 AND NOT (2 ^ 0 - 1))"
    by simp
  also have "\<dots> = ?m"
    unfolding mem_bar_mask using k fits_bit_high[of 4 ?f]
    by (intro bit_eqI) (auto simp: bit_simps fits_def split: if_splits)
  also have "?m = 2 ^ 32 - 2 ^ ?k"
    using k by (simp add: push_bit_eq_mult mask_eq_exp_minus_1 algebra_simps flip: power_add)
  finally show ?thesis by simp
qed

theorem bar_sizing_witness:
  "2 ^ 32 - ((0xffff0008 :: int) AND 0xfffffff0) = 2 ^ max 4 (clog2 0xffff)"
proof -
  define s :: pfunction where "s = pfunction_blank\<lparr>bar := [0], bar_mask := [0]\<rparr>"
  define s1 where "s1 = s\<lparr>bar := [8], bar_mask := [0xffff0000]\<rparr>"
  have c: "clog2 0xffff = 16" by (simp add: clog2.simps)
  have 1: "configure_bar clog2 0 0xffff False True False s = Inr s1"
    by (simp add: configure_bar_def s_def s1_def c)
  have 2: "write_bar 0 0xffffffff 0xf s1 = Inr (s1\<lparr>bar := [0xffff0008]\<rparr>)"
    by (simp add: write_bar_def s1_def byte_mask_update_def bmu_loop.simps)
  from bar_sizing[OF _ _ _ _ 1 2] c show ?thesis by (simp add: s_def)
qed

lemma match_single32:
  fixes f :: int
  assumes "4 \<le> k" "k \<le> 31" "fits 32 b" "b = push_bit k q" "f \<in> {0, 8}"
  shows "match_bar_loop addr False i ((b OR f, push_bit k (mask (32 - k))) # rest) =
    bindE (match_bar_loop addr False (i + 1) rest) (\<lambda>r.
      Inr (if b \<le> take_bit 32 addr \<and> take_bit 32 addr < b + 2 ^ k then (i, addr - b) # r else r))"
proof -
  let ?m = "push_bit k (mask (32 - k)) :: int"
  have low: "(b OR f) AND 1 = 0" "(b OR f) AND 4 = 0"
    using assms(1,5) unfolding masks assms(4)
    by (auto intro!: bit_eqI simp: bit_simps)
  have v: "(b OR f) AND ?m = b AND ?m"
  proof -
    have "f AND ?m = 0"
    proof -
      have "bit f j \<Longrightarrow> j < 4" for j
        using assms(5) fits_bit_high[of 4 f j] by (force simp: fits_def)
      with assms(1) show ?thesis by (intro bit_eqI) (fastforce simp: bit_simps)
    qed
    then show ?thesis by (simp add: bit.conj_disj_distrib2)
  qed
  have "(1 :: int) < 2 ^ (32 - k)" using assms(2) by (intro one_less_power) auto
  then have nz: "?m \<noteq> 0" by (simp add: push_bit_eq_mult mask_eq_exp_minus_1)
  have w: "addr AND ?m = b AND ?m \<longleftrightarrow> b \<le> take_bit 32 addr \<and> take_bit 32 addr < b + 2 ^ k"
    "addr AND ?m = b AND ?m \<Longrightarrow> addr AND NOT ?m = addr - b"
    using match_window[of k 32 b q addr] assms(2-4) by auto
  show ?thesis
    by (subst match_bar_loop.simps(2)) (use assms(2) in \<open>simp add: nz low v w flip: w(1) cong: if_cong\<close>)
qed

text \<open>Property C10: a programmed 32-bit memory BAR. With one such BAR at an aligned base,
  \<open>match_bar\<close> returns exactly this BAR, with the offset from its base, when the low 32 bits
  of the address lie in its window, and nothing otherwise. The high address bits are not
  compared.\<close>

theorem bar_match_window:
  assumes "bars_blank s" "idx < length (bar s)" "0 < sz" "4 \<le> lg sz" "lg sz \<le> 31"
    and "fits 32 b" "b = push_bit (lg sz) q"
    and "configure_bar lg idx sz False pf False s = Inr s1"
    and "write_bar idx b 0xf s1 = Inr s2"
  shows "match_bar s2 addr False =
    Inr (if b \<le> take_bit 32 addr \<and> take_bit 32 addr < b + 2 ^ lg sz then [(idx, addr - b)] else [])"
proof -
  let ?k = "lg sz" and ?f = "if pf then 8 else 0 :: int"
  let ?m = "push_bit ?k (mask (32 - ?k)) :: int"
  have k: "max 4 ?k = ?k" "?k \<le> 32" using assms(4,5) by auto
  have l: "length (bar_mask s) = length (bar s)" "list_all (\<lambda>m. m = 0) (bar_mask s)"
    using assms(1) by (auto simp: bars_blank_def)
  have s1: "s1 = s\<lparr>bar := (bar s)[idx := ?f], bar_mask := (bar_mask s)[idx := ?m]\<rparr>"
    using assms(8) configure_mem32[OF assms(2,3)] k by simp
  have "b AND ?m = b"
    using window_select(1)[OF assms(6) k(2)] assms(7) by (simp add: drop_bit_push_bit)
  moreover have "?f AND NOT ?m = ?f" using assms(4) by (intro flag_outside_window) auto
  ultimately have "bar s2 = (bar s)[idx := b OR ?f] \<and> bar_mask s2 = (bar_mask s)[idx := ?m]"
    using assms(2,9) l(1) unfolding s1
    by (auto simp: write_bar_eq bmu_full[OF fits_window[OF k(2)]])
  then have z: "zip (bar s2) (bar_mask s2) =
      zip (take idx (bar s)) (take idx (bar_mask s)) @
        (b OR ?f, ?m) # zip (drop (Suc idx) (bar s)) (drop (Suc idx) (bar_mask s))"
    using zip_update_split[OF assms(2) l(1)] by simp
  let ?A = "zip (take idx (bar s)) (take idx (bar_mask s))"
  let ?C = "zip (drop (Suc idx) (bar s)) (drop (Suc idx) (bar_mask s))"
  have "list_all (\<lambda>m. m = 0) (take idx (bar_mask s))" "list_all (\<lambda>m. m = 0) (drop (Suc idx) (bar_mask s))"
    using l(2) by (auto simp: list_all_iff dest: in_set_takeD in_set_dropD)
  then have A: "list_all (\<lambda>e. snd e = 0) ?A" and C: "list_all (\<lambda>e. snd e = 0) ?C"
    by (simp_all add: zip_zero_masks)
  have "length ?A = idx" using assms(2) l(1) by simp
  then have "match_bar s2 addr False = match_bar_loop addr False idx ((b OR ?f, ?m) # ?C)"
    unfolding match_bar_def z by (simp only: match_bar_loop_skip[OF A] add_0)
  also have "\<dots> = Inr (if b \<le> take_bit 32 addr \<and> take_bit 32 addr < b + 2 ^ lg sz
      then [(idx, addr - b)] else [])"
    by (subst match_single32[OF assms(4-7)]) (simp_all add: match_bar_loop_zeros[OF C])
  finally show ?thesis .
qed

theorem bar_match_window_witness:
  "match_bar (pfunction_blank\<lparr>bar_mask := [0, 0xffff0000], bar := [0, 0x10000008]\<rparr>) 0x10000123 False =
     Inr [(1, 0x123)]"
proof -
  define s :: pfunction where "s = pfunction_blank\<lparr>bar := [0, 0], bar_mask := [0, 0]\<rparr>"
  define s1 where "s1 = s\<lparr>bar := [0, 8], bar_mask := [0, 0xffff0000]\<rparr>"
  have c: "clog2 0x10000 = 16" by (simp add: clog2.simps)
  have 1: "configure_bar clog2 1 0x10000 False True False s = Inr s1"
    by (simp add: configure_bar_def s_def s1_def c)
  have 2: "write_bar 1 0x10000000 0xf s1 = Inr (s1\<lparr>bar := [0, 0x10000008]\<rparr>)"
    by (simp add: write_bar_def s1_def byte_mask_update_def bmu_loop.simps)
  have b: "bars_blank s" "1 < length (bar s)" "fits 32 0x10000000"
    by (simp_all add: bars_blank_def s_def fits_def)
  have l: "4 \<le> clog2 0x10000" "clog2 0x10000 \<le> 31" "(0x10000000 :: int) = push_bit (clog2 0x10000) 0x1000"
    by (simp_all add: c)
  have t: "take_bit 32 (0x10000123 :: int) = 0x10000123" by simp
  show ?thesis
    using bar_match_window[OF b(1,2) _ l(1,2) b(3) l(3) 1 2, of "0x10000123"]
    unfolding c t by (simp add: s1_def s_def)
qed

text \<open>A 64-bit BAR of 4 GB or more never matches through its pair. Its low mask
  is 0, which the scan takes for an unimplemented register, so the high half is read as a
  32-bit BAR of its own.\<close>

theorem bar64_large_unmatched:
  assumes "32 \<le> lg sz" "0 < sz" "bars_blank s" "length (bar s) = 2"
    and "configure_bar lg 0 sz True pf False s = Inr s1"
  shows "match_bar_loop addr io 0 (zip (bar s1) (bar_mask s1)) =
         match_bar_loop addr io 1 [(bar s1 ! 1, bar_mask s1 ! 1)]"
proof -
  have m: "(0xfffffff0 AND NOT (2 ^ lg sz - 1) :: int) = 0"
    unfolding mem_bar_mask using assms(1) by simp
  obtain x y where b: "bar s = [x, y]" using assms(4) by (auto simp: numeral_2_eq_2 length_Suc_conv)
  obtain u v where n: "bar_mask s = [u, v]"
    using assms(3,4) by (auto simp: bars_blank_def numeral_2_eq_2 length_Suc_conv)
  show ?thesis using assms(2,5) by (auto simp: configure_bar_def Let_def m b n split: if_splits)
qed

theorem bar64_large_unmatched_witness:
  "match_bar (pfunction_blank\<lparr>bar := [4, 1], bar_mask := [0, 0xffffffff]\<rparr>) 0x100000000 False = Inr []"
proof -
  define s :: pfunction where "s = pfunction_blank\<lparr>bar := [0, 0], bar_mask := [0, 0]\<rparr>"
  define s1 where "s1 = s\<lparr>bar := [4, 0], bar_mask := [0, 0xffffffff]\<rparr>"
  have c: "clog2 0x100000000 = 32" by (simp add: clog2.simps)
  have 1: "configure_bar clog2 0 0x100000000 True False False s = Inr s1"
    by (simp add: configure_bar_def s_def s1_def c)
  have "bars_blank s" by (simp add: bars_blank_def s_def)
  from bar64_large_unmatched[OF _ _ this _ 1, of "0x100000000" False] c
  show ?thesis by (simp add: s_def s1_def match_bar_def)
qed

end
