(* ===== verification/PcieRx.thy ===== *)
theory PcieRx
  imports PcieBar
begin

text \<open>
  Packet reception of a function of \<open>fpga/lib/pcie/tb/pcie.py\<close>: sending and receiving
  packets, completion queues and tags (\<open>upstream_send\<close>, \<open>upstream_recv\<close>, \<open>handle_tlp\<close>,
  \<open>recv_cpl\<close>, \<open>get_free_tag\<close>), and the type 0 configuration handler. A handler returns the
  new state and the packets it sent upstream, in order. The process \<open>handle_tlp\<close> forks for a
  request runs here to its end before the next packet.
\<close>

unbundle bit_operations_syntax

section \<open>Indexing with Python integers\<close>

text \<open>\<open>xs[i]\<close>: a negative index counts from the end.\<close>

definition py_index :: "nat \<Rightarrow> int \<Rightarrow> nat result" where
  "py_index n i = (if 0 \<le> i \<and> i < int n then Inr (nat i)
                   else if - int n \<le> i \<and> i < 0 then Inr (nat (int n + i)) else Inl IndexError)"

lemma py_index_nonneg [simp]: "0 \<le> i \<Longrightarrow> i < int n \<Longrightarrow> py_index n i = Inr (nat i)"
  by (simp add: py_index_def)

lemma py_index_less: "py_index n i = Inr k \<Longrightarrow> k < n"
  by (auto simp: py_index_def split: if_splits)

section \<open>Completion queues and tags\<close>

definition enqueue_cpl :: "tlp \<Rightarrow> 'a pfunction_scheme \<Rightarrow> 'a pfunction_scheme result" where
  "enqueue_cpl t s =
     bindE (py_index (length (rx_cpl_queues s)) (tlp_tag t)) (\<lambda>k.
       Inr (s\<lparr>rx_cpl_queues := (rx_cpl_queues s)[k := rx_cpl_queues s ! k @ [t]]\<rparr>))"

text \<open>\<open>recv_cpl\<close> after the wait: the packets delivered meanwhile are already in the queues.\<close>

definition recv_cpl :: "int \<Rightarrow> 'a pfunction_scheme \<Rightarrow> (tlp option \<times> 'a pfunction_scheme) result" where
  "recv_cpl tag s =
     bindE (py_index (length (rx_cpl_queues s)) tag) (\<lambda>k.
       case rx_cpl_queues s ! k of
         [] \<Rightarrow> Inr (None, s)
       | c # q \<Rightarrow> Inr (Some c, s\<lparr>rx_cpl_queues := (rx_cpl_queues s)[k := q]\<rparr>))"

fun find_tag :: "nat \<Rightarrow> int \<Rightarrow> int \<Rightarrow> tlp list list \<Rightarrow> int \<times> int option" where
  "find_tag 0 tag_count cur q = (cur, None)"
| "find_tag (Suc k) tag_count cur q =
     (let cur' = (cur + 1) mod tag_count
      in if q ! nat cur' = [] then (cur', Some cur') else find_tag k tag_count cur' q)"

definition tag_count :: "'a pfunction_scheme \<Rightarrow> int" where
  "tag_count s = (if extended_tag_field_enable (r_dev_ctl (fn_pcie s)) then 256 else 32)"

definition get_free_tag :: "'a pfunction_scheme \<Rightarrow> int option \<times> 'a pfunction_scheme" where
  "get_free_tag s =
     (case find_tag (nat (tag_count s)) (tag_count s) (current_tag s) (rx_cpl_queues s) of
        (cur, r) \<Rightarrow> (r, s\<lparr>current_tag := cur\<rparr>))"

section \<open>Sending and receiving\<close>

definition upstream_send :: "'a pfunction_scheme \<Rightarrow> tlp \<Rightarrow> tlp list result" where
  "upstream_send s t = bindE (assertE (tlp_check t)) (\<lambda>_.
     if upstream_connected s then Inr [t] else Inl (PyException ''Transmit handler not set''))"

definition handle_tlp ::
  "(rx_handler \<Rightarrow> tlp \<Rightarrow> 'a pfunction_scheme \<Rightarrow> ('a pfunction_scheme \<times> tlp list) result) \<Rightarrow>
   tlp \<Rightarrow> 'a pfunction_scheme \<Rightarrow> ('a pfunction_scheme \<times> tlp list) result" where
  "handle_tlp h t s =
     (if is_cpl_type (fmt_type_of t) then bindE (enqueue_cpl t s) (\<lambda>s'. Inr (s', []))
      else case rx_tlp_handler s (fmt_type_of t) of
        Some n \<Rightarrow> h n t s
      | None \<Rightarrow> Inl (PyException ''Unhandled TLP''))"

definition upstream_recv ::
  "(rx_handler \<Rightarrow> tlp \<Rightarrow> 'a pfunction_scheme \<Rightarrow> ('a pfunction_scheme \<times> tlp list) result) \<Rightarrow>
   tlp \<Rightarrow> 'a pfunction_scheme \<Rightarrow> ('a pfunction_scheme \<times> tlp list) result" where
  "upstream_recv h t s = bindE (assertE (tlp_check t)) (\<lambda>_. handle_tlp h t s)"

section \<open>Type 0 configuration requests\<close>

text \<open>\<open>rd\<close> and \<open>wr\<close> are the register methods of the object's class. A register that reads as
  \<open>None\<close> cannot be printed.\<close>

definition handle_config_0_tlp ::
  "('a pfunction_scheme \<Rightarrow> int \<Rightarrow> int option result) \<Rightarrow>
   (int \<Rightarrow> int \<Rightarrow> int \<Rightarrow> 'a pfunction_scheme \<Rightarrow> 'a pfunction_scheme result) \<Rightarrow>
   tlp \<Rightarrow> 'a pfunction_scheme \<Rightarrow> ('a pfunction_scheme \<times> tlp list) result" where
  "handle_config_0_tlp rd wr t s =
     (if pid_device (tlp_dest_id t) = device_num s \<and> pid_function (tlp_dest_id t) = function_num s then
        let s1 = s\<lparr>bus_num := pid_bus (tlp_dest_id t)\<rparr>
        in if fmt_type_of t = TLP_CFG_READ_0 then
             bindE (rd s1 (tlp_register_number t)) (\<lambda>v.
               case v of
                 None \<Rightarrow> Inl TypeError
               | Some d \<Rightarrow>
                   bindE (upstream_send s1 ((set_completion_data tlp_new t (get_id s1))
                       \<lparr>tlp_data := [d], tlp_byte_count := 4, tlp_length := 1\<rparr>))
                     (\<lambda>out. Inr (s1, out)))
           else if fmt_type_of t = TLP_CFG_WRITE_0 then
             bindE (py_nth (tlp_data t) 0) (\<lambda>d.
               bindE (wr (tlp_register_number t) d (tlp_first_be t) s1) (\<lambda>s2.
                 bindE (upstream_send s2 (set_completion tlp_new t (get_id s1) False CPL_STATUS_SC))
                   (\<lambda>out. Inr (s2, out))))
           else bindE (upstream_send s1 tlp_new) (\<lambda>out. Inr (s1, out))
      else Inr (s, []))"

definition endpoint_handler ::
  "rx_handler \<Rightarrow> tlp \<Rightarrow> 'a endpoint_scheme \<Rightarrow> ('a endpoint_scheme \<times> tlp list) result" where
  "endpoint_handler h t s =
     (case h of HandleConfig0 \<Rightarrow> handle_config_0_tlp read_endpoint_register write_endpoint_register t s
      | _ \<Rightarrow> Inl AttributeError)"

section \<open>The tag search\<close>

lemma find_tag_spec:
  assumes "0 < n" "find_tag k n cur q = (cur', r)"
  shows "case r of
      None \<Rightarrow> \<forall>i. 1 \<le> i \<and> i \<le> int k \<longrightarrow> q ! nat ((cur + i) mod n) \<noteq> []
    | Some t \<Rightarrow> cur' = t \<and> (\<exists>j. 1 \<le> j \<and> j \<le> int k \<and> t = (cur + j) mod n \<and> q ! nat t = [] \<and>
        (\<forall>i. 1 \<le> i \<and> i < j \<longrightarrow> q ! nat ((cur + i) mod n) \<noteq> []))"
  using assms(2)
proof (induction k arbitrary: cur)
  case 0
  then show ?case by auto
next
  case (Suc k)
  let ?c = "(cur + 1) mod n"
  have shift: "(?c + i) mod n = (cur + (i + 1)) mod n" for i
    using mod_add_left_eq[of "cur + 1" n i] by (simp add: add.assoc add.commute[of 1])
  show ?case
  proof (cases "q ! nat ?c = []")
    case True
    then have r: "cur' = ?c" "r = Some ?c" using Suc.prems by (auto simp: Let_def)
    show ?thesis unfolding r using True by (auto intro!: exI[of _ 1])
  next
    case False
    then have IH: "find_tag k n ?c q = (cur', r)" using Suc.prems by (simp add: Let_def)
    have busy: "\<forall>i. 1 \<le> i \<and> i \<le> m + 1 \<longrightarrow> q ! nat ((cur + i) mod n) \<noteq> []"
      if a: "\<forall>i. 1 \<le> i \<and> i \<le> m \<longrightarrow> q ! nat ((?c + i) mod n) \<noteq> []" for m
    proof (intro allI impI)
      fix i assume i: "1 \<le> i \<and> i \<le> m + 1"
      show "q ! nat ((cur + i) mod n) \<noteq> []"
      proof (cases "i = 1")
        case False
        then show ?thesis using a[rule_format, of "i - 1"] i by (simp add: shift)
      qed (use \<open>q ! nat ?c \<noteq> []\<close> in simp)
    qed
    show ?thesis
    proof (cases r)
      case None
      then show ?thesis using busy[of "int k"] Suc.IH[OF IH] by (simp add: add.commute)
    next
      case (Some t)
      then obtain j where j: "1 \<le> j" "j \<le> int k" "t = (?c + j) mod n" "q ! nat t = []"
        "\<forall>i. 1 \<le> i \<and> i \<le> j - 1 \<longrightarrow> q ! nat ((?c + i) mod n) \<noteq> []" "cur' = t"
        using Suc.IH[OF IH] by auto
      have "\<forall>i. 1 \<le> i \<and> i < j + 1 \<longrightarrow> q ! nat ((cur + i) mod n) \<noteq> []"
        using busy[OF j(5)] by auto
      with j(1-4,6) show ?thesis unfolding Some by (auto intro!: exI[of _ "j + 1"] simp: shift)
    qed
  qed
qed

text \<open>Every residue is reached within one turn.\<close>

lemma residue_reached:
  assumes "0 < n" "0 \<le> t" "t < (n :: int)"
  obtains i where "1 \<le> i" "i \<le> n" "(cur + i) mod n = t"
proof
  let ?d = "(t - cur - 1) mod n"
  have d: "0 \<le> ?d" "?d < n" using assms(1) by simp_all
  then show "1 \<le> ?d + 1" "?d + 1 \<le> n" by simp_all
  have "(cur + (?d + 1)) mod n = (cur + 1 + ?d) mod n" by (simp add: add.assoc add.commute[of 1])
  also have "\<dots> = (cur + 1 + (t - cur - 1)) mod n" by (rule mod_add_right_eq)
  finally have "(cur + (?d + 1)) mod n = (cur + 1 + (t - cur - 1)) mod n" .
  then show "(cur + (?d + 1)) mod n = t" using assms(2,3) by simp
qed

text \<open>The counter stays a tag number, and a tag handed out is one.\<close>

lemma tag_count_cases: "tag_count s = 32 \<or> tag_count s = 256"
  by (simp add: tag_count_def)

lemma get_free_tag_cases:
  "get_free_tag s = (r, s') \<Longrightarrow>
   \<exists>cur. s' = s\<lparr>current_tag := cur\<rparr> \<and>
     find_tag (nat (tag_count s)) (tag_count s) (current_tag s) (rx_cpl_queues s) = (cur, r)"
  by (auto simp: get_free_tag_def split: prod.splits)

text \<open>\<open>get_free_tag\<close> hands out a tag in range whose completion queue is empty,
  the first such tag after the one handed out last in cyclic order; it fails exactly when the
  queue of every tag holds a completion.\<close>

theorem get_free_tag_first_free:
  "case get_free_tag s of
     (None, s') \<Rightarrow> \<forall>t. 0 \<le> t \<and> t < tag_count s \<longrightarrow> rx_cpl_queues s ! nat t \<noteq> []
   | (Some t, s') \<Rightarrow> 0 \<le> t \<and> t < tag_count s \<and> rx_cpl_queues s ! nat t = [] \<and>
       current_tag s' = t \<and> (\<exists>j. 1 \<le> j \<and> t = (current_tag s + j) mod tag_count s \<and>
         (\<forall>i. 1 \<le> i \<and> i < j \<longrightarrow> rx_cpl_queues s ! nat ((current_tag s + i) mod tag_count s) \<noteq> []))"
proof (cases "get_free_tag s")
  case (Pair r s')
  have n: "0 < tag_count s" using tag_count_cases[of s] by auto
  from get_free_tag_cases[OF Pair] obtain cur where s': "s' = s\<lparr>current_tag := cur\<rparr>" and
    f: "find_tag (nat (tag_count s)) (tag_count s) (current_tag s) (rx_cpl_queues s) = (cur, r)"
    by blast
  note spec = find_tag_spec[OF n f]
  show ?thesis
  proof (cases r)
    case None
    have "rx_cpl_queues s ! nat t \<noteq> []" if t: "0 \<le> t" "t < tag_count s" for t
    proof -
      obtain i where "1 \<le> i" "i \<le> tag_count s" "(current_tag s + i) mod tag_count s = t"
        using residue_reached[OF n t] .
      then show ?thesis using spec None n by auto
    qed
    then show ?thesis using Pair None by simp
  next
    case (Some t)
    then show ?thesis using spec Pair s' n by auto
  qed
qed

theorem get_free_tag_first_free_witness:
  "fst (get_free_tag (pfunction_blank\<lparr>current_tag := 31,
      rx_cpl_queues := [[tlp_new], []] @ replicate 254 []\<rparr>)) = Some 1"
proof -
  let ?s = "pfunction_blank\<lparr>current_tag := 31, rx_cpl_queues := [[tlp_new], []] @ replicate 254 []\<rparr>"
  have n: "tag_count ?s = 32"
    by (simp add: tag_count_def pfunction_blank_def pcie_regs_init_def dev_ctl_init_def)
  have "find_tag 32 32 31 ([[tlp_new], []] @ replicate 254 []) = (1, Some 1)"
  proof -
    have e: "(32 :: nat) = Suc (Suc 30)" by simp
    show ?thesis unfolding e find_tag.simps Let_def by simp
  qed
  then show ?thesis
    using get_free_tag_first_free[of ?s] n
    by (simp add: get_free_tag_def split: prod.splits)
qed

section \<open>Configuration requests\<close>

definition addressed_to :: "tlp \<Rightarrow> 'a pfunction_scheme \<Rightarrow> bool" where
  "addressed_to t s \<longleftrightarrow>
     pid_device (tlp_dest_id t) = device_num s \<and> pid_function (tlp_dest_id t) = function_num s"

lemma completion_check [simp]:
  "tlp_check ((set_completion_data tlp_new t cid)\<lparr>tlp_data := [d], tlp_byte_count := 4, tlp_length := 1\<rparr>)"
  "tlp_check (set_completion tlp_new t cid False st)"
  by (simp_all add: tlp_check_def completion_defs tlp_new_def fmt_type_of_def tlp_type_defs)

lemma config_read_step:
  assumes "addressed_to t s" "upstream_connected s" "fmt_type_of t = TLP_CFG_READ_0"
    and "rd (s\<lparr>bus_num := pid_bus (tlp_dest_id t)\<rparr>) (tlp_register_number t) = Inr (Some d)"
  shows "handle_config_0_tlp rd wr t s =
    Inr (s\<lparr>bus_num := pid_bus (tlp_dest_id t)\<rparr>,
         [(set_completion_data tlp_new t (mk_id (pid_bus (tlp_dest_id t)) (device_num s) (function_num s)))
            \<lparr>tlp_data := [d], tlp_byte_count := 4, tlp_length := 1\<rparr>])"
  using assms by (simp add: addressed_to_def handle_config_0_tlp_def upstream_send_def get_id_def)

lemma config_write_step:
  assumes "addressed_to t s" "upstream_connected s'" "fmt_type_of t = TLP_CFG_WRITE_0"
    and "tlp_data t = d # ds"
    and "wr (tlp_register_number t) d (tlp_first_be t) (s\<lparr>bus_num := pid_bus (tlp_dest_id t)\<rparr>) = Inr s'"
  shows "handle_config_0_tlp rd wr t s =
    Inr (s', [set_completion tlp_new t
                (mk_id (pid_bus (tlp_dest_id t)) (device_num s) (function_num s)) False CPL_STATUS_SC])"
  using assms by (simp add: addressed_to_def handle_config_0_tlp_def upstream_send_def get_id_def)

text \<open>A type 0 configuration read addressed to a function captures the bus
  number and is answered by one valid completion that carries the register, the tag and the
  requester of the request and the captured identity of the function; a request for another
  function changes nothing and is not answered.\<close>

theorem config_read_reply:
  assumes "upstream_connected s" "fmt_type_of t = TLP_CFG_READ_0"
    and "rd (s\<lparr>bus_num := pid_bus (tlp_dest_id t)\<rparr>) (tlp_register_number t) = Inr (Some d)"
  shows "if addressed_to t s
    then \<exists>c. handle_config_0_tlp rd wr t s = Inr (s\<lparr>bus_num := pid_bus (tlp_dest_id t)\<rparr>, [c]) \<and>
        tlp_check c \<and> fmt_type_of c = TLP_CPL_DATA \<and> tlp_status c = CPL_STATUS_SC \<and>
        tlp_data c = [d] \<and> tlp_tag c = tlp_tag t \<and> tlp_requester_id c = tlp_requester_id t \<and>
        tlp_completer_id c = mk_id (pid_bus (tlp_dest_id t)) (device_num s) (function_num s)
    else handle_config_0_tlp rd wr t s = Inr (s, [])"
proof (cases "addressed_to t s")
  case True
  then show ?thesis
    using config_read_step[where t = t and s = s and rd = rd and d = d, OF True assms]
    by (simp add: completion_defs fmt_type_of_def tlp_check_def tlp_new_def tlp_type_defs)
next
  case False
  then show ?thesis by (auto simp: addressed_to_def handle_config_0_tlp_def)
qed

theorem config_read_reply_witness:
  "\<exists>c. handle_config_0_tlp (\<lambda>s r. Inr (Some (bus_num s + r))) (\<lambda>_ _ _ s. Inr s)
     ((set_fmt_type TLP_CFG_READ_0 tlp_new)\<lparr>tlp_dest_id := mk_id 7 0 0, tlp_register_number := 2\<rparr>)
     (pfunction_blank\<lparr>upstream_connected := True\<rparr>) =
     Inr (pfunction_blank\<lparr>upstream_connected := True, bus_num := 7\<rparr>, [c]) \<and> tlp_data c = [9]"
proof -
  let ?t = "(set_fmt_type TLP_CFG_READ_0 tlp_new)\<lparr>tlp_dest_id := mk_id 7 0 0, tlp_register_number := 2\<rparr>"
  let ?s = "pfunction_blank\<lparr>upstream_connected := True\<rparr>"
  have t: "fmt_type_of ?t = TLP_CFG_READ_0" "addressed_to ?t ?s"
    by (simp_all add: fmt_type_of_def set_fmt_type_def addressed_to_def pfunction_blank_def)
  show ?thesis
    using config_read_reply[of ?s ?t "\<lambda>s r. Inr (Some (bus_num s + r))" 9 "\<lambda>_ _ _ s. Inr s"] t
    by (auto simp: set_fmt_type_def pfunction_blank_def)
qed

lemma endpoint_bar_read:
  "k < 6 \<Longrightarrow> k < length (bar s) \<Longrightarrow> read_endpoint_register s (4 + int k) = Inr (Some (bar s ! k))"
  by (simp add: read_endpoint_register_def nat_add_distrib)

lemma endpoint_bar_write:
  "k < 6 \<Longrightarrow> k < length (bar s) \<Longrightarrow> k < length (bar_mask s) \<Longrightarrow>
   write_endpoint_register (4 + int k) dat msk s =
     Inr (s\<lparr>bar := (bar s)[k := byte_mask_update (bar s ! k) msk dat (bar_mask s ! k)]\<rparr>)"
  by (simp add: write_endpoint_register_def nat_add_distrib write_bar_eq)


lemmas init_defs = endpoint_init_def pfunction_init_def register_capability_def cap_register_def
  find_by_id_def pfunction_blank_def truthy_def or_old_def place_auto_def insert_sorted_def
  auto_offset_def relink_def pfunction.defs endpoint.defs

text \<open>The constructor registers the PCI Express capability at register \<open>0x10\<close> and power
  management behind it, linked in this order.\<close>

lemma pfunction_init_caps:
  "\<exists>f. pfunction_init = Inr f \<and> capabilities f =
     [\<lparr>cap_id = 0x10, cap_ver = Some 0, cap_length = 15, cap_read = PcieHandler,
       cap_write = PcieHandler, cap_offset = 0x10, cap_next = Some 0x7c\<rparr>,
      \<lparr>cap_id = 0x01, cap_ver = Some 0, cap_length = 2, cap_read = PmHandler,
       cap_write = PmHandler, cap_offset = 0x1f, cap_next = Some 0\<rparr>] \<and>
     cap_ptr (fn_cfg f) = 0x40"
  by (simp add: init_defs)

definition bar_probe :: "fmt_type \<Rightarrow> int list \<Rightarrow> tlp" where
  "bar_probe ft d = (set_fmt_type ft tlp_new)\<lparr>tlp_register_number := 5, tlp_first_be := 0xf, tlp_data := d\<rparr>"


section \<open>Extended capabilities\<close>

text \<open>An automatically placed extended capability cannot be read. It is placed
  at register \<open>0x40\<close>, the first register of extended configuration space, but
  \<open>read_config_register\<close> sends registers below 256 to the ordinary list: the register reads
  as zero although the extended list covers it.\<close>

theorem ext_capability_unreachable:
  assumes "ext_capabilities s = []" "1 \<le> len" "0x40 \<le> reg" "reg < 0x40 + len" "reg < 256"
    and "find_by_reg (capabilities s) reg = None"
    and "register_extended_capability i ver (Some len) (Some h) None s = Inr s'"
  shows "read_common_register s' reg = Inr (Some 0) \<and>
    (\<exists>c. find_by_reg (ext_capabilities s') reg = Some c \<and> cap_id c = i)"
proof -
  have s': "capabilities s' = capabilities s"
    "ext_capabilities s' = [\<lparr>cap_id = i, cap_ver = Some ver, cap_length = len, cap_read = h,
       cap_write = h, cap_offset = 0x40, cap_next = None\<rparr>]"
    using assms(1,2,7)
    by (auto simp: register_extended_capability_def cap_register_def find_by_id_def truthy_def
        or_old_def place_auto_def insert_sorted_def auto_offset_def relink_def)
  with assms(3-6) show ?thesis
    by (auto simp: read_common_register_def read_capability_register_def caps_read_register_def
        find_by_reg_def)
qed

theorem ext_capability_unreachable_witness:
  "\<exists>s'. register_extended_capability 0x19 1 (Some 3) (Some PcieHandler) None pfunction_blank = Inr s' \<and>
     read_common_register s' 0x41 = Inr (Some 0)"
proof -
  obtain s' where
    s': "register_extended_capability 0x19 1 (Some 3) (Some PcieHandler) None pfunction_blank = Inr s'"
    by (simp add: register_extended_capability_def cap_register_def find_by_id_def truthy_def pfunction_blank_def)
  show ?thesis
    using ext_capability_unreachable[OF _ _ _ _ _ _ s', of "0x41"] s'
    by (simp add: pfunction_blank_def find_by_reg_def)
qed

end
