(* ===== verification/MemAccess.thy ===== *)
theory MemAccess
  imports Tlp
begin

text \<open>
  The memory side of the request handlers of \<open>fpga/lib/pcie/tb/pcie.py\<close>, which
  \<open>MemoryEndpoint\<close> and \<open>RootComplex\<close> share line by line: the walk over the byte enables
  that turns a request into contiguous runs, the writes and reads of these runs, and the
  splitting of read data into completions. The target of the accesses is behind the locale
  \<open>byte_memory\<close>: each class interprets it with its own region lookup.
\<close>

unbundle bit_operations_syntax

section \<open>Walking the byte enables\<close>

type_synonym be_state = "nat \<times> nat option \<times> (nat \<times> nat) list"

text \<open>One turn of \<open>for k in range(4)\<close>: the offset, the start of the open run, the closed
  runs.\<close>

definition be_step :: "int \<Rightarrow> nat \<Rightarrow> be_state \<Rightarrow> be_state" where
  "be_step msk k s =
     (case s of (offset, start, runs) \<Rightarrow>
        if tst msk k then
          (offset + 1, (case start of None \<Rightarrow> Some offset | Some x \<Rightarrow> Some x), runs)
        else
          (offset + 1, None,
           (case start of Some x \<Rightarrow> if offset \<noteq> x then runs @ [(x, offset)] else runs
                        | None \<Rightarrow> runs)))"

definition be_dword :: "int \<Rightarrow> be_state \<Rightarrow> be_state" where
  "be_dword msk s = be_step msk 3 (be_step msk 2 (be_step msk 1 (be_step msk 0 s)))"

definition be_finish :: "be_state \<Rightarrow> (nat \<times> nat) list" where
  "be_finish s =
     (case s of (offset, start, runs) \<Rightarrow>
        (case start of Some x \<Rightarrow> if offset \<noteq> x then runs @ [(x, offset)] else runs
                     | None \<Rightarrow> runs))"

definition be_runs_io :: "tlp \<Rightarrow> (nat \<times> nat) list" where
  "be_runs_io t = be_finish (be_dword (tlp_first_be t) (0, None, []))"

definition be_runs_mem :: "tlp \<Rightarrow> (nat \<times> nat) list" where
  "be_runs_mem t =
     (let s1 = be_dword (tlp_first_be t) (0, None, []);
          s2 = (if tlp_length t > 2 then
                  (case s1 of (offset, start, runs) \<Rightarrow>
                     (offset + nat (tlp_length t - 2) * 4,
                      (case start of None \<Rightarrow> Some offset | Some x \<Rightarrow> Some x), runs))
                else s1);
          s3 = (if tlp_length t > 1 then be_dword (tlp_last_be t) s2 else s2)
      in be_finish s3)"

section \<open>Accesses\<close>

text \<open>The runs are written in order; the first exception ends the walk.\<close>

fun write_runs :: "(int \<Rightarrow> bytes \<Rightarrow> 'm \<Rightarrow> 'm result) \<Rightarrow> int \<Rightarrow> bytes \<Rightarrow> (nat \<times> nat) list \<Rightarrow> 'm \<Rightarrow> 'm result"
where
  "write_runs wr addr d [] m = Inr m"
| "write_runs wr addr d ((s, e) # rs) m =
     bindE (wr (addr + int s) (slice d s e) m) (write_runs wr addr d rs)"

text \<open>A read of a run replaces the slice of the buffer; a callback may return nothing, and a
  short read shortens the buffer.\<close>

fun read_runs :: "(int \<Rightarrow> int \<Rightarrow> bytes option result) \<Rightarrow> int \<Rightarrow> (nat \<times> nat) list \<Rightarrow> bytes \<Rightarrow> bytes result"
where
  "read_runs rd addr [] d = Inr d"
| "read_runs rd addr ((s, e) # rs) d =
     bindE (rd (addr + int s) (int (e - s))) (\<lambda>v.
       case v of None \<Rightarrow> Inl TypeError | Some bs \<Rightarrow> read_runs rd addr rs (take s d @ bs @ drop e d))"

text \<open>The completion loop of \<open>handle_mem_read_tlp\<close>: \<open>m\<close> DWORDs and \<open>n\<close> bytes are done.\<close>

definition cpl_dw_length :: "int \<Rightarrow> int \<Rightarrow> int \<Rightarrow> int" where
  "cpl_dw_length mps addr rest =
     (if rest > push_bit (nat mps) 32 then push_bit (nat mps) 32 - drop_bit 2 (addr AND 0x7c) else rest)"

lemma rcb_dwords: "drop_bit 2 ((addr :: int) AND 0x7c) = addr div 4 mod 32"
proof -
  have "drop_bit 2 (addr AND 0x7c) = take_bit 5 (drop_bit 2 addr)" by (simp add: masks)
  then show ?thesis by (simp add: take_bit_eq_mod drop_bit_eq_div)
qed

lemma cpl_dw_length_bounds:
  assumes "0 < rest"
  shows "0 < cpl_dw_length mps addr rest" "cpl_dw_length mps addr rest \<le> rest"
    "cpl_dw_length mps addr rest \<le> push_bit (nat mps) 32"
proof -
  define r where "r = addr div 4 mod 32"
  have "(32 :: int) * 1 \<le> 32 * 2 ^ nat mps" by (intro mult_left_mono) simp_all
  then have "32 \<le> push_bit (nat mps) (32 :: int)" by (simp add: push_bit_eq_mult)
  moreover have "0 \<le> r" "r < 32" by (simp_all add: r_def)
  ultimately show "0 < cpl_dw_length mps addr rest" "cpl_dw_length mps addr rest \<le> rest"
    "cpl_dw_length mps addr rest \<le> push_bit (nat mps) 32"
    using assms unfolding cpl_dw_length_def rcb_dwords r_def[symmetric] by auto
qed

function cpl_loop ::
  "(tlp \<Rightarrow> tlp list result) \<Rightarrow> tlp \<Rightarrow> pcie_id \<Rightarrow> int \<Rightarrow> bytes \<Rightarrow> int \<Rightarrow> int \<Rightarrow> int \<Rightarrow> int \<Rightarrow> int \<Rightarrow>
   tlp list result" where
  "cpl_loop snd_fn t cid mps d dw_length byte_length m n addr =
     (if m < dw_length then
        let dws = cpl_dw_length mps addr (dw_length - m);
            c = (set_completion_data tlp_new t cid)
                  \<lparr>tlp_byte_count := byte_length - n, tlp_lower_address := addr AND 0x7f\<rparr>
        in bindE (set_data c (slice d (nat (m * 4)) (nat ((m + dws) * 4)))) (\<lambda>c.
             bindE (snd_fn c) (\<lambda>out.
               bindE (cpl_loop snd_fn t cid mps d dw_length byte_length (m + dws)
                        (n + (dws * 4 - (addr AND 3))) (addr + (dws * 4 - (addr AND 3))))
                 (\<lambda>rest. Inr (out @ rest))))
      else Inr [])"
  by pat_completeness auto
termination
  by (relation "measure (\<lambda>(f, t, cid, mps, d, dw, bl, m, n, addr). nat (dw - m))")
    (simp_all add: cpl_dw_length_bounds)

declare cpl_loop.simps [simp del]

definition mem_read_completions ::
  "(tlp \<Rightarrow> tlp list result) \<Rightarrow> tlp \<Rightarrow> pcie_id \<Rightarrow> int \<Rightarrow> bytes \<Rightarrow> tlp list result" where
  "mem_read_completions snd_fn t cid mps d =
     cpl_loop snd_fn t cid mps d (tlp_length t) (get_be_byte_count t) 0 0
       (tlp_address t + get_first_be_offset t)"

section \<open>The runs are the enabled bytes\<close>

definition covers :: "(nat \<times> nat) list \<Rightarrow> nat \<Rightarrow> bool" where
  "covers rs i \<longleftrightarrow> (\<exists>(s, e) \<in> set rs. s \<le> i \<and> i < e)"

lemma covers_Nil [simp]: "\<not> covers [] i"
  by (simp add: covers_def)

lemma covers_snoc [simp]: "covers (rs @ [(s, e)]) i \<longleftrightarrow> covers rs i \<or> s \<le> i \<and> i < e"
  by (auto simp: covers_def)

lemma covers_Cons [simp]: "covers ((s, e) # rs) i \<longleftrightarrow> s \<le> i \<and> i < e \<or> covers rs i"
  by (auto simp: covers_def)

text \<open>The walk has seen \<open>off\<close> bytes; the closed runs and the open one are the enabled bytes
  among them.\<close>

definition runs_in :: "nat \<Rightarrow> (nat \<times> nat) list \<Rightarrow> bool" where
  "runs_in off rs \<longleftrightarrow> (\<forall>(a, b) \<in> set rs. a < b \<and> b \<le> off)"

lemma runs_in_simps [simp]:
  "runs_in off []" "runs_in off (rs @ [(a, b)]) \<longleftrightarrow> runs_in off rs \<and> a < b \<and> b \<le> off"
  "runs_in off ((a, b) # rs) \<longleftrightarrow> a < b \<and> b \<le> off \<and> runs_in off rs"
  by (auto simp: runs_in_def)

lemma runs_in_mono: "runs_in m rs \<Longrightarrow> m \<le> n \<Longrightarrow> runs_in n rs"
  by (fastforce simp: runs_in_def)

lemma covers_bound: "runs_in off rs \<Longrightarrow> covers rs i \<Longrightarrow> i < off"
  by (auto simp: covers_def runs_in_def)

fun be_inv :: "(nat \<Rightarrow> bool) \<Rightarrow> be_state \<Rightarrow> bool" where
  "be_inv P (off, None, rs) \<longleftrightarrow> runs_in off rs \<and> (\<forall>i < off. P i \<longleftrightarrow> covers rs i)"
| "be_inv P (off, Some x, rs) \<longleftrightarrow>
     runs_in off rs \<and> x \<le> off \<and> (\<forall>i < off. P i \<longleftrightarrow> covers rs i \<or> x \<le> i)"

lemma be_inv_runs_in: "be_inv P (off, start, rs) \<Longrightarrow> runs_in off rs"
  by (cases start) auto

lemma be_inv_step:
  assumes "be_inv P (off, start, rs)" "P off \<longleftrightarrow> bit msk k"
  shows "be_inv P (be_step msk k (off, start, rs)) \<and> fst (be_step msk k (off, start, rs)) = off + 1"
proof -
  have nc: "\<not> covers rs off"
    using be_inv_runs_in[OF assms(1)] covers_bound[of off rs off] by auto
  show ?thesis
  proof (cases start)
    case None
    then show ?thesis
      using assms nc by (cases "bit msk k") (auto simp: be_step_def less_Suc_eq intro: runs_in_mono)
  next
    case (Some x)
    then show ?thesis
      using assms nc by (cases "bit msk k") (auto simp: be_step_def less_Suc_eq intro: runs_in_mono)
  qed
qed

lemma be_inv_dword:
  assumes "be_inv P s" "\<And>k. k < 4 \<Longrightarrow> P (fst s + k) \<longleftrightarrow> bit msk k"
  shows "be_inv P (be_dword msk s) \<and> fst (be_dword msk s) = fst s + 4"
proof -
  have step: "be_inv P (be_step msk k s') \<and> fst (be_step msk k s') = fst s + (k + 1)"
    if "be_inv P s'" "fst s' = fst s + k" "k < 4" for k s'
    using be_inv_step[of P "fst s'" "fst (snd s')" "snd (snd s')" msk k] that assms(2)[of k]
    by (cases s') simp
  have 0: "be_inv P (be_step msk 0 s) \<and> fst (be_step msk 0 s) = fst s + 1"
    using step[of s 0] assms(1) by simp
  have 1: "be_inv P (be_step msk 1 (be_step msk 0 s)) \<and> fst (be_step msk 1 (be_step msk 0 s)) = fst s + 2"
    using step[of "be_step msk 0 s" 1] 0 by simp
  have 2: "be_inv P (be_step msk 2 (be_step msk 1 (be_step msk 0 s))) \<and>
      fst (be_step msk 2 (be_step msk 1 (be_step msk 0 s))) = fst s + 3"
    using step[of "be_step msk 1 (be_step msk 0 s)" 2] 1 by simp
  show ?thesis
    using step[of "be_step msk 2 (be_step msk 1 (be_step msk 0 s))" 3] 2 by (simp add: be_dword_def)
qed

lemma be_inv_middle:
  assumes "be_inv P (off, start, rs)" "\<And>i. off \<le> i \<Longrightarrow> i < off + n \<Longrightarrow> P i" "0 < n"
  shows "be_inv P (off + n, (case start of None \<Rightarrow> Some off | Some x \<Rightarrow> Some x), rs)"
proof -
  have r: "runs_in off rs" by (rule be_inv_runs_in[OF assms(1)])
  have nc: "\<not> covers rs i" if "off \<le> i" for i
    using covers_bound[OF r, of i] that by auto
  show ?thesis
  proof (cases start)
    case None
    have "P i \<longleftrightarrow> covers rs i \<or> off \<le> i" if "i < off + n" for i
      using assms(1) assms(2)[of i] nc[of i] that None by (cases "i < off") auto
    then show ?thesis using None runs_in_mono[OF r, of "off + n"] by simp
  next
    case (Some x)
    have "P i \<longleftrightarrow> covers rs i \<or> x \<le> i" if "i < off + n" for i
      using assms(1) assms(2)[of i] nc[of i] that Some by (cases "i < off") auto
    then show ?thesis using assms(1) Some runs_in_mono[OF r, of "off + n"] by simp
  qed
qed

lemma be_inv_finish:
  assumes "be_inv P s"
  shows "runs_in (fst s) (be_finish s)"
    and "i < fst s \<Longrightarrow> covers (be_finish s) i \<longleftrightarrow> P i"
proof -
  obtain off start rs where s: "s = (off, start, rs)" by (metis prod_cases3)
  show "runs_in (fst s) (be_finish s)" "i < fst s \<Longrightarrow> covers (be_finish s) i \<longleftrightarrow> P i"
    using assms unfolding s by (cases start; auto simp: be_finish_def)+
qed

lemma be_inv_init: "be_inv P (0, None, [])"
  by simp

text \<open>The runs of a request are its enabled bytes.\<close>

lemma be_runs_io_spec:
  "runs_in 4 (be_runs_io t)"
  "i < 4 \<Longrightarrow> covers (be_runs_io t) i \<longleftrightarrow> bit (tlp_first_be t) i"
proof -
  have "be_inv (bit (tlp_first_be t)) (be_dword (tlp_first_be t) (0, None, [])) \<and>
      fst (be_dword (tlp_first_be t) (0, None, [])) = 4"
    using be_inv_dword[OF be_inv_init] by simp
  then show "runs_in 4 (be_runs_io t)"
    "i < 4 \<Longrightarrow> covers (be_runs_io t) i \<longleftrightarrow> bit (tlp_first_be t) i"
    using be_inv_finish[of "bit (tlp_first_be t)"] unfolding be_runs_io_def by metis+
qed

lemma be_runs_mem_spec:
  assumes "1 \<le> tlp_length t"
  shows "runs_in (nat (tlp_length t) * 4) (be_runs_mem t)"
    and "i < nat (tlp_length t) * 4 \<Longrightarrow> covers (be_runs_mem t) i \<longleftrightarrow> be_enabled t i"
proof -
  let ?P = "be_enabled t" and ?l = "nat (tlp_length t)"
  let ?s1 = "be_dword (tlp_first_be t) (0, None, [])"
  define s2 where "s2 = (if tlp_length t > 2 then
      (case ?s1 of (offset, start, runs) \<Rightarrow>
         (offset + nat (tlp_length t - 2) * 4, (case start of None \<Rightarrow> Some offset | Some x \<Rightarrow> Some x), runs))
      else ?s1)"
  define s3 where "s3 = (if tlp_length t > 1 then be_dword (tlp_last_be t) s2 else s2)"
  have 1: "be_inv ?P ?s1 \<and> fst ?s1 = 4"
    using be_inv_dword[OF be_inv_init, of ?P "tlp_first_be t"] by (simp add: be_enabled_def)
  obtain off start rs where s1: "?s1 = (off, start, rs)" by (metis prod_cases3)
  have 2: "be_inv ?P s2 \<and> fst s2 = max 4 (?l * 4 - 4)"
  proof (cases "tlp_length t > 2")
    case True
    then have n: "0 < nat (tlp_length t - 2) * 4" "4 + nat (tlp_length t - 2) * 4 = max 4 (?l * 4 - 4)"
      by auto
    have "?P i" if "4 \<le> i" "i < 4 + nat (tlp_length t - 2) * 4" for i
    proof -
      have "i div 4 \<noteq> 0" "int (i div 4) \<noteq> tlp_length t - 1" using that True by linarith+
      then show ?thesis by (simp add: be_enabled_def)
    qed
    moreover have o: "off = 4" using 1 s1 by simp
    ultimately have "be_inv ?P (4 + nat (tlp_length t - 2) * 4,
        (case start of None \<Rightarrow> Some 4 | Some x \<Rightarrow> Some x), rs)"
      using 1 s1 n(1) by (intro be_inv_middle) auto
    then show ?thesis using True s1 o n(2) by (simp add: s2_def)
  next
    case False
    then have "max 4 (?l * 4 - 4) = 4" by auto
    then show ?thesis using False 1 by (simp add: s2_def)
  qed
  have 3: "be_inv ?P s3 \<and> fst s3 = ?l * 4"
  proof (cases "tlp_length t > 1")
    case True
    define L where "L = nat (tlp_length t - 1)"
    then have L: "?l = Suc L" "1 \<le> L" "tlp_length t = int L + 1" using True by auto
    have f: "fst s2 = 4 * L" using 2 L by simp
    have "?P (4 * L + k) \<longleftrightarrow> bit (tlp_last_be t) k" if "k < 4" for k
      using that L by (simp add: be_enabled_def)
    then show ?thesis using be_inv_dword[of ?P s2 "tlp_last_be t"] 2 f L True by (simp add: s3_def)
  next
    case False
    then have "tlp_length t = 1" using assms by simp
    then show ?thesis using False 2 by (simp add: s3_def)
  qed
  have r: "be_runs_mem t = be_finish s3"
    by (simp add: be_runs_mem_def s3_def s2_def Let_def)
  show "runs_in (nat (tlp_length t) * 4) (be_runs_mem t)"
    using be_inv_finish(1)[of ?P s3] 3 unfolding r by simp
  show "i < nat (tlp_length t) * 4 \<Longrightarrow> covers (be_runs_mem t) i \<longleftrightarrow> be_enabled t i"
    using be_inv_finish(2)[of ?P s3] 3 unfolding r by simp
qed

section \<open>Interface: a byte-addressed target\<close>

locale byte_memory =
  fixes wr :: "int \<Rightarrow> bytes \<Rightarrow> 'm \<Rightarrow> 'm result"
    and rd :: "'m \<Rightarrow> int \<Rightarrow> int \<Rightarrow> bytes option result"
    and peek :: "'m \<Rightarrow> int \<Rightarrow> byte"
    and valid :: "'m \<Rightarrow> int \<Rightarrow> int \<Rightarrow> bool"
  assumes wr_ok: "valid m a (int (length d)) \<Longrightarrow> d \<noteq> [] \<Longrightarrow>
      \<exists>m'. wr a d m = Inr m' \<and> valid m' = valid m \<and>
        (\<forall>i. peek m' i = (if a \<le> i \<and> i < a + int (length d) then d ! nat (i - a) else peek m i))"
    and rd_ok: "valid m a n \<Longrightarrow> 0 < n \<Longrightarrow>
      rd m a n = Inr (Some (map (\<lambda>k. peek m (a + int k)) [0..<nat n]))"
    and valid_sub: "valid m a n \<Longrightarrow> a \<le> a' \<Longrightarrow> 0 < n' \<Longrightarrow> a' + n' \<le> a + n \<Longrightarrow> valid m a' n'"
begin

lemma write_runs_ok:
  "valid m a (int (length d)) \<Longrightarrow> runs_in (length d) rs \<Longrightarrow>
   \<exists>m'. write_runs wr a d rs m = Inr m' \<and> valid m' = valid m \<and>
     (\<forall>i. peek m' i = (if a \<le> i \<and> covers rs (nat (i - a)) then d ! nat (i - a) else peek m i))"
proof (induction rs arbitrary: m)
  case Nil
  then show ?case by simp
next
  case (Cons r rs)
  obtain s e where r: "r = (s, e)" by (cases r)
  have b: "s < e" "e \<le> length d" "runs_in (length d) rs" using Cons.prems(2) by (simp_all add: r)
  have l: "length (slice d s e) = e - s" "slice d s e \<noteq> []" using b by (auto simp: slice_def)
  have "valid m (a + int s) (int (length (slice d s e)))"
    using b l by (intro valid_sub[OF Cons.prems(1)]) auto
  from wr_ok[OF this l(2)] obtain m1 where m1: "wr (a + int s) (slice d s e) m = Inr m1"
    "valid m1 = valid m"
    "\<And>i. peek m1 i = (if a + int s \<le> i \<and> i < a + int s + int (e - s)
        then slice d s e ! nat (i - (a + int s)) else peek m i)"
    using l(1) by auto
  have hit: "peek m1 i = (if a \<le> i \<and> s \<le> nat (i - a) \<and> nat (i - a) < e then d ! nat (i - a) else peek m i)" for i
  proof (cases "a + int s \<le> i \<and> i < a + int e")
    case True
    then have "slice d s e ! nat (i - (a + int s)) = d ! nat (i - a)"
      using b by (subst nth_slice) (auto intro: arg_cong[of _ _ "nth d"])
    then show ?thesis using True b(1) by (auto simp: m1(3) of_nat_diff)
  next
    case False
    then show ?thesis using b(1) by (auto simp: m1(3) of_nat_diff)
  qed
  have "valid m1 a (int (length d))" using Cons.prems(1) m1(2) by simp
  from Cons.IH[OF this b(3)] obtain m2 where "write_runs wr a d rs m1 = Inr m2" "valid m2 = valid m1"
    "\<And>i. peek m2 i = (if a \<le> i \<and> covers rs (nat (i - a)) then d ! nat (i - a) else peek m1 i)"
    by auto
  then show ?case using m1(1,2) hit by (auto simp: r)
qed

lemma read_runs_ok:
  "valid m a (int (length d)) \<Longrightarrow> runs_in (length d) rs \<Longrightarrow>
   read_runs (rd m) a rs d =
     Inr (map (\<lambda>k. if covers rs k then peek m (a + int k) else d ! k) [0..<length d])"
proof (induction rs arbitrary: d)
  case Nil
  then show ?case by (simp add: map_nth)
next
  case (Cons r rs)
  obtain s e where r: "r = (s, e)" by (cases r)
  have b: "s < e" "e \<le> length d" "runs_in (length d) rs" using Cons.prems(2) by (simp_all add: r)
  have "valid m (a + int s) (int (e - s))"
    using b by (intro valid_sub[OF Cons.prems(1)]) auto
  then have rd: "rd m (a + int s) (int (e - s)) =
      Inr (Some (map (\<lambda>k. peek m (a + int s + int k)) [0..<e - s]))"
    using b(1) rd_ok[of m "a + int s" "int (e - s)"] by (simp only: nat_int of_nat_0_less_iff zero_less_diff)
  let ?d = "take s d @ map (\<lambda>k. peek m (a + int s + int k)) [0..<e - s] @ drop e d"
  have len: "length ?d = length d" using b by simp
  have "valid m a (int (length ?d))" "runs_in (length ?d) rs" using Cons.prems(1) b(3) len by simp_all
  from Cons.IH[OF this] have "read_runs (rd m) a rs ?d =
      Inr (map (\<lambda>k. if covers rs k then peek m (a + int k) else ?d ! k) [0..<length d])"
    unfolding len .
  moreover have "?d ! k = (if s \<le> k \<and> k < e then peek m (a + int k) else d ! k)" if "k < length d" for k
    using that b by (auto simp: nth_append of_nat_diff min_def)
  ultimately show ?case by (simp add: r rd cong: map_cong)
qed

end

text \<open>The effect of a write request on bytes: \<open>base\<close> is the address of its first DWORD.\<close>

definition masked_write :: "tlp \<Rightarrow> bytes \<Rightarrow> int \<Rightarrow> (int \<Rightarrow> byte) \<Rightarrow> int \<Rightarrow> byte" where
  "masked_write t d base old i =
     (if base \<le> i \<and> i < base + int (length d) \<and> be_enabled t (nat (i - base))
      then d ! nat (i - base) else old i)"

context byte_memory
begin

lemma write_request:
  assumes "1 \<le> tlp_length t" "int (length d) = 4 * tlp_length t" "valid m a (int (length d))"
  shows "\<exists>m'. write_runs wr a d (be_runs_mem t) m = Inr m' \<and> valid m' = valid m \<and>
    peek m' = masked_write t d a (peek m)"
proof -
  have l: "length d = nat (tlp_length t) * 4" using assms(1,2) by linarith
  have rs: "runs_in (length d) (be_runs_mem t)" using be_runs_mem_spec(1)[OF assms(1)] l by simp
  from write_runs_ok[OF assms(3) rs] obtain m' where
    m': "write_runs wr a d (be_runs_mem t) m = Inr m'" "valid m' = valid m"
    "\<And>i. peek m' i = (if a \<le> i \<and> covers (be_runs_mem t) (nat (i - a)) then d ! nat (i - a) else peek m i)"
    by auto
  have "peek m' i = masked_write t d a (peek m) i" for i
  proof (cases "a \<le> i \<and> i < a + int (length d)")
    case True
    then have "nat (i - a) < nat (tlp_length t) * 4" using l by linarith
    then show ?thesis
      using True be_runs_mem_spec(2)[OF assms(1)] by (simp add: m'(3) masked_write_def)
  next
    case False
    then have "\<not> (a \<le> i \<and> covers (be_runs_mem t) (nat (i - a)))"
      using covers_bound[OF rs, of "nat (i - a)"] by auto
    then show ?thesis using False by (auto simp: m'(3) masked_write_def)
  qed
  with m'(1,2) show ?thesis by blast
qed

end

lemma pack_all_L_length: "pack_all pack_L ws = Inr bs \<Longrightarrow> length bs = 4 * length ws"
  by (rule le32.pack_all_length)

lemma set_be_request:
  assumes "1 \<le> len" "t = fst (set_be t0 addr len)"
  shows "tlp_address t = addr - addr mod 4" "1 \<le> tlp_length t" "addr mod 4 + len \<le> 4 * tlp_length t"
    "4 * tlp_length t < addr mod 4 + len + 4" "get_first_be_offset t = addr mod 4"
    "get_be_byte_count t = len"
proof -
  obtain fp lp n where h: "fp < 4" "lp < 4" "int fp = addr mod 4" "1 \<le> n"
    "int fp + len + int lp = 4 * n"
    and eq: "fst (set_be t0 addr len) = t0\<lparr>tlp_address := addr - int fp, tlp_length := n,
       tlp_first_be := (if n = 1 then (push_bit fp 0xf AND 0xf) AND drop_bit lp 0xf
                        else push_bit fp 0xf AND 0xf),
       tlp_last_be := (if n = 1 then 0 else drop_bit lp 0xf)\<rparr>"
    by (rule set_be_shape[OF assms(1), of addr t0])
  have f: "tlp_address t = addr - int fp" "tlp_length t = n" unfolding assms(2) eq by simp_all
  show "tlp_address t = addr - addr mod 4" "1 \<le> tlp_length t" using h f by simp_all
  show "addr mod 4 + len \<le> 4 * tlp_length t" "4 * tlp_length t < addr mod 4 + len + 4"
    unfolding f(2) using h(2,3,5) by linarith+
  show "get_first_be_offset t = addr mod 4" "get_be_byte_count t = len"
    unfolding assms(2) using set_be_counts[OF assms(1)] by blast+
qed

text \<open>A write request built from a byte range writes that range.\<close>

lemma set_be_data_request:
  assumes "d \<noteq> []" "set_be_data t0 addr d = Inr t"
  obtains w where "get_data t = Inr w" "tlp_address t = addr - addr mod 4" "1 \<le> tlp_length t"
    "tlp_length t = int (length (tlp_data t))"
    "addr mod 4 + int (length d) \<le> 4 * tlp_length t"
    "4 * tlp_length t < addr mod 4 + int (length d) + 4"
    "fmt_type_of t = fmt_type_of t0" "tlp_th t = tlp_th t0" "tlp_requester_id t = tlp_requester_id t0"
    "\<And>off old i. masked_write t w off old i =
       (if off + addr mod 4 \<le> i \<and> i < off + addr mod 4 + int (length d)
        then d ! nat (i - (off + addr mod 4)) else old i)"
proof -
  have len: "1 \<le> int (length d)" using assms(1) by (cases d) auto
  define u where "u = fst (set_be t0 addr (int (length d)))"
  obtain fp lp t' where t': "snd (set_be t0 addr (int (length d))) = (fp, lp)" "fp < 4" "lp < 4"
    "int fp = addr mod 4" "set_be_data t0 addr d = Inr t'"
    "get_data t' = Inr (replicate fp 0 @ d @ replicate lp 0)" "t' = u\<lparr>tlp_data := tlp_data t'\<rparr>"
    "list_all (fits 32) (tlp_data t')" "tlp_length t' = int (length (tlp_data t'))"
    using set_be_data_shape[OF assms(1), of t0 addr] unfolding u_def by metis
  have t: "t' = t" using t'(5) assms(2) by simp
  note r = set_be_request[OF len u_def]
  obtain ws where ws: "t = u\<lparr>tlp_data := ws\<rparr>" using t'(7) unfolding t by blast
  have sel: "tlp_address t = tlp_address u" "tlp_length t = tlp_length u"
    "\<And>i. be_enabled t i = be_enabled u i" "fmt_type_of t = fmt_type_of u" "tlp_th t = tlp_th u"
    "tlp_requester_id t = tlp_requester_id u"
    unfolding ws by (simp_all add: be_enabled_def fmt_type_of_def)
  have u: "fmt_type_of u = fmt_type_of t0" "tlp_th u = tlp_th t0" "tlp_requester_id u = tlp_requester_id t0"
    by (simp_all add: u_def set_be_def Let_def fmt_type_of_def)
  let ?w = "replicate fp 0 @ d @ replicate lp 0"
  have lw: "int (length ?w) = 4 * tlp_length u"
    using pack_all_L_length[of "tlp_data t" ?w] t'(6,9) unfolding t by (simp add: get_data_def sel(2))
  have mw: "masked_write t ?w off old i = (if off + addr mod 4 \<le> i \<and> i < off + addr mod 4 + int (length d)
      then d ! nat (i - (off + addr mod 4)) else old i)" for off old i
  proof (cases "off \<le> i \<and> i < off + int (length ?w)")
    case True
    then have j: "int (nat (i - off)) = i - off" "int (nat (i - off)) < 4 * tlp_length u"
      using lw by linarith+
    have "be_enabled t (nat (i - off)) \<longleftrightarrow> addr mod 4 \<le> i - off \<and> i - off < addr mod 4 + int (length d)"
      using set_be_enabled[OF len, of "nat (i - off)" t0 addr] j r(1)
      unfolding sel(3) u_def[symmetric] by auto
    moreover have "?w ! nat (i - off) = d ! nat (i - (off + addr mod 4))"
      if "addr mod 4 \<le> i - off" "i - off < addr mod 4 + int (length d)"
    proof -
      have "nat (i - off) - fp = nat (i - (off + addr mod 4))" "fp \<le> nat (i - off)"
        "nat (i - off) - fp < length d"
        using that t'(4) by linarith+
      then show ?thesis by (simp add: nth_append)
    qed
    ultimately show ?thesis using True by (auto simp: masked_write_def)
  next
    case False
    then show ?thesis using t'(4) by (auto simp: masked_write_def)
  qed
  show ?thesis
    using t'(6,9) r sel u mw that[of ?w] unfolding t by simp
qed

section \<open>Completion streams\<close>

text \<open>The completions \<open>cs\<close> answer request \<open>t\<close> with the bytes \<open>d\<close>: each is successful, names
  the bytes still to come, and carries the next of them after the offset given by its lower
  address.\<close>

fun cpl_stream :: "tlp \<Rightarrow> bytes \<Rightarrow> tlp list \<Rightarrow> bool" where
  "cpl_stream t d [] \<longleftrightarrow> d = []"
| "cpl_stream t d (c # cs) \<longleftrightarrow>
     (case get_data c of
        Inl e \<Rightarrow> False
      | Inr w \<Rightarrow>
          let off = nat (tlp_lower_address c AND 3) in
          tlp_check c \<and> fmt_type_of c = TLP_CPL_DATA \<and> tlp_status c = CPL_STATUS_SC \<and>
          tlp_tag c = tlp_tag t \<and> tlp_requester_id c = tlp_requester_id t \<and>
          tlp_byte_count c = int (length d) \<and> tlp_length c = int (length (tlp_data c)) \<and>
          off < length w \<and> d \<noteq> [] \<and> take (length d) (drop off w) = take (length w - off) d \<and>
          cpl_stream t (drop (length w - off) d) cs)"

lemma and_3_mod: "(a :: int) AND 3 = a mod 4"
  by (simp add: masks take_bit_eq_mod)

lemma and_7f_3: "((a :: int) AND 0x7f) AND 3 = a mod 4"
proof -
  have "((a :: int) AND 0x7f) AND 3 = take_bit 2 a" by (simp add: masks)
  then show ?thesis by (simp add: take_bit_eq_mod)
qed

text \<open>Every chunk ends on a 128-byte boundary or the end of the request, and holds at most
  the maximum payload.\<close>

definition cpl_sized :: "int \<Rightarrow> tlp \<Rightarrow> bool" where
  "cpl_sized mps c \<longleftrightarrow> 1 \<le> tlp_length c \<and> tlp_length c \<le> push_bit (nat mps) 32"

lemma cpl_loop_stream:
  assumes snd_ok: "\<And>c. tlp_check c \<Longrightarrow> snd_fn c = Inr [c]"
    and d: "int (length d) = 4 * dw" and last: "fp + len \<le> 4 * dw" "4 * dw < fp + len + 4" "0 \<le> fp"
  shows "0 \<le> m \<Longrightarrow> m \<le> dw \<Longrightarrow> 4 * m + addr mod 4 = fp + n \<Longrightarrow> 0 \<le> n \<Longrightarrow>
     (m < dw \<longrightarrow> n < len) \<Longrightarrow> (m = dw \<longrightarrow> len \<le> n) \<Longrightarrow>
   \<exists>cs. cpl_loop snd_fn t cid mps d dw len m n addr = Inr cs \<and>
     cpl_stream t (slice d (nat (fp + n)) (nat (fp + len))) cs \<and> list_all (cpl_sized mps) cs"
proof (induction "nat (dw - m)" arbitrary: m n addr rule: less_induct)
  case less
  show ?case
  proof (cases "m < dw")
    case False
    then have "m = dw" using less.prems(2) by simp
    then have "slice d (nat (fp + n)) (nat (fp + len)) = []"
      using less.prems(6) by (simp add: slice_def)
    then show ?thesis using False by (simp add: cpl_loop.simps)
  next
    case True
    define o' where "o' = addr mod 4"
    define dws where "dws = cpl_dw_length mps addr (dw - m)"
    define step where "step = dws * 4 - o'"
    have o': "0 \<le> o'" "o' < 4" "addr AND 3 = o'" by (simp_all add: o'_def and_3_mod)
    have dws: "1 \<le> dws" "m + dws \<le> dw" "dws \<le> push_bit (nat mps) 32"
      using cpl_dw_length_bounds[of "dw - m" mps addr] True by (auto simp: dws_def)
    define w where "w = slice d (nat (m * 4)) (nat ((m + dws) * 4))"
    have lw: "int (length w) = 4 * dws" using d less.prems(1,2) dws by (simp add: w_def)
    then have "4 dvd length w" by presburger
    then obtain ws where ws: "unpack_all 4 unpack_L w = Inr ws" "4 * length ws = length w"
      "pack_all pack_L ws = Inr w"
      using unpack_all_L_total by blast
    have lws: "int (length ws) = dws" using ws(2) lw by linarith
    let ?base = "(set_completion_data tlp_new t cid)
        \<lparr>tlp_byte_count := len - n, tlp_lower_address := addr AND 0x7f\<rparr>"
    let ?c = "?base\<lparr>tlp_data := ws, tlp_length := dws\<rparr>"
    have sd: "set_data ?base w = Inr ?c" by (simp add: set_data_def ws(1) lws)
    have off: "tlp_lower_address ?c AND 3 = o'" using and_7f_3[of addr] by (simp add: o'_def)
    have nle: "n < len" using less.prems(5) True by simp
    have chk: "tlp_check ?c"
      using less.prems(3) last dws lws nle off unfolding o'_def[symmetric]
      by (simp add: tlp_check_def completion_defs tlp_new_def fmt_type_of_def tlp_type_defs)
    have addr': "(addr + step) mod 4 = 0"
    proof -
      have "addr + step = 4 * (addr div 4 + dws)"
        using minus_mult_div_eq_mod[of addr 4] by (simp add: step_def o'_def algebra_simps)
      then show ?thesis by simp
    qed
    have step: "1 \<le> step" using dws(1) o' by (simp add: step_def)
    have i1: "nat (dw - (m + dws)) < nat (dw - m)" using dws True by simp
    have i2: "4 * (m + dws) + (addr + step) mod 4 = fp + (n + step)"
      using less.prems(3) addr' by (simp add: step_def o'_def)
    have i3: "m + dws < dw \<longrightarrow> n + step < len" "m + dws = dw \<longrightarrow> len \<le> n + step"
      using less.prems(3) last by (auto simp: step_def o'_def)
    have i4: "0 \<le> m + dws" "0 \<le> n + step" using less.prems(1,4) dws(1) step by auto
    obtain cs where cs: "cpl_loop snd_fn t cid mps d dw len (m + dws) (n + step) (addr + step) = Inr cs"
      "cpl_stream t (slice d (nat (fp + (n + step))) (nat (fp + len))) cs" "list_all (cpl_sized mps) cs"
      using less.hyps[OF i1 i4(1) dws(2) i2 i4(2) i3] by blast
    have loop: "cpl_loop snd_fn t cid mps d dw len m n addr = Inr (?c # cs)"
      by (subst cpl_loop.simps)
        (simp only: True if_True Let_def dws_def[symmetric] w_def[symmetric] o'(3)
          step_def[symmetric] sd snd_ok[OF chk] cs(1) bindE.simps append.simps)
    let ?d = "slice d (nat (fp + n)) (nat (fp + len))"
    have ld: "int (length ?d) = len - n"
      using d last less.prems(4) nle by auto
    have dropd: "drop (length w - nat o') ?d = slice d (nat (fp + (n + step))) (nat (fp + len))"
    proof -
      have "length w - nat o' = nat step" using lw o' step by (simp add: step_def) 
      moreover have "nat (fp + n) + nat step = nat (fp + (n + step))"
        using last less.prems(4) step by (simp add: nat_add_distrib)
      ultimately show ?thesis by (simp add: slice_def drop_take ac_simps)
    qed
    have taked: "take (length ?d) (drop (nat o') w) = take (length w - nat o') ?d"
    proof -
      have st: "nat (m * 4) + nat o' = nat (fp + n)" using less.prems(1,3) o' by (simp add: o'_def)
      have "drop (nat o') w = take (length w - nat o') (drop (nat (fp + n)) d)"
      proof -
        have "w = take (length w) (drop (nat (m * 4)) d)"
          by (auto simp: w_def slice_def min_def)
        then have "drop (nat o') w = take (length w - nat o') (drop (nat o' + nat (m * 4)) d)"
          by (metis drop_drop drop_take)
        then show ?thesis using st by (simp add: add.commute)
      qed
      moreover have "?d = take (length ?d) (drop (nat (fp + n)) d)"
        by (auto simp: slice_def min_def)
      ultimately show ?thesis by (simp add: ac_simps take_take min.commute)
    qed
    have gd: "get_data ?c = Inr w" by (simp add: get_data_def ws(3))
    have f: "fmt_type_of ?c = TLP_CPL_DATA" "tlp_status ?c = CPL_STATUS_SC" "tlp_tag ?c = tlp_tag t"
      "tlp_requester_id ?c = tlp_requester_id t"
      by (simp_all add: completion_defs fmt_type_of_def tlp_new_def)
    have l: "tlp_length ?c = int (length (tlp_data ?c))" using lws by simp
    have ow: "nat o' < length w" using o' lw dws by linarith
    have ne: "?d \<noteq> []"
    proof
      assume "?d = []"
      then have "int (length ?d) = 0" by (simp only: list.size)
      then show False using ld nle by simp
    qed
    have bc: "tlp_byte_count ?c = int (length ?d)" using ld by simp
    have "cpl_stream t ?d (?c # cs)"
      unfolding cpl_stream.simps(2) gd sum.case Let_def off dropd taked
      by (intro conjI chk f l ow ne bc cs(2) refl)
    moreover have "cpl_sized mps ?c" using dws by (simp add: cpl_sized_def)
    ultimately show ?thesis using loop cs(3) by auto
  qed
qed

end
