(* ===== verification/PcieMaster.thy ===== *)
theory PcieMaster
  imports MemAccess
begin

text \<open>
  The requester side of \<open>fpga/lib/pcie/tb/pcie.py\<close>: the loops of \<open>io_read\<close>, \<open>io_write\<close>,
  \<open>mem_read\<close> and \<open>mem_write\<close>, which \<open>Function\<close> and \<open>RootComplex\<close> share line by line up to
  the identity of the requester and one argument of \<open>set_be\<close>. What the loops call on
  \<open>self\<close> is the record \<open>master\<close>; its state \<open>'s\<close> holds the object and the rest of the system,
  which acts while the coroutine sends or waits. \<open>m_recv\<close> is \<open>recv_cpl\<close>: the wait for a
  packet or the timeout, then the head of the queue, if any.
\<close>

unbundle bit_operations_syntax

record 's master =
  m_requester :: "'s \<Rightarrow> pcie_id"
  m_free_tag :: "'s \<Rightarrow> int option \<times> 's"
  m_send :: "tlp \<Rightarrow> 's \<Rightarrow> 's result"
  m_recv :: "int \<Rightarrow> 's \<Rightarrow> (tlp option \<times> 's) result"
  m_max_read :: "'s \<Rightarrow> int"
  m_max_payload :: "'s \<Rightarrow> int"

section \<open>The loops\<close>

definition await_cpl :: "'s master \<Rightarrow> int \<Rightarrow> 's \<Rightarrow> (tlp \<times> 's) result" where
  "await_cpl M tag s = bindE (m_recv M tag s) (\<lambda>(c, s').
     case c of
       None \<Rightarrow> Inl (PyException ''Timeout'')
     | Some c \<Rightarrow>
         if tlp_status c \<noteq> CPL_STATUS_SC then Inl (PyException ''Unsuccessful completion'')
         else Inr (c, s'))"

text \<open>Without a free tag the packet cannot be printed, which \<open>send\<close> does first.\<close>

definition io_chunk :: "int \<Rightarrow> int \<Rightarrow> int" where
  "io_chunk rest addr = min rest (4 - addr mod 4)"

lemma io_chunk_pos: "0 < rest \<Longrightarrow> 0 < io_chunk rest addr" "io_chunk rest addr \<le> rest"
  by (auto simp: io_chunk_def)

function io_read_loop :: "'s master \<Rightarrow> int \<Rightarrow> int \<Rightarrow> int \<Rightarrow> bytes \<Rightarrow> 's \<Rightarrow> (bytes \<times> 's) result" where
  "io_read_loop M len n addr d s =
     (if n < len then
        (case m_free_tag M s of
           (None, _) \<Rightarrow> Inl TypeError
         | (Some tag, s1) \<Rightarrow>
             let bl = io_chunk (len - n) addr;
                 t = fst (set_be ((set_fmt_type TLP_IO_READ tlp_new)
                       \<lparr>tlp_requester_id := m_requester M s, tlp_tag := tag\<rparr>) addr bl)
             in bindE (m_send M t s1) (\<lambda>s2. bindE (await_cpl M tag s2) (\<lambda>(c, s3).
                  bindE (assertE (tlp_length c = 1)) (\<lambda>_. bindE (py_nth (tlp_data c) 0) (\<lambda>x.
                    bindE (pack_L x) (\<lambda>w.
                      io_read_loop M len (n + bl) (addr + bl) (d @ drop (nat (addr mod 4)) w) s3))))))
      else Inr (take (nat len) d, s))"
  by pat_completeness auto
termination
  by (relation "measure (\<lambda>(M, len, n, addr, d, s). nat (len - n))") (auto simp: io_chunk_pos)

function io_write_loop :: "'s master \<Rightarrow> bytes \<Rightarrow> int \<Rightarrow> int \<Rightarrow> 's \<Rightarrow> 's result" where
  "io_write_loop M d n addr s =
     (if n < int (length d) then
        (case m_free_tag M s of
           (None, _) \<Rightarrow> Inl TypeError
         | (Some tag, s1) \<Rightarrow>
             let bl = io_chunk (int (length d) - n) addr
             in bindE (set_be_data ((set_fmt_type TLP_IO_WRITE tlp_new)
                  \<lparr>tlp_requester_id := m_requester M s, tlp_tag := tag\<rparr>) addr
                  (slice d (nat n) (nat (n + bl)))) (\<lambda>t.
                bindE (m_send M t s1) (\<lambda>s2. bindE (await_cpl M tag s2) (\<lambda>(c, s3).
                  io_write_loop M d (n + bl) (addr + bl) s3))))
      else Inr s)"
  by pat_completeness auto
termination
  by (relation "measure (\<lambda>(M, d, n, addr, s). nat (int (length d) - n))") (auto simp: io_chunk_pos)

text \<open>A memory chunk: at most the limit of the requester (\<open>128 << limit\<close> bytes from the DWORD
  boundary), never over a 4 KB boundary.\<close>

definition mem_chunk :: "int \<Rightarrow> int \<Rightarrow> int \<Rightarrow> int" where
  "mem_chunk limit rest addr =
     min (min rest (push_bit (nat limit) 128 - addr mod 4)) (0x1000 - (addr AND 0xfff))"

lemma and_fff: "(addr :: int) AND 0xfff = addr mod 0x1000"
  by (simp add: masks take_bit_eq_mod)

lemma mem_chunk_bounds:
  assumes "0 < rest"
  shows "0 < mem_chunk limit rest addr" "mem_chunk limit rest addr \<le> rest"
    "addr mod 4 + mem_chunk limit rest addr \<le> push_bit (nat limit) 128"
    "addr mod 0x1000 + mem_chunk limit rest addr \<le> 0x1000"
proof -
  define p where "p = addr mod 0x1000"
  define f where "f = addr mod 4"
  have "(128 :: int) * 1 \<le> 128 * 2 ^ nat limit" by (intro mult_left_mono) simp_all
  then have "128 \<le> push_bit (nat limit) (128 :: int)" by (simp add: push_bit_eq_mult)
  moreover have "0 \<le> p" "p < 0x1000" "0 \<le> f" "f < 4" by (simp_all add: p_def f_def)
  ultimately show "0 < mem_chunk limit rest addr" "mem_chunk limit rest addr \<le> rest"
    "addr mod 4 + mem_chunk limit rest addr \<le> push_bit (nat limit) 128"
    "addr mod 0x1000 + mem_chunk limit rest addr \<le> 0x1000"
    using assms unfolding mem_chunk_def and_fff p_def[symmetric] f_def[symmetric] by auto
qed

definition mem_read_fmt :: "int \<Rightarrow> fmt_type" where
  "mem_read_fmt addr = (if addr > 0xffffffff then TLP_MEM_READ_64 else TLP_MEM_READ)"

definition mem_write_fmt :: "int \<Rightarrow> fmt_type" where
  "mem_write_fmt addr = (if addr > 0xffffffff then TLP_MEM_WRITE_64 else TLP_MEM_WRITE)"

text \<open>One completion of a read: the bytes it adds and the advance of \<open>m\<close>.\<close>

definition mem_read_step ::
  "'s master \<Rightarrow> int \<Rightarrow> int \<Rightarrow> int \<Rightarrow> 's \<Rightarrow> (bytes \<times> int \<times> 's) result" where
  "mem_read_step M tag bl m s = bindE (await_cpl M tag s) (\<lambda>(c, s').
     bindE (assertE (tlp_byte_count c + 3 + (tlp_lower_address c AND 3) \<ge> tlp_length c * 4)) (\<lambda>_.
       bindE (assertE (tlp_byte_count c = bl - m)) (\<lambda>_.
         bindE (mapE (\<lambda>k. bindE (py_nth (tlp_data c) k) pack_L) [0..<nat (tlp_length c)]) (\<lambda>ws.
           let d = concat ws; off = tlp_lower_address c AND 3
           in Inr (slice d (nat off) (nat (off + tlp_byte_count c)), int (length d) - off, s')))))"

text \<open>The completion loop need not end: a completion without data does not advance it. Not
  ending is \<open>None\<close>.\<close>

partial_function (option) mem_read_recv ::
  "'s master \<Rightarrow> int \<Rightarrow> int \<Rightarrow> int \<Rightarrow> bytes \<Rightarrow> 's \<Rightarrow> (bytes \<times> 's) result option" where
  "mem_read_recv M tag bl m d s =
     (if m < bl then
        (case mem_read_step M tag bl m s of
           Inl e \<Rightarrow> Some (Inl e)
         | Inr (b, k, s') \<Rightarrow> mem_read_recv M tag bl (m + k) (d @ b) s')
      else Some (Inr (d, s)))"

text \<open>\<open>rl\<close> gives the length handed to \<open>set_be\<close> from the length of the read and of the chunk.\<close>

function mem_read_loop ::
  "(int \<Rightarrow> int \<Rightarrow> int) \<Rightarrow> 's master \<Rightarrow> int \<Rightarrow> int \<Rightarrow> int \<Rightarrow> int \<Rightarrow> int \<Rightarrow> bytes \<Rightarrow> 's \<Rightarrow>
   (bytes \<times> 's) result option" where
  "mem_read_loop rl M attr tc len n addr d s =
     (if n < len then
        (case m_free_tag M s of
           (None, _) \<Rightarrow> Some (Inl TypeError)
         | (Some tag, s1) \<Rightarrow>
             let bl = mem_chunk (m_max_read M s) (len - n) addr;
                 t = fst (set_be ((set_fmt_type (mem_read_fmt addr) tlp_new)
                       \<lparr>tlp_requester_id := m_requester M s, tlp_tag := tag, tlp_attr := attr,
                        tlp_tc := tc\<rparr>) addr (rl len bl))
             in case m_send M t s1 of
                  Inl e \<Rightarrow> Some (Inl e)
                | Inr s2 \<Rightarrow>
                    (case mem_read_recv M tag bl 0 d s2 of
                       None \<Rightarrow> None
                     | Some (Inl e) \<Rightarrow> Some (Inl e)
                     | Some (Inr (d', s3)) \<Rightarrow>
                         mem_read_loop rl M attr tc len (n + bl) (addr + bl) d' s3))
      else Some (Inr (d, s)))"
  by pat_completeness auto
termination
  by (relation "measure (\<lambda>(rl, M, attr, tc, len, n, addr, d, s). nat (len - n))")
    (auto simp: mem_chunk_bounds)

function mem_write_loop ::
  "'s master \<Rightarrow> int \<Rightarrow> int \<Rightarrow> bytes \<Rightarrow> int \<Rightarrow> int \<Rightarrow> 's \<Rightarrow> 's result" where
  "mem_write_loop M attr tc d n addr s =
     (if n < int (length d) then
        let bl = mem_chunk (m_max_payload M s) (int (length d) - n) addr
        in bindE (set_be_data ((set_fmt_type (mem_write_fmt addr) tlp_new)
             \<lparr>tlp_requester_id := m_requester M s, tlp_attr := attr, tlp_tc := tc\<rparr>) addr
             (slice d (nat n) (nat (n + bl)))) (\<lambda>t.
           bindE (m_send M t s) (\<lambda>s1. mem_write_loop M attr tc d (n + bl) (addr + bl) s1))
      else Inr s)"
  by pat_completeness auto
termination
  by (relation "measure (\<lambda>(M, attr, tc, d, n, addr, s). nat (int (length d) - n))")
    (auto simp: mem_chunk_bounds)

declare io_read_loop.simps [simp del] io_write_loop.simps [simp del]
  mem_read_loop.simps [simp del] mem_write_loop.simps [simp del]

section \<open>Words\<close>

text \<open>The word accesses of both classes: \<open>int.from_bytes\<close> on slices, and \<open>to_bytes\<close>.\<close>

definition words_of :: "int \<Rightarrow> int \<Rightarrow> bytes \<Rightarrow> int list" where
  "words_of ws count d =
     map (\<lambda>k. from_le (slice d (nat ws * k) (nat ws * (k + 1)))) [0..<nat count]"

definition bytes_of_words :: "int \<Rightarrow> int list \<Rightarrow> bytes result" where
  "bytes_of_words ws xs = pack_all (to_bytes_little (nat ws)) xs"

lemma words_of_bytes:
  assumes "ws \<in> {1, 2, 4, 8}" "bytes_of_words ws xs = Inr d"
  shows "words_of ws (int (length xs)) d = xs"
  using assms(2)
proof (induction xs arbitrary: d)
  case Nil
  then show ?case by (simp add: words_of_def)
next
  case (Cons x xs)
  define w where "w = nat ws"
  from Cons.prems obtain b d' where b: "to_bytes_little w x = Inr b" "bytes_of_words ws xs = Inr d'"
    "d = b @ d'"
    by (auto simp: bytes_of_words_def pack_all_def bindE_Inr_iff w_def)
  have x: "from_le b = x" "length b = w"
    using b(1) by (auto simp: to_bytes_little_def from_le_to_le take_bit_int_eq_self split: if_splits)
  have tail: "slice d (w * Suc k) (w * (Suc k + 1)) = slice d' (w * k) (w * (k + 1))" for k
    using x(2) b(3) by (simp add: slice_def)
  have "words_of ws (int (length (x # xs))) d =
      from_le (slice d 0 w) # map (\<lambda>k. from_le (slice d (w * Suc k) (w * (Suc k + 1)))) [0..<length xs]"
  proof -
    have "nat (int (length (x # xs))) = Suc (length xs)" by simp
    then show ?thesis unfolding words_of_def w_def[symmetric] by (simp only: map_upt_Suc) simp
  qed
  also have "\<dots> = x # words_of ws (int (length xs)) d'"
    unfolding tail using x b(3) by (simp add: words_of_def w_def)
  finally show ?case using Cons.IH[OF b(2)] by simp
qed

section \<open>Interface: a requester linked to memory\<close>

text \<open>What the loops rely on. \<open>mem\<close> is the memory as the requester sees it, \<open>acc s a n\<close> says
  the \<open>n\<close> bytes from \<open>a\<close> can be accessed, \<open>waiting s tag cs\<close> that exactly the completions
  \<open>cs\<close> are under way for \<open>tag\<close>. A request stays in one 4 KB page.\<close>

locale memory_link =
  fixes M :: "'s master"
    and mem :: "'s \<Rightarrow> int \<Rightarrow> byte"
    and idle :: "'s \<Rightarrow> bool"
    and waiting :: "'s \<Rightarrow> int \<Rightarrow> tlp list \<Rightarrow> bool"
    and acc :: "'s \<Rightarrow> int \<Rightarrow> int \<Rightarrow> bool"
  assumes free_tag: "idle s \<Longrightarrow> \<exists>tag s'. m_free_tag M s = (Some tag, s') \<and> 0 \<le> tag \<and> tag < 256 \<and>
      idle s' \<and> mem s' = mem s \<and> acc s' = acc s \<and> m_requester M s' = m_requester M s"
    and send_read: "idle s \<Longrightarrow> acc s addr len \<Longrightarrow> 0 < len \<Longrightarrow> addr mod 0x1000 + len \<le> 0x1000 \<Longrightarrow>
      fmt_type_of t0 = mem_read_fmt addr \<Longrightarrow> 0 \<le> tlp_tag t0 \<Longrightarrow> tlp_tag t0 < 256 \<Longrightarrow> tlp_data t0 = [] \<Longrightarrow>
      tlp_requester_id t0 = m_requester M s \<Longrightarrow> tlp_th t0 = 0 \<Longrightarrow>
      \<exists>s' cs. m_send M (fst (set_be t0 addr len)) s = Inr s' \<and> waiting s' (tlp_tag t0) cs \<and>
        cpl_stream t0 (map (\<lambda>j. mem s (addr + int j)) [0..<nat len]) cs \<and>
        mem s' = mem s \<and> acc s' = acc s"
    and send_write: "idle s \<Longrightarrow> acc s addr (int (length d)) \<Longrightarrow> d \<noteq> [] \<Longrightarrow>
      addr mod 0x1000 + int (length d) \<le> 0x1000 \<Longrightarrow> fmt_type_of t0 = mem_write_fmt addr \<Longrightarrow>
      tlp_requester_id t0 = m_requester M s \<Longrightarrow> tlp_th t0 = 0 \<Longrightarrow> set_be_data t0 addr d = Inr t \<Longrightarrow>
      \<exists>s'. m_send M t s = Inr s' \<and> idle s' \<and> acc s' = acc s \<and>
        mem s' = (\<lambda>i. if addr \<le> i \<and> i < addr + int (length d) then d ! nat (i - addr) else mem s i)"
    and recv: "waiting s tag (c # cs) \<Longrightarrow>
      \<exists>s'. m_recv M tag s = Inr (Some c, s') \<and> waiting s' tag cs \<and> mem s' = mem s \<and> acc s' = acc s"
    and finished: "waiting s tag [] \<Longrightarrow> idle s"
    and acc_sub: "acc s a n \<Longrightarrow> a \<le> a' \<Longrightarrow> 0 < n' \<Longrightarrow> a' + n' \<le> a + n \<Longrightarrow> acc s a' n'"

lemma upt_split: "[0..<a + k] = [0..<a] @ map (\<lambda>j. a + j) [0..<k]"
  by (induction k) simp_all

text \<open>Packing the words of a completion one by one is packing them all.\<close>

lemma mapE_nth_pack:
  "mapE (\<lambda>k. bindE (py_nth xs k) pack_L) [0..<length xs] = mapE pack_L xs"
proof -
  have "mapE (\<lambda>k. bindE (py_nth xs k) pack_L) ks = mapE pack_L (map (nth xs) ks)"
    if "\<forall>k \<in> set ks. k < length xs" for ks
    using that by (induction ks) simp_all
  from this[of "[0..<length xs]"] show ?thesis by (simp add: map_nth)
qed

lemma cpl_stream_step:
  assumes "cpl_stream t d (c # cs)"
  obtains w k where "tlp_check c" "fmt_type_of c = TLP_CPL_DATA" "tlp_status c = CPL_STATUS_SC"
    "tlp_byte_count c = int (length d)" "d \<noteq> []"
    "mapE (\<lambda>k. bindE (py_nth (tlp_data c) k) pack_L) [0..<nat (tlp_length c)] = Inr w"
    "0 < k" "int k = int (length (concat w)) - (tlp_lower_address c AND 3)"
    "slice (concat w) (nat (tlp_lower_address c AND 3))
       (nat ((tlp_lower_address c AND 3) + tlp_byte_count c)) = take k d"
    "cpl_stream t (drop k d) cs"
proof -
  obtain w where w: "get_data c = Inr w" using assms by (cases "get_data c") simp_all
  define off where "off = nat (tlp_lower_address c AND 3)"
  have o: "int off = tlp_lower_address c AND 3" by (simp add: off_def and_3_mod)
  have c: "tlp_check c" "fmt_type_of c = TLP_CPL_DATA" "tlp_status c = CPL_STATUS_SC"
    "tlp_byte_count c = int (length d)" "tlp_length c = int (length (tlp_data c))" "off < length w"
    "d \<noteq> []" "take (length d) (drop off w) = take (length w - off) d"
    "cpl_stream t (drop (length w - off) d) cs"
    using assms w by (simp_all add: off_def Let_def)
  obtain ws where ws: "mapE pack_L (tlp_data c) = Inr ws" "concat ws = w"
    using w by (auto simp: get_data_def pack_all_def bindE_Inr_iff)
  show ?thesis
  proof (rule that[of ws "length w - off"])
    show "mapE (\<lambda>k. bindE (py_nth (tlp_data c) k) pack_L) [0..<nat (tlp_length c)] = Inr ws"
      using ws(1) c(5) mapE_nth_pack[of "tlp_data c"] by simp
    show "int (length w - off) = int (length (concat ws)) - (tlp_lower_address c AND 3)"
      using c(6) ws(2) unfolding o[symmetric] by simp
    show "slice (concat ws) (nat (tlp_lower_address c AND 3))
        (nat ((tlp_lower_address c AND 3) + tlp_byte_count c)) = take (length w - off) d"
      using c(4,8) ws(2) unfolding o[symmetric] by (simp add: slice_def nat_int_add)
  qed (use c in simp_all)
qed

context memory_link
begin

lemma recv_stream:
  "waiting s tag cs \<Longrightarrow> cpl_stream t d cs \<Longrightarrow> int (length d) = bl - m \<or> d = [] \<and> bl \<le> m \<Longrightarrow>
   \<exists>s'. mem_read_recv M tag bl m b s = Some (Inr (b @ d, s')) \<and> idle s' \<and> mem s' = mem s \<and>
     acc s' = acc s"
proof (induction cs arbitrary: s d m b)
  case Nil
  then have "d = []" "bl \<le> m" by auto
  then show ?case using finished[OF Nil.prems(1)] by (simp add: mem_read_recv.simps)
next
  case (Cons c cs)
  from Cons.prems(2) obtain w k where c: "tlp_check c" "fmt_type_of c = TLP_CPL_DATA"
    "tlp_status c = CPL_STATUS_SC" "tlp_byte_count c = int (length d)" "d \<noteq> []"
    "mapE (\<lambda>k. bindE (py_nth (tlp_data c) k) pack_L) [0..<nat (tlp_length c)] = Inr w"
    "0 < k" "int k = int (length (concat w)) - (tlp_lower_address c AND 3)"
    "slice (concat w) (nat (tlp_lower_address c AND 3))
       (nat ((tlp_lower_address c AND 3) + tlp_byte_count c)) = take k d"
    "cpl_stream t (drop k d) cs"
    by (rule cpl_stream_step)
  have m: "int (length d) = bl - m" "m < bl"
    using Cons.prems(3) c(5) length_greater_0_conv[of d] by (auto simp del: length_greater_0_conv)
  obtain s1 where s1: "m_recv M tag s = Inr (Some c, s1)" "waiting s1 tag cs" "mem s1 = mem s"
    "acc s1 = acc s"
    using recv[OF Cons.prems(1)] by blast
  have cond: "tlp_byte_count c + 3 + (tlp_lower_address c AND 3) \<ge> tlp_length c * 4"
    using c(1,2) by (auto simp: tlp_check_def)
  have step: "mem_read_step M tag bl m s = Inr (take k d, int k, s1)"
    using s1(1) c(3,4,6,8,9) cond m(1) by (simp add: mem_read_step_def await_cpl_def Let_def)
  have "int (length (drop k d)) = bl - (m + int k) \<or> drop k d = [] \<and> bl \<le> m + int k"
    using m(1) by auto
  from Cons.IH[OF s1(2) c(10) this, of "b @ take k d"] show ?case
    using m(2) step s1(3,4) by (subst mem_read_recv.simps) simp
qed

text \<open>A read returns the bytes of the range, when each chunk asks for its own bytes.\<close>

lemma read_loop:
  "idle s \<Longrightarrow> 0 \<le> n \<Longrightarrow> (n < len \<longrightarrow> acc s addr (len - n)) \<Longrightarrow>
   \<exists>s'. mem_read_loop (\<lambda>l b. b) M attr tc len n addr d s =
       Some (Inr (d @ map (\<lambda>j. mem s (addr + int j)) [0..<nat (len - n)], s')) \<and>
     idle s' \<and> mem s' = mem s \<and> acc s' = acc s"
proof (induction "nat (len - n)" arbitrary: n addr d s rule: less_induct)
  case less
  show ?case
  proof (cases "n < len")
    case False
    then show ?thesis using less.prems(1) by (subst mem_read_loop.simps) simp
  next
    case True
    define bl where "bl = mem_chunk (m_max_read M s) (len - n) addr"
    have bl: "0 < bl" "bl \<le> len - n" "addr mod 0x1000 + bl \<le> 0x1000"
      using True mem_chunk_bounds[where rest = "len - n" and limit = "m_max_read M s" and addr = addr] by (auto simp: bl_def)
    obtain tag s1 where s1: "m_free_tag M s = (Some tag, s1)" "0 \<le> tag" "tag < 256" "idle s1"
      "mem s1 = mem s" "acc s1 = acc s" "m_requester M s1 = m_requester M s"
      using free_tag[OF less.prems(1)] by blast
    define t0 where "t0 = (set_fmt_type (mem_read_fmt addr) tlp_new)
        \<lparr>tlp_requester_id := m_requester M s, tlp_tag := tag, tlp_attr := attr, tlp_tc := tc\<rparr>"
    have t0: "fmt_type_of t0 = mem_read_fmt addr" "tlp_tag t0 = tag" "tlp_data t0 = []"
      "tlp_requester_id t0 = m_requester M s" "tlp_th t0 = 0"
      by (simp_all add: t0_def fmt_type_of_def set_fmt_type_def tlp_new_def)
    have a: "acc s1 addr bl" using less.prems(3) True s1(6) bl by (auto intro: acc_sub)
    obtain s2 cs where s2: "m_send M (fst (set_be t0 addr bl)) s1 = Inr s2" "waiting s2 tag cs"
      "cpl_stream t0 (map (\<lambda>j. mem s1 (addr + int j)) [0..<nat bl]) cs" "mem s2 = mem s1" "acc s2 = acc s1"
      using send_read[OF s1(4) a bl(1,3) t0(1)] t0(2-5) s1(2,3,7) by auto
    have len: "int (length (map (\<lambda>j. mem s1 (addr + int j)) [0..<nat bl])) = bl - 0" using bl(1) by simp
    obtain s3 where s3: "mem_read_recv M tag bl 0 d s2 =
        Some (Inr (d @ map (\<lambda>j. mem s1 (addr + int j)) [0..<nat bl], s3))"
      "idle s3" "mem s3 = mem s2" "acc s3 = acc s2"
      using recv_stream[OF s2(2,3) disjI1[OF len]] by blast
    have fewer: "nat (len - (n + bl)) < nat (len - n)" "0 \<le> n + bl" using bl True less.prems(2) by auto
    have acc3: "n + bl < len \<longrightarrow> acc s3 (addr + bl) (len - (n + bl))"
      using less.prems(3) True bl s1(6) s2(5) s3(4) by (auto intro: acc_sub)
    obtain s4 where s4: "mem_read_loop (\<lambda>l b. b) M attr tc len (n + bl) (addr + bl)
        (d @ map (\<lambda>j. mem s1 (addr + int j)) [0..<nat bl]) s3 =
        Some (Inr ((d @ map (\<lambda>j. mem s1 (addr + int j)) [0..<nat bl]) @
          map (\<lambda>j. mem s3 (addr + bl + int j)) [0..<nat (len - (n + bl))], s4))"
      "idle s4" "mem s4 = mem s3" "acc s4 = acc s3"
      using less.hyps[OF fewer(1) s3(2) fewer(2) acc3] by blast
    have split: "map (\<lambda>j. mem s (addr + int j)) [0..<nat (len - n)] =
        map (\<lambda>j. mem s1 (addr + int j)) [0..<nat bl] @
        map (\<lambda>j. mem s3 (addr + bl + int j)) [0..<nat (len - (n + bl))]"
    proof -
      have len: "nat (len - n) = nat bl + nat (len - (n + bl))"
        using bl by (simp add: nat_add_distrib[symmetric])
      have "int (nat bl) = bl" using bl(1) by simp
      then show ?thesis
        unfolding len s3(3) s2(4) s1(5) upt_split map_append map_map by (simp add: add.assoc o_def)
    qed
    have "mem_read_loop (\<lambda>l b. b) M attr tc len n addr d s =
        mem_read_loop (\<lambda>l b. b) M attr tc len (n + bl) (addr + bl)
          (d @ map (\<lambda>j. mem s1 (addr + int j)) [0..<nat bl]) s3"
      by (subst mem_read_loop.simps)
        (simp only: True if_True s1(1) option.case prod.case Let_def bl_def[symmetric]
          t0_def[symmetric] s2(1) s3(1) sum.case)
    then show ?thesis
      unfolding split using s4 s3(3,4) s2(4,5) s1(5,6) by (simp only: append_assoc) blast
  qed
qed

text \<open>When the first chunk asks for the whole range, as \<open>Function.mem_read\<close> does, the first
  completion announces more bytes than the chunk, and the read ends in a failed assertion.\<close>

lemma read_loop_whole:
  assumes "idle s" "acc s addr len" "0 < len" "addr mod 0x1000 + len \<le> 0x1000"
    and "mem_chunk (m_max_read M s) len addr < len"
  shows "mem_read_loop (\<lambda>l b. l) M attr tc len 0 addr [] s = Some (Inl AssertionError)"
proof -
  define bl where "bl = mem_chunk (m_max_read M s) len addr"
  note len = assms(3)
  have bl: "0 < bl" "bl < len" using assms(5) mem_chunk_bounds(1)[OF len] by (simp_all add: bl_def)
  obtain tag s1 where s1: "m_free_tag M s = (Some tag, s1)" "0 \<le> tag" "tag < 256" "idle s1"
    "mem s1 = mem s" "acc s1 = acc s" "m_requester M s1 = m_requester M s"
    using free_tag[OF assms(1)] by blast
  define t0 where "t0 = (set_fmt_type (mem_read_fmt addr) tlp_new)
      \<lparr>tlp_requester_id := m_requester M s, tlp_tag := tag, tlp_attr := attr, tlp_tc := tc\<rparr>"
  have t0: "fmt_type_of t0 = mem_read_fmt addr" "tlp_tag t0 = tag" "tlp_data t0 = []"
    "tlp_requester_id t0 = m_requester M s" "tlp_th t0 = 0"
    by (simp_all add: t0_def fmt_type_of_def set_fmt_type_def tlp_new_def)
  have a: "acc s1 addr len" using assms(2) s1(6) by simp
  let ?d = "map (\<lambda>j. mem s1 (addr + int j)) [0..<nat len]"
  obtain s2 cs where s2: "m_send M (fst (set_be t0 addr len)) s1 = Inr s2" "waiting s2 tag cs"
    "cpl_stream t0 ?d cs"
    using send_read[OF s1(4) a len assms(4) t0(1)] t0(2-5) s1(2,3,7) by auto
  have "?d \<noteq> []" using len by simp
  then obtain c cs' where cs: "cs = c # cs'" using s2(3) by (cases cs) auto
  obtain s3 where s3: "m_recv M tag s2 = Inr (Some c, s3)" using recv s2(2) unfolding cs by blast
  have c: "tlp_check c \<and> fmt_type_of c = TLP_CPL_DATA \<and> tlp_status c = CPL_STATUS_SC \<and>
      tlp_byte_count c = len"
  proof (rule cpl_stream_step[OF s2(3)[unfolded cs]])
    show ?thesis if "tlp_check c" "fmt_type_of c = TLP_CPL_DATA" "tlp_status c = CPL_STATUS_SC"
      "tlp_byte_count c = int (length ?d)"
      using that len by simp
  qed
  have "mem_read_step M tag bl 0 s2 = Inl AssertionError"
    using s3 c bl by (auto simp: mem_read_step_def await_cpl_def tlp_check_def)
  then have r: "mem_read_recv M tag bl 0 [] s2 = Some (Inl AssertionError)"
    using bl by (simp add: mem_read_recv.simps)
  show ?thesis
    using len by (subst mem_read_loop.simps)
      (simp only: if_True s1(1) option.case prod.case Let_def diff_0_right bl_def[symmetric]
        t0_def[symmetric] s2(1) r sum.case)
qed

text \<open>A write of any length changes exactly the range, to the data.\<close>

lemma write_loop:
  "idle s \<Longrightarrow> 0 \<le> n \<Longrightarrow> (n < int (length d) \<longrightarrow> acc s addr (int (length d) - n)) \<Longrightarrow>
   \<exists>s'. mem_write_loop M attr tc d n addr s = Inr s' \<and> idle s' \<and> acc s' = acc s \<and>
     mem s' = (\<lambda>i. if addr \<le> i \<and> i < addr + (int (length d) - n) then d ! nat (n + (i - addr)) else mem s i)"
proof (induction "nat (int (length d) - n)" arbitrary: n addr s rule: less_induct)
  case less
  show ?case
  proof (cases "n < int (length d)")
    case False
    then show ?thesis using less.prems(1) by (subst mem_write_loop.simps) (auto simp: fun_eq_iff)
  next
    case True
    define bl where "bl = mem_chunk (m_max_payload M s) (int (length d) - n) addr"
    have bl: "0 < bl" "bl \<le> int (length d) - n" "addr mod 0x1000 + bl \<le> 0x1000"
      using True mem_chunk_bounds[where rest = "int (length d) - n" and limit = "m_max_payload M s"
          and addr = addr] by (auto simp: bl_def)
    define c where "c = slice d (nat n) (nat (n + bl))"
    have c: "int (length c) = bl" using bl less.prems(2) by (simp add: c_def)
    then have cne: "c \<noteq> []" using bl(1) by auto
    define t0 where "t0 = (set_fmt_type (mem_write_fmt addr) tlp_new)
        \<lparr>tlp_requester_id := m_requester M s, tlp_attr := attr, tlp_tc := tc\<rparr>"
    have t0: "fmt_type_of t0 = mem_write_fmt addr" "tlp_requester_id t0 = m_requester M s" "tlp_th t0 = 0"
      by (simp_all add: t0_def fmt_type_of_def set_fmt_type_def tlp_new_def)
    obtain t where t: "set_be_data t0 addr c = Inr t" by (rule set_be_data_shape[OF cne])
    have a: "acc s addr (int (length c))" "addr mod 0x1000 + int (length c) \<le> 0x1000"
      using less.prems(3) True bl c by (auto intro: acc_sub)
    obtain s1 where s1: "m_send M t s = Inr s1" "idle s1" "acc s1 = acc s"
      "mem s1 = (\<lambda>i. if addr \<le> i \<and> i < addr + int (length c) then c ! nat (i - addr) else mem s i)"
      using send_write[OF less.prems(1) a(1) cne a(2) t0(1-3) t] by blast
    have fewer: "nat (int (length d) - (n + bl)) < nat (int (length d) - n)" "0 \<le> n + bl"
      using bl True less.prems(2) by auto
    have acc1: "n + bl < int (length d) \<longrightarrow> acc s1 (addr + bl) (int (length d) - (n + bl))"
      using less.prems(3) True bl s1(3) by (auto intro: acc_sub)
    obtain s2 where s2: "mem_write_loop M attr tc d (n + bl) (addr + bl) s1 = Inr s2" "idle s2"
      "acc s2 = acc s1"
      "mem s2 = (\<lambda>i. if addr + bl \<le> i \<and> i < addr + bl + (int (length d) - (n + bl))
         then d ! nat (n + bl + (i - (addr + bl))) else mem s1 i)"
      using less.hyps[OF fewer(1) s1(2) fewer(2) acc1] by blast
    have "mem s2 i = (if addr \<le> i \<and> i < addr + (int (length d) - n) then d ! nat (n + (i - addr))
        else mem s i)" for i
    proof (cases "addr \<le> i \<and> i < addr + bl")
      case True
      have "c ! nat (i - addr) = d ! (nat n + nat (i - addr))"
        using True bl less.prems(2) unfolding c_def by (intro nth_slice) auto
      also have "nat n + nat (i - addr) = nat (n + (i - addr))"
        using True less.prems(2) by (simp add: nat_add_distrib)
      finally show ?thesis using True bl c by (simp add: s2(4) s1(4))
    next
      case False
      then show ?thesis using bl c by (auto simp: s2(4) s1(4) add_diff_eq)
    qed
    then show ?thesis
      using True s2(1-3) s1(1,3) t
      by (subst mem_write_loop.simps)
        (auto simp: bl_def[symmetric] t0_def[symmetric] c_def[symmetric] Let_def)
  qed
qed

end

end
