(* ===== verification/PcieTree.thy ===== *)
theory PcieTree
  imports PcieId
begin

text \<open>
  The device tree the root complex builds while it enumerates (\<open>TreeItem\<close> of
  \<open>fpga/lib/pcie/tb/pcie.py\<close>): the attributes of a function, its children, lookup by
  identifier and by capability. Nodes are shared objects in the source and mutated in place;
  here \<open>update_dev\<close> replaces the node \<open>find_dev\<close> finds.
\<close>

record tree_node =
  ti_bus_num :: int
  ti_device_num :: int
  ti_function_num :: int
  ti_vendor_id :: int
  ti_device_id :: int
  ti_sec_bus_num :: int
  ti_sub_bus_num :: int
  ti_bar :: "int option list"
  ti_bar_size :: "int option list"
  ti_io_base :: int
  ti_io_limit :: int
  ti_mem_base :: int
  ti_mem_limit :: int
  ti_prefetchable_mem_base :: int
  ti_prefetchable_mem_limit :: int
  ti_capabilities :: "(int \<times> int) list"
  ti_ext_capabilities :: "(int \<times> int) list"
  ti_msi_addr :: "int option"
  ti_msi_data :: "int option"

datatype tree = Tree (tree_item: tree_node) (tree_children: "tree list")

definition tree_node_init :: tree_node where
  "tree_node_init = \<lparr>ti_bus_num = 0, ti_device_num = 0, ti_function_num = 0, ti_vendor_id = 0,
     ti_device_id = 0, ti_sec_bus_num = 0, ti_sub_bus_num = 0, ti_bar = replicate 6 None,
     ti_bar_size = replicate 6 None, ti_io_base = 0, ti_io_limit = 0, ti_mem_base = 0,
     ti_mem_limit = 0, ti_prefetchable_mem_base = 0, ti_prefetchable_mem_limit = 0,
     ti_capabilities = [], ti_ext_capabilities = [], ti_msi_addr = None, ti_msi_data = None\<rparr>"

definition ti_get_id :: "tree_node \<Rightarrow> pcie_id" where
  "ti_get_id t = mk_id (ti_bus_num t) (ti_device_num t) (ti_function_num t)"

text \<open>The node itself, then the children from left to right, each with its subtree.\<close>

fun find_dev :: "pcie_id \<Rightarrow> tree \<Rightarrow> tree_node option"
  and find_dev_list :: "pcie_id \<Rightarrow> tree list \<Rightarrow> tree_node option" where
  "find_dev i (Tree t cs) = (if i = ti_get_id t then Some t else find_dev_list i cs)"
| "find_dev_list i [] = None"
| "find_dev_list i (c # cs) =
     (case find_dev i c of Some t \<Rightarrow> Some t | None \<Rightarrow> find_dev_list i cs)"

fun update_dev :: "pcie_id \<Rightarrow> (tree_node \<Rightarrow> tree_node) \<Rightarrow> tree \<Rightarrow> tree"
  and update_dev_list :: "pcie_id \<Rightarrow> (tree_node \<Rightarrow> tree_node) \<Rightarrow> tree list \<Rightarrow> tree list" where
  "update_dev i f (Tree t cs) =
     (if i = ti_get_id t then Tree (f t) cs else Tree t (update_dev_list i f cs))"
| "update_dev_list i f [] = []"
| "update_dev_list i f (c # cs) =
     (case find_dev i c of
        Some _ \<Rightarrow> update_dev i f c # cs
      | None \<Rightarrow> c # update_dev_list i f cs)"

definition get_capability_offset :: "tree_node \<Rightarrow> int \<Rightarrow> int option" where
  "get_capability_offset t i = map_option snd (find (\<lambda>c. fst c = i) (ti_capabilities t))"

section \<open>Lookup\<close>

fun nodes :: "tree \<Rightarrow> tree_node list" where
  "nodes (Tree t cs) = t # concat (map nodes cs)"

lemma find_append: "find P (xs @ ys) = (case find P xs of Some x \<Rightarrow> Some x | None \<Rightarrow> find P ys)"
  by (induction xs) auto

lemma find_dev_nodes:
  "find_dev i t = find (\<lambda>n. ti_get_id n = i) (nodes t)"
  "find_dev_list i ts = find (\<lambda>n. ti_get_id n = i) (concat (map nodes ts))"
  by (induction i t and i ts rule: find_dev_find_dev_list.induct)
    (auto simp: find_append split: option.splits)

lemma nodes_update_dev:
  "find_dev i t = None \<Longrightarrow> update_dev i f t = t"
  "find_dev_list i ts = None \<Longrightarrow> update_dev_list i f ts = ts"
  by (induction i f t and i f ts rule: update_dev_update_dev_list.induct)
    (auto split: if_splits option.splits)

lemma find_dev_update:
  assumes "\<And>n. ti_get_id (f n) = ti_get_id n"
  shows "find_dev j (update_dev i f t) =
      (if j = i then map_option f (find_dev i t) else find_dev j t)"
    and "find_dev_list j (update_dev_list i f ts) =
      (if j = i then map_option f (find_dev_list i ts) else find_dev_list j ts)"
  by (induction i t and i ts rule: find_dev_find_dev_list.induct)
    (use assms in \<open>auto split: option.splits\<close>)

text \<open>\<open>find_dev\<close> returns the first node in depth-first order that carries the
  identifier, so it finds every identifier the tree holds; assigning to the node it returned
  is seen by the next lookup of the same identifier and by no other.\<close>

theorem find_dev_first:
  assumes "\<And>n. ti_get_id (f n) = ti_get_id n"
  shows "find_dev i t = find (\<lambda>n. ti_get_id n = i) (nodes t) \<and>
    (find_dev i t = None \<longleftrightarrow> i \<notin> ti_get_id ` set (nodes t)) \<and>
    find_dev j (update_dev i f t) = (if j = i then map_option f (find_dev i t) else find_dev j t)"
  using find_dev_nodes(1)[of i t] find_dev_update(1)[of f j i t] assms
  by (auto simp: find_None_iff)

theorem find_dev_first_witness:
  "find_dev (mk_id 0 2 0) (update_dev (mk_id 0 2 0) (\<lambda>n. n\<lparr>ti_msi_data := Some 32\<rparr>)
     (Tree tree_node_init [Tree (tree_node_init\<lparr>ti_device_num := 1\<rparr>) [],
                           Tree (tree_node_init\<lparr>ti_device_num := 2\<rparr>) []])) =
   Some (tree_node_init\<lparr>ti_device_num := 2, ti_msi_data := Some 32\<rparr>)"
  using find_dev_first[where f = "\<lambda>n. n\<lparr>ti_msi_data := Some 32\<rparr>" and i = "mk_id 0 2 0" and
      j = "mk_id 0 2 0" and t = "Tree tree_node_init [Tree (tree_node_init\<lparr>ti_device_num := 1\<rparr>) [],
        Tree (tree_node_init\<lparr>ti_device_num := 2\<rparr>) []]"]
  by (simp add: ti_get_id_def tree_node_init_def)

end
