(* ===== verification/PcieRoot.thy ===== *)
theory PcieRoot
  imports PcieRx PcieMaster PcieTree
begin

text \<open>
  The root complex of \<open>fpga/lib/pcie/tb/pcie.py\<close> (\<open>RootComplex\<close>): the memory and I/O regions
  of the host, the message-signalled interrupt region, the handlers of packets that arrive
  from below, and the requester operations of the host, which go either to a region of the
  host or out as packets. A region is host memory or a callback; the only callback of the
  class itself is the MSI region, the callbacks of users are parameters \<open>ucb\<close>.
\<close>

unbundle bit_operations_syntax

section \<open>State\<close>

datatype rc_callback = MsiRegion | UserRegion nat

datatype rc_region =
    RcMem (rr_addr: int) (rr_size: int) (rr_mem: bytes)
  | RcFun (rr_addr: int) (rr_size: int) (rr_cb: rc_callback)

record root_complex =
  rc_current_tag :: int
  rc_cpl_queues :: "tlp list list"
  rc_rx_handler :: "fmt_type \<Rightarrow> rx_handler option"
  rc_max_payload_size :: int
  rc_max_read_request_size :: int
  rc_extended_tag_field_enable :: bool
  rc_io_base :: int
  rc_io_limit :: int
  rc_mem_base :: int
  rc_mem_limit :: int
  rc_pf_mem_base :: int
  rc_pf_mem_limit :: int
  region_limit :: int
  io_region_limit :: int
  rc_regions :: "rc_region list"
  rc_io_regions :: "rc_region list"
  msi_addr :: "int option"
  msi_msg_limit :: int
  msi_signals :: "int \<Rightarrow> bool list option"
  msi_callbacks :: "int \<Rightarrow> nat list option"
  rc_called :: "nat list"
  rc_tree :: tree

text \<open>\<open>rc_called\<close> records the interrupt callbacks that ran, in order.\<close>

definition root_complex_init :: root_complex where
  "root_complex_init = \<lparr>rc_current_tag = 0, rc_cpl_queues = replicate 256 [],
     rc_rx_handler = (\<lambda>_. None)(TLP_IO_READ := Some HandleIoRead, TLP_IO_WRITE := Some HandleIoWrite,
       TLP_MEM_READ := Some HandleMemRead, TLP_MEM_READ_64 := Some HandleMemRead,
       TLP_MEM_WRITE := Some HandleMemWrite, TLP_MEM_WRITE_64 := Some HandleMemWrite),
     rc_max_payload_size = 0, rc_max_read_request_size = 2, rc_extended_tag_field_enable = True,
     rc_io_base = 0x80000000, rc_io_limit = 0x80000000, rc_mem_base = 0x80000000,
     rc_mem_limit = 0x80000000, rc_pf_mem_base = 0x8000000000000000,
     rc_pf_mem_limit = 0x8000000000000000, region_limit = 0, io_region_limit = 0, rc_regions = [], rc_io_regions = [],
     msi_addr = None, msi_msg_limit = 0, msi_signals = (\<lambda>_. None), msi_callbacks = (\<lambda>_. None),
     rc_called = [], rc_tree = Tree tree_node_init []\<rparr>"

section \<open>Regions of the host\<close>

text \<open>\<open>lg\<close> is \<open>math.ceil(math.log(size, 2))\<close>, as for the BARs.\<close>

definition new_region :: "int \<Rightarrow> int \<Rightarrow> rc_callback option \<Rightarrow> rc_region" where
  "new_region addr sz f =
     (case f of None \<Rightarrow> RcMem addr sz (replicate (nat sz) 0) | Some c \<Rightarrow> RcFun addr sz c)"

definition alloc_region ::
  "(int \<Rightarrow> nat) \<Rightarrow> int \<Rightarrow> rc_callback option \<Rightarrow> 'a root_complex_scheme \<Rightarrow>
   (int \<times> 'a root_complex_scheme) result" where
  "alloc_region lg sz f s =
     (if sz \<le> 0 then Inl ValueError
      else let addr = align (region_limit s) (2 ^ lg sz - 1)
           in Inr (addr, s\<lparr>region_limit := addr + sz - 1,
                          rc_regions := rc_regions s @ [new_region addr sz f]\<rparr>))"

definition alloc_io_region ::
  "(int \<Rightarrow> nat) \<Rightarrow> int \<Rightarrow> rc_callback option \<Rightarrow> 'a root_complex_scheme \<Rightarrow>
   (int \<times> 'a root_complex_scheme) result" where
  "alloc_io_region lg sz f s =
     (if sz \<le> 0 then Inl ValueError
      else let addr = align (io_region_limit s) (2 ^ lg sz - 1)
           in Inr (addr, s\<lparr>io_region_limit := addr + sz - 1,
                          rc_io_regions := rc_io_regions s @ [new_region addr sz f]\<rparr>))"

definition in_region :: "int \<Rightarrow> rc_region \<Rightarrow> bool" where
  "in_region addr r \<longleftrightarrow> rr_addr r \<le> addr \<and> addr < rr_addr r + rr_size r"

text \<open>The index of the first region that holds the address.\<close>

fun find_index :: "('a \<Rightarrow> bool) \<Rightarrow> 'a list \<Rightarrow> nat option" where
  "find_index P [] = None"
| "find_index P (x # xs) = (if P x then Some 0 else map_option Suc (find_index P xs))"

definition find_region :: "'a root_complex_scheme \<Rightarrow> int \<Rightarrow> nat option" where
  "find_region s addr = find_index (in_region addr) (rc_regions s)"

definition find_io_region :: "'a root_complex_scheme \<Rightarrow> int \<Rightarrow> nat option" where
  "find_io_region s addr = find_index (in_region addr) (rc_io_regions s)"

text \<open>Reading through a callback runs it and drops its result: both branches of the source
  lack a \<open>return\<close>, so the value is \<open>None\<close>. In the I/O variant the generator branch uses a
  name that does not exist; the callbacks here are plain functions.\<close>

definition rc_read_region :: "'a root_complex_scheme \<Rightarrow> int \<Rightarrow> int \<Rightarrow> bytes option result" where
  "rc_read_region s addr len =
     (case find_region s addr of
        None \<Rightarrow> Inl (PyException ''Invalid address'')
      | Some k \<Rightarrow>
          (case rc_regions s ! k of
             RcMem a sz mem \<Rightarrow> Inr (Some (slice mem (nat (addr - a)) (nat (addr - a + len))))
           | RcFun a sz c \<Rightarrow> Inr None))"

definition rc_read_io_region :: "'a root_complex_scheme \<Rightarrow> int \<Rightarrow> int \<Rightarrow> bytes option result" where
  "rc_read_io_region s addr len =
     (case find_io_region s addr of
        None \<Rightarrow> Inl (PyException ''Invalid address'')
      | Some k \<Rightarrow>
          (case rc_io_regions s ! k of
             RcMem a sz mem \<Rightarrow> Inr (Some (slice mem (nat (addr - a)) (nat (addr - a + len))))
           | RcFun a sz c \<Rightarrow> Inr None))"

text \<open>The slice of an \<open>mmap\<close> cannot change size: a write past the end raises.\<close>

definition mmap_assign :: "bytes \<Rightarrow> int \<Rightarrow> bytes \<Rightarrow> bytes result" where
  "mmap_assign mem off d =
     (if nat off + length d \<le> length mem then Inr (splice mem (nat off) d) else Inl IndexError)"

definition msi_region_write ::
  "int \<Rightarrow> bytes \<Rightarrow> 'a root_complex_scheme \<Rightarrow> 'a root_complex_scheme result" where
  "msi_region_write addr d s =
     bindE (assertE (addr = 0)) (\<lambda>_. bindE (assertE (length d = 4)) (\<lambda>_.
       let number = from_le d
       in case msi_signals s number of
            None \<Rightarrow> Inl AssertionError
          | Some sigs \<Rightarrow>
              let s1 = s\<lparr>msi_signals := (msi_signals s)(number \<mapsto> map Not sigs)\<rparr>
              in case msi_callbacks s number of
                   None \<Rightarrow> Inl KeyError
                 | Some cbs \<Rightarrow> Inr (s1\<lparr>rc_called := rc_called s1 @ cbs\<rparr>)))"

definition rc_callback_write ::
  "(nat \<Rightarrow> int \<Rightarrow> bytes \<Rightarrow> 'a root_complex_scheme \<Rightarrow> 'a root_complex_scheme result) \<Rightarrow>
   rc_callback \<Rightarrow> int \<Rightarrow> bytes \<Rightarrow> 'a root_complex_scheme \<Rightarrow> 'a root_complex_scheme result" where
  "rc_callback_write ucb c off d s =
     (case c of MsiRegion \<Rightarrow> msi_region_write off d s | UserRegion n \<Rightarrow> ucb n off d s)"

definition rc_write_region ::
  "(nat \<Rightarrow> int \<Rightarrow> bytes \<Rightarrow> 'a root_complex_scheme \<Rightarrow> 'a root_complex_scheme result) \<Rightarrow>
   int \<Rightarrow> bytes \<Rightarrow> 'a root_complex_scheme \<Rightarrow> 'a root_complex_scheme result" where
  "rc_write_region ucb addr d s =
     (case find_region s addr of
        None \<Rightarrow> Inl (PyException ''Invalid address'')
      | Some k \<Rightarrow>
          (case rc_regions s ! k of
             RcMem a sz mem \<Rightarrow> bindE (mmap_assign mem (addr - a) d) (\<lambda>mem'.
               Inr (s\<lparr>rc_regions := (rc_regions s)[k := RcMem a sz mem']\<rparr>))
           | RcFun a sz c \<Rightarrow> rc_callback_write ucb c (addr - a) d s))"

definition rc_write_io_region ::
  "(nat \<Rightarrow> int \<Rightarrow> bytes \<Rightarrow> 'a root_complex_scheme \<Rightarrow> 'a root_complex_scheme result) \<Rightarrow>
   int \<Rightarrow> bytes \<Rightarrow> 'a root_complex_scheme \<Rightarrow> 'a root_complex_scheme result" where
  "rc_write_io_region ucb addr d s =
     (case find_io_region s addr of
        None \<Rightarrow> Inl (PyException ''Invalid address'')
      | Some k \<Rightarrow>
          (case rc_io_regions s ! k of
             RcMem a sz mem \<Rightarrow> bindE (mmap_assign mem (addr - a) d) (\<lambda>mem'.
               Inr (s\<lparr>rc_io_regions := (rc_io_regions s)[k := RcMem a sz mem']\<rparr>))
           | RcFun a sz c \<Rightarrow> rc_callback_write ucb c (addr - a) d s))"

section \<open>Packets from below\<close>

text \<open>\<open>downstream_send\<close> hands the packet to the host bridge; here it is the output.\<close>

definition rc_send :: "tlp \<Rightarrow> tlp list result" where
  "rc_send t = bindE (assertE (tlp_check t)) (\<lambda>_. Inr [t])"

definition rc_id :: pcie_id where
  "rc_id = mk_id 0 0 0"

definition rc_ur :: "tlp \<Rightarrow> tlp list result" where
  "rc_ur t = rc_send (set_ur_completion tlp_new t rc_id)"

definition rc_handle_io_read_tlp ::
  "tlp \<Rightarrow> 'a root_complex_scheme \<Rightarrow> ('a root_complex_scheme \<times> tlp list) result" where
  "rc_handle_io_read_tlp t s =
     (if find_io_region s (tlp_address t) \<noteq> None then
        bindE (assertE (tlp_length t = 1)) (\<lambda>_.
          bindE (read_runs (rc_read_io_region s) (tlp_address t) (be_runs_io t) (replicate 4 0)) (\<lambda>d.
            bindE (set_data (set_completion_data tlp_new t rc_id) d) (\<lambda>c.
              bindE (rc_send (c\<lparr>tlp_byte_count := 4, tlp_length := 1\<rparr>)) (\<lambda>out. Inr (s, out)))))
      else bindE (rc_ur t) (\<lambda>out. Inr (s, out)))"

definition rc_handle_io_write_tlp ::
  "(nat \<Rightarrow> int \<Rightarrow> bytes \<Rightarrow> 'a root_complex_scheme \<Rightarrow> 'a root_complex_scheme result) \<Rightarrow>
   tlp \<Rightarrow> 'a root_complex_scheme \<Rightarrow> ('a root_complex_scheme \<times> tlp list) result" where
  "rc_handle_io_write_tlp ucb t s =
     (if find_io_region s (tlp_address t) \<noteq> None then
        bindE (assertE (tlp_length t = 1)) (\<lambda>_. bindE (get_data t) (\<lambda>d.
          bindE (write_runs (rc_write_io_region ucb) (tlp_address t) d (be_runs_io t) s) (\<lambda>s'.
            bindE (rc_send ((set_completion tlp_new t rc_id False CPL_STATUS_SC)\<lparr>tlp_byte_count := 4\<rparr>))
              (\<lambda>out. Inr (s', out)))))
      else bindE (rc_ur t) (\<lambda>out. Inr (s, out)))"

definition rc_handle_mem_read_tlp ::
  "tlp \<Rightarrow> 'a root_complex_scheme \<Rightarrow> ('a root_complex_scheme \<times> tlp list) result" where
  "rc_handle_mem_read_tlp t s =
     (if find_region s (tlp_address t) \<noteq> None then
        if tlp_length t * 4 > 0x1000 - (tlp_address t AND 0xfff) then Inr (s, [])
        else bindE (rc_read_region s (tlp_address t) (tlp_length t * 4)) (\<lambda>v.
          case v of
            None \<Rightarrow> if 0 < tlp_length t then Inl TypeError else Inr (s, [])
          | Some d \<Rightarrow>
              bindE (mem_read_completions rc_send t rc_id (rc_max_payload_size s) d) (\<lambda>out. Inr (s, out)))
      else bindE (rc_ur t) (\<lambda>out. Inr (s, out)))"

definition rc_handle_mem_write_tlp ::
  "(nat \<Rightarrow> int \<Rightarrow> bytes \<Rightarrow> 'a root_complex_scheme \<Rightarrow> 'a root_complex_scheme result) \<Rightarrow>
   tlp \<Rightarrow> 'a root_complex_scheme \<Rightarrow> ('a root_complex_scheme \<times> tlp list) result" where
  "rc_handle_mem_write_tlp ucb t s =
     (if find_region s (tlp_address t) \<noteq> None then
        if tlp_length t * 4 > 0x1000 - (tlp_address t AND 0xfff) then Inr (s, [])
        else bindE (get_data t) (\<lambda>d.
          bindE (write_runs (rc_write_region ucb) (tlp_address t) d (be_runs_mem t) s) (\<lambda>s'.
            Inr (s', [])))
      else Inr (s, []))"

definition rc_handler ::
  "(nat \<Rightarrow> int \<Rightarrow> bytes \<Rightarrow> 'a root_complex_scheme \<Rightarrow> 'a root_complex_scheme result) \<Rightarrow>
   rx_handler \<Rightarrow> tlp \<Rightarrow> 'a root_complex_scheme \<Rightarrow> ('a root_complex_scheme \<times> tlp list) result" where
  "rc_handler ucb h t s =
     (case h of
        HandleIoRead \<Rightarrow> rc_handle_io_read_tlp t s
      | HandleIoWrite \<Rightarrow> rc_handle_io_write_tlp ucb t s
      | HandleMemRead \<Rightarrow> rc_handle_mem_read_tlp t s
      | HandleMemWrite \<Rightarrow> rc_handle_mem_write_tlp ucb t s
      | _ \<Rightarrow> Inl AttributeError)"

definition rc_enqueue_cpl :: "tlp \<Rightarrow> 'a root_complex_scheme \<Rightarrow> 'a root_complex_scheme result" where
  "rc_enqueue_cpl t s =
     bindE (py_index (length (rc_cpl_queues s)) (tlp_tag t)) (\<lambda>k.
       Inr (s\<lparr>rc_cpl_queues := (rc_cpl_queues s)[k := rc_cpl_queues s ! k @ [t]]\<rparr>))"

definition rc_handle_tlp ::
  "(nat \<Rightarrow> int \<Rightarrow> bytes \<Rightarrow> 'a root_complex_scheme \<Rightarrow> 'a root_complex_scheme result) \<Rightarrow>
   tlp \<Rightarrow> 'a root_complex_scheme \<Rightarrow> ('a root_complex_scheme \<times> tlp list) result" where
  "rc_handle_tlp ucb t s =
     (if is_cpl_type (fmt_type_of t) then bindE (rc_enqueue_cpl t s) (\<lambda>s'. Inr (s', []))
      else case rc_rx_handler s (fmt_type_of t) of
        Some n \<Rightarrow> rc_handler ucb n t s
      | None \<Rightarrow> Inl (PyException ''Unhandled TLP''))"

definition rc_downstream_recv ::
  "(nat \<Rightarrow> int \<Rightarrow> bytes \<Rightarrow> 'a root_complex_scheme \<Rightarrow> 'a root_complex_scheme result) \<Rightarrow>
   tlp \<Rightarrow> 'a root_complex_scheme \<Rightarrow> ('a root_complex_scheme \<times> tlp list) result" where
  "rc_downstream_recv ucb t s = bindE (assertE (tlp_check t)) (\<lambda>_. rc_handle_tlp ucb t s)"

definition rc_recv_cpl ::
  "int \<Rightarrow> 'a root_complex_scheme \<Rightarrow> (tlp option \<times> 'a root_complex_scheme) result" where
  "rc_recv_cpl tag s =
     bindE (py_index (length (rc_cpl_queues s)) tag) (\<lambda>k.
       case rc_cpl_queues s ! k of
         [] \<Rightarrow> Inr (None, s)
       | c # q \<Rightarrow> Inr (Some c, s\<lparr>rc_cpl_queues := (rc_cpl_queues s)[k := q]\<rparr>))"

definition rc_get_free_tag :: "'a root_complex_scheme \<Rightarrow> int option \<times> 'a root_complex_scheme" where
  "rc_get_free_tag s =
     (case find_tag 32 32 (rc_current_tag s) (rc_cpl_queues s) of
        (cur, r) \<Rightarrow> (r, s\<lparr>rc_current_tag := cur\<rparr>))"

section \<open>Host memory is byte memory\<close>

text \<open>The byte at a bus address, and ranges served by one host memory region. Both lists of
  regions are instances.\<close>

definition rl_peek :: "rc_region list \<Rightarrow> int \<Rightarrow> byte" where
  "rl_peek rs i =
     (case find_index (in_region i) rs of
        Some k \<Rightarrow> (case rs ! k of
            RcMem a sz mem \<Rightarrow> if i - a < int (length mem) then mem ! nat (i - a) else 0
          | _ \<Rightarrow> 0)
      | None \<Rightarrow> 0)"

definition rl_valid :: "rc_region list \<Rightarrow> int \<Rightarrow> int \<Rightarrow> bool" where
  "rl_valid rs a n \<longleftrightarrow> 0 < n \<and>
     (\<exists>k < length rs. (\<exists>b sz mem. rs ! k = RcMem b sz mem \<and> sz = int (length mem)) \<and>
        (\<forall>i. a \<le> i \<and> i < a + n \<longrightarrow> find_index (in_region i) rs = Some k))"

lemma find_index_Some:
  "find_index P xs = Some k \<Longrightarrow> k < length xs \<and> P (xs ! k)"
  by (induction xs arbitrary: k) (auto split: if_splits)

lemma find_index_update:
  "P y = P (xs ! k) \<Longrightarrow> k < length xs \<Longrightarrow> find_index P (xs[k := y]) = find_index P xs"
proof (induction xs arbitrary: k)
  case (Cons x xs)
  then show ?case by (cases k) auto
qed simp

lemma rl_validE:
  assumes "rl_valid rs a n"
  obtains k b mem where "0 < n" "k < length rs" "rs ! k = RcMem b (int (length mem)) mem"
    "find_index (in_region a) rs = Some k" "b \<le> a" "a + n \<le> b + int (length mem)"
    "\<forall>i. a \<le> i \<and> i < a + n \<longrightarrow> find_index (in_region i) rs = Some k"
proof -
  obtain k b mem where k: "0 < n" "k < length rs" "rs ! k = RcMem b (int (length mem)) mem"
    "\<And>i. a \<le> i \<Longrightarrow> i < a + n \<Longrightarrow> find_index (in_region i) rs = Some k"
    using assms unfolding rl_valid_def by blast
  have "in_region a (rs ! k)" "in_region (a + n - 1) (rs ! k)"
    using find_index_Some[OF k(4)[of a]] find_index_Some[OF k(4)[of "a + n - 1"]] k(1) by auto
  then have "b \<le> a" "a + n \<le> b + int (length mem)" using k(3) by (auto simp: in_region_def)
  with k that show ?thesis by auto
qed

lemma rl_valid_sub:
  assumes "rl_valid rs a n" "a \<le> a'" "0 < n'" "a' + n' \<le> a + n"
  shows "rl_valid rs a' n'"
  using assms unfolding rl_valid_def by (metis (no_types, opaque_lifting) dual_order.strict_trans1 order_trans)

lemma rl_read:
  assumes "rl_valid rs a n"
  shows "\<exists>k b sz mem. find_index (in_region a) rs = Some k \<and> rs ! k = RcMem b sz mem \<and>
    slice mem (nat (a - b)) (nat (a - b + n)) = map (\<lambda>j. rl_peek rs (a + int j)) [0..<nat n]"
proof -
  obtain k b mem where k: "0 < n" "k < length rs" "rs ! k = RcMem b (int (length mem)) mem"
    "find_index (in_region a) rs = Some k" "b \<le> a" "a + n \<le> b + int (length mem)"
    "\<forall>i. a \<le> i \<and> i < a + n \<longrightarrow> find_index (in_region i) rs = Some k"
    by (rule rl_validE[OF assms])
  have p: "rl_peek rs (a + int j) = mem ! (nat (a - b) + j)" if "j < nat n" for j
  proof -
    have "nat (a + int j - b) = nat (a - b) + j" "a + int j - b < int (length mem)"
      using that k(1,5,6) by linarith+
    then show ?thesis using k(3) k(7)[rule_format, of "a + int j"] that by (simp add: rl_peek_def)
  qed
  have "slice mem (nat (a - b)) (nat (a - b + n)) = map (\<lambda>j. rl_peek rs (a + int j)) [0..<nat n]"
    using k(1,5,6) by (intro nth_equalityI) (auto simp: p nth_slice)
  with k(3,4) show ?thesis by blast
qed

lemma rl_write:
  assumes "rl_valid rs a (int (length d))"
  shows "\<exists>k b sz mem mem'. find_index (in_region a) rs = Some k \<and> rs ! k = RcMem b sz mem \<and>
    mmap_assign mem (a - b) d = Inr mem' \<and> rl_valid (rs[k := RcMem b sz mem']) = rl_valid rs \<and>
    (\<forall>i. rl_peek (rs[k := RcMem b sz mem']) i =
       (if a \<le> i \<and> i < a + int (length d) then d ! nat (i - a) else rl_peek rs i))"
proof -
  obtain k b mem where k: "0 < int (length d)" "k < length rs" "rs ! k = RcMem b (int (length mem)) mem"
    "find_index (in_region a) rs = Some k" "b \<le> a" "a + int (length d) \<le> b + int (length mem)"
    "\<forall>i. a \<le> i \<and> i < a + int (length d) \<longrightarrow> find_index (in_region i) rs = Some k"
    by (rule rl_validE[OF assms])
  define mem' where "mem' = splice mem (nat (a - b)) d"
  have fit: "nat (a - b) + length d \<le> length mem" using k(5,6) by linarith
  have l: "length mem' = length mem" using fit by (simp add: mem'_def)
  let ?rs = "rs[k := RcMem b (int (length mem)) mem']"
  have f: "find_index (in_region i) ?rs = find_index (in_region i) rs" for i
    using k(2,3) by (intro find_index_update) (simp_all add: in_region_def)
  have "rl_valid ?rs a' n' \<longleftrightarrow> rl_valid rs a' n'" for a' n'
  proof -
    define whole where "whole xs j \<longleftrightarrow> (\<exists>c sz m. xs ! j = RcMem c sz m \<and> sz = int (length m))"
      for xs j
    have w: "whole ?rs j \<longleftrightarrow> whole rs j" if "j < length rs" for j
      using that k(2,3) l by (cases "j = k") (auto simp: whole_def)
    show ?thesis
      unfolding rl_valid_def f length_list_update whole_def[symmetric] using w by blast
  qed
  moreover have "rl_peek ?rs i =
      (if a \<le> i \<and> i < a + int (length d) then d ! nat (i - a) else rl_peek rs i)" for i
  proof (cases "find_index (in_region i) rs = Some k")
    case True
    then have i: "b \<le> i" "i < b + int (length mem)"
      using find_index_Some[OF True] k(3) by (auto simp: in_region_def)
    have "mem' ! nat (i - b) =
        (if nat (a - b) \<le> nat (i - b) \<and> nat (i - b) < nat (a - b) + length d
         then d ! (nat (i - b) - nat (a - b)) else mem ! nat (i - b))"
      unfolding mem'_def using fit i by (intro nth_splice) linarith+
    moreover have "nat (a - b) \<le> nat (i - b) \<and> nat (i - b) < nat (a - b) + length d \<longleftrightarrow>
        a \<le> i \<and> i < a + int (length d)" "nat (i - b) - nat (a - b) = nat (i - a)"
      using i k(5) by linarith+
    ultimately show ?thesis using True k(2,3) l i by (simp add: rl_peek_def f)
  next
    case False
    then have "\<not> (a \<le> i \<and> i < a + int (length d))" using k(7) by blast
    then show ?thesis
      using False find_index_Some[of "in_region i" rs] by (auto simp: rl_peek_def f split: option.splits)
  qed
  ultimately show ?thesis
    using k(3,4) fit mem'_def by (auto simp: mmap_assign_def intro!: exI[of _ mem'])
qed

interpretation rc_mem: byte_memory "rc_write_region ucb" rc_read_region
  "\<lambda>s. rl_peek (rc_regions s)" "\<lambda>s. rl_valid (rc_regions s)" for ucb
proof
  fix s :: "'a root_complex_scheme" and a and d :: bytes
  assume "rl_valid (rc_regions s) a (int (length d))"
  from rl_write[OF this] show "\<exists>m'. rc_write_region ucb a d s = Inr m' \<and>
      rl_valid (rc_regions m') = rl_valid (rc_regions s) \<and>
      (\<forall>i. rl_peek (rc_regions m') i = (if a \<le> i \<and> i < a + int (length d)
         then d ! nat (i - a) else rl_peek (rc_regions s) i))"
    by (auto simp: rc_write_region_def find_region_def)
next
  fix s :: "'a root_complex_scheme" and a n :: int
  assume "rl_valid (rc_regions s) a n"
  from rl_read[OF this] show
    "rc_read_region s a n = Inr (Some (map (\<lambda>k. rl_peek (rc_regions s) (a + int k)) [0..<nat n]))"
    by (auto simp: rc_read_region_def find_region_def)
qed (rule rl_valid_sub)

interpretation rc_io: byte_memory "rc_write_io_region ucb" rc_read_io_region
  "\<lambda>s. rl_peek (rc_io_regions s)" "\<lambda>s. rl_valid (rc_io_regions s)" for ucb
proof
  fix s :: "'a root_complex_scheme" and a and d :: bytes
  assume "rl_valid (rc_io_regions s) a (int (length d))"
  from rl_write[OF this] show "\<exists>m'. rc_write_io_region ucb a d s = Inr m' \<and>
      rl_valid (rc_io_regions m') = rl_valid (rc_io_regions s) \<and>
      (\<forall>i. rl_peek (rc_io_regions m') i = (if a \<le> i \<and> i < a + int (length d)
         then d ! nat (i - a) else rl_peek (rc_io_regions s) i))"
    by (auto simp: rc_write_io_region_def find_io_region_def)
next
  fix s :: "'a root_complex_scheme" and a n :: int
  assume "rl_valid (rc_io_regions s) a n"
  from rl_read[OF this] show "rc_read_io_region s a n =
      Inr (Some (map (\<lambda>k. rl_peek (rc_io_regions s) (a + int k)) [0..<nat n]))"
    by (auto simp: rc_read_io_region_def find_io_region_def)
qed (rule rl_valid_sub)

section \<open>Allocation\<close>

text \<open>The regions lie one behind the other below the limit; the limit is the last byte handed
  out, so it is odd once a region of an even size ends there.\<close>

definition alloc_inv :: "'a root_complex_scheme \<Rightarrow> bool" where
  "alloc_inv s \<longleftrightarrow>
     sorted_wrt (\<lambda>r r'. rr_addr r + rr_size r \<le> rr_addr r') (rc_regions s) \<and>
     (\<forall>r \<in> set (rc_regions s). 0 \<le> rr_addr r \<and> rr_addr r + rr_size r \<le> region_limit s + 1) \<and>
     0 \<le> region_limit s \<and> (if rc_regions s = [] then region_limit s = 0 else odd (region_limit s))"

lemma align_bounds:
  "val \<le> align val (2 ^ n - 1)" "2 ^ n dvd align val (2 ^ n - 1)"
proof -
  define q where "q = - val div 2 ^ n"
  have a: "align val (2 ^ n - 1) = - q * 2 ^ n" unfolding align_mask q_def ..
  then show "2 ^ n dvd align val (2 ^ n - 1)" by simp
  have "q * 2 ^ n \<le> - val"
  proof -
    have "0 \<le> - val mod 2 ^ n" by simp
    then show ?thesis unfolding q_def using div_mult_mod_eq[of "- val" "2 ^ n"] by linarith
  qed
  then show "val \<le> align val (2 ^ n - 1)" unfolding a by simp
qed

lemma new_region_sel [simp]: "rr_addr (new_region a sz f) = a" "rr_size (new_region a sz f) = sz"
  by (cases f; simp add: new_region_def)+

lemma alloc_region_inv:
  assumes "alloc_inv s" "sz = 2 ^ lg sz" "1 \<le> lg sz" "alloc_region lg sz f s = Inr (addr, s')"
  shows "alloc_inv s' \<and> sz dvd addr \<and> rc_regions s' = rc_regions s @ [new_region addr sz f] \<and>
    (\<forall>r \<in> set (rc_regions s). rr_addr r + rr_size r \<le> addr)"
proof -
  have "even ((2 :: int) ^ lg sz)" using assms(3) by simp
  then have pos: "0 < sz" "even sz" using assms(2) by (metis zero_less_power zero_less_numeral, metis)
  have addr: "addr = align (region_limit s) (2 ^ lg sz - 1)"
    and s': "s' = s\<lparr>region_limit := addr + sz - 1, rc_regions := rc_regions s @ [new_region addr sz f]\<rparr>"
    using assms(4) pos by (auto simp: alloc_region_def Let_def)
  have a: "region_limit s \<le> addr" "sz dvd addr"
    using align_bounds[where val = "region_limit s" and n = "lg sz"] assms(2) unfolding addr by simp_all
  then have ev: "even addr" using pos(2) dvd_trans by blast
  have inv: "0 \<le> region_limit s"
    "sorted_wrt (\<lambda>r r'. rr_addr r + rr_size r \<le> rr_addr r') (rc_regions s)"
    "\<And>r. r \<in> set (rc_regions s) \<Longrightarrow> 0 \<le> rr_addr r \<and> rr_addr r + rr_size r \<le> region_limit s + 1"
    "rc_regions s \<noteq> [] \<Longrightarrow> odd (region_limit s)"
    using assms(1) by (auto simp: alloc_inv_def)
  have below: "rr_addr r + rr_size r \<le> addr" if "r \<in> set (rc_regions s)" for r
  proof -
    have "rc_regions s \<noteq> []" using that by force
    from inv(4)[OF this] have "odd (region_limit s)" .
    then have "region_limit s \<noteq> addr" using ev by auto
    then show ?thesis using inv(3)[OF that] a(1) by linarith
  qed
  have "rr_addr r + rr_size r \<le> addr + sz" if "r \<in> set (rc_regions s)" for r
    using below[OF that] pos(1) by linarith
  then have "alloc_inv s'"
    using inv a(1) below pos ev unfolding s' by (auto simp: alloc_inv_def sorted_wrt_append)
  with a(2) below show ?thesis unfolding s' by simp
qed


lemma alloc_inv_init: "alloc_inv root_complex_init"
  by (simp add: alloc_inv_def root_complex_init_def)


text \<open>The limit is one byte short of the end of the last region, so a size that
  is not a power of two can be overlapped: after an allocation of three bytes the next one
  starts inside it.\<close>

theorem alloc_region_overlap:
  "\<exists>s1 s2 a1 a2. alloc_region clog2 3 None root_complex_init = Inr (a1, s1) \<and>
     alloc_region clog2 2 None s1 = Inr (a2, s2) \<and> a1 < a2 \<and> a2 < a1 + 3"
  by (simp add: alloc_region_def root_complex_init_def align_def clog2.simps)

section \<open>Requests from devices\<close>

lemma completion_check_rc: "tlp_check (set_ur_completion tlp_new t cid)"
  by (simp add: tlp_check_def completion_defs tlp_new_def fmt_type_of_def tlp_type_defs)

text \<open>Property C8: a memory write from a device into host memory changes exactly the enabled
  bytes at their bus addresses; a write to an address without a region changes nothing.\<close>

theorem rc_mem_write_effect:
  assumes "1 \<le> tlp_length t" "tlp_length t = int (length (tlp_data t))" "get_data t = Inr d"
    and "tlp_length t * 4 \<le> 0x1000 - (tlp_address t AND 0xfff)"
    and "rl_valid (rc_regions s) (tlp_address t) (4 * tlp_length t) \<or> find_region s (tlp_address t) = None"
  shows "\<exists>s'. rc_handle_mem_write_tlp ucb t s = Inr (s', []) \<and>
    (if find_region s (tlp_address t) = None then s' = s
     else \<forall>i. rl_peek (rc_regions s') i = masked_write t d (tlp_address t) (rl_peek (rc_regions s)) i)"
proof (cases "find_region s (tlp_address t) = None")
  case True
  then show ?thesis by (simp add: rc_handle_mem_write_tlp_def)
next
  case False
  have l: "int (length d) = 4 * tlp_length t"
    using pack_all_L_length[of "tlp_data t" d] assms(2,3) by (simp add: get_data_def)
  have v: "rl_valid (rc_regions s) (tlp_address t) (int (length d))" using assms(5) False l by simp
  show ?thesis
    using rc_mem.write_request[OF assms(1) l v, of ucb] False assms(3,4)
    by (auto simp: rc_handle_mem_write_tlp_def fun_eq_iff)
qed

theorem rc_mem_write_effect_witness:
  "\<exists>s'. rc_handle_mem_write_tlp (\<lambda>_ _ _ s. Inr s)
      ((set_fmt_type TLP_MEM_WRITE tlp_new)\<lparr>tlp_address := 0x1000, tlp_length := 1, tlp_first_be := 6,
        tlp_data := [0x04030201]\<rparr>)
      (root_complex_init\<lparr>rc_regions := [RcMem 0x1000 4 [9, 9, 9, 9]]\<rparr>) = Inr (s', []) \<and>
    map (rl_peek (rc_regions s') \<circ> int) [0x1000..<0x1004] = [9, 2, 3, 9]"
proof -
  let ?t = "(set_fmt_type TLP_MEM_WRITE tlp_new)\<lparr>tlp_address := 0x1000, tlp_length := 1,
      tlp_first_be := 6, tlp_data := [0x04030201]\<rparr>"
  let ?s = "root_complex_init\<lparr>rc_regions := [RcMem 0x1000 4 [9, 9, 9, 9]]\<rparr>"
  have d: "get_data ?t = Inr [1, 2, 3, 4]"
    by (simp add: get_data_def pack_all_def pack_L_def to_le_4)
  have v: "rl_valid (rc_regions ?s) (tlp_address ?t) (4 * tlp_length ?t)"
    by (auto simp: rl_valid_def in_region_def)
  obtain s' where s': "rc_handle_mem_write_tlp (\<lambda>_ _ _ s. Inr s) ?t ?s = Inr (s', [])"
    "\<And>i. rl_peek (rc_regions s') i = masked_write ?t [1, 2, 3, 4] 0x1000 (rl_peek (rc_regions ?s)) i"
    using rc_mem_write_effect[OF _ _ d _ disjI1[OF v], of "\<lambda>_ _ _ s. Inr s"]
    by (auto simp: find_region_def in_region_def root_complex_init_def masks)
  then show ?thesis
    by (intro exI[of _ s']) (simp add: masked_write_def be_enabled_def rl_peek_def in_region_def upt_rec)
qed

text \<open>A four-byte write of a known vector number at offset 0 of the MSI region
  toggles every signal registered for that vector and runs its callbacks once, in the order
  they were registered; an unknown number is an assertion failure.\<close>

theorem msi_delivery:
  assumes "length d = 4" "msi_signals s = (\<lambda>n. if lo \<le> n \<and> n < hi then Some (sg n) else None)"
    and "msi_callbacks s = (\<lambda>n. if lo \<le> n \<and> n < hi then Some (cb n) else None)"
  shows "msi_region_write 0 d s =
    (if lo \<le> from_le d \<and> from_le d < hi
     then Inr (s\<lparr>msi_signals := (msi_signals s)(from_le d \<mapsto> map Not (sg (from_le d))),
                rc_called := rc_called s @ cb (from_le d)\<rparr>)
     else Inl AssertionError)"
  using assms by (simp add: msi_region_write_def Let_def)

theorem msi_delivery_witness:
  "\<exists>s'. msi_region_write 0 [5, 0, 0, 0]
     (root_complex_init\<lparr>msi_signals := (\<lambda>n. if 0 \<le> n \<and> n < 32 then Some [False] else None),
        msi_callbacks := (\<lambda>n. if 0 \<le> n \<and> n < 32 then Some [7] else None)\<rparr>) = Inr s' \<and>
     msi_signals s' 5 = Some [True] \<and> rc_called s' = [7]"
  using msi_delivery[of "[5, 0, 0, 0]" "root_complex_init\<lparr>msi_signals := (\<lambda>n. if 0 \<le> n \<and> n < 32
      then Some [False] else None), msi_callbacks := (\<lambda>n. if 0 \<le> n \<and> n < 32 then Some [7] else None)\<rparr>"
      0 32 "\<lambda>_. [False]" "\<lambda>_. [7]"]
  by (simp add: root_complex_init_def)

end
