(* ===== verification/PcieHost.thy ===== *)
theory PcieHost
  imports PcieRoot
begin

text \<open>
  The requester of the root complex of \<open>fpga/lib/pcie/tb/pcie.py\<close>: configuration accesses
  (\<open>config_read\<close>, \<open>config_write\<close>), accesses to a capability found in the device tree,
  memory and I/O accesses, each with its word variants, and the set-up of message-signalled
  interrupts. The state is the root complex beside the system below it, \<open>'e\<close>, which is seen
  through the record \<open>fabric\<close>: sending a packet down, and waiting for a completion, during
  which packets come up. Python code passes the data of a write as bytes or as a list.
\<close>

unbundle bit_operations_syntax

section \<open>The system below\<close>

record 'e fabric =
  fab_send :: "tlp \<Rightarrow> 'e \<Rightarrow> 'e result"
  fab_wait :: "int \<Rightarrow> 'e \<Rightarrow> tlp list \<times> 'e"

fun fab_send_all :: "'e fabric \<Rightarrow> tlp list \<Rightarrow> 'e \<Rightarrow> 'e result" where
  "fab_send_all F [] e = Inr e"
| "fab_send_all F (t # ts) e = bindE (fab_send F t e) (fab_send_all F ts)"

type_synonym ('a, 'e) host = "'a root_complex_scheme \<times> 'e"
type_synonym 'a user_callback =
  "nat \<Rightarrow> int \<Rightarrow> bytes \<Rightarrow> 'a root_complex_scheme \<Rightarrow> 'a root_complex_scheme result"

text \<open>The packets that arrive are handled one after the other; what the handlers send goes down.\<close>

fun host_deliver ::
  "'a user_callback \<Rightarrow> 'e fabric \<Rightarrow> tlp list \<Rightarrow> ('a, 'e) host \<Rightarrow> ('a, 'e) host result" where
  "host_deliver ucb F [] s = Inr s"
| "host_deliver ucb F (t # ts) s =
     bindE (rc_downstream_recv ucb t (fst s)) (\<lambda>(r, out).
       bindE (fab_send_all F out (snd s)) (\<lambda>e. host_deliver ucb F ts (r, e)))"

definition host_send :: "'e fabric \<Rightarrow> tlp \<Rightarrow> ('a, 'e) host \<Rightarrow> ('a, 'e) host result" where
  "host_send F t s =
     bindE (rc_send t) (\<lambda>out. bindE (fab_send_all F out (snd s)) (\<lambda>e. Inr (fst s, e)))"

definition host_recv_cpl ::
  "'a user_callback \<Rightarrow> 'e fabric \<Rightarrow> int \<Rightarrow> ('a, 'e) host \<Rightarrow> (tlp option \<times> ('a, 'e) host) result" where
  "host_recv_cpl ucb F tag s =
     (case fab_wait F tag (snd s) of (ts, e) \<Rightarrow>
        bindE (host_deliver ucb F ts (fst s, e)) (\<lambda>s1.
          bindE (rc_recv_cpl tag (fst s1)) (\<lambda>(c, r). Inr (c, (r, snd s1)))))"

definition rc_master :: "'a user_callback \<Rightarrow> 'e fabric \<Rightarrow> ('a, 'e) host master" where
  "rc_master ucb F =
     \<lparr>m_requester = (\<lambda>_. rc_id),
      m_free_tag = (\<lambda>s. case rc_get_free_tag (fst s) of (tag, r) \<Rightarrow> (tag, (r, snd s))),
      m_send = host_send F,
      m_recv = host_recv_cpl ucb F,
      m_max_read = (\<lambda>s. rc_max_read_request_size (fst s)),
      m_max_payload = (\<lambda>s. rc_max_payload_size (fst s))\<rparr>"

section \<open>Data of a write\<close>

text \<open>The byte variants hand over a list of one integer. Padding it with bytes, or assigning
  it to a slice of host memory, raises.\<close>

datatype py_data = PyBytes bytes | PyList "int list"

section \<open>Configuration accesses\<close>

text \<open>A missing or unsuccessful completion reads as all ones.\<close>

definition config_value :: "tlp option \<Rightarrow> bytes result" where
  "config_value r =
     (case r of
        None \<Rightarrow> Inr (replicate 4 0xff)
      | Some c \<Rightarrow>
          if tlp_status c \<noteq> CPL_STATUS_SC then Inr (replicate 4 0xff)
          else bindE (assertE (tlp_length c = 1)) (\<lambda>_. bindE (py_nth (tlp_data c) 0) pack_L))"

function config_read_loop ::
  "'s master \<Rightarrow> pcie_id \<Rightarrow> int \<Rightarrow> int \<Rightarrow> int \<Rightarrow> bytes \<Rightarrow> 's \<Rightarrow> (bytes \<times> 's) result" where
  "config_read_loop M dev len n addr d s =
     (if n < len then
        (case m_free_tag M s of
           (None, _) \<Rightarrow> Inl TypeError
         | (Some tag, s1) \<Rightarrow>
             let bl = io_chunk (len - n) addr;
                 t = (fst (set_be ((set_fmt_type TLP_CFG_READ_1 tlp_new)
                       \<lparr>tlp_requester_id := rc_id, tlp_tag := tag, tlp_dest_id := dev\<rparr>) addr bl))
                       \<lparr>tlp_register_number := drop_bit 2 addr\<rparr>
             in bindE (m_send M t s1) (\<lambda>s2. bindE (m_recv M tag s2) (\<lambda>(r, s3).
                  bindE (config_value r) (\<lambda>w.
                    config_read_loop M dev len (n + bl) (addr + bl) (d @ drop (nat (addr mod 4)) w) s3))))
      else Inr (take (nat len) d, s))"
  by pat_completeness auto
termination
  by (relation "measure (\<lambda>(M, dev, len, n, addr, d, s). nat (len - n))") (auto simp: io_chunk_pos)

function config_write_loop ::
  "'s master \<Rightarrow> pcie_id \<Rightarrow> bytes \<Rightarrow> int \<Rightarrow> int \<Rightarrow> 's \<Rightarrow> 's result" where
  "config_write_loop M dev d n addr s =
     (if n < int (length d) then
        (case m_free_tag M s of
           (None, _) \<Rightarrow> Inl TypeError
         | (Some tag, s1) \<Rightarrow>
             let bl = io_chunk (int (length d) - n) addr
             in bindE (set_be_data ((set_fmt_type TLP_CFG_WRITE_1 tlp_new)
                  \<lparr>tlp_requester_id := rc_id, tlp_tag := tag, tlp_dest_id := dev\<rparr>) addr
                  (slice d (nat n) (nat (n + bl)))) (\<lambda>t.
                bindE (m_send M (t\<lparr>tlp_register_number := drop_bit 2 addr\<rparr>) s1) (\<lambda>s2.
                  bindE (m_recv M tag s2) (\<lambda>(_, s3).
                    config_write_loop M dev d (n + bl) (addr + bl) s3))))
      else Inr s)"
  by pat_completeness auto
termination
  by (relation "measure (\<lambda>(M, dev, d, n, addr, s). nat (int (length d) - n))") (auto simp: io_chunk_pos)

declare config_read_loop.simps [simp del] config_write_loop.simps [simp del]

definition config_read :: "'s master \<Rightarrow> pcie_id \<Rightarrow> int \<Rightarrow> int \<Rightarrow> 's \<Rightarrow> (bytes \<times> 's) result" where
  "config_read M dev addr len s = config_read_loop M dev len 0 addr [] s"

definition config_write :: "'s master \<Rightarrow> pcie_id \<Rightarrow> int \<Rightarrow> py_data \<Rightarrow> 's \<Rightarrow> 's result" where
  "config_write M dev addr v s =
     (case v of
        PyBytes d \<Rightarrow> config_write_loop M dev d 0 addr s
      | PyList xs \<Rightarrow> if xs = [] then Inr s else Inl TypeError)"

text \<open>The word variants. \<open>words_op\<close> is the check of the word size around a byte read,
  \<open>first_of\<close> the \<open>data[0]\<close> of the single-word variants.\<close>

definition ws_ok :: "int \<Rightarrow> bool" where
  "ws_ok ws \<longleftrightarrow> ws \<in> {1, 2, 4, 8}"

definition first_of :: "('x list \<times> 's) result \<Rightarrow> ('x \<times> 's) result" where
  "first_of r = bindE r (\<lambda>(xs, s). bindE (py_nth xs 0) (\<lambda>x. Inr (x, s)))"

definition config_read_words ::
  "'s master \<Rightarrow> pcie_id \<Rightarrow> int \<Rightarrow> int \<Rightarrow> int \<Rightarrow> 's \<Rightarrow> (int list \<times> 's) result" where
  "config_read_words M dev addr count ws s =
     bindE (assertE (ws_ok ws)) (\<lambda>_. bindE (config_read M dev addr (count * ws) s) (\<lambda>(d, s').
       Inr (words_of ws count d, s')))"

definition config_read_dwords :: "'s master \<Rightarrow> pcie_id \<Rightarrow> int \<Rightarrow> int \<Rightarrow> 's \<Rightarrow> (int list \<times> 's) result" where
  "config_read_dwords M dev addr count s = config_read_words M dev addr count 4 s"

definition config_read_qwords :: "'s master \<Rightarrow> pcie_id \<Rightarrow> int \<Rightarrow> int \<Rightarrow> 's \<Rightarrow> (int list \<times> 's) result" where
  "config_read_qwords M dev addr count s = config_read_words M dev addr count 8 s"

definition config_read_byte :: "'s master \<Rightarrow> pcie_id \<Rightarrow> int \<Rightarrow> 's \<Rightarrow> (byte \<times> 's) result" where
  "config_read_byte M dev addr s = first_of (config_read M dev addr 1 s)"

definition config_read_word :: "'s master \<Rightarrow> pcie_id \<Rightarrow> int \<Rightarrow> 's \<Rightarrow> (int \<times> 's) result" where
  "config_read_word M dev addr s = first_of (config_read_words M dev addr 1 2 s)"

definition config_read_dword :: "'s master \<Rightarrow> pcie_id \<Rightarrow> int \<Rightarrow> 's \<Rightarrow> (int \<times> 's) result" where
  "config_read_dword M dev addr s = first_of (config_read_dwords M dev addr 1 s)"

definition config_read_qword :: "'s master \<Rightarrow> pcie_id \<Rightarrow> int \<Rightarrow> 's \<Rightarrow> (int \<times> 's) result" where
  "config_read_qword M dev addr s = first_of (config_read_qwords M dev addr 1 s)"

definition config_write_words :: "'s master \<Rightarrow> pcie_id \<Rightarrow> int \<Rightarrow> int list \<Rightarrow> int \<Rightarrow> 's \<Rightarrow> 's result" where
  "config_write_words M dev addr xs ws s =
     bindE (assertE (ws_ok ws)) (\<lambda>_. bindE (bytes_of_words ws xs) (\<lambda>d.
       config_write M dev addr (PyBytes d) s))"

definition config_write_dwords :: "'s master \<Rightarrow> pcie_id \<Rightarrow> int \<Rightarrow> int list \<Rightarrow> 's \<Rightarrow> 's result" where
  "config_write_dwords M dev addr xs s = config_write_words M dev addr xs 4 s"

definition config_write_qwords :: "'s master \<Rightarrow> pcie_id \<Rightarrow> int \<Rightarrow> int list \<Rightarrow> 's \<Rightarrow> 's result" where
  "config_write_qwords M dev addr xs s = config_write_words M dev addr xs 8 s"

definition config_write_byte :: "'s master \<Rightarrow> pcie_id \<Rightarrow> int \<Rightarrow> int \<Rightarrow> 's \<Rightarrow> 's result" where
  "config_write_byte M dev addr x s = config_write M dev addr (PyList [x]) s"

definition config_write_word :: "'s master \<Rightarrow> pcie_id \<Rightarrow> int \<Rightarrow> int \<Rightarrow> 's \<Rightarrow> 's result" where
  "config_write_word M dev addr x s = config_write_words M dev addr [x] 2 s"

definition config_write_dword :: "'s master \<Rightarrow> pcie_id \<Rightarrow> int \<Rightarrow> int \<Rightarrow> 's \<Rightarrow> 's result" where
  "config_write_dword M dev addr x s = config_write_dwords M dev addr [x] s"

definition config_write_qword :: "'s master \<Rightarrow> pcie_id \<Rightarrow> int \<Rightarrow> int \<Rightarrow> 's \<Rightarrow> 's result" where
  "config_write_qword M dev addr x s = config_write_qwords M dev addr [x] s"

section \<open>Accesses to a capability\<close>

text \<open>\<open>tr\<close> is the device tree of the root complex in the state. An offset of 0 counts as
  not found.\<close>

definition capability_base :: "tree \<Rightarrow> pcie_id \<Rightarrow> int \<Rightarrow> int result" where
  "capability_base tr dev i =
     (case find_dev dev tr of
        None \<Rightarrow> Inl (PyException ''Device not found'')
      | Some ti \<Rightarrow>
          if truthy (get_capability_offset ti i) then Inr (the (get_capability_offset ti i))
          else Inl (PyException ''Capability not found''))"

definition capability_read ::
  "'s master \<Rightarrow> ('s \<Rightarrow> tree) \<Rightarrow> pcie_id \<Rightarrow> int \<Rightarrow> int \<Rightarrow> int \<Rightarrow> 's \<Rightarrow> (bytes \<times> 's) result" where
  "capability_read M tr dev i addr len s =
     bindE (capability_base (tr s) dev i) (\<lambda>off. config_read M dev (addr + off) len s)"

definition capability_write ::
  "'s master \<Rightarrow> ('s \<Rightarrow> tree) \<Rightarrow> pcie_id \<Rightarrow> int \<Rightarrow> int \<Rightarrow> py_data \<Rightarrow> 's \<Rightarrow> 's result" where
  "capability_write M tr dev i addr v s =
     bindE (capability_base (tr s) dev i) (\<lambda>off. config_write M dev (addr + off) v s)"

definition capability_read_words ::
  "'s master \<Rightarrow> ('s \<Rightarrow> tree) \<Rightarrow> pcie_id \<Rightarrow> int \<Rightarrow> int \<Rightarrow> int \<Rightarrow> int \<Rightarrow> 's \<Rightarrow> (int list \<times> 's) result" where
  "capability_read_words M tr dev i addr count ws s =
     bindE (assertE (ws_ok ws)) (\<lambda>_. bindE (capability_read M tr dev i addr (count * ws) s) (\<lambda>(d, s').
       Inr (words_of ws count d, s')))"

definition capability_read_dwords :: "'s master \<Rightarrow> ('s \<Rightarrow> tree) \<Rightarrow> pcie_id \<Rightarrow> int \<Rightarrow> int \<Rightarrow> int \<Rightarrow> 's \<Rightarrow> (int list \<times> 's) result" where
  "capability_read_dwords M tr dev i addr count s = capability_read_words M tr dev i addr count 4 s"

definition capability_read_qwords :: "'s master \<Rightarrow> ('s \<Rightarrow> tree) \<Rightarrow> pcie_id \<Rightarrow> int \<Rightarrow> int \<Rightarrow> int \<Rightarrow> 's \<Rightarrow> (int list \<times> 's) result" where
  "capability_read_qwords M tr dev i addr count s = capability_read_words M tr dev i addr count 8 s"

definition capability_read_byte :: "'s master \<Rightarrow> ('s \<Rightarrow> tree) \<Rightarrow> pcie_id \<Rightarrow> int \<Rightarrow> int \<Rightarrow> 's \<Rightarrow> (byte \<times> 's) result" where
  "capability_read_byte M tr dev i addr s = first_of (capability_read M tr dev i addr 1 s)"

definition capability_read_word :: "'s master \<Rightarrow> ('s \<Rightarrow> tree) \<Rightarrow> pcie_id \<Rightarrow> int \<Rightarrow> int \<Rightarrow> 's \<Rightarrow> (int \<times> 's) result" where
  "capability_read_word M tr dev i addr s = first_of (capability_read_words M tr dev i addr 1 2 s)"

definition capability_read_dword :: "'s master \<Rightarrow> ('s \<Rightarrow> tree) \<Rightarrow> pcie_id \<Rightarrow> int \<Rightarrow> int \<Rightarrow> 's \<Rightarrow> (int \<times> 's) result" where
  "capability_read_dword M tr dev i addr s = first_of (capability_read_dwords M tr dev i addr 1 s)"

definition capability_read_qword :: "'s master \<Rightarrow> ('s \<Rightarrow> tree) \<Rightarrow> pcie_id \<Rightarrow> int \<Rightarrow> int \<Rightarrow> 's \<Rightarrow> (int \<times> 's) result" where
  "capability_read_qword M tr dev i addr s = first_of (capability_read_qwords M tr dev i addr 1 s)"

definition capability_write_words :: "'s master \<Rightarrow> ('s \<Rightarrow> tree) \<Rightarrow> pcie_id \<Rightarrow> int \<Rightarrow> int \<Rightarrow> int list \<Rightarrow> int \<Rightarrow> 's \<Rightarrow> 's result" where
  "capability_write_words M tr dev i addr xs ws s =
     bindE (assertE (ws_ok ws)) (\<lambda>_. bindE (bytes_of_words ws xs) (\<lambda>d.
       capability_write M tr dev i addr (PyBytes d) s))"

definition capability_write_dwords :: "'s master \<Rightarrow> ('s \<Rightarrow> tree) \<Rightarrow> pcie_id \<Rightarrow> int \<Rightarrow> int \<Rightarrow> int list \<Rightarrow> 's \<Rightarrow> 's result" where
  "capability_write_dwords M tr dev i addr xs s = capability_write_words M tr dev i addr xs 4 s"

definition capability_write_qwords :: "'s master \<Rightarrow> ('s \<Rightarrow> tree) \<Rightarrow> pcie_id \<Rightarrow> int \<Rightarrow> int \<Rightarrow> int list \<Rightarrow> 's \<Rightarrow> 's result" where
  "capability_write_qwords M tr dev i addr xs s = capability_write_words M tr dev i addr xs 8 s"

definition capability_write_byte :: "'s master \<Rightarrow> ('s \<Rightarrow> tree) \<Rightarrow> pcie_id \<Rightarrow> int \<Rightarrow> int \<Rightarrow> int \<Rightarrow> 's \<Rightarrow> 's result" where
  "capability_write_byte M tr dev i addr x s = capability_write M tr dev i addr (PyList [x]) s"

definition capability_write_word :: "'s master \<Rightarrow> ('s \<Rightarrow> tree) \<Rightarrow> pcie_id \<Rightarrow> int \<Rightarrow> int \<Rightarrow> int \<Rightarrow> 's \<Rightarrow> 's result" where
  "capability_write_word M tr dev i addr x s = capability_write_words M tr dev i addr [x] 2 s"

definition capability_write_dword :: "'s master \<Rightarrow> ('s \<Rightarrow> tree) \<Rightarrow> pcie_id \<Rightarrow> int \<Rightarrow> int \<Rightarrow> int \<Rightarrow> 's \<Rightarrow> 's result" where
  "capability_write_dword M tr dev i addr x s = capability_write_dwords M tr dev i addr [x] s"

definition capability_write_qword :: "'s master \<Rightarrow> ('s \<Rightarrow> tree) \<Rightarrow> pcie_id \<Rightarrow> int \<Rightarrow> int \<Rightarrow> int \<Rightarrow> 's \<Rightarrow> 's result" where
  "capability_write_qword M tr dev i addr x s = capability_write_qwords M tr dev i addr [x] s"

section \<open>Memory and I/O accesses\<close>

text \<open>An access to an address of the host goes to its region and its result may be \<open>None\<close>
  (a callback); any other address goes out as packets. \<open>io_read\<close> and \<open>io_write\<close> look the
  address up among the memory regions but access the I/O regions. A memory read may wait for
  ever: its result is \<open>None\<close> then.\<close>

definition rc_io_read ::
  "'a user_callback \<Rightarrow> 'e fabric \<Rightarrow> int \<Rightarrow> int \<Rightarrow> ('a, 'e) host \<Rightarrow> (bytes option \<times> ('a, 'e) host) result" where
  "rc_io_read ucb F addr len s =
     (if find_region (fst s) addr \<noteq> None then
        bindE (rc_read_io_region (fst s) addr len) (\<lambda>v. Inr (v, s))
      else bindE (io_read_loop (rc_master ucb F) len 0 addr [] s) (\<lambda>(d, s'). Inr (Some d, s')))"

definition rc_io_write :: "'a user_callback \<Rightarrow> 'e fabric \<Rightarrow> int \<Rightarrow> py_data \<Rightarrow> ('a, 'e) host \<Rightarrow> ('a, 'e) host result" where
  "rc_io_write ucb F addr v s =
     (if find_region (fst s) addr \<noteq> None then
        (case v of
           PyBytes d \<Rightarrow> bindE (rc_write_io_region ucb addr d (fst s)) (\<lambda>r. Inr (r, snd s))
         | PyList xs \<Rightarrow> Inl TypeError)
      else (case v of
           PyBytes d \<Rightarrow> io_write_loop (rc_master ucb F) d 0 addr s
         | PyList xs \<Rightarrow> if xs = [] then Inr s else Inl TypeError))"

definition rc_mem_read ::
  "'a user_callback \<Rightarrow> 'e fabric \<Rightarrow> int \<Rightarrow> int \<Rightarrow> int \<Rightarrow> int \<Rightarrow> ('a, 'e) host \<Rightarrow> (bytes option \<times> ('a, 'e) host) result option" where
  "rc_mem_read ucb F attr tc addr len s =
     (if find_region (fst s) addr \<noteq> None then
        Some (bindE (rc_read_region (fst s) addr len) (\<lambda>v. Inr (v, s)))
      else map_option (\<lambda>r. bindE r (\<lambda>(d, s'). Inr (Some d, s')))
        (mem_read_loop (\<lambda>l b. b) (rc_master ucb F) attr tc len 0 addr [] s))"

definition rc_mem_write :: "'a user_callback \<Rightarrow> 'e fabric \<Rightarrow> int \<Rightarrow> int \<Rightarrow> int \<Rightarrow> py_data \<Rightarrow> ('a, 'e) host \<Rightarrow> ('a, 'e) host result" where
  "rc_mem_write ucb F attr tc addr v s =
     (if find_region (fst s) addr \<noteq> None then
        (case v of
           PyBytes d \<Rightarrow> bindE (rc_write_region ucb addr d (fst s)) (\<lambda>r. Inr (r, snd s))
         | PyList xs \<Rightarrow> Inl TypeError)
      else (case v of
           PyBytes d \<Rightarrow> mem_write_loop (rc_master ucb F) attr tc d 0 addr s
         | PyList xs \<Rightarrow> if xs = [] then Inr s else Inl TypeError))"

text \<open>The word variants of a memory read; \<open>None\<close> cannot be sliced. The I/O variants hand two
  arguments too many to \<open>io_read\<close> and \<open>io_write\<close>, which raises before anything is sent.\<close>

definition words_result :: "int \<Rightarrow> int \<Rightarrow> bytes option \<Rightarrow> int list result" where
  "words_result ws count v =
     (case v of
        Some d \<Rightarrow> Inr (words_of ws count d)
      | None \<Rightarrow> if 0 < count then Inl TypeError else Inr [])"

definition first_opt :: "('x list \<times> 's) result option \<Rightarrow> ('x \<times> 's) result option" where
  "first_opt r = map_option first_of r"

definition rc_mem_read_words ::
  "'a user_callback \<Rightarrow> 'e fabric \<Rightarrow> int \<Rightarrow> int \<Rightarrow> int \<Rightarrow> int \<Rightarrow> int \<Rightarrow> ('a, 'e) host \<Rightarrow> (int list \<times> ('a, 'e) host) result option" where
  "rc_mem_read_words ucb F attr tc addr count ws s =
     (if ws_ok ws then
        map_option (\<lambda>r. bindE r (\<lambda>(v, s'). bindE (words_result ws count v) (\<lambda>xs. Inr (xs, s'))))
          (rc_mem_read ucb F attr tc addr (count * ws) s)
      else Some (Inl AssertionError))"

definition rc_mem_read_dwords ::
  "'a user_callback \<Rightarrow> 'e fabric \<Rightarrow> int \<Rightarrow> int \<Rightarrow> int \<Rightarrow> int \<Rightarrow> ('a, 'e) host \<Rightarrow> (int list \<times> ('a, 'e) host) result option" where
  "rc_mem_read_dwords ucb F attr tc addr count s = rc_mem_read_words ucb F attr tc addr count 4 s"

definition rc_mem_read_qwords ::
  "'a user_callback \<Rightarrow> 'e fabric \<Rightarrow> int \<Rightarrow> int \<Rightarrow> int \<Rightarrow> int \<Rightarrow> ('a, 'e) host \<Rightarrow> (int list \<times> ('a, 'e) host) result option" where
  "rc_mem_read_qwords ucb F attr tc addr count s = rc_mem_read_words ucb F attr tc addr count 8 s"

definition rc_mem_read_byte ::
  "'a user_callback \<Rightarrow> 'e fabric \<Rightarrow> int \<Rightarrow> int \<Rightarrow> int \<Rightarrow> ('a, 'e) host \<Rightarrow> (byte \<times> ('a, 'e) host) result option" where
  "rc_mem_read_byte ucb F attr tc addr s =
     map_option (\<lambda>r. bindE r (\<lambda>(v, s').
       case v of Some d \<Rightarrow> bindE (py_nth d 0) (\<lambda>x. Inr (x, s')) | None \<Rightarrow> Inl TypeError))
       (rc_mem_read ucb F attr tc addr 1 s)"

definition rc_mem_read_word :: "'a user_callback \<Rightarrow> 'e fabric \<Rightarrow> int \<Rightarrow> int \<Rightarrow> int \<Rightarrow> ('a, 'e) host \<Rightarrow> (int \<times> ('a, 'e) host) result option" where
  "rc_mem_read_word ucb F attr tc addr s = first_opt (rc_mem_read_words ucb F attr tc addr 1 2 s)"

definition rc_mem_read_dword :: "'a user_callback \<Rightarrow> 'e fabric \<Rightarrow> int \<Rightarrow> int \<Rightarrow> int \<Rightarrow> ('a, 'e) host \<Rightarrow> (int \<times> ('a, 'e) host) result option" where
  "rc_mem_read_dword ucb F attr tc addr s = first_opt (rc_mem_read_dwords ucb F attr tc addr 1 s)"

definition rc_mem_read_qword :: "'a user_callback \<Rightarrow> 'e fabric \<Rightarrow> int \<Rightarrow> int \<Rightarrow> int \<Rightarrow> ('a, 'e) host \<Rightarrow> (int \<times> ('a, 'e) host) result option" where
  "rc_mem_read_qword ucb F attr tc addr s = first_opt (rc_mem_read_qwords ucb F attr tc addr 1 s)"

definition rc_mem_write_words ::
  "'a user_callback \<Rightarrow> 'e fabric \<Rightarrow> int \<Rightarrow> int \<Rightarrow> int \<Rightarrow> int list \<Rightarrow> int \<Rightarrow> ('a, 'e) host \<Rightarrow> ('a, 'e) host result" where
  "rc_mem_write_words ucb F attr tc addr xs ws s =
     bindE (assertE (ws_ok ws)) (\<lambda>_. bindE (bytes_of_words ws xs) (\<lambda>d.
       rc_mem_write ucb F attr tc addr (PyBytes d) s))"

definition rc_mem_write_dwords :: "'a user_callback \<Rightarrow> 'e fabric \<Rightarrow> int \<Rightarrow> int \<Rightarrow> int \<Rightarrow> int list \<Rightarrow> ('a, 'e) host \<Rightarrow> ('a, 'e) host result" where
  "rc_mem_write_dwords ucb F attr tc addr xs s = rc_mem_write_words ucb F attr tc addr xs 4 s"

definition rc_mem_write_qwords :: "'a user_callback \<Rightarrow> 'e fabric \<Rightarrow> int \<Rightarrow> int \<Rightarrow> int \<Rightarrow> int list \<Rightarrow> ('a, 'e) host \<Rightarrow> ('a, 'e) host result" where
  "rc_mem_write_qwords ucb F attr tc addr xs s = rc_mem_write_words ucb F attr tc addr xs 8 s"

definition rc_mem_write_byte :: "'a user_callback \<Rightarrow> 'e fabric \<Rightarrow> int \<Rightarrow> int \<Rightarrow> int \<Rightarrow> int \<Rightarrow> ('a, 'e) host \<Rightarrow> ('a, 'e) host result" where
  "rc_mem_write_byte ucb F attr tc addr x s = rc_mem_write ucb F attr tc addr (PyList [x]) s"

definition rc_mem_write_word :: "'a user_callback \<Rightarrow> 'e fabric \<Rightarrow> int \<Rightarrow> int \<Rightarrow> int \<Rightarrow> int \<Rightarrow> ('a, 'e) host \<Rightarrow> ('a, 'e) host result" where
  "rc_mem_write_word ucb F attr tc addr x s = rc_mem_write_words ucb F attr tc addr [x] 2 s"

definition rc_mem_write_dword :: "'a user_callback \<Rightarrow> 'e fabric \<Rightarrow> int \<Rightarrow> int \<Rightarrow> int \<Rightarrow> int \<Rightarrow> ('a, 'e) host \<Rightarrow> ('a, 'e) host result" where
  "rc_mem_write_dword ucb F attr tc addr x s = rc_mem_write_dwords ucb F attr tc addr [x] s"

definition rc_mem_write_qword :: "'a user_callback \<Rightarrow> 'e fabric \<Rightarrow> int \<Rightarrow> int \<Rightarrow> int \<Rightarrow> int \<Rightarrow> ('a, 'e) host \<Rightarrow> ('a, 'e) host result" where
  "rc_mem_write_qword ucb F attr tc addr x s = rc_mem_write_qwords ucb F attr tc addr [x] s"

definition rc_io_read_words :: "int \<Rightarrow> 'r result" where
  "rc_io_read_words ws = bindE (assertE (ws_ok ws)) (\<lambda>_. Inl TypeError)"

definition rc_io_read_dwords :: "'r result" where "rc_io_read_dwords = rc_io_read_words 4"
definition rc_io_read_qwords :: "'r result" where "rc_io_read_qwords = rc_io_read_words 8"
definition rc_io_read_byte :: "'r result" where "rc_io_read_byte = Inl TypeError"
definition rc_io_read_word :: "'r result" where "rc_io_read_word = rc_io_read_words 2"
definition rc_io_read_dword :: "'r result" where "rc_io_read_dword = rc_io_read_dwords"
definition rc_io_read_qword :: "'r result" where "rc_io_read_qword = rc_io_read_qwords"

definition rc_io_write_words :: "int list \<Rightarrow> int \<Rightarrow> 'r result" where
  "rc_io_write_words xs ws =
     bindE (assertE (ws_ok ws)) (\<lambda>_. bindE (bytes_of_words ws xs) (\<lambda>_. Inl TypeError))"

definition rc_io_write_dwords :: "int list \<Rightarrow> 'r result" where
  "rc_io_write_dwords xs = rc_io_write_words xs 4"
definition rc_io_write_qwords :: "int list \<Rightarrow> 'r result" where
  "rc_io_write_qwords xs = rc_io_write_words xs 8"
definition rc_io_write_byte :: "int \<Rightarrow> 'r result" where "rc_io_write_byte x = Inl TypeError"
definition rc_io_write_word :: "int \<Rightarrow> 'r result" where
  "rc_io_write_word x = rc_io_write_words [x] 2"
definition rc_io_write_dword :: "int \<Rightarrow> 'r result" where
  "rc_io_write_dword x = rc_io_write_dwords [x]"
definition rc_io_write_qword :: "int \<Rightarrow> 'r result" where
  "rc_io_write_qword x = rc_io_write_qwords [x]"

section \<open>Message-signalled interrupts\<close>

definition host_tree :: "('a, 'e) host \<Rightarrow> tree" where
  "host_tree s = rc_tree (fst s)"

definition msi_vectors :: "int \<Rightarrow> int \<Rightarrow> (int \<Rightarrow> 'x option) \<Rightarrow> 'x \<Rightarrow> int \<Rightarrow> 'x option" where
  "msi_vectors base n m x = (\<lambda>i. if base \<le> i \<and> i < base + n then Some x else m i)"

definition configure_msi ::
  "(int \<Rightarrow> nat) \<Rightarrow> 'a user_callback \<Rightarrow> 'e fabric \<Rightarrow> pcie_id \<Rightarrow> ('a, 'e) host \<Rightarrow> (bool \<times> ('a, 'e) host) result" where
  "configure_msi lg ucb F dev s0 =
     bindE (case msi_addr (fst s0) of
         Some _ \<Rightarrow> Inr s0
       | None \<Rightarrow> bindE (alloc_region lg 4 (Some MsiRegion) (fst s0)) (\<lambda>(a, r).
           Inr (r\<lparr>msi_addr := Some a\<rparr>, snd s0))) (\<lambda>s.
     case find_dev dev (host_tree s) of
       None \<Rightarrow> Inr (False, s)
     | Some ti \<Rightarrow>
         if get_capability_offset ti 0x05 = None then Inr (False, s)
         else if ti_msi_addr ti \<noteq> None \<and> ti_msi_data ti \<noteq> None then Inr (True, s)
         else
           let M = rc_master ucb F;
               a = the (msi_addr (fst s));
               wr = (\<lambda>off x s. capability_write_dword M host_tree dev 0x05 off x s)
           in bindE (capability_read_dword M host_tree dev 0x05 0 s) (\<lambda>(msg_ctrl, s1).
              let msi_64bit = drop_bit 23 msg_ctrl AND 1;
                  msi_mmcap = drop_bit 17 msg_ctrl AND 7
              in bindE (wr 4 (a AND 0xfffffffc) s1) (\<lambda>s2.
                 bindE (if msi_64bit \<noteq> 0 then
                          bindE (wr 8 (drop_bit 32 a AND 0xffffffff) s2) (\<lambda>s3.
                            wr 12 (msi_msg_limit (fst s3)) s3)
                        else wr 8 (msi_msg_limit (fst s2)) s2) (\<lambda>s4.
                 bindE (wr 0 ((msg_ctrl AND NOT (push_bit 20 7)) OR push_bit 16 1 OR push_bit 20 msi_mmcap) s4)
                   (\<lambda>s5.
                     let r = fst s5;
                         base = msi_msg_limit r
                     in Inr (True,
                         (r\<lparr>rc_tree := update_dev dev (\<lambda>n. n\<lparr>ti_msi_addr := msi_addr r, ti_msi_data := Some base\<rparr>) (rc_tree r),
                            msi_signals := msi_vectors base 32 (msi_signals r) [False],
                            msi_callbacks := msi_vectors base 32 (msi_callbacks r) [],
                            msi_msg_limit := base + 32\<rparr>, snd s5)))))))"

text \<open>The lookups by device and vector. The signal is represented by its value.\<close>

definition msi_vector :: "'a root_complex_scheme \<Rightarrow> pcie_id \<Rightarrow> int \<Rightarrow> int option" where
  "msi_vector s dev number =
     (case find_dev dev (rc_tree s) of
        None \<Rightarrow> None
      | Some ti \<Rightarrow> map_option (\<lambda>base. base + number) (ti_msi_data ti))"

definition msi_get_signal :: "pcie_id \<Rightarrow> int \<Rightarrow> 'a root_complex_scheme \<Rightarrow> bool option result" where
  "msi_get_signal dev number s =
     (case msi_vector s dev number of
        None \<Rightarrow> Inr None
      | Some n \<Rightarrow> (case msi_signals s n of
            None \<Rightarrow> Inr None
          | Some sigs \<Rightarrow> bindE (py_nth sigs 0) (\<lambda>v. Inr (Some v))))"

definition msi_register_signal ::
  "pcie_id \<Rightarrow> bool \<Rightarrow> int \<Rightarrow> 'a root_complex_scheme \<Rightarrow> 'a root_complex_scheme" where
  "msi_register_signal dev sig number s =
     (case msi_vector s dev number of
        None \<Rightarrow> s
      | Some n \<Rightarrow> (case msi_signals s n of
            None \<Rightarrow> s
          | Some sigs \<Rightarrow> s\<lparr>msi_signals := (msi_signals s)(n \<mapsto> sigs @ [sig])\<rparr>))"

definition msi_register_callback ::
  "pcie_id \<Rightarrow> nat \<Rightarrow> int \<Rightarrow> 'a root_complex_scheme \<Rightarrow> 'a root_complex_scheme" where
  "msi_register_callback dev cb number s =
     (case msi_vector s dev number of
        None \<Rightarrow> s
      | Some n \<Rightarrow> (case msi_callbacks s n of
            None \<Rightarrow> s
          | Some cbs \<Rightarrow> s\<lparr>msi_callbacks := (msi_callbacks s)(n \<mapsto> cbs @ [cb])\<rparr>))"

end
