(* ===== verification/PcieConfig.thy ===== *)
theory PcieConfig
  imports PcieHost
begin

text \<open>
  Configuration reads of the root complex (\<open>config_read\<close> and its word variants in
  \<open>fpga/lib/pcie/tb/pcie.py\<close>): the interface between the read loop and a fabric that answers
  for one function, and what the loop returns over it. A function is a sequence of registers;
  an access of any length and alignment returns the bytes of the registers it touches.
\<close>

unbundle bit_operations_syntax

section \<open>Interface: a function that answers configuration reads\<close>

text \<open>\<open>cfg s reg\<close> is the register as the function shows it, \<open>readable s reg\<close> that it can be
  read. A reply that is missing or unsuccessful counts as all ones (\<open>config_value\<close>).\<close>

locale config_link =
  fixes M :: "'s master"
    and dev :: pcie_id
    and cfg :: "'s \<Rightarrow> int \<Rightarrow> int"
    and readable :: "'s \<Rightarrow> int \<Rightarrow> bool"
    and idle :: "'s \<Rightarrow> bool"
  assumes free_tag: "idle s \<Longrightarrow> \<exists>tag s'. m_free_tag M s = (Some tag, s') \<and> 0 \<le> tag \<and> tag < 256 \<and>
      idle s' \<and> cfg s' = cfg s \<and> readable s' = readable s"
    and read: "idle s \<Longrightarrow> readable s reg \<Longrightarrow> 0 \<le> tag \<Longrightarrow> tag < 256 \<Longrightarrow>
      fmt_type_of t = TLP_CFG_READ_1 \<Longrightarrow> tlp_requester_id t = rc_id \<Longrightarrow> tlp_dest_id t = dev \<Longrightarrow>
      tlp_tag t = tag \<Longrightarrow> tlp_register_number t = reg \<Longrightarrow> tlp_th t = 0 \<Longrightarrow>
      \<exists>s1 r s2. m_send M t s = Inr s1 \<and> m_recv M tag s1 = Inr (r, s2) \<and>
        config_value r = Inr (to_le 4 (cfg s reg)) \<and> idle s2 \<and> cfg s2 = cfg s \<and> readable s2 = readable s"

lemma find_tag_replicate:
  "0 < m \<Longrightarrow> m \<le> int n \<Longrightarrow> find_tag (Suc k) m cur (replicate n []) = ((cur + 1) mod m, Some ((cur + 1) mod m))"
proof -
  assume m: "0 < m" "m \<le> int n"
  have "0 \<le> (cur + 1) mod m" "(cur + 1) mod m < m" using m(1) by simp_all
  then have "nat ((cur + 1) mod m) < n" using m(2) by linarith
  then show ?thesis by (simp add: Let_def)
qed

lemma rc_tag_idle:
  "rc_cpl_queues q = replicate 256 [] \<Longrightarrow>
   rc_get_free_tag q = (Some ((rc_current_tag q + 1) mod 32), q\<lparr>rc_current_tag := (rc_current_tag q + 1) mod 32\<rparr>)"
  using find_tag_replicate[of 32 256 31 "rc_current_tag q"] by (simp add: rc_get_free_tag_def numeral_eq_Suc)

definition reg_byte :: "(int \<Rightarrow> int) \<Rightarrow> int \<Rightarrow> byte" where
  "reg_byte c i = word_of_int (drop_bit (8 * nat (i mod 4)) (c (i div 4)))"

lemma div_mod_add_small:
  assumes "(a :: int) mod 4 + int j < 4"
  shows "(a + int j) div 4 = a div 4 \<and> (a + int j) mod 4 = a mod 4 + int j"
proof -
  define q r where "q = a div 4" and "r = a mod 4"
  have a: "a = q * 4 + r" "0 \<le> r" "r + int j < 4" using assms by (simp_all add: q_def r_def)
  then have "(a + int j) div 4 = q \<and> (a + int j) mod 4 = r + int j" by (simp add: add.assoc)
  then show ?thesis by (simp add: q_def r_def)
qed

lemma to_le_nth: "j < n \<Longrightarrow> to_le n x ! j = word_of_int (drop_bit (8 * j) x)"
proof (induction n arbitrary: j x)
  case (Suc n)
  then show ?case by (cases j) (simp_all add: algebra_simps)
qed simp

text \<open>The bytes one round of the loop takes out of the register it has read.\<close>

lemma reg_bytes:
  assumes "0 < k" "int k \<le> 4 - a mod 4"
  shows "take k (drop (nat (a mod 4)) (to_le 4 (c (a div 4)))) = map (\<lambda>j. reg_byte c (a + int j)) [0..<k]"
proof (rule nth_equalityI)
  show "length (take k (drop (nat (a mod 4)) (to_le 4 (c (a div 4))))) =
      length (map (\<lambda>j. reg_byte c (a + int j)) [0..<k])"
    using assms by simp
next
  fix j assume "j < length (take k (drop (nat (a mod 4)) (to_le 4 (c (a div 4)))))"
  then have j: "j < k" by simp
  have "(a + int j) div 4 = a div 4 \<and> (a + int j) mod 4 = a mod 4 + int j"
    using assms(2) j by (intro div_mod_add_small) linarith
  then show "take k (drop (nat (a mod 4)) (to_le 4 (c (a div 4)))) ! j =
      map (\<lambda>j. reg_byte c (a + int j)) [0..<k] ! j"
    using assms j by (simp add: to_le_nth reg_byte_def nat_add_distrib)
qed

definition cfg_request :: "pcie_id \<Rightarrow> int \<Rightarrow> int \<Rightarrow> int \<Rightarrow> tlp" where
  "cfg_request dev tag addr bl = (fst (set_be ((set_fmt_type TLP_CFG_READ_1 tlp_new)
     \<lparr>tlp_requester_id := rc_id, tlp_tag := tag, tlp_dest_id := dev\<rparr>) addr bl))
     \<lparr>tlp_register_number := drop_bit 2 addr\<rparr>"

lemma cfg_request_sel [simp]:
  "fmt_type_of (cfg_request dev tag addr bl) = TLP_CFG_READ_1"
  "tlp_requester_id (cfg_request dev tag addr bl) = rc_id" "tlp_dest_id (cfg_request dev tag addr bl) = dev"
  "tlp_tag (cfg_request dev tag addr bl) = tag" "tlp_th (cfg_request dev tag addr bl) = 0"
  "tlp_register_number (cfg_request dev tag addr bl) = addr div 4"
  by (simp_all add: cfg_request_def set_be_def Let_def fmt_type_of_def set_fmt_type_def tlp_new_def drop_bit_eq_div)

context config_link
begin

lemma read_loop:
  "idle s \<Longrightarrow> \<forall>i. addr \<le> i \<and> i < addr + (len - n) \<longrightarrow> readable s (i div 4) \<Longrightarrow>
   int (length d) = n \<or> len \<le> n \<and> len \<le> int (length d) \<Longrightarrow>
   \<exists>s'. config_read_loop M dev len n addr d s =
      Inr (take (nat len) (d @ map (\<lambda>j. reg_byte (cfg s) (addr + int j)) [0..<nat (len - n)]), s') \<and>
     idle s' \<and> cfg s' = cfg s \<and> readable s' = readable s"
proof (induction "nat (len - n)" arbitrary: n addr d s rule: less_induct)
  case less
  show ?case
  proof (cases "n < len")
    case False
    then show ?thesis using less.prems(1) by (auto simp: config_read_loop.simps)
  next
    case True
    define bl where "bl = io_chunk (len - n) addr"
    have bl: "0 < bl" "bl \<le> len - n" "bl \<le> 4 - addr mod 4" "bl = len - n \<or> bl = 4 - addr mod 4"
      using True by (auto simp: bl_def io_chunk_def)
    obtain tag s1 where s1: "m_free_tag M s = (Some tag, s1)" "0 \<le> tag" "tag < 256" "idle s1" "cfg s1 = cfg s"
      "readable s1 = readable s"
      using free_tag[OF less.prems(1)] by blast
    have "readable s1 (addr div 4)" using less.prems(2) True s1(6) by simp
    then obtain s2 r s3 where s3: "m_send M (cfg_request dev tag addr bl) s1 = Inr s2"
      "m_recv M tag s2 = Inr (r, s3)" "config_value r = Inr (to_le 4 (cfg s (addr div 4)))"
      "idle s3" "cfg s3 = cfg s" "readable s3 = readable s"
      using read[OF s1(4) _ s1(2,3), of "addr div 4" "cfg_request dev tag addr bl"] s1(5,6) by auto
    define w where "w = drop (nat (addr mod 4)) (to_le 4 (cfg s (addr div 4)))"
    have lw: "int (length w) = 4 - addr mod 4" by (simp add: w_def of_nat_diff nat_le_iff)
    have step: "config_read_loop M dev len n addr d s =
        config_read_loop M dev len (n + bl) (addr + bl) (d @ w) s3"
      using True s1(1) s3(1-3)
      by (subst config_read_loop.simps) (simp add: bl_def[symmetric] Let_def cfg_request_def w_def)
    have ld: "int (length d) = n" using less.prems(3) True by auto
    have dec: "nat (len - (n + bl)) < nat (len - n)" using bl True by auto
    have rd: "\<forall>i. addr + bl \<le> i \<and> i < addr + bl + (len - (n + bl)) \<longrightarrow> readable s3 (i div 4)"
      using less.prems(2) bl(1) s3(6) by simp
    have inv: "int (length (d @ w)) = n + bl \<or> len \<le> n + bl \<and> len \<le> int (length (d @ w))"
      using bl lw ld by auto
    obtain s' where s': "config_read_loop M dev len (n + bl) (addr + bl) (d @ w) s3 =
        Inr (take (nat len) ((d @ w) @ map (\<lambda>j. reg_byte (cfg s) (addr + bl + int j)) [0..<nat (len - (n + bl))]), s')"
      "idle s'" "cfg s' = cfg s" "readable s' = readable s"
      using less.hyps[OF dec s3(4) rd inv] unfolding s3(5,6) by blast
    have k: "nat (len - n) = nat bl + nat (len - (n + bl))" using bl by linarith
    have split: "map (\<lambda>j. reg_byte (cfg s) (addr + int j)) [0..<nat (len - n)] =
        take (nat bl) w @ map (\<lambda>j. reg_byte (cfg s) (addr + bl + int j)) [0..<nat (len - (n + bl))]"
      unfolding k w_def using reg_bytes[of "nat bl" addr "cfg s"] bl(1,3)
      by (simp add: upt_split algebra_simps)
    have "take (nat len) ((d @ w) @ map (\<lambda>j. reg_byte (cfg s) (addr + bl + int j)) [0..<nat (len - (n + bl))]) =
        take (nat len) (d @ map (\<lambda>j. reg_byte (cfg s) (addr + int j)) [0..<nat (len - n)])"
    proof (cases "bl = len - n")
      case True
      then have "nat (len - (n + bl)) = 0" "nat len - length d = nat bl" using ld by auto
      then show ?thesis unfolding split by simp
    next
      case False
      then have "length w = nat bl" using bl(4) lw by simp
      then show ?thesis unfolding split by simp
    qed
    then show ?thesis using step s' by (intro exI[of _ s']) simp
  qed
qed

lemma config_read_bytes:
  assumes "idle s" "\<forall>i. addr \<le> i \<and> i < addr + len \<longrightarrow> readable s (i div 4)"
  shows "\<exists>s'. config_read M dev addr len s = Inr (map (\<lambda>j. reg_byte (cfg s) (addr + int j)) [0..<nat len], s') \<and>
    idle s' \<and> cfg s' = cfg s \<and> readable s' = readable s"
  using read_loop[of s addr len 0 "[]"] assms by (auto simp: config_read_def)

lemma dword_bytes: "from_le (map (\<lambda>j. reg_byte c (4 * reg + int j)) [0..<4]) = take_bit 32 (c reg)"
proof -
  have "map (\<lambda>j. reg_byte c (4 * reg + int j)) [0..<4] = to_le 4 (c reg)"
    using reg_bytes[of 4 "4 * reg" c] by simp
  then show ?thesis by (simp add: from_le_to_le)
qed

lemma config_read_dword_reg:
  assumes "idle s" "readable s reg"
  shows "\<exists>s'. config_read_dword M dev (4 * reg) s = Inr (take_bit 32 (cfg s reg), s') \<and>
    idle s' \<and> cfg s' = cfg s \<and> readable s' = readable s"
proof -
  have "i div 4 = reg" if "4 * reg \<le> i" "i < 4 * reg + 4" for i :: int
    using that by linarith
  then have "\<forall>i. 4 * reg \<le> i \<and> i < 4 * reg + 4 \<longrightarrow> readable s (i div 4)" using assms(2) by simp
  from config_read_bytes[OF assms(1) this] obtain s' where
    s': "config_read M dev (4 * reg) 4 s = Inr (map (\<lambda>j. reg_byte (cfg s) (4 * reg + int j)) [0..<nat 4], s')"
    "idle s'" "cfg s' = cfg s" "readable s' = readable s" by blast
  have e: "slice (map (\<lambda>j. reg_byte (cfg s) (4 * reg + int j)) [0..<nat 4]) (nat 4 * 0) (nat 4 * (0 + 1)) =
      map (\<lambda>j. reg_byte (cfg s) (4 * reg + int j)) [0..<4]"
    by (simp add: slice_def)
  show ?thesis
    using s' by (simp add: config_read_dword_def config_read_dwords_def config_read_words_def ws_ok_def
        first_of_def words_of_def e dword_bytes del: upt_rec_numeral)
qed

end

end
