(* ===== verification/PcieBridge.thy ===== *)
theory PcieBridge
  imports PcieRx
begin

text \<open>
  Bridges of \<open>fpga/lib/pcie/tb/pcie.py\<close>: the type 1 configuration header of \<open>Bridge\<close>, the
  routing decisions of \<open>upstream_recv\<close> and \<open>downstream_recv\<close>, and the fan-out of
  \<open>SwitchUpstreamPort.route_downstream_tlp\<close> over the bridges on the internal bus of a switch.
  A routing method returns the packets it hands over and where: to the upstream port, to the
  downstream port, or to the port with an index on the internal bus.
\<close>

unbundle bit_operations_syntax

section \<open>State\<close>

record bridge = pfunction +
  pri_bus_num :: int
  sec_bus_num :: int
  sub_bus_num :: int
  sec_lat_timer :: int
  br_io_base :: int
  br_io_limit :: int
  sec_status :: int
  br_mem_base :: int
  br_mem_limit :: int
  br_pf_mem_base :: int
  br_pf_mem_limit :: int
  bridge_control :: int
  br_root :: bool

text \<open>The constructors. A bridge sends through its own port from the start.\<close>

definition set_device_type :: "int \<Rightarrow> 'a pfunction_scheme \<Rightarrow> 'a pfunction_scheme" where
  "set_device_type v s =
     s\<lparr>fn_pcie := (fn_pcie s)\<lparr>r_hdr := (r_hdr (fn_pcie s))\<lparr>pcie_device_type := v\<rparr>\<rparr>\<rparr>"

definition set_vendor :: "int \<Rightarrow> int \<Rightarrow> 'a pfunction_scheme \<Rightarrow> 'a pfunction_scheme" where
  "set_vendor v d s = s\<lparr>fn_cfg := (fn_cfg s)\<lparr>vendor_id := v, device_id := d\<rparr>\<rparr>"

definition bridge_init :: "bridge result" where
  "bridge_init = bindE pfunction_init (\<lambda>f.
     Inr (set_device_type 0x6 (pfunction.extend
       (f\<lparr>fn_cfg := (fn_cfg f)\<lparr>header_type := 1\<rparr>, bar := replicate 2 0, bar_mask := replicate 2 0,
          upstream_connected := True\<rparr>)
       (bridge.fields 0 0 0 0 0 0x0fff 0 0 0x000fffff 0 0x000fffff 0 False))))"

definition switch_upstream_port_init :: "bridge result" where
  "switch_upstream_port_init =
     bindE bridge_init (\<lambda>s. Inr (set_vendor 0x1234 0x0003 (set_device_type 0x5 s)))"

definition switch_downstream_port_init :: "bridge result" where
  "switch_downstream_port_init =
     bindE bridge_init (\<lambda>s. Inr (set_vendor 0x1234 0x0004 (set_device_type 0x6 s)))"

definition host_bridge_init :: "bridge result" where
  "host_bridge_init =
     bindE switch_upstream_port_init (\<lambda>s.
       Inr ((set_vendor 0x1234 0x0001 s)\<lparr>pri_bus_num := 0, sec_bus_num := 0, sub_bus_num := 255\<rparr>))"

definition root_port_init :: "bridge result" where
  "root_port_init =
     bindE switch_downstream_port_init (\<lambda>s.
       Inr (set_vendor 0x1234 0x0002 (set_device_type 0x4 s)))"

section \<open>Type 1 configuration space\<close>

definition read_bridge_register :: "'a bridge_scheme \<Rightarrow> int \<Rightarrow> int option result" where
  "read_bridge_register s reg =
     (if reg = 4 then bindE (py_nth (bar s) 0) (\<lambda>b. Inr (Some b))
      else if reg = 5 then bindE (py_nth (bar s) 1) (\<lambda>b. Inr (Some b))
      else if reg = 6 then
        Inr (Some (push_bit 24 (sec_lat_timer s) OR push_bit 16 (sub_bus_num s) OR
                   push_bit 8 (sec_bus_num s) OR pri_bus_num s))
      else if reg = 7 then
        Inr (Some (push_bit 16 (sec_status s) OR (br_io_limit s AND 0xf000) OR
                   drop_bit 8 (br_io_base s AND 0xf000)))
      else if reg = 8 then
        Inr (Some ((br_mem_limit s AND 0xfff00000) OR drop_bit 16 (br_mem_base s AND 0xfff00000)))
      else if reg = 9 then
        Inr (Some ((br_pf_mem_limit s AND 0xfff00000) OR drop_bit 16 (br_pf_mem_base s AND 0xfff00000)))
      else if reg = 10 then Inr (Some (drop_bit 32 (br_pf_mem_base s)))
      else if reg = 11 then Inr (Some (drop_bit 32 (br_pf_mem_limit s)))
      else if reg = 12 then
        Inr (Some ((br_io_limit s AND 0xffff0000) OR drop_bit 16 (br_io_base s AND 0xffff0000)))
      else if reg = 13 then Inr (Some (cap_ptr (fn_cfg s)))
      else if reg = 14 then Inr (Some (expansion_rom_addr (fn_cfg s)))
      else if reg = 15 then
        Inr (Some (push_bit 16 (bridge_control s) OR push_bit 8 (intr_pin (fn_cfg s)) OR
                   intr_line (fn_cfg s)))
      else read_common_register s reg)"

text \<open>Register 15 reads an attribute that no class defines, after it has updated the interrupt
  fields; register 4 also runs the chain of the others, which leaves it alone.\<close>

definition write_bridge_register ::
  "int \<Rightarrow> int \<Rightarrow> int \<Rightarrow> 'a bridge_scheme \<Rightarrow> 'a bridge_scheme result" where
  "write_bridge_register reg dat msk s =
     (if reg = 4 then bindE (write_bar 0 dat msk s) (write_common_register reg dat msk)
      else if reg = 5 then write_bar 1 dat msk s
      else if reg = 6 then
        Inr (s\<lparr>pri_bus_num := byte_mask_update (pri_bus_num s) (msk AND 1) dat (-1),
               sec_bus_num := byte_mask_update (sec_bus_num s) (drop_bit 1 msk AND 1) (drop_bit 8 dat) (-1),
               sub_bus_num := byte_mask_update (sub_bus_num s) (drop_bit 2 msk AND 1) (drop_bit 16 dat) (-1),
               sec_lat_timer := byte_mask_update (sec_lat_timer s) (drop_bit 3 msk AND 1) (drop_bit 24 dat) (-1)\<rparr>)
      else if reg = 7 then
        Inr (s\<lparr>br_io_base := byte_mask_update (br_io_base s) (push_bit 1 (msk AND 0x1)) (push_bit 8 dat) 0xf000,
               br_io_limit := byte_mask_update (br_io_limit s) (msk AND 0x2) dat 0xf000 OR 0xfff,
               sec_status := byte_mask_update (sec_status s) (drop_bit 2 msk AND 1) 0
                               (drop_bit 16 dat AND 0xf900)\<rparr>)
      else if reg = 8 then
        Inr (s\<lparr>br_mem_base := byte_mask_update (br_mem_base s) (push_bit 2 (msk AND 0x3)) (push_bit 16 dat) 0xfff00000,
               br_mem_limit := byte_mask_update (br_mem_limit s) (msk AND 0xc) dat 0xfff00000 OR 0xfffff\<rparr>)
      else if reg = 9 then
        Inr (s\<lparr>br_pf_mem_base := byte_mask_update (br_pf_mem_base s) (push_bit 2 (msk AND 0x3)) (push_bit 16 dat) 0xfff00000,
               br_pf_mem_limit := byte_mask_update (br_pf_mem_limit s) (msk AND 0xc) dat 0xfff00000 OR 0xfffff\<rparr>)
      else if reg = 10 then
        Inr (s\<lparr>br_pf_mem_base := byte_mask_update (br_pf_mem_base s) (push_bit 4 msk) (push_bit 32 dat) (-1)\<rparr>)
      else if reg = 11 then
        Inr (s\<lparr>br_pf_mem_limit := byte_mask_update (br_pf_mem_limit s) (push_bit 4 msk) (push_bit 32 dat) (-1)\<rparr>)
      else if reg = 12 then
        Inr (s\<lparr>br_io_base := byte_mask_update (br_io_base s) (push_bit 2 (msk AND 0x3)) (push_bit 16 dat) (-1),
               br_io_limit := byte_mask_update (br_io_limit s) (msk AND 0xc) dat (-1)\<rparr>)
      else if reg = 14 then
        Inr (s\<lparr>fn_cfg := (fn_cfg s)\<lparr>expansion_rom_addr :=
          byte_mask_update (expansion_rom_addr (fn_cfg s)) msk dat (-1)\<rparr>\<rparr>)
      else if reg = 15 then Inl AttributeError
      else write_common_register reg dat msk s)"

section \<open>Routing\<close>

datatype bridge_out = ToUpstream tlp | ToDownstream tlp | ToPort nat tlp

definition is_msg_id_type :: "fmt_type \<Rightarrow> bool" where
  "is_msg_id_type v \<longleftrightarrow> v = TLP_MSG_ID \<or> v = TLP_MSG_DATA_ID"

definition is_mem_rw_type :: "fmt_type \<Rightarrow> bool" where
  "is_mem_rw_type v \<longleftrightarrow>
     v = TLP_MEM_READ \<or> v = TLP_MEM_READ_64 \<or> v = TLP_MEM_WRITE \<or> v = TLP_MEM_WRITE_64"

definition on_secondary :: "'a bridge_scheme \<Rightarrow> pcie_id \<Rightarrow> bool" where
  "on_secondary s i \<longleftrightarrow> sec_bus_num s \<le> pid_bus i \<and> pid_bus i \<le> sub_bus_num s"

definition in_io_window :: "'a bridge_scheme \<Rightarrow> int \<Rightarrow> bool" where
  "in_io_window s a \<longleftrightarrow> br_io_base s \<le> a \<and> a \<le> br_io_limit s"

definition in_mem_window :: "'a bridge_scheme \<Rightarrow> int \<Rightarrow> bool" where
  "in_mem_window s a \<longleftrightarrow> br_mem_base s \<le> a \<and> a \<le> br_mem_limit s \<or>
     br_pf_mem_base s \<le> a \<and> a \<le> br_pf_mem_limit s"

lemma mem_rw_cases:
  "is_mem_rw_type f \<Longrightarrow> f \<noteq> TLP_CFG_READ_0 \<and> f \<noteq> TLP_CFG_WRITE_0 \<and> f \<noteq> TLP_CFG_READ_1 \<and>
     f \<noteq> TLP_CFG_WRITE_1 \<and> \<not> is_cfg_type f \<and> \<not> is_cpl_type f \<and> \<not> is_msg_id_type f \<and> \<not> is_io_type f"
  by (auto simp: is_mem_rw_type_def is_cfg_type_def is_cpl_type_def is_msg_id_type_def is_io_type_def)

text \<open>\<open>upstream_send\<close> of a bridge always has a handler.\<close>

definition bridge_upstream_send :: "tlp \<Rightarrow> bridge_out list result" where
  "bridge_upstream_send t = bindE (assertE (tlp_check t)) (\<lambda>_. Inr [ToUpstream t])"

text \<open>\<open>Bridge.route_downstream_tlp\<close> and \<open>downstream_send\<close>.\<close>

definition bridge_route :: "tlp \<Rightarrow> bool \<Rightarrow> 'a bridge_scheme \<Rightarrow> bridge_out list result" where
  "bridge_route t from_downstream s = bindE (assertE (tlp_check t)) (\<lambda>_. Inr [ToDownstream t])"

type_synonym 'a router = "tlp \<Rightarrow> bool \<Rightarrow> 'a bridge_scheme \<Rightarrow> bridge_out list result"
type_synonym 'a routed = "('a bridge_scheme \<times> bridge_out list) result"

definition keep :: "'a bridge_scheme \<Rightarrow> bridge_out list result \<Rightarrow> 'a routed" where
  "keep s r = bindE r (\<lambda>out. Inr (s, out))"

definition bridge_handler ::
  "rx_handler \<Rightarrow> tlp \<Rightarrow> 'a bridge_scheme \<Rightarrow> ('a bridge_scheme \<times> tlp list) result" where
  "bridge_handler h t s =
     (case h of HandleConfig0 \<Rightarrow> handle_config_0_tlp read_bridge_register write_bridge_register t s
      | _ \<Rightarrow> Inl AttributeError)"

text \<open>A packet for the bridge itself that arrives from below is a completion to queue, or has
  no handler: nothing is sent for it.\<close>

definition bridge_for_me :: "tlp \<Rightarrow> 'a bridge_scheme \<Rightarrow> 'a routed" where
  "bridge_for_me t s = bindE (handle_tlp bridge_handler t s) (\<lambda>(s', out). Inr (s', map ToUpstream out))"

definition bridge_downstream_recv :: "'a router \<Rightarrow> tlp \<Rightarrow> 'a bridge_scheme \<Rightarrow> 'a routed" where
  "bridge_downstream_recv route t s = bindE (assertE (tlp_check t)) (\<lambda>_.
     let f = fmt_type_of t;
         by_id = (\<lambda>i.
           if \<not> br_root s \<and> i = get_id s then bridge_for_me t s
           else if on_secondary s i then
             if br_root s \<and> pid_bus i = pri_bus_num s \<and> pid_device i = 0
             then keep s (bridge_upstream_send t)
             else keep s (route t True s)
           else keep s (bridge_upstream_send t));
         by_addr = (\<lambda>io window. bindE (match_bar s (tlp_address t) io) (\<lambda>m.
           if m \<noteq> [] then bridge_for_me t s
           else if window then keep s (route t True s)
           else keep s (bridge_upstream_send t)))
     in if is_cfg_type f then Inr (s, [])
        else if is_cpl_type f then by_id (tlp_requester_id t)
        else if is_msg_id_type f then by_id (tlp_dest_id t)
        else if is_io_type f then by_addr True (in_io_window s (tlp_address t))
        else if is_mem_rw_type f then by_addr False (in_mem_window s (tlp_address t))
        else if f = TLP_MSG_TO_RC \<or> f = TLP_MSG_DATA_TO_RC then keep s (bridge_upstream_send t)
        else if f = TLP_MSG_BCAST \<or> f = TLP_MSG_DATA_BCAST then Inr (s, [])
        else if f = TLP_MSG_LOCAL \<or> f = TLP_MSG_DATA_LOCAL then Inr (s, [])
        else if f = TLP_MSG_GATHER \<or> f = TLP_MSG_DATA_GATHER then Inl (PyException ''TODO'')
        else Inl (PyException ''Unknown/invalid packet type''))"

text \<open>\<open>Bridge.send\<close>: what the bridge itself sends is routed as if it came from below.\<close>

fun bridge_send_all :: "'a router \<Rightarrow> tlp list \<Rightarrow> 'a bridge_scheme \<Rightarrow> 'a routed" where
  "bridge_send_all route [] s = Inr (s, [])"
| "bridge_send_all route (t # ts) s =
     bindE (bridge_downstream_recv route t s) (\<lambda>(s1, out).
       bindE (bridge_send_all route ts s1) (\<lambda>(s2, out'). Inr (s2, out @ out')))"

definition bridge_handle_tlp :: "'a router \<Rightarrow> tlp \<Rightarrow> 'a bridge_scheme \<Rightarrow> 'a routed" where
  "bridge_handle_tlp route t s =
     bindE (handle_tlp bridge_handler t s) (\<lambda>(s', out). bridge_send_all route out s')"

text \<open>A type 1 request for the secondary bus itself becomes a type 0 request.\<close>

definition retarget :: "'a bridge_scheme \<Rightarrow> tlp \<Rightarrow> tlp" where
  "retarget s t =
     (if pid_bus (tlp_dest_id t) = sec_bus_num s then
        if fmt_type_of t = TLP_CFG_READ_1 then set_fmt_type TLP_CFG_READ_0 t
        else if fmt_type_of t = TLP_CFG_WRITE_1 then set_fmt_type TLP_CFG_WRITE_0 t
        else t
      else t)"

definition bridge_upstream_recv :: "'a router \<Rightarrow> tlp \<Rightarrow> 'a bridge_scheme \<Rightarrow> 'a routed" where
  "bridge_upstream_recv route t s = bindE (assertE (tlp_check t)) (\<lambda>_.
     let f = fmt_type_of t;
         by_id = (\<lambda>i.
           if \<not> br_root s \<and> i = get_id s then bridge_handle_tlp route t s
           else if on_secondary s i then keep s (route t False s)
           else Inr (s, []));
         by_addr = (\<lambda>io window. bindE (match_bar s (tlp_address t) io) (\<lambda>m.
           if m \<noteq> [] then bridge_handle_tlp route t s
           else if window then keep s (route t False s)
           else Inr (s, [])))
     in if f = TLP_CFG_READ_0 \<or> f = TLP_CFG_WRITE_0 then bridge_handle_tlp route t s
        else if f = TLP_CFG_READ_1 \<or> f = TLP_CFG_WRITE_1 then
          if on_secondary s (tlp_dest_id t) then keep s (route (retarget s t) False s)
          else Inr (s, [])
        else if is_cpl_type f then by_id (tlp_requester_id t)
        else if is_msg_id_type f then by_id (tlp_dest_id t)
        else if is_io_type f then by_addr True (in_io_window s (tlp_address t))
        else if is_mem_rw_type f then by_addr False (in_mem_window s (tlp_address t))
        else if f = TLP_MSG_TO_RC \<or> f = TLP_MSG_DATA_TO_RC then Inr (s, [])
        else if f = TLP_MSG_BCAST \<or> f = TLP_MSG_DATA_BCAST then keep s (route t False s)
        else if f = TLP_MSG_LOCAL \<or> f = TLP_MSG_DATA_LOCAL then Inr (s, [])
        else if f = TLP_MSG_GATHER \<or> f = TLP_MSG_DATA_GATHER then Inr (s, [])
        else Inl (PyException ''Unknown/invalid packet type''))"

section \<open>Switches\<close>

text \<open>What the loop over the internal bus does with one bridge on it: take the packet and stop,
  take it and go on, or skip. Identifier-routed messages compare the requester, not the
  destination, with the bus range of the port.\<close>

datatype verdict = Take | TakeOn | Skip

definition port_verdict :: "tlp \<Rightarrow> 'b bridge_scheme \<Rightarrow> verdict result" where
  "port_verdict t dev =
     (let f = fmt_type_of t;
          yes = (\<lambda>b. if b then Take else Skip)
      in if f = TLP_CFG_READ_0 \<or> f = TLP_CFG_WRITE_0 then
           Inr (yes (pid_device (tlp_dest_id t) = device_num dev \<and>
                     pid_function (tlp_dest_id t) = function_num dev))
         else if f = TLP_CFG_READ_1 \<or> f = TLP_CFG_WRITE_1 then Inr (yes (on_secondary dev (tlp_dest_id t)))
         else if is_cpl_type f then
           Inr (yes (tlp_requester_id t = get_id dev \<or> on_secondary dev (tlp_requester_id t)))
         else if is_msg_id_type f then
           Inr (yes (tlp_dest_id t = get_id dev \<or> on_secondary dev (tlp_requester_id t)))
         else if is_io_type f then
           bindE (match_bar dev (tlp_address t) True) (\<lambda>m.
             Inr (yes (m \<noteq> [] \<or> in_io_window dev (tlp_address t))))
         else if is_mem_rw_type f then
           bindE (match_bar dev (tlp_address t) False) (\<lambda>m.
             Inr (yes (m \<noteq> [] \<or> in_mem_window dev (tlp_address t))))
         else if f = TLP_MSG_TO_RC \<or> f = TLP_MSG_DATA_TO_RC then Inr Skip
         else if f = TLP_MSG_BCAST \<or> f = TLP_MSG_DATA_BCAST then Inr TakeOn
         else if f = TLP_MSG_LOCAL \<or> f = TLP_MSG_DATA_LOCAL then Inr Skip
         else if f = TLP_MSG_GATHER \<or> f = TLP_MSG_DATA_GATHER then Inr Skip
         else Inl (PyException ''Unknown/invalid packet type''))"

fun port_loop :: "tlp \<Rightarrow> nat \<Rightarrow> 'b bridge_scheme list \<Rightarrow> (bridge_out list \<times> bool) result" where
  "port_loop t k [] = Inr ([], False)"
| "port_loop t k (p # ps) = bindE (port_verdict t p) (\<lambda>v.
     case v of
       Take \<Rightarrow> Inr ([ToPort k (tlp_copy t)], True)
     | TakeOn \<Rightarrow> bindE (port_loop t (k + 1) ps) (\<lambda>(out, _). Inr (ToPort k (tlp_copy t) # out, True))
     | Skip \<Rightarrow> port_loop t (k + 1) ps)"

definition switch_ur :: "tlp \<Rightarrow> 'a bridge_scheme \<Rightarrow> tlp" where
  "switch_ur t s = set_ur_completion tlp_new t (mk_id (bus_num s) (device_num s) 0)"

text \<open>A packet no port takes is answered; the answer to one from below is routed down first.\<close>

definition switch_route_down :: "'b bridge_scheme list \<Rightarrow> tlp \<Rightarrow> 'a bridge_scheme \<Rightarrow> bridge_out list result" where
  "switch_route_down ps t s = bindE (assertE (tlp_check t)) (\<lambda>_.
     bindE (port_loop t 0 ps) (\<lambda>(out, ok).
       if ok then Inr out else bridge_upstream_send (switch_ur t s)))"

definition switch_route :: "'b bridge_scheme list \<Rightarrow> 'a router" where
  "switch_route ps t from_downstream s =
     (if from_downstream then bindE (assertE (tlp_check t)) (\<lambda>_.
        bindE (port_loop t 0 ps) (\<lambda>(out, ok).
          if ok then Inr out else switch_route_down ps (switch_ur t s) s))
      else switch_route_down ps t s)"

end
