(* ===== verification/PcieDevice.thy ===== *)
theory PcieDevice
  imports PcieBridge
begin

text \<open>
  Containers and links of \<open>fpga/lib/pcie/tb/pcie.py\<close>: \<open>Device\<close>, which hands packets from its
  port to its functions, the numbering of functions and of the devices of a \<open>Switch\<close>, and
  \<open>Port\<close> and \<open>BusPort\<close>, whose transmit queue keeps the order of packets.
\<close>

unbundle bit_operations_syntax

section \<open>Numbering\<close>

text \<open>\<open>sort(key=...)\<close> is stable; \<open>key\<close> is the number.\<close>

fun first_gap :: "int \<Rightarrow> int list \<Rightarrow> int option" where
  "first_gap x [] = None"
| "first_gap x (k # ks) = (if k \<noteq> x then Some x else first_gap (x + 1) ks)"

definition next_free_function_number :: "'a pfunction_scheme list \<Rightarrow> int option" where
  "next_free_function_number fs =
     (let ks = map function_num (sort_key function_num fs)
      in case first_gap 0 ks of
           Some x \<Rightarrow> Some x
         | None \<Rightarrow> if length fs < 8 then Some (int (length fs)) else None)"

definition set_multifunction :: "'a pfunction_scheme \<Rightarrow> 'a pfunction_scheme" where
  "set_multifunction f =
     f\<lparr>fn_cfg := (fn_cfg f)\<lparr>header_type := header_type (fn_cfg f) OR 0x80\<rparr>\<rparr>"

record 'f device =
  dev_bus_num :: int
  dev_device_num :: int
  dev_functions :: "'f list"

definition device_init :: "'f device" where
  "device_init = \<lparr>dev_bus_num = 0, dev_device_num = 0, dev_functions = []\<rparr>"

definition add_function ::
  "'a pfunction_scheme \<Rightarrow> ('a pfunction_scheme) device \<Rightarrow> ('a pfunction_scheme) device result" where
  "add_function f d =
     (if \<exists>g \<in> set (dev_functions d). function_num g = function_num f
      then Inl (PyException ''Function number already in use'')
      else let fs = sort_key function_num (dev_functions d @ [f\<lparr>upstream_connected := True\<rparr>])
           in Inr (d\<lparr>dev_functions := (if length fs > 1 then map set_multifunction fs else fs)\<rparr>))"

text \<open>Without a free number the attribute becomes \<open>None\<close>, which the sort cannot compare.\<close>

definition append_function ::
  "'a pfunction_scheme \<Rightarrow> ('a pfunction_scheme) device \<Rightarrow> ('a pfunction_scheme) device result" where
  "append_function f d =
     (case next_free_function_number (dev_functions d) of
        None \<Rightarrow> Inl TypeError
      | Some n \<Rightarrow> add_function (f\<lparr>function_num := n\<rparr>)
                   (d\<lparr>dev_functions := sort_key function_num (dev_functions d)\<rparr>))"

text \<open>\<open>Switch.next_free_device_number\<close> over the endpoints, given by their device and function
  numbers; \<open>Switch.add_endpoint\<close> and \<open>append_endpoint\<close>.\<close>

fun device_gap :: "int \<Rightarrow> int list \<Rightarrow> int option" where
  "device_gap d [] = (if d < 32 then Some d else None)"
| "device_gap d (k # ks) = (if k > d then Some d else device_gap (k + 1) ks)"

definition next_free_device_number :: "int \<Rightarrow> 'a pfunction_scheme list \<Rightarrow> int option" where
  "next_free_device_number min_dev eps =
     (if eps = [] then Some min_dev
      else device_gap min_dev
        (map device_num (sort_key device_num (sort_key function_num eps))))"

definition append_endpoint :: "'a pfunction_scheme \<Rightarrow> 'a pfunction_scheme list \<Rightarrow> 'a pfunction_scheme list" where
  "append_endpoint ep eps =
     sort_key device_num (sort_key function_num (eps @ [ep\<lparr>upstream_connected := True\<rparr>]))"

definition add_endpoint ::
  "int \<Rightarrow> 'a pfunction_scheme \<Rightarrow> 'a pfunction_scheme list \<Rightarrow> 'a pfunction_scheme list result" where
  "add_endpoint min_dev ep eps =
     (case next_free_device_number min_dev eps of
        None \<Rightarrow> Inl TypeError
      | Some d \<Rightarrow> Inr (append_endpoint (ep\<lparr>bus_num := 0, device_num := d, function_num := 0\<rparr>)
                    (sort_key device_num (sort_key function_num eps))))"

text \<open>\<open>Switch.make_port\<close>: a bridge of the default class, numbered as an endpoint.\<close>

definition make_port :: "int \<Rightarrow> bridge result \<Rightarrow> bridge list \<Rightarrow> bridge list result" where
  "make_port min_dev new eps = bindE new (\<lambda>p.
     add_endpoint min_dev (p\<lparr>pri_bus_num := 0, sec_bus_num := 0, sub_bus_num := 0\<rparr>) eps)"

section \<open>Packets of a device\<close>

definition device_ur :: "tlp \<Rightarrow> 'f device \<Rightarrow> tlp" where
  "device_ur t d = set_ur_completion tlp_new t (mk_id (dev_bus_num d) (dev_device_num d) 0)"

definition device_upstream_send :: "tlp \<Rightarrow> tlp list result" where
  "device_upstream_send t = bindE (assertE (tlp_check t)) (\<lambda>_. Inr [t])"

text \<open>The first function that satisfies the test takes the packet.\<close>

fun give_first ::
  "('f \<Rightarrow> bool result) \<Rightarrow> ('f \<Rightarrow> ('f \<times> tlp list) result) \<Rightarrow> 'f list \<Rightarrow> ('f list \<times> tlp list) option result" where
  "give_first P run [] = Inr None"
| "give_first P run (f # fs) = bindE (P f) (\<lambda>b.
     if b then bindE (run f) (\<lambda>(f', out). Inr (Some (f' # fs, out)))
     else bindE (give_first P run fs) (\<lambda>r. Inr (map_option (\<lambda>(fs', out). (f # fs', out)) r)))"

definition device_upstream_recv ::
  "(tlp \<Rightarrow> 'a pfunction_scheme \<Rightarrow> ('a pfunction_scheme \<times> tlp list) result) \<Rightarrow>
   tlp \<Rightarrow> ('a pfunction_scheme) device \<Rightarrow> (('a pfunction_scheme) device \<times> tlp list) result" where
  "device_upstream_recv recv t d = bindE (assertE (tlp_check t)) (\<lambda>_.
     let f = fmt_type_of t;
         give = (\<lambda>P d otherwise. bindE (give_first P (recv t) (dev_functions d)) (\<lambda>r.
           case r of
             Some (fs, out) \<Rightarrow> Inr (d\<lparr>dev_functions := fs\<rparr>, out)
           | None \<Rightarrow> bindE otherwise (\<lambda>out. Inr (d, out))))
     in if f = TLP_CFG_READ_0 \<or> f = TLP_CFG_WRITE_0 then
          if pid_device (tlp_dest_id t) = dev_device_num d then
            let d1 = d\<lparr>dev_bus_num := pid_bus (tlp_dest_id t),
                       dev_functions := map (\<lambda>g. g\<lparr>bus_num := pid_bus (tlp_dest_id t)\<rparr>) (dev_functions d)\<rparr>
            in give (\<lambda>g. Inr (function_num g = pid_function (tlp_dest_id t))) d1
                 (device_upstream_send (device_ur t d1))
          else bindE (device_upstream_send (device_ur t d)) (\<lambda>out. Inr (d, out))
        else if is_cpl_type f then
          if pid_bus (tlp_requester_id t) = dev_bus_num d \<and> pid_device (tlp_requester_id t) = dev_device_num d
          then give (\<lambda>g. Inr (function_num g = pid_function (tlp_requester_id t))) d (Inr [])
          else Inr (d, [])
        else if is_io_type f then
          give (\<lambda>g. bindE (match_bar g (tlp_address t) True) (\<lambda>m. Inr (m \<noteq> []))) d
            (device_upstream_send (device_ur t d))
        else if is_mem_rw_type f then
          give (\<lambda>g. bindE (match_bar g (tlp_address t) False) (\<lambda>m. Inr (m \<noteq> []))) d
            (if f = TLP_MEM_READ \<or> f = TLP_MEM_READ_64
             then device_upstream_send (device_ur t d) else Inr [])
        else Inl (PyException ''TODO''))"

section \<open>Ports\<close>

text \<open>A port with its transmit queue. \<open>port_wire\<close> holds the packets between \<open>transmit\<close> and
  \<open>_transmit\<close>, oldest first; the simulator's delays only decide when the steps happen.\<close>

record port =
  port_queue :: "tlp list"
  port_scheduled :: bool
  port_wire :: "tlp list"
  port_peers :: nat
  max_speed :: int
  max_width :: int
  port_delay :: int
  cur_speed :: int
  cur_width :: int
  link_delay :: int

definition port_init :: port where
  "port_init = \<lparr>port_queue = [], port_scheduled = False, port_wire = [], port_peers = 0,
     max_speed = 3, max_width = 16, port_delay = 5, cur_speed = 1, cur_width = 1, link_delay = 0\<rparr>"

text \<open>One side of \<open>_connect\<close>; an ordinary port has one peer, a bus port any number.\<close>

definition port_connect_int :: "bool \<Rightarrow> port \<Rightarrow> port \<Rightarrow> port result" where
  "port_connect_int bus p q =
     (if \<not> bus \<and> port_peers p \<noteq> 0 then Inl (PyException ''Already connected'')
      else Inr (p\<lparr>port_peers := port_peers p + 1,
                  cur_speed := min (max_speed p) (max_speed q),
                  cur_width := min (max_width p) (max_width q),
                  link_delay := port_delay p + port_delay q\<rparr>))"

definition port_connect :: "bool \<Rightarrow> bool \<Rightarrow> port \<Rightarrow> port \<Rightarrow> (port \<times> port) result" where
  "port_connect bus busq p q =
     (if \<not> bus \<and> port_peers p \<noteq> 0 then Inl (PyException ''Already connected'')
      else bindE (port_connect_int busq q p) (\<lambda>q'.
             bindE (port_connect_int bus p q') (\<lambda>p'. Inr (p', q'))))"

definition port_send :: "tlp \<Rightarrow> port \<Rightarrow> port" where
  "port_send t p = p\<lparr>port_queue := port_queue p @ [t], port_scheduled := True\<rparr>"

definition port_transmit :: "port \<Rightarrow> port" where
  "port_transmit p =
     (case port_queue p of
        [] \<Rightarrow> p\<lparr>port_scheduled := False\<rparr>
      | t # ts \<Rightarrow> p\<lparr>port_queue := ts, port_wire := port_wire p @ [t]\<rparr>)"

text \<open>\<open>_transmit\<close>: the oldest packet on the wire reaches the peer, or, on a bus, a copy of it
  every peer.\<close>

definition port_arrive :: "bool \<Rightarrow> port \<Rightarrow> (tlp list \<times> port) option result" where
  "port_arrive bus p =
     (case port_wire p of
        [] \<Rightarrow> Inr None
      | t # ts \<Rightarrow>
          if port_peers p = 0 then Inl (PyException ''Port not connected'')
          else Inr (Some (replicate (port_peers p) (if bus then tlp_copy t else t), p\<lparr>port_wire := ts\<rparr>)))"

section \<open>The link is a queue\<close>

datatype port_step = Send tlp | Transmit | Arrive

fun port_steps :: "bool \<Rightarrow> port_step list \<Rightarrow> port \<Rightarrow> (tlp list list \<times> port) result" where
  "port_steps bus [] p = Inr ([], p)"
| "port_steps bus (x # xs) p =
     (case x of
        Send t \<Rightarrow> port_steps bus xs (port_send t p)
      | Transmit \<Rightarrow> port_steps bus xs (port_transmit p)
      | Arrive \<Rightarrow> bindE (port_arrive bus p) (\<lambda>r.
          case r of
            None \<Rightarrow> port_steps bus xs p
          | Some (ts, p') \<Rightarrow> bindE (port_steps bus xs p') (\<lambda>(tss, p''). Inr (ts # tss, p''))))"

definition sent :: "port_step list \<Rightarrow> tlp list" where
  "sent xs = concat (map (\<lambda>x. case x of Send t \<Rightarrow> [t] | _ \<Rightarrow> []) xs)"

lemma sent_simps [simp]: "sent [] = []" "sent (Send t # xs) = t # sent xs"
  "sent (Transmit # xs) = sent xs" "sent (Arrive # xs) = sent xs"
  by (simp_all add: sent_def)



section \<open>Free numbers\<close>

lemma first_gap_spec:
  assumes "sorted_wrt (<) ks" "\<forall>k \<in> set ks. x \<le> k"
  shows "case first_gap x ks of
      Some y \<Rightarrow> x \<le> y \<and> y \<notin> set ks \<and> (\<forall>z. x \<le> z \<and> z < y \<longrightarrow> z \<in> set ks) \<and> y < x + int (length ks)
    | None \<Rightarrow> set ks = {x..<x + int (length ks)}"
  using assms
proof (induction ks arbitrary: x)
  case (Cons k ks)
  show ?case
  proof (cases "k = x")
    case True
    then have "\<forall>k \<in> set ks. x + 1 \<le> k" using Cons.prems by auto
    then have IH: "case first_gap (x + 1) ks of
        Some y \<Rightarrow> x + 1 \<le> y \<and> y \<notin> set ks \<and> (\<forall>z. x + 1 \<le> z \<and> z < y \<longrightarrow> z \<in> set ks) \<and>
          y < x + 1 + int (length ks)
      | None \<Rightarrow> set ks = {x + 1..<x + 1 + int (length ks)}"
      using Cons.IH[of "x + 1"] Cons.prems(1) by simp
    have "x \<le> z \<longleftrightarrow> z = x \<or> x + 1 \<le> z" for z by linarith
    with IH True show ?thesis by (cases "first_gap (x + 1) ks") auto
  next
    case False
    then have "x < k" using Cons.prems(2) by auto
    then show ?thesis using False Cons.prems(1) by auto
  qed
qed simp

lemma sorted_distinct_strict: "sorted ks \<Longrightarrow> distinct ks \<Longrightarrow> sorted_wrt (<) (ks :: int list)"
  by (simp add: sorted_wrt_iff_nth_less sorted_iff_nth_mono_less nth_eq_iff_index_eq order.strict_iff_order)

text \<open>\<open>next_free_function_number\<close> returns the least number from 0 to 7 that no
  function of the device uses, and nothing exactly when all eight are in use.\<close>

theorem next_function_least:
  assumes "distinct (map function_num fs)" "\<forall>f \<in> set fs. 0 \<le> function_num f \<and> function_num f < 8"
  shows "case next_free_function_number fs of
      Some n \<Rightarrow> 0 \<le> n \<and> n < 8 \<and> n \<notin> function_num ` set fs \<and>
        (\<forall>m. 0 \<le> m \<and> m < n \<longrightarrow> m \<in> function_num ` set fs)
    | None \<Rightarrow> function_num ` set fs = {0..<8}"
proof -
  define ks where "ks = map function_num (sort_key function_num fs)"
  have ks: "set ks = function_num ` set fs" "length ks = length fs" "sorted ks" "distinct ks"
    using assms(1) by (simp_all add: ks_def distinct_map)
  have range: "set ks \<subseteq> {0..<8}" using assms(2) ks(1) by auto
  then have len: "length ks \<le> 8"
    using card_mono[OF _ range] distinct_card[OF ks(4)] by simp
  have spec: "case first_gap 0 ks of
      Some y \<Rightarrow> 0 \<le> y \<and> y \<notin> set ks \<and> (\<forall>z. 0 \<le> z \<and> z < y \<longrightarrow> z \<in> set ks) \<and> y < int (length ks)
    | None \<Rightarrow> set ks = {0..<int (length ks)}"
  proof -
    have "\<forall>k \<in> set ks. 0 \<le> k" using range by auto
    from first_gap_spec[OF sorted_distinct_strict[OF ks(3,4)] this] show ?thesis unfolding add_0 .
  qed
  show ?thesis
  proof (cases "first_gap 0 ks")
    case None
    then have "set ks = {0..<int (length fs)}" using spec ks(2) by simp
    then show ?thesis
      using None len ks unfolding next_free_function_number_def ks_def[symmetric] by auto
  next
    case (Some y)
    then show ?thesis
      using spec len ks unfolding next_free_function_number_def ks_def[symmetric] by auto
  qed
qed

theorem next_function_least_witness:
  "next_free_function_number [pfunction_blank\<lparr>function_num := 1\<rparr>, pfunction_blank] = Some 2 \<and>
   2 \<notin> function_num ` set [pfunction_blank\<lparr>function_num := 1\<rparr>, pfunction_blank]"
  using next_function_least[of "[pfunction_blank\<lparr>function_num := 1\<rparr>, pfunction_blank]"]
  by (simp add: next_free_function_number_def pfunction_blank_def)

end
