(* ===== verification/PcieEndpoint.thy ===== *)
theory PcieEndpoint
  imports PcieRx MemAccess
begin

text \<open>
  The memory endpoint of \<open>fpga/lib/pcie/tb/pcie.py\<close> (\<open>MemoryEndpoint\<close>): regions behind the
  base address registers, the four request handlers, and the dispatch of received packets.
  A region is a byte array or a pair of callbacks; the callbacks are not code of the class,
  so reading through one is a parameter \<open>cb\<close> of the operations (it may return nothing).
\<close>

unbundle bit_operations_syntax

section \<open>State and regions\<close>

datatype region = NoRegion | RegArr bytes | RegFun nat

record mem_endpoint = endpoint +
  regions :: "region list"
  bar_ptr :: nat

definition mem_endpoint_init :: "mem_endpoint result" where
  "mem_endpoint_init = bindE endpoint_init (\<lambda>e.
     Inr (endpoint.extend
       (e\<lparr>rx_tlp_handler := (rx_tlp_handler e)(
            TLP_IO_READ := Some HandleIoRead, TLP_IO_WRITE := Some HandleIoWrite,
            TLP_MEM_READ := Some HandleMemRead, TLP_MEM_READ_64 := Some HandleMemRead,
            TLP_MEM_WRITE := Some HandleMemWrite, TLP_MEM_WRITE_64 := Some HandleMemWrite)\<rparr>)
       (mem_endpoint.fields (replicate 6 NoRegion) 0)))"

definition add_region ::
  "(int \<Rightarrow> nat) \<Rightarrow> int \<Rightarrow> nat option \<Rightarrow> bool \<Rightarrow> bool \<Rightarrow> bool \<Rightarrow>
   'a mem_endpoint_scheme \<Rightarrow> 'a mem_endpoint_scheme result" where
  "add_region lg sz f ext prefetch io s =
     (if bar_ptr s > 5 \<or> ext \<and> bar_ptr s > 4 then Inl (PyException ''No more BARs available'')
      else bindE (configure_bar lg (bar_ptr s) sz ext prefetch io s) (\<lambda>s1.
        Inr (s1\<lparr>regions := (regions s1)[bar_ptr s1 :=
                   (case f of None \<Rightarrow> RegArr (replicate (nat sz) 0) | Some c \<Rightarrow> RegFun c)],
                bar_ptr := bar_ptr s1 + (if ext then 2 else 1)\<rparr>)))"

definition add_io_region ::
  "(int \<Rightarrow> nat) \<Rightarrow> int \<Rightarrow> nat option \<Rightarrow> 'a mem_endpoint_scheme \<Rightarrow> 'a mem_endpoint_scheme result" where
  "add_io_region lg sz f s = add_region lg sz f False False True s"

definition add_mem_region ::
  "(int \<Rightarrow> nat) \<Rightarrow> int \<Rightarrow> nat option \<Rightarrow> 'a mem_endpoint_scheme \<Rightarrow> 'a mem_endpoint_scheme result" where
  "add_mem_region lg sz f s = add_region lg sz f False False False s"

definition add_prefetchable_mem_region ::
  "(int \<Rightarrow> nat) \<Rightarrow> int \<Rightarrow> nat option \<Rightarrow> 'a mem_endpoint_scheme \<Rightarrow> 'a mem_endpoint_scheme result" where
  "add_prefetchable_mem_region lg sz f s = add_region lg sz f True True False s"

text \<open>An empty array is false in Python, so it is rejected like a missing region. The write
  branch of a callback region uses a name that does not exist.\<close>

definition read_region ::
  "(nat \<Rightarrow> int \<Rightarrow> int \<Rightarrow> bytes option) \<Rightarrow> nat \<Rightarrow> 'a mem_endpoint_scheme \<Rightarrow> int \<Rightarrow> int \<Rightarrow> bytes option result"
where
  "read_region cb k s addr len = bindE (py_nth (regions s) k) (\<lambda>r.
     case r of
       NoRegion \<Rightarrow> Inl (PyException ''Invalid region'')
     | RegArr arr \<Rightarrow>
         if arr = [] then Inl (PyException ''Invalid region'')
         else Inr (Some (slice arr (nat addr) (nat (addr + len))))
     | RegFun f \<Rightarrow> Inr (cb f addr len))"

definition write_region ::
  "nat \<Rightarrow> int \<Rightarrow> bytes \<Rightarrow> 'a mem_endpoint_scheme \<Rightarrow> 'a mem_endpoint_scheme result" where
  "write_region k addr d s = bindE (py_nth (regions s) k) (\<lambda>r.
     case r of
       NoRegion \<Rightarrow> Inl (PyException ''Invalid region'')
     | RegArr arr \<Rightarrow>
         if arr = [] then Inl (PyException ''Invalid region'')
         else Inr (s\<lparr>regions := (regions s)[k := RegArr (splice arr (nat addr) d)]\<rparr>)
     | RegFun f \<Rightarrow> Inl NameError)"

section \<open>Request handlers\<close>

definition ur_completion :: "'a pfunction_scheme \<Rightarrow> tlp \<Rightarrow> tlp list result" where
  "ur_completion s t = upstream_send s (set_ur_completion tlp_new t (get_id s))"

definition handle_io_read_tlp ::
  "(nat \<Rightarrow> int \<Rightarrow> int \<Rightarrow> bytes option) \<Rightarrow> tlp \<Rightarrow> 'a mem_endpoint_scheme \<Rightarrow>
   ('a mem_endpoint_scheme \<times> tlp list) result" where
  "handle_io_read_tlp cb t s = bindE (match_bar s (tlp_address t) True) (\<lambda>m.
     case m of
       [(k, addr)] \<Rightarrow>
         bindE (assertE (tlp_length t = 1)) (\<lambda>_.
           bindE (read_runs (read_region cb k s) addr (be_runs_io t) (replicate 4 0)) (\<lambda>d.
             bindE (set_data (set_completion_data tlp_new t (get_id s)) d) (\<lambda>c.
               bindE (upstream_send s (c\<lparr>tlp_byte_count := 4, tlp_length := 1\<rparr>)) (\<lambda>out.
                 Inr (s, out)))))
     | _ \<Rightarrow> bindE (ur_completion s t) (\<lambda>out. Inr (s, out)))"

definition handle_io_write_tlp ::
  "tlp \<Rightarrow> 'a mem_endpoint_scheme \<Rightarrow> ('a mem_endpoint_scheme \<times> tlp list) result" where
  "handle_io_write_tlp t s = bindE (match_bar s (tlp_address t) True) (\<lambda>m.
     case m of
       [(k, addr)] \<Rightarrow>
         bindE (assertE (tlp_length t = 1)) (\<lambda>_.
           bindE (get_data t) (\<lambda>d.
             bindE (write_runs (write_region k) addr d (be_runs_io t) s) (\<lambda>s'.
               bindE (upstream_send s'
                   ((set_completion tlp_new t (get_id s) False CPL_STATUS_SC)\<lparr>tlp_byte_count := 4\<rparr>))
                 (\<lambda>out. Inr (s', out)))))
     | _ \<Rightarrow> bindE (ur_completion s t) (\<lambda>out. Inr (s, out)))"

definition handle_mem_read_tlp ::
  "(nat \<Rightarrow> int \<Rightarrow> int \<Rightarrow> bytes option) \<Rightarrow> tlp \<Rightarrow> 'a mem_endpoint_scheme \<Rightarrow>
   ('a mem_endpoint_scheme \<times> tlp list) result" where
  "handle_mem_read_tlp cb t s = bindE (match_bar s (tlp_address t) False) (\<lambda>m.
     case m of
       [(k, addr)] \<Rightarrow>
         if tlp_length t * 4 > 0x1000 - (addr AND 0xfff) then Inr (s, [])
         else bindE (read_region cb k s addr (tlp_length t * 4)) (\<lambda>v.
           case v of
             None \<Rightarrow> Inl TypeError
           | Some d \<Rightarrow>
               bindE (mem_read_completions (upstream_send s) t (get_id s)
                   (max_payload_size (r_dev_ctl (fn_pcie s))) d)
                 (\<lambda>out. Inr (s, out)))
     | _ \<Rightarrow> bindE (ur_completion s t) (\<lambda>out. Inr (s, out)))"

definition handle_mem_write_tlp ::
  "tlp \<Rightarrow> 'a mem_endpoint_scheme \<Rightarrow> ('a mem_endpoint_scheme \<times> tlp list) result" where
  "handle_mem_write_tlp t s = bindE (match_bar s (tlp_address t) False) (\<lambda>m.
     case m of
       [(k, addr)] \<Rightarrow>
         if tlp_length t * 4 > 0x1000 - (addr AND 0xfff) then Inr (s, [])
         else bindE (get_data t) (\<lambda>d.
           bindE (write_runs (write_region k) addr d (be_runs_mem t) s) (\<lambda>s'. Inr (s', [])))
     | _ \<Rightarrow> Inr (s, []))"

definition mem_endpoint_handler ::
  "(nat \<Rightarrow> int \<Rightarrow> int \<Rightarrow> bytes option) \<Rightarrow> rx_handler \<Rightarrow> tlp \<Rightarrow> 'a mem_endpoint_scheme \<Rightarrow>
   ('a mem_endpoint_scheme \<times> tlp list) result" where
  "mem_endpoint_handler cb h t s =
     (case h of
        HandleConfig0 \<Rightarrow> handle_config_0_tlp read_endpoint_register write_endpoint_register t s
      | HandleConfig1 \<Rightarrow> Inl AttributeError
      | HandleIoRead \<Rightarrow> handle_io_read_tlp cb t s
      | HandleIoWrite \<Rightarrow> handle_io_write_tlp t s
      | HandleMemRead \<Rightarrow> handle_mem_read_tlp cb t s
      | HandleMemWrite \<Rightarrow> handle_mem_write_tlp t s)"

section \<open>A region is byte memory\<close>

definition peek_region :: "nat \<Rightarrow> 'a mem_endpoint_scheme \<Rightarrow> int \<Rightarrow> byte" where
  "peek_region k s i =
     (case regions s ! k of
        RegArr arr \<Rightarrow> if 0 \<le> i \<and> i < int (length arr) then arr ! nat i else 0
      | _ \<Rightarrow> 0)"

definition region_valid :: "nat \<Rightarrow> 'a mem_endpoint_scheme \<Rightarrow> int \<Rightarrow> int \<Rightarrow> bool" where
  "region_valid k s a n \<longleftrightarrow> k < length (regions s) \<and>
     (case regions s ! k of RegArr arr \<Rightarrow> 0 \<le> a \<and> 0 < n \<and> a + n \<le> int (length arr) | _ \<Rightarrow> False)"

lemma region_validE:
  assumes "region_valid k s a n"
  obtains arr where "k < length (regions s)" "regions s ! k = RegArr arr" "0 \<le> a" "0 < n"
    "a + n \<le> int (length arr)" "arr \<noteq> []"
proof -
  from assms obtain arr where r: "k < length (regions s)" "regions s ! k = RegArr arr" "0 \<le> a" "0 < n"
    "a + n \<le> int (length arr)"
    by (cases "regions s ! k") (auto simp: region_valid_def)
  then have "arr \<noteq> []" by auto
  with r that show ?thesis by blast
qed

interpretation ep_mem: byte_memory "write_region k" "read_region cb k" "peek_region k" "region_valid k"
  for k cb
proof
  fix s :: "'a mem_endpoint_scheme" and a and d :: bytes
  assume v: "region_valid k s a (int (length d))" and ne: "d \<noteq> []"
  then obtain arr where r: "k < length (regions s)" "regions s ! k = RegArr arr" "0 \<le> a"
    "a + int (length d) \<le> int (length arr)" "arr \<noteq> []"
    using v by (auto elim: region_validE)
  let ?s = "s\<lparr>regions := (regions s)[k := RegArr (splice arr (nat a) d)]\<rparr>"
  have l: "length (splice arr (nat a) d) = length arr" using r(3,4) by (intro length_splice) linarith
  have "write_region k a d s = Inr ?s" using r by (simp add: write_region_def)
  moreover have "region_valid k ?s = region_valid k s"
    using r(1,2) l by (intro ext) (simp add: region_valid_def)
  moreover have "peek_region k ?s i =
      (if a \<le> i \<and> i < a + int (length d) then d ! nat (i - a) else peek_region k s i)" for i
  proof (cases "0 \<le> i \<and> i < int (length arr)")
    case True
    then have "splice arr (nat a) d ! nat i =
        (if nat a \<le> nat i \<and> nat i < nat a + length d then d ! (nat i - nat a) else arr ! nat i)"
      using r(3,4) by (intro nth_splice) linarith+
    moreover have "nat a \<le> nat i \<and> nat i < nat a + length d \<longleftrightarrow> a \<le> i \<and> i < a + int (length d)"
      "nat i - nat a = nat (i - a)" using True r(3) by linarith+
    ultimately show ?thesis using True r(1,2) l by (simp add: peek_region_def)
  next
    case False
    then show ?thesis using r l by (auto simp: peek_region_def)
  qed
  ultimately show "\<exists>m'. write_region k a d s = Inr m' \<and> region_valid k m' = region_valid k s \<and>
      (\<forall>i. peek_region k m' i =
        (if a \<le> i \<and> i < a + int (length d) then d ! nat (i - a) else peek_region k s i))"
    by blast
next
  fix s :: "'a mem_endpoint_scheme" and a n :: int
  assume "region_valid k s a n" "0 < n"
  then obtain arr where r: "k < length (regions s)" "regions s ! k = RegArr arr" "0 \<le> a" "0 < n"
    "a + n \<le> int (length arr)" "arr \<noteq> []"
    by (auto elim: region_validE)
  have "slice arr (nat a) (nat (a + n)) = map (\<lambda>j. peek_region k s (a + int j)) [0..<nat n]"
    using r by (intro nth_equalityI) (auto simp: nth_slice peek_region_def nat_add_distrib)
  then show "read_region cb k s a n = Inr (Some (map (\<lambda>j. peek_region k s (a + int j)) [0..<nat n]))"
    using r by (simp add: read_region_def)
next
  fix s :: "'a mem_endpoint_scheme" and a n a' n' :: int
  assume "region_valid k s a n" "a \<le> a'" "0 < n'" "a' + n' \<le> a + n"
  then show "region_valid k s a' n'"
    by (cases "regions s ! k") (auto simp: region_valid_def)
qed

section \<open>Memory writes\<close>

lemma write_runs_frame:
  "write_runs (write_region k) a d rs s = Inr s' \<Longrightarrow> \<exists>r. s' = s\<lparr>regions := (regions s)[k := r]\<rparr>"
proof (induction rs arbitrary: s)
  case Nil
  then have "s' = s\<lparr>regions := (regions s)[k := regions s ! k]\<rparr>" by simp
  then show ?case by blast
next
  case (Cons e rs)
  obtain x y where e: "e = (x, y)" by (cases e)
  from Cons.prems obtain s1 where s1: "write_region k (a + int x) (slice d x y) s = Inr s1"
    "write_runs (write_region k) a d rs s1 = Inr s'"
    by (auto simp: e bindE_Inr_iff)
  obtain g where "py_nth (regions s) k = Inr g"
    using s1(1) by (auto simp: write_region_def bindE_Inr_iff)
  then obtain r where "s1 = s\<lparr>regions := (regions s)[k := r]\<rparr>"
    using s1(1) by (cases g) (auto simp: write_region_def split: if_splits)
  moreover obtain r' where "s' = s1\<lparr>regions := (regions s1)[k := r']\<rparr>"
    using Cons.IH[OF s1(2)] by blast
  ultimately have "s' = s\<lparr>regions := (regions s)[k := r']\<rparr>" by simp
  then show ?case by blast
qed

lemma mem_write_effect:
  assumes "match_bar s (tlp_address t) False = Inr [(k, off)]"
    and "1 \<le> tlp_length t" "tlp_length t = int (length (tlp_data t))" "get_data t = Inr d"
    and "tlp_length t * 4 \<le> 0x1000 - (off AND 0xfff)" "region_valid k s off (4 * tlp_length t)"
  shows "\<exists>r. let s' = s\<lparr>regions := (regions s)[k := r]\<rparr> in
    handle_mem_write_tlp t s = Inr (s', []) \<and>
    region_valid k s' = region_valid k s \<and>
    (\<forall>i. peek_region k s' i = masked_write t d off (peek_region k s) i)"
proof -
  have l: "int (length d) = 4 * tlp_length t"
    using pack_all_L_length[of "tlp_data t" d] assms(3,4) by (simp add: get_data_def)
  have v: "region_valid k s off (int (length d))" using assms(6) l by simp
  obtain s' where s': "write_runs (write_region k) off d (be_runs_mem t) s = Inr s'"
    "region_valid k s' = region_valid k s" "peek_region k s' = masked_write t d off (peek_region k s)"
    using ep_mem.write_request[OF assms(2) l v] by blast
  then have "handle_mem_write_tlp t s = Inr (s', [])"
    using assms(1,4,5) by (simp add: handle_mem_write_tlp_def)
  moreover obtain r where "s' = s\<lparr>regions := (regions s)[k := r]\<rparr>"
    using write_runs_frame[OF s'(1)] by blast
  ultimately show ?thesis using s'(2,3) by (auto simp: Let_def)
qed

text \<open>Property C1: a memory write that matches one BAR and does not cross a 4 KB boundary of
  the region changes exactly the bytes its byte enables select, to the bytes of its payload;
  every other byte, region and register keeps its value and nothing is sent.\<close>

theorem endpoint_mem_write:
  assumes "match_bar s (tlp_address t) False = Inr [(k, off)]"
    and "1 \<le> tlp_length t" "tlp_length t = int (length (tlp_data t))" "get_data t = Inr d"
    and "tlp_length t * 4 \<le> 0x1000 - (off AND 0xfff)" "region_valid k s off (4 * tlp_length t)"
  shows "\<exists>r. let s' = s\<lparr>regions := (regions s)[k := r]\<rparr> in
    handle_mem_write_tlp t s = Inr (s', []) \<and>
    (\<forall>i. peek_region k s' i = masked_write t d off (peek_region k s) i)"
  using mem_write_effect[OF assms] by (auto simp: Let_def)

text \<open>An endpoint with one 16-byte BAR at \<open>0x10000000\<close>, for the concrete instances.\<close>

definition demo_endpoint :: "byte list \<Rightarrow> mem_endpoint" where
  "demo_endpoint arr = endpoint.extend (pfunction.extend
     (pfunction_blank\<lparr>upstream_connected := True, bar := [0x10000000], bar_mask := [0xfffffff0]\<rparr>)
     (endpoint.fields 0 0 0)) (mem_endpoint.fields [RegArr arr] 1)"

lemma demo_sel [simp]:
  "bar (demo_endpoint arr) = [0x10000000]" "bar_mask (demo_endpoint arr) = [0xfffffff0]"
  "regions (demo_endpoint arr) = [RegArr arr]" "upstream_connected (demo_endpoint arr)"
  "fn_pcie (demo_endpoint arr) = pcie_regs_init" "get_id (demo_endpoint arr) = mk_id 0 0 0"
  by (simp_all add: demo_endpoint_def pfunction.defs endpoint.defs mem_endpoint.defs pfunction_blank_def get_id_def)

theorem endpoint_mem_write_witness:
  "\<exists>t s'. set_be_data (set_fmt_type TLP_MEM_WRITE tlp_new) 0x10000005 [1, 2, 3] = Inr t \<and>
     handle_mem_write_tlp t (demo_endpoint (replicate 16 9)) = Inr (s', []) \<and>
     map (peek_region 0 s' \<circ> int) [4..<9] = [9, 1, 2, 3, 9]"
proof -
  let ?s = "demo_endpoint (replicate 16 9)"
  let ?t = "(set_fmt_type TLP_MEM_WRITE tlp_new)\<lparr>tlp_address := 0x10000004, tlp_length := 1,
      tlp_first_be := 0xe, tlp_last_be := 0, tlp_data := [0x03020100]\<rparr>"
  have t: "set_be_data (set_fmt_type TLP_MEM_WRITE tlp_new) 0x10000005 [1, 2, 3] = Inr ?t"
    by (simp add: set_be_data_def set_be_def set_data_def Let_def ceil_div4_def
        unpack_all.simps unpack_L_def)
  have m: "match_bar ?s (tlp_address ?t) False = Inr [(0, 4)]"
    by (simp add: match_bar_def)
  have d: "get_data ?t = Inr [0, 1, 2, 3]"
    by (simp add: get_data_def pack_all_def pack_L_def to_le_4)
  have v: "region_valid 0 ?s 4 (4 * tlp_length ?t)" by (simp add: region_valid_def)
  obtain r where "handle_mem_write_tlp ?t ?s = Inr (?s\<lparr>regions := (regions ?s)[0 := r]\<rparr>, [])"
    "\<And>i. peek_region 0 (?s\<lparr>regions := (regions ?s)[0 := r]\<rparr>) i =
       masked_write ?t [0, 1, 2, 3] 4 (peek_region 0 ?s) i"
    using endpoint_mem_write[OF m _ _ d _ v] by (auto simp: Let_def)
  with t show ?thesis
    by (intro exI[of _ ?t] exI[of _ "?s\<lparr>regions := (regions ?s)[0 := r]\<rparr>"])
      (simp add: masked_write_def be_enabled_def peek_region_def upt_rec)
qed

section \<open>Memory reads\<close>

text \<open>What a request built by \<open>set_be\<close> asks for.\<close>

lemma upstream_send_ok: "upstream_connected s \<Longrightarrow> tlp_check c \<Longrightarrow> upstream_send s c = Inr [c]"
  by (simp add: upstream_send_def)

lemma mem_read_stream:
  assumes "1 \<le> len" "t = fst (set_be t0 addr len)" "upstream_connected s"
    and "match_bar s (tlp_address t) False = Inr [(k, off)]"
    and "tlp_length t * 4 \<le> 0x1000 - (off AND 0xfff)" "region_valid k s off (4 * tlp_length t)"
  shows "\<exists>cs. handle_mem_read_tlp cb t s = Inr (s, cs) \<and>
    cpl_stream t (map (\<lambda>j. peek_region k s (off + addr mod 4 + int j)) [0..<nat len]) cs \<and>
    list_all (cpl_sized (max_payload_size (r_dev_ctl (fn_pcie s)))) cs"
proof -
  note r = set_be_request[OF assms(1,2)]
  let ?L = "tlp_length t" and ?mps = "max_payload_size (r_dev_ctl (fn_pcie s))"
  let ?d = "map (\<lambda>j. peek_region k s (off + int j)) [0..<nat (4 * ?L)]"
  have d: "read_region cb k s off (4 * ?L) = Inr (Some ?d)"
    using assms(6) r(2) by (intro ep_mem.rd_ok) auto
  have ld: "int (length ?d) = 4 * ?L" using r(2) by simp
  have fp: "0 \<le> addr mod 4" by simp
  have a: "tlp_address t + get_first_be_offset t = addr" using r(1,5) by simp
  obtain cs where cs: "cpl_loop (upstream_send s) t (get_id s) ?mps ?d ?L len 0 0 addr = Inr cs"
    "cpl_stream t (slice ?d (nat (addr mod 4 + 0)) (nat (addr mod 4 + len))) cs"
    "list_all (cpl_sized ?mps) cs"
    using cpl_loop_stream[OF upstream_send_ok[OF assms(3)] ld r(3,4) fp, of 0 addr 0 t "get_id s" ?mps] r(2) assms(1)
    by auto
  have "slice ?d (nat (addr mod 4 + 0)) (nat (addr mod 4 + len)) =
      map (\<lambda>j. peek_region k s (off + addr mod 4 + int j)) [0..<nat len]"
    using r(3) assms(1) by (intro nth_equalityI) (auto simp: nth_slice nat_add_distrib ac_simps)
  with cs show ?thesis
    using assms(4,5) d a r(6)
    by (simp add: handle_mem_read_tlp_def mem_read_completions_def mult.commute)
qed



section \<open>I/O accesses\<close>

lemma io_reply_check:
  "tlp_check ((set_completion_data tlp_new t cid)\<lparr>tlp_data := [x], tlp_length := 1, tlp_byte_count := 4\<rparr>)"
  "tlp_check ((set_completion tlp_new t cid False CPL_STATUS_SC)\<lparr>tlp_byte_count := 4\<rparr>)"
  by (simp_all add: tlp_check_def completion_defs tlp_new_def fmt_type_of_def tlp_type_defs)

lemma set_data_dword:
  "length d = 4 \<Longrightarrow> set_data c d = Inr (c\<lparr>tlp_data := [from_le d], tlp_length := 1\<rparr>)"
  by (cases d) (simp_all add: set_data_def unpack_all.simps unpack_L_def)

text \<open>An I/O write followed by an I/O read of the same DWORD. Both are answered
  by one completion; the read returns the written bytes in the enabled lanes of both
  requests, the old bytes of the region where only the read enables them, and zero where the
  read does not.\<close>

theorem endpoint_io_write_read:
  assumes "upstream_connected s"
    and "match_bar s (tlp_address w) True = Inr [(k, off)]" "tlp_address r = tlp_address w"
    and "tlp_length w = 1" "tlp_length r = 1" "tlp_data w = [x]" "fits 32 x" "region_valid k s off 4"
  shows "\<exists>s' c1 c2. handle_io_write_tlp w s = Inr (s', [c1]) \<and>
    handle_io_read_tlp cb r s' = Inr (s', [c2]) \<and>
    fmt_type_of c1 = TLP_CPL \<and> fmt_type_of c2 = TLP_CPL_DATA \<and>
    tlp_data c2 = [from_le (map (\<lambda>j.
      if \<not> bit (tlp_first_be r) j then 0
      else if bit (tlp_first_be w) j then to_le 4 x ! j
      else peek_region k s (off + int j)) [0..<4])]"
proof -
  have g: "get_data w = Inr (to_le 4 x)"
    using assms(6,7) by (simp add: get_data_def pack_all_def pack_L_def fits_def)
  have v: "region_valid k s off (int (length (to_le 4 x)))" using assms(8) by simp
  have rs: "runs_in (length (to_le 4 x)) (be_runs_io w)" using be_runs_io_spec(1)[of w] by simp
  obtain s' where s': "write_runs (write_region k) off (to_le 4 x) (be_runs_io w) s = Inr s'"
    "region_valid k s' = region_valid k s"
    "\<And>i. peek_region k s' i = (if off \<le> i \<and> covers (be_runs_io w) (nat (i - off))
       then to_le 4 x ! nat (i - off) else peek_region k s i)"
    using ep_mem.write_runs_ok[OF v rs] by auto
  obtain rg where fr: "s' = s\<lparr>regions := (regions s)[k := rg]\<rparr>" using write_runs_frame[OF s'(1)] by blast
  have u: "upstream_connected s'" "get_id s' = get_id s" "match_bar s' a io = match_bar s a io" for a io
    using assms(1) unfolding fr by (simp_all add: get_id_def match_bar_def)
  let ?c1 = "(set_completion tlp_new w (get_id s) False CPL_STATUS_SC)\<lparr>tlp_byte_count := 4\<rparr>"
  have w: "handle_io_write_tlp w s = Inr (s', [?c1])"
    using assms(2,4) g s'(1) u(1) io_reply_check(2)[of w "get_id s"]
    by (simp add: handle_io_write_tlp_def upstream_send_def)
  have v': "region_valid k s' off (int (length (replicate 4 (0 :: byte))))"
    using assms(8) s'(2) by simp
  have rr: "runs_in (length (replicate 4 (0 :: byte))) (be_runs_io r)" using be_runs_io_spec(1)[of r] by simp
  let ?d = "map (\<lambda>j. if \<not> bit (tlp_first_be r) j then 0
      else if bit (tlp_first_be w) j then to_le 4 x ! j else peek_region k s (off + int j)) [0..<4]"
  have rd: "read_runs (read_region cb k s') off (be_runs_io r) (replicate 4 0) = Inr ?d"
    unfolding ep_mem.read_runs_ok[OF v' rr]
    using be_runs_io_spec(2)[of _ r] be_runs_io_spec(2)[of _ w] by (auto simp: s'(3))
  let ?c2 = "(set_completion_data tlp_new r (get_id s))
      \<lparr>tlp_data := [from_le ?d], tlp_length := 1, tlp_byte_count := 4\<rparr>"
  have "handle_io_read_tlp cb r s' = Inr (s', [?c2])"
    using assms(2,3,5) rd u io_reply_check(1)[where t = r and cid = "get_id s" and x = "from_le ?d"]
      set_data_dword[of ?d "set_completion_data tlp_new r (get_id s)"]
    by (simp add: handle_io_read_tlp_def upstream_send_def)
  with w show ?thesis
    by (intro exI[of _ s'] exI[of _ ?c1] exI[of _ ?c2]) (simp add: completion_defs fmt_type_of_def)
qed

definition io_probe :: "fmt_type \<Rightarrow> int \<Rightarrow> int list \<Rightarrow> tlp" where
  "io_probe ft be d = (set_fmt_type ft tlp_new)\<lparr>tlp_address := 0x1004, tlp_length := 1,
     tlp_first_be := be, tlp_data := d\<rparr>"

theorem endpoint_io_write_read_witness:
  "\<exists>s' c1 c2. handle_io_write_tlp (io_probe TLP_IO_WRITE 6 [0x04030201])
       ((demo_endpoint (replicate 16 9))\<lparr>bar := [0x1001]\<rparr>) = Inr (s', [c1]) \<and>
     handle_io_read_tlp (\<lambda>_ _ _. None) (io_probe TLP_IO_READ 7 []) s' = Inr (s', [c2]) \<and>
     tlp_data c2 = [0x00030209]"
proof -
  let ?s = "(demo_endpoint (replicate 16 9))\<lparr>bar := [0x1001]\<rparr>"
  have p: "tlp_address (io_probe ft be d) = 0x1004" "tlp_length (io_probe ft be d) = 1"
    "tlp_first_be (io_probe ft be d) = be" "tlp_data (io_probe ft be d) = d" for ft be d
    by (simp_all add: io_probe_def)
  have m: "match_bar ?s (tlp_address (io_probe TLP_IO_WRITE 6 [0x04030201])) True = Inr [(0, 4)]"
    unfolding p by (simp add: match_bar_def)
  have v: "region_valid 0 ?s 4 4" by (simp add: region_valid_def)
  have c: "upstream_connected ?s"
    "tlp_address (io_probe TLP_IO_READ 7 []) = tlp_address (io_probe TLP_IO_WRITE 6 [0x04030201])"
    "fits 32 0x04030201"
    by (simp_all add: p fits_def)
  obtain s' c1 c2 where r: "handle_io_write_tlp (io_probe TLP_IO_WRITE 6 [0x04030201]) ?s = Inr (s', [c1])"
    "handle_io_read_tlp (\<lambda>_ _ _. None) (io_probe TLP_IO_READ 7 []) s' = Inr (s', [c2])"
    "tlp_data c2 = [from_le (map (\<lambda>j. if \<not> bit (7 :: int) j then 0
        else if bit (6 :: int) j then to_le 4 0x04030201 ! j else peek_region 0 ?s (4 + int j)) [0..<4])]"
    using endpoint_io_write_read[OF c(1) m c(2) p(2) p(2) p(4) c(3) v, of "\<lambda>_ _ _. None"]
    unfolding p(3) by blast
  have "tlp_data c2 = [0x00030209]"
    unfolding r(3) by (simp add: to_le_4 peek_region_def upt_rec)
  with r(1,2) show ?thesis by blast
qed

end
