(* ===== verification/PcieLink.thy ===== *)
theory PcieLink
  imports PcieConfig PcieDevice PcieEndpoint
begin

text \<open>
  A root complex with its host bridge, root ports and one memory endpoint behind each port,
  wired as \<open>RootComplex\<close>, \<open>make_port\<close> and \<open>Device.connect\<close> of \<open>fpga/lib/pcie/tb/pcie.py\<close> wire
  them. A packet is carried hop by hop; what a hop sends is carried before the next packet.
  The links keep the order of packets, so this is one of the schedules of the simulator.
  Accesses of the host to endpoint memory are shown to be what they should be by interpreting
  the interface of requesters on this system.
\<close>

unbundle bit_operations_syntax

section \<open>The system\<close>

record net =
  nt_hb :: bridge
  nt_ports :: "bridge list"
  nt_devs :: "mem_endpoint device list"
  nt_up :: "tlp list"

datatype place = HbDown | HbUp | PortDown nat | PortUp nat | AtDev nat | AtRc

text \<open>Where the packets go that a bridge sends.\<close>

definition hb_dest :: "bridge_out \<Rightarrow> place \<times> tlp" where
  "hb_dest x = (case x of ToUpstream t \<Rightarrow> (AtRc, t) | ToDownstream t \<Rightarrow> (PortDown 0, t)
     | ToPort k t \<Rightarrow> (PortDown k, t))"

definition port_dest :: "nat \<Rightarrow> bridge_out \<Rightarrow> place \<times> tlp" where
  "port_dest k x = (case x of ToUpstream t \<Rightarrow> (HbUp, t) | ToDownstream t \<Rightarrow> (AtDev k, t)
     | ToPort j t \<Rightarrow> (AtDev j, t))"

definition serve ::
  "(nat \<Rightarrow> int \<Rightarrow> int \<Rightarrow> bytes option) \<Rightarrow> place \<Rightarrow> tlp \<Rightarrow> net \<Rightarrow> (net \<times> (place \<times> tlp) list) result" where
  "serve cb pl t n =
     (case pl of
        HbDown \<Rightarrow> bindE (bridge_upstream_recv (switch_route (nt_ports n)) t (nt_hb n)) (\<lambda>(b, out).
          Inr (n\<lparr>nt_hb := b\<rparr>, map hb_dest out))
      | HbUp \<Rightarrow> bindE (bridge_downstream_recv (switch_route (nt_ports n)) t (nt_hb n)) (\<lambda>(b, out).
          Inr (n\<lparr>nt_hb := b\<rparr>, map hb_dest out))
      | PortDown k \<Rightarrow> bindE (py_nth (nt_ports n) k) (\<lambda>p.
          bindE (bridge_upstream_recv bridge_route t p) (\<lambda>(p', out).
            Inr (n\<lparr>nt_ports := (nt_ports n)[k := p']\<rparr>, map (port_dest k) out)))
      | PortUp k \<Rightarrow> bindE (py_nth (nt_ports n) k) (\<lambda>p.
          bindE (bridge_downstream_recv bridge_route t p) (\<lambda>(p', out).
            Inr (n\<lparr>nt_ports := (nt_ports n)[k := p']\<rparr>, map (port_dest k) out)))
      | AtDev k \<Rightarrow> bindE (py_nth (nt_devs n) k) (\<lambda>d.
          bindE (device_upstream_recv (upstream_recv (mem_endpoint_handler cb)) t d) (\<lambda>(d', out).
            Inr (n\<lparr>nt_devs := (nt_devs n)[k := d']\<rparr>, map (Pair (PortUp k)) out)))
      | AtRc \<Rightarrow> Inr (n\<lparr>nt_up := nt_up n @ [t]\<rparr>, []))"

fun foldE :: "('x \<Rightarrow> 's \<Rightarrow> 's result) \<Rightarrow> 'x list \<Rightarrow> 's \<Rightarrow> 's result" where
  "foldE f [] s = Inr s"
| "foldE f (x # xs) s = bindE (f x s) (foldE f xs)"

text \<open>\<open>h\<close> bounds the hops of a packet and of the answers to it.\<close>

primrec hop ::
  "nat \<Rightarrow> (nat \<Rightarrow> int \<Rightarrow> int \<Rightarrow> bytes option) \<Rightarrow> place \<times> tlp \<Rightarrow> net \<Rightarrow> net result" where
  "hop 0 = (\<lambda>cb m n. Inl (PyException ''hop limit''))"
| "hop (Suc h) = (\<lambda>cb m n.
     bindE (serve cb (fst m) (snd m) n) (\<lambda>(n', out). foldE (hop h cb) out n'))"

lemma hop_Suc: "hop (Suc h) cb m n = bindE (serve cb (fst m) (snd m) n) (\<lambda>(n', out). foldE (hop h cb) out n')"
  by simp

lemma bindE_Inr_right [simp]: "bindE m Inr = m"
  by (cases m) simp_all

lemma foldE_one: "foldE f [x] s = f x s"
  by (cases "f x s") simp_all

lemma hop_one: "serve cb pl t n = Inr (n', [m]) \<Longrightarrow> hop (Suc h) cb (pl, t) n = hop h cb m n'"
  by (simp only: hop_Suc fst_conv snd_conv bindE.simps prod.case foldE_one)

declare hop.simps(2) [simp del]

definition net_fabric :: "(nat \<Rightarrow> int \<Rightarrow> int \<Rightarrow> bytes option) \<Rightarrow> net fabric" where
  "net_fabric cb =
     \<lparr>fab_send = (\<lambda>t. hop 7 cb (HbDown, t)),
      fab_wait = (\<lambda>tag n. case nt_up n of [] \<Rightarrow> ([], n) | t # ts \<Rightarrow> ([t], n\<lparr>nt_up := ts\<rparr>))\<rparr>"

section \<open>Routing of requests and completions\<close>

definition mem_clear :: "int \<Rightarrow> 'a bridge_scheme \<Rightarrow> bool" where
  "mem_clear a p \<longleftrightarrow> match_bar p a False = Inr [] \<and> \<not> in_mem_window p a"

definition mem_taken :: "int \<Rightarrow> 'a bridge_scheme \<Rightarrow> bool" where
  "mem_taken a p \<longleftrightarrow> match_bar p a False = Inr [] \<and> in_mem_window p a"

lemma port_loop_skip:
  assumes "is_mem_rw_type (fmt_type_of t)" "\<forall>p \<in> set ps. mem_clear (tlp_address t) p"
  shows "port_loop t i (ps @ qs) = port_loop t (i + length ps) qs"
  using assms(2)
proof (induction ps arbitrary: i)
  case (Cons p ps)
  have "port_verdict t p = Inr Skip"
    using assms(1) Cons.prems mem_rw_cases[OF assms(1)]
    by (simp add: port_verdict_def mem_clear_def Let_def)
  then show ?case using Cons by simp
qed simp

lemma port_verdict_mem:
  assumes "is_mem_rw_type (fmt_type_of t)" "mem_taken (tlp_address t) p"
  shows "port_verdict t p = Inr Take"
  using assms mem_rw_cases[OF assms(1)] by (simp add: port_verdict_def mem_taken_def Let_def)

lemma tlp_copy_id: "tlp_th t = 0 \<Longrightarrow> tlp_copy t = t"
  by (simp add: tlp_copy_def)

lemma bridge_down_mem:
  assumes "is_mem_rw_type (fmt_type_of t)" "tlp_check t" "mem_taken (tlp_address t) s"
  shows "bridge_upstream_recv route t s = keep s (route t False s)"
  using assms mem_rw_cases[OF assms(1)] by (simp add: bridge_upstream_recv_def mem_taken_def Let_def)

text \<open>A completion for the root complex climbs to it.\<close>

lemma bridge_up_cpl:
  assumes "is_cpl_type (fmt_type_of t)" "tlp_check t" "tlp_requester_id t = rc_id"
    and "if br_root s then pri_bus_num s = 0 \<and> on_secondary s rc_id
         else get_id s \<noteq> rc_id \<and> \<not> on_secondary s rc_id"
  shows "bridge_downstream_recv route t s = Inr (s, [ToUpstream t])"
proof -
  have "\<not> is_cfg_type (fmt_type_of t)" using assms(1) by (auto simp: is_cpl_type_def is_cfg_type_def)
  moreover have "pid_bus rc_id = 0" "pid_device rc_id = 0" by (simp_all add: rc_id_def mk_id_def)
  ultimately show ?thesis
    using assms by (auto simp: bridge_downstream_recv_def Let_def keep_def bridge_upstream_send_def)
qed

text \<open>What the stream predicate says of every completion.\<close>

lemma cpl_stream_all:
  "cpl_stream t d cs \<Longrightarrow> \<forall>c \<in> set cs. fmt_type_of c = TLP_CPL_DATA \<and> tlp_check c \<and>
     tlp_requester_id c = tlp_requester_id t \<and> tlp_tag c = tlp_tag t"
  by (induction cs arbitrary: d) (auto simp: Let_def split: sum.splits)

lemma cpl_stream_cong:
  "tlp_tag t = tlp_tag u \<Longrightarrow> tlp_requester_id t = tlp_requester_id u \<Longrightarrow> cpl_stream t d cs = cpl_stream u d cs"
  by (induction cs arbitrary: d) (auto simp: Let_def split: sum.splits)

section \<open>The path to one endpoint\<close>

definition the_ep :: "nat \<Rightarrow> net \<Rightarrow> mem_endpoint" where
  "the_ep k n = hd (dev_functions (nt_devs n ! k))"

definition set_ep :: "nat \<Rightarrow> mem_endpoint \<Rightarrow> net \<Rightarrow> net" where
  "set_ep k e n = n\<lparr>nt_devs := (nt_devs n)[k := (nt_devs n ! k)\<lparr>dev_functions := [e]\<rparr>]\<rparr>"

definition rc_above :: "'a bridge_scheme \<Rightarrow> bool" where
  "rc_above s \<longleftrightarrow> (if br_root s then pri_bus_num s = 0 \<and> on_secondary s rc_id
     else get_id s \<noteq> rc_id \<and> \<not> on_secondary s rc_id)"

definition wired :: "nat \<Rightarrow> net \<Rightarrow> bool" where
  "wired k n \<longleftrightarrow> k < length (nt_ports n) \<and> k < length (nt_devs n) \<and>
     rc_above (nt_hb n) \<and> rc_above (nt_ports n ! k) \<and>
     dev_functions (nt_devs n ! k) = [the_ep k n] \<and> upstream_connected (the_ep k n) \<and>
     (\<forall>f \<in> {TLP_MEM_READ, TLP_MEM_READ_64}. rx_tlp_handler (the_ep k n) f = Some HandleMemRead) \<and>
     (\<forall>f \<in> {TLP_MEM_WRITE, TLP_MEM_WRITE_64}. rx_tlp_handler (the_ep k n) f = Some HandleMemWrite)"

definition routed_to :: "nat \<Rightarrow> net \<Rightarrow> int \<Rightarrow> bool" where
  "routed_to k n a \<longleftrightarrow> mem_taken a (nt_hb n) \<and>
     (\<forall>p \<in> set (take k (nt_ports n)). mem_clear a p) \<and> mem_taken a (nt_ports n ! k)"

lemma serve_hb_down:
  assumes "k < length (nt_ports n)" "routed_to k n (tlp_address t)" "is_mem_rw_type (fmt_type_of t)"
    "tlp_check t" "tlp_th t = 0"
  shows "serve cb HbDown t n = Inr (n, [(PortDown k, t)])"
proof -
  have ps: "nt_ports n = take k (nt_ports n) @ nt_ports n ! k # drop (Suc k) (nt_ports n)"
    using assms(1) by (simp add: id_take_nth_drop)
  have "port_loop t 0 (nt_ports n) = Inr ([ToPort k t], True)"
    using assms port_loop_skip[OF assms(3), of "take k (nt_ports n)" 0]
      port_verdict_mem[OF assms(3), of "nt_ports n ! k"]
    by (subst ps) (simp add: routed_to_def tlp_copy_id)
  then show ?thesis
    using assms bridge_down_mem[OF assms(3,4), of "nt_hb n" "switch_route (nt_ports n)"]
    by (simp add: serve_def routed_to_def keep_def switch_route_def switch_route_down_def hb_dest_def)
qed

lemma serve_port_down:
  assumes "k < length (nt_ports n)" "routed_to k n (tlp_address t)" "is_mem_rw_type (fmt_type_of t)"
    "tlp_check t"
  shows "serve cb (PortDown k) t n = Inr (n, [(AtDev k, t)])"
  using assms bridge_down_mem[OF assms(3,4), of "nt_ports n ! k" bridge_route]
  by (simp add: serve_def routed_to_def keep_def bridge_route_def port_dest_def)

lemma serve_dev:
  assumes "wired k n" "is_mem_rw_type (fmt_type_of t)" "tlp_check t"
    "match_bar (the_ep k n) (tlp_address t) False = Inr [(r, off)]"
  shows "serve cb (AtDev k) t n =
    bindE (if fmt_type_of t = TLP_MEM_READ \<or> fmt_type_of t = TLP_MEM_READ_64
           then handle_mem_read_tlp cb t (the_ep k n) else handle_mem_write_tlp t (the_ep k n))
      (\<lambda>(e, out). Inr (set_ep k e n, map (Pair (PortUp k)) out))"
proof -
  have f: "dev_functions (nt_devs n ! k) = [the_ep k n]" using assms(1) by (simp add: wired_def)
  define H where "H = (if fmt_type_of t = TLP_MEM_READ \<or> fmt_type_of t = TLP_MEM_READ_64
    then handle_mem_read_tlp cb t (the_ep k n) else handle_mem_write_tlp t (the_ep k n))"
  have u: "upstream_recv (mem_endpoint_handler cb) t (the_ep k n) = H"
    using assms mem_rw_cases[OF assms(2)]
    by (auto simp: upstream_recv_def handle_tlp_def wired_def is_mem_rw_type_def mem_endpoint_handler_def
        H_def)
  have len: "k < length (nt_devs n)" using assms(1) by (simp add: wired_def)
  show ?thesis
    using len assms(2-4) mem_rw_cases[OF assms(2)] unfolding H_def[symmetric]
    by (cases H) (simp_all add: serve_def device_upstream_recv_def f u set_ep_def Let_def split: prod.splits)
qed

lemma climb:
  assumes "wired k n" "is_cpl_type (fmt_type_of c)" "tlp_check c" "tlp_requester_id c = rc_id"
  shows "hop (Suc (Suc (Suc h))) cb (PortUp k, c) n = Inr (n\<lparr>nt_up := nt_up n @ [c]\<rparr>)"
  using assms bridge_up_cpl[OF assms(2-4), of "nt_ports n ! k" bridge_route]
    bridge_up_cpl[OF assms(2-4), of "nt_hb n" "switch_route (nt_ports n)"]
  by (simp add: hop_Suc wired_def serve_def rc_above_def port_dest_def hb_dest_def)

lemma wired_up [simp]: "wired k (n\<lparr>nt_up := u\<rparr>) = wired k n" "the_ep k (n\<lparr>nt_up := u\<rparr>) = the_ep k n"
  "routed_to k (n\<lparr>nt_up := u\<rparr>) = routed_to k n"
  by (auto simp: wired_def the_ep_def routed_to_def)

lemma climb_all:
  assumes "wired k n" "\<forall>c \<in> set cs. is_cpl_type (fmt_type_of c) \<and> tlp_check c \<and> tlp_requester_id c = rc_id"
  shows "foldE (hop (Suc (Suc (Suc h))) cb) (map (Pair (PortUp k)) cs) n = Inr (n\<lparr>nt_up := nt_up n @ cs\<rparr>)"
  using assms
proof (induction cs arbitrary: n)
  case (Cons c cs)
  then show ?case using climb[OF Cons.prems(1), of c h cb] by simp
qed simp

lemma set_ep_same: "wired k n \<Longrightarrow> set_ep k (the_ep k n) n = n"
  by (simp add: set_ep_def wired_def list_update_same_conv)

text \<open>A request reaches its endpoint, and the answers to it reach the root complex in order.\<close>

lemma request_hops:
  assumes "wired k n" "routed_to k n (tlp_address t)" "is_mem_rw_type (fmt_type_of t)"
    "tlp_check t" "tlp_th t = 0" "match_bar (the_ep k n) (tlp_address t) False = Inr [(r, off)]"
    and "(if fmt_type_of t = TLP_MEM_READ \<or> fmt_type_of t = TLP_MEM_READ_64
           then handle_mem_read_tlp cb t (the_ep k n) else handle_mem_write_tlp t (the_ep k n)) = Inr (e, cs)"
    and "wired k (set_ep k e n)"
    and "\<forall>c \<in> set cs. is_cpl_type (fmt_type_of c) \<and> tlp_check c \<and> tlp_requester_id c = rc_id"
  shows "hop 7 cb (HbDown, t) n = Inr ((set_ep k e n)\<lparr>nt_up := nt_up n @ cs\<rparr>)"
proof -
  have k: "k < length (nt_ports n)" using assms(1) by (simp add: wired_def)
  have u: "nt_up (set_ep k e n) = nt_up n" by (simp add: set_ep_def)
  have three: "hop 4 cb = hop (Suc (Suc (Suc 1))) cb" by (simp add: numeral_eq_Suc)
  have "hop 7 cb (HbDown, t) n = hop 6 cb (PortDown k, t) n"
    using hop_one[OF serve_hb_down[OF k assms(2-5)], of 6 cb] by simp
  also have "\<dots> = hop 5 cb (AtDev k, t) n"
    using hop_one[OF serve_port_down[OF k assms(2-4)], of 5 cb] by simp
  also have "\<dots> = foldE (hop 4 cb) (map (Pair (PortUp k)) cs) (set_ep k e n)"
    using serve_dev[OF assms(1,3,4,6), of cb] assms(7) by (simp add: hop_Suc[of 4, simplified])
  finally show ?thesis unfolding three using climb_all[OF assms(8,9), of 1 cb] u by simp
qed

section \<open>Host accesses to endpoint memory\<close>

text \<open>A window of bus addresses that leads to one region of the endpoint behind port \<open>k\<close>.\<close>

definition window :: "nat \<Rightarrow> nat \<Rightarrow> int \<Rightarrow> int \<Rightarrow> net \<Rightarrow> bool" where
  "window k r b sz n \<longleftrightarrow> sz mod 4 = 0 \<and> b mod 0x1000 = 0 \<and> region_valid r (the_ep k n) 0 sz \<and>
     (\<forall>i. b \<le> i \<and> i < b + sz \<longrightarrow>
        routed_to k n i \<and> match_bar (the_ep k n) i False = Inr [(r, i - b)])"

definition sys_acc :: "nat \<Rightarrow> nat \<Rightarrow> int \<Rightarrow> int \<Rightarrow> 'x \<times> net \<Rightarrow> int \<Rightarrow> int \<Rightarrow> bool" where
  "sys_acc k r b sz s a len \<longleftrightarrow> window k r b sz (snd s) \<and> 0 < len \<and> b \<le> a \<and> a + len \<le> b + sz"

definition sys_mem :: "nat \<Rightarrow> nat \<Rightarrow> int \<Rightarrow> 'x \<times> net \<Rightarrow> int \<Rightarrow> byte" where
  "sys_mem k r b s i = peek_region r (the_ep k (snd s)) (i - b)"

definition sys_idle :: "nat \<Rightarrow> 'a root_complex_scheme \<times> net \<Rightarrow> bool" where
  "sys_idle k s \<longleftrightarrow> wired k (snd s) \<and> nt_up (snd s) = [] \<and> rc_cpl_queues (fst s) = replicate 256 []"

definition sys_waiting :: "nat \<Rightarrow> 'a root_complex_scheme \<times> net \<Rightarrow> int \<Rightarrow> tlp list \<Rightarrow> bool" where
  "sys_waiting k s tag cs \<longleftrightarrow> wired k (snd s) \<and> rc_cpl_queues (fst s) = replicate 256 [] \<and>
     0 \<le> tag \<and> tag < 256 \<and> nt_up (snd s) = cs \<and>
     (\<forall>c \<in> set cs. is_cpl_type (fmt_type_of c) \<and> tlp_check c \<and> tlp_tag c = tag)"

text \<open>A DWORD request stays in the page and in the window of its bytes.\<close>

lemma dword_page:
  fixes a n L :: int
  assumes "a mod 0x1000 + n \<le> 0x1000" "4 * L < a mod 4 + n + 4"
  shows "(a - a mod 4) mod 0x1000 + 4 * L \<le> 0x1000"
proof -
  define p where "p = a mod 0x1000"
  have m: "a mod 4 = p mod 4" unfolding p_def by (simp add: mod_mod_cancel)
  have "a - a mod 4 = 0x1000 * (a div 0x1000) + 4 * (p div 4)"
    unfolding m p_def by (simp add: minus_mod_eq_mult_div[symmetric])
  moreover have "0 \<le> 4 * (p div 4)" "4 * (p div 4) \<le> p" "p < 0x1000" by (simp_all add: p_def)
  ultimately have "(a - a mod 4) mod 0x1000 = 4 * (p div 4)" by simp
  moreover have "4 * (p div 4) + 4 * L \<le> 0x1000"
  proof -
    have d: "4 * (p div 4) + p mod 4 = p" by simp
    have "4 * (p div 4) + 4 * L < 0x1004" using d assms m p_def by linarith
    moreover have "4 * x + 4 * y \<le> 0x1000" if "4 * x + 4 * y < 0x1004" for x y :: int using that by presburger
    ultimately show ?thesis by blast
  qed
  ultimately show ?thesis by simp
qed

lemma window_request:
  fixes a n L b sz :: int
  assumes "b \<le> a" "a + n \<le> b + sz" "sz mod 4 = 0" "b mod 0x1000 = 0" "4 * L < a mod 4 + n + 4"
  shows "b \<le> a - a mod 4" "(a - a mod 4) + 4 * L \<le> b + sz"
    "((a - a mod 4) - b) mod 0x1000 = (a - a mod 4) mod 0x1000"
proof -
  have "b mod 4 = 0" using mod_mod_cancel[of 4 "0x1000" b] assms(4) by simp
  have four: "0 \<le> x" if "4 dvd x" "- 4 < x" for x :: int using that by presburger
  have "4 dvd a - a mod 4 - b"
    using \<open>b mod 4 = 0\<close> by (intro dvd_diff dvd_minus_mod) (simp add: dvd_eq_mod_eq_0)
  moreover have "a mod 4 < 4" by simp
  ultimately show "b \<le> a - a mod 4" using assms(1) four[of "a - a mod 4 - b"] by linarith
  show "(a - a mod 4) + 4 * L \<le> b + sz"   proof -
    have "4 dvd b + sz - (a - a mod 4 + 4 * L)"
      using \<open>b mod 4 = 0\<close> assms(3)
      by (intro dvd_diff dvd_add dvd_minus_mod) (simp_all add: dvd_eq_mod_eq_0)
    moreover have "- 4 < b + sz - (a - a mod 4 + 4 * L)" using assms(2,5) by linarith
    ultimately show ?thesis using four[of "b + sz - (a - a mod 4 + 4 * L)"] by linarith
  qed
  show "((a - a mod 4) - b) mod 0x1000 = (a - a mod 4) mod 0x1000"
    using assms(4) mod_diff_right_eq[of "a - a mod 4" b "0x1000"] by simp
qed

lemma window_set_ep:
  assumes "wired k n" "e = (the_ep k n)\<lparr>regions := rs\<rparr>" "region_valid r e = region_valid r (the_ep k n)"
  shows "wired k (set_ep k e n)" "window k r b sz (set_ep k e n) = window k r b sz n"
    "the_ep k (set_ep k e n) = e"
proof -
  have len: "k < length (nt_devs n)" using assms(1) by (simp add: wired_def)
  then show ep: "the_ep k (set_ep k e n) = e" by (simp add: the_ep_def set_ep_def)
  have m: "match_bar e = match_bar (the_ep k n)" by (simp add: fun_eq_iff match_bar_def assms(2))
  show "wired k (set_ep k e n)"
    using assms(1) len ep by (auto simp: wired_def assms(2) set_ep_def)
  have "routed_to k (set_ep k e n) = routed_to k n" by (simp add: fun_eq_iff routed_to_def set_ep_def)
  then show "window k r b sz (set_ep k e n) = window k r b sz n"
    unfolding window_def ep m assms(3) by simp
qed

lemma rc_send_net:
  "tlp_check t \<Longrightarrow> hop 7 cb (HbDown, t) (snd s) = Inr n' \<Longrightarrow>
   m_send (rc_master ucb (net_fabric cb)) t s = Inr (fst s, n')"
  by (simp add: rc_master_def host_send_def rc_send_def net_fabric_def)

lemma mem_check:
  assumes "is_mem_rw_type (fmt_type_of t)" "tlp_address t mod 0x1000 + 4 * tlp_length t \<le> 0x1000"
    "fmt_type_of t \<in> {TLP_MEM_WRITE, TLP_MEM_WRITE_64} \<longrightarrow> tlp_length t = int (length (tlp_data t))"
  shows "tlp_check t"
  using assms by (auto simp: tlp_check_def is_mem_rw_type_def is_io_type_def and_fff fmt_type_of_def)

interpretation sys: memory_link "rc_master ucb (net_fabric cb)" "sys_mem k r b" "sys_idle k"
  "sys_waiting k" "sys_acc k r b sz" for ucb cb k r b sz
proof
  fix s :: "'a root_complex_scheme \<times> net"
  assume i: "sys_idle k s"
  obtain q n where s: "s = (q, n)" by (cases s)
  have "rc_get_free_tag q = (Some ((rc_current_tag q + 1) mod 32), q\<lparr>rc_current_tag := (rc_current_tag q + 1) mod 32\<rparr>)"
    using i rc_tag_idle[of q] by (simp add: s sys_idle_def)
  then show "\<exists>tag s'. m_free_tag (rc_master ucb (net_fabric cb)) s = (Some tag, s') \<and> 0 \<le> tag \<and> tag < 256 \<and>
      sys_idle k s' \<and> sys_mem k r b s' = sys_mem k r b s \<and> sys_acc k r b sz s' = sys_acc k r b sz s \<and>
      m_requester (rc_master ucb (net_fabric cb)) s' = m_requester (rc_master ucb (net_fabric cb)) s"
    using i by (auto simp: rc_master_def s sys_idle_def sys_mem_def sys_acc_def fun_eq_iff
        intro: order_less_trans[OF pos_mod_bound])
next
  fix s :: "'a root_complex_scheme \<times> net" and addr len t0
  assume h: "sys_idle k s" "sys_acc k r b sz s addr len" "0 < len" "addr mod 0x1000 + len \<le> 0x1000"
    "fmt_type_of t0 = mem_read_fmt addr" "0 \<le> tlp_tag t0" "tlp_tag t0 < 256" "tlp_data t0 = []"
    "tlp_requester_id t0 = m_requester (rc_master ucb (net_fabric cb)) s" "tlp_th t0 = 0"
  let ?n = "snd s" and ?t = "fst (set_be t0 addr len)"
  have w: "window k r b sz ?n" "b \<le> addr" "addr + len \<le> b + sz" "wired k ?n" "nt_up ?n = []"
    using h(1,2) by (simp_all add: sys_acc_def sys_idle_def)
  have t: "fmt_type_of ?t = mem_read_fmt addr" "tlp_th ?t = 0" "tlp_requester_id ?t = rc_id"
    "tlp_tag ?t = tlp_tag t0"
    using h(5,9,10) by (simp_all add: set_be_def Let_def fmt_type_of_def rc_master_def)
  have len1: "1 \<le> len" using h(3) by simp
  have q: "tlp_address ?t = addr - addr mod 4" "1 \<le> tlp_length ?t" "addr mod 4 + len \<le> 4 * tlp_length ?t"
    "4 * tlp_length ?t < addr mod 4 + len + 4"
    using set_be_request[OF len1 refl] by blast+
  have al: "sz mod 4 = 0" "b mod 0x1000 = 0" using w(1) by (simp_all add: window_def)
  note win = window_request[OF w(2,3) al q(4)]
  have page: "(addr - addr mod 4) mod 0x1000 + 4 * tlp_length ?t \<le> 0x1000" by (rule dword_page[OF h(4) q(4)])
  have rw: "is_mem_rw_type (fmt_type_of ?t)" "fmt_type_of ?t = TLP_MEM_READ \<or> fmt_type_of ?t = TLP_MEM_READ_64"
    unfolding t(1) by (simp_all add: mem_read_fmt_def is_mem_rw_type_def)
  then have chk: "tlp_check ?t" using page q(1) by (intro mem_check) auto
  have inw: "b \<le> tlp_address ?t \<and> tlp_address ?t < b + sz" using win(1,2) q(1,2) by simp
  then have route: "routed_to k ?n (tlp_address ?t)"
    and bar: "match_bar (the_ep k ?n) (tlp_address ?t) False = Inr [(r, addr - addr mod 4 - b)]"
    using w(1) q(1) by (auto simp: window_def)
  have up: "upstream_connected (the_ep k ?n)" using w(4) by (simp add: wired_def)
  have rv: "region_valid r (the_ep k ?n) (addr - addr mod 4 - b) (4 * tlp_length ?t)"
    using w(1) win(1,2) q(2) by (auto simp: window_def intro: ep_mem.valid_sub)
  have off: "tlp_length ?t * 4 \<le> 0x1000 - ((addr - addr mod 4 - b) AND 0xfff)"
    using page win(3) by (simp add: and_fff)
  obtain cs where cs: "handle_mem_read_tlp cb ?t (the_ep k ?n) = Inr (the_ep k ?n, cs)"
    "cpl_stream ?t (map (\<lambda>j. peek_region r (the_ep k ?n) (addr - addr mod 4 - b + addr mod 4 + int j)) [0..<nat len]) cs"
    using mem_read_stream[OF len1 refl up bar off rv] by blast
  have cpl: "\<forall>c \<in> set cs. is_cpl_type (fmt_type_of c) \<and> tlp_check c \<and> tlp_requester_id c = rc_id \<and>
      tlp_tag c = tlp_tag t0"
    using cpl_stream_all[OF cs(2)] t(3,4) by (auto simp: is_cpl_type_def)
  have "hop 7 cb (HbDown, ?t) ?n = Inr ((set_ep k (the_ep k ?n) ?n)\<lparr>nt_up := nt_up ?n @ cs\<rparr>)"
    using cs(1) rw(2) cpl w(4) by (intro request_hops[OF w(4) route rw(1) chk t(2) bar]) (auto simp: set_ep_same)
  then have "m_send (rc_master ucb (net_fabric cb)) ?t s = Inr (fst s, ?n\<lparr>nt_up := cs\<rparr>)"
    using rc_send_net[OF chk] w(4,5) by (simp add: set_ep_same)
  moreover have "cpl_stream t0 (map (\<lambda>j. sys_mem k r b s (addr + int j)) [0..<nat len]) cs"
  proof -
    have c: "cpl_stream t0 d xs = cpl_stream ?t d xs" for d xs
      using t(3,4) h(9) by (intro cpl_stream_cong) (simp_all add: rc_master_def)
    have e: "addr - addr mod 4 - b + addr mod 4 + int j = addr + int j - b" for j by simp
    show ?thesis using cs(2) unfolding c sys_mem_def e .
  qed
  ultimately show "\<exists>s' cs. m_send (rc_master ucb (net_fabric cb)) ?t s = Inr s' \<and>
      sys_waiting k s' (tlp_tag t0) cs \<and>
      cpl_stream t0 (map (\<lambda>j. sys_mem k r b s (addr + int j)) [0..<nat len]) cs \<and>
      sys_mem k r b s' = sys_mem k r b s \<and> sys_acc k r b sz s' = sys_acc k r b sz s"
    using h(1,6,7) cpl w(1)
    by (intro exI[of _ "(fst s, ?n\<lparr>nt_up := cs\<rparr>)"] exI[of _ cs])
      (simp add: sys_waiting_def sys_idle_def sys_mem_def sys_acc_def fun_eq_iff window_def)
next
  fix s :: "'a root_complex_scheme \<times> net" and addr t0 t and d :: bytes
  assume h: "sys_idle k s" "sys_acc k r b sz s addr (int (length d))" "d \<noteq> []"
    "addr mod 0x1000 + int (length d) \<le> 0x1000" "fmt_type_of t0 = mem_write_fmt addr"
    "tlp_requester_id t0 = m_requester (rc_master ucb (net_fabric cb)) s" "tlp_th t0 = 0"
    "set_be_data t0 addr d = Inr t"
  let ?n = "snd s" and ?e = "the_ep k (snd s)" and ?o = "addr - addr mod 4 - b"
  have w: "window k r b sz ?n" "b \<le> addr" "addr + int (length d) \<le> b + sz" "wired k ?n" "nt_up ?n = []"
    using h(1,2) by (simp_all add: sys_acc_def sys_idle_def)
  obtain x where x: "get_data t = Inr x" "tlp_address t = addr - addr mod 4" "1 \<le> tlp_length t"
    "tlp_length t = int (length (tlp_data t))" "addr mod 4 + int (length d) \<le> 4 * tlp_length t"
    "4 * tlp_length t < addr mod 4 + int (length d) + 4"
    "fmt_type_of t = fmt_type_of t0" "tlp_th t = tlp_th t0" "tlp_requester_id t = tlp_requester_id t0"
    "\<And>off old i. masked_write t x off old i =
       (if off + addr mod 4 \<le> i \<and> i < off + addr mod 4 + int (length d)
        then d ! nat (i - (off + addr mod 4)) else old i)"
    by (rule set_be_data_request[OF h(3,8)]) blast
  have al: "sz mod 4 = 0" "b mod 0x1000 = 0" using w(1) by (simp_all add: window_def)
  note win = window_request[OF w(2,3) al x(6)]
  have page: "(addr - addr mod 4) mod 0x1000 + 4 * tlp_length t \<le> 0x1000" by (rule dword_page[OF h(4) x(6)])
  have rw: "is_mem_rw_type (fmt_type_of t)" "\<not> (fmt_type_of t = TLP_MEM_READ \<or> fmt_type_of t = TLP_MEM_READ_64)"
    unfolding x(7) h(5) by (simp_all add: mem_write_fmt_def is_mem_rw_type_def)
  have chk: "tlp_check t" using rw(1) page x(2,4) by (intro mem_check) auto
  have inw: "b \<le> tlp_address t \<and> tlp_address t < b + sz" using win(1,2) x(2,3) by simp
  then have route: "routed_to k ?n (tlp_address t)"
    and bar: "match_bar ?e (tlp_address t) False = Inr [(r, ?o)]"
    using w(1) x(2) by (auto simp: window_def)
  have rv: "region_valid r ?e ?o (4 * tlp_length t)"
    using w(1) win(1,2) x(3) by (auto simp: window_def intro: ep_mem.valid_sub)
  have off: "tlp_length t * 4 \<le> 0x1000 - (?o AND 0xfff)" using page win(3) by (simp add: and_fff)
  obtain g where g: "handle_mem_write_tlp t ?e = Inr (?e\<lparr>regions := (regions ?e)[r := g]\<rparr>, [])"
    "region_valid r (?e\<lparr>regions := (regions ?e)[r := g]\<rparr>) = region_valid r ?e"
    "\<And>i. peek_region r (?e\<lparr>regions := (regions ?e)[r := g]\<rparr>) i = masked_write t x ?o (peek_region r ?e) i"
    using mem_write_effect[OF bar x(3,4,1) off rv] by (auto simp: Let_def)
  let ?e' = "?e\<lparr>regions := (regions ?e)[r := g]\<rparr>"
  note ep = window_set_ep[OF w(4) refl g(2)]
  have "hop 7 cb (HbDown, t) ?n = Inr ((set_ep k ?e' ?n)\<lparr>nt_up := nt_up ?n @ []\<rparr>)"
    using g(1) rw(2) ep(1) h(7) x(8) by (intro request_hops[OF w(4) route rw(1) chk _ bar]) simp_all
  then have "m_send (rc_master ucb (net_fabric cb)) t s = Inr (fst s, set_ep k ?e' ?n)"
    using rc_send_net[OF chk, of cb s _ ucb] by (simp add: set_ep_def)
  moreover have "sys_mem k r b (fst s, set_ep k ?e' ?n) =
      (\<lambda>i. if addr \<le> i \<and> i < addr + int (length d) then d ! nat (i - addr) else sys_mem k r b s i)"
    unfolding sys_mem_def snd_conv ep(3) g(3) x(10) by (auto simp: fun_eq_iff algebra_simps)
  ultimately show "\<exists>s'. m_send (rc_master ucb (net_fabric cb)) t s = Inr s' \<and> sys_idle k s' \<and>
      sys_acc k r b sz s' = sys_acc k r b sz s \<and>
      sys_mem k r b s' = (\<lambda>i. if addr \<le> i \<and> i < addr + int (length d) then d ! nat (i - addr)
        else sys_mem k r b s i)"
    using h(1) ep(1,2)
    by (intro exI[of _ "(fst s, set_ep k ?e' ?n)"])
      (simp add: sys_idle_def sys_acc_def fun_eq_iff set_ep_def)
next
  fix s :: "'a root_complex_scheme \<times> net" and tag c cs
  assume h: "sys_waiting k s tag (c # cs)"
  obtain q n where s: "s = (q, n)" by (cases s)
  have w: "rc_cpl_queues q = replicate 256 []" "0 \<le> tag" "tag < 256" "nt_up n = c # cs"
    "is_cpl_type (fmt_type_of c)" "tlp_check c" "tlp_tag c = tag" "nat tag < 256"
    using h by (auto simp: sys_waiting_def s)
  have "(replicate 256 [])[nat tag := [c], nat tag := []] = (replicate 256 [] :: tlp list list)"
    using w(8) by (simp add: list_update_same_conv)
  then have "m_recv (rc_master ucb (net_fabric cb)) tag s = Inr (Some c, (q, n\<lparr>nt_up := cs\<rparr>))"
    using w by (simp add: rc_master_def host_recv_cpl_def net_fabric_def s rc_downstream_recv_def
        rc_handle_tlp_def rc_enqueue_cpl_def rc_recv_cpl_def)
  then show "\<exists>s'. m_recv (rc_master ucb (net_fabric cb)) tag s = Inr (Some c, s') \<and> sys_waiting k s' tag cs \<and>
      sys_mem k r b s' = sys_mem k r b s \<and> sys_acc k r b sz s' = sys_acc k r b sz s"
    using h by (auto simp: sys_waiting_def s sys_mem_def sys_acc_def window_def fun_eq_iff)
next
  fix s :: "'a root_complex_scheme \<times> net" and tag
  assume "sys_waiting k s tag []"
  then show "sys_idle k s" by (simp add: sys_waiting_def sys_idle_def)
next
  fix s :: "'a root_complex_scheme \<times> net" and a n a' n'
  assume "sys_acc k r b sz s a n" "a \<le> a'" "0 < n'" "a' + n' \<le> a + n"
  then show "sys_acc k r b sz s a' n'" by (simp add: sys_acc_def)
qed

text \<open>Writing through the fabric leaves the root complex itself alone.\<close>

lemma mem_write_loop_fst:
  "mem_write_loop (rc_master ucb F) attr tc d n addr s = Inr s' \<Longrightarrow> fst s' = fst s"
proof (induction "nat (int (length d) - n)" arbitrary: n addr s rule: less_induct)
  case less
  show ?case
  proof (cases "n < int (length d)")
    case True
    define bl where "bl = mem_chunk (m_max_payload (rc_master ucb F) s) (int (length d) - n) addr"
    have bl: "0 < bl" using True mem_chunk_bounds(1)[where rest = "int (length d) - n"] by (simp add: bl_def)
    from less.prems True obtain t s1 where s1: "host_send F t s = Inr s1"
      "mem_write_loop (rc_master ucb F) attr tc d (n + bl) (addr + bl) s1 = Inr s'"
      by (subst (asm) mem_write_loop.simps) (auto simp: bindE_Inr_iff bl_def rc_master_def Let_def)
    have "nat (int (length d) - (n + bl)) < nat (int (length d) - n)" using bl True by auto
    from less.hyps[OF this s1(2)] s1(1) show ?thesis by (auto simp: host_send_def bindE_Inr_iff)
  qed (use less.prems in \<open>simp add: mem_write_loop.simps\<close>)
qed

text \<open>Property C11: the host writes bytes of any length to the memory of an endpoint behind a
  root port and reads them back. The requests are cut at page and payload limits, routed
  through the host bridge and the port, served by the endpoint, and the completions put
  together again. The write changes no other byte of the region.\<close>

theorem host_write_read:
  assumes "sys_idle k s" "window k r b sz (snd s)" "d \<noteq> []" "b \<le> a" "a + int (length d) \<le> b + sz"
    and "find_region (fst s) a = None"
  shows "\<exists>s1 s2. rc_mem_write ucb (net_fabric cb) attr tc a (PyBytes d) s = Inr s1 \<and>
    rc_mem_read ucb (net_fabric cb) attr' tc' a (int (length d)) s1 = Some (Inr (Some d, s2)) \<and>
    (\<forall>i. i < a \<or> a + int (length d) \<le> i \<longrightarrow> sys_mem k r b s1 i = sys_mem k r b s i) \<and> sys_idle k s2"
proof -
  let ?l = "int (length d)"
  have len: "0 < ?l" using assms(3) by simp
  have acc: "sys_acc k r b sz s a (?l - 0)" using assms(2,4,5) len by (simp add: sys_acc_def)
  obtain s1 where s1: "mem_write_loop (rc_master ucb (net_fabric cb)) attr tc d 0 a s = Inr s1"
    "sys_idle k s1" "sys_acc k r b sz s1 = sys_acc k r b sz s"
    "sys_mem k r b s1 = (\<lambda>i. if a \<le> i \<and> i < a + (?l - 0) then d ! nat (0 + (i - a)) else sys_mem k r b s i)"
    using sys.write_loop[OF assms(1), of 0 d r b sz a ucb cb attr tc] acc by auto
  have acc1: "0 < ?l \<longrightarrow> sys_acc k r b sz s1 a (?l - 0)" using acc s1(3) by simp
  obtain s2 where s2: "mem_read_loop (\<lambda>l b. b) (rc_master ucb (net_fabric cb)) attr' tc' ?l 0 a [] s1 =
      Some (Inr ([] @ map (\<lambda>j. sys_mem k r b s1 (a + int j)) [0..<nat (?l - 0)], s2))" "sys_idle k s2"
    using sys.read_loop[OF s1(2) _ acc1, of ucb cb attr' tc' "[]"] by auto
  have "map (\<lambda>j. sys_mem k r b s1 (a + int j)) [0..<nat (?l - 0)] = d"
    by (rule nth_equalityI) (simp_all add: s1(4))
  then have "rc_mem_read ucb (net_fabric cb) attr' tc' a ?l s1 = Some (Inr (Some d, s2))"
    using s2(1) assms(6) mem_write_loop_fst[OF s1(1)] by (simp add: rc_mem_read_def)
  moreover have "rc_mem_write ucb (net_fabric cb) attr tc a (PyBytes d) s = Inr s1"
    using s1(1) assms(6) by (simp add: rc_mem_write_def)
  ultimately show ?thesis using s1(4) s2(2) by (intro exI[of _ s1] exI[of _ s2]) auto
qed

text \<open>A concrete system: one port, one endpoint with a 16-byte BAR at \<open>0x10000000\<close>.\<close>

definition demo_bridge :: "int \<Rightarrow> int \<Rightarrow> int \<Rightarrow> bool \<Rightarrow> bridge" where
  "demo_bridge dv sec sub root = pfunction.extend
     (pfunction_blank\<lparr>device_num := dv, upstream_connected := True, bar := [0, 0], bar_mask := [0, 0]\<rparr>)
     (bridge.fields 0 sec sub 0 0 0 0 0x10000000 0x100fffff 1 0 0 root)"

definition demo_net :: "bytes \<Rightarrow> net" where
  "demo_net arr = \<lparr>nt_hb = demo_bridge 0 0 255 True, nt_ports = [demo_bridge 1 1 1 False],
     nt_devs = [\<lparr>dev_bus_num = 1, dev_device_num = 0, dev_functions =
       [(demo_endpoint arr)\<lparr>rx_tlp_handler := (\<lambda>_. None)(
          TLP_CFG_READ_0 := Some HandleConfig0, TLP_MEM_READ := Some HandleMemRead, TLP_MEM_READ_64 := Some HandleMemRead,
          TLP_MEM_WRITE := Some HandleMemWrite, TLP_MEM_WRITE_64 := Some HandleMemWrite)\<rparr>]\<rparr>],
     nt_up = []\<rparr>"

lemma demo_bridge_sel [simp]:
  "bar (demo_bridge dv sec sub root) = [0, 0]" "bar_mask (demo_bridge dv sec sub root) = [0, 0]"
  "br_root (demo_bridge dv sec sub root) = root" "pri_bus_num (demo_bridge dv sec sub root) = 0"
  "sec_bus_num (demo_bridge dv sec sub root) = sec" "sub_bus_num (demo_bridge dv sec sub root) = sub"
  "get_id (demo_bridge dv sec sub root) = mk_id 0 dv 0"
  "in_mem_window (demo_bridge dv sec sub root) a = (0x10000000 \<le> a \<and> a \<le> 0x100fffff)"
  by (auto simp: demo_bridge_def bridge.defs pfunction.defs pfunction_blank_def get_id_def in_mem_window_def)

lemma demo_sys: "sys_idle 0 (root_complex_init, demo_net arr)"
  by (simp add: sys_idle_def wired_def rc_above_def on_secondary_def the_ep_def demo_net_def rc_id_def
      mk_id_def root_complex_init_def)

lemma demo_bar_hit:
  assumes "0x10000000 \<le> (i :: int)" "i < 0x10000010"
  shows "match_bar_loop i False 0 [(0x10000000, 0xfffffff0)] = Inr [(0, i - 0x10000000)]"
proof -
  obtain j where j: "i = 0x10000000 + int j" "j < 16"
    using assms that[of "nat (i - 0x10000000)"] by auto
  have "\<forall>j\<in>set [0..<16]. match_bar_loop (0x10000000 + int j) False 0 [(0x10000000, 0xfffffff0)] = Inr [(0, int j)]"
    by code_simp
  then show ?thesis using j by simp
qed

lemma demo_net_sel [simp]:
  "nt_hb (demo_net arr) = demo_bridge 0 0 255 True" "nt_ports (demo_net arr) = [demo_bridge 1 1 1 False]"
  "nt_up (demo_net arr) = []"
  by (simp_all add: demo_net_def)

lemma demo_ep [simp]:
  "bar (the_ep 0 (demo_net arr)) = [0x10000000]" "bar_mask (the_ep 0 (demo_net arr)) = [0xfffffff0]"
  "regions (the_ep 0 (demo_net arr)) = [RegArr arr]"
  by (simp_all add: the_ep_def demo_net_def)

lemma demo_window:
  assumes "length arr = 16"
  shows "window 0 0 0x10000000 16 (snd (root_complex_init, demo_net arr))"
proof -
  have "region_valid 0 (the_ep 0 (demo_net arr)) 0 16" using assms by (simp add: region_valid_def)
  moreover have "routed_to 0 (demo_net arr) i \<and> match_bar (the_ep 0 (demo_net arr)) i False = Inr [(0, i - 0x10000000)]"
    if "0x10000000 \<le> i" "i < 0x10000000 + 16" for i
  proof -
    have "match_bar_loop i False 0 (zip [0, 0] [0, 0]) = Inr []" by simp
    then show ?thesis
      using that demo_bar_hit[of i] by (simp add: routed_to_def mem_taken_def match_bar_def del: match_bar_loop.simps)
  qed
  ultimately show ?thesis by (simp add: window_def)
qed

theorem host_write_read_witness:
  "\<exists>s1 s2. rc_mem_write (\<lambda>_ _ _ s. Inr s) (net_fabric (\<lambda>_ _ _. None)) 0 0 0x10000005 (PyBytes [1, 2, 3])
      (root_complex_init, demo_net (replicate 16 9)) = Inr s1 \<and>
    rc_mem_read (\<lambda>_ _ _ s. Inr s) (net_fabric (\<lambda>_ _ _. None)) 0 0 0x10000005 3 s1 = Some (Inr (Some [1, 2, 3], s2)) \<and>
    sys_mem 0 0 0x10000000 s1 0x10000004 = 9"
proof -
  let ?d = "[1, 2, 3] :: bytes"
  have f: "find_region (fst (root_complex_init, demo_net (replicate 16 9))) a = None" for a
    by (simp add: find_region_def root_complex_init_def)
  have m: "sys_mem 0 0 0x10000000 (root_complex_init, demo_net (replicate 16 9)) 0x10000004 = 9"
    by (simp add: sys_mem_def peek_region_def)
  have l: "int (length ?d) = 3" "?d \<noteq> []" by simp_all
  obtain s1 s2 where
    "rc_mem_write (\<lambda>_ _ _ s. Inr s) (net_fabric (\<lambda>_ _ _. None)) 0 0 0x10000005 (PyBytes ?d)
      (root_complex_init, demo_net (replicate 16 9)) = Inr s1"
    "rc_mem_read (\<lambda>_ _ _ s. Inr s) (net_fabric (\<lambda>_ _ _. None)) 0 0 0x10000005 3 s1 = Some (Inr (Some ?d, s2))"
    "\<forall>i. i < 0x10000005 \<or> 0x10000005 + 3 \<le> i \<longrightarrow>
      sys_mem 0 0 0x10000000 s1 i = sys_mem 0 0 0x10000000 (root_complex_init, demo_net (replicate 16 9)) i"
    using host_write_read[where s = "(root_complex_init, demo_net (replicate 16 9))" and a = "0x10000005"
        and ucb = "\<lambda>_ _ _ s. Inr s" and cb = "\<lambda>_ _ _. None" and attr = 0 and tc = 0 and attr' = 0
        and tc' = 0, OF demo_sys demo_window l(2) _ _ f] unfolding l(1) by auto
  then show ?thesis using m by (intro exI[of _ s1] exI[of _ s2]) simp
qed

end
