(* ===== verification/PcieConfigPath.thy ===== *)
theory PcieConfigPath
  imports PcieLink
begin

text \<open>
  Configuration reads of the host through the wired system of \<open>PcieLink\<close>: the request goes
  down as type 1, becomes type 0 at the port whose secondary bus it names, is answered by the
  function, and the completion climbs back. Shown by interpreting the interface of
  \<open>PcieConfig\<close> on this system.
\<close>

unbundle bit_operations_syntax

section \<open>Registers do not depend on the bus number\<close>

lemma cap_read_bus [simp]: "cap_read_handler (s\<lparr>bus_num := b\<rparr>) = cap_read_handler s"
  by (auto simp: fun_eq_iff cap_read_handler_def split: cap_handler.split)

lemma read_common_bus [simp]: "read_common_register (s\<lparr>bus_num := b\<rparr>) reg = read_common_register s reg"
  by (simp add: read_common_register_def read_capability_register_def read_extended_capability_register_def Let_def)

lemma read_endpoint_bus [simp]:
  "read_endpoint_register (s\<lparr>bus_num := b\<rparr>) reg = read_endpoint_register s reg"
  by (simp add: read_endpoint_register_def)

section \<open>The path of a configuration request\<close>

text \<open>Port \<open>k\<close> is the first whose bus range holds bus \<open>b\<close>, which is its secondary bus.\<close>

definition bus_of :: "nat \<Rightarrow> int \<Rightarrow> net \<Rightarrow> bool" where
  "bus_of k b n \<longleftrightarrow> b \<noteq> sec_bus_num (nt_hb n) \<and> on_secondary (nt_hb n) (mk_id b 0 0) \<and>
     (\<forall>p \<in> set (take k (nt_ports n)). \<not> on_secondary p (mk_id b 0 0)) \<and>
     sec_bus_num (nt_ports n ! k) = b \<and> b \<le> sub_bus_num (nt_ports n ! k)"

definition cfg_dest :: "nat \<Rightarrow> net \<Rightarrow> bool" where
  "cfg_dest k n \<longleftrightarrow> dev_device_num (nt_devs n ! k) = 0 \<and> device_num (the_ep k n) = 0 \<and>
     function_num (the_ep k n) = 0 \<and> rx_tlp_handler (the_ep k n) TLP_CFG_READ_0 = Some HandleConfig0"

lemma port_loop_skip_cfg:
  assumes "fmt_type_of t = TLP_CFG_READ_1" "\<forall>p \<in> set ps. \<not> on_secondary p (tlp_dest_id t)"
  shows "port_loop t i (ps @ qs) = port_loop t (i + length ps) qs"
  using assms(2)
proof (induction ps arbitrary: i)
  case (Cons p ps)
  have "port_verdict t p = Inr Skip" using assms(1) Cons.prems by (simp add: port_verdict_def Let_def)
  then show ?case using Cons by simp
qed simp

lemma cfg_check: "fmt_type_of t \<in> {TLP_CFG_READ_0, TLP_CFG_READ_1} \<Longrightarrow> tlp_check t"
  by (auto simp: tlp_check_def fmt_type_of_def is_mem_type_def is_io_type_def)

lemma serve_hb_cfg:
  assumes "k < length (nt_ports n)" "bus_of k b n" "tlp_dest_id t = mk_id b 0 0"
    "fmt_type_of t = TLP_CFG_READ_1" "tlp_th t = 0"
  shows "serve cb HbDown t n = Inr (n, [(PortDown k, t)])"
proof -
  have ps: "nt_ports n = take k (nt_ports n) @ nt_ports n ! k # drop (Suc k) (nt_ports n)"
    using assms(1) by (simp add: id_take_nth_drop)
  have b: "pid_bus (mk_id b 0 0) = b" by (simp add: mk_id_def)
  have on: "on_secondary (nt_ports n ! k) (mk_id b 0 0)"
    using assms(2) by (simp add: bus_of_def on_secondary_def b)
  have "port_loop t 0 (nt_ports n) = Inr ([ToPort k t], True)"
    using assms port_loop_skip_cfg[OF assms(4), of "take k (nt_ports n)" 0] on
    by (subst ps) (simp add: bus_of_def tlp_copy_id port_verdict_def Let_def)
  then show ?thesis
    using assms cfg_check[of t]
    by (simp add: serve_def bridge_upstream_recv_def Let_def bus_of_def keep_def switch_route_def
        switch_route_down_def hb_dest_def retarget_def b)
qed

lemma serve_port_cfg:
  assumes "k < length (nt_ports n)" "bus_of k b n" "tlp_dest_id t = mk_id b 0 0" "fmt_type_of t = TLP_CFG_READ_1"
  shows "serve cb (PortDown k) t n = Inr (n, [(AtDev k, set_fmt_type TLP_CFG_READ_0 t)])"
proof -
  have b: "pid_bus (mk_id b 0 0) = b" by (simp add: mk_id_def)
  have "on_secondary (nt_ports n ! k) (mk_id b 0 0)" using assms(2) by (simp add: bus_of_def on_secondary_def b)
  then show ?thesis
    using assms cfg_check[of t] cfg_check[of "set_fmt_type TLP_CFG_READ_0 t"]
    by (simp add: serve_def bridge_upstream_recv_def Let_def bus_of_def keep_def bridge_route_def port_dest_def
        retarget_def b)
qed

text \<open>The device captures its bus number, and so does the function.\<close>

definition captured :: "nat \<Rightarrow> int \<Rightarrow> net \<Rightarrow> net" where
  "captured k b n = n\<lparr>nt_devs := (nt_devs n)[k := (nt_devs n ! k)
     \<lparr>dev_bus_num := b, dev_functions := [(the_ep k n)\<lparr>bus_num := b\<rparr>]\<rparr>]\<rparr>"

lemma captured_sel:
  assumes "wired k n"
  shows "the_ep k (captured k b n) = (the_ep k n)\<lparr>bus_num := b\<rparr>" "wired k (captured k b n)"
    "nt_up (captured k b n) = nt_up n" "nt_hb (captured k b n) = nt_hb n" "nt_ports (captured k b n) = nt_ports n"
    "cfg_dest k (captured k b n) = cfg_dest k n" "bus_of k c (captured k b n) = bus_of k c n"
proof -
  have k: "k < length (nt_devs n)" using assms by (simp add: wired_def)
  show ep: "the_ep k (captured k b n) = (the_ep k n)\<lparr>bus_num := b\<rparr>" using k by (simp add: captured_def the_ep_def)
  show "wired k (captured k b n)" using assms k ep by (simp add: wired_def) (simp add: captured_def)
  show "cfg_dest k (captured k b n) = cfg_dest k n" unfolding cfg_dest_def ep using k by (simp add: captured_def)
qed (simp_all add: captured_def bus_of_def)

lemma serve_dev_cfg:
  assumes "wired k n" "cfg_dest k n" "tlp_dest_id t = mk_id b 0 0" "fmt_type_of t = TLP_CFG_READ_0"
    "read_endpoint_register (the_ep k n) (tlp_register_number t) = Inr (Some v)"
  shows "serve cb (AtDev k) t n = Inr (captured k b n, [(PortUp k,
    (set_completion_data tlp_new t (mk_id b 0 0))\<lparr>tlp_data := [v], tlp_byte_count := 4, tlp_length := 1\<rparr>)])"
proof -
  have f: "dev_functions (nt_devs n ! k) = [the_ep k n]" "k < length (nt_devs n)" using assms(1) by (simp_all add: wired_def)
  have i: "pid_bus (mk_id b 0 0) = b" "pid_device (mk_id b 0 0) = 0" "pid_function (mk_id b 0 0) = 0"
    by (simp_all add: mk_id_def)
  have a: "addressed_to t ((the_ep k n)\<lparr>bus_num := b\<rparr>)"
    using assms(2) by (simp add: addressed_to_def assms(3) i cfg_dest_def)
  have u: "upstream_connected (the_ep k n)" using assms(1) by (simp add: wired_def)
  have "upstream_recv (mem_endpoint_handler cb) t ((the_ep k n)\<lparr>bus_num := b\<rparr>) =
    Inr ((the_ep k n)\<lparr>bus_num := b\<rparr>,
      [(set_completion_data tlp_new t (mk_id b 0 0))\<lparr>tlp_data := [v], tlp_byte_count := 4, tlp_length := 1\<rparr>])"
    using config_read_step[where s = "(the_ep k n)\<lparr>bus_num := b\<rparr>" and rd = read_endpoint_register and d = v,
        OF a _ assms(4)] assms(2,4,5) u cfg_check[of t]
    by (simp add: upstream_recv_def handle_tlp_def is_cpl_type_def mem_endpoint_handler_def cfg_dest_def i assms(3))
  then show ?thesis
    using f assms(2-4) cfg_check[of t]
    by (simp add: serve_def device_upstream_recv_def Let_def cfg_dest_def i captured_def)
qed

lemma cfg_hops:
  assumes "wired k n" "cfg_dest k n" "bus_of k b n" "tlp_dest_id t = mk_id b 0 0" "fmt_type_of t = TLP_CFG_READ_1"
    "tlp_th t = 0" "tlp_requester_id t = rc_id"
    "read_endpoint_register (the_ep k n) (tlp_register_number t) = Inr (Some v)" "nt_up n = []"
  shows "\<exists>c. hop 7 cb (HbDown, t) n = Inr ((captured k b n)\<lparr>nt_up := [c]\<rparr>) \<and>
    is_cpl_type (fmt_type_of c) \<and> tlp_check c \<and> tlp_tag c = tlp_tag t \<and> tlp_requester_id c = rc_id \<and>
    tlp_status c = CPL_STATUS_SC \<and> tlp_length c = 1 \<and> tlp_data c = [v]"
proof -
  let ?t = "set_fmt_type TLP_CFG_READ_0 t"
  define c where "c = (set_completion_data tlp_new ?t (mk_id b 0 0))\<lparr>tlp_data := [v], tlp_byte_count := 4, tlp_length := 1\<rparr>"
  have k: "k < length (nt_ports n)" using assms(1) by (simp add: wired_def)
  have c: "is_cpl_type (fmt_type_of c)" "tlp_check c" "tlp_requester_id c = rc_id" "tlp_tag c = tlp_tag t"
    "tlp_status c = CPL_STATUS_SC" "tlp_length c = 1" "tlp_data c = [v]"
    using assms(7) by (simp_all add: c_def) (simp_all add: completion_defs fmt_type_of_def is_cpl_type_def)
  have d: "serve cb (AtDev k) ?t n = Inr (captured k b n, [(PortUp k, c)])"
    unfolding c_def using assms by (intro serve_dev_cfg) (simp_all add: set_fmt_type_def fmt_type_of_def)
  have "hop (Suc (Suc (Suc 4))) cb (HbDown, t) n = hop 4 cb (PortUp k, c) (captured k b n)"
    by (simp only: hop_one[OF serve_hb_cfg[OF k assms(3,4,5,6)]] hop_one[OF serve_port_cfg[OF k assms(3,4,5)]] hop_one[OF d])
  also have "\<dots> = Inr ((captured k b n)\<lparr>nt_up := [c]\<rparr>)"
    using climb[OF captured_sel(2)[OF assms(1)] c(1,2,3), of 1] captured_sel(3)[OF assms(1)] assms(9)
    by (simp add: numeral_eq_Suc)
  finally show ?thesis using c by (intro exI[of _ c]) simp
qed

section \<open>The interface holds\<close>

definition cfg_idle :: "nat \<Rightarrow> int \<Rightarrow> 'a root_complex_scheme \<times> net \<Rightarrow> bool" where
  "cfg_idle k b s \<longleftrightarrow> sys_idle k s \<and> cfg_dest k (snd s) \<and> bus_of k b (snd s)"

definition regs_of :: "nat \<Rightarrow> 'a root_complex_scheme \<times> net \<Rightarrow> int \<Rightarrow> int" where
  "regs_of k s reg = (case read_endpoint_register (the_ep k (snd s)) reg of Inr (Some v) \<Rightarrow> v | _ \<Rightarrow> 0)"

definition reg_readable :: "nat \<Rightarrow> 'a root_complex_scheme \<times> net \<Rightarrow> int \<Rightarrow> bool" where
  "reg_readable k s reg \<longleftrightarrow>
     (case read_endpoint_register (the_ep k (snd s)) reg of Inr (Some v) \<Rightarrow> 0 \<le> v \<and> v < 2 ^ 32 | _ \<Rightarrow> False)"

lemma captured_state:
  assumes "cfg_idle k b (q, n)" "rc_cpl_queues q' = rc_cpl_queues q"
  shows "cfg_idle k b (q', captured k b n)" "regs_of k (q', captured k b n) = regs_of k (q, n)"
    "reg_readable k (q', captured k b n) = reg_readable k (q, n)"
  using assms captured_sel[of k n b]
  by (simp_all add: cfg_idle_def sys_idle_def regs_of_def reg_readable_def fun_eq_iff)

interpretation cfgp: config_link "rc_master ucb (net_fabric cb)" "mk_id b 0 0" "regs_of k" "reg_readable k"
  "cfg_idle k b" for ucb cb k b
proof
  fix s :: "'a root_complex_scheme \<times> net"
  assume h: "cfg_idle k b s"
  let ?t = "(rc_current_tag (fst s) + 1) mod 32"
  have "m_free_tag (rc_master ucb (net_fabric cb)) s = (Some ?t, ((fst s)\<lparr>rc_current_tag := ?t\<rparr>, snd s))"
    using h by (simp add: rc_master_def rc_tag_idle cfg_idle_def sys_idle_def)
  moreover have "0 \<le> ?t" "?t < 256" using pos_mod_bound[of 32 "rc_current_tag (fst s) + 1"] by simp_all
  ultimately show "\<exists>tag s'. m_free_tag (rc_master ucb (net_fabric cb)) s = (Some tag, s') \<and> 0 \<le> tag \<and> tag < 256 \<and>
      cfg_idle k b s' \<and> regs_of k s' = regs_of k s \<and> reg_readable k s' = reg_readable k s"
    using h by (auto simp: cfg_idle_def sys_idle_def regs_of_def reg_readable_def fun_eq_iff)
next
  fix s :: "'a root_complex_scheme \<times> net" and reg tag :: int and t :: tlp
  assume h: "cfg_idle k b s" "reg_readable k s reg" "0 \<le> tag" "tag < 256" "fmt_type_of t = TLP_CFG_READ_1"
    "tlp_requester_id t = rc_id" "tlp_dest_id t = mk_id b 0 0" "tlp_tag t = tag" "tlp_register_number t = reg" "tlp_th t = 0"
  obtain q n where s: "s = (q, n)" by (cases s)
  obtain v where v: "read_endpoint_register (the_ep k n) reg = Inr (Some v)" "0 \<le> v" "v < 2 ^ 32"
    using h(2) by (auto simp: reg_readable_def s split: sum.splits option.splits)
  have w: "wired k n" "nt_up n = []" "rc_cpl_queues q = replicate 256 []" "cfg_dest k n" "bus_of k b n"
    using h(1) by (simp_all add: cfg_idle_def sys_idle_def s)
  obtain c where c: "hop 7 cb (HbDown, t) n = Inr ((captured k b n)\<lparr>nt_up := [c]\<rparr>)"
    "is_cpl_type (fmt_type_of c)" "tlp_check c" "tlp_tag c = tag" "tlp_requester_id c = rc_id"
    "tlp_status c = CPL_STATUS_SC" "tlp_length c = 1" "tlp_data c = [v]"
    using cfg_hops[OF w(1,4,5) h(7,5,10,6) _ w(2)] v(1) h(8,9) by blast
  let ?n = "captured k b n"
  have up: "?n\<lparr>nt_up := []\<rparr> = ?n" using w(2) by (simp add: captured_def)
  have send: "m_send (rc_master ucb (net_fabric cb)) t s = Inr (q, ?n\<lparr>nt_up := [c]\<rparr>)"
    using rc_send_net[of t cb s "?n\<lparr>nt_up := [c]\<rparr>" ucb] cfg_check[of t] c(1) h(5) by (simp add: s)
  have tag: "nat tag < 256" using h(3,4) by simp
  have "(replicate 256 [])[nat tag := [c], nat tag := []] = (replicate 256 [] :: tlp list list)"
    using tag by (simp add: list_update_same_conv)
  then have recv: "m_recv (rc_master ucb (net_fabric cb)) tag (q, ?n\<lparr>nt_up := [c]\<rparr>) = Inr (Some c, (q, ?n))"
    using w(3) c(2-4) tag h(3) up
    by (simp add: rc_master_def host_recv_cpl_def net_fabric_def rc_downstream_recv_def
        rc_handle_tlp_def rc_enqueue_cpl_def rc_recv_cpl_def py_index_def)
  have "config_value (Some c) = Inr (to_le 4 (regs_of k s reg))"
    using c(6-8) v by (simp add: config_value_def regs_of_def s pack_L_def)
  then show "\<exists>s1 r s2. m_send (rc_master ucb (net_fabric cb)) t s = Inr s1 \<and>
      m_recv (rc_master ucb (net_fabric cb)) tag s1 = Inr (r, s2) \<and>
      config_value r = Inr (to_le 4 (regs_of k s reg)) \<and> cfg_idle k b s2 \<and>
      regs_of k s2 = regs_of k s \<and> reg_readable k s2 = reg_readable k s"
    using send recv captured_state[OF h(1)[unfolded s] refl] unfolding s
    by (intro exI[of _ "(q, ?n\<lparr>nt_up := [c]\<rparr>)"] exI[of _ "Some c"] exI[of _ "(q, ?n)"]) simp
qed

text \<open>Property C12: the host reads the configuration space of a function behind a root port: an
  access of any length and alignment returns exactly the bytes of the registers of that
  function, and changes none of them.\<close>

theorem host_config_read:
  assumes "cfg_idle k b s" "\<forall>i. addr \<le> i \<and> i < addr + len \<longrightarrow> reg_readable k s (i div 4)"
  shows "\<exists>s'. config_read (rc_master ucb (net_fabric cb)) (mk_id b 0 0) addr len s =
      Inr (map (\<lambda>j. reg_byte (regs_of k s) (addr + int j)) [0..<nat len], s') \<and>
    cfg_idle k b s' \<and> regs_of k s' = regs_of k s"
  using cfgp.config_read_bytes[OF assms] by blast

text \<open>The concrete system of \<open>PcieLink\<close>, its function with a vendor and a device number.\<close>

definition cfg_net :: net where
  "cfg_net = (let n = demo_net []; e = the_ep 0 n
     in set_ep 0 (e\<lparr>fn_cfg := (fn_cfg e)\<lparr>vendor_id := 0x1234, device_id := 0x5678\<rparr>\<rparr>) n)"

lemma demo_number: "device_num (demo_endpoint arr) = 0" "function_num (demo_endpoint arr) = 0"
  by (simp_all add: demo_endpoint_def pfunction.defs endpoint.defs mem_endpoint.defs pfunction_blank_def)

theorem host_config_read_witness:
  "\<exists>s'. config_read (rc_master (\<lambda>_ _ _ s. Inr s) (net_fabric (\<lambda>_ _ _. None))) (mk_id 1 0 0) 1 2
     (root_complex_init, cfg_net) = Inr ([0x12, 0x78], s')"
proof -
  let ?s = "(root_complex_init, cfg_net)"
  have ep: "read_endpoint_register (the_ep 0 cfg_net) 0 = Inr (Some 0x56781234)"
    by (simp add: cfg_net_def Let_def set_ep_def the_ep_def demo_net_def read_endpoint_register_def read_common_register_def)
  have i: "cfg_idle 0 1 ?s"
    by (simp add: cfg_idle_def sys_idle_def wired_def cfg_dest_def bus_of_def rc_above_def on_secondary_def
        cfg_net_def Let_def set_ep_def the_ep_def demo_net_def rc_id_def mk_id_def root_complex_init_def demo_number)
  have "(x :: int) div 4 = 0" if "1 \<le> x" "x < 1 + 2" for x using that by simp
  then have r: "\<forall>x. 1 \<le> x \<and> x < 1 + 2 \<longrightarrow> reg_readable 0 ?s (x div 4)"
    using ep by (simp add: reg_readable_def)
  have v: "regs_of 0 ?s 0 = 0x56781234" by (simp add: regs_of_def ep)
  have u: "[0..<nat 2] = [0, 1]" by (simp add: upt_rec)
  have w: "(word_of_int (drop_bit 8 0x56781234) :: byte) = 0x12" "(word_of_int (drop_bit 16 0x56781234) :: byte) = 0x78"
    by code_simp+
  have "map (\<lambda>j. reg_byte (regs_of 0 ?s) (1 + int j)) [0..<nat 2] = [0x12, 0x78]"
    unfolding u using w by (simp add: reg_byte_def v)
  then show ?thesis
    using host_config_read[OF i r, of "\<lambda>_ _ _ s. Inr s" "\<lambda>_ _ _. None"] by auto
qed

end
