(* ===== verification/PcieRouting.thy ===== *)
theory PcieRouting
  imports PcieBridge PcieRoot
begin

text \<open>
  What the bridges of \<open>PcieBridge\<close> guarantee: the granularity of their windows in every state
  configuration writes can reach, the window a write programs, and the port a switch chooses.
\<close>

unbundle bit_operations_syntax

section \<open>Windows\<close>

text \<open>The states of a bridge under configuration writes. The lane mask has four bits.\<close>

inductive bridge_reach :: "bridge \<Rightarrow> bridge \<Rightarrow> bool" where
  bridge_start: "bridge_reach s s"
| bridge_written: "bridge_reach s t \<Longrightarrow> 0 \<le> msk \<Longrightarrow> msk < 16 \<Longrightarrow>
    write_bridge_register reg dat msk t = Inr t' \<Longrightarrow> bridge_reach s t'"

text \<open>Bounds of a window of \<open>2 ^ k\<close> byte blocks.\<close>

definition block_bounds :: "nat \<Rightarrow> int \<Rightarrow> int \<Rightarrow> bool" where
  "block_bounds k lo hi \<longleftrightarrow> (\<forall>i < k. \<not> bit lo i \<and> bit hi i)"

definition windows_ok :: "'a bridge_scheme \<Rightarrow> bool" where
  "windows_ok s \<longleftrightarrow> block_bounds 12 (br_io_base s) (br_io_limit s) \<and>
     block_bounds 20 (br_mem_base s) (br_mem_limit s) \<and>
     block_bounds 20 (br_pf_mem_base s) (br_pf_mem_limit s)"

lemma block_bounds_base: "block_bounds k lo hi \<Longrightarrow> lo = lo div 2 ^ k * 2 ^ k"
proof -
  assume h: "block_bounds k lo hi"
  have "take_bit k lo = 0" using h by (intro bit_eqI) (auto simp: block_bounds_def bit_take_bit_iff)
  then show ?thesis by (simp add: take_bit_eq_mod flip: minus_mod_eq_div_mult)
qed

lemma block_bounds_limit: "block_bounds k lo hi \<Longrightarrow> hi = hi div 2 ^ k * 2 ^ k + (2 ^ k - 1)"
proof -
  assume h: "block_bounds k lo hi"
  have "take_bit k hi = mask k" using h by (intro bit_eqI) (auto simp: block_bounds_def bit_simps)
  then have "hi mod 2 ^ k = 2 ^ k - 1" by (simp add: take_bit_eq_mod mask_eq_exp_minus_1)
  then show ?thesis by (simp flip: minus_mod_eq_div_mult)
qed

lemma block_le:
  assumes "block_bounds k lo hi"
  shows "lo \<le> a \<longleftrightarrow> lo div 2 ^ k \<le> a div 2 ^ k" "a \<le> hi \<longleftrightarrow> a div 2 ^ k \<le> hi div 2 ^ k"
proof -
  have p: "0 < (2 :: int) ^ k" by simp
  show "lo \<le> a \<longleftrightarrow> lo div 2 ^ k \<le> a div 2 ^ k"
  proof
    assume "lo div 2 ^ k \<le> a div 2 ^ k"
    then have "lo div 2 ^ k * 2 ^ k \<le> a div 2 ^ k * 2 ^ k" using p by simp
    moreover have "a div 2 ^ k * 2 ^ k \<le> a" using p by (simp flip: minus_mod_eq_div_mult)
    ultimately show "lo \<le> a" using block_bounds_base[OF assms] by linarith
  qed (simp add: zdiv_mono1)
  show "a \<le> hi \<longleftrightarrow> a div 2 ^ k \<le> hi div 2 ^ k"
  proof
    assume "a div 2 ^ k \<le> hi div 2 ^ k"
    then have "a div 2 ^ k * 2 ^ k \<le> hi div 2 ^ k * 2 ^ k" using p by simp
    moreover have "a < a div 2 ^ k * 2 ^ k + 2 ^ k"
      using pos_mod_bound[OF p, of a] div_mult_mod_eq[of a "2 ^ k"] by linarith
    ultimately show "a \<le> hi" using block_bounds_limit[OF assms] by linarith
  qed (simp add: zdiv_mono1)
qed

text \<open>Updates keep the bounds: they touch only the bits above, or set the low ones.\<close>

lemma const_bits:
  "bit (0xf000 :: int) i \<longleftrightarrow> 12 \<le> i \<and> i < 16" "bit (0xfff00000 :: int) i \<longleftrightarrow> 20 \<le> i \<and> i < 32"
  "bit (0xfff :: int) i \<longleftrightarrow> i < 12" "bit (0xfffff :: int) i \<longleftrightarrow> i < 20"
  "bit (0xc :: int) i \<longleftrightarrow> 2 \<le> i \<and> i < 4" "bit (0x2 :: int) i \<longleftrightarrow> i = 1" "bit (0x3 :: int) i \<longleftrightarrow> i < 2"
proof -
  have e: "(0xf000 :: int) = push_bit 12 (mask 4)" "(0xfff00000 :: int) = push_bit 20 (mask 12)"
    "(0xfff :: int) = mask 12" "(0xfffff :: int) = mask 20" "(0xc :: int) = push_bit 2 (mask 2)"
    "(0x2 :: int) = push_bit 1 (mask 1)" "(0x3 :: int) = mask 2"
    by (simp_all add: mask_eq_exp_minus_1)
  show "bit (0xf000 :: int) i \<longleftrightarrow> 12 \<le> i \<and> i < 16" unfolding e(1) bit_push_bit_iff bit_mask_iff by auto
  show "bit (0xfff00000 :: int) i \<longleftrightarrow> 20 \<le> i \<and> i < 32" unfolding e(2) bit_push_bit_iff bit_mask_iff by auto
  show "bit (0xfff :: int) i \<longleftrightarrow> i < 12" unfolding e(3) bit_mask_iff by simp
  show "bit (0xfffff :: int) i \<longleftrightarrow> i < 20" unfolding e(4) bit_mask_iff by simp
  show "bit (0xc :: int) i \<longleftrightarrow> 2 \<le> i \<and> i < 4" unfolding e(5) bit_push_bit_iff bit_mask_iff by auto
  show "bit (0x2 :: int) i \<longleftrightarrow> i = 1" unfolding e(6) bit_push_bit_iff bit_mask_iff by auto
  show "bit (0x3 :: int) i \<longleftrightarrow> i < 2" unfolding e(7) bit_mask_iff by simp
qed

lemma write_common_windows:
  "write_common_register reg dat msk s = Inr s' \<Longrightarrow> windows_ok s' = windows_ok s"
  by (auto simp: write_common_register_def Let_def write_capability_register_def write_extended_capability_register_def
      caps_write_register_def cap_write_handler_def windows_ok_def bindE_Inr_iff
      split: if_splits option.splits cap_handler.splits)

lemma write_bar_windows: "write_bar k dat msk s = Inr s' \<Longrightarrow> windows_ok s' = windows_ok s"
  by (auto simp: write_bar_def bindE_Inr_iff windows_ok_def)

lemma write_bridge_windows:
  assumes "windows_ok s" "0 \<le> msk" "msk < 16" "write_bridge_register reg dat msk s = Inr s'"
  shows "windows_ok s'"
proof -
  have a: "0 \<le> push_bit n (msk AND c)" "0 \<le> msk AND c" "0 \<le> push_bit n msk" for n c
    using assms(2) by (simp_all add: and_nonnegative_int_iff)
  have lane: "i div 8 < 2 \<longleftrightarrow> i < 16" for i :: nat by auto
  consider "reg = 4" | "reg = 5" | "reg \<in> {7, 12}" | "reg \<in> {8, 9, 10, 11}" | "reg \<notin> {4, 5, 7, 8, 9, 10, 11, 12}" by blast
  then show ?thesis
  proof cases
    case 1
    then show ?thesis using assms
      by (auto simp: write_bridge_register_def bindE_Inr_iff dest!: write_common_windows write_bar_windows)
  next
    case 2
    then show ?thesis using assms
      by (auto simp: write_bridge_register_def bindE_Inr_iff dest!: write_bar_windows)
  next
    case 3
    then show ?thesis using assms(1,2,4)
      by (auto simp: write_bridge_register_def windows_ok_def block_bounds_def bit_byte_mask_update a bit_simps const_bits
          less_eq_div_iff_mult_less_eq div_less_iff_less_mult)
  next
    case 4
    then show ?thesis using assms(1,2,4)
      by (auto simp: write_bridge_register_def windows_ok_def block_bounds_def bit_byte_mask_update a bit_simps const_bits
          less_eq_div_iff_mult_less_eq div_less_iff_less_mult)
  next
    case 5
    then show ?thesis using assms(1,4)
      by (auto simp: write_bridge_register_def split: if_splits dest!: write_common_windows)
        (auto simp: windows_ok_def)
  qed
qed

lemma reach_windows: "bridge_reach s t \<Longrightarrow> windows_ok s \<Longrightarrow> windows_ok t"
  by (induction rule: bridge_reach.induct) (auto intro: write_bridge_windows)

lemma set_windows [simp]:
  "windows_ok (set_device_type v s) = windows_ok s" "windows_ok (set_vendor v d s) = windows_ok s"
  by (simp_all add: windows_ok_def set_device_type_def set_vendor_def)

lemma init_windows:
  "bridge_init = Inr s \<Longrightarrow> windows_ok s" "root_port_init = Inr s \<Longrightarrow> windows_ok s"
proof -
  show b: "windows_ok s" if "bridge_init = Inr s" for s
    using that by (auto simp: bridge_init_def bindE_Inr_iff)
      (simp add: windows_ok_def block_bounds_def const_bits pfunction.defs bridge.defs)
  show "root_port_init = Inr s \<Longrightarrow> windows_ok s"
    by (auto simp: root_port_init_def switch_downstream_port_init_def bindE_Inr_iff b)
qed

lemma bridge_init_ok:
  "\<exists>s. bridge_init = Inr s \<and> bus_num s = 0 \<and> function_num s = 0 \<and> br_mem_base s = 0 \<and>
     br_mem_limit s = 0xfffff \<and> br_pf_mem_base s = 0 \<and> br_pf_mem_limit s = 0xfffff"
  by (simp add: bridge_init_def init_defs set_device_type_def bridge.defs)



text \<open>Programming the window: the halves of the memory window register written by
  the enumeration for a window of whole 1 MB blocks in 32-bit space make the bridge forward
  exactly the addresses of that window.\<close>

lemma mem_window_value:
  assumes "0 \<le> lo" "lo < 2 ^ 32" "lo mod 2 ^ 20 = 0" "0 \<le> hi" "hi < 2 ^ 32" "hi mod 2 ^ 20 = 2 ^ 20 - 1"
    and "block_bounds 20 b l" "fits 32 b" "fits 32 l"
    and d: "d = push_bit 16 (drop_bit 16 hi AND 0xfff0) OR (drop_bit 16 lo AND 0xfff0)"
  shows "byte_mask_update b (push_bit 2 (0xf AND 0x3)) (push_bit 16 d) 0xfff00000 = lo"
    "byte_mask_update l (0xf AND 0xc) d 0xfff00000 OR 0xfffff = hi"
proof -
  have "take_bit 20 lo = 0" using assms(3) by (simp add: take_bit_eq_mod)
  then have "\<not> bit (take_bit 20 lo) i" for i by simp
  then have lo0: "\<not> bit lo i" if "i < 20" for i using that by (simp add: bit_take_bit_iff)
  have "take_bit 20 hi = mask 20" using assms(6) by (simp add: take_bit_eq_mod mask_eq_exp_minus_1)
  then have "bit (take_bit 20 hi) i = (i < 20)" for i by (simp add: bit_mask_iff)
  then have hi1: "bit hi i" if "i < 20" for i using that by (auto simp: bit_take_bit_iff)
  have f: "fits 32 lo" "fits 32 hi" using assms(1,2,4,5) by (simp_all add: fits_def)
  have top: "\<not> bit lo i" "\<not> bit hi i" "\<not> bit b i" "\<not> bit l i" if "32 \<le> i" for i
    using that fits_bit_high[OF f(1)] fits_bit_high[OF f(2)] fits_bit_high[OF assms(8)] fits_bit_high[OF assms(9)] by auto
  have low: "\<not> bit b i" "bit l i" if "i < 20" for i using assms(7) that by (simp_all add: block_bounds_def)
  have c: "bit (0xfff0 :: int) i \<longleftrightarrow> 4 \<le> i \<and> i < 16" "bit (0xf :: int) i \<longleftrightarrow> i < 4" for i
  proof -
    have e: "(0xfff0 :: int) = push_bit 4 (mask 12)" "(0xf :: int) = mask 4" by (simp_all add: mask_eq_exp_minus_1)
    show "bit (0xfff0 :: int) i \<longleftrightarrow> 4 \<le> i \<and> i < 16" unfolding e(1) bit_push_bit_iff bit_mask_iff by auto
    show "bit (0xf :: int) i \<longleftrightarrow> i < 4" unfolding e(2) bit_mask_iff by simp
  qed
  have dl: "bit (push_bit 16 d) i = bit lo i" if "20 \<le> i" "i < 32" for i
    using that by (auto simp: d bit_simps c)
  have dh: "bit d i = bit hi i" if "20 \<le> i" "i < 32" for i
    using that by (auto simp: d bit_simps c)
  have lane: "2 \<le> i div 8 \<and> i div 8 < 4 \<longleftrightarrow> 16 \<le> i \<and> i < 32" for i :: nat
    by (simp add: less_eq_div_iff_mult_less_eq div_less_iff_less_mult)
  have m: "0 \<le> push_bit 2 ((0xf :: int) AND 0x3)" "0 \<le> (0xf :: int) AND 0xc"
    "bit (push_bit 2 ((0xf :: int) AND 0x3)) j \<longleftrightarrow> 2 \<le> j \<and> j < 4" "bit ((0xf :: int) AND 0xc) j \<longleftrightarrow> 2 \<le> j \<and> j < 4" for j
    by (simp, simp, simp_all only: bit_push_bit_iff bit_and_iff c const_bits) auto
  show "byte_mask_update b (push_bit 2 (0xf AND 0x3)) (push_bit 16 d) 0xfff00000 = lo"
  proof (rule bit_eqI)
    fix i
    show "bit (byte_mask_update b (push_bit 2 (0xf AND 0x3)) (push_bit 16 d) 0xfff00000) i = bit lo i"
      unfolding bit_byte_mask_update[OF m(1)] m(3) lane const_bits
      using lo0[of i] top(1,3)[of i] low(1)[of i] dl[of i] by (auto simp: not_less)
  qed
  show "byte_mask_update l (0xf AND 0xc) d 0xfff00000 OR 0xfffff = hi"
  proof (rule bit_eqI)
    fix i
    show "bit (byte_mask_update l (0xf AND 0xc) d 0xfff00000 OR 0xfffff) i = bit hi i"
      unfolding bit_or_iff bit_byte_mask_update[OF m(2)] m(4) lane const_bits
      using hi1[of i] top(2,4)[of i] dh[of i] by (auto simp: not_less)
  qed
qed

text \<open>Programming the memory window. The register value the enumeration writes for
  a window of whole 1 MB blocks in 32-bit space makes the bridge forward exactly the addresses
  of that window, besides those of its prefetchable window.\<close>

theorem mem_window_programmed:
  assumes "0 \<le> lo" "lo < 2 ^ 32" "lo mod 2 ^ 20 = 0" "0 \<le> hi" "hi < 2 ^ 32" "hi mod 2 ^ 20 = 2 ^ 20 - 1"
    and "windows_ok s" "fits 32 (br_mem_base s)" "fits 32 (br_mem_limit s)"
    and "write_bridge_register 8 (push_bit 16 (drop_bit 16 hi AND 0xfff0) OR (drop_bit 16 lo AND 0xfff0)) 0xf s = Inr s'"
  shows "in_mem_window s' a \<longleftrightarrow> lo \<le> a \<and> a \<le> hi \<or> br_pf_mem_base s \<le> a \<and> a \<le> br_pf_mem_limit s"
  using mem_window_value[OF assms(1-6) _ assms(8,9) refl] assms(7,10)
  by (auto simp: write_bridge_register_def windows_ok_def in_mem_window_def)

theorem mem_window_programmed_witness:
  "\<exists>s s'. bridge_init = Inr s \<and>
     write_bridge_register 8 (push_bit 16 (drop_bit 16 0x102fffff AND 0xfff0) OR (drop_bit 16 0x10000000 AND 0xfff0)) 0xf s = Inr s' \<and>
     in_mem_window s' 0x10234567 \<and> \<not> in_mem_window s' 0x10300000"
proof -
  obtain s where s: "bridge_init = Inr s" "br_mem_base s = 0" "br_mem_limit s = 0xfffff" "br_pf_mem_base s = 0"
    "br_pf_mem_limit s = 0xfffff"
    using bridge_init_ok by blast
  let ?d = "push_bit 16 (drop_bit 16 0x102fffff AND 0xfff0) OR (drop_bit 16 0x10000000 AND 0xfff0) :: int"
  obtain s' where s': "write_bridge_register 8 ?d 0xf s = Inr s'" by (simp add: write_bridge_register_def)
  have "in_mem_window s' a \<longleftrightarrow> 0x10000000 \<le> a \<and> a \<le> 0x102fffff \<or> br_pf_mem_base s \<le> a \<and> a \<le> br_pf_mem_limit s" for a
    using s s' by (intro mem_window_programmed[OF _ _ _ _ _ _ init_windows(1)[OF s(1)]]) (simp_all add: fits_def)
  then show ?thesis using s s' by (intro exI[of _ s] exI[of _ s']) simp
qed

section \<open>The port a switch chooses\<close>

definition claims :: "int \<Rightarrow> 'b bridge_scheme \<Rightarrow> bool" where
  "claims a p \<longleftrightarrow> match_bar p a False \<noteq> Inr [] \<or> in_mem_window p a"

lemma find_index_first: "find_index P xs = Some k \<Longrightarrow> j < k \<Longrightarrow> \<not> P (xs ! j)"
proof (induction xs arbitrary: j k)
  case (Cons x xs)
  then show ?case by (cases j) (auto split: if_splits)
qed simp

lemma find_index_None: "find_index P xs = None \<longleftrightarrow> (\<forall>x \<in> set xs. \<not> P x)"
  by (induction xs) auto

lemma port_loop_mem:
  assumes "is_mem_rw_type (fmt_type_of t)" "\<forall>p \<in> set ps. \<exists>m. match_bar p (tlp_address t) False = Inr m"
  shows "port_loop t i ps =
    (case find_index (claims (tlp_address t)) ps of
       Some k \<Rightarrow> Inr ([ToPort (i + k) (tlp_copy t)], True)
     | None \<Rightarrow> Inr ([], False))"
  using assms(2)
proof (induction ps arbitrary: i)
  case (Cons p ps)
  obtain m where m: "match_bar p (tlp_address t) False = Inr m" using Cons.prems by auto
  have "port_verdict t p = Inr (if claims (tlp_address t) p then Take else Skip)"
    using assms(1) m mem_rw_cases[OF assms(1)] by (simp add: port_verdict_def Let_def claims_def)
  then show ?case using Cons by (simp split: option.split)
qed simp

text \<open>Property C15: a switch sends a memory request to the first of its ports that claims the
  address by a BAR or a window, and to no other; a request no port claims is answered upstream
  as unsupported, with the tag and the requester of the request.\<close>

theorem switch_routes_to_first:
  assumes "is_mem_rw_type (fmt_type_of t)" "tlp_check t"
    and "\<forall>p \<in> set ps. \<exists>m. match_bar p (tlp_address t) False = Inr m"
  shows "(\<exists>k < length ps. claims (tlp_address t) (ps ! k) \<and> (\<forall>j < k. \<not> claims (tlp_address t) (ps ! j)) \<and>
      switch_route ps t False s = Inr [ToPort k (tlp_copy t)]) \<or>
    (\<forall>p \<in> set ps. \<not> claims (tlp_address t) p) \<and>
      (\<exists>c. switch_route ps t False s = Inr [ToUpstream c] \<and> fmt_type_of c = TLP_CPL \<and>
         tlp_status c = CPL_STATUS_UR \<and> tlp_tag c = tlp_tag t \<and> tlp_requester_id c = tlp_requester_id t)"
proof -
  have c: "tlp_check (switch_ur t s)" "fmt_type_of (switch_ur t s) = TLP_CPL" "tlp_status (switch_ur t s) = CPL_STATUS_UR"
    "tlp_tag (switch_ur t s) = tlp_tag t" "tlp_requester_id (switch_ur t s) = tlp_requester_id t"
    by (simp_all add: switch_ur_def completion_defs tlp_check_def fmt_type_of_def tlp_type_defs tlp_new_def)
  show ?thesis
  proof (cases "find_index (claims (tlp_address t)) ps")
    case None
    have l: "port_loop t 0 ps = Inr ([], False)" using port_loop_mem[OF assms(1,3), of 0] by (simp add: None)
    have "switch_route ps t False s = Inr [ToUpstream (switch_ur t s)]"
      using c(1) assms(2) by (simp add: switch_route_def switch_route_down_def bridge_upstream_send_def l)
    then show ?thesis using c None by (auto simp: find_index_None)
  next
    case (Some k)
    have l: "port_loop t 0 ps = Inr ([ToPort k (tlp_copy t)], True)"
      using port_loop_mem[OF assms(1,3), of 0] by (simp add: Some)
    have "switch_route ps t False s = Inr [ToPort k (tlp_copy t)]"
      using assms(2) by (simp add: switch_route_def switch_route_down_def l)
    then show ?thesis using find_index_Some[OF Some] find_index_first[OF Some] by auto
  qed
qed

text \<open>A message routed by identifier is lost. The switch compares the requester
  instead of the destination with the bus range of a port, so a message from the root complex
  to a device behind a port is not sent there: it is answered as an unsupported request.\<close>

theorem id_message_misrouted:
  assumes "is_msg_id_type (fmt_type_of t)" "tlp_check t" "tlp_requester_id t = rc_id"
    and "\<forall>p \<in> set ps. get_id p \<noteq> tlp_dest_id t \<and> 0 < sec_bus_num p"
  shows "\<exists>c. switch_route ps t False s = Inr [ToUpstream c] \<and> tlp_status c = CPL_STATUS_UR"
proof -
  have "port_loop t i ps = Inr ([], False)" for i
    using assms(4)
  proof (induction ps arbitrary: i)
    case (Cons p ps)
    have "port_verdict t p = Inr Skip"
      using assms(1,3) Cons.prems
      by (auto simp: port_verdict_def Let_def is_msg_id_type_def is_cpl_type_def on_secondary_def rc_id_def mk_id_def)
    then show ?case using Cons by simp
  qed simp
  moreover have "tlp_check (switch_ur t s)" "tlp_status (switch_ur t s) = CPL_STATUS_UR"
    by (simp_all add: switch_ur_def completion_defs tlp_check_def fmt_type_of_def tlp_type_defs tlp_new_def)
  ultimately show ?thesis using assms(2) by (auto simp: switch_route_def switch_route_down_def bridge_upstream_send_def)
qed

text \<open>Two ports behind a switch, the second with the window from \<open>0x10000000\<close>.\<close>

definition two_ports :: "bridge \<Rightarrow> bridge list" where
  "two_ports s = [s\<lparr>bar_mask := [0, 0], bar := [0, 0], sec_bus_num := 1, sub_bus_num := 1, br_mem_base := 0, br_mem_limit := 0xfffff,
       br_pf_mem_base := 0, br_pf_mem_limit := 0xfffff, device_num := 1\<rparr>,
     s\<lparr>bar_mask := [0, 0], bar := [0, 0], sec_bus_num := 2, sub_bus_num := 2, br_mem_base := 0x10000000, br_mem_limit := 0x100fffff,
       br_pf_mem_base := 0, br_pf_mem_limit := 0xfffff, device_num := 2\<rparr>]"

theorem switch_routes_to_first_witness:
  "\<exists>s. bridge_init = Inr s \<and>
     switch_route (two_ports s) ((set_fmt_type TLP_MEM_READ tlp_new)\<lparr>tlp_address := 0x10000000, tlp_length := 1\<rparr>) False s =
     Inr [ToPort 1 ((set_fmt_type TLP_MEM_READ tlp_new)\<lparr>tlp_address := 0x10000000, tlp_length := 1\<rparr>)]"
proof -
  obtain s where s: "bridge_init = Inr s" using bridge_init_ok by blast
  let ?t = "(set_fmt_type TLP_MEM_READ tlp_new)\<lparr>tlp_address := 0x10000000, tlp_length := 1\<rparr>"
  have t: "is_mem_rw_type (fmt_type_of ?t)" "tlp_check ?t" "tlp_copy ?t = ?t" "tlp_address ?t = 0x10000000"
    by (simp_all add: is_mem_rw_type_def fmt_type_of_def set_fmt_type_def tlp_check_def is_io_type_def tlp_copy_def tlp_new_def)
  have m: "\<forall>p \<in> set (two_ports s). \<exists>m. match_bar p (tlp_address ?t) False = Inr m"
    by (simp add: two_ports_def match_bar_def)
  have c: "\<not> claims 0x10000000 (two_ports s ! 0)" "claims 0x10000000 (two_ports s ! 1)" "length (two_ports s) = 2"
    by (simp_all add: two_ports_def claims_def match_bar_def in_mem_window_def)
  have "k = 1" if "k < 2" "claims 0x10000000 (two_ports s ! k)" for k
    using that c(1) by (cases k) auto
  moreover have "\<not> (\<forall>p \<in> set (two_ports s). \<not> claims (tlp_address ?t) p)"
    using c nth_mem[of 1 "two_ports s"] unfolding t(4) by auto
  then obtain k where "k < length (two_ports s)" "claims (tlp_address ?t) (two_ports s ! k)"
    "switch_route (two_ports s) ?t False s = Inr [ToPort k (tlp_copy ?t)]"
    using switch_routes_to_first[OF t(1,2) m, of s] by blast
  ultimately show ?thesis using s unfolding t(3,4) c(3) by blast
qed

theorem id_message_misrouted_witness:
  "\<exists>s c. bridge_init = Inr s \<and>
     switch_route (two_ports s) ((set_fmt_type TLP_MSG_ID tlp_new)\<lparr>tlp_dest_id := mk_id 2 0 0\<rparr>) False s = Inr [ToUpstream c] \<and>
     tlp_status c = CPL_STATUS_UR \<and> on_secondary (two_ports s ! 1) (mk_id 2 0 0)"
proof -
  obtain s where s: "bridge_init = Inr s" "bus_num s = 0" "function_num s = 0"
    using bridge_init_ok by blast
  let ?t = "(set_fmt_type TLP_MSG_ID tlp_new)\<lparr>tlp_dest_id := mk_id 2 0 0\<rparr>"
  have t: "is_msg_id_type (fmt_type_of ?t)" "tlp_check ?t" "tlp_requester_id ?t = rc_id"
    by (simp_all add: is_msg_id_type_def fmt_type_of_def set_fmt_type_def tlp_check_def tlp_type_defs tlp_new_def rc_id_def)
  have "\<forall>p \<in> set (two_ports s). get_id p \<noteq> tlp_dest_id ?t \<and> 0 < sec_bus_num p"
    using s by (simp add: two_ports_def get_id_def mk_id_def)
  then show ?thesis
    using id_message_misrouted[OF t, of "two_ports s" s] s(1)
    by (auto simp: two_ports_def on_secondary_def mk_id_def)
qed

end
