(* ===== verification/PcieEnum.thy ===== *)
theory PcieEnum
  imports PcieConfig PcieDevice
begin

text \<open>
  Bus enumeration by the root complex (\<open>enumerate_segment\<close> and \<open>enumerate\<close> of
  \<open>fpga/lib/pcie/tb/pcie.py\<close>): discovery of functions, sizing and placing of base address
  registers, the walk of the capability list, device control, and the windows of bridges. The
  tree items the source mutates are addressed by their identifier; bus numbers only grow, so
  an identifier belongs to one item. The walk of a capability list need not end: not ending
  is \<open>None\<close>. The recursion over buses is bounded by the bus number, which is written as a
  byte before each recursive call.
\<close>

unbundle bit_operations_syntax

section \<open>The device tree under construction\<close>

fun add_child :: "pcie_id \<Rightarrow> tree_node \<Rightarrow> tree \<Rightarrow> tree"
  and add_child_list :: "pcie_id \<Rightarrow> tree_node \<Rightarrow> tree list \<Rightarrow> tree list" where
  "add_child i n (Tree t cs) =
     (if i = ti_get_id t then Tree t (cs @ [Tree n []]) else Tree t (add_child_list i n cs))"
| "add_child_list i n [] = []"
| "add_child_list i n (c # cs) =
     (case find_dev i c of
        Some _ \<Rightarrow> add_child i n c # cs
      | None \<Rightarrow> c # add_child_list i n cs)"

definition on_rc ::
  "('a root_complex_scheme \<Rightarrow> 'a root_complex_scheme) \<Rightarrow> ('a, 'e) host \<Rightarrow> ('a, 'e) host" where
  "on_rc f s = (f (fst s), snd s)"

definition on_item :: "pcie_id \<Rightarrow> (tree_node \<Rightarrow> tree_node) \<Rightarrow> ('a, 'e) host \<Rightarrow> ('a, 'e) host" where
  "on_item i f s = on_rc (\<lambda>r. r\<lparr>rc_tree := update_dev i f (rc_tree r)\<rparr>) s"

definition pack_H :: "int \<Rightarrow> bytes result" where
  "pack_H x = (if fits 16 x then Inr (to_le 2 x) else Inl StructError)"

section \<open>Base address registers\<close>

text \<open>The three kinds of window. Each result is the value for the register.\<close>

definition bar_mask_of :: "nat \<Rightarrow> int \<Rightarrow> int \<Rightarrow> int" where
  "bar_mask_of width low v = (NOT v AND mask width) OR low"

definition place_io_bar :: "int \<Rightarrow> 'a root_complex_scheme \<Rightarrow> int \<times> int \<times> 'a root_complex_scheme" where
  "place_io_bar v r =
     (let m = bar_mask_of 32 3 v; base = align (rc_io_limit r) m
      in ((v AND 3) OR base, m + 1, r\<lparr>rc_io_limit := base + (m + 1)\<rparr>))"

definition place_mem_bar :: "nat \<Rightarrow> int \<Rightarrow> 'a root_complex_scheme \<Rightarrow> int \<times> int \<times> 'a root_complex_scheme" where
  "place_mem_bar width v r =
     (let m = bar_mask_of width 15 v; base = align (rc_mem_limit r) m
      in ((v AND 15) OR base, m + 1, r\<lparr>rc_mem_limit := base + (m + 1)\<rparr>))"

definition place_pf_bar :: "int \<Rightarrow> 'a root_complex_scheme \<Rightarrow> int \<times> int \<times> 'a root_complex_scheme" where
  "place_pf_bar v r =
     (let m = bar_mask_of 64 15 v; base = align (rc_pf_mem_limit r) m
      in ((v AND 15) OR base, m + 1, r\<lparr>rc_pf_mem_limit := base + (m + 1)\<rparr>))"

definition bar_reg :: "nat \<Rightarrow> int" where
  "bar_reg k = 0x010 + int k * 4"

definition note_bar :: "pcie_id \<Rightarrow> nat \<Rightarrow> int \<Rightarrow> int \<Rightarrow> ('a, 'e) host \<Rightarrow> ('a, 'e) host" where
  "note_bar dev k v sz = on_item dev (\<lambda>n. n\<lparr>ti_bar := (ti_bar n)[k := Some v],
     ti_bar_size := (ti_bar_size n)[k := Some sz]\<rparr>)"

text \<open>One round of the loop: the number of registers taken beyond the first.\<close>

definition enum_bar ::
  "('a, 'e) host master \<Rightarrow> pcie_id \<Rightarrow> nat \<Rightarrow> nat \<Rightarrow> ('a, 'e) host \<Rightarrow> (nat \<times> ('a, 'e) host) result" where
  "enum_bar M dev cnt k s =
     bindE (config_write_dword M dev (bar_reg k) 0xffffffff s) (\<lambda>s1.
     bindE (config_read_dword M dev (bar_reg k) s1) (\<lambda>(v, s2).
       if v = 0 then Inr (0, s2)
       else if v AND 1 \<noteq> 0 then
         (case place_io_bar v (fst s2) of (v', sz, r) \<Rightarrow>
            bindE (config_write_dword M dev (bar_reg k) v' (note_bar dev k v' sz (r, snd s2)))
              (\<lambda>s3. Inr (0, s3)))
       else if v AND 4 \<noteq> 0 then
         if cnt - 1 \<le> k then Inl (PyException ''Invalid BAR configuration'')
         else
           bindE (config_write_dword M dev (bar_reg (k + 1)) 0xffffffff s2) (\<lambda>s3.
           bindE (config_read_dword M dev (bar_reg (k + 1)) s3) (\<lambda>(v2, s4).
             let v64 = v OR push_bit 32 v2
             in case (if v64 AND 8 \<noteq> 0 then place_pf_bar v64 (fst s4) else place_mem_bar 64 v64 (fst s4)) of
                  (v', sz, r) \<Rightarrow>
                    bindE (config_write_dword M dev (bar_reg k) (v' AND 0xffffffff)
                        (note_bar dev k v' sz (r, snd s4))) (\<lambda>s5.
                    bindE (config_write_dword M dev (bar_reg (k + 1)) (drop_bit 32 v' AND 0xffffffff) s5)
                      (\<lambda>s6. Inr (1, s6)))))
       else
         (case place_mem_bar 32 v (fst s2) of (v', sz, r) \<Rightarrow>
            bindE (config_write_dword M dev (bar_reg k) v' (note_bar dev k v' sz (r, snd s2)))
              (\<lambda>s3. Inr (0, s3)))))"

function enum_bars ::
  "('a, 'e) host master \<Rightarrow> pcie_id \<Rightarrow> nat \<Rightarrow> nat \<Rightarrow> ('a, 'e) host \<Rightarrow> ('a, 'e) host result" where
  "enum_bars M dev cnt k s =
     (if k < cnt then
        bindE (enum_bar M dev cnt k s) (\<lambda>(extra, s'). enum_bars M dev cnt (Suc (k + extra)) s')
      else Inr s)"
  by pat_completeness auto
termination by (relation "measure (\<lambda>(M, dev, cnt, k, s). cnt - k)") auto

declare enum_bars.simps [simp del]

section \<open>Capabilities and device control\<close>

definition note_cap :: "pcie_id \<Rightarrow> int \<Rightarrow> int \<Rightarrow> ('a, 'e) host \<Rightarrow> ('a, 'e) host" where
  "note_cap dev i ptr = on_item dev (\<lambda>n. n\<lparr>ti_capabilities := ti_capabilities n @ [(i, ptr)]\<rparr>)"

definition cap_entry ::
  "('a, 'e) host master \<Rightarrow> pcie_id \<Rightarrow> int \<Rightarrow> ('a, 'e) host \<Rightarrow> (int \<times> ('a, 'e) host) result" where
  "cap_entry M dev ptr s =
     bindE (config_read M dev ptr 2 s) (\<lambda>(d, s1).
       bindE (py_nth d 0) (\<lambda>i. bindE (py_nth d 1) (\<lambda>nxt.
         Inr (uint nxt AND 0xfc, note_cap dev (uint i) ptr s1))))"

partial_function (option) cap_walk ::
  "('a, 'e) host master \<Rightarrow> pcie_id \<Rightarrow> int \<Rightarrow> ('a, 'e) host \<Rightarrow> ('a, 'e) host result option" where
  "cap_walk M dev ptr s =
     (if ptr > 0 then
        (case cap_entry M dev ptr s of
           Inl e \<Rightarrow> Some (Inl e)
         | Inr (nxt, s1) \<Rightarrow> cap_walk M dev nxt s1)
      else Some (Inr s))"

definition new_dev_ctrl :: "'a root_complex_scheme \<Rightarrow> int \<Rightarrow> int \<Rightarrow> int" where
  "new_dev_ctrl r cap ctrl_sta =
     (let max_payload = min 0x5 (min (rc_max_payload_size r) (cap AND 7));
          ext_tag = rc_extended_tag_field_enable r \<and> cap AND 0x20 \<noteq> 0;
          max_read_req = min 0x5 (rc_max_read_request_size r)
      in (ctrl_sta AND 0x8e1f) OR push_bit 5 max_payload OR flag 8 ext_tag OR push_bit 12 max_read_req)"

definition set_dev_ctrl ::
  "('a, 'e) host master \<Rightarrow> pcie_id \<Rightarrow> ('a, 'e) host \<Rightarrow> ('a, 'e) host result" where
  "set_dev_ctrl M dev s =
     bindE (capability_read_dword M host_tree dev 0x10 4 s) (\<lambda>(cap, s1).
     bindE (capability_read_dword M host_tree dev 0x10 8 s1) (\<lambda>(ctl, s2).
       capability_write_dword M host_tree dev 0x10 8 (new_dev_ctrl (fst s2) cap ctl) s2))"

definition set_bus_master ::
  "('a, 'e) host master \<Rightarrow> pcie_id \<Rightarrow> ('a, 'e) host \<Rightarrow> ('a, 'e) host result" where
  "set_bus_master M dev s =
     bindE (config_read_word M dev 0x04 s) (\<lambda>(v, s1). config_write_word M dev 0x04 (v OR 4) s1)"

section \<open>Bridges\<close>

text \<open>\<open>bytearray([...])\<close> refuses a number above 255.\<close>

definition bus_bytes :: "int list \<Rightarrow> bytes result" where
  "bus_bytes xs = (if \<forall>x \<in> set xs. 0 \<le> x \<and> x < 256 then Inr (map word_of_int xs) else Inl ValueError)"

definition write_bus_numbers ::
  "('a, 'e) host master \<Rightarrow> pcie_id \<Rightarrow> int \<Rightarrow> int \<Rightarrow> int \<Rightarrow> ('a, 'e) host \<Rightarrow> ('a, 'e) host result" where
  "write_bus_numbers M dev p sec sub s =
     bindE (bus_bytes [p, sec, sub]) (\<lambda>d. config_write M dev 0x018 (PyBytes d) s)"

definition write_halves ::
  "('a, 'e) host master \<Rightarrow> pcie_id \<Rightarrow> int \<Rightarrow> int \<Rightarrow> int \<Rightarrow> ('a, 'e) host \<Rightarrow> ('a, 'e) host result" where
  "write_halves M dev addr lo hi s =
     bindE (pack_H lo) (\<lambda>a. bindE (pack_H hi) (\<lambda>b. config_write M dev addr (PyBytes (a @ b)) s))"

definition write_windows ::
  "('a, 'e) host master \<Rightarrow> pcie_id \<Rightarrow> tree_node \<Rightarrow> ('a, 'e) host \<Rightarrow> ('a, 'e) host result" where
  "write_windows M dev n s =
     bindE (config_write M dev 0x01C (PyBytes [word_of_int (drop_bit 8 (ti_io_base n) AND 0xf0),
         word_of_int (drop_bit 8 (ti_io_limit n) AND 0xf0)]) s) (\<lambda>s1.
     bindE (write_halves M dev 0x030 (drop_bit 16 (ti_io_base n)) (drop_bit 16 (ti_io_limit n)) s1) (\<lambda>s2.
     bindE (write_halves M dev 0x020 (drop_bit 16 (ti_mem_base n) AND 0xfff0)
         (drop_bit 16 (ti_mem_limit n) AND 0xfff0) s2) (\<lambda>s3.
     bindE (write_halves M dev 0x024 (drop_bit 16 (ti_prefetchable_mem_base n) AND 0xfff0)
         (drop_bit 16 (ti_prefetchable_mem_limit n) AND 0xfff0) s3) (\<lambda>s4.
     bindE (pack_L (drop_bit 32 (ti_prefetchable_mem_base n))) (\<lambda>a.
     bindE (config_write M dev 0x028 (PyBytes a) s4) (\<lambda>s5.
     bindE (pack_L (drop_bit 32 (ti_prefetchable_mem_limit n))) (\<lambda>b.
       config_write M dev 0x02c (PyBytes b) s5)))))))"

section \<open>A bus segment\<close>

record enum_args =
  ea_bus_mastering :: bool
  ea_configure_msi :: bool

text \<open>Alignment of the limits at both ends of a segment, with their record in its item.\<close>

definition align_limits :: "'a root_complex_scheme \<Rightarrow> 'a root_complex_scheme" where
  "align_limits r = r\<lparr>rc_io_limit := align (rc_io_limit r) 0xfff,
     rc_mem_limit := align (rc_mem_limit r) 0xfffff,
     rc_pf_mem_limit := align (rc_pf_mem_limit r) 0xfffff\<rparr>"

definition open_segment :: "pcie_id \<Rightarrow> int \<Rightarrow> ('a, 'e) host \<Rightarrow> ('a, 'e) host" where
  "open_segment item bus s0 =
     (let s = on_rc align_limits s0; r = fst s
      in on_item item (\<lambda>n. n\<lparr>ti_sec_bus_num := bus,
           ti_io_base := rc_io_limit r, ti_io_limit := rc_io_limit r,
           ti_mem_base := rc_mem_limit r, ti_mem_limit := rc_mem_limit r,
           ti_prefetchable_mem_base := rc_pf_mem_limit r,
           ti_prefetchable_mem_limit := rc_pf_mem_limit r\<rparr>) s)"

definition close_segment :: "pcie_id \<Rightarrow> int \<Rightarrow> ('a, 'e) host \<Rightarrow> ('a, 'e) host" where
  "close_segment item sub_bus s0 =
     (let s = on_rc align_limits s0; r = fst s
      in on_item item (\<lambda>n. n\<lparr>ti_sub_bus_num := sub_bus, ti_io_limit := rc_io_limit r - 1,
           ti_mem_limit := rc_mem_limit r - 1,
           ti_prefetchable_mem_limit := rc_pf_mem_limit r - 1\<rparr>) s)"

text \<open>The loop carries the next secondary bus number and the highest bus seen. \<open>rec\<close> is the
  recursive call for the segment behind a bridge.\<close>

type_synonym ('a, 'e) seg_state = "int \<times> int \<times> ('a, 'e) host"

definition enum_bridge ::
  "(pcie_id \<Rightarrow> int \<Rightarrow> ('a, 'e) host \<Rightarrow> (int \<times> ('a, 'e) host) result option) \<Rightarrow>
   ('a, 'e) host master \<Rightarrow> pcie_id \<Rightarrow> int \<Rightarrow> ('a, 'e) seg_state \<Rightarrow> ('a, 'e) seg_state result option" where
  "enum_bridge rec M dev bus st =
     (case st of (sec_bus, sub_bus, s) \<Rightarrow>
        bindO (Some (write_bus_numbers M dev bus sec_bus 255 s)) (\<lambda>s1.
        bindO (rec dev sec_bus s1) (\<lambda>(sub_bus', s2).
        bindO (Some (write_bus_numbers M dev bus sec_bus sub_bus' s2)) (\<lambda>s3.
          case find_dev dev (host_tree s3) of
            None \<Rightarrow> Some (Inl AttributeError)
          | Some n \<Rightarrow>
              bindO (Some (write_windows M dev n s3)) (\<lambda>s4. Some (Inr (sub_bus' + 1, sub_bus', s4)))))))"

definition new_item :: "pcie_id \<Rightarrow> bytes \<Rightarrow> tree_node" where
  "new_item dev d = tree_node_init\<lparr>ti_bus_num := pid_bus dev, ti_device_num := pid_device dev,
     ti_function_num := pid_function dev, ti_vendor_id := from_le (slice d 0 2),
     ti_device_id := from_le (slice d 2 4)\<rparr>"

definition enum_found ::
  "(pcie_id \<Rightarrow> int \<Rightarrow> ('a, 'e) host \<Rightarrow> (int \<times> ('a, 'e) host) result option) \<Rightarrow>
   (int \<Rightarrow> nat) \<Rightarrow> 'a user_callback \<Rightarrow> 'e fabric \<Rightarrow> enum_args \<Rightarrow>
   pcie_id \<Rightarrow> int \<Rightarrow> ('a, 'e) seg_state \<Rightarrow> ('a, 'e) seg_state result option" where
  "enum_found rec lg ucb F args dev bus st =
     (case st of (sec_bus, sub_bus, s) \<Rightarrow>
        let M = rc_master ucb F
        in bindO (Some (config_read_byte M dev 0x00e s)) (\<lambda>(v, s1).
           let is_bridge = (v AND 0x7f = 1)
           in bindO (Some (enum_bars M dev (if is_bridge then 2 else 6) 0 s1)) (\<lambda>s2.
              bindO (Some (config_read_byte M dev 0x34 s2)) (\<lambda>(ptr, s3).
              bindO (cap_walk M dev (uint ptr AND 0xfc) s3) (\<lambda>s4.
              bindO (Some (set_dev_ctrl M dev s4)) (\<lambda>s5.
              bindO (Some (if ea_bus_mastering args then set_bus_master M dev s5 else Inr s5)) (\<lambda>s6.
              bindO (Some (if ea_configure_msi args
                           then bindE (configure_msi lg ucb F dev s6) (\<lambda>(_, s7). Inr s7) else Inr s6)) (\<lambda>s7.
                if is_bridge then enum_bridge rec M dev bus (sec_bus, sub_bus, s7)
                else Some (Inr (sec_bus, sub_bus, s7))))))))))"

definition enum_function ::
  "(pcie_id \<Rightarrow> int \<Rightarrow> ('a, 'e) host \<Rightarrow> (int \<times> ('a, 'e) host) result option) \<Rightarrow>
   (int \<Rightarrow> nat) \<Rightarrow> 'a user_callback \<Rightarrow> 'e fabric \<Rightarrow> enum_args \<Rightarrow> pcie_id \<Rightarrow>
   int \<Rightarrow> int \<Rightarrow> int \<Rightarrow> ('a, 'e) seg_state \<Rightarrow> ('a, 'e) seg_state result option" where
  "enum_function rec lg ucb F args item bus d f st =
     (case st of (sec_bus, sub_bus, s) \<Rightarrow>
        let M = rc_master ucb F; dev = mk_id bus d f
        in bindO (Some (config_read M dev 0x000 4 s)) (\<lambda>(v, s1).
           if v = replicate 4 0xff then Some (Inr (sec_bus, sub_bus, s1))
           else enum_found rec lg ucb F args dev bus (sec_bus, sub_bus,
             on_rc (\<lambda>r. r\<lparr>rc_tree := add_child item (new_item dev v) (rc_tree r)\<rparr>) s1)))"

definition enum_device ::
  "(pcie_id \<Rightarrow> int \<Rightarrow> ('a, 'e) host \<Rightarrow> (int \<times> ('a, 'e) host) result option) \<Rightarrow>
   (int \<Rightarrow> nat) \<Rightarrow> 'a user_callback \<Rightarrow> 'e fabric \<Rightarrow> enum_args \<Rightarrow> pcie_id \<Rightarrow>
   int \<Rightarrow> int \<Rightarrow> ('a, 'e) seg_state \<Rightarrow> ('a, 'e) seg_state result option" where
  "enum_device rec lg ucb F args item bus d st =
     (if bus = 0 \<and> d = 0 then Some (Inr st)
      else case st of (sec_bus, sub_bus, s) \<Rightarrow>
        let M = rc_master ucb F; dev = mk_id bus d 0
        in bindO (Some (config_read_dword M dev 0x000 s)) (\<lambda>(v, s1).
           if v = 0xffffffff then Some (Inr (sec_bus, sub_bus, s1))
           else bindO (Some (config_read_byte M dev 0x00e s1)) (\<lambda>(h, s2).
             foldO (enum_function rec lg ucb F args item bus d)
               (if h AND 0x80 \<noteq> 0 then [0..7] else [0]) (sec_bus, sub_bus, s2))))"

definition enum_segment_body ::
  "(pcie_id \<Rightarrow> int \<Rightarrow> ('a, 'e) host \<Rightarrow> (int \<times> ('a, 'e) host) result option) \<Rightarrow>
   (int \<Rightarrow> nat) \<Rightarrow> 'a user_callback \<Rightarrow> 'e fabric \<Rightarrow> enum_args \<Rightarrow>
   pcie_id \<Rightarrow> int \<Rightarrow> ('a, 'e) host \<Rightarrow> (int \<times> ('a, 'e) host) result option" where
  "enum_segment_body rec lg ucb F args item bus s =
     bindO (foldO (enum_device rec lg ucb F args item bus) [0..31] (bus + 1, bus, open_segment item bus s))
       (\<lambda>(sec_bus, sub_bus, s1). Some (Inr (sub_bus, close_segment item sub_bus s1)))"

text \<open>\<open>n\<close> bounds the nesting of buses.\<close>

primrec enumerate_segment ::
  "nat \<Rightarrow> (int \<Rightarrow> nat) \<Rightarrow> 'a user_callback \<Rightarrow> 'e fabric \<Rightarrow> enum_args \<Rightarrow>
   pcie_id \<Rightarrow> int \<Rightarrow> ('a, 'e) host \<Rightarrow> (int \<times> ('a, 'e) host) result option" where
  "enumerate_segment 0 = (\<lambda>lg ucb F args item bus s. None)"
| "enumerate_segment (Suc n) = (\<lambda>lg ucb F args item bus s.
     enum_segment_body (enumerate_segment n lg ucb F args) lg ucb F args item bus s)"

text \<open>\<open>hb\<close> reaches the host bridge, which belongs to the root complex but stands in front of
  the system below.\<close>

definition enumerate ::
  "((bridge \<Rightarrow> bridge) \<Rightarrow> 'e \<Rightarrow> 'e) \<Rightarrow> (int \<Rightarrow> nat) \<Rightarrow> 'a user_callback \<Rightarrow> 'e fabric \<Rightarrow> enum_args \<Rightarrow>
   ('a, 'e) host \<Rightarrow> ('a, 'e) host result option" where
  "enumerate hb lg ucb F args s0 =
     (let s = on_rc (\<lambda>r. r\<lparr>rc_io_limit := rc_io_base r, rc_mem_limit := rc_mem_base r,
                           rc_pf_mem_limit := rc_pf_mem_base r, rc_tree := Tree tree_node_init []\<rparr>) s0
      in bindO (enumerate_segment 256 lg ucb F args (mk_id 0 0 0) 0 s) (\<lambda>(_, s1).
         let r = fst s1
         in Some (Inr (r, hb (\<lambda>b. b\<lparr>br_io_base := rc_io_base r, br_io_limit := rc_io_limit r,
              br_mem_base := rc_mem_base r, br_mem_limit := rc_mem_limit r,
              br_pf_mem_base := rc_pf_mem_base r, br_pf_mem_limit := rc_pf_mem_limit r\<rparr>) (snd s1)))))"

section \<open>Nesting of buses\<close>

text \<open>\<open>agree P m m'\<close>: the two computations are equal, and what they return satisfies \<open>P\<close>.\<close>

definition agree :: "('x \<Rightarrow> bool) \<Rightarrow> 'x result option \<Rightarrow> 'x result option \<Rightarrow> bool" where
  "agree P m m' \<longleftrightarrow> m = m' \<and> (\<forall>x. m = Some (Inr x) \<longrightarrow> P x)"

lemma agree_bindO:
  "m = m' \<Longrightarrow> (\<And>x. m' = Some (Inr x) \<Longrightarrow> agree P (k x) (k' x)) \<Longrightarrow> agree P (bindO m k) (bindO m' k')"
  by (auto simp: agree_def bindO_def split: option.splits sum.splits)

lemma agree_bind:
  "agree Q m m' \<Longrightarrow> (\<And>x. Q x \<Longrightarrow> agree P (k x) (k' x)) \<Longrightarrow> agree P (bindO m k) (bindO m' k')"
  by (auto simp: agree_def bindO_def split: option.splits sum.splits)

lemma agree_return: "P x \<Longrightarrow> agree P (Some (Inr x)) (Some (Inr x))"
  by (simp add: agree_def)

lemma agree_raise: "agree P (Some (Inl e)) (Some (Inl e))"
  by (simp add: agree_def)

lemma agree_case:
  "(\<And>a b. x = (a, b) \<Longrightarrow> agree P (f a b) (g a b)) \<Longrightarrow>
   agree P (case x of (a, b) \<Rightarrow> f a b) (case x of (a, b) \<Rightarrow> g a b)"
  by (cases x) simp

lemma agree_foldO:
  "(\<And>x s. P s \<Longrightarrow> agree P (f x s) (f' x s)) \<Longrightarrow> P s \<Longrightarrow> agree P (foldO f xs s) (foldO f' xs s)"
  by (induction xs arbitrary: s) (auto intro: agree_return agree_bind)

text \<open>The loop state inside a segment, and what a call for a segment promises.\<close>

definition seg_ok :: "int \<Rightarrow> ('a, 'e) seg_state \<Rightarrow> bool" where
  "seg_ok bus st \<longleftrightarrow> (case st of (sec_bus, sub_bus, s) \<Rightarrow> bus < sec_bus \<and> bus \<le> sub_bus \<and> sub_bus \<le> 255)"

definition calls_agree ::
  "int \<Rightarrow> (pcie_id \<Rightarrow> int \<Rightarrow> ('a, 'e) host \<Rightarrow> (int \<times> ('a, 'e) host) result option) \<Rightarrow>
   (pcie_id \<Rightarrow> int \<Rightarrow> ('a, 'e) host \<Rightarrow> (int \<times> ('a, 'e) host) result option) \<Rightarrow> bool" where
  "calls_agree bus rec rec' \<longleftrightarrow>
     (\<forall>item b s. bus < b \<and> b \<le> 255 \<longrightarrow> agree (\<lambda>(sub, _). b \<le> sub \<and> sub \<le> 255) (rec item b s) (rec' item b s))"

lemma write_bus_numbers_sec: "write_bus_numbers M dev p sec sub s = Inr s' \<Longrightarrow> sec \<le> 255"
  by (auto simp: write_bus_numbers_def bus_bytes_def bindE_Inr_iff split: if_splits)

lemma enum_bridge_agree:
  assumes "calls_agree bus rec rec'" "seg_ok bus st"
  shows "agree (seg_ok bus) (enum_bridge rec M dev bus st) (enum_bridge rec' M dev bus st)"
proof -
  obtain sec_bus sub_bus s where st: "st = (sec_bus, sub_bus, s)" by (cases st)
  have sec: "bus < sec_bus" using assms(2) by (simp add: st seg_ok_def)
  have rest: "agree (seg_ok bus)
      (bindO (rec dev sec_bus s1) K) (bindO (rec' dev sec_bus s1) K)"
    if "write_bus_numbers M dev bus sec_bus 255 s = Inr s1"
      "\<And>sub s2. sec_bus \<le> sub \<Longrightarrow> sub \<le> 255 \<Longrightarrow> agree (seg_ok bus) (K (sub, s2)) (K (sub, s2))" for s1 K
  proof (rule agree_bind)
    show "agree (\<lambda>(sub, _). sec_bus \<le> sub \<and> sub \<le> 255) (rec dev sec_bus s1) (rec' dev sec_bus s1)"
      using assms(1) sec write_bus_numbers_sec[OF that(1)] unfolding calls_agree_def by blast
  qed (use that(2) in auto)
  show ?thesis
    unfolding enum_bridge_def st prod.case
    by (intro agree_bindO[OF refl] rest)
      (use sec in \<open>auto simp: seg_ok_def intro!: agree_bindO agree_return agree_raise split: option.split\<close>)
qed

lemma enum_found_agree:
  assumes "calls_agree bus rec rec'" "seg_ok bus st"
  shows "agree (seg_ok bus) (enum_found rec lg ucb F args dev bus st) (enum_found rec' lg ucb F args dev bus st)"
proof -
  obtain sec_bus sub_bus s where st: "st = (sec_bus, sub_bus, s)" by (cases st)
  have ok: "seg_ok bus (sec_bus, sub_bus, s')" for s' :: "('a, 'b) host"
    using assms(2) by (simp add: st seg_ok_def)
  have last: "agree (seg_ok bus)
     (if b then enum_bridge rec M dev bus (sec_bus, sub_bus, s') else Some (Inr (sec_bus, sub_bus, s')))
     (if b then enum_bridge rec' M dev bus (sec_bus, sub_bus, s') else Some (Inr (sec_bus, sub_bus, s')))" for b M s'
    using enum_bridge_agree[OF assms(1) ok] ok by (simp add: agree_return)
  show ?thesis
    unfolding enum_found_def st prod.case Let_def
    by (intro agree_bindO[OF refl] agree_case last)
qed

lemma enum_function_agree:
  assumes "calls_agree bus rec rec'" "seg_ok bus st"
  shows "agree (seg_ok bus) (enum_function rec lg ucb F args item bus d f st)
    (enum_function rec' lg ucb F args item bus d f st)"
proof -
  obtain sec_bus sub_bus s where st: "st = (sec_bus, sub_bus, s)" by (cases st)
  have ok: "seg_ok bus (sec_bus, sub_bus, s')" for s' :: "('a, 'b) host"
    using assms(2) by (simp add: st seg_ok_def)
  show ?thesis
    unfolding enum_function_def st prod.case Let_def
    by (intro agree_bindO[OF refl] agree_case) (simp add: agree_return ok enum_found_agree[OF assms(1)])
qed

lemma enum_device_agree:
  assumes "calls_agree bus rec rec'" "seg_ok bus st"
  shows "agree (seg_ok bus) (enum_device rec lg ucb F args item bus d st)
    (enum_device rec' lg ucb F args item bus d st)"
proof -
  obtain sec_bus sub_bus s where st: "st = (sec_bus, sub_bus, s)" by (cases st)
  have ok: "seg_ok bus (sec_bus, sub_bus, s')" for s' :: "('a, 'b) host"
    using assms(2) by (simp add: st seg_ok_def)
  have fold: "agree (seg_ok bus)
      (foldO (enum_function rec lg ucb F args item bus d) fs (sec_bus, sub_bus, s'))
      (foldO (enum_function rec' lg ucb F args item bus d) fs (sec_bus, sub_bus, s'))" for fs s'
    by (rule agree_foldO[OF enum_function_agree[OF assms(1)] ok])
  have found: "agree (seg_ok bus)
      (if v = 0xffffffff then Some (Inr (sec_bus, sub_bus, s1))
       else bindO m (\<lambda>(h, s2). foldO (enum_function rec lg ucb F args item bus d) (fs h) (sec_bus, sub_bus, s2)))
      (if v = 0xffffffff then Some (Inr (sec_bus, sub_bus, s1))
       else bindO m (\<lambda>(h, s2). foldO (enum_function rec' lg ucb F args item bus d) (fs h) (sec_bus, sub_bus, s2)))"
    for v :: int and m :: "(byte \<times> ('a, 'b) host) result option" and fs s1
    by (cases "v = 0xffffffff") (simp_all add: agree_return ok agree_bindO agree_case fold)
  show ?thesis
  proof (cases "bus = 0 \<and> d = 0")
    case True
    then show ?thesis using assms(2) by (simp add: enum_device_def agree_return)
  next
    case False
    show ?thesis
      unfolding enum_device_def st prod.case Let_def if_not_P[OF False]
      by (intro agree_bindO[OF refl] agree_case found)
  qed
qed

lemma enum_segment_body_agree:
  assumes "calls_agree bus rec rec'" "bus \<le> 255"
  shows "agree (\<lambda>(sub, _). bus \<le> sub \<and> sub \<le> 255) (enum_segment_body rec lg ucb F args item bus s)
    (enum_segment_body rec' lg ucb F args item bus s)"
proof -
  have ok: "seg_ok bus (bus + 1, bus, open_segment item bus s)" using assms(2) by (simp add: seg_ok_def)
  show ?thesis
    unfolding enum_segment_body_def
    by (rule agree_bind[OF agree_foldO[OF enum_device_agree[OF assms(1)] ok]])
      (auto simp: seg_ok_def intro: agree_return)
qed

lemma enumerate_segment_agree:
  "nat (256 - bus) \<le> n \<Longrightarrow> nat (256 - bus) \<le> m \<Longrightarrow> bus \<le> 255 \<Longrightarrow>
   agree (\<lambda>(sub, _). bus \<le> sub \<and> sub \<le> 255) (enumerate_segment n lg ucb F args item bus s)
     (enumerate_segment m lg ucb F args item bus s)"
proof (induction n arbitrary: m bus item s)
  case (Suc n)
  obtain k where k: "m = Suc k" using Suc.prems by (cases m) auto
  have "calls_agree bus (enumerate_segment n lg ucb F args) (enumerate_segment k lg ucb F args)"
    using Suc.prems k by (auto simp: calls_agree_def intro!: Suc.IH)
  from enum_segment_body_agree[OF this Suc.prems(3)] show ?case by (simp add: k)
qed simp

text \<open>Property C13: the recursion over buses is bounded by the bus numbers. Nesting deeper than
  the bus numbers left changes nothing (the source recurses without a bound: its result is the
  one of depth \<open>256 - bus\<close>), and a segment that is enumerated returns a subordinate bus
  between its own bus and 255.\<close>

theorem enumerate_segment_depth:
  assumes "0 \<le> bus" "bus \<le> 255" "nat (256 - bus) \<le> n"
  shows "enumerate_segment n lg ucb F args item bus s =
      enumerate_segment (nat (256 - bus)) lg ucb F args item bus s \<and>
    (\<forall>sub s'. enumerate_segment n lg ucb F args item bus s = Some (Inr (sub, s')) \<longrightarrow> bus \<le> sub \<and> sub \<le> 255)"
  using enumerate_segment_agree[OF assms(3) _ assms(2), of "nat (256 - bus)" lg ucb F args item s]
  by (auto simp: agree_def)

text \<open>A segment on which nothing answers: every configuration read is all ones.\<close>

definition silent :: "unit fabric" where
  "silent = \<lparr>fab_send = (\<lambda>_ e. Inr e), fab_wait = (\<lambda>_ e. ([], e))\<rparr>"

definition quiet :: "('a, unit) host \<Rightarrow> bool" where
  "quiet s \<longleftrightarrow> rc_cpl_queues (fst s) = replicate 256 []"

interpretation sil: config_link "rc_master ucb silent" dev "\<lambda>_ _. 0xffffffff" "\<lambda>_ _. True" quiet for ucb dev
proof
  fix s :: "('a, unit) host"
  assume q: "quiet s"
  let ?t = "(rc_current_tag (fst s) + 1) mod 32"
  have "m_free_tag (rc_master ucb silent) s = (Some ?t, ((fst s)\<lparr>rc_current_tag := ?t\<rparr>, snd s))"
    using q by (simp add: rc_master_def rc_tag_idle quiet_def)
  moreover have "0 \<le> ?t" "?t < 256" using pos_mod_bound[of 32 "rc_current_tag (fst s) + 1"] by simp_all
  ultimately show "\<exists>tag s'. m_free_tag (rc_master ucb silent) s = (Some tag, s') \<and> 0 \<le> tag \<and> tag < 256 \<and>
      quiet s' \<and> (\<lambda>_. 0xffffffff) = (\<lambda>_. 0xffffffff :: int) \<and> (\<lambda>_. True) = (\<lambda>_. True)"
    using q by (simp add: quiet_def)
next
  fix s :: "('a, unit) host" and tag :: int and t :: tlp
  assume h: "quiet s" "0 \<le> tag" "tag < 256" "fmt_type_of t = TLP_CFG_READ_1"
  have chk: "tlp_check t"
    using h(4) by (auto simp: tlp_check_def fmt_type_of_def is_mem_type_def is_io_type_def)
  have n: "nat tag < 256" using h(2,3) by simp
  have r: "to_le 4 0xffffffff = replicate 4 (0xff :: byte)" by code_simp
  have "m_send (rc_master ucb silent) t s = Inr s"
    using chk by (cases s) (simp add: rc_master_def host_send_def rc_send_def silent_def)
  moreover have "m_recv (rc_master ucb silent) tag s = Inr (None, s)"
    using h(1-3) n
    by (cases s) (simp add: rc_master_def host_recv_cpl_def silent_def rc_recv_cpl_def quiet_def py_index_def)
  ultimately show "\<exists>s1 r s2. m_send (rc_master ucb silent) t s = Inr s1 \<and>
      m_recv (rc_master ucb silent) tag s1 = Inr (r, s2) \<and> config_value r = Inr (to_le 4 0xffffffff) \<and> quiet s2 \<and>
      (\<lambda>_. 0xffffffff) = (\<lambda>_. 0xffffffff :: int) \<and> (\<lambda>_. True) = (\<lambda>_. True)"
    using h(1) by (intro exI[of _ s] exI[of _ None] conjI) (simp_all add: config_value_def r)
qed

lemma silent_device:
  assumes "quiet s"
  shows "\<exists>s'. enum_device rec lg ucb silent args item bus d (sec, sub, s) = Some (Inr (sec, sub, s')) \<and> quiet s'"
proof (cases "bus = 0 \<and> d = 0")
  case False
  obtain s1 where "config_read_dword (rc_master ucb silent) (mk_id bus d 0) 0 s = Inr (0xffffffff, s1)" "quiet s1"
    using sil.config_read_dword_reg[where reg = 0 and ucb = ucb and dev = "mk_id bus d 0", OF assms] by auto
  then show ?thesis
    unfolding enum_device_def if_not_P[OF False] by (intro exI[of _ s1]) (simp add: Let_def)
qed (use assms in \<open>simp add: enum_device_def\<close>)

lemma silent_devices:
  "quiet s \<Longrightarrow> \<exists>s'. foldO (enum_device rec lg ucb silent args item bus) ds (sec, sub, s) = Some (Inr (sec, sub, s')) \<and> quiet s'"
proof (induction ds arbitrary: s)
  case (Cons d ds)
  obtain s1 where "enum_device rec lg ucb silent args item bus d (sec, sub, s) = Some (Inr (sec, sub, s1))" "quiet s1"
    using silent_device[OF Cons.prems] by blast
  then show ?case using Cons.IH by simp
qed simp

lemma silent_segment:
  assumes "quiet s"
  shows "\<exists>s'. enumerate_segment (Suc n) lg ucb silent args item bus s = Some (Inr (bus, s'))"
proof -
  have "quiet (open_segment item bus s)"
    using assms by (simp add: quiet_def open_segment_def on_item_def on_rc_def align_limits_def Let_def)
  from silent_devices[OF this, of "enumerate_segment n lg ucb silent args" lg ucb args item bus "[0..31]" "bus + 1" bus]
  obtain s' where "foldO (enum_device (enumerate_segment n lg ucb silent args) lg ucb silent args item bus) [0..31]
      (bus + 1, bus, open_segment item bus s) = Some (Inr (bus + 1, bus, s'))" by blast
  then show ?thesis
    unfolding enumerate_segment.simps enum_segment_body_def by (intro exI[of _ "close_segment item bus s'"]) simp
qed

theorem enumerate_segment_depth_witness:
  "\<exists>s'. enumerate_segment 7 (\<lambda>_. 0) (\<lambda>_ _ _ s. Inr s) silent \<lparr>ea_bus_mastering = True, ea_configure_msi = False\<rparr>
      (mk_id 0 1 0) 252 (root_complex_init, ()) = Some (Inr (252, s')) \<and>
    enumerate_segment 4 (\<lambda>_. 0) (\<lambda>_ _ _ s. Inr s) silent \<lparr>ea_bus_mastering = True, ea_configure_msi = False\<rparr>
      (mk_id 0 1 0) 252 (root_complex_init, ()) = Some (Inr (252, s'))"
proof -
  let ?e = "\<lambda>n. enumerate_segment n (\<lambda>_. 0) (\<lambda>_ _ _ s. Inr s) silent \<lparr>ea_bus_mastering = True, ea_configure_msi = False\<rparr>
      (mk_id 0 1 0) 252 (root_complex_init, ())"
  have q: "quiet (root_complex_init, ())" by (simp add: quiet_def root_complex_init_def)
  obtain s' where s': "?e (Suc 6) = Some (Inr (252, s'))"
    using silent_segment[OF q] by blast
  have "?e 7 = ?e (nat (256 - 252))" by (rule enumerate_segment_depth[THEN conjunct1]) simp_all
  then have "?e 7 = ?e 4" by simp
  then show ?thesis using s' by (intro exI[of _ s']) simp
qed

section \<open>Placement of base address registers\<close>

text \<open>What reading back a BAR of \<open>w\<close> bits gives after writing all ones: ones above the size
  \<open>2 ^ k\<close> and the type bits \<open>f\<close>.\<close>

definition sized_bar :: "nat \<Rightarrow> nat \<Rightarrow> int \<Rightarrow> int" where
  "sized_bar w k f = (2 ^ w - 2 ^ k) OR f"

lemma low_bits:
  assumes "0 \<le> f" "f < (16 :: int)" "bit f n"
  shows "n < 4"
proof -
  have "f = take_bit 4 f" using assms(1,2) by (simp add: take_bit_eq_mod)
  then have "bit (take_bit 4 f) n" using assms(3) by simp
  then show ?thesis by (simp add: bit_take_bit_iff)
qed

lemma bar_mask_of_sized:
  assumes "4 \<le> k" "k \<le> w" "0 \<le> f" "f < 16"
  shows "bar_mask_of w 15 (sized_bar w k f) = 2 ^ k - 1" "sized_bar w k f AND 15 = f"
proof -
  have e: "(2 :: int) ^ w - 2 ^ k = push_bit k (mask (w - k))"
    using assms(2) by (simp add: push_bit_eq_mult mask_eq_exp_minus_1 algebra_simps flip: power_add)
  note f = low_bits[OF assms(3,4)]
  have m: "(15 :: int) = mask 4" "(2 :: int) ^ k - 1 = mask k" by (simp_all add: mask_eq_exp_minus_1)
  show "bar_mask_of w 15 (sized_bar w k f) = 2 ^ k - 1"
    unfolding bar_mask_of_def sized_bar_def e m
    using assms(1,2) by (intro bit_eqI) (auto simp: bit_simps dest: f)
  show "sized_bar w k f AND 15 = f"
    unfolding sized_bar_def e m using assms(1) by (intro bit_eqI) (auto simp: bit_simps not_le dest: f)
qed

lemma or_base_low:
  assumes "4 \<le> k" "2 ^ k dvd (b :: int)" "0 \<le> f" "f < 16"
  shows "(f OR b) AND NOT 15 = b" "(f OR b) AND 15 = f"
proof -
  obtain c where b: "b = push_bit k c" using assms(2) by (auto simp: push_bit_eq_mult mult.commute)
  note f = low_bits[OF assms(3,4)]
  have m: "(15 :: int) = mask 4" by (simp add: mask_eq_exp_minus_1)
  show "(f OR b) AND NOT 15 = b" "(f OR b) AND 15 = f"
    unfolding b m using assms(1) by (auto intro!: bit_eqI simp: bit_simps not_le dest: f)
qed

text \<open>A list of BARs placed one after the other, as the loops over registers, functions and
  buses do: for each, the value for the register and the window size.\<close>

fun place_bars :: "(nat \<times> int) list \<Rightarrow> 'a root_complex_scheme \<Rightarrow> (int \<times> int) list \<times> 'a root_complex_scheme" where
  "place_bars [] r = ([], r)"
| "place_bars ((w, v) # bs) r =
     (case place_mem_bar w v r of (v', sz, r1) \<Rightarrow>
        case place_bars bs r1 of (ps, r2) \<Rightarrow> ((v', sz) # ps, r2))"

definition bar_base :: "int \<Rightarrow> int" where
  "bar_base v = v AND NOT 15"

lemma place_mem_bar_sized:
  assumes "4 \<le> k" "k \<le> w" "0 \<le> f" "f < 16"
  shows "\<exists>b. place_mem_bar w (sized_bar w k f) r = (f OR b, 2 ^ k, r\<lparr>rc_mem_limit := b + 2 ^ k\<rparr>) \<and>
    2 ^ k dvd b \<and> rc_mem_limit r \<le> b \<and> bar_base (f OR b) = b \<and> (f OR b) AND 15 = f"
  using bar_mask_of_sized[OF assms] or_base_low[OF assms(1) align_dvd assms(3,4), of "rc_mem_limit r"]
    align_dvd[of k "rc_mem_limit r"] align_ge[of "rc_mem_limit r" k]
  by (intro exI[of _ "align (rc_mem_limit r) (2 ^ k - 1)"]) (simp add: place_mem_bar_def bar_base_def Let_def)

lemma place_bars_windows:
  assumes "\<forall>(w, v) \<in> set bs. \<exists>k f. 4 \<le> k \<and> k \<le> w \<and> 0 \<le> f \<and> f < 16 \<and> v = sized_bar w k f"
  shows "rc_mem_limit r \<le> rc_mem_limit (snd (place_bars bs r)) \<and> length (fst (place_bars bs r)) = length bs \<and>
    (\<forall>(v, sz) \<in> set (fst (place_bars bs r)). sz dvd bar_base v \<and> rc_mem_limit r \<le> bar_base v \<and>
       bar_base v + sz \<le> rc_mem_limit (snd (place_bars bs r))) \<and>
    sorted_wrt (\<lambda>(v, sz) (v', _). bar_base v + sz \<le> bar_base v') (fst (place_bars bs r))"
  using assms
proof (induction bs arbitrary: r)
  case (Cons wv bs)
  obtain w v where wv: "wv = (w, v)" by (cases wv)
  obtain k f where k: "4 \<le> k" "k \<le> w" "0 \<le> f" "f < 16" "v = sized_bar w k f" using Cons.prems by (auto simp: wv)
  obtain b where b: "place_mem_bar w v r = (f OR b, 2 ^ k, r\<lparr>rc_mem_limit := b + 2 ^ k\<rparr>)" "2 ^ k dvd b"
    "rc_mem_limit r \<le> b" "bar_base (f OR b) = b"
    using place_mem_bar_sized[OF k(1-4), of r] unfolding k(5)[symmetric] by blast
  let ?r1 = "r\<lparr>rc_mem_limit := b + 2 ^ k\<rparr>"
  obtain ps r2 where ps: "place_bars bs ?r1 = (ps, r2)" by (cases "place_bars bs ?r1")
  have IH: "b + 2 ^ k \<le> rc_mem_limit r2" "length ps = length bs"
    "\<forall>(v, sz) \<in> set ps. sz dvd bar_base v \<and> b + 2 ^ k \<le> bar_base v \<and> bar_base v + sz \<le> rc_mem_limit r2"
    "sorted_wrt (\<lambda>(v, sz) (v', _). bar_base v + sz \<le> bar_base v') ps"
    using Cons.IH[of ?r1] Cons.prems by (simp_all add: ps)
  have p: "0 < (2 :: int) ^ k" by simp
  have up: "rc_mem_limit r \<le> x" if "b + 2 ^ k \<le> x" for x using that b(3) p by linarith
  show ?case
    using IH b p by (auto simp: wv ps intro: up)
qed simp



end
