(* ===== verification/PcieFnOps.thy ===== *)
theory PcieFnOps
  imports PcieHost
begin

text \<open>
  The requester operations of a function (\<open>Function.io_read\<close> to \<open>Function.mem_write_qword\<close> of
  \<open>fpga/lib/pcie/tb/pcie.py\<close>): the loops of the theory of requesters run by a function that
  is a bus master. The state is the function beside the system above it; \<open>h\<close> is the dispatch
  of packets of the object's class.
\<close>

type_synonym ('f, 'e) fn_sys = "'f pfunction_scheme \<times> 'e"
type_synonym 'f rx_method =
  "rx_handler \<Rightarrow> tlp \<Rightarrow> 'f pfunction_scheme \<Rightarrow> ('f pfunction_scheme \<times> tlp list) result"

fun fn_deliver :: "'f rx_method \<Rightarrow> 'e fabric \<Rightarrow> tlp list \<Rightarrow> ('f, 'e) fn_sys \<Rightarrow> ('f, 'e) fn_sys result" where
  "fn_deliver h F [] s = Inr s"
| "fn_deliver h F (t # ts) s =
     bindE (upstream_recv h t (fst s)) (\<lambda>(f, out).
       bindE (fab_send_all F out (snd s)) (\<lambda>e. fn_deliver h F ts (f, e)))"

definition fn_send :: "'e fabric \<Rightarrow> tlp \<Rightarrow> ('f, 'e) fn_sys \<Rightarrow> ('f, 'e) fn_sys result" where
  "fn_send F t s =
     bindE (upstream_send (fst s) t) (\<lambda>out.
       bindE (fab_send_all F out (snd s)) (\<lambda>e. Inr (fst s, e)))"

definition fn_recv_cpl :: "'f rx_method \<Rightarrow> 'e fabric \<Rightarrow> int \<Rightarrow> ('f, 'e) fn_sys \<Rightarrow> (tlp option \<times> ('f, 'e) fn_sys) result" where
  "fn_recv_cpl h F tag s =
     (case fab_wait F tag (snd s) of (ts, e) \<Rightarrow>
        bindE (fn_deliver h F ts (fst s, e)) (\<lambda>s1.
          bindE (recv_cpl tag (fst s1)) (\<lambda>(c, f). Inr (c, (f, snd s1)))))"

definition fn_master :: "'f rx_method \<Rightarrow> 'e fabric \<Rightarrow> ('f, 'e) fn_sys master" where
  "fn_master h F =
     \<lparr>m_requester = (\<lambda>s. get_id (fst s)),
      m_free_tag = (\<lambda>s. case get_free_tag (fst s) of (tag, f) \<Rightarrow> (tag, (f, snd s))),
      m_send = fn_send F,
      m_recv = fn_recv_cpl h F,
      m_max_read = (\<lambda>s. max_read_request_size (r_dev_ctl (fn_pcie (fst s)))),
      m_max_payload = (\<lambda>s. max_payload_size (r_dev_ctl (fn_pcie (fst s))))\<rparr>"

text \<open>Without bus mastering nothing is sent: a read returns \<open>None\<close>. The memory read asks in
  every chunk for the whole length of the transfer.\<close>

definition fn_bus_master :: "('f, 'e) fn_sys \<Rightarrow> bool" where
  "fn_bus_master s = bus_master_enable (fn_cfg (fst s))"

definition fn_io_read :: "'f rx_method \<Rightarrow> 'e fabric \<Rightarrow> int \<Rightarrow> int \<Rightarrow> ('f, 'e) fn_sys \<Rightarrow> (bytes option \<times> ('f, 'e) fn_sys) result" where
  "fn_io_read h F addr len s =
     (if fn_bus_master s then
        bindE (io_read_loop (fn_master h F) len 0 addr [] s) (\<lambda>(d, s'). Inr (Some d, s'))
      else Inr (None, s))"

definition fn_io_write :: "'f rx_method \<Rightarrow> 'e fabric \<Rightarrow> int \<Rightarrow> py_data \<Rightarrow> ('f, 'e) fn_sys \<Rightarrow> ('f, 'e) fn_sys result" where
  "fn_io_write h F addr v s =
     (if fn_bus_master s then
        (case v of
           PyBytes d \<Rightarrow> io_write_loop (fn_master h F) d 0 addr s
         | PyList xs \<Rightarrow> if xs = [] then Inr s else Inl TypeError)
      else Inr s)"

definition fn_mem_read ::
  "'f rx_method \<Rightarrow> 'e fabric \<Rightarrow> int \<Rightarrow> int \<Rightarrow> int \<Rightarrow> int \<Rightarrow> ('f, 'e) fn_sys \<Rightarrow> (bytes option \<times> ('f, 'e) fn_sys) result option" where
  "fn_mem_read h F attr tc addr len s =
     (if fn_bus_master s then
        map_option (\<lambda>r. bindE r (\<lambda>(d, s'). Inr (Some d, s')))
          (mem_read_loop (\<lambda>l b. l) (fn_master h F) attr tc len 0 addr [] s)
      else Some (Inr (None, s)))"

definition fn_mem_write :: "'f rx_method \<Rightarrow> 'e fabric \<Rightarrow> int \<Rightarrow> int \<Rightarrow> int \<Rightarrow> py_data \<Rightarrow> ('f, 'e) fn_sys \<Rightarrow> ('f, 'e) fn_sys result" where
  "fn_mem_write h F attr tc addr v s =
     (if fn_bus_master s then
        (case v of
           PyBytes d \<Rightarrow> mem_write_loop (fn_master h F) attr tc d 0 addr s
         | PyList xs \<Rightarrow> if xs = [] then Inr s else Inl TypeError)
      else Inr s)"

text \<open>The word variants; those of I/O hand over two arguments too many.\<close>

definition fn_mem_read_words ::
  "'f rx_method \<Rightarrow> 'e fabric \<Rightarrow> int \<Rightarrow> int \<Rightarrow> int \<Rightarrow> int \<Rightarrow> int \<Rightarrow> ('f, 'e) fn_sys \<Rightarrow> (int list \<times> ('f, 'e) fn_sys) result option" where
  "fn_mem_read_words h F attr tc addr count ws s =
     (if ws_ok ws then
        map_option (\<lambda>r. bindE r (\<lambda>(v, s'). bindE (words_result ws count v) (\<lambda>xs. Inr (xs, s'))))
          (fn_mem_read h F attr tc addr (count * ws) s)
      else Some (Inl AssertionError))"

definition fn_mem_read_dwords ::
  "'f rx_method \<Rightarrow> 'e fabric \<Rightarrow> int \<Rightarrow> int \<Rightarrow> int \<Rightarrow> int \<Rightarrow> ('f, 'e) fn_sys \<Rightarrow> (int list \<times> ('f, 'e) fn_sys) result option" where
  "fn_mem_read_dwords h F attr tc addr count s = fn_mem_read_words h F attr tc addr count 4 s"

definition fn_mem_read_qwords ::
  "'f rx_method \<Rightarrow> 'e fabric \<Rightarrow> int \<Rightarrow> int \<Rightarrow> int \<Rightarrow> int \<Rightarrow> ('f, 'e) fn_sys \<Rightarrow> (int list \<times> ('f, 'e) fn_sys) result option" where
  "fn_mem_read_qwords h F attr tc addr count s = fn_mem_read_words h F attr tc addr count 8 s"

definition fn_mem_read_byte ::
  "'f rx_method \<Rightarrow> 'e fabric \<Rightarrow> int \<Rightarrow> int \<Rightarrow> int \<Rightarrow> ('f, 'e) fn_sys \<Rightarrow> (byte \<times> ('f, 'e) fn_sys) result option" where
  "fn_mem_read_byte h F attr tc addr s =
     map_option (\<lambda>r. bindE r (\<lambda>(v, s').
       case v of Some d \<Rightarrow> bindE (py_nth d 0) (\<lambda>x. Inr (x, s')) | None \<Rightarrow> Inl TypeError))
       (fn_mem_read h F attr tc addr 1 s)"

definition fn_mem_read_word :: "'f rx_method \<Rightarrow> 'e fabric \<Rightarrow> int \<Rightarrow> int \<Rightarrow> int \<Rightarrow> ('f, 'e) fn_sys \<Rightarrow> (int \<times> ('f, 'e) fn_sys) result option" where
  "fn_mem_read_word h F attr tc addr s = first_opt (fn_mem_read_words h F attr tc addr 1 2 s)"

definition fn_mem_read_dword :: "'f rx_method \<Rightarrow> 'e fabric \<Rightarrow> int \<Rightarrow> int \<Rightarrow> int \<Rightarrow> ('f, 'e) fn_sys \<Rightarrow> (int \<times> ('f, 'e) fn_sys) result option" where
  "fn_mem_read_dword h F attr tc addr s = first_opt (fn_mem_read_dwords h F attr tc addr 1 s)"

definition fn_mem_read_qword :: "'f rx_method \<Rightarrow> 'e fabric \<Rightarrow> int \<Rightarrow> int \<Rightarrow> int \<Rightarrow> ('f, 'e) fn_sys \<Rightarrow> (int \<times> ('f, 'e) fn_sys) result option" where
  "fn_mem_read_qword h F attr tc addr s = first_opt (fn_mem_read_qwords h F attr tc addr 1 s)"

definition fn_mem_write_words ::
  "'f rx_method \<Rightarrow> 'e fabric \<Rightarrow> int \<Rightarrow> int \<Rightarrow> int \<Rightarrow> int list \<Rightarrow> int \<Rightarrow> ('f, 'e) fn_sys \<Rightarrow> ('f, 'e) fn_sys result" where
  "fn_mem_write_words h F attr tc addr xs ws s =
     bindE (assertE (ws_ok ws)) (\<lambda>_. bindE (bytes_of_words ws xs) (\<lambda>d.
       fn_mem_write h F attr tc addr (PyBytes d) s))"

definition fn_mem_write_dwords :: "'f rx_method \<Rightarrow> 'e fabric \<Rightarrow> int \<Rightarrow> int \<Rightarrow> int \<Rightarrow> int list \<Rightarrow> ('f, 'e) fn_sys \<Rightarrow> ('f, 'e) fn_sys result" where
  "fn_mem_write_dwords h F attr tc addr xs s = fn_mem_write_words h F attr tc addr xs 4 s"

definition fn_mem_write_qwords :: "'f rx_method \<Rightarrow> 'e fabric \<Rightarrow> int \<Rightarrow> int \<Rightarrow> int \<Rightarrow> int list \<Rightarrow> ('f, 'e) fn_sys \<Rightarrow> ('f, 'e) fn_sys result" where
  "fn_mem_write_qwords h F attr tc addr xs s = fn_mem_write_words h F attr tc addr xs 8 s"

definition fn_mem_write_byte :: "'f rx_method \<Rightarrow> 'e fabric \<Rightarrow> int \<Rightarrow> int \<Rightarrow> int \<Rightarrow> int \<Rightarrow> ('f, 'e) fn_sys \<Rightarrow> ('f, 'e) fn_sys result" where
  "fn_mem_write_byte h F attr tc addr x s = fn_mem_write h F attr tc addr (PyList [x]) s"

definition fn_mem_write_word :: "'f rx_method \<Rightarrow> 'e fabric \<Rightarrow> int \<Rightarrow> int \<Rightarrow> int \<Rightarrow> int \<Rightarrow> ('f, 'e) fn_sys \<Rightarrow> ('f, 'e) fn_sys result" where
  "fn_mem_write_word h F attr tc addr x s = fn_mem_write_words h F attr tc addr [x] 2 s"

definition fn_mem_write_dword :: "'f rx_method \<Rightarrow> 'e fabric \<Rightarrow> int \<Rightarrow> int \<Rightarrow> int \<Rightarrow> int \<Rightarrow> ('f, 'e) fn_sys \<Rightarrow> ('f, 'e) fn_sys result" where
  "fn_mem_write_dword h F attr tc addr x s = fn_mem_write_dwords h F attr tc addr [x] s"

definition fn_mem_write_qword :: "'f rx_method \<Rightarrow> 'e fabric \<Rightarrow> int \<Rightarrow> int \<Rightarrow> int \<Rightarrow> int \<Rightarrow> ('f, 'e) fn_sys \<Rightarrow> ('f, 'e) fn_sys result" where
  "fn_mem_write_qword h F attr tc addr x s = fn_mem_write_qwords h F attr tc addr [x] s"

definition fn_io_read_words :: "int \<Rightarrow> 'r result" where
  "fn_io_read_words ws = bindE (assertE (ws_ok ws)) (\<lambda>_. Inl TypeError)"

definition fn_io_read_dwords :: "'r result" where "fn_io_read_dwords = fn_io_read_words 4"
definition fn_io_read_qwords :: "'r result" where "fn_io_read_qwords = fn_io_read_words 8"
definition fn_io_read_byte :: "'r result" where "fn_io_read_byte = Inl TypeError"
definition fn_io_read_word :: "'r result" where "fn_io_read_word = fn_io_read_words 2"
definition fn_io_read_dword :: "'r result" where "fn_io_read_dword = fn_io_read_dwords"
definition fn_io_read_qword :: "'r result" where "fn_io_read_qword = fn_io_read_qwords"

definition fn_io_write_words :: "int list \<Rightarrow> int \<Rightarrow> 'r result" where
  "fn_io_write_words xs ws =
     bindE (assertE (ws_ok ws)) (\<lambda>_. bindE (bytes_of_words ws xs) (\<lambda>_. Inl TypeError))"

definition fn_io_write_dwords :: "int list \<Rightarrow> 'r result" where
  "fn_io_write_dwords xs = fn_io_write_words xs 4"
definition fn_io_write_qwords :: "int list \<Rightarrow> 'r result" where
  "fn_io_write_qwords xs = fn_io_write_words xs 8"
definition fn_io_write_byte :: "int \<Rightarrow> 'r result" where "fn_io_write_byte x = Inl TypeError"
definition fn_io_write_word :: "int \<Rightarrow> 'r result" where
  "fn_io_write_word x = fn_io_write_words [x] 2"
definition fn_io_write_dword :: "int \<Rightarrow> 'r result" where
  "fn_io_write_dword x = fn_io_write_dwords [x]"
definition fn_io_write_qword :: "int \<Rightarrow> 'r result" where
  "fn_io_write_qword x = fn_io_write_qwords [x]"

end
