(* ===== verification/AxisFrame.thy ===== *)
theory AxisFrame
  imports Prelude
begin

text \<open>
  \<open>AXIStreamFrame\<close> of \<open>fpga/lib/eth/lib/axis/tb/axis_ep.py\<close>: a frame of data words with its
  sideband values, cut into the transfers of a stream bus of \<open>M\<close> lanes (\<open>build\<close>), put
  together again (\<open>parse\<close>) and compared (\<open>__eq__\<close>).
\<close>

unbundle bit_operations_syntax

section \<open>Frames\<close>

text \<open>A sideband value is absent, one integer for the whole frame, or a list with one value per
  transfer. \<open>af_bytes\<close> says that \<open>data\<close> is a bytearray rather than a list. With several data
  signals (\<open>B > 0\<close>) a data item stands for the tuple of their values.\<close>

datatype side = SNone | SInt int | SList "int list"

record axis_frame =
  af_B :: nat
  af_N :: nat
  af_M :: nat
  af_WL :: nat
  af_data :: "int list"
  af_bytes :: bool
  af_keep :: "int list option"
  af_id :: side
  af_dest :: side
  af_user :: side
  af_last_user :: "int option"

definition axis_of_data :: "bool \<Rightarrow> int list \<Rightarrow> int list option \<Rightarrow> side \<Rightarrow> side \<Rightarrow> side \<Rightarrow> int option \<Rightarrow> axis_frame" where
  "axis_of_data is_bytes d keep i dest user last_user =
     \<lparr>af_B = 0, af_N = 8, af_M = 1, af_WL = 8, af_data = d, af_bytes = is_bytes, af_keep = keep,
      af_id = i, af_dest = dest, af_user = user, af_last_user = last_user\<rparr>"

text \<open>\<open>AXIStreamFrame(data)\<close> for bytes, and the copy: an absent \<open>id\<close> or \<open>dest\<close> becomes 0.\<close>

definition axis_bytes :: "bytes \<Rightarrow> axis_frame" where
  "axis_bytes d = axis_of_data True (map uint d) None SNone SNone SNone None"

definition axis_copy :: "axis_frame \<Rightarrow> axis_frame" where
  "axis_copy f = f\<lparr>af_B := 0, af_M := 1,
     af_id := (if af_id f = SNone then SInt 0 else af_id f),
     af_dest := (if af_dest f = SNone then SInt 0 else af_dest f)\<rparr>"

section \<open>build\<close>

record beat =
  b_data :: int
  b_keep :: int
  b_id :: int
  b_dest :: int
  b_user :: int

text \<open>The inner loop takes at most \<open>m\<close> items into one transfer and stops when none is left.\<close>

fun fill_beat :: "nat \<Rightarrow> nat \<Rightarrow> nat \<Rightarrow> int list \<Rightarrow> int \<Rightarrow> int \<Rightarrow> (int \<times> int) \<times> int list" where
  "fill_beat wl j (Suc m) (x # f) d k =
     (let d' = d OR push_bit (j * wl) x; k' = k OR push_bit j 1
      in if f = [] then ((d', k'), []) else fill_beat wl (Suc j) m f d' k')"
| "fill_beat wl j m f d k = ((d, k), f)"

definition side_at :: "side \<Rightarrow> nat \<Rightarrow> int result" where
  "side_at s i = (case s of SNone \<Rightarrow> Inr 0 | SInt v \<Rightarrow> Inr v | SList l \<Rightarrow> py_nth l i)"

lemma fill_beat_length: "length (snd (fill_beat wl j m f d k)) \<le> length f"
proof (induction wl j m f d k rule: fill_beat.induct)
  case (1 wl j m x f d k)
  show ?case
  proof (cases "f = []")
    case False
    then show ?thesis using "1.IH"[OF refl refl False] by (simp add: Let_def le_SucI)
  qed (simp add: Let_def)
qed simp_all

lemma fill_beat_shorter: "f \<noteq> [] \<Longrightarrow> 0 < m \<Longrightarrow> length (snd (fill_beat wl j m f d k)) < length f"
  using fill_beat_length by (cases f; cases m) (auto simp: Let_def less_Suc_eq_le)

lemma fill_beat_less: "((x, y), r) = fill_beat wl j m f d k \<Longrightarrow> f \<noteq> [] \<Longrightarrow> 0 < m \<Longrightarrow> length r < length f"
  using fill_beat_shorter[of f m wl j d k] by (metis snd_conv)

function build_loop :: "axis_frame \<Rightarrow> nat \<Rightarrow> int list \<Rightarrow> beat list result" where
  "build_loop fr i f =
     (if f = [] \<or> af_B fr = 0 \<and> af_M fr = 0 then Inr []
      else case (if af_B fr = 0 then fill_beat (af_WL fr) 0 (af_M fr) f 0 0 else ((hd f, 0), tl f)) of
        ((d, k), rest) \<Rightarrow>
          bindE (case af_keep fr of
              None \<Rightarrow> Inr k | Some ks \<Rightarrow> if af_B fr = 0 then py_nth ks i else Inr k) (\<lambda>kp.
          bindE (side_at (af_id fr) i) (\<lambda>vi.
          bindE (side_at (af_dest fr) i) (\<lambda>vd.
          bindE (side_at (af_user fr) i) (\<lambda>vu.
          bindE (build_loop fr (Suc i) rest) (\<lambda>bs.
            Inr (\<lparr>b_data = d, b_keep = kp, b_id = vi, b_dest = vd, b_user = vu\<rparr> # bs)))))))"
  by pat_completeness auto
termination
  by (relation "measure (\<lambda>(fr, i, f). length f)") (auto dest: fill_beat_less split: if_splits)

declare build_loop.simps [simp del]

text \<open>A bus without lanes never takes an item: the loop does not end.\<close>

definition axis_build :: "axis_frame \<Rightarrow> beat list result option" where
  "axis_build f =
     (if af_B f = 0 \<and> af_M f = 0 \<and> af_data f \<noteq> [] then None
      else Some (bindE (build_loop f 0 (af_data f)) (\<lambda>bs.
        case af_last_user f of
          Some v \<Rightarrow>
            if v = 0 then Inr bs
            else if bs = [] then Inl IndexError
            else Inr (butlast bs @ [(last bs)\<lparr>b_user := v\<rparr>])
        | None \<Rightarrow> Inr bs)))"

section \<open>parse\<close>

definition lane_items :: "nat \<Rightarrow> nat \<Rightarrow> int \<Rightarrow> int \<Rightarrow> int list" where
  "lane_items wl m d k =
     map (\<lambda>j. drop_bit (j * wl) d AND mask wl) (filter (\<lambda>j. k AND push_bit j 1 \<noteq> 0) [0..<m])"

definition axis_parse ::
  "int list \<Rightarrow> int list \<Rightarrow> int list \<Rightarrow> int list \<Rightarrow> int list \<Rightarrow> axis_frame \<Rightarrow> axis_frame result" where
  "axis_parse tdata tkeep tid tdest tuser f =
     (if length tdata \<noteq> length tkeep \<or> length tdata \<noteq> length tid \<or> length tdata \<noteq> length tdest
        \<or> length tdata \<noteq> length tuser then Inl (PyException ''Invalid data'')
      else
        let d = (if af_B f = 0 then concat (map2 (lane_items (af_WL f) (af_M f)) tdata tkeep) else tdata)
        in if af_WL f = 8 \<and> \<not> (\<forall>x \<in> set d. 0 \<le> x \<and> x < 256) then Inl ValueError
           else if tuser = [] then Inl IndexError
           else Inr (f\<lparr>af_data := d, af_bytes := (af_WL f = 8), af_keep := Some tkeep, af_id := SList tid,
                       af_dest := SList tdest, af_user := SList tuser, af_last_user := Some (last tuser)\<rparr>))"

section \<open>Equality\<close>

fun side_eq :: "(int list \<Rightarrow> int list) \<Rightarrow> side \<Rightarrow> side \<Rightarrow> bool" where
  "side_eq part SNone s = True"
| "side_eq part s SNone = True"
| "side_eq part (SInt a) (SList l) = (\<forall>k \<in> set (part l). a = k)"
| "side_eq part (SList l) (SInt b) = (\<forall>k \<in> set (part l). b = k)"
| "side_eq part (SInt a) (SInt b) = (a = b)"
| "side_eq part (SList l) (SList l') = (l = l')"

definition axis_eq :: "axis_frame \<Rightarrow> axis_frame \<Rightarrow> bool" where
  "axis_eq f g \<longleftrightarrow>
     (af_bytes f = af_bytes g \<and> af_data f = af_data g) \<and>
     (case (af_keep f, af_keep g) of (Some a, Some b) \<Rightarrow> a = b | _ \<Rightarrow> True) \<and>
     side_eq id (af_id f) (af_id g) \<and> side_eq id (af_dest f) (af_dest g) \<and>
     (case (af_last_user f, af_last_user g) of
        (Some a, Some b) \<Rightarrow> a = b \<and> side_eq butlast (af_user f) (af_user g)
      | _ \<Rightarrow> side_eq id (af_user f) (af_user g))"

section \<open>The round trip\<close>

primrec pack_items :: "nat \<Rightarrow> int list \<Rightarrow> int" where
  "pack_items wl [] = 0"
| "pack_items wl (x # xs) = x OR push_bit wl (pack_items wl xs)"

lemma fill_beat_eq:
  "f \<noteq> [] \<Longrightarrow> 0 < m \<Longrightarrow> fill_beat wl j m f d k =
   ((d OR push_bit (j * wl) (pack_items wl (take m f)), k OR push_bit j (mask (min m (length f)))), drop m f)"
proof (induction m arbitrary: j f d k)
  case (Suc m)
  obtain x r where f: "f = x # r" using Suc.prems by (cases f) auto
  have k: "k OR push_bit j 1 OR push_bit (Suc j) (mask n) = k OR push_bit j (mask (Suc n))" for n
    by (rule bit_eqI) (auto simp: bit_simps le_Suc_eq)
  have d: "d OR push_bit (j * wl) x OR push_bit (Suc j * wl) y = d OR push_bit (j * wl) (x OR push_bit wl y)" for y
    by (rule bit_eqI) (auto simp: bit_simps algebra_simps)
  show ?case
  proof (cases "r = [] \<or> m = 0")
    case True
    then show ?thesis using k[of 0] by (cases m) (auto simp: f Let_def)
  next
    case False
    have "fill_beat wl j (Suc m) f d k = fill_beat wl (Suc j) m r (d OR push_bit (j * wl) x) (k OR push_bit j 1)"
      using False by (simp add: f Let_def)
    also have "\<dots> = ((d OR push_bit (j * wl) x OR push_bit (Suc j * wl) (pack_items wl (take m r)),
        k OR push_bit j 1 OR push_bit (Suc j) (mask (min m (length r)))), drop m r)"
      using Suc.IH[of r "Suc j"] False by (simp add: or.assoc)
    also have "\<dots> = ((d OR push_bit (j * wl) (pack_items wl (take (Suc m) f)),
        k OR push_bit j (mask (min (Suc m) (length f)))), drop (Suc m) f)"
      unfolding d k by (simp add: f)
    finally show ?thesis .
  qed
qed simp

lemma bit_pack_items:
  "\<forall>x \<in> set xs. fits wl x \<Longrightarrow> j < length xs \<Longrightarrow> i < wl \<Longrightarrow> bit (pack_items wl xs) (j * wl + i) = bit (xs ! j) i"
proof (induction xs arbitrary: j)
  case (Cons x xs)
  show ?case
  proof (cases j)
    case 0
    then show ?thesis using Cons.prems by (simp add: bit_simps)
  next
    case (Suc n)
    have "\<not> bit x (wl + (n * wl + i))" using Cons.prems(1) fits_bit_high[of wl x "wl + (n * wl + i)"] by simp
    then show ?thesis using Cons Suc by (simp add: bit_simps algebra_simps)
  qed
qed simp

lemma lane_items_pack:
  assumes "\<forall>x \<in> set xs. fits wl x" "length xs \<le> m"
  shows "lane_items wl m (pack_items wl xs) (mask (length xs)) = xs"
proof -
  have f: "filter (\<lambda>j. mask (length xs) AND push_bit j 1 \<noteq> (0 :: int)) [0..<m] = [0..<length xs]"
  proof -
    have b: "(mask (length xs) AND push_bit j 1 \<noteq> (0 :: int)) = (j < length xs)" for j
      by (simp add: push_bit_eq_mult and_exp_eq_0_iff_not_bit bit_mask_iff)
    have "[0..<m] = [0..<length xs] @ [length xs..<m]" using assms(2) upt_add_eq_append[of 0 "length xs" "m - length xs"] by simp
    then show ?thesis unfolding b by (simp add: filter_empty_conv)
  qed
  have "drop_bit (j * wl) (pack_items wl xs) AND mask wl = xs ! j" if "j < length xs" for j
  proof (rule bit_eqI)
    fix i
    have "\<not> bit (xs ! j) i" if "wl \<le> i" using assms(1) \<open>j < length xs\<close> that fits_bit_high[of wl "xs ! j" i] by simp
    then show "bit (drop_bit (j * wl) (pack_items wl xs) AND mask wl) i = bit (xs ! j) i"
      using bit_pack_items[OF assms(1) that, of i]
      by (cases "i < wl") (simp_all add: bit_simps add.commute)
  qed
  then show ?thesis unfolding lane_items_def f by (intro nth_equalityI) simp_all
qed

text \<open>The items of a frame, cut into transfers.\<close>

function chunks :: "nat \<Rightarrow> 'a list \<Rightarrow> 'a list list" where
  "chunks m xs = (if xs = [] \<or> m = 0 then [] else take m xs # chunks m (drop m xs))"
  by pat_completeness auto
termination by (relation "measure (\<lambda>(m, xs). length xs)") auto

declare chunks.simps [simp del]

lemma chunks_Nil [simp]: "chunks m [] = []"
  by (simp add: chunks.simps)

lemma chunks_step: "xs \<noteq> [] \<Longrightarrow> 0 < m \<Longrightarrow> chunks m xs = take m xs # chunks m (drop m xs)"
  by (subst chunks.simps) simp

lemma concat_chunks: "0 < m \<Longrightarrow> concat (chunks m xs) = xs"
proof (induction m xs rule: chunks.induct)
  case (1 m xs)
  then show ?case by (cases "xs = []") (simp_all add: chunks_step)
qed

lemma chunks_nonempty [simp]: "0 < m \<Longrightarrow> chunks m xs = [] \<longleftrightarrow> xs = []"
  by (subst chunks.simps) simp

lemma set_chunks: "c \<in> set (chunks m xs) \<Longrightarrow> c \<noteq> [] \<and> length c \<le> m \<and> set c \<subseteq> set xs"
proof (induction m xs rule: chunks.induct)
  case (1 m xs)
  show ?case
  proof (cases "xs = [] \<or> m = 0")
    case False
    then have "c = take m xs \<or> c \<in> set (chunks m (drop m xs))" using "1.prems" by (simp add: chunks_step)
    then show ?thesis using "1.IH"[OF False] False by (auto dest: in_set_takeD in_set_dropD)
  qed (use "1.prems" in \<open>simp add: chunks.simps\<close>)
qed

text \<open>All transfers but the last use every lane.\<close>

lemma chunks_full: "0 < m \<Longrightarrow> c \<in> set (butlast (chunks m xs)) \<Longrightarrow> length c = m"
proof (induction m xs rule: chunks.induct)
  case (1 m xs)
  show ?case
  proof (cases "xs = []")
    case False
    show ?thesis
    proof (cases "drop m xs = []")
      case True
      then show ?thesis using "1.prems" False by (simp add: chunks_step)
    next
      case rest: False
      then have "c = take m xs \<or> c \<in> set (butlast (chunks m (drop m xs)))"
        using "1.prems" False by (simp add: chunks_step)
      then show ?thesis using "1.IH" "1.prems"(1) False rest by auto
    qed
  qed (use "1.prems" in simp)
qed

text \<open>Frames with one sideband value each (or none), or one value per transfer.\<close>

definition side_fits :: "side \<Rightarrow> nat \<Rightarrow> bool" where
  "side_fits s n \<longleftrightarrow> (case s of SList l \<Rightarrow> length l = n | _ \<Rightarrow> True)"

definition side_val :: "side \<Rightarrow> nat \<Rightarrow> int" where
  "side_val s i = (case s of SNone \<Rightarrow> 0 | SInt v \<Rightarrow> v | SList l \<Rightarrow> l ! i)"

lemma side_at_val: "side_fits s n \<Longrightarrow> i < n \<Longrightarrow> side_at s i = Inr (side_val s i)"
  by (auto simp: side_fits_def side_at_def side_val_def split: side.splits)

primrec beats_of :: "axis_frame \<Rightarrow> nat \<Rightarrow> int list list \<Rightarrow> beat list" where
  "beats_of f i [] = []"
| "beats_of f i (c # cs) = \<lparr>b_data = pack_items (af_WL f) c, b_keep = mask (length c),
     b_id = side_val (af_id f) i, b_dest = side_val (af_dest f) i, b_user = side_val (af_user f) i\<rparr>
     # beats_of f (Suc i) cs"

lemma beats_of_length [simp]: "length (beats_of f i cs) = length cs"
  by (induction cs arbitrary: i) simp_all

lemma beats_of_nth:
  "k < length cs \<Longrightarrow> beats_of f i cs ! k = \<lparr>b_data = pack_items (af_WL f) (cs ! k), b_keep = mask (length (cs ! k)),
     b_id = side_val (af_id f) (i + k), b_dest = side_val (af_dest f) (i + k), b_user = side_val (af_user f) (i + k)\<rparr>"
proof (induction cs arbitrary: i k)
  case (Cons c cs)
  then show ?case by (cases k) simp_all
qed simp

lemma build_loop_beats:
  assumes "af_B f = 0" "0 < af_M f" "af_keep f = None"
    "side_fits (af_id f) n" "side_fits (af_dest f) n" "side_fits (af_user f) n"
    "n = i + length (chunks (af_M f) xs)"
  shows "build_loop f i xs = Inr (beats_of f i (chunks (af_M f) xs))"
  using assms(7)
proof (induction "length xs" arbitrary: i xs rule: less_induct)
  case less
  show ?case
  proof (cases "xs = []")
    case False
    have c: "chunks (af_M f) xs = take (af_M f) xs # chunks (af_M f) (drop (af_M f) xs)"
      by (rule chunks_step[OF False assms(2)])
    have "build_loop f (Suc i) (drop (af_M f) xs) = Inr (beats_of f (Suc i) (chunks (af_M f) (drop (af_M f) xs)))"
      using less.prems c False assms(2) by (intro less.hyps) simp_all
    moreover have "i < n" using less.prems c by simp
    ultimately show ?thesis
      using False assms(1-3) fill_beat_eq[OF False assms(2)] side_at_val[OF assms(4)] side_at_val[OF assms(5)]
        side_at_val[OF assms(6)]
      by (subst build_loop.simps) (simp add: c min.commute)
  qed (simp add: build_loop.simps)
qed

text \<open>A frame that fits a bus of \<open>M\<close> lanes of \<open>WL\<close> bits.\<close>

definition axis_ok :: "axis_frame \<Rightarrow> bool" where
  "axis_ok f \<longleftrightarrow> af_B f = 0 \<and> 0 < af_M f \<and> af_data f \<noteq> [] \<and> (\<forall>x \<in> set (af_data f). fits (af_WL f) x) \<and>
     (af_bytes f \<longleftrightarrow> af_WL f = 8) \<and> af_keep f = None \<and>
     (let n = length (chunks (af_M f) (af_data f))
      in side_fits (af_id f) n \<and> side_fits (af_dest f) n \<and> side_fits (af_user f) n) \<and>
     (case af_last_user f of None \<Rightarrow> True | Some v \<Rightarrow> v \<noteq> 0 \<and> (\<forall>l. af_user f \<noteq> SList l))"

definition frame_beats :: "axis_frame \<Rightarrow> beat list" where
  "frame_beats f =
     (let bs = beats_of f 0 (chunks (af_M f) (af_data f))
      in case af_last_user f of None \<Rightarrow> bs | Some v \<Rightarrow> butlast bs @ [(last bs)\<lparr>b_user := v\<rparr>])"

lemma axis_build_beats: "axis_ok f \<Longrightarrow> axis_build f = Some (Inr (frame_beats f))"
proof -
  assume h: "axis_ok f"
  have "build_loop f 0 (af_data f) = Inr (beats_of f 0 (chunks (af_M f) (af_data f)))"
    using h by (intro build_loop_beats[OF _ _ _ _ _ _ refl]) (simp_all add: axis_ok_def Let_def)
  moreover have "beats_of f 0 (chunks (af_M f) (af_data f)) \<noteq> []"
    using h by (metis axis_ok_def beats_of_length chunks_nonempty length_0_conv)
  ultimately show ?thesis
    using h by (auto simp: axis_build_def axis_ok_def frame_beats_def Let_def split: option.splits)
qed

lemma frame_beats_map:
  assumes "axis_ok f" "\<And>b v. g (b\<lparr>b_user := v\<rparr>) = g b"
  shows "map g (frame_beats f) = map g (beats_of f 0 (chunks (af_M f) (af_data f)))"
proof -
  have "beats_of f 0 (chunks (af_M f) (af_data f)) \<noteq> []"
    using assms(1) by (metis axis_ok_def beats_of_length chunks_nonempty length_0_conv)
  then have "map g (beats_of f 0 (chunks (af_M f) (af_data f))) =
      map g (butlast (beats_of f 0 (chunks (af_M f) (af_data f)))) @ [g (last (beats_of f 0 (chunks (af_M f) (af_data f))))]"
    by (metis append_butlast_last_id list.simps(8,9) map_append)
  then show ?thesis by (simp add: frame_beats_def Let_def assms(2) split: option.split)
qed

lemma lanes_of_beats:
  "\<forall>c \<in> set cs. length c \<le> m \<and> (\<forall>x \<in> set c. fits (af_WL f) x) \<Longrightarrow>
   concat (map2 (lane_items (af_WL f) m) (map b_data (beats_of f i cs)) (map b_keep (beats_of f i cs))) = concat cs"
  by (induction cs arbitrary: i) (simp_all add: lane_items_pack)

lemma side_eq_beats:
  assumes "side_fits s (length cs)"
  shows "side_eq id s (SList (map (\<lambda>k. side_val s k) [0..<length cs]))"
  using assms by (cases s) (auto simp: side_val_def side_fits_def intro: nth_equalityI)

lemma map_beats_side:
  "map b_id (beats_of f 0 cs) = map (side_val (af_id f)) [0..<length cs]"
  "map b_dest (beats_of f 0 cs) = map (side_val (af_dest f)) [0..<length cs]"
  "map b_user (beats_of f 0 cs) = map (side_val (af_user f)) [0..<length cs]"
  by (rule nth_equalityI; simp add: beats_of_nth)+

lemma axis_parse_beats:
  assumes "axis_ok f" "af_B g = 0" "af_M g = af_M f" "af_WL g = af_WL f"
  shows "\<exists>g'. axis_parse (map b_data (frame_beats f)) (map b_keep (frame_beats f)) (map b_id (frame_beats f))
      (map b_dest (frame_beats f)) (map b_user (frame_beats f)) g = Inr g' \<and>
    af_data g' = af_data f \<and> axis_eq f g'"
proof -
  define cs where "cs = chunks (af_M f) (af_data f)"
  have ok: "0 < af_M f" "af_data f \<noteq> []" "\<forall>x \<in> set (af_data f). fits (af_WL f) x" "af_bytes f \<longleftrightarrow> af_WL f = 8"
    "af_keep f = None" "side_fits (af_id f) (length cs)" "side_fits (af_dest f) (length cs)" "side_fits (af_user f) (length cs)"
    using assms(1) by (simp_all add: axis_ok_def Let_def cs_def)
  let ?bs = "frame_beats f"
  have ne: "cs \<noteq> []" using ok(1,2) by (simp add: cs_def)
  have m: "map b_data ?bs = map b_data (beats_of f 0 cs)" "map b_keep ?bs = map b_keep (beats_of f 0 cs)"
    "map b_id ?bs = map (side_val (af_id f)) [0..<length cs]" "map b_dest ?bs = map (side_val (af_dest f)) [0..<length cs]"
    unfolding cs_def using map_beats_side[of f "chunks (af_M f) (af_data f)"]
    by (simp_all add: frame_beats_map[OF assms(1)])
  have len: "length ?bs = length cs" using arg_cong[OF m(1), of length] by simp
  have "\<forall>c \<in> set cs. length c \<le> af_M f \<and> (\<forall>x \<in> set c. fits (af_WL f) x)"
    using set_chunks ok(3) unfolding cs_def by blast
  then have d: "concat (map2 (lane_items (af_WL f) (af_M f)) (map b_data (beats_of f 0 cs)) (map b_keep (beats_of f 0 cs))) = af_data f"
    using lanes_of_beats concat_chunks[OF ok(1)] by (simp add: cs_def)
  have r: "af_WL f = 8 \<Longrightarrow> \<forall>x \<in> set (af_data f). 0 \<le> x \<and> x < 256" using ok(3) by (simp add: fits_def)
  let ?g = "g\<lparr>af_data := af_data f, af_bytes := (af_WL f = 8), af_keep := Some (map b_keep ?bs),
    af_id := SList (map b_id ?bs), af_dest := SList (map b_dest ?bs), af_user := SList (map b_user ?bs),
    af_last_user := Some (last (map b_user ?bs))\<rparr>"
  have p: "axis_parse (map b_data ?bs) (map b_keep ?bs) (map b_id ?bs) (map b_dest ?bs) (map b_user ?bs) g = Inr ?g"
    using len ne assms(2-4) d r unfolding axis_parse_def by (auto simp: m Let_def)
  have u: "case af_last_user f of
      Some a \<Rightarrow> a = last (map b_user ?bs) \<and> side_eq butlast (af_user f) (SList (map b_user ?bs))
    | None \<Rightarrow> side_eq id (af_user f) (SList (map b_user ?bs))"
  proof (cases "af_last_user f")
    case None
    then show ?thesis
      using side_eq_beats[OF ok(8)] map_beats_side(3)[of f cs] by (simp add: frame_beats_def cs_def[symmetric])
  next
    case (Some v)
    have b: "butlast (map b_user ?bs) = butlast (map (side_val (af_user f)) [0..<length cs])" "last (map b_user ?bs) = v"
      using Some map_beats_side(3)[of f cs] by (simp_all add: frame_beats_def cs_def[symmetric] Let_def map_butlast)
    have "af_user f \<noteq> SList l" for l using assms(1) Some by (simp add: axis_ok_def Let_def)
    then show ?thesis
      using b by (cases "af_user f") (auto simp: Some side_val_def dest: in_set_butlastD)
  qed
  then have "axis_eq f ?g"
    using ok(4,5) side_eq_beats[OF ok(6)] side_eq_beats[OF ok(7)] m(3,4)
    by (auto simp: axis_eq_def split: option.splits)
  then show ?thesis using p by (intro exI[of _ ?g]) simp
qed



end
