(* ===== verification/AxisLink.thy ===== *)
theory AxisLink
  imports AxisFrame
begin

text \<open>
  \<open>AXIStreamSource\<close> and \<open>AXIStreamSink\<close> of \<open>fpga/lib/eth/lib/axis/tb/axis_ep.py\<close> connected
  by one bus, as clocked state machines: one step is one rising clock edge, at which both sides
  read the wires and set their next values. Either side may be paused in any cycle. The frames
  arrive unchanged and in order, the checks of the sink never fail, and enough unpaused cycles
  deliver everything.
\<close>

unbundle bit_operations_syntax

section \<open>The two sides\<close>

record bus =
  bus_N :: nat
  bus_M :: nat

definition bus_WL :: "bus \<Rightarrow> nat" where
  "bus_WL u = (bus_N u + bus_M u - 1) div bus_M u"

definition on_bus :: "bus \<Rightarrow> axis_frame \<Rightarrow> axis_frame" where
  "on_bus u f = f\<lparr>af_B := 0, af_N := bus_N u, af_M := bus_M u, af_WL := bus_WL u\<rparr>"

record axis_wires =
  w_valid :: bool
  w_last :: bool
  w_beat :: beat

record axis_source =
  as_active :: bool
  as_queue :: "axis_frame list"
  as_left :: "beat list"

record axis_sink =
  ak_ready :: bool
  ak_got :: "beat list"
  ak_first :: bool
  ak_active :: bool
  ak_queue :: "axis_frame list"

definition beat_zero :: beat where
  "beat_zero = \<lparr>b_data = 0, b_keep = 0, b_id = 0, b_dest = 0, b_user = 0\<rparr>"

definition source_init :: axis_source where
  "source_init = \<lparr>as_active = False, as_queue = [], as_left = []\<rparr>"

definition source_send :: "axis_frame \<Rightarrow> axis_source \<Rightarrow> axis_source" where
  "source_send f s = s\<lparr>as_queue := as_queue s @ [axis_copy f]\<rparr>"

definition source_reset :: "axis_source \<Rightarrow> axis_source \<times> axis_wires" where
  "source_reset s = (s\<lparr>as_active := False, as_left := []\<rparr>,
     \<lparr>w_valid = False, w_last = False, w_beat = beat_zero\<rparr>)"

text \<open>The end of a clock edge of the source: a new frame when none is active. A frame without
  data has no transfer to pop.\<close>

definition source_start :: "bus \<Rightarrow> bool \<Rightarrow> axis_source \<Rightarrow> axis_wires \<Rightarrow> (axis_source \<times> axis_wires) result option" where
  "source_start u pause s w =
     (if as_active s then Some (Inr (s, w))
      else case as_queue s of
        [] \<Rightarrow> Some (Inr (s, w))
      | f # fs \<Rightarrow>
          (case axis_build (on_bus u f) of
             None \<Rightarrow> None
           | Some (Inl e) \<Rightarrow> Some (Inl e)
           | Some (Inr []) \<Rightarrow> Some (Inl IndexError)
           | Some (Inr (b # bs)) \<Rightarrow>
               Some (Inr (s\<lparr>as_active := True, as_queue := fs, as_left := bs\<rparr>,
                 \<lparr>w_valid = (\<not> pause), w_last = (bs = []), w_beat = b\<rparr>))))"

definition source_step ::
  "bus \<Rightarrow> bool \<Rightarrow> bool \<Rightarrow> axis_source \<Rightarrow> axis_wires \<Rightarrow> (axis_source \<times> axis_wires) result option" where
  "source_step u pause ready s w =
     (let w0 = w\<lparr>w_valid := as_active s \<and> (w_valid w \<or> \<not> pause)\<rparr>
      in if ready \<and> w_valid w then
           (case as_left s of
              b # bs \<Rightarrow> source_start u pause (s\<lparr>as_left := bs\<rparr>)
                \<lparr>w_valid = (\<not> pause), w_last = (bs = []), w_beat = b\<rparr>
            | [] \<Rightarrow> source_start u pause (s\<lparr>as_active := False\<rparr>) (w0\<lparr>w_valid := False, w_last := False\<rparr>))
         else source_start u pause s w0)"

text \<open>The two loops of the sink over the bits of \<open>tkeep\<close>, an unsigned value.\<close>

function strip_bits :: "int \<Rightarrow> int \<Rightarrow> int" where
  "strip_bits v b = (if 0 < b \<and> b AND 1 = v then strip_bits v (drop_bit 1 b) else b)"
  by pat_completeness auto
termination by (relation "measure (\<lambda>(v, b). nat b)") (auto simp: drop_bit_eq_div)

declare strip_bits.simps [simp del]

definition keep_ok :: "bus \<Rightarrow> bool \<Rightarrow> bool \<Rightarrow> int \<Rightarrow> bool" where
  "keep_ok u first is_last k \<longleftrightarrow> k \<noteq> 0 \<and> strip_bits 1 (strip_bits 0 k) = 0 \<and>
     (\<not> first \<longrightarrow> k AND 1 \<noteq> 0) \<and> (\<not> is_last \<longrightarrow> k AND push_bit (bus_M u - 1) 1 \<noteq> 0)"

definition sink_init :: axis_sink where
  "sink_init = \<lparr>ak_ready = False, ak_got = [], ak_first = True, ak_active = False, ak_queue = []\<rparr>"

definition sink_reset :: "axis_sink \<Rightarrow> axis_sink" where
  "sink_reset k = k\<lparr>ak_ready := False, ak_got := [], ak_first := True, ak_active := False\<rparr>"

definition sink_step :: "bus \<Rightarrow> bool \<Rightarrow> axis_wires \<Rightarrow> axis_sink \<Rightarrow> axis_sink result" where
  "sink_step u pause w k =
     (if w_valid w \<and> \<not> pause then
        bindE (assertE (keep_ok u (ak_first k) (w_last w) (b_keep (w_beat w)))) (\<lambda>_.
          let got = ak_got k @ [w_beat w]
          in if w_last w then
               bindE (axis_parse (map b_data got) (map b_keep got) (map b_id got) (map b_dest got) (map b_user got)
                   (on_bus u (axis_bytes []))) (\<lambda>f.
                 Inr (k\<lparr>ak_ready := True, ak_got := [], ak_first := True, ak_active := False,
                        ak_queue := ak_queue k @ [f]\<rparr>))
             else Inr (k\<lparr>ak_ready := True, ak_got := got, ak_first := False, ak_active := True\<rparr>))
      else Inr (k\<lparr>ak_ready := True\<rparr>))"

text \<open>\<open>recv\<close> and \<open>read\<close>, as a function of the sink's queue and its byte queue.\<close>

definition sink_recv :: "axis_sink \<Rightarrow> axis_frame option \<times> axis_sink" where
  "sink_recv k = (case ak_queue k of [] \<Rightarrow> (None, k) | f # fs \<Rightarrow> (Some f, k\<lparr>ak_queue := fs\<rparr>))"

definition sink_read :: "int \<Rightarrow> int list \<Rightarrow> axis_sink \<Rightarrow> int list \<times> int list \<times> axis_sink" where
  "sink_read count rq k =
     (let rq' = rq @ concat (map af_data (ak_queue k));
          n = (if count < 0 then length rq' else nat count)
      in (take n rq', drop n rq', k\<lparr>ak_queue := []\<rparr>))"

section \<open>One clock edge of the pair\<close>

type_synonym axis_pair = "axis_source \<times> axis_wires \<times> axis_sink"

definition pair_step :: "bus \<Rightarrow> bool \<times> bool \<Rightarrow> axis_pair \<Rightarrow> axis_pair result option" where
  "pair_step u p st =
     (case (p, st) of ((ps, pk), (s, w, k)) \<Rightarrow>
        (case source_step u ps (ak_ready k \<and> \<not> pk) s w of
           None \<Rightarrow> None
         | Some r \<Rightarrow> Some (bindE r (\<lambda>(s', w'). bindE (sink_step u pk w k) (\<lambda>k'. Inr (s', w', k'))))))"

fun pair_run :: "bus \<Rightarrow> (bool \<times> bool) list \<Rightarrow> axis_pair \<Rightarrow> axis_pair result option" where
  "pair_run u [] st = Some (Inr st)"
| "pair_run u (p # ps) st =
     (case pair_step u p st of
        None \<Rightarrow> None
      | Some (Inl e) \<Rightarrow> Some (Inl e)
      | Some (Inr st') \<Rightarrow> pair_run u ps st')"

section \<open>What the checks of the sink accept\<close>

lemma odd_and_one: "odd (b :: int) \<Longrightarrow> b AND 1 = 1"
  by (simp add: and_one_eq odd_iff_mod_2_eq_one)

lemma odd_mask: "odd (mask (Suc n) :: int)"
  by (simp add: mask_eq_exp_minus_1)

lemma strip_zero: "odd b \<Longrightarrow> strip_bits 0 b = b"
  by (subst strip_bits.simps) (simp add: odd_and_one)

lemma strip_mask: "strip_bits 1 (mask n) = 0"
proof (induction n)
  case (Suc n)
  have "drop_bit 1 (mask (Suc n) :: int) = mask n" by (rule bit_eqI) (simp add: bit_simps)
  moreover have "0 < (mask (Suc n) :: int)" by (simp add: less_le)
  ultimately show ?case using Suc odd_and_one[OF odd_mask, of n] by (subst strip_bits.simps) simp
qed (simp add: strip_bits.simps)

lemma keep_ok_mask:
  assumes "0 < n" "is_last \<or> n = bus_M u"
  shows "keep_ok u first is_last (mask n)"
proof -
  have o: "odd (mask n :: int)" using assms(1) odd_mask[of "n - 1"] by simp
  have one: "(mask n :: int) AND 1 = 1" using odd_and_one[OF o] .
  have "bit (mask n :: int) (bus_M u - 1)" if "\<not> is_last" using assms that by (simp add: bit_mask_iff)
  then have "(mask n :: int) AND push_bit (bus_M u - 1) 1 \<noteq> 0" if "\<not> is_last"
    using that by (simp add: push_bit_eq_mult and_exp_eq_0_iff_not_bit)
  moreover have "(mask n :: int) \<noteq> 0" using o by (intro notI) simp
  ultimately show ?thesis using one by (auto simp: keep_ok_def strip_zero[OF o] strip_mask)
qed

text \<open>Every transfer of a frame passes the checks at its place.\<close>

lemma beat_keep_ok:
  assumes "axis_ok f" "frame_beats f = got @ b # left" "af_M f = bus_M u"
  shows "keep_ok u first (left = []) (b_keep b)"
proof -
  define cs where "cs = chunks (af_M f) (af_data f)"
  define i where "i = length got"
  have M: "0 < af_M f" using assms(1) by (simp add: axis_ok_def)
  have m: "map b_keep (got @ b # left) = map (\<lambda>c. mask (length c)) cs"
  proof (rule nth_equalityI)
    have e: "map b_keep (got @ b # left) = map b_keep (beats_of f 0 cs)"
      using frame_beats_map[OF assms(1), of b_keep] by (simp add: cs_def flip: assms(2))
    then show "length (map b_keep (got @ b # left)) = length (map (\<lambda>c. mask (length c)) cs)" by simp
    fix k assume "k < length (map b_keep (got @ b # left))"
    then have "k < length cs" unfolding e by simp
    then show "map b_keep (got @ b # left) ! k = map (\<lambda>c. mask (length c)) cs ! k"
      unfolding e by (simp add: beats_of_nth)
  qed
  have len: "length cs = Suc (i + length left)"
    using map_eq_imp_length_eq[OF m] by (simp add: i_def)
  have "map b_keep (got @ b # left) ! i = b_keep b" by (simp add: i_def nth_append)
  then have k: "b_keep b = mask (length (cs ! i))" unfolding m using len by simp
  have "cs ! i \<in> set cs" using len by simp
  then have "0 < length (cs ! i)" using set_chunks unfolding cs_def by auto
  moreover have "length (cs ! i) = bus_M u" if "left \<noteq> []"
  proof -
    have "i < length (butlast cs)" using len that by (cases left) simp_all
    then have "cs ! i \<in> set (butlast cs)" by (metis nth_butlast nth_mem)
    then show ?thesis using chunks_full[OF M] assms(3) unfolding cs_def by simp
  qed
  ultimately show ?thesis unfolding k by (intro keep_ok_mask) auto
qed

section \<open>The invariant\<close>

text \<open>What the sink owes for a frame that was sent.\<close>

definition delivered :: "axis_frame \<Rightarrow> axis_frame \<Rightarrow> bool" where
  "delivered f g \<longleftrightarrow> af_data g = af_data f \<and> axis_eq f g"

definition sent_beats :: "bus \<Rightarrow> axis_frame \<Rightarrow> beat list" where
  "sent_beats u f = frame_beats (on_bus u (axis_copy f))"

definition source_inv :: "bus \<Rightarrow> axis_frame list \<Rightarrow> beat list \<Rightarrow> axis_source \<Rightarrow> axis_wires \<Rightarrow> bool" where
  "source_inv u rest pend s w \<longleftrightarrow> as_queue s = map axis_copy rest \<and>
     (if as_active s then pend = w_beat w # as_left s \<and> (w_last w \<longleftrightarrow> as_left s = [])
      else pend = [] \<and> \<not> w_valid w)"

definition link_inv :: "bus \<Rightarrow> axis_frame list \<Rightarrow> nat \<Rightarrow> axis_pair \<Rightarrow> bool" where
  "link_inv u fs n st \<longleftrightarrow> (case st of (s, w, k) \<Rightarrow>
     \<exists>past cur rest pend. fs = past @ cur @ rest \<and> source_inv u rest pend s w \<and>
       list_all2 delivered past (ak_queue k) \<and> (w_valid w \<longrightarrow> ak_ready k) \<and>
       ak_first k = (ak_got k = []) \<and> n = length pend + length (concat (map (sent_beats u) rest)) \<and>
       (pend = [] \<and> cur = [] \<and> ak_got k = [] \<or>
        pend \<noteq> [] \<and> (\<exists>f. cur = [f] \<and> sent_beats u f = ak_got k @ pend)))"

lemma on_bus_simps [simp]:
  "af_B (on_bus u f) = 0" "af_M (on_bus u f) = bus_M u" "af_WL (on_bus u f) = bus_WL u"
  "af_data (on_bus u f) = af_data f" "af_bytes (on_bus u f) = af_bytes f" "af_keep (on_bus u f) = af_keep f"
  "af_id (on_bus u f) = af_id f" "af_dest (on_bus u f) = af_dest f" "af_user (on_bus u f) = af_user f"
  "af_last_user (on_bus u f) = af_last_user f"
  by (simp_all add: on_bus_def)

lemma axis_copy_simps [simp]:
  "af_data (axis_copy f) = af_data f" "af_bytes (axis_copy f) = af_bytes f" "af_keep (axis_copy f) = af_keep f"
  "af_id (axis_copy f) = (if af_id f = SNone then SInt 0 else af_id f)"
  "af_dest (axis_copy f) = (if af_dest f = SNone then SInt 0 else af_dest f)"
  "af_user (axis_copy f) = af_user f" "af_last_user (axis_copy f) = af_last_user f"
  by (simp_all add: axis_copy_def)

lemma side_fits_simps [simp]: "side_fits SNone n" "side_fits (SInt v) n" "side_fits (SList l) n = (length l = n)"
  by (simp_all add: side_fits_def)

lemma copy_ok: "axis_ok (on_bus u f) \<Longrightarrow> axis_ok (on_bus u (axis_copy f))"
  unfolding axis_ok_def on_bus_simps axis_copy_simps Let_def by (auto split: if_splits)

lemma copy_eq: "axis_eq (on_bus u (axis_copy f)) g \<Longrightarrow> axis_eq f g"
  unfolding axis_eq_def on_bus_simps axis_copy_simps by (auto split: if_splits)

lemma sent_beats_Cons: "axis_ok (on_bus u f) \<Longrightarrow> \<exists>b bs. sent_beats u f = b # bs"
proof -
  assume h: "axis_ok (on_bus u f)"
  have "length (sent_beats u f) = length (map b_data (sent_beats u f))" by simp
  also have "\<dots> = length (chunks (bus_M u) (af_data f))"
    unfolding sent_beats_def using frame_beats_map[OF copy_ok[OF h], of b_data] by simp
  finally have "sent_beats u f \<noteq> []"
    using h by (metis axis_ok_def chunks_nonempty length_0_conv on_bus_simps(2,4))
  then show ?thesis by (cases "sent_beats u f") auto
qed

lemma sent_build: "axis_ok (on_bus u f) \<Longrightarrow> axis_build (on_bus u (axis_copy f)) = Some (Inr (sent_beats u f))"
  by (simp add: sent_beats_def axis_build_beats copy_ok)

section \<open>One clock edge keeps the invariant\<close>

lemma source_start_inv:
  assumes "source_inv u rest pend s w" "\<forall>f \<in> set rest. axis_ok (on_bus u f)"
  shows "\<exists>s' w'. source_start u pause s w = Some (Inr (s', w')) \<and>
    (if as_active s \<or> rest = [] then source_inv u rest pend s' w' \<and> w_valid w' = w_valid w
     else source_inv u (tl rest) (sent_beats u (hd rest)) s' w' \<and> w_valid w' = (\<not> pause))"
proof (cases "as_active s \<or> rest = []")
  case True
  then show ?thesis using assms(1) by (auto simp: source_start_def source_inv_def)
next
  case False
  then obtain f fs where r: "rest = f # fs" by (cases rest) auto
  have ok: "axis_ok (on_bus u f)" using assms(2) r by simp
  obtain b bs where bs: "sent_beats u f = b # bs" using sent_beats_Cons[OF ok] by blast
  then show ?thesis
    using False assms(1) sent_build[OF ok] by (auto simp: source_start_def source_inv_def r)
qed

text \<open>The beats left after an edge, by whether the sink took one.\<close>

lemma source_step_inv:
  fixes ready :: bool
  assumes "source_inv u rest pend s w" "\<forall>f \<in> set rest. axis_ok (on_bus u f)"
  defines "pend' \<equiv> if ready \<and> w_valid w then tl pend else pend"
  shows "\<exists>s' w'. source_step u pause ready s w = Some (Inr (s', w')) \<and>
    (if pend' \<noteq> [] \<or> rest = []
     then source_inv u rest pend' s' w' \<and> w_valid w' = (pend' \<noteq> [] \<and> (w_valid w \<and> \<not> ready \<or> \<not> pause))
     else source_inv u (tl rest) (sent_beats u (hd rest)) s' w' \<and> w_valid w' = (\<not> pause))"
proof -
  let ?w0 = "w\<lparr>w_valid := as_active s \<and> (w_valid w \<or> \<not> pause)\<rparr>"
  show ?thesis
  proof (cases "ready \<and> w_valid w")
    case False
    then have "source_step u pause ready s w = source_start u pause s ?w0" by (auto simp: source_step_def Let_def)
    moreover have i: "source_inv u rest pend s ?w0" using assms(1) by (auto simp: source_inv_def split: if_splits)
    moreover have "pend' = pend" "pend \<noteq> [] \<longleftrightarrow> as_active s"
      using False assms(1) by (auto simp: pend'_def source_inv_def split: if_splits)
    moreover obtain s' w' where "source_start u pause s ?w0 = Some (Inr (s', w'))"
      "if as_active s \<or> rest = [] then source_inv u rest pend s' w' \<and> w_valid w' = w_valid ?w0
       else source_inv u (tl rest) (sent_beats u (hd rest)) s' w' \<and> w_valid w' = (\<not> pause)"
      using source_start_inv[OF i assms(2), of pause] by blast
    ultimately show ?thesis using False by (intro exI[of _ s'] exI[of _ w']) (auto split: if_splits)
  next
    case True
    then have act: "as_active s" "pend = w_beat w # as_left s" using assms(1) by (auto simp: source_inv_def split: if_splits)
    then have p: "pend' = as_left s" using True by (simp add: pend'_def)
    show ?thesis
    proof (cases "as_left s")
      case Nil
      let ?s = "s\<lparr>as_active := False\<rparr>" and ?w = "?w0\<lparr>w_valid := False, w_last := False\<rparr>"
      have i: "source_inv u rest [] ?s ?w" using assms(1) by (simp add: source_inv_def)
      have "source_step u pause ready s w = source_start u pause ?s ?w"
        using True Nil by (simp add: source_step_def Let_def)
      then show ?thesis using source_start_inv[OF i assms(2), of pause] p Nil by (cases "rest = []") auto
    next
      case (Cons b bs)
      let ?s = "s\<lparr>as_left := bs\<rparr>" and ?w = "\<lparr>w_valid = (\<not> pause), w_last = (bs = []), w_beat = b\<rparr>"
      have i: "source_inv u rest (b # bs) ?s ?w" using assms(1) act(1) by (simp add: source_inv_def)
      have "source_step u pause ready s w = source_start u pause ?s ?w"
        using True Cons by (simp add: source_step_def Let_def)
      then show ?thesis using source_start_inv[OF i assms(2), of pause] p Cons act(1) True by auto
    qed
  qed
qed

lemma sink_step_idle: "\<not> w_valid w \<or> pause \<Longrightarrow> sink_step u pause w k = Inr (k\<lparr>ak_ready := True\<rparr>)"
  by (auto simp: sink_step_def)

lemma sink_step_more:
  assumes "w_valid w" "sent_beats u f = ak_got k @ w_beat w # left" "left \<noteq> []" "\<not> w_last w" "axis_ok (on_bus u f)"
  shows "sink_step u False w k =
    Inr (k\<lparr>ak_ready := True, ak_got := ak_got k @ [w_beat w], ak_first := False, ak_active := True\<rparr>)"
proof -
  have "keep_ok u (ak_first k) (w_last w) (b_keep (w_beat w))"
    using beat_keep_ok[OF copy_ok[OF assms(5)], of "ak_got k" "w_beat w" left u] assms(2-4) by (simp add: sent_beats_def)
  then show ?thesis using assms by (simp add: sink_step_def)
qed

lemma sink_step_last:
  assumes "w_valid w" "sent_beats u f = ak_got k @ [w_beat w]" "w_last w" "axis_ok (on_bus u f)"
  shows "\<exists>g. delivered f g \<and> sink_step u False w k =
    Inr (k\<lparr>ak_ready := True, ak_got := [], ak_first := True, ak_active := False, ak_queue := ak_queue k @ [g]\<rparr>)"
proof -
  have "keep_ok u (ak_first k) (w_last w) (b_keep (w_beat w))"
    using beat_keep_ok[OF copy_ok[OF assms(4)], of "ak_got k" "w_beat w" "[]" u] assms(2,3) by (simp add: sent_beats_def)
  moreover obtain g where "axis_parse (map b_data (sent_beats u f)) (map b_keep (sent_beats u f)) (map b_id (sent_beats u f))
      (map b_dest (sent_beats u f)) (map b_user (sent_beats u f)) (on_bus u (axis_bytes [])) = Inr g"
    "af_data g = af_data f" "axis_eq f g"
    using axis_parse_beats[OF copy_ok[OF assms(4)], of "on_bus u (axis_bytes [])"] copy_eq
    unfolding sent_beats_def by auto
  ultimately show ?thesis using assms(1-3) by (intro exI[of _ g]) (simp add: sink_step_def delivered_def Let_def)
qed

definition edge_measure :: "nat \<Rightarrow> axis_pair \<Rightarrow> nat" where
  "edge_measure n st = 2 * n - (if w_valid (fst (snd st)) then 1 else 0)"

text \<open>The source's half of an edge, once the sink's is known: \<open>k\<close> is the sink after it.\<close>

lemma edge_next:
  fixes ready :: bool
  assumes "source_inv u rest pend s w" "\<forall>f \<in> set rest. axis_ok (on_bus u f)"
    and "pend' = (if ready \<and> w_valid w then tl pend else pend)"
    and "fs = past @ cur @ rest" "list_all2 delivered past (ak_queue k)" "ak_ready k" "ak_first k = (ak_got k = [])"
    and "pend' = [] \<and> cur = [] \<and> ak_got k = [] \<or> pend' \<noteq> [] \<and> (\<exists>f. cur = [f] \<and> sent_beats u f = ak_got k @ pend')"
    and "n = length pend' + length (concat (map (sent_beats u) rest))"
  shows "\<exists>s' w'. source_step u pause ready s w = Some (Inr (s', w')) \<and> link_inv u fs n (s', w', k) \<and>
    (0 < n \<and> \<not> pause \<longrightarrow> w_valid w') \<and> (w_valid w \<and> \<not> ready \<longrightarrow> w_valid w')"
proof -
  obtain s' w' where step: "source_step u pause ready s w = Some (Inr (s', w'))"
    and post: "if pend' \<noteq> [] \<or> rest = []
     then source_inv u rest pend' s' w' \<and> w_valid w' = (pend' \<noteq> [] \<and> (w_valid w \<and> \<not> ready \<or> \<not> pause))
     else source_inv u (tl rest) (sent_beats u (hd rest)) s' w' \<and> w_valid w' = (\<not> pause)"
    using source_step_inv[OF assms(1,2), of pause ready] assms(3) by auto
  have v: "w_valid w \<Longrightarrow> pend \<noteq> []" using assms(1) by (auto simp: source_inv_def split: if_splits)
  show ?thesis
  proof (cases "pend' \<noteq> [] \<or> rest = []")
    case True
    then have "link_inv u fs n (s', w', k)"
      using post assms(4-9) unfolding link_inv_def prod.case
      by (intro exI[of _ past] exI[of _ cur] exI[of _ rest] exI[of _ pend']) simp
    moreover have "0 < n \<Longrightarrow> pend' \<noteq> []" using True assms(9) by auto
    moreover have "w_valid w \<and> \<not> ready \<Longrightarrow> pend' \<noteq> []" using v assms(3) by simp
    ultimately show ?thesis using step post True by auto
  next
    case False
    then obtain f gs where r: "rest = f # gs" by (cases rest) auto
    then have "sent_beats u f \<noteq> []" using sent_beats_Cons[of u f] assms(2) by auto
    then have "link_inv u fs n (s', w', k)"
      using post assms(4-9) False unfolding link_inv_def prod.case
      by (intro exI[of _ past] exI[of _ "[f]"] exI[of _ gs] exI[of _ "sent_beats u f"]) (simp add: r)
    moreover have "\<not> (w_valid w \<and> \<not> ready)" using v False assms(3) by (cases ready) auto
    ultimately show ?thesis using step post False by auto
  qed
qed

lemma link_step:
  assumes "link_inv u fs n st" "\<forall>f \<in> set fs. axis_ok (on_bus u f)"
  shows "\<exists>st' n'. pair_step u p st = Some (Inr st') \<and> link_inv u fs n' st' \<and>
    edge_measure n' st' \<le> edge_measure n st \<and>
    (p = (False, False) \<and> 0 < n \<longrightarrow> edge_measure n' st' < edge_measure n st)"
proof -
  obtain s w k where st: "st = (s, w, k)" by (cases st)
  obtain ps pk where p: "p = (ps, pk)" by (cases p)
  obtain past cur rest pend where i: "fs = past @ cur @ rest" "source_inv u rest pend s w"
    "list_all2 delivered past (ak_queue k)" "w_valid w \<longrightarrow> ak_ready k" "ak_first k = (ak_got k = [])"
    "n = length pend + length (concat (map (sent_beats u) rest))"
    "pend = [] \<and> cur = [] \<and> ak_got k = [] \<or> pend \<noteq> [] \<and> (\<exists>f. cur = [f] \<and> sent_beats u f = ak_got k @ pend)"
    using assms(1) unfolding link_inv_def st prod.case by blast
  have ok: "\<forall>f \<in> set rest. axis_ok (on_bus u f)" using assms(2) i(1) by simp
  let ?r = "ak_ready k \<and> \<not> pk"
  show ?thesis
  proof (cases "w_valid w \<and> \<not> pk")
    case False
    let ?k = "k\<lparr>ak_ready := True\<rparr>"
    have "\<exists>s' w'. source_step u ps ?r s w = Some (Inr (s', w')) \<and> link_inv u fs n (s', w', ?k) \<and>
        (0 < n \<and> \<not> ps \<longrightarrow> w_valid w') \<and> (w_valid w \<and> \<not> ?r \<longrightarrow> w_valid w')"
      using i False by (intro edge_next[OF i(2) ok refl i(1)]) auto
    then obtain s' w' where "source_step u ps ?r s w = Some (Inr (s', w'))" "link_inv u fs n (s', w', ?k)"
      "0 < n \<and> \<not> ps \<Longrightarrow> w_valid w'" "w_valid w \<and> \<not> ?r \<Longrightarrow> w_valid w'" by blast
    then show ?thesis using False sink_step_idle[of w pk u k]
      by (intro exI[of _ "(s', w', ?k)"] exI[of _ n]) (auto simp: st p pair_step_def edge_measure_def)
  next
    case True
    then have act: "pend = w_beat w # as_left s" "w_last w \<longleftrightarrow> as_left s = []" and r: "?r" "w_valid w"
      using i(2,4) by (auto simp: source_inv_def split: if_splits)
    obtain f where f: "cur = [f]" "sent_beats u f = ak_got k @ w_beat w # as_left s" using i(7) act(1) by auto
    have okf: "axis_ok (on_bus u f)" using assms(2) i(1) f(1) by simp
    define n' where "n' = length (as_left s) + length (concat (map (sent_beats u) rest))"
    have "\<exists>k'. sink_step u pk w k = Inr k' \<and> (\<exists>s' w'. source_step u ps ?r s w = Some (Inr (s', w')) \<and> link_inv u fs n' (s', w', k'))"
    proof (cases "as_left s = []")
      case False
      let ?k = "k\<lparr>ak_ready := True, ak_got := ak_got k @ [w_beat w], ak_first := False, ak_active := True\<rparr>"
      have "sink_step u pk w k = Inr ?k"
        using sink_step_more[OF r(2) f(2) False _ okf] act(2) False True by simp
      moreover have "\<exists>s' w'. source_step u ps ?r s w = Some (Inr (s', w')) \<and> link_inv u fs n' (s', w', ?k) \<and>
          (0 < n' \<and> \<not> ps \<longrightarrow> w_valid w') \<and> (w_valid w \<and> \<not> ?r \<longrightarrow> w_valid w')"
        using i r act f False n'_def by (intro edge_next[OF i(2) ok refl i(1)]) auto
      ultimately show ?thesis by blast
    next
      case last: True
      obtain g where g: "delivered f g" "sink_step u False w k =
        Inr (k\<lparr>ak_ready := True, ak_got := [], ak_first := True, ak_active := False, ak_queue := ak_queue k @ [g]\<rparr>)"
        using sink_step_last[OF r(2) _ _ okf, of k] f(2) act(2) last by auto
      let ?k = "k\<lparr>ak_ready := True, ak_got := [], ak_first := True, ak_active := False, ak_queue := ak_queue k @ [g]\<rparr>"
      have "list_all2 delivered (past @ [f]) (ak_queue ?k)" using i(3) g(1) by (simp add: list_all2_appendI)
      moreover have "fs = (past @ [f]) @ [] @ rest" using i(1) f(1) by simp
      ultimately have "\<exists>s' w'. source_step u ps ?r s w = Some (Inr (s', w')) \<and> link_inv u fs n' (s', w', ?k) \<and>
          (0 < n' \<and> \<not> ps \<longrightarrow> w_valid w') \<and> (w_valid w \<and> \<not> ?r \<longrightarrow> w_valid w')"
        using r act last n'_def by (intro edge_next[OF i(2) ok refl]) auto
      then show ?thesis using g(2) True by auto
    qed
    then obtain s' w' k' where "sink_step u pk w k = Inr k'" "source_step u ps ?r s w = Some (Inr (s', w'))"
      "link_inv u fs n' (s', w', k')" by blast
    moreover have "n = Suc n'" using i(6) act(1) by (simp add: n'_def)
    ultimately show ?thesis using r(2)
      by (intro exI[of _ "(s', w', k')"] exI[of _ n']) (auto simp: st p pair_step_def edge_measure_def)
  qed
qed

lemma link_run:
  assumes "link_inv u fs n st" "\<forall>f \<in> set fs. axis_ok (on_bus u f)"
  shows "\<exists>st' n'. pair_run u ps st = Some (Inr st') \<and> link_inv u fs n' st' \<and>
    (n' = 0 \<or> edge_measure n' st' + length (filter (\<lambda>p. p = (False, False)) ps) \<le> edge_measure n st)"
  using assms(1)
proof (induction ps arbitrary: n st)
  case Nil
  then show ?case by auto
next
  case (Cons p ps)
  obtain st1 n1 where 1: "pair_step u p st = Some (Inr st1)" "link_inv u fs n1 st1"
    "edge_measure n1 st1 \<le> edge_measure n st"
    "p = (False, False) \<and> 0 < n \<Longrightarrow> edge_measure n1 st1 < edge_measure n st"
    using link_step[OF Cons.prems assms(2), of p] by blast
  obtain st2 n2 where 2: "pair_run u ps st1 = Some (Inr st2)" "link_inv u fs n2 st2"
    "n2 = 0 \<or> edge_measure n2 st2 + length (filter (\<lambda>p. p = (False, False)) ps) \<le> edge_measure n1 st1"
    using Cons.IH[OF 1(2)] by blast
  have "n = 0 \<Longrightarrow> edge_measure n st = 0" by (simp add: edge_measure_def)
  moreover have "edge_measure n2 st2 = 0 \<Longrightarrow> n2 = 0" by (auto simp: edge_measure_def split: if_splits)
  ultimately have "n2 = 0 \<or> edge_measure n2 st2 + length (filter (\<lambda>p. p = (False, False)) (p # ps)) \<le> edge_measure n st"
    using 1(3,4) 2(3) by (cases "n = 0") auto
  then show ?case using 1(1) 2(1,2) by (intro exI[of _ st2] exI[of _ n2]) simp
qed

section \<open>What a client of the link needs\<close>

text \<open>Frames can be handed over at any time, and frames can be taken from the sink's queue: the
  invariant then holds of the frames taken and the frames still queued, together.\<close>

lemma link_send:
  assumes "link_inv u fs n (s, w, k)"
  shows "link_inv u (fs @ [f]) (n + length (sent_beats u f)) (source_send f s, w, k)"
proof -
  obtain past cur rest pend where i: "fs = past @ cur @ rest" "source_inv u rest pend s w"
    "list_all2 delivered past (ak_queue k)" "w_valid w \<longrightarrow> ak_ready k" "ak_first k = (ak_got k = [])"
    "n = length pend + length (concat (map (sent_beats u) rest))"
    "pend = [] \<and> cur = [] \<and> ak_got k = [] \<or> pend \<noteq> [] \<and> (\<exists>f. cur = [f] \<and> sent_beats u f = ak_got k @ pend)"
    using assms unfolding link_inv_def prod.case by blast
  then show ?thesis unfolding link_inv_def prod.case
    by (intro exI[of _ past] exI[of _ cur] exI[of _ "rest @ [f]"] exI[of _ pend])
       (auto simp: source_inv_def source_send_def)
qed

lemma link_count:
  assumes "link_inv u fs n (s, w, k)"
  shows "length (ak_queue k) \<le> length fs" "w_valid w \<Longrightarrow> length (ak_queue k) < length fs"
    "i < length (ak_queue k) \<Longrightarrow> delivered (fs ! i) (ak_queue k ! i)" "w_valid w \<longrightarrow> ak_ready k"
proof -
  obtain past cur rest pend where i: "fs = past @ cur @ rest" "source_inv u rest pend s w"
    "list_all2 delivered past (ak_queue k)" "w_valid w \<longrightarrow> ak_ready k"
    "pend = [] \<and> cur = [] \<and> ak_got k = [] \<or> pend \<noteq> [] \<and> (\<exists>f. cur = [f] \<and> sent_beats u f = ak_got k @ pend)"
    using assms unfolding link_inv_def prod.case by blast
  have l: "length (ak_queue k) = length past" using i(3) by (simp add: list_all2_lengthD)
  show "length (ak_queue k) \<le> length fs" using l i(1) by simp
  show "w_valid w \<longrightarrow> ak_ready k" by (rule i(4))
  show "length (ak_queue k) < length fs" if "w_valid w"
    using that l i(1,2,5) by (auto simp: source_inv_def split: if_splits)
  show "delivered (fs ! i) (ak_queue k ! i)" if "i < length (ak_queue k)"
    using that l list_all2_nthD2[OF i(3) that] i(1) by (simp add: nth_append)
qed

lemma sink_step_taken_before:
  "sink_step u p w (k\<lparr>ak_queue := pre @ ak_queue k\<rparr>) =
   bindE (sink_step u p w k) (\<lambda>k'. Inr (k'\<lparr>ak_queue := pre @ ak_queue k'\<rparr>))"
  by (cases "assertE (keep_ok u (ak_first k) (w_last w) (b_keep (w_beat w)))")
     (auto simp: sink_step_def Let_def bindE_assoc intro!: bindE_cong)

lemma sink_step_effect:
  assumes "sink_step u p w k = Inr k'"
  shows "ak_ready k'" "\<not> (w_valid w \<and> \<not> p) \<Longrightarrow> ak_queue k' = ak_queue k \<and> ak_got k' = ak_got k"
    "ak_queue k' = ak_queue k \<or> w_valid w \<and> \<not> p \<and> ak_got k' = [] \<and> (\<exists>g. ak_queue k' = ak_queue k @ [g])"
  using assms by (auto simp: sink_step_def Let_def bindE_Inr_iff split: if_splits)

lemma source_start_valid:
  "source_start u p s w = Some (Inr (s', w')) \<Longrightarrow> w_valid w' \<Longrightarrow> w_valid w \<or> \<not> p"
  by (auto simp: source_start_def split: if_splits list.splits option.splits sum.splits)

lemma source_step_valid:
  "source_step u p r s w = Some (Inr (s', w')) \<Longrightarrow> w_valid w' \<Longrightarrow> w_valid w \<and> \<not> r \<or> \<not> p"
  by (auto simp: source_step_def Let_def split: if_splits list.splits dest!: source_start_valid)

section \<open>Delivery\<close>

text \<open>The pair after the frames were handed to \<open>send\<close> and the reset was seen by both sides.\<close>

definition pair_init :: "axis_frame list \<Rightarrow> axis_pair" where
  "pair_init fs = (case source_reset (fold source_send fs source_init) of (s, w) \<Rightarrow> (s, w, sink_reset sink_init))"

lemma fold_send: "as_queue (fold source_send fs s) = as_queue s @ map axis_copy fs"
  by (induction fs arbitrary: s) (simp_all add: source_send_def)

lemma ceil_div_step: "0 < m \<Longrightarrow> 0 < n \<Longrightarrow> Suc ((n - m + m - 1) div m) = (n + m - 1) div (m :: nat)"
proof (cases "m \<le> n")
  case True
  assume m: "0 < m" "0 < n"
  have "n + m - 1 = (n - m + m - 1) + m" using True m by simp
  then show ?thesis using m by (simp only: div_add_self2)
next
  case False
  assume m: "0 < m" "0 < n"
  have "n + m - 1 = (n - 1) + m" using m by simp
  moreover have "(n - m + m - 1) div m = 0" "(n - 1) div m = 0" using m False by simp_all
  ultimately show ?thesis using m by (simp only: div_add_self2)
qed

lemma length_chunks: "0 < m \<Longrightarrow> length (chunks m xs) = (length xs + m - 1) div m"
proof (induction m xs rule: chunks.induct)
  case (1 m xs)
  show ?case
  proof (cases "xs = []")
    case False
    have "length (chunks m xs) = Suc (length (chunks m (drop m xs)))"
      unfolding chunks_step[OF False "1.prems"] by simp
    also have "\<dots> = Suc ((length xs - m + m - 1) div m)" using "1.IH" False "1.prems" by auto
    also have "\<dots> = (length xs + m - 1) div m" using ceil_div_step[OF "1.prems"] False by simp
    finally show ?thesis .
  qed (use "1.prems" in simp)
qed

lemma length_sent_beats:
  assumes "axis_ok (on_bus u f)"
  shows "length (sent_beats u f) = (length (af_data f) + bus_M u - 1) div bus_M u"
proof -
  have "length (map b_data (sent_beats u f)) = length (chunks (bus_M u) (af_data f))"
    unfolding sent_beats_def using frame_beats_map[OF copy_ok[OF assms], of b_data] by simp
  then show ?thesis using assms length_chunks[of "bus_M u" "af_data f"] by (simp add: axis_ok_def)
qed

lemma pair_init_inv:
  "link_inv u fs (length (concat (map (sent_beats u) fs))) (pair_init fs)"
  unfolding link_inv_def pair_init_def source_reset_def prod.case
  by (intro exI[of _ "[]"] exI[of _ fs])
     (simp add: source_inv_def sink_reset_def sink_init_def fold_send source_init_def)

lemma link_inv_delivered:
  "link_inv u fs n (s, w, k) \<Longrightarrow> \<exists>past rest. fs = past @ rest \<and> list_all2 delivered past (ak_queue k)"
  unfolding link_inv_def by blast

lemma link_inv_0:
  assumes "link_inv u fs 0 (s, w, k)" "\<forall>f \<in> set fs. axis_ok (on_bus u f)"
  shows "list_all2 delivered fs (ak_queue k)"
proof -
  obtain past cur rest pend where i: "fs = past @ cur @ rest" "list_all2 delivered past (ak_queue k)"
    "0 = length pend + length (concat (map (sent_beats u) rest))"
    "pend = [] \<and> cur = [] \<or> pend \<noteq> []"
    using assms(1) unfolding link_inv_def by auto
  have "rest = []"
  proof (cases rest)
    case (Cons f gs)
    then show ?thesis using sent_beats_Cons[of u f] assms(2) i(1,3) by auto
  qed simp
  then show ?thesis using i by simp
qed

lemma delivered_data: "list_all2 delivered fs gs \<Longrightarrow> map af_data gs = map af_data fs"
  by (induction rule: list_all2_induct) (simp_all add: delivered_def)

text \<open>Property C18: the stream link is safe under every schedule of pauses. Whatever frames are
  sent that fit the bus, and in whichever cycles the source or the sink is paused, no check of
  the sink fails and nothing raises, and the frames the sink has queued at any time are a prefix
  of the frames sent: unchanged, each once, in order.\<close>

theorem axis_link_safe:
  assumes "\<forall>f \<in> set fs. axis_ok (on_bus u f)"
  shows "\<exists>s w k past rest. pair_run u ps (pair_init fs) = Some (Inr (s, w, k)) \<and>
    fs = past @ rest \<and> list_all2 delivered past (ak_queue k)"
proof -
  obtain st n where r: "pair_run u ps (pair_init fs) = Some (Inr st)" "link_inv u fs n st"
    using link_run[OF pair_init_inv assms, of ps] by blast
  obtain s w k where st: "st = (s, w, k)" by (cases st)
  obtain past rest where "fs = past @ rest" "list_all2 delivered past (ak_queue k)"
    using link_inv_delivered[OF r(2)[unfolded st]] by blast
  then show ?thesis using r(1) unfolding st by (intro exI conjI)
qed

text \<open>Property C19: the stream link delivers. When two unpaused cycles are available for every
  transfer of the frames, \<open>ceil(len / M)\<close> for a frame on \<open>M\<close> lanes, all frames have arrived,
  in order and unchanged, however the paused cycles are spread, and \<open>read()\<close> on the sink returns
  the concatenation of their data.\<close>

theorem axis_link_delivers:
  assumes "\<forall>f \<in> set fs. axis_ok (on_bus u f)"
    and "2 * sum_list (map (\<lambda>f. (length (af_data f) + bus_M u - 1) div bus_M u) fs)
      \<le> length (filter (\<lambda>p. p = (False, False)) ps)"
  shows "\<exists>s w k. pair_run u ps (pair_init fs) = Some (Inr (s, w, k)) \<and> list_all2 delivered fs (ak_queue k) \<and>
    fst (sink_read (-1) [] k) = concat (map af_data fs)"
proof -
  let ?n = "length (concat (map (sent_beats u) fs))"
  have "?n = sum_list (map (\<lambda>f. (length (af_data f) + bus_M u - 1) div bus_M u) fs)"
    using assms(1) by (simp add: length_concat o_def length_sent_beats cong: map_cong)
  then have m: "edge_measure ?n (pair_init fs) \<le> length (filter (\<lambda>p. p = (False, False)) ps)"
    using assms(2) by (simp add: edge_measure_def)
  obtain st n where r: "pair_run u ps (pair_init fs) = Some (Inr st)" "link_inv u fs n st"
    "n = 0 \<or> edge_measure n st + length (filter (\<lambda>p. p = (False, False)) ps) \<le> edge_measure ?n (pair_init fs)"
    using link_run[OF pair_init_inv assms(1), of ps] by blast
  obtain s w k where st: "st = (s, w, k)" by (cases st)
  have "n = 0" using r(3) m by (cases n) (auto simp: edge_measure_def split: if_splits)
  then have d: "list_all2 delivered fs (ak_queue k)" using link_inv_0[of u fs s w k] r(2) st assms(1) by simp
  then have "fst (sink_read (-1) [] k) = concat (map af_data fs)"
    using delivered_data[OF d] by (simp add: sink_read_def Let_def)
  then show ?thesis using r(1) st d by blast
qed

text \<open>A frame without data has no transfer: the source fails when it takes it.\<close>

lemma source_empty_frame:
  "\<not> as_active s \<Longrightarrow> as_queue s = f # fs \<Longrightarrow> af_data f = [] \<Longrightarrow> 0 < bus_M u \<Longrightarrow> af_last_user f = None \<Longrightarrow>
   source_start u p s w = Some (Inl IndexError)"
  by (simp add: source_start_def axis_build_def build_loop.simps)

section \<open>Witnesses\<close>

definition demo_bus :: bus where
  "demo_bus = \<lparr>bus_N = 16, bus_M = 2\<rparr>"

definition demo_frames :: "axis_frame list" where
  "demo_frames = [axis_bytes [1, 2, 3], (axis_bytes [4])\<lparr>af_user := SInt 0, af_last_user := Some 1\<rparr>]"

lemma demo_frames_ok: "\<forall>f \<in> set demo_frames. axis_ok (on_bus demo_bus f)"
  by (simp add: demo_frames_def demo_bus_def axis_ok_def axis_bytes_def axis_of_data_def bus_WL_def fits_def
      on_bus_def Let_def)

theorem axis_link_safe_witness:
  "\<exists>s w k past rest. pair_run demo_bus [(False, False), (True, False), (False, True)] (pair_init demo_frames) =
     Some (Inr (s, w, k)) \<and> demo_frames = past @ rest \<and> list_all2 delivered past (ak_queue k)"
  by (rule axis_link_safe[OF demo_frames_ok])

theorem axis_link_delivers_witness:
  "\<exists>s w k. pair_run demo_bus (replicate 6 (False, False)) (pair_init demo_frames) = Some (Inr (s, w, k)) \<and>
     fst (sink_read (-1) [] k) = [1, 2, 3, 4]"
proof -
  have "2 * sum_list (map (\<lambda>f. (length (af_data f) + bus_M demo_bus - 1) div bus_M demo_bus) demo_frames)
      \<le> length (filter (\<lambda>p. p = (False, False)) (replicate 6 (False, False)))"
    by (simp add: demo_frames_def demo_bus_def axis_bytes_def axis_of_data_def)
  moreover have "concat (map af_data demo_frames) = [1, 2, 3, 4]"
    by (simp add: demo_frames_def axis_bytes_def axis_of_data_def)
  ultimately show ?thesis using axis_link_delivers[OF demo_frames_ok] by fastforce
qed

end
