(* ===== verification/NetFrames.thy ===== *)
theory NetFrames
  imports AxisFrame
begin

text \<open>
  The network frames of \<open>fpga/lib/eth/tb\<close>: \<open>EthFrame\<close> (\<open>eth_ep.py\<close>), \<open>ARPFrame\<close>
  (\<open>arp_ep.py\<close>), \<open>IPFrame\<close> (\<open>ip_ep.py\<close>) and \<open>UDPFrame\<close> (\<open>udp_ep.py\<close>), each with its
  header fields, its checksums and its \<open>build\<close> and \<open>parse\<close> methods down to a stream frame. The
  layers nest as in the code: UDP in IP in Ethernet in a stream frame. \<open>zlib.crc32\<close> is a
  parameter.
\<close>

unbundle bit_operations_syntax

section \<open>Big-endian packing\<close>

text \<open>\<open>struct.pack\<close> and \<open>struct.unpack\<close> with the formats \<open>B\<close>, \<open>>H\<close>, \<open>>L\<close> and \<open>>Q\<close>; a packed
  \<open>None\<close> raises. A MAC address is the low six of the eight bytes of \<open>>Q\<close>.\<close>

definition to_be :: "nat \<Rightarrow> int \<Rightarrow> bytes" where
  "to_be n x = rev (to_le n x)"

definition from_be :: "bytes \<Rightarrow> int" where
  "from_be bs = from_le (rev bs)"

definition pack_be :: "nat \<Rightarrow> int \<Rightarrow> bytes result" where
  "pack_be n x = (if 0 \<le> x \<and> x < 2 ^ (8 * n) then Inr (to_be n x) else Inl StructError)"

definition unpack_be :: "nat \<Rightarrow> bytes \<Rightarrow> int result" where
  "unpack_be n bs = (if length bs = n then Inr (from_be bs) else Inl StructError)"

definition pack_opt :: "nat \<Rightarrow> int option \<Rightarrow> bytes result" where
  "pack_opt n x = (case x of None \<Rightarrow> Inl StructError | Some v \<Rightarrow> pack_be n v)"

definition pack_mac :: "int \<Rightarrow> bytes result" where
  "pack_mac x = bindE (pack_be 8 x) (\<lambda>bs. Inr (drop 2 bs))"

definition unpack_mac :: "bytes \<Rightarrow> int result" where
  "unpack_mac bs = unpack_be 8 ([0, 0] @ bs)"

lemma length_to_be [simp]: "length (to_be n x) = n"
  by (simp add: to_be_def)

lemma pack_be_fits [simp]: "fits (8 * n) x \<Longrightarrow> pack_be n x = Inr (to_be n x)"
  by (simp add: pack_be_def fits_def)

lemma unpack_to_be [simp]: "fits (8 * n) x \<Longrightarrow> unpack_be n (to_be n x) = Inr x"
  by (simp add: unpack_be_def from_be_def to_be_def from_le_to_le)

lemma to_le_add: "to_le (m + n) x = to_le m x @ to_le n (drop_bit (8 * m) x)"
  by (induction m arbitrary: x) (simp_all add: add.commute)

lemma to_be_8_mac: "fits 48 x \<Longrightarrow> to_be 8 x = [0, 0] @ to_be 6 x"
  using to_le_add[of 6 2 x] by (simp add: to_be_def numeral_2_eq_2)

lemma pack_mac_fits [simp]: "fits 48 x \<Longrightarrow> pack_mac x = Inr (to_be 6 x)"
  using fits_mono[of 48 x "8 * 8"] by (simp add: pack_mac_def to_be_8_mac)

lemma unpack_mac_to_be [simp]: "fits 48 x \<Longrightarrow> unpack_mac (to_be 6 x) = Inr x"
proof -
  assume h: "fits 48 x"
  then have "fits (8 * 8) x" using fits_mono by simp
  from unpack_to_be[OF this] show ?thesis by (simp add: unpack_mac_def to_be_8_mac[OF h])
qed

text \<open>The number formats as codecs.\<close>

interpretation be: codec "pack_be n" "unpack_be n" "fits (8 * n)" for n
  by unfold_locales (auto simp: pack_be_def fits_def unpack_be_def from_be_def to_be_def from_le_to_le
      take_bit_int_eq_self split: if_splits)

interpretation mac: codec pack_mac unpack_mac "fits 48"
  by unfold_locales auto

lemma be_formats [simp]:
  "fits 8 x \<Longrightarrow> pack_be 1 x = Inr (to_be 1 x)" "fits 16 x \<Longrightarrow> pack_be 2 x = Inr (to_be 2 x)"
  "fits 32 x \<Longrightarrow> pack_be 4 x = Inr (to_be 4 x)" "fits 16 x \<Longrightarrow> pack_opt 2 (Some x) = Inr (to_be 2 x)"
  "fits 8 x \<Longrightarrow> unpack_be 1 (to_be 1 x) = Inr x" "fits 16 x \<Longrightarrow> unpack_be 2 (to_be 2 x) = Inr x"
  "fits 32 x \<Longrightarrow> unpack_be 4 (to_be 4 x) = Inr x"
  by (simp_all add: pack_opt_def)

text \<open>Two fields in one number.\<close>

lemma joined_fields:
  assumes "fits n y"
  shows "drop_bit n (push_bit n x OR y) = x" "take_bit n (push_bit n x OR y) = y"
  using assms by (simp_all add: drop_bit_push_bit take_bit_push_bit)

lemma fits_joined: "fits n y \<Longrightarrow> fits m x \<Longrightarrow> fits (m + n) (push_bit n x OR y)"
  using fits_push_bit[of "m + n" n x] fits_mono[of n y "m + n"] by (simp add: fits_or)

section \<open>Frames\<close>

record eth_hdr =
  eth_dest_mac :: int
  eth_src_mac :: int
  eth_type :: int

record eth_frame = eth_hdr +
  eth_payload :: axis_frame
  eth_fcs :: "int option"

record arp_frame = eth_hdr +
  arp_htype :: int
  arp_ptype :: int
  arp_hlen :: int
  arp_plen :: int
  arp_oper :: int
  arp_sha :: int
  arp_spa :: int
  arp_tha :: int
  arp_tpa :: int

record ip_hdr = eth_hdr +
  ip_version :: int
  ip_ihl :: int
  ip_dscp :: int
  ip_ecn :: int
  ip_length :: "int option"
  ip_identification :: int
  ip_flags :: int
  ip_fragment_offset :: int
  ip_ttl :: int
  ip_protocol :: int
  ip_header_checksum :: "int option"
  ip_source_ip :: int
  ip_dest_ip :: int

record ip_frame = ip_hdr +
  ip_payload :: axis_frame

record udp_frame = ip_hdr +
  udp_source_port :: int
  udp_dest_port :: int
  udp_length :: "int option"
  udp_checksum :: "int option"
  udp_payload :: axis_frame

text \<open>A payload given as bytes goes through the constructor and the setter. The bytes of a
  stream frame that holds a list cannot be appended to bytes.\<close>

definition plain :: "bytes \<Rightarrow> axis_frame" where
  "plain d = axis_copy (axis_bytes d)"

definition axis_payload :: "axis_frame \<Rightarrow> bytes result" where
  "axis_payload f = (if af_bytes f then Inr (map word_of_int (af_data f)) else Inl TypeError)"

lemma plain_simps [simp]:
  "af_data (plain d) = map uint d" "af_bytes (plain d)" "axis_payload (plain d) = Inr d"
  by (simp_all add: plain_def axis_copy_def axis_bytes_def axis_of_data_def axis_payload_def o_def)

lemma axis_bytes_simps [simp]:
  "af_data (axis_bytes d) = map uint d" "af_bytes (axis_bytes d)" "axis_payload (axis_bytes d) = Inr d"
  by (simp_all add: axis_bytes_def axis_of_data_def axis_payload_def o_def)

definition eth_new :: "bytes \<Rightarrow> int \<Rightarrow> int \<Rightarrow> int \<Rightarrow> eth_frame" where
  "eth_new d dest src ty = \<lparr>eth_dest_mac = dest, eth_src_mac = src, eth_type = ty, eth_payload = plain d, eth_fcs = None\<rparr>"

definition eth_frame_init :: eth_frame where
  "eth_frame_init = eth_new [] 0 0 0"

definition arp_frame_init :: arp_frame where
  "arp_frame_init = \<lparr>eth_dest_mac = 0, eth_src_mac = 0, eth_type = 0, arp_htype = 1, arp_ptype = 0x0800,
     arp_hlen = 6, arp_plen = 4, arp_oper = 2, arp_sha = 0x5A5152535455, arp_spa = 0xc0a80164,
     arp_tha = 0xDAD1D2D3D4D5, arp_tpa = 0xc0a80164\<rparr>"

definition ip_frame_init :: ip_frame where
  "ip_frame_init = \<lparr>eth_dest_mac = 0, eth_src_mac = 0, eth_type = 0, ip_version = 4, ip_ihl = 5, ip_dscp = 0,
     ip_ecn = 0, ip_length = None, ip_identification = 0, ip_flags = 2, ip_fragment_offset = 0, ip_ttl = 64,
     ip_protocol = 0x11, ip_header_checksum = None, ip_source_ip = 0xc0a80164, ip_dest_ip = 0xc0a80165,
     ip_payload = plain []\<rparr>"

definition udp_frame_init :: udp_frame where
  "udp_frame_init = \<lparr>eth_dest_mac = 0, eth_src_mac = 0, eth_type = 0, ip_version = 4, ip_ihl = 5, ip_dscp = 0,
     ip_ecn = 0, ip_length = None, ip_identification = 0, ip_flags = 2, ip_fragment_offset = 0, ip_ttl = 64,
     ip_protocol = 0x11, ip_header_checksum = None, ip_source_ip = 0xc0a80164, ip_dest_ip = 0xc0a80165,
     udp_source_port = 1, udp_dest_port = 2, udp_length = None, udp_checksum = None, udp_payload = plain []\<rparr>"

definition copy_eth :: "'a eth_hdr_scheme \<Rightarrow> 'b eth_hdr_scheme \<Rightarrow> 'b eth_hdr_scheme" where
  "copy_eth d s = s\<lparr>eth_src_mac := eth_src_mac d, eth_dest_mac := eth_dest_mac d, eth_type := eth_type d\<rparr>"

definition copy_ip :: "'a ip_hdr_scheme \<Rightarrow> 'b ip_hdr_scheme \<Rightarrow> 'b ip_hdr_scheme" where
  "copy_ip d s = s\<lparr>eth_src_mac := eth_src_mac d, eth_dest_mac := eth_dest_mac d, eth_type := eth_type d,
     ip_version := ip_version d, ip_ihl := ip_ihl d, ip_dscp := ip_dscp d, ip_ecn := ip_ecn d,
     ip_length := ip_length d, ip_identification := ip_identification d, ip_flags := ip_flags d,
     ip_fragment_offset := ip_fragment_offset d, ip_ttl := ip_ttl d, ip_protocol := ip_protocol d,
     ip_header_checksum := ip_header_checksum d, ip_source_ip := ip_source_ip d, ip_dest_ip := ip_dest_ip d\<rparr>"

text \<open>The copy constructors: \<open>EthFrame(frame)\<close> and its kin.\<close>

definition eth_copy :: "eth_frame \<Rightarrow> eth_frame" where
  "eth_copy f = f\<lparr>eth_payload := axis_copy (axis_copy (eth_payload f))\<rparr>"

definition ip_copy :: "ip_frame \<Rightarrow> ip_frame" where
  "ip_copy f = f\<lparr>ip_payload := axis_copy (axis_copy (ip_payload f))\<rparr>"

definition udp_copy :: "udp_frame \<Rightarrow> udp_frame" where
  "udp_copy f = f\<lparr>udp_payload := axis_copy (axis_copy (udp_payload f))\<rparr>"

section \<open>Ethernet\<close>

definition eth_build_axis :: "eth_frame \<Rightarrow> axis_frame result" where
  "eth_build_axis f =
     bindE (pack_mac (eth_dest_mac f)) (\<lambda>d.
     bindE (pack_mac (eth_src_mac f)) (\<lambda>s.
     bindE (pack_be 2 (eth_type f)) (\<lambda>t.
     bindE (axis_payload (eth_payload f)) (\<lambda>p. Inr (axis_bytes (d @ s @ t @ p))))))"

definition eth_calc_fcs :: "(bytes \<Rightarrow> int) \<Rightarrow> eth_frame \<Rightarrow> int result" where
  "eth_calc_fcs crc f =
     bindE (eth_build_axis f) (\<lambda>a. bindE (axis_payload a) (\<lambda>bs. Inr (crc bs AND 0xffffffff)))"

definition eth_update_fcs :: "(bytes \<Rightarrow> int) \<Rightarrow> eth_frame \<Rightarrow> eth_frame result" where
  "eth_update_fcs crc f = bindE (eth_calc_fcs crc f) (\<lambda>c. Inr (f\<lparr>eth_fcs := Some c\<rparr>))"

text \<open>The frame and the stream frame with the FCS at its end.\<close>

definition eth_build_axis_fcs :: "(bytes \<Rightarrow> int) \<Rightarrow> eth_frame \<Rightarrow> (eth_frame \<times> axis_frame) result" where
  "eth_build_axis_fcs crc f =
     bindE (if eth_fcs f = None then eth_update_fcs crc f else Inr f) (\<lambda>f.
     bindE (eth_build_axis f) (\<lambda>a.
     bindE (axis_payload a) (\<lambda>d.
     bindE (case eth_fcs f of None \<Rightarrow> Inl StructError | Some c \<Rightarrow> pack_L c) (\<lambda>c.
       Inr (f, axis_bytes (d @ c))))))"

definition eth_parse_axis :: "axis_frame \<Rightarrow> eth_frame \<Rightarrow> eth_frame result" where
  "eth_parse_axis a f =
     bindE (axis_payload a) (\<lambda>d.
     bindE (unpack_mac (slice d 0 6)) (\<lambda>dm.
     bindE (unpack_mac (slice d 6 12)) (\<lambda>sm.
     bindE (unpack_be 2 (slice d 12 14)) (\<lambda>t.
       Inr (f\<lparr>eth_dest_mac := dm, eth_src_mac := sm, eth_type := t, eth_payload := plain (drop 14 d)\<rparr>)))))"

definition eth_parse_axis_fcs :: "axis_frame \<Rightarrow> eth_frame \<Rightarrow> eth_frame result" where
  "eth_parse_axis_fcs a f =
     bindE (eth_parse_axis a f) (\<lambda>f.
     bindE (axis_payload (eth_payload f)) (\<lambda>d.
     bindE (unpack_L (drop (length d - 4) d)) (\<lambda>c.
       Inr (f\<lparr>eth_payload := plain (take (length d - 4) d), eth_fcs := Some c\<rparr>))))"

definition eth_eq :: "eth_frame \<Rightarrow> eth_frame \<Rightarrow> bool" where
  "eth_eq f g \<longleftrightarrow> eth_src_mac f = eth_src_mac g \<and> eth_dest_mac f = eth_dest_mac g \<and> eth_type f = eth_type g \<and>
     axis_eq (eth_payload f) (eth_payload g)"

section \<open>ARP\<close>

definition arp_build_eth :: "arp_frame \<Rightarrow> eth_frame result" where
  "arp_build_eth f =
     bindE (pack_be 2 (arp_htype f)) (\<lambda>d0.
     bindE (pack_be 2 (arp_ptype f)) (\<lambda>d1.
     bindE (pack_be 1 (arp_hlen f)) (\<lambda>d2.
     bindE (pack_be 1 (arp_plen f)) (\<lambda>d3.
     bindE (pack_be 2 (arp_oper f)) (\<lambda>d4.
     bindE (pack_mac (arp_sha f)) (\<lambda>d5.
     bindE (pack_be 4 (arp_spa f)) (\<lambda>d6.
     bindE (pack_mac (arp_tha f)) (\<lambda>d7.
     bindE (pack_be 4 (arp_tpa f)) (\<lambda>d8.
       Inr (eth_new (d0 @ d1 @ d2 @ d3 @ d4 @ d5 @ d6 @ d7 @ d8)
         (eth_dest_mac f) (eth_src_mac f) (eth_type f)))))))))))"

definition arp_build_axis :: "arp_frame \<Rightarrow> axis_frame result" where
  "arp_build_axis f = bindE (arp_build_eth f) eth_build_axis"

definition arp_parse_eth :: "eth_frame \<Rightarrow> arp_frame \<Rightarrow> arp_frame result" where
  "arp_parse_eth e f =
     bindE (axis_payload (eth_payload e)) (\<lambda>d.
     bindE (unpack_be 2 (slice d 0 2)) (\<lambda>htype.
     bindE (unpack_be 2 (slice d 2 4)) (\<lambda>ptype.
     bindE (unpack_be 1 (slice d 4 5)) (\<lambda>hlen.
     bindE (unpack_be 1 (slice d 5 6)) (\<lambda>plen.
     bindE (unpack_be 2 (slice d 6 8)) (\<lambda>oper.
     bindE (unpack_mac (slice d 8 14)) (\<lambda>sha.
     bindE (unpack_be 4 (slice d 14 18)) (\<lambda>spa.
     bindE (unpack_mac (slice d 18 24)) (\<lambda>tha.
     bindE (unpack_be 4 (slice d 24 28)) (\<lambda>tpa.
       Inr ((copy_eth e f)\<lparr>arp_htype := htype, arp_ptype := ptype, arp_hlen := hlen, arp_plen := plen,
         arp_oper := oper, arp_sha := sha, arp_spa := spa, arp_tha := tha, arp_tpa := tpa\<rparr>)))))))))))"

definition arp_parse_axis :: "axis_frame \<Rightarrow> arp_frame \<Rightarrow> arp_frame result" where
  "arp_parse_axis a f = bindE (eth_parse_axis a eth_frame_init) (\<lambda>e. arp_parse_eth e f)"

definition arp_eq :: "arp_frame \<Rightarrow> arp_frame \<Rightarrow> bool" where
  "arp_eq f g \<longleftrightarrow> eth_src_mac f = eth_src_mac g \<and> eth_dest_mac f = eth_dest_mac g \<and> eth_type f = eth_type g \<and>
     arp_htype f = arp_htype g \<and> arp_ptype f = arp_ptype g \<and> arp_hlen f = arp_hlen g \<and> arp_plen f = arp_plen g \<and>
     arp_oper f = arp_oper g \<and> arp_sha f = arp_sha g \<and> arp_spa f = arp_spa g \<and> arp_tha f = arp_tha g \<and>
     arp_tpa f = arp_tpa g"

section \<open>IP\<close>

text \<open>\<open>(x & 0xffff) + (x >> 16)\<close>, and the checksum of the header; adding \<open>None\<close> raises.\<close>

definition fold16 :: "int \<Rightarrow> int" where
  "fold16 x = (x AND 0xffff) + drop_bit 16 x"

definition finish16 :: "int \<Rightarrow> int" where
  "finish16 x = (NOT (fold16 (fold16 x))) AND 0xffff"

definition add_opt :: "int \<Rightarrow> int option \<Rightarrow> int result" where
  "add_opt x y = (case y of None \<Rightarrow> Inl TypeError | Some v \<Rightarrow> Inr (x + v))"

definition calc_ip_checksum :: "'a ip_hdr_scheme \<Rightarrow> int result" where
  "calc_ip_checksum f =
     bindE (add_opt (push_bit 12 (ip_version f) OR push_bit 8 (ip_ihl f) OR push_bit 2 (ip_dscp f) OR ip_ecn f)
       (ip_length f)) (\<lambda>c.
     Inr (finish16 (c + ip_identification f + (push_bit 13 (ip_flags f) OR ip_fragment_offset f)
       + (push_bit 8 (ip_ttl f) OR ip_protocol f)
       + (ip_source_ip f AND 0xffff) + (drop_bit 16 (ip_source_ip f) AND 0xffff)
       + (ip_dest_ip f AND 0xffff) + (drop_bit 16 (ip_dest_ip f) AND 0xffff))))"

definition update_ip_checksum :: "'a ip_hdr_scheme \<Rightarrow> 'a ip_hdr_scheme result" where
  "update_ip_checksum f = bindE (calc_ip_checksum f) (\<lambda>c. Inr (f\<lparr>ip_header_checksum := Some c\<rparr>))"

definition verify_ip_checksum :: "'a ip_hdr_scheme \<Rightarrow> bool result" where
  "verify_ip_checksum f = bindE (calc_ip_checksum f) (\<lambda>c. Inr (ip_header_checksum f = Some c))"

definition ip_update_length :: "ip_frame \<Rightarrow> ip_frame" where
  "ip_update_length f = f\<lparr>ip_length := Some (int (length (af_data (ip_payload f))) + 20)\<rparr>"

definition ip_build :: "ip_frame \<Rightarrow> ip_frame result" where
  "ip_build f =
     (let f1 = (if ip_length f = None then ip_update_length f else f)
      in if ip_header_checksum f1 = None then update_ip_checksum f1 else Inr f1)"

definition ip_header_bytes :: "'a ip_hdr_scheme \<Rightarrow> bytes result" where
  "ip_header_bytes f =
     bindE (pack_be 1 (push_bit 4 (ip_version f) OR ip_ihl f)) (\<lambda>d0.
     bindE (pack_be 1 (push_bit 2 (ip_dscp f) OR ip_ecn f)) (\<lambda>d1.
     bindE (pack_opt 2 (ip_length f)) (\<lambda>d2.
     bindE (pack_be 2 (ip_identification f)) (\<lambda>d3.
     bindE (pack_be 2 (push_bit 13 (ip_flags f) OR ip_fragment_offset f)) (\<lambda>d4.
     bindE (pack_be 1 (ip_ttl f)) (\<lambda>d5.
     bindE (pack_be 1 (ip_protocol f)) (\<lambda>d6.
     bindE (pack_opt 2 (ip_header_checksum f)) (\<lambda>d7.
     bindE (pack_be 4 (ip_source_ip f)) (\<lambda>d8.
     bindE (pack_be 4 (ip_dest_ip f)) (\<lambda>d9.
       Inr (d0 @ d1 @ d2 @ d3 @ d4 @ d5 @ d6 @ d7 @ d8 @ d9)))))))))))"

text \<open>\<open>build_eth\<close> fills in length and checksum of the frame it is called on.\<close>

definition ip_build_eth :: "ip_frame \<Rightarrow> (ip_frame \<times> eth_frame) result" where
  "ip_build_eth f =
     bindE (ip_build f) (\<lambda>f.
     bindE (ip_header_bytes f) (\<lambda>h.
     bindE (axis_payload (ip_payload f)) (\<lambda>p.
       Inr (f, eth_new (h @ p) (eth_dest_mac f) (eth_src_mac f) (eth_type f)))))"

definition ip_build_axis :: "ip_frame \<Rightarrow> (ip_frame \<times> axis_frame) result" where
  "ip_build_axis f = bindE (ip_build_eth f) (\<lambda>(f, e). bindE (eth_build_axis e) (\<lambda>a. Inr (f, a)))"

definition ip_parse_eth :: "eth_frame \<Rightarrow> ip_frame \<Rightarrow> ip_frame result" where
  "ip_parse_eth e f =
     bindE (axis_payload (eth_payload e)) (\<lambda>d.
     bindE (unpack_be 1 (slice d 0 1)) (\<lambda>v0.
     bindE (unpack_be 1 (slice d 1 2)) (\<lambda>v1.
     bindE (unpack_be 2 (slice d 2 4)) (\<lambda>len.
     bindE (unpack_be 2 (slice d 4 6)) (\<lambda>ident.
     bindE (unpack_be 2 (slice d 6 8)) (\<lambda>v2.
     bindE (unpack_be 1 (slice d 8 9)) (\<lambda>ttl.
     bindE (unpack_be 1 (slice d 9 10)) (\<lambda>prot.
     bindE (unpack_be 2 (slice d 10 12)) (\<lambda>ck.
     bindE (unpack_be 4 (slice d 12 16)) (\<lambda>sip.
     bindE (unpack_be 4 (slice d 16 20)) (\<lambda>dip.
       Inr ((copy_eth e f)\<lparr>ip_version := drop_bit 4 v0 AND 0xF, ip_ihl := v0 AND 0xF,
         ip_dscp := drop_bit 2 v1 AND 0x3F, ip_ecn := v1 AND 0x3, ip_length := Some len,
         ip_identification := ident, ip_flags := drop_bit 13 v2 AND 0x7, ip_fragment_offset := v2 AND 0x1FFF,
         ip_ttl := ttl, ip_protocol := prot, ip_header_checksum := Some ck, ip_source_ip := sip,
         ip_dest_ip := dip, ip_payload := plain (slice d 20 (nat len))\<rparr>))))))))))))"

definition ip_parse_axis :: "axis_frame \<Rightarrow> ip_frame \<Rightarrow> ip_frame result" where
  "ip_parse_axis a f = bindE (eth_parse_axis a eth_frame_init) (\<lambda>e. ip_parse_eth e f)"

definition ip_hdr_eq :: "'a ip_hdr_scheme \<Rightarrow> 'b ip_hdr_scheme \<Rightarrow> bool" where
  "ip_hdr_eq f g \<longleftrightarrow> eth_src_mac f = eth_src_mac g \<and> eth_dest_mac f = eth_dest_mac g \<and> eth_type f = eth_type g \<and>
     ip_version f = ip_version g \<and> ip_ihl f = ip_ihl g \<and> ip_dscp f = ip_dscp g \<and> ip_ecn f = ip_ecn g \<and>
     ip_length f = ip_length g \<and> ip_identification f = ip_identification g \<and> ip_flags f = ip_flags g \<and>
     ip_fragment_offset f = ip_fragment_offset g \<and> ip_ttl f = ip_ttl g \<and> ip_protocol f = ip_protocol g \<and>
     ip_header_checksum f = ip_header_checksum g \<and> ip_source_ip f = ip_source_ip g \<and> ip_dest_ip f = ip_dest_ip g"

definition ip_eq :: "ip_frame \<Rightarrow> ip_frame \<Rightarrow> bool" where
  "ip_eq f g \<longleftrightarrow> ip_hdr_eq f g \<and> axis_eq (ip_payload f) (ip_payload g)"

section \<open>UDP\<close>

definition update_udp_length :: "udp_frame \<Rightarrow> udp_frame" where
  "update_udp_length f = f\<lparr>udp_length := Some (int (length (af_data (udp_payload f))) + 8)\<rparr>"

definition udp_update_ip_length :: "udp_frame \<Rightarrow> udp_frame result" where
  "udp_update_ip_length f = (case udp_length f of
     None \<Rightarrow> Inl TypeError | Some l \<Rightarrow> Inr (f\<lparr>ip_length := Some (l + 20)\<rparr>))"

definition udp_update_length :: "udp_frame \<Rightarrow> udp_frame result" where
  "udp_update_length f = udp_update_ip_length (update_udp_length f)"

definition calc_udp_pseudo_header_checksum :: "udp_frame \<Rightarrow> int result" where
  "calc_udp_pseudo_header_checksum f =
     bindE (add_opt ((ip_source_ip f AND 0xffff) + (drop_bit 16 (ip_source_ip f) AND 0xffff)
       + (ip_dest_ip f AND 0xffff) + (drop_bit 16 (ip_dest_ip f) AND 0xffff) + ip_protocol f)
       (udp_length f)) (\<lambda>c. Inr (fold16 (fold16 c)))"

definition set_udp_pseudo_header_checksum :: "udp_frame \<Rightarrow> udp_frame result" where
  "set_udp_pseudo_header_checksum f =
     (let f1 = (if udp_length f = None then update_udp_length f else f)
      in bindE (calc_udp_pseudo_header_checksum f1) (\<lambda>c. Inr (f1\<lparr>udp_checksum := Some c\<rparr>)))"

text \<open>The payload as 16-bit words, the first byte of a pair in the high half.\<close>

fun sum_payload :: "bool \<Rightarrow> int list \<Rightarrow> int \<Rightarrow> int" where
  "sum_payload second [] c = c"
| "sum_payload second (d # ds) c = sum_payload (\<not> second) ds (c + (if second then d else push_bit 8 d))"

definition calc_udp_checksum :: "udp_frame \<Rightarrow> int result" where
  "calc_udp_checksum f =
     bindE (calc_udp_pseudo_header_checksum f) (\<lambda>c.
     bindE (add_opt (c + udp_source_port f + udp_dest_port f) (udp_length f)) (\<lambda>c.
       Inr (finish16 (sum_payload False (af_data (udp_payload f)) c))))"

definition update_udp_checksum :: "udp_frame \<Rightarrow> udp_frame result" where
  "update_udp_checksum f =
     (let f1 = (if udp_length f = None then update_udp_length f else f)
      in bindE (calc_udp_checksum f1) (\<lambda>c. Inr (f1\<lparr>udp_checksum := Some c\<rparr>)))"

definition verify_udp_checksum :: "udp_frame \<Rightarrow> bool result" where
  "verify_udp_checksum f = bindE (calc_udp_checksum f) (\<lambda>c. Inr (udp_checksum f = Some c))"

definition udp_update_checksum :: "udp_frame \<Rightarrow> udp_frame result" where
  "udp_update_checksum f = bindE (update_udp_checksum f) update_ip_checksum"

definition verify_checksums :: "udp_frame \<Rightarrow> bool result" where
  "verify_checksums f = bindE (verify_ip_checksum f) (\<lambda>b. if b then verify_udp_checksum f else Inr False)"

definition udp_build :: "udp_frame \<Rightarrow> udp_frame result" where
  "udp_build f =
     (let f1 = (if udp_length f = None then update_udp_length f else f)
      in bindE (if udp_checksum f1 = None then update_udp_checksum f1 else Inr f1) (\<lambda>f2.
         bindE (if ip_length f2 = None then udp_update_ip_length f2 else Inr f2) (\<lambda>f3.
           if ip_header_checksum f3 = None then update_ip_checksum f3 else Inr f3)))"

definition udp_header_bytes :: "udp_frame \<Rightarrow> bytes result" where
  "udp_header_bytes f =
     bindE (pack_be 2 (udp_source_port f)) (\<lambda>d0.
     bindE (pack_be 2 (udp_dest_port f)) (\<lambda>d1.
     bindE (pack_opt 2 (udp_length f)) (\<lambda>d2.
     bindE (pack_opt 2 (udp_checksum f)) (\<lambda>d3. Inr (d0 @ d1 @ d2 @ d3)))))"

definition udp_build_ip :: "udp_frame \<Rightarrow> (udp_frame \<times> ip_frame) result" where
  "udp_build_ip f =
     bindE (udp_build f) (\<lambda>f.
     bindE (udp_header_bytes f) (\<lambda>h.
     bindE (axis_payload (udp_payload f)) (\<lambda>p.
       Inr (f, (copy_ip f ip_frame_init)\<lparr>ip_payload := plain (h @ p)\<rparr>))))"

definition udp_build_eth :: "udp_frame \<Rightarrow> (udp_frame \<times> eth_frame) result" where
  "udp_build_eth f = bindE (udp_build_ip f) (\<lambda>(f, i). bindE (ip_build_eth i) (\<lambda>(_, e). Inr (f, e)))"

definition udp_build_axis :: "udp_frame \<Rightarrow> (udp_frame \<times> axis_frame) result" where
  "udp_build_axis f = bindE (udp_build_eth f) (\<lambda>(f, e). bindE (eth_build_axis e) (\<lambda>a. Inr (f, a)))"

definition udp_parse_ip :: "ip_frame \<Rightarrow> udp_frame \<Rightarrow> udp_frame result" where
  "udp_parse_ip i f =
     bindE (axis_payload (ip_payload i)) (\<lambda>d.
     bindE (unpack_be 2 (slice d 0 2)) (\<lambda>sp.
     bindE (unpack_be 2 (slice d 2 4)) (\<lambda>dp.
     bindE (unpack_be 2 (slice d 4 6)) (\<lambda>len.
     bindE (unpack_be 2 (slice d 6 8)) (\<lambda>ck.
       Inr ((copy_ip i f)\<lparr>udp_source_port := sp, udp_dest_port := dp, udp_length := Some len,
         udp_checksum := Some ck, udp_payload := plain (slice d 8 (nat len))\<rparr>))))))"

definition udp_parse_eth :: "eth_frame \<Rightarrow> udp_frame \<Rightarrow> udp_frame result" where
  "udp_parse_eth e f = bindE (ip_parse_eth e ip_frame_init) (\<lambda>i. udp_parse_ip i f)"

definition udp_parse_axis :: "axis_frame \<Rightarrow> udp_frame \<Rightarrow> udp_frame result" where
  "udp_parse_axis a f = bindE (eth_parse_axis a eth_frame_init) (\<lambda>e. udp_parse_eth e f)"

definition udp_eq :: "udp_frame \<Rightarrow> udp_frame \<Rightarrow> bool" where
  "udp_eq f g \<longleftrightarrow> ip_hdr_eq f g \<and> udp_source_port f = udp_source_port g \<and> udp_dest_port f = udp_dest_port g \<and>
     udp_length f = udp_length g \<and> udp_checksum f = udp_checksum g \<and> axis_eq (udp_payload f) (udp_payload g)"

section \<open>Ethernet frames survive\<close>

definition eth_ok :: "'a eth_hdr_scheme \<Rightarrow> bool" where
  "eth_ok f \<longleftrightarrow> fits 48 (eth_dest_mac f) \<and> fits 48 (eth_src_mac f) \<and> fits 16 (eth_type f)"

lemma eth_build_ok:
  "eth_ok f \<Longrightarrow> eth_payload f = plain d \<Longrightarrow> eth_build_axis f =
     Inr (axis_bytes (to_be 6 (eth_dest_mac f) @ to_be 6 (eth_src_mac f) @ to_be 2 (eth_type f) @ d))"
  by (simp add: eth_ok_def eth_build_axis_def)

lemma eth_parse_built:
  "eth_ok f \<Longrightarrow> eth_payload f = plain d \<Longrightarrow> eth_build_axis f = Inr a \<Longrightarrow> eth_parse_axis a g = Inr (f\<lparr>eth_fcs := eth_fcs g\<rparr>)"
  by (simp add: eth_build_ok) (auto simp: eth_ok_def eth_parse_axis_def slice_def)

section \<open>IP and UDP frames survive\<close>

definition ip_fields_ok :: "'a ip_hdr_scheme \<Rightarrow> bool" where
  "ip_fields_ok f \<longleftrightarrow> eth_ok f \<and> fits 4 (ip_version f) \<and> fits 4 (ip_ihl f) \<and> fits 6 (ip_dscp f) \<and> fits 2 (ip_ecn f) \<and>
     fits 16 (ip_identification f) \<and> fits 3 (ip_flags f) \<and> fits 13 (ip_fragment_offset f) \<and> fits 8 (ip_ttl f) \<and>
     fits 8 (ip_protocol f) \<and> fits 32 (ip_source_ip f) \<and> fits 32 (ip_dest_ip f)"

text \<open>\<open>None\<close>, or the value the frame would get.\<close>

definition unset_or :: "int option \<Rightarrow> int \<Rightarrow> bool" where
  "unset_or x v \<longleftrightarrow> x = None \<or> x = Some v"

definition unset_or_fits :: "nat \<Rightarrow> int option \<Rightarrow> bool" where
  "unset_or_fits n x \<longleftrightarrow> (case x of None \<Rightarrow> True | Some v \<Rightarrow> fits n v)"

lemma finish16_fits: "fits 16 (finish16 x)"
  by (simp add: finish16_def masks)

lemma fits_header_bytes:
  "fits 4 a \<Longrightarrow> fits 4 b \<Longrightarrow> fits 8 (push_bit 4 a OR b)" "fits 6 c \<Longrightarrow> fits 2 d \<Longrightarrow> fits 8 (push_bit 2 c OR d)"
  "fits 3 e \<Longrightarrow> fits 13 g \<Longrightarrow> fits 16 (push_bit 13 e OR g)"
  using fits_joined[of 4 b 4 a] fits_joined[of 2 d 6 c] fits_joined[of 13 g 3 e] by simp_all

lemma ip_header_bytes_ok:
  assumes "ip_fields_ok f" "ip_length f = Some l" "fits 16 l" "ip_header_checksum f = Some c" "fits 16 c"
  shows "ip_header_bytes f = Inr (to_be 1 (push_bit 4 (ip_version f) OR ip_ihl f) @
    to_be 1 (push_bit 2 (ip_dscp f) OR ip_ecn f) @ to_be 2 l @ to_be 2 (ip_identification f) @
    to_be 2 (push_bit 13 (ip_flags f) OR ip_fragment_offset f) @ to_be 1 (ip_ttl f) @ to_be 1 (ip_protocol f) @
    to_be 2 c @ to_be 4 (ip_source_ip f) @ to_be 4 (ip_dest_ip f))"
  using assms by (simp add: ip_header_bytes_def ip_fields_ok_def fits_header_bytes)

lemma ip_parse_header:
  assumes "ip_fields_ok f" "ip_length f = Some l" "fits 16 l" "ip_header_checksum f = Some c" "fits 16 c"
    and "ip_header_bytes f = Inr h" "int (length d) + 20 \<le> l"
    and "eth_payload e = plain (h @ d)"
    and e: "eth_src_mac e = eth_src_mac f" "eth_dest_mac e = eth_dest_mac f" "eth_type e = eth_type f"
  shows "ip_parse_eth e g = Inr ((copy_ip f g)\<lparr>ip_payload := plain d\<rparr>)"
proof -
  have h: "h = to_be 1 (push_bit 4 (ip_version f) OR ip_ihl f) @
    to_be 1 (push_bit 2 (ip_dscp f) OR ip_ecn f) @ to_be 2 l @ to_be 2 (ip_identification f) @
    to_be 2 (push_bit 13 (ip_flags f) OR ip_fragment_offset f) @ to_be 1 (ip_ttl f) @ to_be 1 (ip_protocol f) @
    to_be 2 c @ to_be 4 (ip_source_ip f) @ to_be 4 (ip_dest_ip f)"
    using assms(6) ip_header_bytes_ok[OF assms(1-5)] by simp
  have d: "slice (h @ d) 20 (nat l) = d" using assms(7) by (simp add: slice_def h)
  have f: "drop_bit 4 (push_bit 4 (ip_version f) OR ip_ihl f) AND 0xF = ip_version f"
    "(push_bit 4 (ip_version f) OR ip_ihl f) AND 0xF = ip_ihl f"
    "drop_bit 2 (push_bit 2 (ip_dscp f) OR ip_ecn f) AND 0x3F = ip_dscp f"
    "(push_bit 2 (ip_dscp f) OR ip_ecn f) AND 0x3 = ip_ecn f"
    "drop_bit 13 (push_bit 13 (ip_flags f) OR ip_fragment_offset f) AND 0x7 = ip_flags f"
    "(push_bit 13 (ip_flags f) OR ip_fragment_offset f) AND 0x1FFF = ip_fragment_offset f"
    using assms(1) joined_fields[of 4 "ip_ihl f"] joined_fields[of 2 "ip_ecn f"] joined_fields[of 13 "ip_fragment_offset f"]
    unfolding masks by (simp_all add: ip_fields_ok_def)
  have o: "fits 8 (push_bit 4 (ip_version f) OR ip_ihl f)" "fits 8 (push_bit 2 (ip_dscp f) OR ip_ecn f)"
    "fits 16 (push_bit 13 (ip_flags f) OR ip_fragment_offset f)" "fits 16 (ip_identification f)" "fits 8 (ip_ttl f)"
    "fits 8 (ip_protocol f)" "fits 32 (ip_source_ip f)" "fits 32 (ip_dest_ip f)"
    using assms(1) by (simp_all add: ip_fields_ok_def fits_header_bytes)
  have s: "slice (h @ d) 0 1 = to_be 1 (push_bit 4 (ip_version f) OR ip_ihl f)"
    "slice (h @ d) 1 2 = to_be 1 (push_bit 2 (ip_dscp f) OR ip_ecn f)" "slice (h @ d) 2 4 = to_be 2 l"
    "slice (h @ d) 4 6 = to_be 2 (ip_identification f)"
    "slice (h @ d) 6 8 = to_be 2 (push_bit 13 (ip_flags f) OR ip_fragment_offset f)"
    "slice (h @ d) 8 9 = to_be 1 (ip_ttl f)" "slice (h @ d) 9 10 = to_be 1 (ip_protocol f)" "slice (h @ d) 10 12 = to_be 2 c"
    "slice (h @ d) 12 16 = to_be 4 (ip_source_ip f)" "slice (h @ d) 16 20 = to_be 4 (ip_dest_ip f)"
    by (simp_all add: slice_def h)
  show ?thesis
    by (simp only: ip_parse_eth_def assms(2,3,4,5,8) plain_simps bindE.simps s d be_formats o f copy_eth_def copy_ip_def e)
qed

text \<open>Filling in the length and the checksum.\<close>

lemma calc_ip_checksum_ok: "ip_length f = Some l \<Longrightarrow> \<exists>c. calc_ip_checksum f = Inr c \<and> fits 16 c"
  by (simp add: calc_ip_checksum_def add_opt_def finish16_fits)

lemma update_ip_checksum_ok:
  "ip_length f = Some l \<Longrightarrow> \<exists>c. update_ip_checksum f = Inr (f\<lparr>ip_header_checksum := Some c\<rparr>) \<and> fits 16 c"
  using calc_ip_checksum_ok[of f l] by (auto simp: update_ip_checksum_def)

lemma set_again:
  "ip_header_checksum (f :: 'a ip_hdr_scheme) = v \<Longrightarrow> f\<lparr>ip_header_checksum := v\<rparr> = f"
  "ip_length (f :: 'a ip_hdr_scheme) = w \<Longrightarrow> f\<lparr>ip_length := w\<rparr> = f"
  "udp_checksum (g :: 'b udp_frame_scheme) = v \<Longrightarrow> g\<lparr>udp_checksum := v\<rparr> = g"
  "udp_length (g :: 'b udp_frame_scheme) = w \<Longrightarrow> g\<lparr>udp_length := w\<rparr> = g"
  by auto

definition ip_frame_ok :: "ip_frame \<Rightarrow> bytes \<Rightarrow> bool" where
  "ip_frame_ok f d \<longleftrightarrow> ip_fields_ok f \<and> ip_payload f = plain d \<and> length d + 20 < 65536 \<and>
     unset_or (ip_length f) (int (length d) + 20) \<and> unset_or_fits 16 (ip_header_checksum f)"

lemma ip_build_ok:
  assumes "ip_frame_ok f d"
  shows "\<exists>c. ip_build f = Inr (f\<lparr>ip_length := Some (int (length d) + 20), ip_header_checksum := Some c\<rparr>) \<and> fits 16 c"
proof -
  let ?f = "f\<lparr>ip_length := Some (int (length d) + 20)\<rparr>"
  have f1: "(if ip_length f = None then ip_update_length f else f) = ?f"
    using assms by (auto simp: ip_frame_ok_def unset_or_def ip_update_length_def set_again)
  show ?thesis
  proof (cases "ip_header_checksum f")
    case None
    then show ?thesis using update_ip_checksum_ok[of ?f] by (simp add: ip_build_def f1)
  next
    case (Some c)
    then have "ip_build f = Inr ?f" by (simp add: ip_build_def f1)
    moreover have "?f\<lparr>ip_header_checksum := Some c\<rparr> = ?f" by (rule set_again(1)) (simp add: Some)
    ultimately have "ip_build f = Inr (?f\<lparr>ip_header_checksum := Some c\<rparr>)" by metis
    then show ?thesis using assms Some unfolding ip_frame_ok_def unset_or_fits_def by auto
  qed
qed

lemma ip_codec:
  assumes "ip_frame_ok f d" "ip_build f = Inr f'"
  shows "\<exists>e a. ip_build_eth f = Inr (f', e) \<and> ip_parse_eth e g = Inr f' \<and>
    ip_build_axis f = Inr (f', a) \<and> ip_parse_axis a g = Inr f'"
proof -
  obtain c where f': "f' = f\<lparr>ip_length := Some (int (length d) + 20), ip_header_checksum := Some c\<rparr>" and c: "fits 16 c"
    using ip_build_ok[OF assms(1)] assms(2) by auto
  have l: "fits 16 (int (length d) + 20)" using assms(1) by (simp add: ip_frame_ok_def fits_def)
  have ok: "ip_fields_ok f'" "eth_ok f'" "ip_payload f' = plain d"
    using assms(1) by (simp_all add: ip_frame_ok_def ip_fields_ok_def eth_ok_def f')
  obtain h where h: "ip_header_bytes f' = Inr h"
    using ip_header_bytes_ok[OF ok(1) _ l _ c] by (simp add: f')
  let ?e = "eth_new (h @ d) (eth_dest_mac f') (eth_src_mac f') (eth_type f')"
  have e: "ip_build_eth f = Inr (f', ?e)" using ok(3) by (simp add: ip_build_eth_def assms(2) h)
  have eok: "eth_ok ?e" using ok(2) by (simp add: eth_ok_def eth_new_def)
  have copy: "(copy_ip f' g)\<lparr>ip_payload := plain d\<rparr> = f'"
    using ok(3) by (cases f', cases g) (simp add: copy_ip_def)
  have p: "ip_parse_eth ?e g = Inr f'"
    using ip_parse_header[OF ok(1) _ l _ c h, of d ?e g] copy by (simp add: f' eth_new_def)
  obtain a where a: "eth_build_axis ?e = Inr a" using eth_build_ok[OF eok] by (simp add: eth_new_def)
  have "eth_parse_axis a eth_frame_init = Inr ?e"
    using eth_parse_built[OF eok _ a, of "h @ d" eth_frame_init] by (simp add: eth_new_def eth_frame_init_def)
  then show ?thesis using e p a by (auto simp: ip_build_axis_def ip_parse_axis_def)
qed

definition udp_frame_ok :: "udp_frame \<Rightarrow> bytes \<Rightarrow> bool" where
  "udp_frame_ok f d \<longleftrightarrow> ip_fields_ok f \<and> udp_payload f = plain d \<and> length d + 28 < 65536 \<and>
     fits 16 (udp_source_port f) \<and> fits 16 (udp_dest_port f) \<and>
     unset_or (udp_length f) (int (length d) + 8) \<and> unset_or (ip_length f) (int (length d) + 28) \<and>
     unset_or_fits 16 (udp_checksum f) \<and> unset_or_fits 16 (ip_header_checksum f)"

lemma calc_udp_checksum_ok: "udp_length f = Some l \<Longrightarrow> \<exists>c. calc_udp_checksum f = Inr c \<and> fits 16 c"
  by (simp add: calc_udp_checksum_def calc_udp_pseudo_header_checksum_def add_opt_def finish16_fits)

lemma update_udp_checksum_ok:
  "udp_length f = Some l \<Longrightarrow> \<exists>c. update_udp_checksum f = Inr (f\<lparr>udp_checksum := Some c\<rparr>) \<and> fits 16 c"
  using calc_udp_checksum_ok[of f l] by (auto simp: update_udp_checksum_def)

lemma udp_build_ok:
  assumes "udp_frame_ok f d"
  shows "\<exists>cu ci. udp_build f = Inr (f\<lparr>udp_length := Some (int (length d) + 8), udp_checksum := Some cu,
      ip_length := Some (int (length d) + 28), ip_header_checksum := Some ci\<rparr>) \<and> fits 16 cu \<and> fits 16 ci"
proof -
  let ?f1 = "f\<lparr>udp_length := Some (int (length d) + 8)\<rparr>"
  have f1: "(if udp_length f = None then update_udp_length f else f) = ?f1"
    using assms by (auto simp: udp_frame_ok_def unset_or_def update_udp_length_def set_again)
  obtain cu where f2: "(if udp_checksum ?f1 = None then update_udp_checksum ?f1 else Inr ?f1) =
      Inr (?f1\<lparr>udp_checksum := Some cu\<rparr>)" and cu: "fits 16 cu"
  proof (cases "udp_checksum f")
    case None
    then show ?thesis using that update_udp_checksum_ok[of ?f1] by auto
  next
    case (Some c)
    then show ?thesis using that[of c] assms set_again(3)[of ?f1 "Some c"] by (simp add: udp_frame_ok_def unset_or_fits_def)
  qed
  let ?f2 = "?f1\<lparr>udp_checksum := Some cu\<rparr>"
  let ?f3 = "?f2\<lparr>ip_length := Some (int (length d) + 28)\<rparr>"
  have f3: "(if ip_length ?f2 = None then udp_update_ip_length ?f2 else Inr ?f2) = Inr ?f3"
    using assms set_again(2)[of ?f2 "ip_length f"]
    by (cases "ip_length f") (auto simp: udp_frame_ok_def unset_or_def udp_update_ip_length_def algebra_simps)
  obtain ci where f4: "(if ip_header_checksum ?f3 = None then update_ip_checksum ?f3 else Inr ?f3) =
      Inr (?f3\<lparr>ip_header_checksum := Some ci\<rparr>)" and ci: "fits 16 ci"
  proof (cases "ip_header_checksum f")
    case None
    then show ?thesis using that update_ip_checksum_ok[of ?f3] by auto
  next
    case (Some c)
    then show ?thesis using that[of c] assms set_again(1)[of ?f3 "Some c"] by (simp add: udp_frame_ok_def unset_or_fits_def)
  qed
  show ?thesis using cu ci unfolding udp_build_def Let_def f1 f2 bindE.simps f3 f4 by blast
qed

lemma udp_header_bytes_ok:
  "fits 16 (udp_source_port f) \<Longrightarrow> fits 16 (udp_dest_port f) \<Longrightarrow> udp_length f = Some l \<Longrightarrow> fits 16 l \<Longrightarrow>
   udp_checksum f = Some c \<Longrightarrow> fits 16 c \<Longrightarrow> udp_header_bytes f =
   Inr (to_be 2 (udp_source_port f) @ to_be 2 (udp_dest_port f) @ to_be 2 l @ to_be 2 c)"
  by (simp add: udp_header_bytes_def)

lemma udp_parse_header:
  assumes "fits 16 (udp_source_port f)" "fits 16 (udp_dest_port f)" "udp_length f = Some (int (length d) + 8)"
    "fits 16 (int (length d) + 8)" "udp_checksum f = Some c" "fits 16 c" "udp_header_bytes f = Inr h"
    and "ip_payload i = plain (h @ d)"
  shows "udp_parse_ip i g = Inr ((copy_ip i g)\<lparr>udp_source_port := udp_source_port f, udp_dest_port := udp_dest_port f,
    udp_length := udp_length f, udp_checksum := udp_checksum f, udp_payload := plain d\<rparr>)"
proof -
  have h: "h = to_be 2 (udp_source_port f) @ to_be 2 (udp_dest_port f) @ to_be 2 (int (length d) + 8) @ to_be 2 c"
    using assms(7) udp_header_bytes_ok[OF assms(1-6)] by simp
  have s: "slice (h @ d) 0 2 = to_be 2 (udp_source_port f)" "slice (h @ d) 2 4 = to_be 2 (udp_dest_port f)"
    "slice (h @ d) 4 6 = to_be 2 (int (length d) + 8)" "slice (h @ d) 6 8 = to_be 2 c"
    "slice (h @ d) 8 (nat (int (length d) + 8)) = d"
    by (simp_all add: slice_def h nat_add_distrib)
  show ?thesis
    by (simp only: udp_parse_ip_def assms plain_simps bindE.simps s be_formats)
qed

lemma udp_codec:
  assumes "udp_frame_ok f d" "udp_build f = Inr f'"
  shows "\<exists>a. udp_build_axis f = Inr (f', a) \<and> udp_parse_axis a g = Inr f'"
proof -
  obtain cu ci where f': "f' = f\<lparr>udp_length := Some (int (length d) + 8), udp_checksum := Some cu,
      ip_length := Some (int (length d) + 28), ip_header_checksum := Some ci\<rparr>" and c: "fits 16 cu" "fits 16 ci"
    using udp_build_ok[OF assms(1)] assms(2) by auto
  have l: "fits 16 (int (length d) + 8)" using assms(1) by (simp add: udp_frame_ok_def fits_def)
  have ok: "fits 16 (udp_source_port f')" "fits 16 (udp_dest_port f')" "udp_payload f' = plain d" "ip_fields_ok f'"
    using assms(1) by (simp_all add: udp_frame_ok_def ip_fields_ok_def eth_ok_def f')
  obtain h where h: "udp_header_bytes f' = Inr h" "length h = 8"
    using udp_header_bytes_ok[OF ok(1,2) _ l _ c(1)] by (auto simp: f')
  let ?i = "(copy_ip f' ip_frame_init)\<lparr>ip_payload := plain (h @ d)\<rparr>"
  have i: "udp_build_ip f = Inr (f', ?i)" using ok(3) by (simp add: udp_build_ip_def assms(2) h)
  have iok: "ip_frame_ok ?i (h @ d)"
    using ok(4) assms(1) c h(2)
    by (simp add: ip_frame_ok_def ip_fields_ok_def eth_ok_def copy_ip_def unset_or_def unset_or_fits_def f' udp_frame_ok_def)
  have ib: "ip_build ?i = Inr ?i" by (simp add: ip_build_def copy_ip_def f')
  obtain e a where e: "ip_build_eth ?i = Inr (?i, e)" "ip_parse_eth e ip_frame_init = Inr ?i" "ip_build_axis ?i = Inr (?i, a)"
    "ip_parse_axis a ip_frame_init = Inr ?i"
    using ip_codec[OF iok ib, of ip_frame_init] by auto
  have "(copy_ip ?i g)\<lparr>udp_source_port := udp_source_port f', udp_dest_port := udp_dest_port f',
      udp_length := udp_length f', udp_checksum := udp_checksum f', udp_payload := plain d\<rparr> = f'"
    using ok(3) by (cases f', cases g) (simp add: copy_ip_def ip_frame_init_def)
  then have p: "udp_parse_ip ?i g = Inr f'"
    using udp_parse_header[OF ok(1,2) _ l _ c(1) h(1), of ?i g] by (simp add: f')
  have "udp_parse_axis a g = Inr f'" "udp_build_axis f = Inr (f', a)"
    using e i p by (auto simp: udp_parse_axis_def udp_parse_eth_def ip_parse_axis_def udp_build_axis_def
        udp_build_eth_def ip_build_axis_def bindE_assoc bindE_Inr_iff)
  then show ?thesis by blast
qed

text \<open>The frames after \<open>build\<close>, as codecs onto stream frames: different frames have different
  transmissions.\<close>

interpretation ipc: codec "\<lambda>f. bindE (ip_build_axis f) (\<lambda>(_, a). Inr a)" "\<lambda>a. ip_parse_axis a ip_frame_init"
  "\<lambda>f. \<exists>d. ip_frame_ok f d \<and> ip_build f = Inr f"
proof
  fix f :: ip_frame assume "\<exists>d. ip_frame_ok f d \<and> ip_build f = Inr f"
  then obtain d e a where "ip_build_axis f = Inr (f, a)" "ip_parse_axis a ip_frame_init = Inr f"
    using ip_codec[of f _ f ip_frame_init] by blast
  then show "\<exists>y. bindE (ip_build_axis f) (\<lambda>(_, a). Inr a) = Inr y"
    "bindE (ip_build_axis f) (\<lambda>(_, a). Inr a) = Inr y \<Longrightarrow> ip_parse_axis y ip_frame_init = Inr f" for y
    by auto
qed

interpretation udpc: codec "\<lambda>f. bindE (udp_build_axis f) (\<lambda>(_, a). Inr a)" "\<lambda>a. udp_parse_axis a udp_frame_init"
  "\<lambda>f. \<exists>d. udp_frame_ok f d \<and> udp_build f = Inr f"
proof
  fix f :: udp_frame assume "\<exists>d. udp_frame_ok f d \<and> udp_build f = Inr f"
  then obtain d a where "udp_build_axis f = Inr (f, a)" "udp_parse_axis a udp_frame_init = Inr f"
    using udp_codec[of f _ f udp_frame_init] by blast
  then show "\<exists>y. bindE (udp_build_axis f) (\<lambda>(_, a). Inr a) = Inr y"
    "bindE (udp_build_axis f) (\<lambda>(_, a). Inr a) = Inr y \<Longrightarrow> udp_parse_axis y udp_frame_init = Inr f" for y
    by auto
qed

section \<open>Checksums\<close>

text \<open>RFC 1071: the 16-bit words of a byte string, the last byte padded with a zero. A block is
  valid when its words sum to a multiple of \<open>2 ^ 16 - 1\<close>.\<close>

fun words16 :: "bytes \<Rightarrow> int" where
  "words16 (a # b # r) = 256 * uint a + uint b + words16 r"
| "words16 [a] = 256 * uint a"
| "words16 [] = 0"

definition checksum_valid :: "int \<Rightarrow> bool" where
  "checksum_valid x \<longleftrightarrow> x mod 65535 = 0"

lemma halves: "0 \<le> take_bit 16 x" "take_bit 16 x < 65536" "x = take_bit 16 x + 65536 * drop_bit 16 (x :: int)"
  using take_bit_fits[of 16 x] bits_ident[of 16 x] by (simp_all add: fits_def push_bit_eq_mult)

lemma fold16_eq: "fold16 x = take_bit 16 x + drop_bit 16 x"
  by (simp add: fold16_def masks)

lemma fold16_mod: "fold16 x mod 65535 = x mod 65535"
proof -
  have "x = fold16 x + 65535 * drop_bit 16 x" using halves(3)[of x] unfolding fold16_eq by linarith
  then show ?thesis by (metis mod_mult_self2)
qed

lemma fold16_fits: "fits 32 x \<Longrightarrow> fits 16 (fold16 (fold16 x))"
proof -
  assume h: "fits 32 x"
  have x: "0 \<le> x" "x < 65536 * 65536" using h by (simp_all add: fits_def)
  have a: "0 \<le> fold16 x" "fold16 x \<le> 131070"
    using x halves[of x] unfolding fold16_eq by linarith+
  have "fold16 (fold16 x) \<le> 65535 \<and> 0 \<le> fold16 (fold16 x)"
  proof (cases "drop_bit 16 (fold16 x) = 0")
    case False
    then show ?thesis using a halves[of "fold16 x"] unfolding fold16_eq[of "fold16 x"] by linarith
  next
    case True
    then have "fold16 (fold16 x) = take_bit 16 (fold16 x)" by (simp add: fold16_eq[of "fold16 x"])
    then show ?thesis using halves(1,2)[of "fold16 x"] by linarith
  qed
  then show ?thesis by (simp add: fits_def)
qed

lemma finish16_eq: "fits 32 x \<Longrightarrow> finish16 x = 65535 - fold16 (fold16 x)"
proof -
  assume h: "fits 32 x"
  let ?y = "fold16 (fold16 x)"
  have y: "0 \<le> ?y" "?y < 65536" using fold16_fits[OF h] by (simp_all add: fits_def)
  have "finish16 x = (- ?y - 1) mod 65536" by (simp add: finish16_def masks take_bit_eq_mod not_int_def algebra_simps)
  also have "- ?y - 1 = (65535 - ?y) + 65536 * (- 1)" by simp
  also have "((65535 - ?y) + 65536 * (- 1)) mod 65536 = (65535 - ?y) mod 65536" by (rule mod_mult_self2)
  also have "\<dots> = 65535 - ?y" using y by simp
  finally show ?thesis .
qed

lemma finish16_valid: "fits 32 x \<Longrightarrow> checksum_valid (x + finish16 x)"
proof -
  assume h: "fits 32 x"
  let ?y = "fold16 (fold16 x)"
  have m: "x mod 65535 = ?y mod 65535" using fold16_mod[of x] fold16_mod[of "fold16 x"] by simp
  have "x + finish16 x = (x - ?y) + 65535 * 1" by (simp add: finish16_eq[OF h])
  then have "(x + finish16 x) mod 65535 = (x - ?y) mod 65535" by (metis mod_mult_self2)
  also have "\<dots> = 0" using m by (simp add: mod_eq_dvd_iff)
  finally show ?thesis by (simp add: checksum_valid_def)
qed

text \<open>The fields of a header as words.\<close>

lemma joined_add: "fits n y \<Longrightarrow> push_bit n x OR y = 2 ^ n * x + y"
  using bits_ident[of n "push_bit n x OR y"] joined_fields[of n y x] by (simp add: push_bit_eq_mult mult.commute)

lemma from_be_snoc: "from_be (bs @ [b]) = 256 * from_be bs + uint b"
  using joined_add[OF uint_byte_fits, of "from_le (rev bs)" b] by (simp add: from_be_def or.commute)

lemma words16_2: "fits 16 x \<Longrightarrow> words16 (to_be 2 x @ r) = x + words16 r"
proof -
  assume h: "fits 16 x"
  obtain a b where ab: "to_be 2 x = [a, b]" using that by (simp add: to_be_def numeral_2_eq_2)
  have "x = from_be (to_be 2 x)" using h by (simp add: from_be_def to_be_def from_le_to_le)
  also have "\<dots> = 256 * uint a + uint b"
    using from_be_snoc[of "[a]" b] from_be_snoc[of "[]" a] by (simp add: ab) (simp add: from_be_def)
  finally have "x = 256 * uint a + uint b" .
  then show ?thesis unfolding ab by simp
qed

lemma to_be_add: "to_be (m + n) x = to_be n (drop_bit (8 * m) x) @ to_be m x"
  by (simp add: to_be_def to_le_add)

lemma words16_1_1: "fits 8 x \<Longrightarrow> fits 8 y \<Longrightarrow> words16 (to_be 1 x @ to_be 1 y @ r) = 256 * x + y + words16 r"
  by (auto simp: to_be_def unsigned_of_int fits_def take_bit_int_eq_self)

lemma fits_high_half: "fits 32 x \<Longrightarrow> fits 16 (drop_bit 16 x)"
proof -
  assume "fits 32 x"
  then have "0 \<le> x" "x < 65536 * 65536" by (simp_all add: fits_def)
  then have "0 \<le> drop_bit 16 x" "drop_bit 16 x < 65536" using halves[of x] by linarith+
  then show ?thesis by (simp add: fits_def)
qed

lemma words16_4: "fits 32 x \<Longrightarrow> words16 (to_be 4 x @ r) = drop_bit 16 x + take_bit 16 x + words16 r"
proof -
  assume h: "fits 32 x"
  have "to_be 4 x = to_be 2 (drop_bit 16 x) @ to_be 2 x" using to_be_add[of 2 2 x] by simp
  also have "to_be 2 x = to_be 2 (take_bit 16 x)"
    by (simp add: to_be_def numeral_2_eq_2) (auto intro!: bit_word_eqI simp: bit_simps)
  finally have e: "to_be 4 x = to_be 2 (drop_bit 16 x) @ to_be 2 (take_bit 16 x)" .
  have "fits 16 (drop_bit 16 x)" by (rule fits_high_half[OF h])
  then show ?thesis by (simp add: e words16_2)
qed

lemma ip_checksum_words:
  assumes "ip_fields_ok f" "ip_length f = Some l" "fits 16 l" "ip_header_checksum f = Some c" "fits 16 c"
    and "ip_header_bytes f = Inr h"
  shows "\<exists>s. fits 32 s \<and> calc_ip_checksum f = Inr (finish16 s) \<and> words16 h = s + c"
proof -
  let ?w0 = "push_bit 12 (ip_version f) OR push_bit 8 (ip_ihl f) OR push_bit 2 (ip_dscp f) OR ip_ecn f"
  let ?s = "?w0 + l + ip_identification f + (push_bit 13 (ip_flags f) OR ip_fragment_offset f)
       + (push_bit 8 (ip_ttl f) OR ip_protocol f)
       + (ip_source_ip f AND 0xffff) + (drop_bit 16 (ip_source_ip f) AND 0xffff)
       + (ip_dest_ip f AND 0xffff) + (drop_bit 16 (ip_dest_ip f) AND 0xffff)"
  have o: "fits 8 (push_bit 4 (ip_version f) OR ip_ihl f)" "fits 8 (push_bit 2 (ip_dscp f) OR ip_ecn f)"
    "fits 16 (push_bit 13 (ip_flags f) OR ip_fragment_offset f)" "fits 16 (ip_identification f)" "fits 8 (ip_ttl f)"
    "fits 8 (ip_protocol f)" "fits 32 (ip_source_ip f)" "fits 32 (ip_dest_ip f)"
    using assms(1) by (simp_all add: ip_fields_ok_def fits_header_bytes)
  have w0: "?w0 = 256 * (push_bit 4 (ip_version f) OR ip_ihl f) + (push_bit 2 (ip_dscp f) OR ip_ecn f)"
    using joined_add[OF o(2), of "push_bit 4 (ip_version f) OR ip_ihl f"] by (simp add: or.assoc)
  have w4: "push_bit 8 (ip_ttl f) OR ip_protocol f = 256 * ip_ttl f + ip_protocol f"
    using joined_add[OF o(6), of "ip_ttl f"] by simp
  have m: "x AND 0xffff = take_bit 16 x" for x :: int by (simp add: masks)
  have sp: "drop_bit 16 (ip_source_ip f) AND 0xffff = drop_bit 16 (ip_source_ip f)"
    "drop_bit 16 (ip_dest_ip f) AND 0xffff = drop_bit 16 (ip_dest_ip f)"
    using fits_high_half o(7,8) by (simp_all add: m)
  have h: "words16 h = ?s + c"
  proof -
    have h: "h = to_be 1 (push_bit 4 (ip_version f) OR ip_ihl f) @
      to_be 1 (push_bit 2 (ip_dscp f) OR ip_ecn f) @ to_be 2 l @ to_be 2 (ip_identification f) @
      to_be 2 (push_bit 13 (ip_flags f) OR ip_fragment_offset f) @ to_be 1 (ip_ttl f) @ to_be 1 (ip_protocol f) @
      to_be 2 c @ to_be 4 (ip_source_ip f) @ to_be 4 (ip_dest_ip f) @ []"
      using assms(6) ip_header_bytes_ok[OF assms(1-5)] by simp
    show ?thesis
      unfolding h w0 w4 sp
      by (simp only: words16_1_1[OF o(1,2)] words16_2[OF assms(3)] words16_2[OF o(4)] words16_2[OF o(3)]
          words16_1_1[OF o(5,6)] words16_2[OF assms(5)] words16_4[OF o(7)] words16_4[OF o(8)] words16.simps m)
  qed
  have b: "0 \<le> x \<and> x < 65536" if "fits 16 x" for x using that by (simp add: fits_def)
  have "0 \<le> 256 * (push_bit 4 (ip_version f) OR ip_ihl f) + (push_bit 2 (ip_dscp f) OR ip_ecn f)"
    "256 * (push_bit 4 (ip_version f) OR ip_ihl f) + (push_bit 2 (ip_dscp f) OR ip_ecn f) < 65536"
    "0 \<le> 256 * ip_ttl f + ip_protocol f" "256 * ip_ttl f + ip_protocol f < 65536"
    using o(1,2,5,6) by (simp_all add: fits_def)
  then have "0 \<le> ?s" "?s < 4294967296"
    using b[OF assms(3)] b[OF o(4)] b[OF o(3)] halves(1,2)[of "ip_source_ip f"] halves(1,2)[of "ip_dest_ip f"]
      b[OF fits_high_half[OF o(7)]] b[OF fits_high_half[OF o(8)]] unfolding w0 w4 sp unfolding m by linarith+
  then have "fits 32 ?s" by (simp add: fits_def)
  moreover have "calc_ip_checksum f = Inr (finish16 ?s)" by (simp add: calc_ip_checksum_def add_opt_def assms(2))
  ultimately show ?thesis using h by blast
qed

lemma sum_payload_words: "sum_payload False (map uint d) c = c + words16 d"
  by (induction d arbitrary: c rule: words16.induct) (simp_all add: push_bit_eq_mult)

lemma words16_append_even: "even (length a) \<Longrightarrow> words16 (a @ b) = words16 a + words16 b"
  by (induction a rule: words16.induct) simp_all

lemma words16_bound: "0 \<le> words16 d \<and> words16 d \<le> 65535 * int (length d)"
proof (induction d rule: words16.induct)
  case (1 a b r)
  then show ?case using uint_byte_fits[of a] uint_byte_fits[of b] by (simp add: fits_def)
next
  case (2 a)
  then show ?case using uint_byte_fits[of a] by (simp add: fits_def)
qed simp

text \<open>The words of the pseudo header: the halves of the addresses, protocol and length.\<close>

definition pseudo_header :: "udp_frame \<Rightarrow> bytes" where
  "pseudo_header f = to_be 4 (ip_source_ip f) @ to_be 4 (ip_dest_ip f) @ [0] @ to_be 1 (ip_protocol f) @
     (case udp_length f of None \<Rightarrow> [] | Some l \<Rightarrow> to_be 2 l)"

lemma udp_checksum_words:
  assumes "ip_fields_ok f" "udp_payload f = plain d" "length d + 28 < 65536" "fits 16 (udp_source_port f)"
    "fits 16 (udp_dest_port f)" "udp_length f = Some l" "fits 16 l" "udp_checksum f = Some c" "fits 16 c"
    and "udp_header_bytes f = Inr h"
  shows "\<exists>s. fits 32 s \<and> calc_udp_checksum f = Inr (finish16 s) \<and>
    words16 (pseudo_header f @ h @ d) mod 65535 = (s + c) mod 65535"
proof -
  have o: "fits 32 (ip_source_ip f)" "fits 32 (ip_dest_ip f)" "fits 8 (ip_protocol f)"
    using assms(1) by (simp_all add: ip_fields_ok_def)
  have m: "x AND 0xffff = take_bit 16 x" for x :: int by (simp add: masks)
  have sp: "drop_bit 16 (ip_source_ip f) AND 0xffff = drop_bit 16 (ip_source_ip f)"
    "drop_bit 16 (ip_dest_ip f) AND 0xffff = drop_bit 16 (ip_dest_ip f)"
    using fits_high_half o(1,2) by (simp_all add: m)
  define p where "p = (ip_source_ip f AND 0xffff) + (drop_bit 16 (ip_source_ip f) AND 0xffff)
       + (ip_dest_ip f AND 0xffff) + (drop_bit 16 (ip_dest_ip f) AND 0xffff) + ip_protocol f + l"
  let ?p = "fold16 (fold16 p)"
  let ?s = "?p + udp_source_port f + udp_dest_port f + l + words16 d"
  have ph: "words16 (pseudo_header f) = p"
  proof -
    have z: "[0] = to_be 1 0" by (simp add: to_be_def)
    have "fits 8 0" by (simp add: fits_def)
    then have "words16 (to_be 4 (ip_source_ip f) @ to_be 4 (ip_dest_ip f) @ to_be 1 0 @ to_be 1 (ip_protocol f) @ to_be 2 l @ []) = p"
      unfolding p_def sp
      by (simp only: words16_4[OF o(1)] words16_4[OF o(2)] words16_1_1[OF _ o(3)] words16_2[OF assms(7)] words16.simps m)
    then show ?thesis unfolding pseudo_header_def assms(6) z by simp
  qed
  have hw: "words16 h = udp_source_port f + udp_dest_port f + l + c" "even (length h)"
  proof -
    have h: "h = to_be 2 (udp_source_port f) @ to_be 2 (udp_dest_port f) @ to_be 2 l @ to_be 2 c @ []"
      using assms(10) udp_header_bytes_ok[OF assms(4,5,6,7,8,9)] by simp
    show "words16 h = udp_source_port f + udp_dest_port f + l + c"
      unfolding h by (simp only: words16_2[OF assms(4)] words16_2[OF assms(5)] words16_2[OF assms(7)] words16_2[OF assms(9)] words16.simps)
    show "even (length h)" by (simp add: h)
  qed
  have "even (length (pseudo_header f))" by (simp add: pseudo_header_def assms(6))
  then have w: "words16 (pseudo_header f @ h @ d) = p + (udp_source_port f + udp_dest_port f + l + c) + words16 d"
    using hw ph by (simp add: words16_append_even)
  have b: "0 \<le> x \<and> x < 65536" if "fits 16 x" for x using that by (simp add: fits_def)
  have p8: "0 \<le> ip_protocol f" "ip_protocol f < 256" using o(3) by (simp_all add: fits_def)
  have "0 \<le> p" "p < 4294967296"
    using b[OF assms(7)] p8 halves(1,2)[of "ip_source_ip f"] halves(1,2)[of "ip_dest_ip f"]
      b[OF fits_high_half[OF o(1)]] b[OF fits_high_half[OF o(2)]] unfolding p_def sp unfolding m by linarith+
  then have "fits 32 p" by (simp add: fits_def)
  then have pf: "fits 16 ?p" by (rule fold16_fits)
  have "words16 d \<le> 65535 * 65507"
  proof -
    have "int (length d) \<le> 65507" using assms(3) by simp
    then have "65535 * int (length d) \<le> 65535 * 65507" by (intro mult_left_mono) simp_all
    then show ?thesis using words16_bound[of d] by linarith
  qed
  then have "0 \<le> ?s" "?s < 4294967296"
    using b[OF pf] b[OF assms(4)] b[OF assms(5)] b[OF assms(7)] words16_bound[of d] by linarith+
  then have "fits 32 ?s" by (simp add: fits_def)
  moreover have "calc_udp_checksum f = Inr (finish16 ?s)"
    by (simp add: calc_udp_checksum_def calc_udp_pseudo_header_checksum_def add_opt_def assms(2,6) sum_payload_words
        flip: p_def)
  moreover have "words16 (pseudo_header f @ h @ d) mod 65535 = (?s + c) mod 65535"
  proof -
    have "p mod 65535 = ?p mod 65535" using fold16_mod[of p] fold16_mod[of "fold16 p"] by simp
    then have "(p + (udp_source_port f + udp_dest_port f + l + words16 d + c)) mod 65535 =
        (?p + (udp_source_port f + udp_dest_port f + l + words16 d + c)) mod 65535" by (rule mod_add_cong) simp
    then show ?thesis unfolding w by (simp add: algebra_simps)
  qed
  ultimately show ?thesis by blast
qed

section \<open>Properties\<close>

lemma ip_build_unset:
  assumes "ip_frame_ok f d" "ip_header_checksum f = None"
  shows "\<exists>c. calc_ip_checksum (f\<lparr>ip_length := Some (int (length d) + 20)\<rparr>) = Inr c \<and> fits 16 c \<and>
    ip_build f = Inr (f\<lparr>ip_length := Some (int (length d) + 20), ip_header_checksum := Some c\<rparr>)"
proof -
  let ?f = "f\<lparr>ip_length := Some (int (length d) + 20)\<rparr>"
  have f1: "(if ip_length f = None then ip_update_length f else f) = ?f"
    using assms by (auto simp: ip_frame_ok_def unset_or_def ip_update_length_def set_again)
  obtain c where "calc_ip_checksum ?f = Inr c" "fits 16 c" using calc_ip_checksum_ok[of ?f] by auto
  then show ?thesis using assms(2) by (simp add: ip_build_def f1 update_ip_checksum_def)
qed

lemma udp_build_unset:
  assumes "udp_frame_ok f d" "udp_checksum f = None" "ip_header_checksum f = None"
  shows "\<exists>cu ci. calc_udp_checksum (f\<lparr>udp_length := Some (int (length d) + 8)\<rparr>) = Inr cu \<and>
    calc_ip_checksum (f\<lparr>ip_length := Some (int (length d) + 28)\<rparr>) = Inr ci \<and> fits 16 cu \<and> fits 16 ci \<and>
    udp_build f = Inr (f\<lparr>udp_length := Some (int (length d) + 8), udp_checksum := Some cu,
      ip_length := Some (int (length d) + 28), ip_header_checksum := Some ci\<rparr>)"
proof -
  let ?f1 = "f\<lparr>udp_length := Some (int (length d) + 8)\<rparr>"
  have f1: "(if udp_length f = None then update_udp_length f else f) = ?f1"
    using assms by (auto simp: udp_frame_ok_def unset_or_def update_udp_length_def set_again)
  obtain cu where cu: "calc_udp_checksum ?f1 = Inr cu" "fits 16 cu" using calc_udp_checksum_ok[of ?f1] by auto
  let ?f2 = "?f1\<lparr>udp_checksum := Some cu\<rparr>"
  let ?f3 = "?f2\<lparr>ip_length := Some (int (length d) + 28)\<rparr>"
  have f3: "(if ip_length ?f2 = None then udp_update_ip_length ?f2 else Inr ?f2) = Inr ?f3"
    using assms set_again(2)[of ?f2 "ip_length f"]
    by (cases "ip_length f") (auto simp: udp_frame_ok_def unset_or_def udp_update_ip_length_def algebra_simps)
  obtain ci where ci: "calc_ip_checksum ?f3 = Inr ci" "fits 16 ci" using calc_ip_checksum_ok[of ?f3] by auto
  have "calc_ip_checksum (f\<lparr>ip_length := Some (int (length d) + 28)\<rparr>) = Inr ci"
    using ci(1) by (simp add: calc_ip_checksum_def)
  moreover have "(if udp_checksum ?f1 = None then update_udp_checksum ?f1 else Inr ?f1) = Inr ?f2"
    using assms(2) cu by (simp add: update_udp_checksum_def)
  moreover have "(if ip_header_checksum ?f3 = None then update_ip_checksum ?f3 else Inr ?f3) = Inr (?f3\<lparr>ip_header_checksum := Some ci\<rparr>)"
    using assms(3) ci by (simp add: update_ip_checksum_def)
  ultimately show ?thesis using cu ci(2) unfolding udp_build_def Let_def f1 by (simp only: bindE.simps f3) blast
qed

text \<open>Property C24: Ethernet frames survive with their check sequence. For every frame with
  48-bit addresses and a 16-bit type and no FCS set, \<open>build_axis_fcs\<close> sets the FCS to the CRC of
  the transmitted bytes, and parsing the result into any frame gives exactly that frame, on which
  recomputing the FCS gives the received one.\<close>

theorem eth_fcs_roundtrip:
  assumes "eth_ok f" "eth_payload f = plain d" "eth_fcs f = None"
  shows "\<exists>f' a. eth_build_axis_fcs crc f = Inr (f', a) \<and>
    f' = f\<lparr>eth_fcs := Some (crc (to_be 6 (eth_dest_mac f) @ to_be 6 (eth_src_mac f) @ to_be 2 (eth_type f) @ d)
      AND 0xffffffff)\<rparr> \<and>
    eth_parse_axis_fcs a g = Inr f' \<and> bindE (eth_calc_fcs crc f') (\<lambda>c. Inr (Some c)) = Inr (eth_fcs f')"
proof -
  let ?bs = "to_be 6 (eth_dest_mac f) @ to_be 6 (eth_src_mac f) @ to_be 2 (eth_type f) @ d"
  let ?c = "crc ?bs AND 0xffffffff"
  let ?f = "f\<lparr>eth_fcs := Some ?c\<rparr>" and ?p = "f\<lparr>eth_payload := plain (d @ to_le 4 ?c)\<rparr>"
  have c: "pack_L ?c = Inr (to_le 4 ?c)" "unpack_L (to_le 4 ?c) = Inr ?c"
    using take_bit_fits[of 32 "crc ?bs"] by (simp_all add: masks pack_L_def unpack_L_def fits_def from_le_to_le)
  have ok: "eth_ok ?f" "eth_ok ?p" using assms(1) by (simp_all add: eth_ok_def)
  have b: "eth_build_axis f = Inr (axis_bytes ?bs)" "eth_build_axis ?f = Inr (axis_bytes ?bs)"
    using eth_build_ok[OF assms(1,2)] eth_build_ok[OF ok(1), of d] assms(2) by simp_all
  have fcs: "eth_calc_fcs crc f = Inr ?c" "eth_calc_fcs crc ?f = Inr ?c"
    by (simp_all only: eth_calc_fcs_def b bindE.simps axis_bytes_simps)
  have "eth_build_axis_fcs crc f = Inr (?f, axis_bytes (?bs @ to_le 4 ?c))"
    by (simp add: eth_build_axis_fcs_def eth_update_fcs_def assms(3) fcs b c)
  moreover have "eth_build_axis ?p = Inr (axis_bytes (?bs @ to_le 4 ?c))"
    using eth_build_ok[OF ok(2), of "d @ to_le 4 ?c"] by simp
  then have "eth_parse_axis (axis_bytes (?bs @ to_le 4 ?c)) g = Inr (?p\<lparr>eth_fcs := eth_fcs g\<rparr>)"
    by (intro eth_parse_built[OF ok(2)]) simp_all
  then have "eth_parse_axis_fcs (axis_bytes (?bs @ to_le 4 ?c)) g = Inr ?f"
    using assms(2) by (simp add: eth_parse_axis_fcs_def c)
  ultimately show ?thesis using fcs(2) by simp
qed

text \<open>ARP frames survive the wire: building and parsing a frame whose fields fit
  gives the frame back.\<close>

theorem arp_roundtrip:
  assumes "eth_ok f" "fits 16 (arp_htype f)" "fits 16 (arp_ptype f)" "fits 8 (arp_hlen f)" "fits 8 (arp_plen f)"
    "fits 16 (arp_oper f)" "fits 48 (arp_sha f)" "fits 32 (arp_spa f)" "fits 48 (arp_tha f)" "fits 32 (arp_tpa f)"
  shows "\<exists>a. arp_build_axis f = Inr a \<and> arp_parse_axis a g = Inr f"
proof -
  let ?d = "to_be 2 (arp_htype f) @ to_be 2 (arp_ptype f) @ to_be 1 (arp_hlen f) @ to_be 1 (arp_plen f) @
    to_be 2 (arp_oper f) @ to_be 6 (arp_sha f) @ to_be 4 (arp_spa f) @ to_be 6 (arp_tha f) @ to_be 4 (arp_tpa f)"
  let ?e = "eth_new ?d (eth_dest_mac f) (eth_src_mac f) (eth_type f)"
  have b: "arp_build_eth f = Inr ?e" using assms(2-10) by (simp add: arp_build_eth_def)
  have s: "slice ?d 0 2 = to_be 2 (arp_htype f)" "slice ?d 2 4 = to_be 2 (arp_ptype f)" "slice ?d 4 5 = to_be 1 (arp_hlen f)"
    "slice ?d 5 6 = to_be 1 (arp_plen f)" "slice ?d 6 8 = to_be 2 (arp_oper f)" "slice ?d 8 14 = to_be 6 (arp_sha f)"
    "slice ?d 14 18 = to_be 4 (arp_spa f)" "slice ?d 18 24 = to_be 6 (arp_tha f)" "slice ?d 24 28 = to_be 4 (arp_tpa f)"
    by (simp_all add: slice_def)
  have ep: "eth_payload ?e = plain ?d" by (simp add: eth_new_def)
  have "arp_parse_eth ?e g = Inr ((copy_eth ?e g)\<lparr>arp_htype := arp_htype f, arp_ptype := arp_ptype f,
      arp_hlen := arp_hlen f, arp_plen := arp_plen f, arp_oper := arp_oper f, arp_sha := arp_sha f,
      arp_spa := arp_spa f, arp_tha := arp_tha f, arp_tpa := arp_tpa f\<rparr>)"
    by (simp only: arp_parse_eth_def ep plain_simps bindE.simps s be_formats unpack_mac_to_be assms)
  also have "\<dots> = Inr f" by (cases f, cases g) (simp add: copy_eth_def eth_new_def)
  finally have p: "arp_parse_eth ?e g = Inr f" .
  have ok: "eth_ok ?e" using assms(1) by (simp add: eth_ok_def eth_new_def)
  obtain a where a: "eth_build_axis ?e = Inr a" using eth_build_ok[OF ok ep] by simp
  then have "eth_parse_axis a eth_frame_init = Inr ?e"
    using eth_parse_built[OF ok ep a, of eth_frame_init] by (simp add: eth_new_def eth_frame_init_def)
  then show ?thesis using a b p by (auto simp: arp_build_axis_def arp_parse_axis_def)
qed

text \<open>Property C22: UDP datagrams survive the wire. A datagram whose fields fit, with lengths
  that are unset or right, is built into a stream frame through the IP and Ethernet layers; the
  datagram is left as it was apart from the lengths and checksums now filled in, and parsing the
  stream frame into any datagram gives exactly this datagram.\<close>

theorem udp_roundtrip:
  assumes "udp_frame_ok f d"
  shows "\<exists>f' a. udp_build_axis f = Inr (f', a) \<and> udp_parse_axis a g = Inr f' \<and>
    f' = f\<lparr>udp_length := Some (int (length d) + 8), udp_checksum := udp_checksum f',
      ip_length := Some (int (length d) + 28), ip_header_checksum := ip_header_checksum f'\<rparr>"
proof -
  obtain cu ci where b: "udp_build f = Inr (f\<lparr>udp_length := Some (int (length d) + 8), udp_checksum := Some cu,
      ip_length := Some (int (length d) + 28), ip_header_checksum := Some ci\<rparr>)"
    using udp_build_ok[OF assms] by blast
  then show ?thesis using udp_codec[OF assms b, of g] by auto
qed

text \<open>The IP header checksum is the one of RFC 791. Whenever a frame without a
  checksum is built, the 16-bit words of the header it transmits sum to a multiple of \<open>2 ^ 16 - 1\<close>,
  and the receiver that parses the frame finds the checksum right.\<close>

theorem ip_checksum_correct:
  assumes "ip_frame_ok f d" "ip_header_checksum f = None"
  shows "\<exists>f' a h. ip_build_axis f = Inr (f', a) \<and> ip_header_bytes f' = Inr h \<and> checksum_valid (words16 h) \<and>
    ip_parse_axis a g = Inr f' \<and> verify_ip_checksum f' = Inr True"
proof -
  let ?f = "f\<lparr>ip_length := Some (int (length d) + 20)\<rparr>"
  obtain c where c: "calc_ip_checksum ?f = Inr c" "fits 16 c" and b: "ip_build f = Inr (?f\<lparr>ip_header_checksum := Some c\<rparr>)"
    using ip_build_unset[OF assms] by blast
  let ?f' = "?f\<lparr>ip_header_checksum := Some c\<rparr>"
  have l: "fits 16 (int (length d) + 20)" using assms(1) by (simp add: ip_frame_ok_def fits_def)
  have ok: "ip_fields_ok ?f'" using assms(1) by (simp add: ip_frame_ok_def ip_fields_ok_def eth_ok_def)
  obtain h where h: "ip_header_bytes ?f' = Inr h" using ip_header_bytes_ok[OF ok _ l _ c(2)] by simp
  obtain s where s: "fits 32 s" "calc_ip_checksum ?f' = Inr (finish16 s)" "words16 h = s + c"
    using ip_checksum_words[OF ok _ l _ c(2) h] by auto
  have "c = finish16 s" using s(2) c(1) by (simp add: calc_ip_checksum_def)
  then have "checksum_valid (words16 h)" "verify_ip_checksum ?f' = Inr True"
    using finish16_valid[OF s(1)] s(2,3) by (simp_all add: verify_ip_checksum_def)
  then show ?thesis using ip_codec[OF assms(1) b, of g] h by blast
qed

text \<open>Property C23: the UDP checksum is the one of RFC 768. Whenever a datagram without checksums
  is built and received, the words of the pseudo header, the UDP header and the payload (padded
  with a zero byte when its length is odd) sum to a multiple of \<open>2 ^ 16 - 1\<close>, and the receiver
  finds both checksums right.\<close>

theorem udp_checksum_correct:
  assumes "udp_frame_ok f d" "udp_checksum f = None" "ip_header_checksum f = None"
  shows "\<exists>f' a h. udp_build_axis f = Inr (f', a) \<and> udp_header_bytes f' = Inr h \<and>
    checksum_valid (words16 (pseudo_header f' @ h @ d)) \<and>
    udp_parse_axis a g = Inr f' \<and> verify_checksums f' = Inr True"
proof -
  let ?f1 = "f\<lparr>udp_length := Some (int (length d) + 8)\<rparr>"
  obtain cu ci where b: "udp_build f = Inr (?f1\<lparr>udp_checksum := Some cu, ip_length := Some (int (length d) + 28),
        ip_header_checksum := Some ci\<rparr>)" and c: "fits 16 cu" "fits 16 ci"
    and calc: "calc_udp_checksum ?f1 = Inr cu" "calc_ip_checksum (f\<lparr>ip_length := Some (int (length d) + 28)\<rparr>) = Inr ci"
    using udp_build_unset[OF assms] by blast
  let ?f' = "?f1\<lparr>udp_checksum := Some cu, ip_length := Some (int (length d) + 28), ip_header_checksum := Some ci\<rparr>"
  have ok: "ip_fields_ok ?f'" "udp_payload ?f' = plain d" "length d + 28 < 65536" "fits 16 (udp_source_port ?f')"
    "fits 16 (udp_dest_port ?f')" "udp_length ?f' = Some (int (length d) + 8)" "fits 16 (int (length d) + 8)"
    "udp_checksum ?f' = Some cu"
    using assms(1) by (simp_all add: udp_frame_ok_def ip_fields_ok_def eth_ok_def fits_def)
  obtain h where h: "udp_header_bytes ?f' = Inr h" using udp_header_bytes_ok[OF ok(4-8) c(1)] by simp
  obtain s where s: "fits 32 s" "calc_udp_checksum ?f' = Inr (finish16 s)"
      "words16 (pseudo_header ?f' @ h @ d) mod 65535 = (s + cu) mod 65535"
    using udp_checksum_words[OF ok c(1) h] by blast
  have "cu = finish16 s"
    using s(2) calc(1) by (simp add: calc_udp_checksum_def calc_udp_pseudo_header_checksum_def)
  then have "checksum_valid (words16 (pseudo_header ?f' @ h @ d))" "verify_udp_checksum ?f' = Inr True"
    using finish16_valid[OF s(1)] s(2,3) by (simp_all add: verify_udp_checksum_def checksum_valid_def)
  moreover have "verify_ip_checksum ?f' = Inr True" using calc(2) by (simp add: verify_ip_checksum_def calc_ip_checksum_def)
  ultimately show ?thesis using udp_codec[OF assms(1) b, of g] h by (auto simp: verify_checksums_def)
qed

section \<open>Witnesses\<close>

definition demo_udp :: udp_frame where
  "demo_udp = udp_frame_init\<lparr>udp_payload := plain [1, 2, 3], eth_dest_mac := 0x010203040506, eth_src_mac := 0x5A, eth_type := 0x0800\<rparr>"

definition demo_ip :: ip_frame where
  "demo_ip = ip_frame_init\<lparr>ip_payload := plain [7], eth_type := 0x0800\<rparr>"

lemma demo_frames_fit: "udp_frame_ok demo_udp [1, 2, 3]" "ip_frame_ok demo_ip [7]"
  by (simp_all add: demo_udp_def demo_ip_def udp_frame_ok_def ip_frame_ok_def ip_fields_ok_def eth_ok_def fits_def
      udp_frame_init_def ip_frame_init_def unset_or_def unset_or_fits_def)

theorem eth_fcs_roundtrip_witness:
  "\<exists>f' a. eth_build_axis_fcs (\<lambda>bs. int (length bs)) (eth_new [1, 2] 3 4 5) = Inr (f', a) \<and> eth_fcs f' = Some 16"
proof -
  have "eth_ok (eth_new [1, 2] 3 4 5)" "eth_payload (eth_new [1, 2] 3 4 5) = plain [1, 2]" "eth_fcs (eth_new [1, 2] 3 4 5) = None"
    by (simp_all add: eth_ok_def eth_new_def fits_def)
  from eth_fcs_roundtrip[OF this, where crc = "\<lambda>bs. int (length bs)" and g = eth_frame_init]
  obtain f' a where "eth_build_axis_fcs (\<lambda>bs. int (length bs)) (eth_new [1, 2] 3 4 5) = Inr (f', a)"
    "f' = (eth_new [1, 2] 3 4 5)\<lparr>eth_fcs := Some (16 AND 0xffffffff)\<rparr>" by auto
  then show ?thesis by simp
qed

theorem arp_roundtrip_witness: "\<exists>a. arp_build_axis arp_frame_init = Inr a \<and> arp_parse_axis a arp_frame_init = Inr arp_frame_init"
  by (rule arp_roundtrip) (simp_all add: arp_frame_init_def eth_ok_def fits_def)

theorem udp_roundtrip_witness: "\<exists>f' a. udp_build_axis demo_udp = Inr (f', a) \<and> udp_parse_axis a udp_frame_init = Inr f' \<and> udp_length f' = Some 11"
proof -
  obtain f' a where r: "udp_build_axis demo_udp = Inr (f', a)" "udp_parse_axis a udp_frame_init = Inr f'"
    "f' = demo_udp\<lparr>udp_length := Some (int (length [1 :: byte, 2, 3]) + 8), udp_checksum := udp_checksum f',
      ip_length := Some (int (length [1 :: byte, 2, 3]) + 28), ip_header_checksum := ip_header_checksum f'\<rparr>"
    using udp_roundtrip[OF demo_frames_fit(1), of udp_frame_init] by blast
  have "udp_length f' = Some 11" using arg_cong[OF r(3), of udp_length] by simp
  then show ?thesis using r(1,2) by blast
qed

theorem ip_checksum_correct_witness:
  "\<exists>f' a. ip_build_axis demo_ip = Inr (f', a) \<and> ip_parse_axis a ip_frame_init = Inr f' \<and> verify_ip_checksum f' = Inr True"
proof -
  have "ip_header_checksum demo_ip = None" by (simp add: demo_ip_def ip_frame_init_def)
  from ip_checksum_correct[OF demo_frames_fit(2) this, of ip_frame_init] show ?thesis by blast
qed

theorem udp_checksum_correct_witness:
  "\<exists>f' a. udp_build_axis demo_udp = Inr (f', a) \<and> udp_parse_axis a udp_frame_init = Inr f' \<and> verify_checksums f' = Inr True"
proof -
  have "udp_checksum demo_udp = None" "ip_header_checksum demo_udp = None" by (simp_all add: demo_udp_def udp_frame_init_def)
  from udp_checksum_correct[OF demo_frames_fit(1) this, of udp_frame_init] show ?thesis by blast
qed

end
