(* ===== verification/NetLink.thy ===== *)
theory NetLink
  imports AxisLink NetFrames
begin

text \<open>
  The clocked frame sources and sinks of \<open>fpga/lib/eth/tb\<close>: a header bus with a handshake of
  its own next to a stream bus for the payload (\<open>EthFrameSource\<close>, \<open>EthFrameSink\<close> and their IP and
  UDP kin), and the header bus alone (\<open>ARPFrameSource\<close>, \<open>ARPFrameSink\<close>). Headers and payloads
  travel separately and are matched again at the sink. The four processes that wake at a clock
  edge share Python queues, so each edge carries the order in which they run.
\<close>

section \<open>The header bus\<close>

text \<open>What drives the header signals: the fields of the frame, after \<open>build\<close> where the code calls
  it. A value that does not fit its signal raises. The sink reads the signals into a new frame.\<close>

definition eth_drive :: "eth_frame \<Rightarrow> eth_frame result" where
  "eth_drive f = (if eth_ok f then Inr (copy_eth f eth_frame_init) else Inl ValueError)"

definition opt_fits :: "nat \<Rightarrow> int option \<Rightarrow> bool" where
  "opt_fits n x \<longleftrightarrow> (case x of None \<Rightarrow> False | Some v \<Rightarrow> fits n v)"

definition ip_drive :: "ip_frame \<Rightarrow> ip_frame result" where
  "ip_drive f = bindE (ip_build f) (\<lambda>f.
     if ip_fields_ok f \<and> opt_fits 16 (ip_length f) \<and> opt_fits 16 (ip_header_checksum f)
     then Inr (copy_ip f ip_frame_init) else Inl ValueError)"

definition copy_udp :: "udp_frame \<Rightarrow> udp_frame \<Rightarrow> udp_frame" where
  "copy_udp d s = (copy_ip d s)\<lparr>udp_source_port := udp_source_port d, udp_dest_port := udp_dest_port d,
     udp_length := udp_length d, udp_checksum := udp_checksum d\<rparr>"

definition udp_drive :: "udp_frame \<Rightarrow> udp_frame result" where
  "udp_drive f = bindE (udp_build f) (\<lambda>f.
     if ip_fields_ok f \<and> opt_fits 16 (ip_length f) \<and> opt_fits 16 (ip_header_checksum f) \<and>
       fits 16 (udp_source_port f) \<and> fits 16 (udp_dest_port f) \<and> opt_fits 16 (udp_length f) \<and>
       opt_fits 16 (udp_checksum f)
     then Inr (copy_udp f udp_frame_init) else Inl ValueError)"

definition arp_fields_ok :: "arp_frame \<Rightarrow> bool" where
  "arp_fields_ok f \<longleftrightarrow> eth_ok f \<and> fits 16 (arp_htype f) \<and> fits 16 (arp_ptype f) \<and> fits 8 (arp_hlen f) \<and>
     fits 8 (arp_plen f) \<and> fits 16 (arp_oper f) \<and> fits 48 (arp_sha f) \<and> fits 32 (arp_spa f) \<and>
     fits 48 (arp_tha f) \<and> fits 32 (arp_tpa f)"

definition arp_drive :: "arp_frame \<Rightarrow> arp_frame result" where
  "arp_drive f = (if arp_fields_ok f then Inr f else Inl ValueError)"

record 'f hdr_wires =
  hw_valid :: bool
  hw_val :: 'f

record 'f hdr_source =
  hs_active :: bool
  hs_queue :: "'f list"

record 'f hdr_sink =
  hk_ready :: bool
  hk_queue :: "'f list"

text \<open>One edge of the header side of a source: \<open>hs_queue\<close> is \<open>header_queue\<close> (\<open>queue\<close> for ARP).\<close>

definition hdr_source_step ::
  "('f \<Rightarrow> 'f result) \<Rightarrow> bool \<Rightarrow> bool \<Rightarrow> 'f hdr_source \<Rightarrow> 'f hdr_wires \<Rightarrow> ('f hdr_source \<times> 'f hdr_wires) result" where
  "hdr_source_step drive pause ready s w =
     (let (a, v) = (if ready \<and> hw_valid w then (False, False) else (hs_active s, hs_active s \<and> (hw_valid w \<or> \<not> pause)))
      in if a \<or> hs_queue s = [] then Inr (s\<lparr>hs_active := a\<rparr>, w\<lparr>hw_valid := v\<rparr>)
         else bindE (drive (hd (hs_queue s))) (\<lambda>h.
           Inr (\<lparr>hs_active = True, hs_queue = tl (hs_queue s)\<rparr>, \<lparr>hw_valid = (\<not> pause), hw_val = h\<rparr>)))"

definition hdr_sink_step :: "bool \<Rightarrow> 'f hdr_wires \<Rightarrow> 'f hdr_sink \<Rightarrow> 'f hdr_sink" where
  "hdr_sink_step pause w k = \<lparr>hk_ready = True,
     hk_queue = (if hk_ready k \<and> hw_valid w \<and> \<not> pause then hk_queue k @ [hw_val w] else hk_queue k)\<rparr>"

section \<open>ARP: the header bus alone\<close>

type_synonym arp_pair = "arp_frame hdr_source \<times> arp_frame hdr_wires \<times> arp_frame hdr_sink"

definition arp_init :: arp_pair where
  "arp_init = (\<lparr>hs_active = False, hs_queue = []\<rparr>, \<lparr>hw_valid = False, hw_val = arp_frame_init\<rparr>,
     \<lparr>hk_ready = False, hk_queue = []\<rparr>)"

datatype 'f link_act =
    Send 'f
  | Edge bool bool bool bool

text \<open>An edge carries whether the source and the sink are paused; its two other components order
  the processes of a frame bus and mean nothing here.\<close>

definition arp_act :: "arp_frame link_act \<Rightarrow> arp_pair \<Rightarrow> arp_pair result" where
  "arp_act a st = (case st of (s, w, k) \<Rightarrow>
     (case a of
        Send f \<Rightarrow> Inr (s\<lparr>hs_queue := hs_queue s @ [f]\<rparr>, w, k)
      | Edge ps pk _ _ \<Rightarrow>
          bindE (hdr_source_step arp_drive ps (hk_ready k \<and> \<not> pk) s w) (\<lambda>(s', w').
            Inr (s', w', hdr_sink_step pk w k))))"

fun run_acts :: "('a \<Rightarrow> 's \<Rightarrow> 's result) \<Rightarrow> 'a list \<Rightarrow> 's \<Rightarrow> 's result" where
  "run_acts step [] st = Inr st"
| "run_acts step (a # as) st = bindE (step a st) (run_acts step as)"

fun sent_of :: "'f link_act list \<Rightarrow> 'f list" where
  "sent_of [] = []"
| "sent_of (Send f # as) = f # sent_of as"
| "sent_of (Edge _ _ _ _ # as) = sent_of as"

section \<open>Frames with a payload\<close>

record 'f frame_source =
  fs_hdr :: "'f hdr_source"
  fs_queue :: "'f list"
  fs_payload :: axis_source

record 'f frame_sink =
  gk_hdr :: "'f hdr_sink"
  gk_queue :: "'f list"
  gk_payload :: axis_sink

text \<open>\<open>send\<close>, and one edge of the source's own process: after the header side, the next waiting
  frame moves up and its payload goes to the payload source.\<close>

definition frame_send :: "('f \<Rightarrow> 'f) \<Rightarrow> ('f \<Rightarrow> axis_frame) \<Rightarrow> 'f \<Rightarrow> 'f frame_source \<Rightarrow> 'f frame_source" where
  "frame_send cp pay f s =
     (let f' = cp f
      in if hs_queue (fs_hdr s) = []
         then s\<lparr>fs_hdr := (fs_hdr s)\<lparr>hs_queue := [f']\<rparr>, fs_payload := source_send (pay f') (fs_payload s)\<rparr>
         else s\<lparr>fs_queue := fs_queue s @ [f']\<rparr>)"

definition frame_move_up :: "('f \<Rightarrow> axis_frame) \<Rightarrow> 'f frame_source \<Rightarrow> 'f frame_source" where
  "frame_move_up pay s =
     (if fs_queue s \<noteq> [] \<and> hs_queue (fs_hdr s) = []
      then s\<lparr>fs_queue := tl (fs_queue s), fs_hdr := (fs_hdr s)\<lparr>hs_queue := [hd (fs_queue s)]\<rparr>,
             fs_payload := source_send (pay (hd (fs_queue s))) (fs_payload s)\<rparr>
      else s)"

definition frame_source_step :: "('f \<Rightarrow> 'f result) \<Rightarrow> ('f \<Rightarrow> axis_frame) \<Rightarrow> bool \<Rightarrow> bool \<Rightarrow> 'f frame_source \<Rightarrow> 'f hdr_wires \<Rightarrow>
    ('f frame_source \<times> 'f hdr_wires) result" where
  "frame_source_step drive pay pause ready s w =
     bindE (hdr_source_step drive pause ready (fs_hdr s) w) (\<lambda>(h, w').
       Inr (frame_move_up pay (s\<lparr>fs_hdr := h\<rparr>), w'))"

text \<open>The sink's own process: take a header, then match one header with one payload. The IP and UDP
  sinks assert that no payload is left when the headers have run out.\<close>

definition frame_match :: "(axis_frame \<Rightarrow> 'f \<Rightarrow> 'f) \<Rightarrow> bool \<Rightarrow> 'f frame_sink \<Rightarrow> 'f frame_sink result" where
  "frame_match with_pay chk k =
     (case (hk_queue (gk_hdr k), ak_queue (gk_payload k)) of
        (h # hs, p # ps) \<Rightarrow>
          bindE (assertE (chk \<and> hs = [] \<longrightarrow> ps = [])) (\<lambda>_.
            Inr (k\<lparr>gk_hdr := (gk_hdr k)\<lparr>hk_queue := hs\<rparr>, gk_payload := (gk_payload k)\<lparr>ak_queue := ps\<rparr>,
                   gk_queue := gk_queue k @ [with_pay p h]\<rparr>))
      | _ \<Rightarrow> Inr k)"

definition frame_sink_step :: "(axis_frame \<Rightarrow> 'f \<Rightarrow> 'f) \<Rightarrow> bool \<Rightarrow> bool \<Rightarrow> 'f hdr_wires \<Rightarrow> 'f frame_sink \<Rightarrow> 'f frame_sink result" where
  "frame_sink_step with_pay chk pause w k = frame_match with_pay chk (k\<lparr>gk_hdr := hdr_sink_step pause w (gk_hdr k)\<rparr>)"

section \<open>Source and sink on one bus\<close>

record 'f frame_link =
  fl_source :: "'f frame_source"
  fl_hdr :: "'f hdr_wires"
  fl_data :: axis_wires
  fl_sink :: "'f frame_sink"

definition source_processes ::
  "('f \<Rightarrow> 'f result) \<Rightarrow> ('f \<Rightarrow> axis_frame) \<Rightarrow> bus \<Rightarrow> bool \<Rightarrow> bool \<Rightarrow> bool \<Rightarrow> bool \<Rightarrow>
   'f frame_source \<Rightarrow> 'f hdr_wires \<Rightarrow> axis_wires \<Rightarrow> ('f frame_source \<times> 'f hdr_wires \<times> axis_wires) result option" where
  "source_processes drive pay u payload_first pause hready pready s hw w =
     (if payload_first then
        (case source_step u pause pready (fs_payload s) w of
           None \<Rightarrow> None
         | Some r \<Rightarrow> Some (bindE r (\<lambda>(ps, w').
             bindE (frame_source_step drive pay pause hready (s\<lparr>fs_payload := ps\<rparr>) hw) (\<lambda>(s', hw').
               Inr (s', hw', w')))))
      else
        (case frame_source_step drive pay pause hready s hw of
           Inl e \<Rightarrow> Some (Inl e)
         | Inr (s', hw') \<Rightarrow>
             (case source_step u pause pready (fs_payload s') w of
                None \<Rightarrow> None
              | Some r \<Rightarrow> Some (bindE r (\<lambda>(ps, w'). Inr (s'\<lparr>fs_payload := ps\<rparr>, hw', w'))))))"

definition sink_processes ::
  "(axis_frame \<Rightarrow> 'f \<Rightarrow> 'f) \<Rightarrow> bool \<Rightarrow> bus \<Rightarrow> bool \<Rightarrow> bool \<Rightarrow> 'f hdr_wires \<Rightarrow> axis_wires \<Rightarrow> 'f frame_sink \<Rightarrow> 'f frame_sink result" where
  "sink_processes with_pay chk u payload_first pause hw w k =
     (if payload_first then
        bindE (sink_step u pause w (gk_payload k)) (\<lambda>p. frame_sink_step with_pay chk pause hw (k\<lparr>gk_payload := p\<rparr>))
      else
        bindE (frame_sink_step with_pay chk pause hw k) (\<lambda>k'.
          bindE (sink_step u pause w (gk_payload k')) (\<lambda>p. Inr (k'\<lparr>gk_payload := p\<rparr>))))"

definition link_edge ::
  "('f \<Rightarrow> 'f result) \<Rightarrow> ('f \<Rightarrow> axis_frame) \<Rightarrow> (axis_frame \<Rightarrow> 'f \<Rightarrow> 'f) \<Rightarrow> bool \<Rightarrow> bus \<Rightarrow>
   bool \<Rightarrow> bool \<Rightarrow> bool \<Rightarrow> bool \<Rightarrow> 'f frame_link \<Rightarrow> 'f frame_link result option" where
  "link_edge drive pay with_pay chk u ps pk o1 o2 l =
     (case source_processes drive pay u o1 ps (hk_ready (gk_hdr (fl_sink l)) \<and> \<not> pk)
         (ak_ready (gk_payload (fl_sink l)) \<and> \<not> pk) (fl_source l) (fl_hdr l) (fl_data l) of
        None \<Rightarrow> None
      | Some r \<Rightarrow> Some (bindE r (\<lambda>(s, hw, w).
          bindE (sink_processes with_pay chk u o2 pk (fl_hdr l) (fl_data l) (fl_sink l)) (\<lambda>k.
            Inr \<lparr>fl_source = s, fl_hdr = hw, fl_data = w, fl_sink = k\<rparr>))))"

fun link_run :: "('f \<Rightarrow> 'f) \<Rightarrow> ('f \<Rightarrow> 'f result) \<Rightarrow> ('f \<Rightarrow> axis_frame) \<Rightarrow> (axis_frame \<Rightarrow> 'f \<Rightarrow> 'f) \<Rightarrow> bool \<Rightarrow> bus \<Rightarrow>
   'f link_act list \<Rightarrow> 'f frame_link \<Rightarrow> 'f frame_link result option" where
  "link_run cp drive pay with_pay chk u [] l = Some (Inr l)"
| "link_run cp drive pay with_pay chk u (Send f # as) l =
     link_run cp drive pay with_pay chk u as (l\<lparr>fl_source := frame_send cp pay f (fl_source l)\<rparr>)"
| "link_run cp drive pay with_pay chk u (Edge ps pk o1 o2 # as) l =
     (case link_edge drive pay with_pay chk u ps pk o1 o2 l of
        None \<Rightarrow> None
      | Some (Inl e) \<Rightarrow> Some (Inl e)
      | Some (Inr l') \<Rightarrow> link_run cp drive pay with_pay chk u as l')"

definition link_init :: "'f \<Rightarrow> 'f frame_link" where
  "link_init blank = \<lparr>fl_source = \<lparr>fs_hdr = \<lparr>hs_active = False, hs_queue = []\<rparr>, fs_queue = [], fs_payload = source_init\<rparr>,
     fl_hdr = \<lparr>hw_valid = False, hw_val = blank\<rparr>, fl_data = snd (source_reset source_init),
     fl_sink = \<lparr>gk_hdr = \<lparr>hk_ready = False, hk_queue = []\<rparr>, gk_queue = [], gk_payload = sink_init\<rparr>\<rparr>"

text \<open>Setting the payload of a received frame goes through the setter.\<close>

definition eth_with_payload :: "axis_frame \<Rightarrow> eth_frame \<Rightarrow> eth_frame" where
  "eth_with_payload p f = f\<lparr>eth_payload := axis_copy p\<rparr>"

definition ip_with_payload :: "axis_frame \<Rightarrow> ip_frame \<Rightarrow> ip_frame" where
  "ip_with_payload p f = f\<lparr>ip_payload := axis_copy p\<rparr>"

definition udp_with_payload :: "axis_frame \<Rightarrow> udp_frame \<Rightarrow> udp_frame" where
  "udp_with_payload p f = f\<lparr>udp_payload := axis_copy p\<rparr>"

definition eth_link_run :: "bus \<Rightarrow> eth_frame link_act list \<Rightarrow> eth_frame frame_link \<Rightarrow> eth_frame frame_link result option" where
  "eth_link_run = link_run eth_copy eth_drive eth_payload eth_with_payload False"

definition ip_link_run :: "bus \<Rightarrow> ip_frame link_act list \<Rightarrow> ip_frame frame_link \<Rightarrow> ip_frame frame_link result option" where
  "ip_link_run = link_run ip_copy ip_drive ip_payload ip_with_payload True"

definition udp_link_run :: "bus \<Rightarrow> udp_frame link_act list \<Rightarrow> udp_frame frame_link \<Rightarrow> udp_frame frame_link result option" where
  "udp_link_run = link_run udp_copy udp_drive udp_payload udp_with_payload True"

section \<open>The header bus keeps its order\<close>

definition hdr_inv :: "('f \<Rightarrow> 'f result) \<Rightarrow> 'f list \<Rightarrow> 'f hdr_source \<Rightarrow> 'f hdr_wires \<Rightarrow> bool \<Rightarrow> bool" where
  "hdr_inv drive cur s w r \<longleftrightarrow> (hw_valid w \<longrightarrow> r) \<and>
     (if hs_active s then \<exists>f. cur = [f] \<and> drive f = Inr (hw_val w) else cur = [] \<and> \<not> hw_valid w)"

lemma hdr_step_inv:
  assumes "hdr_inv drive cur s w (hk_ready k)" "\<forall>f \<in> set (hs_queue s). \<exists>h. drive f = Inr h"
  shows "\<exists>s' w' cur' tk hs. hdr_source_step drive ps (hk_ready k \<and> \<not> pk) s w = Inr (s', w') \<and>
    hdr_inv drive cur' s' w' True \<and> tk @ cur' @ hs_queue s' = cur @ hs_queue s \<and>
    tk = (if hw_valid w \<and> \<not> pk then cur else []) \<and>
    hdr_sink_step pk w k = \<lparr>hk_ready = True, hk_queue = hk_queue k @ hs\<rparr> \<and> list_all2 (\<lambda>f h. drive f = Inr h) tk hs \<and>
    length (hs_queue s') \<le> length (hs_queue s) \<and> (hs_queue s' \<noteq> [] \<longrightarrow> cur' \<noteq> []) \<and>
    (cur' \<noteq> [] \<and> \<not> ps \<longrightarrow> hw_valid w') \<and> (hw_valid w \<and> pk \<longrightarrow> hw_valid w')"
proof -
  let ?tk = "if hw_valid w \<and> \<not> pk then cur else []" and ?hs = "if hw_valid w \<and> \<not> pk then [hw_val w] else []"
  have r: "hw_valid w \<longrightarrow> hk_ready k \<and> hs_active s" using assms(1) by (auto simp: hdr_inv_def split: if_splits)
  have sink: "hdr_sink_step pk w k = \<lparr>hk_ready = True, hk_queue = hk_queue k @ ?hs\<rparr>" "list_all2 (\<lambda>f h. drive f = Inr h) ?tk ?hs"
    using assms(1) r by (auto simp: hdr_sink_step_def hdr_inv_def split: if_splits)
  define a where "a = (hs_active s \<and> \<not> (hw_valid w \<and> \<not> pk))"
  define v where "v = (a \<and> (hw_valid w \<or> \<not> ps))"
  have step: "hdr_source_step drive ps (hk_ready k \<and> \<not> pk) s w =
     (if a \<or> hs_queue s = [] then Inr (s\<lparr>hs_active := a\<rparr>, w\<lparr>hw_valid := v\<rparr>)
      else bindE (drive (hd (hs_queue s))) (\<lambda>h.
        Inr (\<lparr>hs_active = True, hs_queue = tl (hs_queue s)\<rparr>, \<lparr>hw_valid = (\<not> ps), hw_val = h\<rparr>)))"
    using r by (auto simp: hdr_source_step_def a_def v_def)
  show ?thesis
  proof (cases "a \<or> hs_queue s = []")
    case True
    let ?s = "s\<lparr>hs_active := a\<rparr>" and ?w = "w\<lparr>hw_valid := v\<rparr>" and ?c = "if a then cur else []"
    have c1: "hdr_source_step drive ps (hk_ready k \<and> \<not> pk) s w = Inr (?s, ?w)" using step True by simp
    have act: "a \<Longrightarrow> hs_active s" by (simp add: a_def)
    have c2: "hdr_inv drive ?c ?s ?w True" using assms(1) by (cases a) (auto simp: hdr_inv_def v_def a_def)
    have c3: "?tk @ ?c @ hs_queue ?s = cur @ hs_queue s" using assms(1) by (auto simp: hdr_inv_def a_def)
    have c4: "hs_queue ?s \<noteq> [] \<longrightarrow> ?c \<noteq> []" using True assms(1) act by (auto simp: hdr_inv_def)
    have c5: "?c \<noteq> [] \<and> \<not> ps \<longrightarrow> hw_valid ?w" by (simp add: v_def)
    have c6: "hw_valid w \<and> pk \<longrightarrow> hw_valid ?w" using r by (simp add: v_def a_def)
    have c7: "length (hs_queue ?s) \<le> length (hs_queue s)" by simp
    show ?thesis
      by (rule exI[of _ ?s], rule exI[of _ ?w], rule exI[of _ ?c], rule exI[of _ ?tk], rule exI[of _ ?hs])
         (intro conjI c1 c2 c3 c4 c5 c6 c7 sink refl)
  next
    case False
    then obtain f fs h where f: "hs_queue s = f # fs" "drive f = Inr h" using assms(2) by (cases "hs_queue s") auto
    let ?s = "\<lparr>hs_active = True, hs_queue = fs\<rparr>" and ?w = "\<lparr>hw_valid = (\<not> ps), hw_val = h\<rparr>"
    have c1: "hdr_source_step drive ps (hk_ready k \<and> \<not> pk) s w = Inr (?s, ?w)" using step False f by simp
    have c2: "hdr_inv drive [f] ?s ?w True" using f by (simp add: hdr_inv_def)
    have c3: "?tk @ [f] @ hs_queue ?s = cur @ hs_queue s" using False assms(1) f by (auto simp: hdr_inv_def a_def)
    have c4: "hs_queue ?s \<noteq> [] \<longrightarrow> [f] \<noteq> []" "[f] \<noteq> [] \<and> \<not> ps \<longrightarrow> hw_valid ?w" by simp_all
    have c6: "hw_valid w \<and> pk \<longrightarrow> hw_valid ?w" using False r by (auto simp: a_def)
    have c7: "length (hs_queue ?s) \<le> length (hs_queue s)" using f by simp
    show ?thesis
      by (rule exI[of _ ?s], rule exI[of _ ?w], rule exI[of _ "[f]"], rule exI[of _ ?tk], rule exI[of _ ?hs])
         (intro conjI c1 c2 c3 c4 c6 c7 sink refl)
  qed
qed

definition arp_inv :: "arp_frame list \<Rightarrow> arp_pair \<Rightarrow> bool" where
  "arp_inv fs st \<longleftrightarrow> (case st of (s, w, k) \<Rightarrow>
     \<exists>cur. fs = hk_queue k @ cur @ hs_queue s \<and> hdr_inv arp_drive cur s w (hk_ready k))"

lemma arp_drive_ok: "arp_drive f = Inr h \<longleftrightarrow> arp_fields_ok f \<and> h = f"
  by (auto simp: arp_drive_def)

lemma arp_act_inv:
  assumes "arp_inv fs st" "\<forall>f \<in> set (fs @ sent_of [a]). arp_fields_ok f"
  shows "\<exists>st'. arp_act a st = Inr st' \<and> arp_inv (fs @ sent_of [a]) st'"
proof -
  obtain s w k where st: "st = (s, w, k)" by (cases st)
  obtain cur where i: "fs = hk_queue k @ cur @ hs_queue s" "hdr_inv arp_drive cur s w (hk_ready k)"
    using assms(1) by (auto simp: arp_inv_def st)
  show ?thesis
  proof (cases a)
    case (Send f)
    then show ?thesis using i by (auto simp: arp_act_def arp_inv_def st hdr_inv_def)
  next
    case (Edge ps pk o1 o2)
    have "\<forall>f \<in> set (hs_queue s). \<exists>h. arp_drive f = Inr h" using assms(2) i(1) by (auto simp: arp_drive_def)
    from hdr_step_inv[OF i(2) this, of ps pk] obtain s' w' cur' tk hs where
      h: "hdr_source_step arp_drive ps (hk_ready k \<and> \<not> pk) s w = Inr (s', w')" "hdr_inv arp_drive cur' s' w' True"
        "tk @ cur' @ hs_queue s' = cur @ hs_queue s" "hdr_sink_step pk w k = \<lparr>hk_ready = True, hk_queue = hk_queue k @ hs\<rparr>"
        "list_all2 (\<lambda>f h. arp_drive f = Inr h) tk hs" by blast
    have "list_all2 (=) tk hs" using h(5) by (rule list_all2_mono) (simp add: arp_drive_ok)
    then have "tk = hs" unfolding list_all2_eq by simp
    have "arp_inv fs (s', w', hdr_sink_step pk w k)"
      using h(2-4) i(1) unfolding arp_inv_def prod.case by (intro exI[of _ cur']) (simp add: \<open>tk = hs\<close>)
    then show ?thesis using h(1) Edge by (simp add: arp_act_def st)
  qed
qed

lemma arp_run_inv:
  "arp_inv fs st \<Longrightarrow> \<forall>f \<in> set (fs @ sent_of as). arp_fields_ok f \<Longrightarrow>
   \<exists>st'. run_acts arp_act as st = Inr st' \<and> arp_inv (fs @ sent_of as) st'"
proof (induction as arbitrary: fs st)
  case (Cons a as)
  have c: "sent_of (a # as) = sent_of [a] @ sent_of as" by (cases a) simp_all
  obtain st1 where 1: "arp_act a st = Inr st1" "arp_inv (fs @ sent_of [a]) st1"
    using arp_act_inv[OF Cons.prems(1), of a] Cons.prems(2) c by auto
  then show ?case using Cons.IH[OF 1(2)] Cons.prems(2) c by simp
qed simp

section \<open>Matching headers with payloads\<close>

text \<open>The frames whose headers were accepted fall into those matched and those waiting; \<open>pre\<close>
  collects the payloads the matching has taken from the payload sink.\<close>

definition matched :: "('f \<Rightarrow> 'f result) \<Rightarrow> ('f \<Rightarrow> axis_frame) \<Rightarrow> (axis_frame \<Rightarrow> 'f \<Rightarrow> 'f) \<Rightarrow> 'f \<Rightarrow> 'f \<Rightarrow> bool" where
  "matched drive pay with_pay f g \<longleftrightarrow> (\<exists>h p. drive f = Inr h \<and> delivered (pay f) p \<and> g = with_pay p h)"

definition frame_sink_inv :: "('f \<Rightarrow> 'f result) \<Rightarrow> ('f \<Rightarrow> axis_frame) \<Rightarrow> (axis_frame \<Rightarrow> 'f \<Rightarrow> 'f) \<Rightarrow>
    'f list \<Rightarrow> axis_frame list \<Rightarrow> 'f frame_sink \<Rightarrow> bool" where
  "frame_sink_inv drive pay with_pay acc pre k \<longleftrightarrow> (\<exists>mat wait. acc = mat @ wait \<and>
     list_all2 (matched drive pay with_pay) mat (gk_queue k) \<and>
     list_all2 (\<lambda>f h. drive f = Inr h) wait (hk_queue (gk_hdr k)) \<and> length pre = length mat)"

definition arrived :: "('f \<Rightarrow> axis_frame) \<Rightarrow> 'f list \<Rightarrow> axis_frame list \<Rightarrow> bool" where
  "arrived pay fs ps \<longleftrightarrow> (\<forall>i < length ps. delivered (pay (fs ! i)) (ps ! i))"

lemma header_taken:
  "frame_sink_inv drive pay with_pay acc pre k \<Longrightarrow> list_all2 (\<lambda>f h. drive f = Inr h) tk hs \<Longrightarrow>
   frame_sink_inv drive pay with_pay (acc @ tk) pre (k\<lparr>gk_hdr := \<lparr>hk_ready = r, hk_queue = hk_queue (gk_hdr k) @ hs\<rparr>\<rparr>)"
  unfolding frame_sink_inv_def by (force intro: list_all2_appendI)

lemma frame_match_inv:
  assumes "frame_sink_inv drive pay with_pay acc pre k" "fs = acc @ rest"
    "arrived pay fs (pre @ ak_queue (gk_payload k))" "length (pre @ ak_queue (gk_payload k)) \<le> length acc"
  shows "\<exists>k' pre'. frame_match with_pay chk k = Inr k' \<and> frame_sink_inv drive pay with_pay acc pre' k' \<and>
    pre' @ ak_queue (gk_payload k') = pre @ ak_queue (gk_payload k) \<and> hk_ready (gk_hdr k') = hk_ready (gk_hdr k) \<and>
    gk_payload k' = (gk_payload k)\<lparr>ak_queue := ak_queue (gk_payload k')\<rparr>"
proof -
  obtain mat wait where i: "acc = mat @ wait" "list_all2 (matched drive pay with_pay) mat (gk_queue k)"
    "list_all2 (\<lambda>f h. drive f = Inr h) wait (hk_queue (gk_hdr k))" "length pre = length mat"
    using assms(1) unfolding frame_sink_inv_def by blast
  show ?thesis
  proof (cases "hk_queue (gk_hdr k) = [] \<or> ak_queue (gk_payload k) = []")
    case True
    then have "frame_match with_pay chk k = Inr k" by (auto simp: frame_match_def split: list.split)
    then show ?thesis using assms(1) by (intro exI[of _ k] exI[of _ pre]) simp
  next
    case False
    then obtain h hs p ps where q: "hk_queue (gk_hdr k) = h # hs" "ak_queue (gk_payload k) = p # ps"
      by (cases "hk_queue (gk_hdr k)"; cases "ak_queue (gk_payload k)") auto
    then obtain w ws where w: "wait = w # ws" "drive w = Inr h" "list_all2 (\<lambda>f h. drive f = Inr h) ws hs"
      using i(3) by (auto simp: list_all2_Cons2)
    have "delivered (pay (fs ! length mat)) ((pre @ p # ps) ! length mat)"
      using assms(3) i(4) unfolding arrived_def q(2) by simp
    then have "delivered (pay w) p" using i(1,4) w(1) assms(2) by (simp add: nth_append)
    then have m: "matched drive pay with_pay w (with_pay p h)" using w(2) by (auto simp: matched_def)
    let ?k = "k\<lparr>gk_hdr := (gk_hdr k)\<lparr>hk_queue := hs\<rparr>, gk_payload := (gk_payload k)\<lparr>ak_queue := ps\<rparr>,
      gk_queue := gk_queue k @ [with_pay p h]\<rparr>"
    have "length ps \<le> length hs"
      using assms(4) i(1,4) w(1) list_all2_lengthD[OF w(3)] by (simp add: q)
    then have "chk \<and> hs = [] \<longrightarrow> ps = []" by auto
    then have "frame_match with_pay chk k = Inr ?k" by (simp add: frame_match_def q)
    moreover have "frame_sink_inv drive pay with_pay acc (pre @ [p]) ?k"
      unfolding frame_sink_inv_def using i w m
      by (intro exI[of _ "mat @ [w]"] exI[of _ ws]) (simp add: list_all2_appendI)
    ultimately show ?thesis by (intro exI[of _ ?k] exI[of _ "pre @ [p]"]) (simp add: q)
  qed
qed

lemma sink_processes_inv:
  assumes "frame_sink_inv drive pay with_pay acc pre k" "fs = acc @ tk @ rest"
    and "arrived pay fs (pre @ ak_queue (gk_payload k))" "length (pre @ ak_queue (gk_payload k)) \<le> length acc"
    and "sink_step u pk w ((gk_payload k)\<lparr>ak_queue := pre @ ak_queue (gk_payload k)\<rparr>) = Inr kk"
    and "arrived pay fs (ak_queue kk)" "length (ak_queue kk) \<le> length (acc @ tk)"
    and "hdr_sink_step pk hw (gk_hdr k) = \<lparr>hk_ready = True, hk_queue = hk_queue (gk_hdr k) @ hs\<rparr>"
    and "list_all2 (\<lambda>f h. drive f = Inr h) tk hs"
  shows "\<exists>k' pre'. sink_processes with_pay chk u o2 pk hw w k = Inr k' \<and>
    frame_sink_inv drive pay with_pay (acc @ tk) pre' k' \<and> hk_ready (gk_hdr k') \<and>
    (gk_payload k')\<lparr>ak_queue := pre' @ ak_queue (gk_payload k')\<rparr> = kk"
proof (cases o2)
  case True
  obtain p where p: "sink_step u pk w (gk_payload k) = Inr p" "kk = p\<lparr>ak_queue := pre @ ak_queue p\<rparr>"
    using assms(5) unfolding sink_step_taken_before by (auto simp: bindE_Inr_iff)
  let ?k = "k\<lparr>gk_payload := p, gk_hdr := \<lparr>hk_ready = True, hk_queue = hk_queue (gk_hdr k) @ hs\<rparr>\<rparr>"
  have i: "frame_sink_inv drive pay with_pay (acc @ tk) pre ?k"
    using header_taken[OF assms(1,9)] unfolding frame_sink_inv_def by simp
  have "fs = (acc @ tk) @ rest" using assms(2) by simp
  from frame_match_inv[OF i this, of chk] obtain k' pre' where
    k: "frame_match with_pay chk ?k = Inr k'" "frame_sink_inv drive pay with_pay (acc @ tk) pre' k'"
      "pre' @ ak_queue (gk_payload k') = pre @ ak_queue p" "hk_ready (gk_hdr k')"
      "gk_payload k' = p\<lparr>ak_queue := ak_queue (gk_payload k')\<rparr>"
    using assms(6,7) p(2) by auto
  have "(gk_payload k')\<lparr>ak_queue := pre' @ ak_queue (gk_payload k')\<rparr> = kk"
    unfolding k(3) p(2) by (subst k(5)) simp
  moreover have "sink_processes with_pay chk u o2 pk hw w k = Inr k'"
    using True p(1) k(1) assms(8) by (simp add: sink_processes_def frame_sink_step_def)
  ultimately show ?thesis using k(2,4) by blast
next
  case False
  let ?k = "k\<lparr>gk_hdr := \<lparr>hk_ready = True, hk_queue = hk_queue (gk_hdr k) @ hs\<rparr>\<rparr>"
  have i: "frame_sink_inv drive pay with_pay (acc @ tk) pre ?k" by (rule header_taken[OF assms(1,9)])
  have "fs = (acc @ tk) @ rest" using assms(2) by simp
  from frame_match_inv[OF i this, of chk] obtain k' pre' where
    k: "frame_match with_pay chk ?k = Inr k'" "frame_sink_inv drive pay with_pay (acc @ tk) pre' k'"
      "pre' @ ak_queue (gk_payload k') = pre @ ak_queue (gk_payload k)" "hk_ready (gk_hdr k')"
      "gk_payload k' = (gk_payload k)\<lparr>ak_queue := ak_queue (gk_payload k')\<rparr>"
    using assms(3,4) by auto
  have "sink_step u pk w ((gk_payload k')\<lparr>ak_queue := pre' @ ak_queue (gk_payload k')\<rparr>) = Inr kk"
    using assms(5) unfolding k(3) by (subst k(5)) simp
  then obtain p where p: "sink_step u pk w (gk_payload k') = Inr p" "kk = p\<lparr>ak_queue := pre' @ ak_queue p\<rparr>"
    unfolding sink_step_taken_before by (auto simp: bindE_Inr_iff)
  have "sink_processes with_pay chk u o2 pk hw w k = Inr (k'\<lparr>gk_payload := p\<rparr>)"
    using False p(1) k(1) assms(8) by (simp add: sink_processes_def frame_sink_step_def)
  moreover have "frame_sink_inv drive pay with_pay (acc @ tk) pre' (k'\<lparr>gk_payload := p\<rparr>)"
    using k(2) unfolding frame_sink_inv_def by simp
  ultimately show ?thesis using k(4) p(2) by (intro exI[of _ "k'\<lparr>gk_payload := p\<rparr>"] exI[of _ pre']) simp
qed

section \<open>The source's two processes\<close>

lemma link_edge_parts:
  assumes "link_inv u fs n (s, w, k)" "\<forall>f \<in> set fs. axis_ok (on_bus u f)"
  shows "\<exists>s' w' k' n'. source_step u ps (ak_ready k \<and> \<not> pk) s w = Some (Inr (s', w')) \<and>
    sink_step u pk w k = Inr k' \<and> link_inv u fs n' (s', w', k')"
  using link_step[OF assms, of "(ps, pk)"]
  by (fastforce simp: pair_step_def bindE_Inr_iff split: option.splits)

lemma frame_move_up_eq:
  assumes "mv = (if fs_queue s \<noteq> [] \<and> hs_queue (fs_hdr s) = [] then [hd (fs_queue s)] else [])"
  shows "frame_move_up pay s = s\<lparr>fs_queue := drop (length mv) (fs_queue s),
    fs_hdr := (fs_hdr s)\<lparr>hs_queue := hs_queue (fs_hdr s) @ mv\<rparr>, fs_payload := fold source_send (map pay mv) (fs_payload s)\<rparr>"
  using assms by (auto simp: frame_move_up_def drop_Suc)

lemma link_sends:
  "link_inv u fs n (s, w, k) \<Longrightarrow> \<exists>n'. link_inv u (fs @ gs) n' (fold source_send gs s, w, k)"
proof (induction gs arbitrary: fs n s)
  case (Cons g gs)
  show ?case using Cons.IH[OF link_send[OF Cons.prems]] by simp
qed auto

lemma source_processes_inv:
  assumes "link_inv u F n (fs_payload s, w, kk)" "\<forall>f \<in> set (F @ map pay mv). axis_ok (on_bus u f)"
    and "hdr_source_step drive ps hready (fs_hdr s) hw = Inr (h, hw')"
    and "mv = (if fs_queue s \<noteq> [] \<and> hs_queue h = [] then [hd (fs_queue s)] else [])"
  shows "\<exists>s' w' kk' n'. source_processes drive pay u o1 ps hready (ak_ready kk \<and> \<not> pk) s hw w = Some (Inr (s', hw', w')) \<and>
    sink_step u pk w kk = Inr kk' \<and> link_inv u (F @ map pay mv) n' (fs_payload s', w', kk') \<and>
    fs_hdr s' = h\<lparr>hs_queue := hs_queue h @ mv\<rparr> \<and> fs_queue s' = drop (length mv) (fs_queue s) \<and>
    (w_valid w' \<longrightarrow> w_valid w \<and> \<not> (ak_ready kk \<and> \<not> pk) \<or> \<not> ps)"
proof (cases o1)
  case True
  have ok: "\<forall>f \<in> set F. axis_ok (on_bus u f)" using assms(2) by simp
  obtain q w' kk' n1 where q: "source_step u ps (ak_ready kk \<and> \<not> pk) (fs_payload s) w = Some (Inr (q, w'))"
    "sink_step u pk w kk = Inr kk'" "link_inv u F n1 (q, w', kk')"
    using link_edge_parts[OF assms(1) ok, of ps pk] by blast
  obtain n2 where n2: "link_inv u (F @ map pay mv) n2 (fold source_send (map pay mv) q, w', kk')"
    using link_sends[OF q(3)] by blast
  let ?s = "s\<lparr>fs_payload := q, fs_hdr := h\<rparr>"
  have mv: "frame_move_up pay ?s = ?s\<lparr>fs_queue := drop (length mv) (fs_queue s), fs_hdr := h\<lparr>hs_queue := hs_queue h @ mv\<rparr>,
      fs_payload := fold source_send (map pay mv) q\<rparr>"
    using frame_move_up_eq[of mv ?s pay] assms(4) by simp
  have "source_processes drive pay u o1 ps hready (ak_ready kk \<and> \<not> pk) s hw w = Some (Inr (frame_move_up pay ?s, hw', w'))"
    using True q(1) assms(3) by (simp add: source_processes_def frame_source_step_def)
  then show ?thesis using q(2) n2 source_step_valid[OF q(1)]
    by (intro exI[of _ "frame_move_up pay ?s"] exI[of _ w'] exI[of _ kk'] exI[of _ n2]) (auto simp: mv)
next
  case False
  let ?s = "s\<lparr>fs_hdr := h\<rparr>"
  have mv: "frame_move_up pay ?s = ?s\<lparr>fs_queue := drop (length mv) (fs_queue s), fs_hdr := h\<lparr>hs_queue := hs_queue h @ mv\<rparr>,
      fs_payload := fold source_send (map pay mv) (fs_payload s)\<rparr>"
    using frame_move_up_eq[of mv ?s pay] assms(4) by simp
  obtain n1 where n1: "link_inv u (F @ map pay mv) n1 (fs_payload (frame_move_up pay ?s), w, kk)"
    using link_sends[OF assms(1), of "map pay mv"] by (auto simp: mv)
  obtain q w' kk' n2 where q: "source_step u ps (ak_ready kk \<and> \<not> pk) (fs_payload (frame_move_up pay ?s)) w = Some (Inr (q, w'))"
    "sink_step u pk w kk = Inr kk'" "link_inv u (F @ map pay mv) n2 (q, w', kk')"
    using link_edge_parts[OF n1 assms(2), of ps pk] by blast
  have "source_processes drive pay u o1 ps hready (ak_ready kk \<and> \<not> pk) s hw w =
      Some (Inr ((frame_move_up pay ?s)\<lparr>fs_payload := q\<rparr>, hw', w'))"
    using False q(1) assms(3) by (simp add: source_processes_def frame_source_step_def)
  then show ?thesis using q(2,3) source_step_valid[OF q(1)]
    by (intro exI[of _ "(frame_move_up pay ?s)\<lparr>fs_payload := q\<rparr>"] exI[of _ w'] exI[of _ kk'] exI[of _ n2]) (auto simp: mv)
qed

section \<open>The invariant of the frame bus\<close>

definition frame_inv :: "('f \<Rightarrow> 'f result) \<Rightarrow> ('f \<Rightarrow> axis_frame) \<Rightarrow> (axis_frame \<Rightarrow> 'f \<Rightarrow> 'f) \<Rightarrow> bus \<Rightarrow> 'f list \<Rightarrow> 'f frame_link \<Rightarrow> bool" where
  "frame_inv drive pay with_pay u fs l \<longleftrightarrow> (\<exists>acc cur pre n.
     let h = fs_hdr (fl_source l); p = gk_payload (fl_sink l); ps = pre @ ak_queue p
     in fs = acc @ cur @ hs_queue h @ fs_queue (fl_source l) \<and> length (hs_queue h) \<le> 1 \<and>
       (fs_queue (fl_source l) \<noteq> [] \<longrightarrow> hs_queue h \<noteq> []) \<and>
       hdr_inv drive cur h (fl_hdr l) (hk_ready (gk_hdr (fl_sink l))) \<and>
       frame_sink_inv drive pay with_pay acc pre (fl_sink l) \<and>
       link_inv u (map pay (acc @ cur @ hs_queue h)) n (fs_payload (fl_source l), fl_data l, p\<lparr>ak_queue := ps\<rparr>) \<and>
       length ps \<le> length acc \<and>
       (length ps = length acc \<longrightarrow> ak_got p = [] \<and> (w_valid (fl_data l) \<longrightarrow> hw_valid (fl_hdr l))))"

lemma frame_invE:
  assumes "frame_inv drive pay with_pay u fs l"
  obtains acc cur pre n where
    "fs = acc @ cur @ hs_queue (fs_hdr (fl_source l)) @ fs_queue (fl_source l)"
    "length (hs_queue (fs_hdr (fl_source l))) \<le> 1"
    "fs_queue (fl_source l) \<noteq> [] \<longrightarrow> hs_queue (fs_hdr (fl_source l)) \<noteq> []"
    "hdr_inv drive cur (fs_hdr (fl_source l)) (fl_hdr l) (hk_ready (gk_hdr (fl_sink l)))"
    "frame_sink_inv drive pay with_pay acc pre (fl_sink l)"
    "link_inv u (map pay (acc @ cur @ hs_queue (fs_hdr (fl_source l)))) n (fs_payload (fl_source l), fl_data l,
       (gk_payload (fl_sink l))\<lparr>ak_queue := pre @ ak_queue (gk_payload (fl_sink l))\<rparr>)"
    "length (pre @ ak_queue (gk_payload (fl_sink l))) \<le> length acc"
    "length (pre @ ak_queue (gk_payload (fl_sink l))) = length acc \<longrightarrow>
       ak_got (gk_payload (fl_sink l)) = [] \<and> (w_valid (fl_data l) \<longrightarrow> hw_valid (fl_hdr l))"
  using assms unfolding frame_inv_def Let_def by blast

lemma arrived_link:
  assumes "link_inv u (map pay ys) n (s, w, k)" "fs = ys @ zs"
  shows "arrived pay fs (ak_queue k)"
  using link_count(1)[OF assms(1)] link_count(3)[OF assms(1)] assms(2) by (auto simp: arrived_def nth_append)

lemma frame_send_inv:
  assumes "frame_inv drive pay with_pay u fs l"
  shows "frame_inv drive pay with_pay u (fs @ [cp f]) (l\<lparr>fl_source := frame_send cp pay f (fl_source l)\<rparr>)"
proof -
  obtain acc cur pre n where i: "fs = acc @ cur @ hs_queue (fs_hdr (fl_source l)) @ fs_queue (fl_source l)"
    "length (hs_queue (fs_hdr (fl_source l))) \<le> 1"
    "fs_queue (fl_source l) \<noteq> [] \<longrightarrow> hs_queue (fs_hdr (fl_source l)) \<noteq> []"
    "hdr_inv drive cur (fs_hdr (fl_source l)) (fl_hdr l) (hk_ready (gk_hdr (fl_sink l)))"
    "frame_sink_inv drive pay with_pay acc pre (fl_sink l)"
    "link_inv u (map pay (acc @ cur @ hs_queue (fs_hdr (fl_source l)))) n (fs_payload (fl_source l), fl_data l,
       (gk_payload (fl_sink l))\<lparr>ak_queue := pre @ ak_queue (gk_payload (fl_sink l))\<rparr>)"
    "length (pre @ ak_queue (gk_payload (fl_sink l))) \<le> length acc"
    "length (pre @ ak_queue (gk_payload (fl_sink l))) = length acc \<longrightarrow>
       ak_got (gk_payload (fl_sink l)) = [] \<and> (w_valid (fl_data l) \<longrightarrow> hw_valid (fl_hdr l))"
    using assms by (rule frame_invE)
  show ?thesis
  proof (cases "hs_queue (fs_hdr (fl_source l)) = []")
    case True
    have "link_inv u (map pay (acc @ cur @ [cp f])) (n + length (sent_beats u (pay (cp f))))
        (source_send (pay (cp f)) (fs_payload (fl_source l)), fl_data l,
         (gk_payload (fl_sink l))\<lparr>ak_queue := pre @ ak_queue (gk_payload (fl_sink l))\<rparr>)"
      using link_send[OF i(6), of "pay (cp f)"] True by simp
    then show ?thesis using i True unfolding frame_inv_def frame_send_def Let_def
      by (intro exI[of _ acc] exI[of _ cur] exI[of _ pre] exI[of _ "n + length (sent_beats u (pay (cp f)))"])
         (simp add: hdr_inv_def)
  next
    case False
    then show ?thesis using i unfolding frame_inv_def frame_send_def Let_def
      by (intro exI[of _ acc] exI[of _ cur] exI[of _ pre] exI[of _ n]) simp
  qed
qed

lemma link_edge_inv:
  assumes "frame_inv drive pay with_pay u fs l" "\<forall>f \<in> set fs. axis_ok (on_bus u (pay f)) \<and> (\<exists>h. drive f = Inr h)"
  shows "\<exists>l'. link_edge drive pay with_pay chk u ps pk o1 o2 l = Some (Inr l') \<and> frame_inv drive pay with_pay u fs l'"
proof -
  let ?s = "fl_source l" and ?k = "fl_sink l" and ?hw = "fl_hdr l" and ?w = "fl_data l"
  let ?h = "fs_hdr ?s" and ?p = "gk_payload ?k"
  obtain acc cur pre n where i: "fs = acc @ cur @ hs_queue ?h @ fs_queue ?s"
    "length (hs_queue ?h) \<le> 1" "fs_queue ?s \<noteq> [] \<longrightarrow> hs_queue ?h \<noteq> []"
    "hdr_inv drive cur ?h ?hw (hk_ready (gk_hdr ?k))"
    "frame_sink_inv drive pay with_pay acc pre ?k"
    "link_inv u (map pay (acc @ cur @ hs_queue ?h)) n (fs_payload ?s, ?w, ?p\<lparr>ak_queue := pre @ ak_queue ?p\<rparr>)"
    "length (pre @ ak_queue ?p) \<le> length acc"
    "length (pre @ ak_queue ?p) = length acc \<longrightarrow> ak_got ?p = [] \<and> (w_valid ?w \<longrightarrow> hw_valid ?hw)"
    using assms(1) by (rule frame_invE)
  have "\<forall>f \<in> set (hs_queue ?h). \<exists>h. drive f = Inr h" using assms(2) i(1) by auto
  from hdr_step_inv[OF i(4) this, of ps pk] obtain h' hw' cur' tk hs where
    h: "hdr_source_step drive ps (hk_ready (gk_hdr ?k) \<and> \<not> pk) ?h ?hw = Inr (h', hw')"
      "hdr_inv drive cur' h' hw' True" "tk @ cur' @ hs_queue h' = cur @ hs_queue ?h"
      "tk = (if hw_valid ?hw \<and> \<not> pk then cur else [])"
      "hdr_sink_step pk ?hw (gk_hdr ?k) = \<lparr>hk_ready = True, hk_queue = hk_queue (gk_hdr ?k) @ hs\<rparr>"
      "list_all2 (\<lambda>f h. drive f = Inr h) tk hs" "length (hs_queue h') \<le> length (hs_queue ?h)"
      "hs_queue h' \<noteq> [] \<longrightarrow> cur' \<noteq> []" "cur' \<noteq> [] \<and> \<not> ps \<longrightarrow> hw_valid hw'" "hw_valid ?hw \<and> pk \<longrightarrow> hw_valid hw'"
    by blast
  define mv where "mv = (if fs_queue ?s \<noteq> [] \<and> hs_queue h' = [] then [hd (fs_queue ?s)] else [])"
  have mv: "mv @ drop (length mv) (fs_queue ?s) = fs_queue ?s" by (cases "fs_queue ?s") (simp_all add: mv_def)
  let ?F = "map pay (acc @ cur @ hs_queue ?h)"
  have fs: "fs = (acc @ tk) @ cur' @ (hs_queue h' @ mv) @ drop (length mv) (fs_queue ?s)"
    using i(1) h(3) mv by (metis append.assoc)
  have F: "?F @ map pay mv = map pay ((acc @ tk) @ cur' @ hs_queue h' @ mv)" using h(3) by (metis append.assoc map_append)
  have "set ((acc @ tk) @ cur' @ hs_queue h' @ mv) \<subseteq> set fs" unfolding fs by auto
  then have ok: "\<forall>f \<in> set (?F @ map pay mv). axis_ok (on_bus u f)" unfolding F using assms(2) by auto
  let ?kk = "?p\<lparr>ak_queue := pre @ ak_queue ?p\<rparr>"
  obtain s' w' kk' n' where p: "source_processes drive pay u o1 ps (hk_ready (gk_hdr ?k) \<and> \<not> pk) (ak_ready ?kk \<and> \<not> pk) ?s ?hw ?w =
      Some (Inr (s', hw', w'))" "sink_step u pk ?w ?kk = Inr kk'" "link_inv u (?F @ map pay mv) n' (fs_payload s', w', kk')"
      "fs_hdr s' = h'\<lparr>hs_queue := hs_queue h' @ mv\<rparr>" "fs_queue s' = drop (length mv) (fs_queue ?s)"
      "w_valid w' \<longrightarrow> w_valid ?w \<and> \<not> (ak_ready ?kk \<and> \<not> pk) \<or> \<not> ps"
    using source_processes_inv[OF i(6) ok h(1) mv_def, of o1 pk] by blast
  have T: "ak_queue ?kk = pre @ ak_queue ?p" "ak_got ?kk = ak_got ?p" "ak_ready ?kk = ak_ready ?p" by simp_all
  note eff = sink_step_effect[OF p(2), unfolded T]
  have ready: "w_valid ?w \<longrightarrow> ak_ready ?p" using link_count(4)[OF i(6)] by simp
  have act: "hw_valid ?hw \<Longrightarrow> cur \<noteq> []" using i(4) by (auto simp: hdr_inv_def split: if_splits)
  have both: "tk \<noteq> []" if "w_valid ?w" "\<not> pk" "length (pre @ ak_queue ?p) = length acc"
    using that i(8) h(4) act by auto
  have len: "length (ak_queue kk') \<le> length (acc @ tk)"
  proof (cases "ak_queue kk' = pre @ ak_queue ?p")
    case False
    then have e: "w_valid ?w" "\<not> pk" "length (ak_queue kk') = Suc (length (pre @ ak_queue ?p))" using eff(3) by auto
    show ?thesis
    proof (cases "length (pre @ ak_queue ?p) = length acc")
      case True
      then show ?thesis using both e by (cases tk) simp_all
    qed (use i(7) e(3) in linarith | use i(7) e(3) in simp)+
  qed (use i(7) in simp)
  have sync: "ak_got kk' = [] \<and> (w_valid w' \<longrightarrow> hw_valid hw')" if eq: "length (ak_queue kk') = length (acc @ tk)"
  proof (intro conjI impI)
    show "ak_got kk' = []"
    proof (cases "ak_queue kk' = pre @ ak_queue ?p")
      case True
      then have "length (pre @ ak_queue ?p) = length acc" "tk = []" using eq i(7) by (cases tk; simp)+
      then show ?thesis using both eff(2) i(8) by auto
    qed (use eff(3) in auto)
    assume v: "w_valid w'"
    have "length (ak_queue kk') < length (map pay ((acc @ tk) @ cur' @ hs_queue h' @ mv))"
      using link_count(2)[OF p(3)[unfolded F] v] by simp
    then have ne: "cur' @ hs_queue h' @ mv \<noteq> []" using eq by auto
    have c: "cur' \<noteq> []"
    proof
      assume e: "cur' = []"
      then have "hs_queue h' = []" "mv \<noteq> []" using h(8) ne by auto
      then have "hs_queue ?h \<noteq> []" using i(3) by (auto simp: mv_def split: if_splits)
      moreover have "tk = cur @ hs_queue ?h" using h(3) e \<open>hs_queue h' = []\<close> by simp
      ultimately show False using h(4) by (auto split: if_splits)
    qed
    show "hw_valid hw'"
    proof (cases ps)
      case False
      then show ?thesis using c h(9) by simp
    next
      case True
      then have wv: "w_valid ?w" "pk" using p(6) v ready by auto
      then have "ak_queue kk' = pre @ ak_queue ?p" "tk = []" using eff(2) h(4) by auto
      then have "hw_valid ?hw" using eq i(8) wv(1) by simp
      then show ?thesis using h(10) wv(2) by simp
    qed
  qed
  have arr: "arrived pay fs (pre @ ak_queue ?p)" "arrived pay fs (ak_queue kk')"
    using arrived_link[OF i(6), of fs "fs_queue ?s"] arrived_link[OF p(3)[unfolded F], of fs "drop (length mv) (fs_queue ?s)"] i(1) fs
    by simp_all
  have fs': "fs = acc @ tk @ (cur' @ (hs_queue h' @ mv) @ drop (length mv) (fs_queue ?s))" using fs by simp
  obtain k' pre' where k: "sink_processes with_pay chk u o2 pk ?hw ?w ?k = Inr k'"
    "frame_sink_inv drive pay with_pay (acc @ tk) pre' k'" "hk_ready (gk_hdr k')"
    "(gk_payload k')\<lparr>ak_queue := pre' @ ak_queue (gk_payload k')\<rparr> = kk'"
    using sink_processes_inv[OF i(5) fs' arr(1) i(7) p(2) arr(2) len h(5,6), of chk o2] by blast
  have q: "pre' @ ak_queue (gk_payload k') = ak_queue kk'" "ak_got (gk_payload k') = ak_got kk'"
    using arg_cong[OF k(4), of ak_queue] arg_cong[OF k(4), of ak_got] by simp_all
  let ?l = "\<lparr>fl_source = s', fl_hdr = hw', fl_data = w', fl_sink = k'\<rparr>"
  have "link_edge drive pay with_pay chk u ps pk o1 o2 l = Some (Inr ?l)"
    using p(1) k(1) by (simp add: link_edge_def)
  moreover have "frame_inv drive pay with_pay u fs ?l"
    unfolding frame_inv_def Let_def
  proof (intro exI conjI)
    show "fs = (acc @ tk) @ cur' @ hs_queue (fs_hdr (fl_source ?l)) @ fs_queue (fl_source ?l)" using fs p(4,5) by simp
    show "length (hs_queue (fs_hdr (fl_source ?l))) \<le> 1" using p(4) i(2) h(7) by (auto simp: mv_def)
    show "fs_queue (fl_source ?l) \<noteq> [] \<longrightarrow> hs_queue (fs_hdr (fl_source ?l)) \<noteq> []" using p(4,5) by (auto simp: mv_def)
    show "hdr_inv drive cur' (fs_hdr (fl_source ?l)) (fl_hdr ?l) (hk_ready (gk_hdr (fl_sink ?l)))"
      using h(2) p(4) k(3) by (simp add: hdr_inv_def)
    show "frame_sink_inv drive pay with_pay (acc @ tk) pre' (fl_sink ?l)" using k(2) by simp
    show "link_inv u (map pay ((acc @ tk) @ cur' @ hs_queue (fs_hdr (fl_source ?l)))) n' (fs_payload (fl_source ?l), fl_data ?l,
        (gk_payload (fl_sink ?l))\<lparr>ak_queue := pre' @ ak_queue (gk_payload (fl_sink ?l))\<rparr>)"
      using p(3)[unfolded F] p(4) k(4) by simp
    show "length (pre' @ ak_queue (gk_payload (fl_sink ?l))) \<le> length (acc @ tk)" using len q by simp
    show "length (pre' @ ak_queue (gk_payload (fl_sink ?l))) = length (acc @ tk) \<longrightarrow>
       ak_got (gk_payload (fl_sink ?l)) = [] \<and> (w_valid (fl_data ?l) \<longrightarrow> hw_valid (fl_hdr ?l))" using sync q by simp
  qed
  ultimately show ?thesis by blast
qed

lemma frame_run_inv:
  "frame_inv drive pay with_pay u fs l \<Longrightarrow>
   \<forall>f \<in> set (fs @ map cp (sent_of as)). axis_ok (on_bus u (pay f)) \<and> (\<exists>h. drive f = Inr h) \<Longrightarrow>
   \<exists>l'. link_run cp drive pay with_pay chk u as l = Some (Inr l') \<and> frame_inv drive pay with_pay u (fs @ map cp (sent_of as)) l'"
proof (induction as arbitrary: fs l)
  case (Cons a as)
  show ?case
  proof (cases a)
    case (Send f)
    then show ?thesis using Cons.IH[OF frame_send_inv[OF Cons.prems(1), of cp f]] Cons.prems(2) by simp
  next
    case (Edge ps pk o1 o2)
    obtain l1 where l1: "link_edge drive pay with_pay chk u ps pk o1 o2 l = Some (Inr l1)" "frame_inv drive pay with_pay u fs l1"
      using link_edge_inv[OF Cons.prems(1)] Cons.prems(2) by (metis UnCI set_append)
    then show ?thesis using Cons.IH[OF l1(2)] Cons.prems(2) Edge by simp
  qed
qed simp

lemma frame_init_inv: "frame_inv drive pay with_pay u [] (link_init blank)"
  unfolding frame_inv_def Let_def
  by (intro exI[of _ "[]"] exI[of _ "[]"] exI[of _ "[]"] exI[of _ 0])
     (simp add: link_init_def hdr_inv_def frame_sink_inv_def link_inv_def source_inv_def sink_init_def source_reset_def source_init_def)

section \<open>Interface: a kind of frame\<close>

text \<open>What the bus needs of a frame class: the copy that \<open>send\<close> makes keeps the payload bytes, a
  received frame has the bytes of the payload it was given, and the driven header is the header of
  the frame.\<close>

locale frame_kind =
  fixes cp :: "'f \<Rightarrow> 'f"
    and drive :: "'f \<Rightarrow> 'f result"
    and pay :: "'f \<Rightarrow> axis_frame"
    and with_pay :: "axis_frame \<Rightarrow> 'f \<Rightarrow> 'f"
    and same_hdr :: "'f \<Rightarrow> 'f \<Rightarrow> bool"
  assumes cp_data: "af_data (pay (cp f)) = af_data (pay f)"
    and with_data: "af_data (pay (with_pay p h)) = af_data p"
    and drive_hdr: "drive (cp f) = Inr h \<Longrightarrow> same_hdr f (with_pay p h)"
begin

lemma run_safe:
  assumes "\<forall>f \<in> set (sent_of as). axis_ok (on_bus u (pay (cp f))) \<and> (\<exists>h. drive (cp f) = Inr h)"
  shows "\<exists>l past rest. link_run cp drive pay with_pay chk u as (link_init blank) = Some (Inr l) \<and> sent_of as = past @ rest \<and>
    list_all2 (\<lambda>f g. same_hdr f g \<and> af_data (pay g) = af_data (pay f)) past (gk_queue (fl_sink l))"
proof -
  obtain l where l: "link_run cp drive pay with_pay chk u as (link_init blank) = Some (Inr l)"
    "frame_inv drive pay with_pay u (map cp (sent_of as)) l"
    using frame_run_inv[OF frame_init_inv, of cp as u pay drive with_pay chk blank] assms by auto
  obtain acc cur pre n where acc: "map cp (sent_of as) = acc @ cur @ hs_queue (fs_hdr (fl_source l)) @ fs_queue (fl_source l)"
    "frame_sink_inv drive pay with_pay acc pre (fl_sink l)" using l(2) by (rule frame_invE)
  then obtain mat wait where m: "acc = mat @ wait" "list_all2 (matched drive pay with_pay) mat (gk_queue (fl_sink l))"
    unfolding frame_sink_inv_def by blast
  let ?past = "take (length mat) (sent_of as)"
  have "mat = map cp ?past" using arg_cong[OF acc(1), of "take (length mat)"] m(1) by (simp add: take_map)
  then have "list_all2 (\<lambda>f g. matched drive pay with_pay (cp f) g) ?past (gk_queue (fl_sink l))"
    using m(2) by (metis list_all2_map1)
  then have "list_all2 (\<lambda>f g. same_hdr f g \<and> af_data (pay g) = af_data (pay f)) ?past (gk_queue (fl_sink l))"
    by (rule list_all2_mono) (auto simp: matched_def delivered_def with_data cp_data drive_hdr)
  then show ?thesis using l(1) by (intro exI[of _ l] exI[of _ ?past] exI[of _ "drop (length mat) (sent_of as)"]) simp
qed

end

section \<open>The frame classes\<close>

definition eth_same_hdr :: "'a eth_hdr_scheme \<Rightarrow> 'b eth_hdr_scheme \<Rightarrow> bool" where
  "eth_same_hdr f g \<longleftrightarrow> eth_dest_mac g = eth_dest_mac f \<and> eth_src_mac g = eth_src_mac f \<and> eth_type g = eth_type f"

text \<open>The header a datagram is sent with: the one \<open>build\<close> completes.\<close>

definition ip_same_hdr :: "ip_frame \<Rightarrow> ip_frame \<Rightarrow> bool" where
  "ip_same_hdr f g \<longleftrightarrow> (\<exists>b. ip_build (ip_copy f) = Inr b \<and> ip_hdr_eq b g)"

definition udp_same_hdr :: "udp_frame \<Rightarrow> udp_frame \<Rightarrow> bool" where
  "udp_same_hdr f g \<longleftrightarrow> (\<exists>b. udp_build (udp_copy f) = Inr b \<and> ip_hdr_eq b g \<and>
     udp_source_port g = udp_source_port b \<and> udp_dest_port g = udp_dest_port b \<and>
     udp_length g = udp_length b \<and> udp_checksum g = udp_checksum b)"

interpretation ethk: frame_kind eth_copy eth_drive eth_payload eth_with_payload eth_same_hdr
  by unfold_locales (auto simp: eth_copy_def eth_with_payload_def eth_drive_def eth_same_hdr_def copy_eth_def split: if_splits)

interpretation ipk: frame_kind ip_copy ip_drive ip_payload ip_with_payload ip_same_hdr
  by unfold_locales (auto simp: ip_copy_def ip_with_payload_def ip_drive_def ip_same_hdr_def copy_ip_def ip_hdr_eq_def
      bindE_Inr_iff split: if_splits)

interpretation udpk: frame_kind udp_copy udp_drive udp_payload udp_with_payload udp_same_hdr
  by unfold_locales (auto simp: udp_copy_def udp_with_payload_def udp_drive_def udp_same_hdr_def copy_udp_def copy_ip_def
      ip_hdr_eq_def bindE_Inr_iff split: if_splits)

lemma drive_ok:
  assumes "udp_frame_ok f d"
  shows "\<exists>h. udp_drive (udp_copy f) = Inr h"
proof -
  have "udp_frame_ok (udp_copy f) d"
    using assms by (simp add: udp_frame_ok_def udp_copy_def ip_fields_ok_def eth_ok_def plain_def axis_copy_def)
  then obtain cu ci where b: "udp_build (udp_copy f) = Inr ((udp_copy f)\<lparr>udp_length := Some (int (length d) + 8), udp_checksum := Some cu,
      ip_length := Some (int (length d) + 28), ip_header_checksum := Some ci\<rparr>)" "fits 16 cu" "fits 16 ci"
    using udp_build_ok by blast
  then show ?thesis
    using assms by (simp add: udp_drive_def opt_fits_def udp_frame_ok_def udp_copy_def ip_fields_ok_def eth_ok_def fits_def)
qed

text \<open>The ARP bus is safe. Whatever frames that fit their signals are sent, at
  whatever times, and in whatever cycles either side is paused, nothing raises and the frames the
  sink has received are a prefix of the frames sent, each once and in order.\<close>

theorem arp_link_safe:
  assumes "\<forall>f \<in> set (sent_of as). arp_fields_ok f"
  shows "\<exists>s w k rest. run_acts arp_act as arp_init = Inr (s, w, k) \<and> sent_of as = hk_queue k @ rest"
proof -
  have "arp_inv [] arp_init" by (simp add: arp_inv_def arp_init_def hdr_inv_def)
  then obtain st where "run_acts arp_act as arp_init = Inr st" "arp_inv (sent_of as) st"
    using arp_run_inv[of "[]" arp_init as] assms by auto
  then show ?thesis by (cases st) (auto simp: arp_inv_def)
qed

text \<open>The Ethernet frame bus pairs headers with payloads. Frames may be sent at any
  time, source and sink may be paused in any cycle, and the processes that share the queues may
  run in any order at each edge: nothing raises, and the frames the sink has received are a prefix
  of those sent, each with its own header and the bytes of its own payload, in order.\<close>

theorem eth_link_safe:
  assumes "\<forall>f \<in> set (sent_of as). eth_ok f \<and> axis_ok (on_bus u (eth_payload (eth_copy f)))"
  shows "\<exists>l past rest. eth_link_run u as (link_init eth_frame_init) = Some (Inr l) \<and> sent_of as = past @ rest \<and>
    list_all2 (\<lambda>f g. eth_same_hdr f g \<and> af_data (eth_payload g) = af_data (eth_payload f)) past (gk_queue (fl_sink l))"
  unfolding eth_link_run_def
  using assms by (intro ethk.run_safe) (auto simp: eth_drive_def eth_copy_def eth_ok_def)

text \<open>Property C20: the UDP frame bus pairs headers with payloads, and its assertion that no payload
  is left over when the headers have run out never fails, whatever the times of the sends, the
  pauses and the order of the processes. The received datagrams are a prefix of those sent, with
  the lengths and checksums that \<open>build\<close> filled in.\<close>

theorem udp_link_safe:
  assumes "\<forall>f \<in> set (sent_of as). (\<exists>d. udp_frame_ok f d) \<and> axis_ok (on_bus u (udp_payload (udp_copy f)))"
  shows "\<exists>l past rest. udp_link_run u as (link_init udp_frame_init) = Some (Inr l) \<and> sent_of as = past @ rest \<and>
    list_all2 (\<lambda>f g. udp_same_hdr f g \<and> af_data (udp_payload g) = af_data (udp_payload f)) past (gk_queue (fl_sink l))"
  unfolding udp_link_run_def
  using assms drive_ok by (intro udpk.run_safe) blast

text \<open>The same for IP.\<close>

lemma ip_link_safe:
  assumes "\<forall>f \<in> set (sent_of as). (\<exists>h. ip_drive (ip_copy f) = Inr h) \<and> axis_ok (on_bus u (ip_payload (ip_copy f)))"
  shows "\<exists>l past rest. ip_link_run u as (link_init ip_frame_init) = Some (Inr l) \<and> sent_of as = past @ rest \<and>
    list_all2 (\<lambda>f g. ip_same_hdr f g \<and> af_data (ip_payload g) = af_data (ip_payload f)) past (gk_queue (fl_sink l))"
  unfolding ip_link_run_def
  using assms by (intro ipk.run_safe) blast

section \<open>Witnesses\<close>

theorem arp_link_safe_witness:
  "\<exists>s w k rest. run_acts arp_act [Send arp_frame_init, Edge False False True True, Edge True False True False] arp_init = Inr (s, w, k) \<and>
     [arp_frame_init] = hk_queue k @ rest"
proof -
  have "\<forall>f \<in> set (sent_of [Send arp_frame_init, Edge False False True True, Edge True False True False]). arp_fields_ok f"
    by (simp add: arp_fields_ok_def arp_frame_init_def eth_ok_def fits_def)
  from arp_link_safe[OF this] show ?thesis by simp
qed

definition demo_eth :: eth_frame where
  "demo_eth = eth_new [1, 2, 3] 7 8 0x0800"

theorem eth_link_safe_witness:
  "\<exists>l past rest. eth_link_run demo_bus [Send demo_eth, Edge False False True True, Send demo_eth, Edge False True False True]
      (link_init eth_frame_init) = Some (Inr l) \<and> [demo_eth, demo_eth] = past @ rest \<and>
    list_all2 (\<lambda>f g. eth_same_hdr f g \<and> af_data (eth_payload g) = af_data (eth_payload f)) past (gk_queue (fl_sink l))"
proof -
  have "\<forall>f \<in> set (sent_of [Send demo_eth, Edge False False True True, Send demo_eth, Edge False True False True]).
      eth_ok f \<and> axis_ok (on_bus demo_bus (eth_payload (eth_copy f)))"
    by (simp add: demo_eth_def eth_new_def eth_ok_def fits_def eth_copy_def plain_def axis_ok_def axis_bytes_def axis_of_data_def
        on_bus_def bus_WL_def demo_bus_def axis_copy_def Let_def)
  from eth_link_safe[OF this] show ?thesis by simp
qed

theorem udp_link_safe_witness:
  "\<exists>l past rest. udp_link_run demo_bus [Send demo_udp, Edge False False True False, Edge False False False True]
      (link_init udp_frame_init) = Some (Inr l) \<and> [demo_udp] = past @ rest \<and>
    list_all2 (\<lambda>f g. udp_same_hdr f g \<and> af_data (udp_payload g) = af_data (udp_payload f)) past (gk_queue (fl_sink l))"
proof -
  have "axis_ok (on_bus demo_bus (udp_payload (udp_copy demo_udp)))"
    by (simp add: demo_udp_def udp_frame_init_def fits_def udp_copy_def plain_def axis_ok_def axis_bytes_def axis_of_data_def
        on_bus_def bus_WL_def demo_bus_def axis_copy_def Let_def)
  then have "\<forall>f \<in> set (sent_of [Send demo_udp, Edge False False True False, Edge False False False True]).
      (\<exists>d. udp_frame_ok f d) \<and> axis_ok (on_bus demo_bus (udp_payload (udp_copy f)))"
    using demo_frames_fit(1) by auto
  from udp_link_safe[OF this] show ?thesis by simp
qed

end
