(* ===== verification/NicRing.thy ===== *)
theory NicRing
  imports PcieHost
begin

text \<open>
  The rings of the NIC driver model \<open>fpga/common/tb/mqnic.py\<close>: event queues, completion
  queues, and the transmit and receive queues of descriptors, with their set-up, activation
  and pointers, the pool of packet buffers of \<open>Driver\<close>, the writing of descriptors and the
  clean-up of a queue. The root complex below the driver is seen through the record
  \<open>nic_bus\<close>: register accesses, during which the device works, and buffers in host memory,
  which are addressed by the number of their region. A buffer is a pair of its bus address and
  that number, as \<open>alloc_region\<close> returns it. Pointers are Python's unbounded integers, of
  which the device keeps 16 bits.
\<close>

unbundle bit_operations_syntax

section \<open>The host below the driver\<close>

record 's nic_bus =
  nb_read :: "int \<Rightarrow> 's \<Rightarrow> (int \<times> 's) result option"
  nb_write :: "int \<Rightarrow> int \<Rightarrow> 's \<Rightarrow> 's result"
  nb_alloc :: "int \<Rightarrow> 's \<Rightarrow> (int \<times> nat \<times> 's) result"
  nb_mem :: "'s \<Rightarrow> nat \<Rightarrow> bytes"
  nb_set_mem :: "nat \<Rightarrow> bytes \<Rightarrow> 's \<Rightarrow> 's"
  nb_register :: "pcie_id \<Rightarrow> nat \<Rightarrow> int \<Rightarrow> 's \<Rightarrow> 's"
  nb_calls :: "'s \<Rightarrow> nat list"
  nb_bar0 :: "pcie_id \<Rightarrow> 's \<Rightarrow> int result"
  nb_cfg_read :: "pcie_id \<Rightarrow> int \<Rightarrow> 's \<Rightarrow> (int \<times> 's) result"
  nb_cfg_write :: "pcie_id \<Rightarrow> int \<Rightarrow> int \<Rightarrow> 's \<Rightarrow> 's result"
  nb_configure_msi :: "pcie_id \<Rightarrow> 's \<Rightarrow> 's result"

definition region_bytes :: "rc_region list \<Rightarrow> nat \<Rightarrow> bytes" where
  "region_bytes rs h = (if h < length rs then (case rs ! h of RcMem a sz mem \<Rightarrow> mem | _ \<Rightarrow> []) else [])"

definition set_region_bytes :: "nat \<Rightarrow> bytes \<Rightarrow> rc_region list \<Rightarrow> rc_region list" where
  "set_region_bytes h d rs =
     (if h < length rs then (case rs ! h of RcMem a sz mem \<Rightarrow> rs[h := RcMem a sz d] | _ \<Rightarrow> rs) else rs)"

text \<open>The bus of a root complex over a fabric. An interrupt callback that runs is forked; the
  root complex records it by its number.\<close>

definition rc_bus ::
  "(int \<Rightarrow> nat) \<Rightarrow> 'a user_callback \<Rightarrow> 'e fabric \<Rightarrow> ('a, 'e) host nic_bus" where
  "rc_bus lg ucb F =
     \<lparr>nb_read = (\<lambda>addr s. rc_mem_read_dword ucb F 0 0 addr s),
      nb_write = (\<lambda>addr v s. rc_mem_write_dword ucb F 0 0 addr v s),
      nb_alloc = (\<lambda>sz s. bindE (alloc_region lg sz None (fst s)) (\<lambda>(a, r).
        Inr (a, length (rc_regions (fst s)), (r, snd s)))),
      nb_mem = (\<lambda>s. region_bytes (rc_regions (fst s))),
      nb_set_mem = (\<lambda>h d s. ((fst s)\<lparr>rc_regions := set_region_bytes h d (rc_regions (fst s))\<rparr>, snd s)),
      nb_register = (\<lambda>dev cb number s. (msi_register_callback dev cb number (fst s), snd s)),
      nb_calls = (\<lambda>s. rc_called (fst s)),
      nb_bar0 = (\<lambda>dev s. case find_dev dev (host_tree s) of None \<Rightarrow> Inl AttributeError | Some ti \<Rightarrow>
        (case ti_bar ti of [] \<Rightarrow> Inl IndexError | b # _ \<Rightarrow> (case b of None \<Rightarrow> Inl TypeError | Some x \<Rightarrow> Inr x))),
      nb_cfg_read = (\<lambda>dev addr s. config_read_word (rc_master ucb F) dev addr s),
      nb_cfg_write = (\<lambda>dev addr v s. config_write_word (rc_master ucb F) dev addr v s),
      nb_configure_msi = (\<lambda>dev s. bindE (configure_msi lg ucb F dev s) (\<lambda>(_, s1). Inr s1))\<rparr>"

fun reg_writes :: "'s nic_bus \<Rightarrow> (int \<times> int) list \<Rightarrow> 's \<Rightarrow> 's result" where
  "reg_writes B [] s = Inr s"
| "reg_writes B ((a, v) # ws) s = bindE (nb_write B a v s) (reg_writes B ws)"

fun reg_reads :: "'s nic_bus \<Rightarrow> int list \<Rightarrow> 's \<Rightarrow> (int list \<times> 's) result option" where
  "reg_reads B [] s = Some (Inr ([], s))"
| "reg_reads B (a # as) s =
     bindO (nb_read B a s) (\<lambda>(v, s1). bindO (reg_reads B as s1) (\<lambda>(vs, s2). Some (Inr (v # vs, s2))))"

section \<open>Packing and buffers\<close>

definition pack_le :: "nat \<Rightarrow> int \<Rightarrow> bytes result" where
  "pack_le n x = (if fits (8 * n) x then Inr (to_le n x) else Inl StructError)"

text \<open>\<open>struct.pack_into\<close> and \<open>struct.unpack_from\<close> at an offset of a buffer.\<close>

definition pack_into :: "bytes \<Rightarrow> int \<Rightarrow> bytes \<Rightarrow> bytes result" where
  "pack_into mem off d =
     (if 0 \<le> off \<and> nat off + length d \<le> length mem then Inr (splice mem (nat off) d) else Inl StructError)"

definition unpack_from :: "bytes \<Rightarrow> int \<Rightarrow> nat \<Rightarrow> bytes result" where
  "unpack_from mem off n =
     (if 0 \<le> off \<and> nat off + n \<le> length mem then Inr (slice mem (nat off) (nat off + n)) else Inl StructError)"

definition field :: "bytes \<Rightarrow> nat \<Rightarrow> nat \<Rightarrow> int" where
  "field d off n = from_le (slice d off (off + n))"

definition py_set :: "'a list \<Rightarrow> nat \<Rightarrow> 'a \<Rightarrow> 'a list result" where
  "py_set xs i x = (if i < length xs then Inr (xs[i := x]) else Inl IndexError)"

section \<open>Event and completion queues\<close>

record cring =
  cr_log_size :: nat
  cr_stride :: int
  cr_index :: int
  cr_interrupt_index :: int
  cr_ring_index :: int
  cr_head :: int
  cr_tail :: int
  cr_hw_addr :: int
  cr_dma :: int
  cr_buf :: nat

definition cr_size :: "cring \<Rightarrow> int" where
  "cr_size r = 2 ^ cr_log_size r"

definition cr_mask :: "cring \<Rightarrow> int" where
  "cr_mask r = cr_size r - 1"

definition eq_new :: "nat \<Rightarrow> int \<Rightarrow> int \<Rightarrow> int \<Rightarrow> cring" where
  "eq_new sz stride index hw_addr =
     \<lparr>cr_log_size = bit_length sz - 1, cr_stride = stride, cr_index = index,
      cr_interrupt_index = 0, cr_ring_index = 0, cr_head = 0, cr_tail = 0, cr_hw_addr = hw_addr,
      cr_dma = 0, cr_buf = 0\<rparr>"

definition cq_new :: "nat \<Rightarrow> int \<Rightarrow> int \<Rightarrow> int \<Rightarrow> cring" where
  "cq_new sz stride index hw_addr =
     \<lparr>cr_log_size = bit_length sz - 1, cr_stride = stride, cr_index = index,
      cr_interrupt_index = 0, cr_ring_index = 0, cr_head = 0, cr_tail = 0, cr_hw_addr = hw_addr,
      cr_dma = 0, cr_buf = 0\<rparr>"

text \<open>The seven register writes of \<open>init\<close> and \<open>activate\<close>, in order; the three kinds of
  queue lay out their registers alike. The queue is switched off first and its control word
  is written last.\<close>

definition ring_regs :: "int \<Rightarrow> int \<Rightarrow> int \<Rightarrow> int \<Rightarrow> int \<Rightarrow> int \<Rightarrow> (int \<times> int) list" where
  "ring_regs hw dma index head tail control =
     [(hw + 0x08, 0),
      (hw + 0x00, dma AND 0xffffffff),
      (hw + 0x00 + 4, drop_bit 32 dma),
      (hw + 0x0c, index),
      (hw + 0x10, head AND 0xffff),
      (hw + 0x18, tail AND 0xffff),
      (hw + 0x08, control)]"

definition eq_init :: "'s nic_bus \<Rightarrow> cring \<Rightarrow> 's \<Rightarrow> (cring \<times> 's) result" where
  "eq_init B r s =
     bindE (nb_alloc B (cr_size r * cr_stride r) s) (\<lambda>(dma, h, s1).
     bindE (reg_writes B (ring_regs (cr_hw_addr r) dma 0 (cr_head r) (cr_tail r) (int (cr_log_size r))) s1)
       (\<lambda>s2. Inr (r\<lparr>cr_dma := dma, cr_buf := h\<rparr>, s2)))"

definition eq_activate :: "'s nic_bus \<Rightarrow> cring \<Rightarrow> int \<Rightarrow> 's \<Rightarrow> (cring \<times> 's) result" where
  "eq_activate B r int_index s =
     bindE (reg_writes B (ring_regs (cr_hw_addr r) (cr_dma r) int_index (cr_head r) (cr_tail r)
       (int (cr_log_size r) OR 0x80000000)) s)
       (\<lambda>s1. Inr (r\<lparr>cr_interrupt_index := int_index\<rparr>, s1))"

definition eq_deactivate :: "'s nic_bus \<Rightarrow> cring \<Rightarrow> 's \<Rightarrow> 's result" where
  "eq_deactivate B r s =
     reg_writes B [(cr_hw_addr r + 0x08, int (cr_log_size r)), (cr_hw_addr r + 0x0c, cr_interrupt_index r)] s"

definition eq_empty :: "cring \<Rightarrow> bool" where
  "eq_empty r \<longleftrightarrow> cr_head r = cr_tail r"

definition eq_full :: "cring \<Rightarrow> bool" where
  "eq_full r \<longleftrightarrow> cr_size r \<le> cr_head r - cr_tail r"

text \<open>A pointer catches up with the 16 bits the device shows.\<close>

definition catch_up :: "int \<Rightarrow> int \<Rightarrow> int" where
  "catch_up ptr val = ptr + ((val - ptr) AND 0xffff)"

definition eq_read_head_ptr :: "'s nic_bus \<Rightarrow> cring \<Rightarrow> 's \<Rightarrow> (cring \<times> 's) result option" where
  "eq_read_head_ptr B r s =
     bindO (nb_read B (cr_hw_addr r + 0x10) s) (\<lambda>(val, s1).
       Some (Inr (r\<lparr>cr_head := catch_up (cr_head r) val\<rparr>, s1)))"

definition eq_write_tail_ptr :: "'s nic_bus \<Rightarrow> cring \<Rightarrow> 's \<Rightarrow> 's result" where
  "eq_write_tail_ptr B r s = nb_write B (cr_hw_addr r + 0x18) (cr_tail r AND 0xffff) s"

definition eq_arm :: "'s nic_bus \<Rightarrow> cring \<Rightarrow> 's \<Rightarrow> 's result" where
  "eq_arm B r s = nb_write B (cr_hw_addr r + 0x0c) (cr_interrupt_index r OR 0x80000000) s"

definition cq_init :: "'s nic_bus \<Rightarrow> cring \<Rightarrow> 's \<Rightarrow> (cring \<times> 's) result" where
  "cq_init B r s =
     bindE (nb_alloc B (cr_size r * cr_stride r) s) (\<lambda>(dma, h, s1).
     bindE (reg_writes B (ring_regs (cr_hw_addr r) dma 0 (cr_head r) (cr_tail r) (int (cr_log_size r))) s1)
       (\<lambda>s2. Inr (r\<lparr>cr_dma := dma, cr_buf := h\<rparr>, s2)))"

definition cq_activate :: "'s nic_bus \<Rightarrow> cring \<Rightarrow> int \<Rightarrow> 's \<Rightarrow> (cring \<times> 's) result" where
  "cq_activate B r int_index s =
     bindE (reg_writes B (ring_regs (cr_hw_addr r) (cr_dma r) int_index (cr_head r) (cr_tail r)
       (int (cr_log_size r) OR 0x80000000)) s)
       (\<lambda>s1. Inr (r\<lparr>cr_interrupt_index := int_index\<rparr>, s1))"

text \<open>The second write names a register and a variable that do not exist.\<close>

definition cq_deactivate :: "'s nic_bus \<Rightarrow> cring \<Rightarrow> 's \<Rightarrow> 's result" where
  "cq_deactivate B r s =
     bindE (nb_write B (cr_hw_addr r + 0x08) (int (cr_log_size r)) s) (\<lambda>s1. Inl NameError)"

definition cq_empty :: "cring \<Rightarrow> bool" where
  "cq_empty r \<longleftrightarrow> cr_head r = cr_tail r"

definition cq_full :: "cring \<Rightarrow> bool" where
  "cq_full r \<longleftrightarrow> cr_size r \<le> cr_head r - cr_tail r"

definition cq_read_head_ptr :: "'s nic_bus \<Rightarrow> cring \<Rightarrow> 's \<Rightarrow> (cring \<times> 's) result option" where
  "cq_read_head_ptr B r s =
     bindO (nb_read B (cr_hw_addr r + 0x10) s) (\<lambda>(val, s1).
       Some (Inr (r\<lparr>cr_head := catch_up (cr_head r) val\<rparr>, s1)))"

definition cq_write_tail_ptr :: "'s nic_bus \<Rightarrow> cring \<Rightarrow> 's \<Rightarrow> 's result" where
  "cq_write_tail_ptr B r s = nb_write B (cr_hw_addr r + 0x18) (cr_tail r AND 0xffff) s"

definition cq_arm :: "'s nic_bus \<Rightarrow> cring \<Rightarrow> 's \<Rightarrow> 's result" where
  "cq_arm B r s = nb_write B (cr_hw_addr r + 0x0c) (cr_interrupt_index r OR 0x80000000) s"

section \<open>Packet buffers\<close>

type_synonym pkt_buf = "int \<times> nat"

record pkt_pool =
  pool_allocated :: "pkt_buf list"
  pool_free :: "pkt_buf list"

definition pkt_buf_size :: int where
  "pkt_buf_size = 16384"

definition pool_init :: pkt_pool where
  "pool_init = \<lparr>pool_allocated = [], pool_free = []\<rparr>"

definition alloc_pkt :: "'s nic_bus \<Rightarrow> pkt_pool \<Rightarrow> 's \<Rightarrow> (pkt_buf \<times> pkt_pool \<times> 's) result" where
  "alloc_pkt B p s =
     (if pool_free p \<noteq> [] then Inr (last (pool_free p), p\<lparr>pool_free := butlast (pool_free p)\<rparr>, s)
      else bindE (nb_alloc B pkt_buf_size s) (\<lambda>(dma, h, s1).
        Inr ((dma, h), p\<lparr>pool_allocated := pool_allocated p @ [(dma, h)]\<rparr>, s1)))"

definition free_pkt :: "pkt_buf option \<Rightarrow> pkt_pool \<Rightarrow> pkt_pool result" where
  "free_pkt pkt p =
     (case pkt of
        None \<Rightarrow> Inl AssertionError
      | Some b \<Rightarrow> bindE (assertE (b \<in> set (pool_allocated p))) (\<lambda>_.
          Inr (p\<lparr>pool_free := pool_free p @ [b]\<rparr>)))"

section \<open>Transmit and receive queues\<close>

record dring =
  dr_log_size :: nat
  dr_log_block :: nat
  dr_stride :: int
  dr_index :: int
  dr_cpl_index :: int
  dr_head :: int
  dr_tail :: int
  dr_clean :: int
  dr_packets :: int
  dr_bytes :: int
  dr_hw_addr :: int
  dr_dma :: int
  dr_buf :: nat
  dr_info :: "pkt_buf option list"

definition dr_size :: "dring \<Rightarrow> int" where
  "dr_size r = 2 ^ dr_log_size r"

definition dr_mask :: "dring \<Rightarrow> int" where
  "dr_mask r = dr_size r - 1"

definition dr_block :: "dring \<Rightarrow> nat" where
  "dr_block r = 2 ^ dr_log_block r"

definition dr_full_size :: "dring \<Rightarrow> int" where
  "dr_full_size r = drop_bit 1 (dr_size r)"

definition tx_new :: "nat \<Rightarrow> nat \<Rightarrow> int \<Rightarrow> int \<Rightarrow> dring" where
  "tx_new sz stride index hw_addr =
     \<lparr>dr_log_size = bit_length sz - 1, dr_log_block = bit_length (stride div 16) - 1,
      dr_stride = int stride, dr_index = index, dr_cpl_index = 0, dr_head = 0, dr_tail = 0,
      dr_clean = 0, dr_packets = 0, dr_bytes = 0, dr_hw_addr = hw_addr, dr_dma = 0, dr_buf = 0,
      dr_info = []\<rparr>"

definition rx_new :: "nat \<Rightarrow> nat \<Rightarrow> int \<Rightarrow> int \<Rightarrow> dring" where
  "rx_new sz stride index hw_addr =
     \<lparr>dr_log_size = bit_length sz - 1, dr_log_block = bit_length (stride div 16) - 1,
      dr_stride = int stride, dr_index = index, dr_cpl_index = 0, dr_head = 0, dr_tail = 0,
      dr_clean = 0, dr_packets = 0, dr_bytes = 0, dr_hw_addr = hw_addr, dr_dma = 0, dr_buf = 0,
      dr_info = []\<rparr>"

definition dr_control :: "dring \<Rightarrow> int" where
  "dr_control r = int (dr_log_size r) OR push_bit 8 (int (dr_log_block r))"

definition tx_init :: "'s nic_bus \<Rightarrow> dring \<Rightarrow> 's \<Rightarrow> (dring \<times> 's) result" where
  "tx_init B r s =
     bindE (nb_alloc B (dr_size r * dr_stride r) s) (\<lambda>(dma, h, s1).
     bindE (reg_writes B (ring_regs (dr_hw_addr r) dma 0 (dr_head r) (dr_tail r) (dr_control r)) s1)
       (\<lambda>s2. Inr (r\<lparr>dr_info := replicate (nat (dr_size r)) None, dr_dma := dma, dr_buf := h\<rparr>, s2)))"

definition tx_activate :: "'s nic_bus \<Rightarrow> dring \<Rightarrow> int \<Rightarrow> 's \<Rightarrow> (dring \<times> 's) result" where
  "tx_activate B r cpl_index s =
     bindE (reg_writes B (ring_regs (dr_hw_addr r) (dr_dma r) cpl_index (dr_head r) (dr_tail r)
       (dr_control r OR 0x80000000)) s)
       (\<lambda>s1. Inr (r\<lparr>dr_cpl_index := cpl_index\<rparr>, s1))"

definition tx_deactivate :: "'s nic_bus \<Rightarrow> dring \<Rightarrow> 's \<Rightarrow> 's result" where
  "tx_deactivate B r s = nb_write B (dr_hw_addr r + 0x08) (dr_control r) s"

definition tx_empty :: "dring \<Rightarrow> bool" where
  "tx_empty r \<longleftrightarrow> dr_head r = dr_clean r"

definition tx_full :: "dring \<Rightarrow> bool" where
  "tx_full r \<longleftrightarrow> dr_full_size r \<le> dr_head r - dr_clean r"

definition tx_read_tail_ptr :: "'s nic_bus \<Rightarrow> dring \<Rightarrow> 's \<Rightarrow> (dring \<times> 's) result option" where
  "tx_read_tail_ptr B r s =
     bindO (nb_read B (dr_hw_addr r + 0x18) s) (\<lambda>(val, s1).
       Some (Inr (r\<lparr>dr_tail := catch_up (dr_tail r) val\<rparr>, s1)))"

definition tx_write_head_ptr :: "'s nic_bus \<Rightarrow> dring \<Rightarrow> 's \<Rightarrow> 's result" where
  "tx_write_head_ptr B r s = nb_write B (dr_hw_addr r + 0x10) (dr_head r AND 0xffff) s"

definition tx_free_desc :: "nat \<Rightarrow> dring \<Rightarrow> pkt_pool \<Rightarrow> (dring \<times> pkt_pool) result" where
  "tx_free_desc index r p =
     bindE (py_nth (dr_info r) index) (\<lambda>pkt. bindE (free_pkt pkt p) (\<lambda>p1.
       Inr (r\<lparr>dr_info := (dr_info r)[index := None]\<rparr>, p1)))"

text \<open>The slot a pointer names.\<close>

definition dr_slot :: "dring \<Rightarrow> int \<Rightarrow> nat" where
  "dr_slot r ptr = nat (ptr AND dr_mask r)"

definition cr_slot :: "cring \<Rightarrow> int \<Rightarrow> int" where
  "cr_slot r ptr = ptr AND cr_mask r"

partial_function (option) tx_free_buf ::
  "dring \<Rightarrow> pkt_pool \<Rightarrow> (dring \<times> pkt_pool) result option" where
  "tx_free_buf r p =
     (if tx_empty r then Some (Inr (r, p))
      else bindO (Some (tx_free_desc (dr_slot r (dr_clean r)) r p)) (\<lambda>(r1, p1).
        tx_free_buf (r1\<lparr>dr_clean := dr_clean r1 + 1\<rparr>) p1))"

definition rx_init :: "'s nic_bus \<Rightarrow> dring \<Rightarrow> 's \<Rightarrow> (dring \<times> 's) result" where
  "rx_init B r s =
     bindE (nb_alloc B (dr_size r * dr_stride r) s) (\<lambda>(dma, h, s1).
     bindE (reg_writes B (ring_regs (dr_hw_addr r) dma 0 (dr_head r) (dr_tail r) (dr_control r)) s1)
       (\<lambda>s2. Inr (r\<lparr>dr_info := replicate (nat (dr_size r)) None, dr_dma := dma, dr_buf := h\<rparr>, s2)))"

definition rx_deactivate :: "'s nic_bus \<Rightarrow> dring \<Rightarrow> 's \<Rightarrow> 's result" where
  "rx_deactivate B r s = nb_write B (dr_hw_addr r + 0x08) (dr_control r) s"

definition rx_empty :: "dring \<Rightarrow> bool" where
  "rx_empty r \<longleftrightarrow> dr_head r = dr_clean r"

definition rx_full :: "dring \<Rightarrow> bool" where
  "rx_full r \<longleftrightarrow> dr_full_size r \<le> dr_head r - dr_clean r"

definition rx_read_tail_ptr :: "'s nic_bus \<Rightarrow> dring \<Rightarrow> 's \<Rightarrow> (dring \<times> 's) result option" where
  "rx_read_tail_ptr B r s =
     bindO (nb_read B (dr_hw_addr r + 0x18) s) (\<lambda>(val, s1).
       Some (Inr (r\<lparr>dr_tail := catch_up (dr_tail r) val\<rparr>, s1)))"

definition rx_write_head_ptr :: "'s nic_bus \<Rightarrow> dring \<Rightarrow> 's \<Rightarrow> 's result" where
  "rx_write_head_ptr B r s = nb_write B (dr_hw_addr r + 0x10) (dr_head r AND 0xffff) s"

definition rx_free_desc :: "nat \<Rightarrow> dring \<Rightarrow> pkt_pool \<Rightarrow> (dring \<times> pkt_pool) result" where
  "rx_free_desc index r p =
     bindE (py_nth (dr_info r) index) (\<lambda>pkt. bindE (free_pkt pkt p) (\<lambda>p1.
       Inr (r\<lparr>dr_info := (dr_info r)[index := None]\<rparr>, p1)))"

partial_function (option) rx_free_buf ::
  "dring \<Rightarrow> pkt_pool \<Rightarrow> (dring \<times> pkt_pool) result option" where
  "rx_free_buf r p =
     (if rx_empty r then Some (Inr (r, p))
      else bindO (Some (rx_free_desc (dr_slot r (dr_clean r)) r p)) (\<lambda>(r1, p1).
        rx_free_buf (r1\<lparr>dr_clean := dr_clean r1 + 1\<rparr>) p1))"

section \<open>Descriptors\<close>

text \<open>A descriptor is two half-words, of which the first is unused and the second the
  checksum command, the length and the address. The receive side and the blocks after the
  first leave the first word zero.\<close>

definition pack_desc :: "int \<Rightarrow> int \<Rightarrow> int \<Rightarrow> bytes result" where
  "pack_desc csum l ptr =
     bindE (pack_le 2 0) (\<lambda>a. bindE (pack_le 2 csum) (\<lambda>b. bindE (pack_le 4 l) (\<lambda>c.
       bindE (pack_le 8 ptr) (\<lambda>d. Inr (a @ b @ c @ d)))))"

definition put_desc :: "int \<Rightarrow> int \<Rightarrow> int \<Rightarrow> int \<Rightarrow> bytes \<Rightarrow> bytes result" where
  "put_desc pos csum l ptr mem = bindE (pack_desc csum l ptr) (pack_into mem pos)"

text \<open>The loop over the blocks of a slot: at most 4096 bytes each, the rest in the last.\<close>

fun desc_loop :: "nat \<Rightarrow> int \<Rightarrow> int \<Rightarrow> int \<Rightarrow> nat list \<Rightarrow> int \<Rightarrow> bytes \<Rightarrow> bytes result" where
  "desc_loop n pos len ptr [] off mem = Inr mem"
| "desc_loop n pos len ptr (k # ks) off mem =
     (let l = (if k < n - 1 then min (len - off) 4096 else len - off)
      in bindE (put_desc (pos + int k * 16) 0 l (if l \<noteq> 0 then ptr + off else 0) mem)
           (desc_loop n pos len ptr ks (off + l)))"

definition prepare_desc ::
  "'s nic_bus \<Rightarrow> nat \<Rightarrow> dring \<Rightarrow> pkt_pool \<Rightarrow> 's \<Rightarrow> (dring \<times> pkt_pool \<times> 's) result" where
  "prepare_desc B index r p s =
     bindE (alloc_pkt B p s) (\<lambda>(pkt, p1, s1).
     bindE (py_set (dr_info r) index (Some pkt)) (\<lambda>info.
     bindE (desc_loop (dr_block r) (int index * dr_stride r) (int (length (nb_mem B s1 (snd pkt)))) (fst pkt)
              [0..<dr_block r] 0 (nb_mem B s1 (dr_buf r))) (\<lambda>mem.
       Inr (r\<lparr>dr_info := info\<rparr>, p1, nb_set_mem B (dr_buf r) mem s1))))"

text \<open>The slots to refill, one after the other. Fewer than eight are left for later; the
  pointer is written only after all of them.\<close>

fun refill_slots :: "'s nic_bus \<Rightarrow> nat \<Rightarrow> dring \<Rightarrow> pkt_pool \<Rightarrow> 's \<Rightarrow> (dring \<times> pkt_pool \<times> 's) result" where
  "refill_slots B 0 r p s = Inr (r, p, s)"
| "refill_slots B (Suc n) r p s =
     bindE (prepare_desc B (dr_slot r (dr_head r)) r p s) (\<lambda>(r1, p1, s1).
       refill_slots B n (r1\<lparr>dr_head := dr_head r1 + 1\<rparr>) p1 s1)"

definition refill_missing :: "dring \<Rightarrow> int" where
  "refill_missing r = dr_size r - (dr_head r - dr_clean r)"

definition refill_buffers ::
  "'s nic_bus \<Rightarrow> dring \<Rightarrow> pkt_pool \<Rightarrow> 's \<Rightarrow> (dring \<times> pkt_pool \<times> 's) result" where
  "refill_buffers B r p s =
     (if refill_missing r < 8 then Inr (r, p, s)
      else bindE (refill_slots B (nat (refill_missing r)) r p s) (\<lambda>(r1, p1, s1).
        bindE (rx_write_head_ptr B r1 s1) (\<lambda>s2. Inr (r1, p1, s2))))"

definition rx_activate ::
  "'s nic_bus \<Rightarrow> dring \<Rightarrow> int \<Rightarrow> pkt_pool \<Rightarrow> 's \<Rightarrow> (dring \<times> pkt_pool \<times> 's) result" where
  "rx_activate B r cpl_index p s =
     bindE (reg_writes B (ring_regs (dr_hw_addr r) (dr_dma r) cpl_index (dr_head r) (dr_tail r)
       (dr_control r OR 0x80000000)) s)
       (\<lambda>s1. refill_buffers B (r\<lparr>dr_cpl_index := cpl_index\<rparr>) p s1)"

end
