(* ===== verification/NicDriver.thy ===== *)
theory NicDriver
  imports NicRing
begin

text \<open>
  Ports, interfaces and the driver of \<open>fpga/common/tb/mqnic.py\<close>: discovery of the queues of
  an interface, opening and closing, transmission (\<open>start_xmit\<close>), the interrupt handler with
  the event queue (\<open>EqRing.process\<close>) and the completion queues (\<open>process_tx_cq\<close>,
  \<open>process_rx_cq\<close>), and \<open>Driver.init_dev\<close>. An operation of an interface works on the
  interface, the packet pool of its driver and the host, the record \<open>nic\<close>. Loops on ring
  pointers that need not meet are partial functions: not returning is \<open>None\<close>. The bodies
  between two bus accesses are definitions of their own, because nothing else runs there.
\<close>

unbundle bit_operations_syntax

section \<open>State\<close>

record packet =
  pkt_data :: bytes
  pkt_timestamp_s :: "int option"
  pkt_timestamp_ns :: "int option"
  pkt_rx_checksum :: "int option"

definition packet_new :: "bytes \<Rightarrow> packet" where
  "packet_new d = \<lparr>pkt_data = d, pkt_timestamp_s = None, pkt_timestamp_ns = None, pkt_rx_checksum = None\<rparr>"

record nic_sched =
  sc_index :: int
  sc_hw_addr :: int

record nic_port =
  po_index :: int
  po_hw_addr :: int
  po_id :: "int option"
  po_features :: "int option"
  po_mtu :: int
  po_sched_count :: "int option"
  po_sched_offset :: "int option"
  po_sched_stride :: "int option"
  po_sched_type :: "int option"
  po_scheds :: "nic_sched list"

record nic_if =
  if_index :: int
  if_hw_addr :: int
  if_csr_hw_addr :: int
  if_port_up :: bool
  if_id :: "int option"
  if_features :: "int option"
  if_eq_count :: "int option"
  if_eq_offset :: "int option"
  if_tx_count :: "int option"
  if_tx_offset :: "int option"
  if_tx_cpl_count :: "int option"
  if_tx_cpl_offset :: "int option"
  if_rx_count :: "int option"
  if_rx_offset :: "int option"
  if_rx_cpl_count :: "int option"
  if_rx_cpl_offset :: "int option"
  if_port_count :: "int option"
  if_port_offset :: "int option"
  if_port_stride :: "int option"
  if_intr_running :: bool
  if_intr_pending :: int
  if_rx_packets :: "packet list"
  if_rx_sync :: bool
  if_eqs :: "cring list"
  if_txs :: "dring list"
  if_tx_cqs :: "cring list"
  if_rxs :: "dring list"
  if_rx_cqs :: "cring list"
  if_ports :: "nic_port list"

definition if_new :: "int \<Rightarrow> int \<Rightarrow> int \<Rightarrow> nic_if" where
  "if_new index hw_addr csr_offset =
     \<lparr>if_index = index, if_hw_addr = hw_addr, if_csr_hw_addr = hw_addr + csr_offset, if_port_up = False,
      if_id = None, if_features = None, if_eq_count = None, if_eq_offset = None, if_tx_count = None,
      if_tx_offset = None, if_tx_cpl_count = None, if_tx_cpl_offset = None, if_rx_count = None,
      if_rx_offset = None, if_rx_cpl_count = None, if_rx_cpl_offset = None, if_port_count = None,
      if_port_offset = None, if_port_stride = None, if_intr_running = False, if_intr_pending = 0,
      if_rx_packets = [], if_rx_sync = False, if_eqs = [], if_txs = [], if_tx_cqs = [], if_rxs = [],
      if_rx_cqs = [], if_ports = []\<rparr>"

record 's nic =
  nic_pool :: pkt_pool
  nic_if :: nic_if
  nic_host :: 's

definition on_if :: "(nic_if \<Rightarrow> nic_if) \<Rightarrow> 's nic \<Rightarrow> 's nic" where
  "on_if f n = n\<lparr>nic_if := f (nic_if n)\<rparr>"

text \<open>An access to the host that leaves the driver's own state alone.\<close>

definition on_host :: "('s \<Rightarrow> 's result) \<Rightarrow> 's nic \<Rightarrow> 's nic result" where
  "on_host f n = bindE (f (nic_host n)) (\<lambda>s. Inr (n\<lparr>nic_host := s\<rparr>))"

section \<open>Ports\<close>

definition port_new :: "int \<Rightarrow> int \<Rightarrow> nic_port" where
  "port_new index hw_addr =
     \<lparr>po_index = index, po_hw_addr = hw_addr, po_id = None, po_features = None, po_mtu = 0,
      po_sched_count = None, po_sched_offset = None, po_sched_stride = None, po_sched_type = None,
      po_scheds = []\<rparr>"

definition port_set_mtu :: "'s nic_bus \<Rightarrow> nic_port \<Rightarrow> int \<Rightarrow> 's \<Rightarrow> 's result" where
  "port_set_mtu B p mtu s = reg_writes B [(po_hw_addr p + 0x100, mtu), (po_hw_addr p + 0x200, mtu)] s"

definition port_scheds :: "int \<Rightarrow> int \<Rightarrow> int \<Rightarrow> int \<Rightarrow> nic_sched list" where
  "port_scheds hw count offset stride =
     map (\<lambda>k. \<lparr>sc_index = k, sc_hw_addr = hw + offset + k * stride\<rparr>) [0..count - 1]"

definition port_up :: "'s nic_bus \<Rightarrow> nic_port \<Rightarrow> 's \<Rightarrow> (nic_port \<times> 's) result option" where
  "port_up B p s =
     bindO (reg_reads B (map ((+) (po_hw_addr p)) [0x00, 0x04, 0x08, 0x10, 0x14, 0x18, 0x1c]) s) (\<lambda>(v, s1).
     bindO (Some (port_set_mtu B p (min (v ! 2) 9214) s1)) (\<lambda>s2.
       Some (Inr (p\<lparr>po_id := Some (v ! 0), po_features := Some (v ! 1), po_mtu := v ! 2,
         po_sched_count := Some (v ! 3), po_sched_offset := Some (v ! 4), po_sched_stride := Some (v ! 5),
         po_sched_type := Some (v ! 6),
         po_scheds := port_scheds (po_hw_addr p) (v ! 3) (v ! 4) (v ! 5)\<rparr>, s2))))"

section \<open>Discovery of an interface\<close>

text \<open>A loop that creates a queue, initialises it and appends it.\<close>

fun init_all :: "('q \<Rightarrow> 's \<Rightarrow> ('q \<times> 's) result option) \<Rightarrow> 'q list \<Rightarrow> 's \<Rightarrow> ('q list \<times> 's) result option" where
  "init_all f [] s = Some (Inr ([], s))"
| "init_all f (q # qs) s =
     bindO (f q s) (\<lambda>(q', s1). bindO (init_all f qs s1) (\<lambda>(qs', s2). Some (Inr (q' # qs', s2))))"

definition if_registers :: "'s nic_bus \<Rightarrow> nic_if \<Rightarrow> 's \<Rightarrow> (nic_if \<times> 's) result option" where
  "if_registers B i s =
     bindO (reg_reads B (map ((+) (if_csr_hw_addr i)) [0x00, 0x04, 0x10, 0x14, 0x20, 0x24, 0x28, 0x2c,
         0x30, 0x34, 0x38, 0x3c, 0x40, 0x44, 0x48]) s) (\<lambda>(v, s1).
       Some (Inr (i\<lparr>if_id := Some (v ! 0), if_features := Some (v ! 1),
         if_eq_count := Some (min (v ! 2) 1), if_eq_offset := Some (v ! 3),
         if_tx_count := Some (min (v ! 4) 32), if_tx_offset := Some (v ! 5),
         if_tx_cpl_count := Some (min (v ! 6) 32), if_tx_cpl_offset := Some (v ! 7),
         if_rx_count := Some (min (v ! 8) 8), if_rx_offset := Some (v ! 9),
         if_rx_cpl_count := Some (min (v ! 10) 8), if_rx_cpl_offset := Some (v ! 11),
         if_port_count := Some (v ! 12), if_port_offset := Some (v ! 13),
         if_port_stride := Some (v ! 14)\<rparr>, s1)))"

text \<open>The addresses of the queues of one kind.\<close>

definition queues :: "(int \<Rightarrow> int \<Rightarrow> 'q) \<Rightarrow> int \<Rightarrow> int option \<Rightarrow> int option \<Rightarrow> int \<Rightarrow> 'q list" where
  "queues mk hw count offset stride =
     map (\<lambda>k. mk k (hw + the offset + k * stride)) [0..the count - 1]"

definition if_init :: "'s nic_bus \<Rightarrow> pcie_id \<Rightarrow> nic_if \<Rightarrow> 's \<Rightarrow> (nic_if \<times> 's) result option" where
  "if_init B dev i0 s0 =
     bindO (if_registers B i0 (nb_register B dev (nat (if_index i0)) (if_index i0) s0)) (\<lambda>(i, s).
     let hw = if_hw_addr i in
     bindO (init_all (\<lambda>q s. Some (eq_init B q s))
       (queues (\<lambda>k a. eq_new 1024 32 (if_index i) a) hw (if_eq_count i) (if_eq_offset i) 0x20) s) (\<lambda>(eqs, s1).
     bindO (init_all (\<lambda>q s. Some (tx_init B q s))
       (queues (\<lambda>k a. tx_new 1024 (16 * 4) k a) hw (if_tx_count i) (if_tx_offset i) 0x20) s1) (\<lambda>(txs, s2).
     bindO (init_all (\<lambda>q s. Some (cq_init B q s))
       (queues (\<lambda>k a. cq_new 1024 32 k a) hw (if_tx_cpl_count i) (if_tx_cpl_offset i) 0x20) s2) (\<lambda>(tcqs, s3).
     bindO (init_all (\<lambda>q s. Some (rx_init B q s))
       (queues (\<lambda>k a. rx_new 1024 (16 * 4) k a) hw (if_rx_count i) (if_rx_offset i) 0x20) s3) (\<lambda>(rxs, s4).
     bindO (init_all (\<lambda>q s. Some (cq_init B q s))
       (queues (\<lambda>k a. cq_new 1024 32 k a) hw (if_rx_cpl_count i) (if_rx_cpl_offset i) 0x20) s4) (\<lambda>(rcqs, s5).
     bindO (init_all (port_up B)
       (queues (\<lambda>k a. port_new k a) hw (if_port_count i) (if_port_offset i) (the (if_port_stride i))) s5)
       (\<lambda>(ports, s6).
         Some (Inr (i\<lparr>if_eqs := eqs, if_txs := txs, if_tx_cqs := tcqs, if_rxs := rxs, if_rx_cqs := rcqs,
           if_ports := ports\<rparr>, s6)))))))))"

section \<open>Opening and closing\<close>

fun update_all :: "('q \<Rightarrow> 's \<Rightarrow> ('q \<times> 's) result) \<Rightarrow> 'q list \<Rightarrow> 's \<Rightarrow> ('q list \<times> 's) result" where
  "update_all f [] s = Inr ([], s)"
| "update_all f (q # qs) s =
     bindE (f q s) (\<lambda>(q', s1). bindE (update_all f qs s1) (\<lambda>(qs', s2). Inr (q' # qs', s2)))"

definition open_eq :: "'s nic_bus \<Rightarrow> int \<Rightarrow> cring \<Rightarrow> 's \<Rightarrow> (cring \<times> 's) result" where
  "open_eq B index q s =
     bindE (eq_activate B q index s) (\<lambda>(q1, s1). bindE (eq_arm B q1 s1) (\<lambda>s2. Inr (q1, s2)))"

definition open_cq :: "'s nic_bus \<Rightarrow> int \<Rightarrow> cring \<Rightarrow> 's \<Rightarrow> (cring \<times> 's) result" where
  "open_cq B eq_count q s =
     (if eq_count = 0 then Inl ZeroDivisionError
      else bindE (cq_activate B q (cr_index q mod eq_count) s) (\<lambda>(q1, s1).
        let q2 = q1\<lparr>cr_ring_index := cr_index q1\<rparr>
        in bindE (cq_arm B q2 s1) (\<lambda>s2. Inr (q2, s2))))"

definition open_rx :: "'s nic_bus \<Rightarrow> dring \<Rightarrow> pkt_pool \<times> 's \<Rightarrow> (dring \<times> pkt_pool \<times> 's) result" where
  "open_rx B q ps = rx_activate B q (dr_index q) (fst ps) (snd ps)"

definition open_tx :: "'s nic_bus \<Rightarrow> dring \<Rightarrow> 's \<Rightarrow> (dring \<times> 's) result" where
  "open_tx B q s = tx_activate B q (dr_index q) s"

definition if_open :: "'s nic_bus \<Rightarrow> 's nic \<Rightarrow> 's nic result" where
  "if_open B n =
     (let i = nic_if n in
      case if_eq_count i of
        None \<Rightarrow> Inl AttributeError
      | Some c \<Rightarrow>
          bindE (update_all (open_eq B (if_index i)) (if_eqs i) (nic_host n)) (\<lambda>(eqs, s1).
          bindE (update_all (open_cq B c) (if_rx_cqs i) s1) (\<lambda>(rcqs, s2).
          bindE (update_all (open_rx B) (if_rxs i) (nic_pool n, s2)) (\<lambda>(rxs, p, s3).
          bindE (update_all (open_cq B c) (if_tx_cqs i) s3) (\<lambda>(tcqs, s4).
          bindE (update_all (open_tx B) (if_txs i) s4) (\<lambda>(txs, s5).
            Inr \<lparr>nic_pool = p, nic_if = i\<lparr>if_eqs := eqs, if_rx_cqs := rcqs, if_rxs := rxs, if_tx_cqs := tcqs,
                   if_txs := txs, if_port_up := True\<rparr>, nic_host = s5\<rparr>))))))"

fun each :: "('q \<Rightarrow> 's \<Rightarrow> 's result) \<Rightarrow> 'q list \<Rightarrow> 's \<Rightarrow> 's result" where
  "each f [] s = Inr s"
| "each f (q # qs) s = bindE (f q s) (each f qs)"

text \<open>\<open>free_buf\<close> is no generator: once it has run, \<open>yield from\<close> its result raises.\<close>

definition close_free :: "(dring \<Rightarrow> pkt_pool \<Rightarrow> (dring \<times> pkt_pool) result option) \<Rightarrow> dring list \<Rightarrow>
    's nic \<Rightarrow> 's nic result option" where
  "close_free fb qs n =
     (case qs of [] \<Rightarrow> Some (Inr n) | q # _ \<Rightarrow> bindO (fb q (nic_pool n)) (\<lambda>_. Some (Inl TypeError)))"

definition if_close :: "'s nic_bus \<Rightarrow> ('s \<Rightarrow> 's) \<Rightarrow> 's nic \<Rightarrow> 's nic result option" where
  "if_close B pause n0 =
     (let n = on_if (\<lambda>i. i\<lparr>if_port_up := False\<rparr>) n0; i = nic_if n in
      bindO (Some (each (tx_deactivate B) (if_txs i) (nic_host n))) (\<lambda>s1.
      bindO (Some (each (cq_deactivate B) (if_tx_cqs i) s1)) (\<lambda>s2.
      bindO (Some (each (rx_deactivate B) (if_rxs i) s2)) (\<lambda>s3.
      bindO (Some (each (cq_deactivate B) (if_rx_cqs i) s3)) (\<lambda>s4.
      bindO (Some (each (eq_deactivate B) (if_eqs i) s4)) (\<lambda>s5.
      bindO (close_free tx_free_buf (if_txs i) (n\<lparr>nic_host := pause s5\<rparr>))
        (close_free rx_free_buf (if_rxs i))))))))"

definition if_set_mtu :: "'s nic_bus \<Rightarrow> int \<Rightarrow> 's nic \<Rightarrow> 's nic result" where
  "if_set_mtu B mtu n =
     on_host (each (\<lambda>p. port_set_mtu B p mtu) (if_ports (nic_if n))) n"

definition if_recv :: "'s nic \<Rightarrow> packet option \<times> 's nic" where
  "if_recv n =
     (case if_rx_packets (nic_if n) of
        [] \<Rightarrow> (None, n)
      | p # ps \<Rightarrow> (Some p, on_if (\<lambda>i. i\<lparr>if_rx_packets := ps\<rparr>) n))"


section \<open>Transmission\<close>

datatype skb = SkbPacket packet | SkbBytes bytes

definition skb_data :: "skb \<Rightarrow> bytes" where
  "skb_data k = (case k of SkbPacket p \<Rightarrow> pkt_data p | SkbBytes d \<Rightarrow> d)"

definition csum_cmd :: "int option \<Rightarrow> int option \<Rightarrow> int" where
  "csum_cmd start offset =
     (case (start, offset) of (Some a, Some b) \<Rightarrow> 0x8000 OR push_bit 8 b OR a | _ \<Rightarrow> 0)"

text \<open>The descriptors of a packet: at most 42 bytes in the first block, then as on the
  receive side.\<close>

definition xmit_descs :: "dring \<Rightarrow> int \<Rightarrow> int \<Rightarrow> int \<Rightarrow> int \<Rightarrow> bytes \<Rightarrow> bytes result" where
  "xmit_descs r pos csum len ptr mem =
     (let l = (if dr_block r > 1 then min len 42 else len)
      in bindE (put_desc pos csum l (if l \<noteq> 0 then ptr else 0) mem)
           (desc_loop (dr_block r) pos len ptr [1..<dr_block r] l))"

definition xmit_ring ::
  "'s nic_bus \<Rightarrow> bytes \<Rightarrow> int \<Rightarrow> dring \<Rightarrow> pkt_pool \<Rightarrow> 's \<Rightarrow> (dring \<times> pkt_pool \<times> 's) result" where
  "xmit_ring B d csum r p s =
     (let data = take 16384 d; index = dr_slot r (dr_head r) in
      bindE (alloc_pkt B p s) (\<lambda>(pkt, p1, s1).
      bindE (py_set (dr_info r) index (Some pkt)) (\<lambda>info.
      bindE (mmap_assign (nb_mem B s1 (snd pkt)) 10 data) (\<lambda>pm.
      let s2 = nb_set_mem B (snd pkt) pm s1 in
      bindE (xmit_descs r (int index * dr_stride r) csum (int (length data)) (fst pkt + 10)
               (nb_mem B s2 (dr_buf r))) (\<lambda>mem.
        Inr (r\<lparr>dr_packets := dr_packets r + 1, dr_bytes := dr_bytes r + int (length data),
               dr_info := info, dr_head := dr_head r + 1\<rparr>, p1, nb_set_mem B (dr_buf r) mem s2))))))"

definition tx_select :: "int option \<Rightarrow> 's nic \<Rightarrow> nat result" where
  "tx_select ring n =
     (case ring of None \<Rightarrow> Inl TypeError | Some k \<Rightarrow> py_index (length (if_txs (nic_if n))) k)"

definition xmit_fill ::
  "'s nic_bus \<Rightarrow> bytes \<Rightarrow> int \<Rightarrow> nat \<Rightarrow> 's nic \<Rightarrow> 's nic result" where
  "xmit_fill B d csum k n =
     bindE (xmit_ring B d csum (if_txs (nic_if n) ! k) (nic_pool n) (nic_host n)) (\<lambda>(r, p, s).
       Inr \<lparr>nic_pool = p, nic_if = (nic_if n)\<lparr>if_txs := (if_txs (nic_if n))[k := r]\<rparr>, nic_host = s\<rparr>)"

definition start_xmit ::
  "'s nic_bus \<Rightarrow> skb \<Rightarrow> int option \<Rightarrow> int option \<Rightarrow> int option \<Rightarrow> 's nic \<Rightarrow> 's nic result" where
  "start_xmit B skb ring cs_start cs_offset n =
     (if \<not> if_port_up (nic_if n) then Inr n
      else bindE (tx_select ring n) (\<lambda>k.
        bindE (xmit_fill B (skb_data skb) (csum_cmd cs_start cs_offset) k n) (\<lambda>n1.
          on_host (tx_write_head_ptr B (if_txs (nic_if n1) ! k)) n1)))"

section \<open>Transmit completions\<close>

text \<open>One completion record frees the slot it names; the loop ends where the head pointer is.\<close>

definition tx_entry :: "bytes \<Rightarrow> cring \<Rightarrow> int \<Rightarrow> dring \<times> pkt_pool \<Rightarrow> (dring \<times> pkt_pool) result" where
  "tx_entry mem cq t rp =
     bindE (unpack_from mem (cr_slot cq t * cr_stride cq) 16) (\<lambda>d.
       tx_free_desc (nat (field d 2 2)) (fst rp) (snd rp))"

partial_function (option) drain ::
  "(int \<Rightarrow> 'q \<Rightarrow> 'q result) \<Rightarrow> int \<Rightarrow> int \<Rightarrow> 'q \<Rightarrow> (int \<times> 'q) result option" where
  "drain f head t st =
     (if head = t then Some (Inr (t, st)) else bindO (Some (f t st)) (drain f head (t + 1)))"

definition tx_drain :: "'s nic_bus \<Rightarrow> nat \<Rightarrow> nat \<Rightarrow> cring \<Rightarrow> 's nic \<Rightarrow> 's nic result option" where
  "tx_drain B c k cq n =
     bindO (drain (tx_entry (nb_mem B (nic_host n) (cr_buf cq)) cq) (cr_head cq) (cr_tail cq)
              (if_txs (nic_if n) ! k, nic_pool n)) (\<lambda>(t, r, p).
       Some (Inr (n\<lparr>nic_pool := p, nic_if := (nic_if n)\<lparr>if_txs := (if_txs (nic_if n))[k := r],
         if_tx_cqs := (if_tx_cqs (nic_if n))[c := cq\<lparr>cr_tail := t\<rparr>]\<rparr>\<rparr>)))"

partial_function (option) clean_loop :: "pkt_buf option list \<Rightarrow> (int \<Rightarrow> nat) \<Rightarrow> int \<Rightarrow> int \<Rightarrow> int result option" where
  "clean_loop info slot tail c =
     (if c = tail then Some (Inr c)
      else bindO (Some (py_nth info (slot c))) (\<lambda>x.
        if x \<noteq> None then Some (Inr c) else clean_loop info slot tail (c + 1)))"

definition tx_clean :: "nat \<Rightarrow> dring \<Rightarrow> 's nic \<Rightarrow> 's nic result option" where
  "tx_clean k r n =
     bindO (clean_loop (dr_info r) (dr_slot r) (dr_tail r) (dr_clean r)) (\<lambda>c.
       Some (Inr (on_if (\<lambda>i. i\<lparr>if_txs := (if_txs i)[k := r\<lparr>dr_clean := c\<rparr>]\<rparr>) n)))"

definition process_tx_cq :: "'s nic_bus \<Rightarrow> nat \<Rightarrow> 's nic \<Rightarrow> 's nic result option" where
  "process_tx_cq B c n =
     (let cq = if_tx_cqs (nic_if n) ! c in
      bindO (Some (py_index (length (if_txs (nic_if n))) (cr_ring_index cq))) (\<lambda>k.
      if \<not> if_port_up (nic_if n) then Some (Inr n)
      else
        bindO (cq_read_head_ptr B cq (nic_host n)) (\<lambda>(cq1, s1).
        bindO (tx_drain B c k cq1 (n\<lparr>nic_host := s1\<rparr>)) (\<lambda>n1.
        bindO (Some (on_host (cq_write_tail_ptr B (if_tx_cqs (nic_if n1) ! c)) n1)) (\<lambda>n2.
        bindO (tx_read_tail_ptr B (if_txs (nic_if n2) ! k) (nic_host n2)) (\<lambda>(r, s3).
          tx_clean k r (n2\<lparr>nic_host := s3\<rparr>)))))))"

section \<open>Receive completions\<close>

text \<open>One completion record hands the data of the slot it names to the application, with the
  time stamp and the checksum, and frees the slot. The signal is toggled once for all packets of
  a batch, as its next value is computed from the current one.\<close>

definition rx_entry ::
  "(nat \<Rightarrow> bytes) \<Rightarrow> cring \<Rightarrow> int \<Rightarrow> dring \<times> pkt_pool \<times> packet list \<Rightarrow> (dring \<times> pkt_pool \<times> packet list) result" where
  "rx_entry mem cq t x =
     (case x of (r, p, ps) \<Rightarrow>
        bindE (unpack_from (mem (cr_buf cq)) (cr_slot cq t * cr_stride cq) 16) (\<lambda>d.
        bindE (py_nth (dr_info r) (nat (field d 2 2))) (\<lambda>pkt.
        case pkt of
          None \<Rightarrow> Inl TypeError
        | Some b \<Rightarrow>
            let skb = \<lparr>pkt_data = take (nat (field d 4 2)) (mem (snd b)), pkt_timestamp_s = Some (field d 12 2),
                       pkt_timestamp_ns = Some (field d 8 4), pkt_rx_checksum = Some (field d 14 2)\<rparr>
            in bindE (rx_free_desc (nat (field d 2 2)) r p) (\<lambda>(r1, p1). Inr (r1, p1, ps @ [skb])))))"

definition rx_drain :: "'s nic_bus \<Rightarrow> nat \<Rightarrow> nat \<Rightarrow> cring \<Rightarrow> 's nic \<Rightarrow> 's nic result option" where
  "rx_drain B c k cq n =
     (let i = nic_if n in
      bindO (drain (rx_entry (nb_mem B (nic_host n)) cq) (cr_head cq) (cr_tail cq)
               (if_rxs i ! k, nic_pool n, [])) (\<lambda>(t, r, p, ps).
        Some (Inr (n\<lparr>nic_pool := p, nic_if := i\<lparr>if_rxs := (if_rxs i)[k := r],
          if_rx_cqs := (if_rx_cqs i)[c := cq\<lparr>cr_tail := t\<rparr>],
          if_rx_packets := if_rx_packets i @ ps,
          if_rx_sync := (if ps = [] then if_rx_sync i else \<not> if_rx_sync i)\<rparr>\<rparr>))))"

definition rx_clean :: "nat \<Rightarrow> dring \<Rightarrow> 's nic \<Rightarrow> 's nic result option" where
  "rx_clean k r n =
     bindO (clean_loop (dr_info r) (dr_slot r) (dr_tail r) (dr_clean r)) (\<lambda>c.
       Some (Inr (on_if (\<lambda>i. i\<lparr>if_rxs := (if_rxs i)[k := r\<lparr>dr_clean := c\<rparr>]\<rparr>) n)))"

definition rx_refill :: "'s nic_bus \<Rightarrow> nat \<Rightarrow> 's nic \<Rightarrow> 's nic result" where
  "rx_refill B k n =
     bindE (refill_buffers B (if_rxs (nic_if n) ! k) (nic_pool n) (nic_host n)) (\<lambda>(r, p, s).
       Inr \<lparr>nic_pool = p, nic_if = (nic_if n)\<lparr>if_rxs := (if_rxs (nic_if n))[k := r]\<rparr>, nic_host = s\<rparr>)"

definition process_rx_cq :: "'s nic_bus \<Rightarrow> nat \<Rightarrow> 's nic \<Rightarrow> 's nic result option" where
  "process_rx_cq B c n =
     (let cq = if_rx_cqs (nic_if n) ! c in
      bindO (Some (py_index (length (if_rxs (nic_if n))) (cr_ring_index cq))) (\<lambda>k.
      if \<not> if_port_up (nic_if n) then Some (Inr n)
      else
        bindO (cq_read_head_ptr B cq (nic_host n)) (\<lambda>(cq1, s1).
        bindO (rx_drain B c k cq1 (n\<lparr>nic_host := s1\<rparr>)) (\<lambda>n1.
        bindO (Some (on_host (cq_write_tail_ptr B (if_rx_cqs (nic_if n1) ! c)) n1)) (\<lambda>n2.
        bindO (rx_read_tail_ptr B (if_rxs (nic_if n2) ! k) (nic_host n2)) (\<lambda>(r, s3).
        bindO (rx_clean k r (n2\<lparr>nic_host := s3\<rparr>)) (\<lambda>n3. Some (rx_refill B k n3))))))))"

section \<open>Events and interrupts\<close>

definition event_step :: "'s nic_bus \<Rightarrow> nat \<Rightarrow> int \<Rightarrow> 's nic \<Rightarrow> 's nic result option" where
  "event_step B e t n =
     (let q = if_eqs (nic_if n) ! e in
      bindO (Some (unpack_from (nb_mem B (nic_host n) (cr_buf q)) (cr_slot q t * cr_stride q) 4)) (\<lambda>d.
      let c = nat (field d 2 2) in
      if field d 0 2 = 0 then
        bindO (Some (py_nth (if_tx_cqs (nic_if n)) c)) (\<lambda>_. bindO (process_tx_cq B c n) (\<lambda>n1.
          Some (on_host (cq_arm B (if_tx_cqs (nic_if n1) ! c)) n1)))
      else if field d 0 2 = 1 then
        bindO (Some (py_nth (if_rx_cqs (nic_if n)) c)) (\<lambda>_. bindO (process_rx_cq B c n) (\<lambda>n1.
          Some (on_host (cq_arm B (if_rx_cqs (nic_if n1) ! c)) n1)))
      else Some (Inr n)))"

partial_function (option) event_loop :: "'s nic_bus \<Rightarrow> nat \<Rightarrow> int \<Rightarrow> 's nic \<Rightarrow> (int \<times> 's nic) result option" where
  "event_loop B e t n =
     (if cr_head (if_eqs (nic_if n) ! e) = t then Some (Inr (t, n))
      else bindO (event_step B e t n) (event_loop B e (t + 1)))"

definition set_eq :: "nat \<Rightarrow> cring \<Rightarrow> 's nic \<Rightarrow> 's nic" where
  "set_eq e q n = on_if (\<lambda>i. i\<lparr>if_eqs := (if_eqs i)[e := q]\<rparr>) n"

definition eq_process :: "'s nic_bus \<Rightarrow> nat \<Rightarrow> 's nic \<Rightarrow> 's nic result option" where
  "eq_process B e n =
     (if \<not> if_port_up (nic_if n) then Some (Inr n)
      else
        bindO (eq_read_head_ptr B (if_eqs (nic_if n) ! e) (nic_host n)) (\<lambda>(q, s1).
        bindO (event_loop B e (cr_tail q) (set_eq e q (n\<lparr>nic_host := s1\<rparr>))) (\<lambda>(t, n1).
          let n2 = set_eq e ((if_eqs (nic_if n1) ! e)\<lparr>cr_tail := t\<rparr>) n1
          in Some (on_host (eq_write_tail_ptr B (if_eqs (nic_if n2) ! e)) n2))))"

definition eq_service :: "'s nic_bus \<Rightarrow> nat \<Rightarrow> 's nic \<Rightarrow> 's nic result option" where
  "eq_service B e n =
     bindO (eq_process B e n) (\<lambda>n1. Some (on_host (eq_arm B (if_eqs (nic_if n1) ! e)) n1))"

text \<open>The interrupts of an interface that the root complex delivered between two states of the
  host: while the handler runs, each of them only counts.\<close>

definition irq_arrivals :: "'s nic_bus \<Rightarrow> nat \<Rightarrow> 's \<Rightarrow> 's \<Rightarrow> int" where
  "irq_arrivals B k s s' =
     int (length (filter ((=) k) (nb_calls B s'))) - int (length (filter ((=) k) (nb_calls B s)))"

definition interrupt_body :: "'s nic_bus \<Rightarrow> 's nic \<Rightarrow> 's nic result option" where
  "interrupt_body B n =
     bindO (foldO (eq_service B) [0..<length (if_eqs (nic_if n))]
              (on_if (\<lambda>i. i\<lparr>if_intr_running := True\<rparr>) n)) (\<lambda>n1.
       Some (Inr (on_if (\<lambda>i. i\<lparr>if_intr_running := False, if_intr_pending := if_intr_pending i +
         irq_arrivals B (nat (if_index i)) (nic_host n) (nic_host n1)\<rparr>) n1)))"

text \<open>The handler calls itself for what arrived in the meantime, and the inner call loops too.\<close>

partial_function (option) interrupt_pending :: "'s nic_bus \<Rightarrow> 's nic \<Rightarrow> 's nic result option" where
  "interrupt_pending B n =
     (if if_intr_pending (nic_if n) = 0 then Some (Inr n)
      else bindO (interrupt_body B (on_if (\<lambda>i. i\<lparr>if_intr_pending := if_intr_pending i - 1\<rparr>) n)) (\<lambda>n1.
        bindO (interrupt_pending B n1) (\<lambda>n2. interrupt_pending B n2)))"

definition if_interrupt :: "'s nic_bus \<Rightarrow> 's nic \<Rightarrow> 's nic result option" where
  "if_interrupt B n =
     (if if_intr_running (nic_if n)
      then Some (Inr (on_if (\<lambda>i. i\<lparr>if_intr_pending := if_intr_pending i + 1\<rparr>) n))
      else bindO (interrupt_body B n) (interrupt_pending B))"

section \<open>The driver\<close>

record nic_driver =
  drv_dev_id :: "pcie_id option"
  drv_hw_addr :: "int option"
  drv_fw_id :: "int option"
  drv_fw_ver :: "int option"
  drv_board_id :: "int option"
  drv_board_ver :: "int option"
  drv_phc_count :: "int option"
  drv_phc_offset :: "int option"
  drv_if_count :: int
  drv_if_stride :: "int option"
  drv_if_csr_offset :: "int option"
  drv_initialized :: bool
  drv_ifs :: "nic_if list"
  drv_pool :: pkt_pool

definition driver_new :: nic_driver where
  "driver_new = \<lparr>drv_dev_id = None, drv_hw_addr = None, drv_fw_id = None, drv_fw_ver = None,
     drv_board_id = None, drv_board_ver = None, drv_phc_count = None, drv_phc_offset = None,
     drv_if_count = 1, drv_if_stride = None, drv_if_csr_offset = None, drv_initialized = False,
     drv_ifs = [], drv_pool = pool_init\<rparr>"

definition drv_registers :: "'s nic_bus \<Rightarrow> int \<Rightarrow> nic_driver \<Rightarrow> 's \<Rightarrow> (nic_driver \<times> 's) result option" where
  "drv_registers B hw d s =
     bindO (reg_reads B (map ((+) hw) [0x00, 0x04, 0x08, 0x0c, 0x10, 0x14, 0x20, 0x24, 0x2c]) s) (\<lambda>(v, s1).
       Some (Inr (d\<lparr>drv_fw_id := Some (v ! 0), drv_fw_ver := Some (v ! 1), drv_board_id := Some (v ! 2),
         drv_board_ver := Some (v ! 3), drv_phc_count := Some (v ! 4), drv_phc_offset := Some (v ! 5),
         drv_if_count := v ! 6, drv_if_stride := Some (v ! 7), drv_if_csr_offset := Some (v ! 8)\<rparr>, s1)))"

definition init_dev :: "'s nic_bus \<Rightarrow> pcie_id \<Rightarrow> nic_driver \<Rightarrow> 's \<Rightarrow> (nic_driver \<times> 's) result option" where
  "init_dev B dev d0 s =
     bindO (Some (assertE (\<not> drv_initialized d0))) (\<lambda>_.
     bindO (Some (nb_bar0 B dev s)) (\<lambda>bar.
     let hw = bar AND NOT 0xf in
     bindO (drv_registers B hw (d0\<lparr>drv_initialized := True, drv_dev_id := Some dev, drv_hw_addr := Some hw\<rparr>) s)
       (\<lambda>(d, s1).
     bindO (Some (nb_cfg_read B dev 0x04 s1)) (\<lambda>(val, s2).
     bindO (Some (nb_cfg_write B dev 0x04 (val OR 4) s2)) (\<lambda>s3.
     bindO (Some (nb_configure_msi B dev s3)) (\<lambda>s4.
     bindO (init_all (if_init B dev)
              (map (\<lambda>k. if_new k (hw + k * the (drv_if_stride d)) (the (drv_if_csr_offset d)))
                [0..drv_if_count d - 1]) s4) (\<lambda>(ifs, s5).
       Some (Inr (d\<lparr>drv_ifs := ifs\<rparr>, s5)))))))))"

text \<open>An operation of interface \<open>k\<close>, on the driver.\<close>

definition drv_run ::
  "nat \<Rightarrow> ('s nic \<Rightarrow> 's nic result option) \<Rightarrow> nic_driver \<times> 's \<Rightarrow> (nic_driver \<times> 's) result option" where
  "drv_run k f ds =
     (case ds of (d, s) \<Rightarrow>
        bindO (f \<lparr>nic_pool = drv_pool d, nic_if = drv_ifs d ! k, nic_host = s\<rparr>) (\<lambda>n.
          Some (Inr (d\<lparr>drv_pool := nic_pool n, drv_ifs := (drv_ifs d)[k := nic_if n]\<rparr>, nic_host n))))"

end
