(* ===== verification/NicOwn.thy ===== *)
theory NicOwn
  imports NicDriver "HOL-Library.Multiset"
begin

text \<open>
  Ownership of packet buffers in the NIC driver model. A buffer is free, or held by one slot of
  one transmit or receive queue; never two of these, whatever the device writes into host
  memory and whatever it answers. The driver is a transition system whose steps are the bodies
  between two bus accesses, so that the steps of a transmission may fall between those of the
  interrupt handler; the device moves in between. The locale \<open>buffer_host\<close> is what the driver
  needs of the host: buffers are allocated once and stay.
\<close>

section \<open>Interface: a host with buffers\<close>

locale buffer_host =
  fixes B :: "'s nic_bus" and live :: "'s \<Rightarrow> nat"
  assumes alloc_fresh: "nb_alloc B sz s = Inr (a, h, s') \<Longrightarrow> live s \<le> h \<and> h < live s'"
    and read_live: "nb_read B addr s = Some (Inr (v, s')) \<Longrightarrow> live s \<le> live s'"
    and write_live: "nb_write B addr v s = Inr s' \<Longrightarrow> live s \<le> live s'"
    and set_live: "live (nb_set_mem B h d s) = live s"
begin

lemma reg_writes_live: "reg_writes B ws s = Inr s' \<Longrightarrow> live s \<le> live s'"
proof (induction ws arbitrary: s)
  case (Cons w ws)
  obtain a v where "w = (a, v)" by (cases w)
  with Cons show ?case by (auto simp: bindE_Inr_iff dest!: write_live) (meson le_trans)
qed simp

end

section \<open>The buffers a queue holds\<close>

fun held :: "'b option list \<Rightarrow> 'b multiset" where
  "held [] = {#}"
| "held (None # xs) = held xs"
| "held (Some b # xs) = add_mset b (held xs)"

fun opt_mset :: "'b option \<Rightarrow> 'b multiset" where
  "opt_mset None = {#}"
| "opt_mset (Some b) = {#b#}"

lemma held_Cons: "held (x # xs) = opt_mset x + held xs"
  by (cases x) auto

lemma held_append: "held (xs @ ys) = held xs + held ys"
  by (induction xs rule: held.induct) auto

lemma held_update:
  "i < length xs \<Longrightarrow> held (xs[i := y]) + opt_mset (xs ! i) = held xs + opt_mset y"
proof (induction xs arbitrary: i)
  case (Cons x xs)
  show ?case
  proof (cases i)
    case 0
    then show ?thesis by (simp add: held_Cons ac_simps)
  next
    case (Suc j)
    then have "held (xs[j := y]) + opt_mset (xs ! j) = held xs + opt_mset y" using Cons by simp
    then have "opt_mset x + (held (xs[j := y]) + opt_mset (xs ! j)) = opt_mset x + (held xs + opt_mset y)"
      by simp
    then show ?thesis using Suc by (simp add: held_Cons add.assoc)
  qed
qed simp

lemma held_replicate [simp]: "held (replicate n None) = {#}"
  by (induction n) auto

fun held_all :: "dring list \<Rightarrow> pkt_buf multiset" where
  "held_all [] = {#}"
| "held_all (r # rs) = held (dr_info r) + held_all rs"

lemma held_all_update:
  "k < length rs \<Longrightarrow> held_all (rs[k := r]) + held (dr_info (rs ! k)) = held_all rs + held (dr_info r)"
proof (induction rs arbitrary: k)
  case (Cons x rs)
  show ?case
  proof (cases k)
    case 0
    then show ?thesis by (simp add: ac_simps)
  next
    case (Suc j)
    then have "held_all (rs[j := r]) + held (dr_info (rs ! j)) = held_all rs + held (dr_info r)"
      using Cons by simp
    then have "held (dr_info x) + (held_all (rs[j := r]) + held (dr_info (rs ! j))) =
      held (dr_info x) + (held_all rs + held (dr_info r))" by simp
    then show ?thesis using Suc by (simp add: add.assoc)
  qed
qed simp

lemma held_all_sum: "held_all rs = sum_list (map held (map dr_info rs))"
  by (induction rs) auto

lemma held_all_cong: "map dr_info rs = map dr_info rs' \<Longrightarrow> held_all rs = held_all rs'"
  by (simp only: held_all_sum)

section \<open>Ownership\<close>

text \<open>Every buffer in the pool or in a slot was allocated, each has a region of its own, and
  none is counted twice.\<close>

definition owned :: "('s \<Rightarrow> nat) \<Rightarrow> 's \<Rightarrow> pkt_pool \<Rightarrow> pkt_buf multiset \<Rightarrow> bool" where
  "owned live s p X \<longleftrightarrow>
     mset (pool_free p) + X \<subseteq># mset (pool_allocated p) \<and>
     distinct (map snd (pool_allocated p)) \<and> (\<forall>b \<in> set (pool_allocated p). snd b < live s)"

text \<open>A change of the pool and of the buffers held, during which some buffers are allocated.\<close>

definition moves :: "('s \<Rightarrow> nat) \<Rightarrow> 's \<times> pkt_pool \<times> pkt_buf multiset \<Rightarrow> 's \<times> pkt_pool \<times> pkt_buf multiset \<Rightarrow> bool" where
  "moves live x y \<longleftrightarrow>
     (case x of (s, p, X) \<Rightarrow> case y of (s', p', X') \<Rightarrow>
        live s \<le> live s' \<and>
        (\<exists>new. pool_allocated p' = pool_allocated p @ new \<and>
           mset (pool_free p') + X' \<subseteq># mset (pool_free p) + X + mset new \<and>
           distinct (map snd new) \<and> (\<forall>b \<in> set new. live s \<le> snd b \<and> snd b < live s')))"

lemma movesI:
  assumes "live s \<le> live s'" "pool_allocated p' = pool_allocated p @ new"
    and "mset (pool_free p') + X' \<subseteq># mset (pool_free p) + X + mset new"
    and "distinct (map snd new)" "\<And>b. b \<in> set new \<Longrightarrow> live s \<le> snd b \<and> snd b < live s'"
  shows "moves live (s, p, X) (s', p', X')"
  using assms by (auto simp: moves_def)

lemma moves_same: "live s \<le> live s' \<Longrightarrow> moves live (s, p, X) (s', p, X)"
  by (rule movesI[where new = "[]"]) auto

lemma moves_trans:
  assumes "moves live x y" "moves live y z"
  shows "moves live x z"
proof -
  obtain s p X where x: "x = (s, p, X)" by (cases x) auto
  obtain s' p' X' where y: "y = (s', p', X')" by (cases y) auto
  obtain s'' p'' X'' where z: "z = (s'', p'', X'')" by (cases z) auto
  obtain a where a: "live s \<le> live s'" "pool_allocated p' = pool_allocated p @ a"
    "mset (pool_free p') + X' \<subseteq># mset (pool_free p) + X + mset a" "distinct (map snd a)"
    "\<forall>b \<in> set a. live s \<le> snd b \<and> snd b < live s'"
    using assms(1) by (auto simp: moves_def x y)
  obtain b where b: "live s' \<le> live s''" "pool_allocated p'' = pool_allocated p' @ b"
    "mset (pool_free p'') + X'' \<subseteq># mset (pool_free p') + X' + mset b" "distinct (map snd b)"
    "\<forall>c \<in> set b. live s' \<le> snd c \<and> snd c < live s''"
    using assms(2) by (auto simp: moves_def y z)
  have "mset (pool_free p') + X' + mset b \<subseteq># (mset (pool_free p) + X + mset a) + mset b"
    using a(3) by (rule subset_mset.add_right_mono)
  then have m: "mset (pool_free p'') + X'' \<subseteq># mset (pool_free p) + X + mset (a @ b)"
    using subset_mset.order_trans[OF b(3)] by (simp add: add.assoc)
  have disj: "snd c \<noteq> snd d" if "c \<in> set a" "d \<in> set b" for c d
    using a(5) b(5) that by fastforce
  have "snd ` set a \<inter> snd ` set b = {}" using disj by blast
  then have d: "distinct (map snd (a @ b))" using a(4) b(4) by simp
  have l: "live s \<le> live s''" using a(1) b(1) by simp
  have "live s \<le> snd c \<and> snd c < live s''" if "c \<in> set (a @ b)" for c
    using that a(1,5) b(1,5) by fastforce
  then show ?thesis
    unfolding x z using l m d a(2) b(2) by (intro movesI[where new = "a @ b"]) auto
qed

lemma moves_frame:
  assumes "moves live (s, p, X) (s', p', X')"
  shows "moves live (s, p, X + Z) (s', p', X' + Z)"
proof -
  obtain a where a: "live s \<le> live s'" "pool_allocated p' = pool_allocated p @ a"
    "mset (pool_free p') + X' \<subseteq># mset (pool_free p) + X + mset a" "distinct (map snd a)"
    "\<And>b. b \<in> set a \<Longrightarrow> live s \<le> snd b \<and> snd b < live s'"
    using assms by (auto simp: moves_def)
  have "mset (pool_free p') + X' + Z \<subseteq># mset (pool_free p) + X + mset a + Z"
    using a(3) by (rule subset_mset.add_right_mono)
  then show ?thesis using a by (intro movesI[where new = a]) (simp_all add: ac_simps)
qed

lemma owned_moves:
  assumes "owned live s p X" "moves live (s, p, X) (s', p', X')"
  shows "owned live s' p' X'"
proof -
  obtain a where a: "live s \<le> live s'" "pool_allocated p' = pool_allocated p @ a"
    "mset (pool_free p') + X' \<subseteq># mset (pool_free p) + X + mset a" "distinct (map snd a)"
    "\<forall>b \<in> set a. live s \<le> snd b \<and> snd b < live s'"
    using assms(2) by (auto simp: moves_def)
  have o: "mset (pool_free p) + X \<subseteq># mset (pool_allocated p)" "distinct (map snd (pool_allocated p))"
    "\<forall>b \<in> set (pool_allocated p). snd b < live s"
    using assms(1) by (auto simp: owned_def)
  have "mset (pool_free p) + X + mset a \<subseteq># mset (pool_allocated p) + mset a"
    using o(1) by (rule subset_mset.add_right_mono)
  then have m: "mset (pool_free p') + X' \<subseteq># mset (pool_allocated p')"
    using a(2,3) by (simp add: subset_mset.order_trans)
  have disj: "snd c \<noteq> snd d" if "c \<in> set (pool_allocated p)" "d \<in> set a" for c d
    using o(3) a(5) that by fastforce
  have d: "distinct (map snd (pool_allocated p'))"
    using o(2) a(4) disj unfolding a(2) by auto
  have l: "\<forall>b \<in> set (pool_allocated p'). snd b < live s'"
    using o(3) a(1,5) unfolding a(2) by fastforce
  from m d l show ?thesis by (simp add: owned_def)
qed

text \<open>What ownership excludes.\<close>

lemma owned_once:
  assumes "owned live s p X"
  shows "distinct (pool_free p)" "\<And>b. count X b \<le> 1" "\<And>b. b \<in># X \<Longrightarrow> b \<notin> set (pool_free p)"
proof -
  have d: "distinct (pool_allocated p)" using assms by (auto simp: owned_def distinct_map)
  have c: "count (mset (pool_free p)) b + count X b \<le> 1" for b
  proof -
    have "count (mset (pool_free p) + X) b \<le> count (mset (pool_allocated p)) b"
      using assms unfolding owned_def by (intro mset_subset_eq_count) simp
    also have "\<dots> \<le> 1" using d by (cases b) (simp add: distinct_count_atmost_1)
    finally show ?thesis by simp
  qed
  show "count X b \<le> 1" for b using c[of b] by simp
  have "count (mset (pool_free p)) b \<le> 1" for b using c[of b] by simp
  then show "distinct (pool_free p)"
    by (simp add: distinct_count_atmost_1) (metis One_nat_def bot_nat_0.extremum count_mset_0_iff le_antisym less_one not_less)
  show "b \<notin> set (pool_free p)" if "b \<in># X" for b
  proof
    assume "b \<in> set (pool_free p)"
    then have "0 < count (mset (pool_free p)) b" "0 < count X b" using that by simp_all
    then show False using c[of b] by linarith
  qed
qed

section \<open>The operations of a queue\<close>

text \<open>A step on one queue: its slots before and after.\<close>

abbreviation ring_moves :: "('s \<Rightarrow> nat) \<Rightarrow> 's \<Rightarrow> pkt_pool \<Rightarrow> dring \<Rightarrow> 's \<Rightarrow> pkt_pool \<Rightarrow> dring \<Rightarrow> bool" where
  "ring_moves live s p r s' p' r' \<equiv> moves live (s, p, held (dr_info r)) (s', p', held (dr_info r'))"

lemma free_desc_moves:
  assumes "tx_free_desc k r p = Inr (r', p')"
  shows "ring_moves live s p r s p' r'"
proof -
  obtain b where k: "k < length (dr_info r)" "dr_info r ! k = Some b" and
    e: "r' = r\<lparr>dr_info := (dr_info r)[k := None]\<rparr>" "p' = p\<lparr>pool_free := pool_free p @ [b]\<rparr>"
    using assms by (auto simp: tx_free_desc_def free_pkt_def bindE_Inr_iff py_nth_def
        split: option.splits if_splits)
  have "held ((dr_info r)[k := None]) + {#b#} = held (dr_info r)"
    using held_update[OF k(1), of None] k(2) by simp
  then show ?thesis unfolding e by (intro movesI[where new = "[]"]) (simp_all add: ac_simps)
qed

lemma rx_free_desc_tx: "rx_free_desc = tx_free_desc"
  by (intro ext) (simp add: rx_free_desc_def tx_free_desc_def)

context buffer_host
begin

lemma alloc_pkt_moves:
  assumes "alloc_pkt B p s = Inr (b, p', s')"
  shows "moves live (s, p, X) (s', p', add_mset b X)"
proof (cases "pool_free p = []")
  case True
  then obtain h where h: "nb_alloc B pkt_buf_size s = Inr (fst b, h, s')" "b = (fst b, h)"
    "p' = p\<lparr>pool_allocated := pool_allocated p @ [b]\<rparr>"
    using assms by (auto simp: alloc_pkt_def bindE_Inr_iff)
  have "live s \<le> h" "h < live s'" "snd b = h" using alloc_fresh[OF h(1)] h(2) by (auto, metis snd_conv)
  then show ?thesis using h(3) by (intro movesI[where new = "[b]"]) auto
next
  case False
  then have e: "b = last (pool_free p)" "p' = p\<lparr>pool_free := butlast (pool_free p)\<rparr>" "s' = s"
    using assms by (auto simp: alloc_pkt_def)
  have "mset (pool_free p) = add_mset b (mset (butlast (pool_free p)))"
    using append_butlast_last_id[OF False] unfolding e(1) by (metis mset_append mset.simps union_mset_add_mset_right add_0_right)
  then show ?thesis unfolding e by (intro movesI[where new = "[]"]) simp_all
qed

text \<open>Storing a buffer in a slot; what the slot held before is dropped.\<close>

lemma store_moves:
  assumes "alloc_pkt B p s = Inr (b, p', s1)" "i < length (dr_info r)" "live s1 \<le> live s'"
  shows "moves live (s, p, held (dr_info r)) (s', p', held ((dr_info r)[i := Some b]))"
proof -
  have "held ((dr_info r)[i := Some b]) \<subseteq># add_mset b (held (dr_info r))"
    using held_update[OF assms(2), of "Some b"] by (metis add_mset_add_single mset_subset_eq_add_left opt_mset.simps(2))
  then have "moves live (s1, p', add_mset b (held (dr_info r))) (s', p', held ((dr_info r)[i := Some b]))"
    using assms(3) by (intro movesI[where new = "[]"]) (auto intro: subset_mset.add_left_mono)
  with alloc_pkt_moves[OF assms(1)] show ?thesis by (rule moves_trans)
qed

lemma prepare_desc_moves:
  assumes "prepare_desc B i r p s = Inr (r', p', s')"
  shows "ring_moves live s p r s' p' r'"
proof -
  obtain b s1 mem where a: "alloc_pkt B p s = Inr (b, p', s1)" "i < length (dr_info r)"
    and e: "r' = r\<lparr>dr_info := (dr_info r)[i := Some b]\<rparr>" "s' = nb_set_mem B (dr_buf r) mem s1"
    using assms by (auto simp: prepare_desc_def bindE_Inr_iff py_set_def split: if_splits)
  show ?thesis unfolding e by (simp add: store_moves[OF a] set_live)
qed

lemma refill_slots_moves:
  "refill_slots B n r p s = Inr (r', p', s') \<Longrightarrow> ring_moves live s p r s' p' r'"
proof (induction n arbitrary: r p s)
  case 0
  then show ?case by (auto intro: moves_same)
next
  case (Suc n)
  then obtain r1 p1 s1 where p1: "prepare_desc B (dr_slot r (dr_head r)) r p s = Inr (r1, p1, s1)"
    and rest: "refill_slots B n (r1\<lparr>dr_head := dr_head r1 + 1\<rparr>) p1 s1 = Inr (r', p', s')"
    by (auto simp: bindE_Inr_iff)
  from prepare_desc_moves[OF p1] Suc.IH[OF rest] show ?case by simp (rule moves_trans)
qed

lemma refill_buffers_moves:
  "refill_buffers B r p s = Inr (r', p', s') \<Longrightarrow> ring_moves live s p r s' p' r'"
  by (auto simp: refill_buffers_def bindE_Inr_iff rx_write_head_ptr_def split: if_splits
      intro: moves_same dest!: refill_slots_moves write_live elim: moves_trans[OF _ moves_same])

lemma xmit_ring_moves:
  assumes "xmit_ring B d c r p s = Inr (r', p', s')"
  shows "ring_moves live s p r s' p' r'"
proof -
  obtain b s1 pm mem where a: "alloc_pkt B p s = Inr (b, p', s1)"
      "dr_slot r (dr_head r) < length (dr_info r)"
    and e: "dr_info r' = (dr_info r)[dr_slot r (dr_head r) := Some b]"
      "s' = nb_set_mem B (dr_buf r) mem (nb_set_mem B (snd b) pm s1)"
    using assms by (auto simp: xmit_ring_def bindE_Inr_iff py_set_def Let_def split: if_splits)
  show ?thesis unfolding e by (simp add: store_moves[OF a] set_live)
qed

end

section \<open>Loops\<close>

lemma drain_inv_raw:
  "drain f h t x = Some r \<Longrightarrow> (\<And>t x x'. P x \<Longrightarrow> f t x = Inr x' \<Longrightarrow> P x') \<Longrightarrow> P x \<Longrightarrow>
   (case r of Inr y \<Rightarrow> P (snd y) | Inl e \<Rightarrow> True)"
proof (induction f h t x r rule: drain.raw_induct[rotated, consumes 1, case_names step])
  case (step dr f h t x r)
  show ?case
  proof (cases "h = t")
    case True
    then show ?thesis using step(2,4) by auto
  next
    case False
    show ?thesis
    proof (cases "f t x")
      case (Inl e)
      then show ?thesis using step(2) False by auto
    next
      case (Inr y)
      then have "dr f h (t + 1) y = Some r" using step(2) False by simp
      then show ?thesis using step(1) step(3) step(3)[OF step(4) Inr] by blast
    qed
  qed
qed

lemma drain_inv:
  assumes "drain f h t x = Some (Inr (t', x'))" "P x" "\<And>t x x'. P x \<Longrightarrow> f t x = Inr x' \<Longrightarrow> P x'"
  shows "P x'"
  using drain_inv_raw[where P = P, OF assms(1)] assms(2,3) by fastforce

end
