(* ===== verification/NicSteps.thy ===== *)
theory NicSteps
  imports NicOwn
begin

text \<open>
  The NIC driver as a transition system: every operation of an interface is a sequence of
  steps, so what holds of every reachable state holds after every operation, and between the
  bus accesses of several operations that are under way.
\<close>

section \<open>Steps\<close>

definition if_held :: "nic_if \<Rightarrow> pkt_buf multiset" where
  "if_held i = held_all (if_txs i) + held_all (if_rxs i)"

definition nic_owned :: "('s \<Rightarrow> nat) \<Rightarrow> 's nic \<Rightarrow> bool" where
  "nic_owned live n \<longleftrightarrow> owned live (nic_host n) (nic_pool n) (if_held (nic_if n))"

definition same_slots :: "nic_if \<Rightarrow> nic_if \<Rightarrow> bool" where
  "same_slots i i' \<longleftrightarrow>
     map dr_info (if_txs i') = map dr_info (if_txs i) \<and> map dr_info (if_rxs i') = map dr_info (if_rxs i)"

text \<open>The device and the rest of the host move; the driver moves pointers; a packet is put into
  a transmit queue; completion records are drained; receive slots are refilled.\<close>

inductive nic_step :: "'s nic_bus \<Rightarrow> ('s \<Rightarrow> nat) \<Rightarrow> 's nic \<Rightarrow> 's nic \<Rightarrow> bool" for B live where
  device: "live (nic_host n) \<le> live s \<Longrightarrow> nic_step B live n (n\<lparr>nic_host := s\<rparr>)"
| pointers: "same_slots (nic_if n) i \<Longrightarrow> nic_step B live n (n\<lparr>nic_if := i\<rparr>)"
| xmit: "k < length (if_txs (nic_if n)) \<Longrightarrow> xmit_fill B d csum k n = Inr n' \<Longrightarrow> nic_step B live n n'"
| txd: "k < length (if_txs (nic_if n)) \<Longrightarrow> tx_drain B c k cq n = Some (Inr n') \<Longrightarrow> nic_step B live n n'"
| rxd: "k < length (if_rxs (nic_if n)) \<Longrightarrow> rx_drain B c k cq n = Some (Inr n') \<Longrightarrow> nic_step B live n n'"
| refill: "k < length (if_rxs (nic_if n)) \<Longrightarrow>
    refill_slots B m (if_rxs (nic_if n) ! k) (nic_pool n) (nic_host n) = Inr (r, p, s) \<Longrightarrow>
    nic_step B live n \<lparr>nic_pool = p, nic_if = (nic_if n)\<lparr>if_rxs := (if_rxs (nic_if n))[k := r]\<rparr>, nic_host = s\<rparr>"

abbreviation nic_steps :: "'s nic_bus \<Rightarrow> ('s \<Rightarrow> nat) \<Rightarrow> 's nic \<Rightarrow> 's nic \<Rightarrow> bool" where
  "nic_steps B live \<equiv> (nic_step B live)\<^sup>*\<^sup>*"

lemma map_dr_info_update:
  "dr_info r = dr_info (rs ! k) \<Longrightarrow> map dr_info (rs[k := r]) = map dr_info rs"
  by (metis list_update_id map_update)

lemma held_all_split:
  "k < length rs \<Longrightarrow> \<exists>Z. held_all rs = held (dr_info (rs ! k)) + Z \<and> (\<forall>r. held_all (rs[k := r]) = held (dr_info r) + Z)"
proof (induction rs arbitrary: k)
  case (Cons x rs)
  show ?case
  proof (cases k)
    case 0
    then show ?thesis by auto
  next
    case (Suc j)
    then obtain Z where "held_all rs = held (dr_info (rs ! j)) + Z"
      "\<forall>r. held_all (rs[j := r]) = held (dr_info r) + Z" using Cons by auto
    then show ?thesis using Suc by (intro exI[of _ "held (dr_info x) + Z"]) (simp add: ac_simps)
  qed
qed simp

lemma if_held_tx:
  assumes "k < length (if_txs i)" "ring_moves live s p (if_txs i ! k) s' p' r"
    and "if_txs i' = (if_txs i)[k := r]" "if_rxs i' = if_rxs i"
  shows "moves live (s, p, if_held i) (s', p', if_held i')"
proof -
  obtain Z where Z: "held_all (if_txs i) = held (dr_info (if_txs i ! k)) + Z"
    "held_all (if_txs i') = held (dr_info r) + Z"
    using held_all_split[OF assms(1)] assms(3) by metis
  show ?thesis
    using moves_frame[OF assms(2), of "Z + held_all (if_rxs i)"] unfolding if_held_def Z assms(4)
    by (simp add: ac_simps)
qed

lemma if_held_rx:
  assumes "k < length (if_rxs i)" "ring_moves live s p (if_rxs i ! k) s' p' r"
    and "if_rxs i' = (if_rxs i)[k := r]" "if_txs i' = if_txs i"
  shows "moves live (s, p, if_held i) (s', p', if_held i')"
proof -
  obtain Z where Z: "held_all (if_rxs i) = held (dr_info (if_rxs i ! k)) + Z"
    "held_all (if_rxs i') = held (dr_info r) + Z"
    using held_all_split[OF assms(1)] assms(3) by metis
  show ?thesis
    using moves_frame[OF assms(2), of "Z + held_all (if_txs i)"] unfolding if_held_def Z assms(4)
    by (simp add: ac_simps)
qed

lemma tx_drain_moves:
  assumes "k < length (if_txs (nic_if n))" "tx_drain B c k cq n = Some (Inr n')"
  shows "moves live (nic_host n, nic_pool n, if_held (nic_if n)) (nic_host n', nic_pool n', if_held (nic_if n'))"
proof -
  let ?s = "nic_host n" and ?i = "nic_if n"
  obtain t r p where d: "drain (tx_entry (nb_mem B ?s (cr_buf cq)) cq) (cr_head cq) (cr_tail cq)
      (if_txs ?i ! k, nic_pool n) = Some (Inr (t, r, p))"
    and n': "n' = n\<lparr>nic_pool := p, nic_if := ?i\<lparr>if_txs := (if_txs ?i)[k := r],
         if_tx_cqs := (if_tx_cqs ?i)[c := cq\<lparr>cr_tail := t\<rparr>]\<rparr>\<rparr>"
    using assms(2) by (auto simp: tx_drain_def bindO_Inr_iff)
  have "ring_moves live ?s (nic_pool n) (if_txs ?i ! k) ?s (snd (r, p)) (fst (r, p))"
  proof (rule drain_inv[OF d])
    show "ring_moves live ?s (nic_pool n) (if_txs ?i ! k) ?s (snd (if_txs ?i ! k, nic_pool n))
      (fst (if_txs ?i ! k, nic_pool n))" by (simp add: moves_same)
    fix t x x'
    assume m: "ring_moves live ?s (nic_pool n) (if_txs ?i ! k) ?s (snd x) (fst x)"
      and e: "tx_entry (nb_mem B ?s (cr_buf cq)) cq t x = Inr x'"
    from e obtain j where "tx_free_desc j (fst x) (snd x) = Inr (fst x', snd x')"
      by (auto simp: tx_entry_def bindE_Inr_iff)
    from moves_trans[OF m free_desc_moves[OF this]]
    show "ring_moves live ?s (nic_pool n) (if_txs ?i ! k) ?s (snd x') (fst x')" .
  qed
  then show ?thesis unfolding n' by (intro if_held_tx[OF assms(1), where r = r]) simp_all
qed

lemma rx_entry_free:
  assumes "rx_entry mem cq t (r, p, ps) = Inr (r', p', ps')"
  shows "\<exists>j. tx_free_desc j r p = Inr (r', p')"
  using assms by (auto simp: rx_entry_def bindE_Inr_iff rx_free_desc_tx Let_def split: option.splits)

lemma rx_drain_moves:
  assumes "k < length (if_rxs (nic_if n))" "rx_drain B c k cq n = Some (Inr n')"
  shows "moves live (nic_host n, nic_pool n, if_held (nic_if n)) (nic_host n', nic_pool n', if_held (nic_if n'))"
proof -
  let ?s = "nic_host n" and ?i = "nic_if n"
  let ?P = "\<lambda>x :: dring \<times> pkt_pool \<times> packet list.
    ring_moves live ?s (nic_pool n) (if_rxs ?i ! k) ?s (fst (snd x)) (fst x)"
  obtain t r p ps where d: "drain (rx_entry (nb_mem B ?s) cq) (cr_head cq) (cr_tail cq)
      (if_rxs ?i ! k, nic_pool n, []) = Some (Inr (t, r, p, ps))"
    and n': "if_rxs (nic_if n') = (if_rxs ?i)[k := r]" "if_txs (nic_if n') = if_txs ?i"
      "nic_pool n' = p" "nic_host n' = ?s"
    using assms(2) by (auto simp: rx_drain_def bindO_Inr_iff Let_def)
  have "?P (r, p, ps)"
  proof (rule drain_inv[OF d])
    show "?P (if_rxs ?i ! k, nic_pool n, [])" by (simp add: moves_same)
    fix t x x'
    assume m: "?P x" and e: "rx_entry (nb_mem B ?s) cq t x = Inr x'"
    from e have "rx_entry (nb_mem B ?s) cq t (fst x, fst (snd x), snd (snd x)) =
      Inr (fst x', fst (snd x'), snd (snd x'))" by simp
    from rx_entry_free[OF this] obtain j where
      "tx_free_desc j (fst x) (fst (snd x)) = Inr (fst x', fst (snd x'))" ..
    from moves_trans[OF m free_desc_moves[OF this]] show "?P x'" .
  qed
  then show ?thesis unfolding n'(3,4) by (intro if_held_rx[OF assms(1) _ n'(1,2)]) simp
qed

context buffer_host
begin

lemma step_moves:
  "nic_step B live n n' \<Longrightarrow>
   moves live (nic_host n, nic_pool n, if_held (nic_if n)) (nic_host n', nic_pool n', if_held (nic_if n'))"
proof (induction rule: nic_step.induct)
  case (device n s)
  then show ?case by (simp add: moves_same)
next
  case (pointers n i)
  then have "if_held i = if_held (nic_if n)"
    unfolding if_held_def same_slots_def using held_all_cong by metis
  then show ?case by (simp add: moves_same)
next
  case (xmit k n d csum n')
  then obtain r p s where "xmit_ring B d csum (if_txs (nic_if n) ! k) (nic_pool n) (nic_host n) = Inr (r, p, s)"
    and n': "n' = \<lparr>nic_pool = p, nic_if = (nic_if n)\<lparr>if_txs := (if_txs (nic_if n))[k := r]\<rparr>, nic_host = s\<rparr>"
    by (auto simp: xmit_fill_def bindE_Inr_iff)
  from xmit_ring_moves[OF this(1)] show ?case unfolding n'
    by (intro if_held_tx[OF xmit(1), where r = r]) simp_all
next
  case (txd k n c cq n')
  then show ?case by (rule tx_drain_moves)
next
  case (rxd k n c cq n')
  then show ?case by (rule rx_drain_moves)
next
  case (refill k n m r p s)
  then show ?case using refill_slots_moves by (intro if_held_rx[OF refill(1), where r = r]) simp_all
qed

lemma owned_steps: "nic_steps B live n n' \<Longrightarrow> nic_owned live n \<Longrightarrow> nic_owned live n'"
  by (induction rule: rtranclp_induct) (auto simp: nic_owned_def intro: owned_moves dest: step_moves)

lemma step_lengths:
  "nic_step B live n n' \<Longrightarrow> length (if_txs (nic_if n')) = length (if_txs (nic_if n)) \<and>
     length (if_rxs (nic_if n')) = length (if_rxs (nic_if n))"
  by (induction rule: nic_step.induct)
    (auto simp: same_slots_def xmit_fill_def tx_drain_def rx_drain_def bindE_Inr_iff bindO_Inr_iff Let_def
      dest: map_eq_imp_length_eq)

lemma steps_lengths:
  "nic_steps B live n n' \<Longrightarrow> length (if_txs (nic_if n')) = length (if_txs (nic_if n)) \<and>
     length (if_rxs (nic_if n')) = length (if_rxs (nic_if n))"
  by (induction rule: rtranclp_induct) (auto dest: step_lengths)

section \<open>Operations are sequences of steps\<close>

lemma host_steps: "live (nic_host n) \<le> live s \<Longrightarrow> nic_steps B live n (n\<lparr>nic_host := s\<rparr>)"
  by (rule r_into_rtranclp) (rule nic_step.device)

lemma pointer_steps: "same_slots (nic_if n) i \<Longrightarrow> nic_steps B live n (n\<lparr>nic_if := i\<rparr>)"
  by (rule r_into_rtranclp) (rule nic_step.pointers)

lemma on_if_steps: "same_slots (nic_if n) (f (nic_if n)) \<Longrightarrow> nic_steps B live n (on_if f n)"
  unfolding on_if_def by (rule pointer_steps)

lemma on_host_steps:
  "on_host f n = Inr n' \<Longrightarrow> (\<And>s. f (nic_host n) = Inr s \<Longrightarrow> live (nic_host n) \<le> live s) \<Longrightarrow> nic_steps B live n n'"
  by (auto simp: on_host_def bindE_Inr_iff intro: host_steps)

lemma tx_clean_steps:
  assumes "tx_clean k r n = Some (Inr n')" "dr_info r = dr_info (if_txs (nic_if n) ! k)"
  shows "nic_steps B live n n'"
  using assms by (auto simp: tx_clean_def bindO_Inr_iff same_slots_def map_dr_info_update intro!: on_if_steps)

lemma rx_clean_steps:
  assumes "rx_clean k r n = Some (Inr n')" "dr_info r = dr_info (if_rxs (nic_if n) ! k)"
  shows "nic_steps B live n n'"
  using assms by (auto simp: rx_clean_def bindO_Inr_iff same_slots_def map_dr_info_update intro!: on_if_steps)

lemma rx_refill_steps:
  assumes "rx_refill B k n = Inr n'" "k < length (if_rxs (nic_if n))"
  shows "nic_steps B live n n'"
proof (cases "refill_missing (if_rxs (nic_if n) ! k) < 8")
  case True
  then have "n' = n" using assms(1) by (auto simp: rx_refill_def refill_buffers_def)
  then show ?thesis by simp
next
  case False
  let ?m = "nat (refill_missing (if_rxs (nic_if n) ! k))"
  obtain r p s s' where r: "refill_slots B ?m (if_rxs (nic_if n) ! k) (nic_pool n) (nic_host n) = Inr (r, p, s)"
    "rx_write_head_ptr B r s = Inr s'"
    and n': "n' = \<lparr>nic_pool = p, nic_if = (nic_if n)\<lparr>if_rxs := (if_rxs (nic_if n))[k := r]\<rparr>, nic_host = s\<rparr>
        \<lparr>nic_host := s'\<rparr>"
    using assms(1) False by (auto simp: rx_refill_def refill_buffers_def bindE_Inr_iff)
  have "live s \<le> live s'" using r(2) write_live by (simp add: rx_write_head_ptr_def)
  with nic_step.refill[OF assms(2) r(1)] show ?thesis unfolding n'
    by (intro converse_rtranclp_into_rtranclp[OF _ host_steps]) simp_all
qed

lemma read_steps:
  assumes "cq_read_head_ptr B q (nic_host n) = Some (Inr (q', s))"
  shows "nic_steps B live n (n\<lparr>nic_host := s\<rparr>)"
  using assms read_live by (auto simp: cq_read_head_ptr_def bindO_Inr_iff intro!: host_steps)

lemma tx_tail_steps:
  assumes "tx_read_tail_ptr B r (nic_host n) = Some (Inr (r', s))"
  shows "nic_steps B live n (n\<lparr>nic_host := s\<rparr>) \<and> dr_info r' = dr_info r"
  using assms read_live by (auto simp: tx_read_tail_ptr_def bindO_Inr_iff intro!: host_steps)

lemma rx_tail_steps:
  assumes "rx_read_tail_ptr B r (nic_host n) = Some (Inr (r', s))"
  shows "nic_steps B live n (n\<lparr>nic_host := s\<rparr>) \<and> dr_info r' = dr_info r"
  using assms read_live by (auto simp: rx_read_tail_ptr_def bindO_Inr_iff intro!: host_steps)

lemma cq_tail_steps:
  assumes "on_host (cq_write_tail_ptr B q) n = Inr n'"
  shows "nic_steps B live n n'"
  using assms by (rule on_host_steps) (auto simp: cq_write_tail_ptr_def dest: write_live)

lemma on_host_if [simp]: "on_host f n = Inr n' \<Longrightarrow> nic_if n' = nic_if n"
  by (auto simp: on_host_def bindE_Inr_iff)

lemma process_tx_cq_steps:
  assumes "process_tx_cq B c n = Some (Inr n')"
  shows "nic_steps B live n n'"
proof -
  let ?q = "if_tx_cqs (nic_if n) ! c"
  obtain k where k: "py_index (length (if_txs (nic_if n))) (cr_ring_index ?q) = Inr k"
    using assms by (auto simp: process_tx_cq_def bindO_Inr_iff Let_def)
  show ?thesis
  proof (cases "if_port_up (nic_if n)")
    case False
    then show ?thesis using assms k by (auto simp: process_tx_cq_def Let_def)
  next
    case True
    obtain q1 s1 n1 n2 r s3 where
      a: "cq_read_head_ptr B ?q (nic_host n) = Some (Inr (q1, s1))"
      and b: "tx_drain B c k q1 (n\<lparr>nic_host := s1\<rparr>) = Some (Inr n1)"
      and c: "on_host (cq_write_tail_ptr B (if_tx_cqs (nic_if n1) ! c)) n1 = Inr n2"
      and d: "tx_read_tail_ptr B (if_txs (nic_if n2) ! k) (nic_host n2) = Some (Inr (r, s3))"
      and e: "tx_clean k r (n2\<lparr>nic_host := s3\<rparr>) = Some (Inr n')"
      using assms k True by (auto simp: process_tx_cq_def bindO_Inr_iff Let_def)
    have "nic_step B live (n\<lparr>nic_host := s1\<rparr>) n1"
      by (rule nic_step.txd[OF _ b]) (simp add: py_index_less[OF k])
    with read_steps[OF a] have "nic_steps B live n n1" by (rule rtranclp.rtrancl_into_rtrancl)
    also have "nic_steps B live n1 n2" by (rule cq_tail_steps[OF c])
    also have "nic_steps B live n2 (n2\<lparr>nic_host := s3\<rparr>)" using tx_tail_steps[OF d] ..
    also have "nic_steps B live (n2\<lparr>nic_host := s3\<rparr>) n'"
      using tx_tail_steps[OF d] by (intro tx_clean_steps[OF e]) simp
    finally show ?thesis .
  qed
qed

lemma process_rx_cq_steps:
  assumes "process_rx_cq B c n = Some (Inr n')"
  shows "nic_steps B live n n'"
proof -
  let ?q = "if_rx_cqs (nic_if n) ! c"
  obtain k where k: "py_index (length (if_rxs (nic_if n))) (cr_ring_index ?q) = Inr k"
    using assms by (auto simp: process_rx_cq_def bindO_Inr_iff Let_def)
  show ?thesis
  proof (cases "if_port_up (nic_if n)")
    case False
    then show ?thesis using assms k by (auto simp: process_rx_cq_def Let_def)
  next
    case True
    obtain q1 s1 n1 n2 r s3 n3 where
      a: "cq_read_head_ptr B ?q (nic_host n) = Some (Inr (q1, s1))"
      and b: "rx_drain B c k q1 (n\<lparr>nic_host := s1\<rparr>) = Some (Inr n1)"
      and c: "on_host (cq_write_tail_ptr B (if_rx_cqs (nic_if n1) ! c)) n1 = Inr n2"
      and d: "rx_read_tail_ptr B (if_rxs (nic_if n2) ! k) (nic_host n2) = Some (Inr (r, s3))"
      and e: "rx_clean k r (n2\<lparr>nic_host := s3\<rparr>) = Some (Inr n3)"
      and f: "rx_refill B k n3 = Inr n'"
      using assms k True by (auto simp: process_rx_cq_def bindO_Inr_iff Let_def)
    have "nic_step B live (n\<lparr>nic_host := s1\<rparr>) n1"
      by (rule nic_step.rxd[OF _ b]) (simp add: py_index_less[OF k])
    with read_steps[OF a] have "nic_steps B live n n1" by (rule rtranclp.rtrancl_into_rtrancl)
    also have "nic_steps B live n1 n2" by (rule cq_tail_steps[OF c])
    also have "nic_steps B live n2 (n2\<lparr>nic_host := s3\<rparr>)" using rx_tail_steps[OF d] ..
    also have "nic_steps B live (n2\<lparr>nic_host := s3\<rparr>) n3"
      using rx_tail_steps[OF d] by (intro rx_clean_steps[OF e]) simp
    finally have st: "nic_steps B live n n3" .
    then have "k < length (if_rxs (nic_if n3))"
      using steps_lengths py_index_less[OF k] by metis
    from rx_refill_steps[OF f this] st show ?thesis by (rule rtranclp_trans[rotated])
  qed
qed

lemma cq_arm_steps:
  "on_host (cq_arm B q) n = Inr n' \<Longrightarrow> nic_steps B live n n'"
  by (erule on_host_steps) (auto simp: cq_arm_def dest: write_live)

lemma eq_arm_steps:
  "on_host (eq_arm B q) n = Inr n' \<Longrightarrow> nic_steps B live n n'"
  by (erule on_host_steps) (auto simp: eq_arm_def dest: write_live)

lemma event_step_steps:
  assumes "event_step B e t n = Some (Inr n')"
  shows "nic_steps B live n n'"
  using assms
  by (auto simp: event_step_def bindO_Inr_iff Let_def split: if_splits
      dest!: process_tx_cq_steps process_rx_cq_steps cq_arm_steps)

lemma event_loop_raw:
  "event_loop B' e t n = Some r \<Longrightarrow> B' = B \<Longrightarrow>
   (case r of Inr y \<Rightarrow> nic_steps B live n (snd y) | Inl e \<Rightarrow> True)"
proof (induction B' e t n r rule: event_loop.raw_induct[rotated, consumes 1, case_names step])
  case (step el B' e t n r)
  show ?case
  proof (cases "cr_head (if_eqs (nic_if n) ! e) = t")
    case True
    then show ?thesis using step(2) by auto
  next
    case False
    show ?thesis
    proof (cases "event_step B e t n")
      case None
      then show ?thesis using step(2,3) False by auto
    next
      case (Some x)
      show ?thesis
      proof (cases x)
        case (Inl a)
        then show ?thesis using step(2,3) False Some by auto
      next
        case (Inr n1)
        then have "el B' e (t + 1) n1 = Some r" using step(2,3) False Some by auto
        from step(1)[OF this step(3)] event_step_steps[of e t n n1] Some Inr show ?thesis
          by (auto split: sum.splits)
      qed
    qed
  qed
qed

lemma event_loop_steps: "event_loop B e t n = Some (Inr (t', n')) \<Longrightarrow> nic_steps B live n n'"
  using event_loop_raw[of B e t n "Inr (t', n')"] by simp

lemma set_eq_steps: "nic_steps B live n (set_eq e q n)"
  unfolding set_eq_def by (rule on_if_steps) (simp add: same_slots_def)

lemma eq_process_steps:
  assumes "eq_process B e n = Some (Inr n')"
  shows "nic_steps B live n n'"
proof (cases "if_port_up (nic_if n)")
  case False
  then show ?thesis using assms by (simp add: eq_process_def)
next
  case True
  obtain q s1 t n1 where a: "eq_read_head_ptr B (if_eqs (nic_if n) ! e) (nic_host n) = Some (Inr (q, s1))"
    and b: "event_loop B e (cr_tail q) (set_eq e q (n\<lparr>nic_host := s1\<rparr>)) = Some (Inr (t, n1))"
    and c: "on_host (eq_write_tail_ptr B (if_eqs (nic_if (set_eq e ((if_eqs (nic_if n1) ! e)\<lparr>cr_tail := t\<rparr>) n1)) ! e))
        (set_eq e ((if_eqs (nic_if n1) ! e)\<lparr>cr_tail := t\<rparr>) n1) = Inr n'"
    using assms True by (auto simp: eq_process_def bindO_Inr_iff Let_def)
  have "nic_steps B live n (n\<lparr>nic_host := s1\<rparr>)"
    using a read_live by (auto simp: eq_read_head_ptr_def bindO_Inr_iff intro!: host_steps)
  also have "nic_steps B live \<dots> (set_eq e q (n\<lparr>nic_host := s1\<rparr>))" by (rule set_eq_steps)
  also have "nic_steps B live \<dots> n1" by (rule event_loop_steps[OF b])
  also have "nic_steps B live n1 (set_eq e ((if_eqs (nic_if n1) ! e)\<lparr>cr_tail := t\<rparr>) n1)"
    by (rule set_eq_steps)
  also have "nic_steps B live \<dots> n'"
    by (rule on_host_steps[OF c]) (auto simp: eq_write_tail_ptr_def dest: write_live)
  finally show ?thesis .
qed

lemma eq_service_steps:
  assumes "eq_service B e n = Some (Inr n')"
  shows "nic_steps B live n n'"
  using assms
  by (auto simp: eq_service_def bindO_Inr_iff dest!: eq_process_steps eq_arm_steps)

lemma foldO_steps:
  assumes "foldO f xs n = Some (Inr n')" "\<And>x n n'. f x n = Some (Inr n') \<Longrightarrow> nic_steps B live n n'"
  shows "nic_steps B live n n'"
  using assms(1)
proof (induction xs arbitrary: n)
  case (Cons x xs)
  then show ?case using assms(2) by (auto simp: bindO_Inr_iff) (meson rtranclp_trans)
qed simp

lemma interrupt_body_steps:
  assumes "interrupt_body B n = Some (Inr n')"
  shows "nic_steps B live n n'"
proof -
  obtain n1 where a: "foldO (eq_service B) [0..<length (if_eqs (nic_if n))]
      (on_if (\<lambda>i. i\<lparr>if_intr_running := True\<rparr>) n) = Some (Inr n1)"
    and n': "n' = on_if (\<lambda>i. i\<lparr>if_intr_running := False, if_intr_pending := if_intr_pending i +
         irq_arrivals B (nat (if_index i)) (nic_host n) (nic_host n1)\<rparr>) n1"
    using assms by (auto simp: interrupt_body_def bindO_Inr_iff)
  have "nic_steps B live n (on_if (\<lambda>i. i\<lparr>if_intr_running := True\<rparr>) n)"
    by (rule on_if_steps) (simp add: same_slots_def)
  also have "nic_steps B live \<dots> n1" by (rule foldO_steps[OF a eq_service_steps])
  also have "nic_steps B live n1 n'" unfolding n' by (rule on_if_steps) (simp add: same_slots_def)
  finally show ?thesis .
qed

lemma interrupt_pending_raw:
  "interrupt_pending B' n = Some r \<Longrightarrow> B' = B \<Longrightarrow>
   (case r of Inr n' \<Rightarrow> nic_steps B live n n' \<and> if_intr_pending (nic_if n') = 0 | Inl e \<Rightarrow> True)"
proof (induction B' n r rule: interrupt_pending.raw_induct[rotated, consumes 1, case_names step])
  case (step ip B' n r)
  let ?n = "on_if (\<lambda>i. i\<lparr>if_intr_pending := if_intr_pending i - 1\<rparr>) n"
  show ?case
  proof (cases "if_intr_pending (nic_if n) = 0")
    case True
    then show ?thesis using step(2) by auto
  next
    case False
    note eq = step(2)[unfolded step(3), simplified False if_False]
    show ?thesis
    proof (cases r)
      case (Inr n')
      then obtain n1 n2 where b: "interrupt_body B ?n = Some (Inr n1)"
        "ip B n1 = Some (Inr n2)" "ip B n2 = Some (Inr n')"
        using eq by (auto simp: bindO_Inr_iff)
      have "nic_steps B live n ?n" by (rule on_if_steps) (simp add: same_slots_def)
      also have "nic_steps B live ?n n1" by (rule interrupt_body_steps[OF b(1)])
      also have "nic_steps B live n1 n2" using step(1)[OF b(2)] by simp
      finally show ?thesis using step(1)[OF b(3)] Inr by auto
    qed simp
  qed
qed

lemma if_interrupt_steps:
  assumes "if_interrupt B n = Some (Inr n')"
  shows "nic_steps B live n n' \<and> (\<not> if_intr_running (nic_if n) \<longrightarrow> if_intr_pending (nic_if n') = 0)"
proof (cases "if_intr_running (nic_if n)")
  case True
  then have "n' = on_if (\<lambda>i. i\<lparr>if_intr_pending := if_intr_pending i + 1\<rparr>) n"
    using assms by (simp add: if_interrupt_def)
  then show ?thesis using True by (auto simp: same_slots_def intro!: on_if_steps)
next
  case False
  then obtain n1 where "interrupt_body B n = Some (Inr n1)" "interrupt_pending B n1 = Some (Inr n')"
    using assms by (auto simp: if_interrupt_def bindO_Inr_iff)
  then show ?thesis
    using rtranclp_trans[OF interrupt_body_steps[of n n1]] interrupt_pending_raw[of B n1 "Inr n'"] False
    by simp
qed

lemma start_xmit_steps:
  assumes "start_xmit B skb ring a b n = Inr n'"
  shows "nic_steps B live n n'"
proof (cases "if_port_up (nic_if n)")
  case False
  then show ?thesis using assms by (simp add: start_xmit_def)
next
  case True
  obtain k n1 where k: "tx_select ring n = Inr k"
    and f: "xmit_fill B (skb_data skb) (csum_cmd a b) k n = Inr n1"
    and w: "on_host (tx_write_head_ptr B (if_txs (nic_if n1) ! k)) n1 = Inr n'"
    using assms True by (auto simp: start_xmit_def bindE_Inr_iff)
  have "k < length (if_txs (nic_if n))"
    using k py_index_less by (auto simp: tx_select_def split: option.splits)
  from nic_step.xmit[OF this f] have "nic_steps B live n n1" by (rule r_into_rtranclp)
  also have "nic_steps B live n1 n'"
    by (rule on_host_steps[OF w]) (auto simp: tx_write_head_ptr_def dest: write_live)
  finally show ?thesis .
qed

lemma if_recv_steps: "nic_steps B live n (snd (if_recv n))"
  by (auto simp: if_recv_def same_slots_def split: list.splits intro!: on_if_steps)

lemma each_live:
  assumes "each f qs s = Inr s'" "\<And>q s s'. f q s = Inr s' \<Longrightarrow> live s \<le> live s'"
  shows "live s \<le> live s'"
  using assms(1)
proof (induction qs arbitrary: s)
  case (Cons q qs)
  then show ?case using assms(2) by (auto simp: bindE_Inr_iff) (meson le_trans)
qed simp

lemma if_set_mtu_steps:
  assumes "if_set_mtu B mtu n = Inr n'"
  shows "nic_steps B live n n'"
  using assms unfolding if_set_mtu_def
  by (rule on_host_steps) (auto elim!: each_live simp: port_set_mtu_def simp del: reg_writes.simps dest: reg_writes_live)

end

section \<open>The root complex keeps its regions\<close>

definition master_keeps :: "('s \<Rightarrow> bool) \<Rightarrow> 's master \<Rightarrow> bool" where
  "master_keeps P M \<longleftrightarrow> (\<forall>s. P s \<longrightarrow> P (snd (m_free_tag M s)) \<and>
     (\<forall>t s'. m_send M t s = Inr s' \<longrightarrow> P s') \<and> (\<forall>tag c s'. m_recv M tag s = Inr (c, s') \<longrightarrow> P s'))"

lemma master_keepsD:
  assumes "master_keeps P M" "P s"
  shows "m_free_tag M s = (x, s') \<Longrightarrow> P s'" "m_send M t s = Inr s' \<Longrightarrow> P s'"
    "m_recv M tag s = Inr (c, s') \<Longrightarrow> P s'"
proof -
  have k: "P (snd (m_free_tag M s))" "\<And>t s'. m_send M t s = Inr s' \<Longrightarrow> P s'"
    "\<And>tag c s'. m_recv M tag s = Inr (c, s') \<Longrightarrow> P s'"
    using assms unfolding master_keeps_def by blast+
  show "P s'" if "m_free_tag M s = (x, s')" using k(1) that by simp
  show "P s'" if "m_send M t s = Inr s'" by (rule k(2)[OF that])
  show "P s'" if "m_recv M tag s = Inr (c, s')" by (rule k(3)[OF that])
qed

lemma read_step_keeps:
  "master_keeps P M \<Longrightarrow> P s \<Longrightarrow> mem_read_step M tag bl m s = Inr (b, k, s') \<Longrightarrow> P s'"
  by (auto simp: mem_read_step_def await_cpl_def bindE_Inr_iff Let_def split: option.splits if_splits
      dest: master_keepsD(3))

lemma read_recv_keeps_raw:
  "mem_read_recv M tag bl m d s = Some r \<Longrightarrow> master_keeps P M \<Longrightarrow> P s \<Longrightarrow>
   (case r of Inr y \<Rightarrow> P (snd y) | Inl e \<Rightarrow> True)"
proof (induction M tag bl m d s r rule: mem_read_recv.raw_induct[rotated, consumes 1, case_names step])
  case (step rec M tag bl m d s r)
  show ?case
  proof (cases "m < bl")
    case False
    then show ?thesis using step(2,4) by auto
  next
    case True
    show ?thesis
    proof (cases "mem_read_step M tag bl m s")
      case (Inl e)
      then show ?thesis using step(2) True by auto
    next
      case (Inr y)
      obtain b k s1 where y: "y = (b, k, s1)" by (cases y) auto
      with Inr have "rec M tag bl (m + k) (d @ b) s1 = Some r" using step(2) True by simp
      from step(1)[OF this step(3)] read_step_keeps[OF step(3,4)] Inr y show ?thesis by auto
    qed
  qed
qed

lemma read_recv_keeps:
  "mem_read_recv M tag bl m d s = Some (Inr (d', s')) \<Longrightarrow> master_keeps P M \<Longrightarrow> P s \<Longrightarrow> P s'"
  using read_recv_keeps_raw[of M tag bl m d s "Inr (d', s')" P] by simp

lemma read_loop_keeps:
  "mem_read_loop rl M attr tc len n addr d s = Some (Inr (d', s')) \<Longrightarrow> master_keeps P M \<Longrightarrow> P s \<Longrightarrow> P s'"
proof (induction rl M attr tc len n addr d s rule: mem_read_loop.induct)
  case (1 rl M attr tc len n addr d s)
  show ?case
  proof (cases "n < len")
    case False
    then show ?thesis using 1 by (simp add: mem_read_loop.simps)
  next
    case True
    obtain tg s1 where tg: "m_free_tag M s = (tg, s1)" by (cases "m_free_tag M s")
    with 1(2) True obtain tag where tag: "tg = Some tag" by (cases tg) (auto simp: mem_read_loop.simps)
    define bl where "bl = mem_chunk (m_max_read M s) (len - n) addr"
    define t where "t = fst (set_be ((set_fmt_type (mem_read_fmt addr) tlp_new)
        \<lparr>tlp_requester_id := m_requester M s, tlp_tag := tag, tlp_attr := attr, tlp_tc := tc\<rparr>) addr (rl len bl))"
    note eq = 1(2)[unfolded mem_read_loop.simps[of rl M attr tc len n], simplified True tg tag Let_def,
        folded bl_def, folded t_def]
    from eq obtain s2 d2 s3 where s2: "m_send M t s1 = Inr s2"
      "mem_read_recv M tag bl 0 d s2 = Some (Inr (d2, s3))"
      "mem_read_loop rl M attr tc len (n + bl) (addr + bl) d2 s3 = Some (Inr (d', s'))"
      by (auto simp: True t_def split: sum.splits option.splits)
    have "P s1" using master_keepsD(1)[OF 1(3,4) tg] .
    then have "P s2" using master_keepsD(2)[OF 1(3)] s2(1) by blast
    then have P3: "P s3" using read_recv_keeps[OF s2(2) 1(3)] by blast
    show ?thesis
      by (rule 1(1)[OF True tg[symmetric] tag bl_def t_def s2(1) s2(2) refl refl _ 1(3) P3]) (use s2(3) in simp)
  qed
qed

lemma write_loop_keeps:
  "mem_write_loop M attr tc d n addr s = Inr s' \<Longrightarrow> master_keeps P M \<Longrightarrow> P s \<Longrightarrow> P s'"
proof (induction M attr tc d n addr s rule: mem_write_loop.induct)
  case (1 M attr tc d n addr s)
  show ?case
  proof (cases "n < int (length d)")
    case False
    then show ?thesis using 1 by (simp add: mem_write_loop.simps)
  next
    case True
    define bl where "bl = mem_chunk (m_max_payload M s) (int (length d) - n) addr"
    note eq = 1(2)[unfolded mem_write_loop.simps[of M attr tc d n], simplified True Let_def, folded bl_def]
    from eq obtain t s1 where s1: "set_be_data ((set_fmt_type (mem_write_fmt addr) tlp_new)
        \<lparr>tlp_requester_id := m_requester M s, tlp_attr := attr, tlp_tc := tc\<rparr>) addr
        (slice d (nat n) (nat (n + bl))) = Inr t" "m_send M t s = Inr s1"
      "mem_write_loop M attr tc d (n + bl) (addr + bl) s1 = Inr s'"
      by (auto simp: True bindE_Inr_iff)
    have "P s1" using master_keepsD(2)[OF 1(3,4) s1(2)] .
    from 1(1)[OF True bl_def s1(1,2,3) 1(3) this] show ?thesis .
  qed
qed

text \<open>User callbacks are functions of the test bench; all that is asked of them is that they
  free no region, which the root complex offers no operation for.\<close>

definition keeps_regions :: "'a user_callback \<Rightarrow> bool" where
  "keeps_regions ucb \<longleftrightarrow> (\<forall>k off d r r'. ucb k off d r = Inr r' \<longrightarrow>
     length (rc_regions r) \<le> length (rc_regions r'))"

lemma callback_keeps:
  "keeps_regions ucb \<Longrightarrow> rc_callback_write ucb c off d r = Inr r' \<Longrightarrow>
   length (rc_regions r) \<le> length (rc_regions r')"
  by (auto simp: keeps_regions_def rc_callback_write_def msi_region_write_def bindE_Inr_iff Let_def
      split: rc_callback.splits option.splits)

lemma write_region_keeps:
  assumes "keeps_regions ucb"
  shows "rc_write_region ucb addr d r = Inr r' \<Longrightarrow> length (rc_regions r) \<le> length (rc_regions r')"
    "rc_write_io_region ucb addr d r = Inr r' \<Longrightarrow> length (rc_regions r) \<le> length (rc_regions r')"
  using callback_keeps[OF assms]
  by (auto simp: rc_write_region_def rc_write_io_region_def bindE_Inr_iff split: option.splits rc_region.splits)

lemma write_runs_keeps:
  assumes "write_runs W addr d runs r = Inr r'"
    and "\<And>a d r r'. W a d r = Inr r' \<Longrightarrow> length (rc_regions r) \<le> length (rc_regions r')"
  shows "length (rc_regions r) \<le> length (rc_regions r')"
  using assms
proof (induction W addr d runs r rule: write_runs.induct)
  case (2 W addr d st e rs r)
  then obtain r1 where "W (addr + int st) (slice d st e) r = Inr r1" "write_runs W addr d rs r1 = Inr r'"
    by (auto simp: bindE_Inr_iff)
  with 2 have "length (rc_regions r) \<le> length (rc_regions r1)" "length (rc_regions r1) \<le> length (rc_regions r')"
    by auto
  then show ?case by simp
qed simp

lemma handle_tlp_keeps:
  assumes "keeps_regions ucb" "rc_downstream_recv ucb t r = Inr (r', out)"
  shows "length (rc_regions r) \<le> length (rc_regions r')"
proof -
  have w: "\<And>addr d runs r r'. write_runs (rc_write_region ucb) addr d runs r = Inr r' \<Longrightarrow>
      length (rc_regions r) \<le> length (rc_regions r')"
    "\<And>addr d runs r r'. write_runs (rc_write_io_region ucb) addr d runs r = Inr r' \<Longrightarrow>
      length (rc_regions r) \<le> length (rc_regions r')"
    by (erule write_runs_keeps, erule write_region_keeps[OF assms(1)])+
  have "rc_handle_tlp ucb t r = Inr (r', out)"
    using assms(2) by (auto simp: rc_downstream_recv_def bindE_Inr_iff)
  then consider (cpl) "rc_enqueue_cpl t r = Inr r'" | (h) h where "rc_handler ucb h t r = Inr (r', out)"
    by (auto simp: rc_handle_tlp_def bindE_Inr_iff split: if_splits option.splits)
  then show ?thesis
  proof cases
    case cpl
    then show ?thesis by (auto simp: rc_enqueue_cpl_def bindE_Inr_iff)
  next
    case h
    have mw: "rc_handle_mem_write_tlp ucb t r = Inr (r', out) \<Longrightarrow> ?thesis"
      by (auto simp: rc_handle_mem_write_tlp_def bindE_Inr_iff split: if_splits dest!: w(1))
    have iow: "rc_handle_io_write_tlp ucb t r = Inr (r', out) \<Longrightarrow> ?thesis"
      by (auto simp: rc_handle_io_write_tlp_def bindE_Inr_iff split: if_splits dest!: w(2))
    have mr: "rc_handle_mem_read_tlp t r = Inr (r', out) \<Longrightarrow> r' = r"
      by (auto simp: rc_handle_mem_read_tlp_def bindE_Inr_iff split: if_splits option.splits)
    have ior: "rc_handle_io_read_tlp t r = Inr (r', out) \<Longrightarrow> r' = r"
      by (auto simp: rc_handle_io_read_tlp_def bindE_Inr_iff split: if_splits)
    show ?thesis
    proof (cases h)
      case HandleIoRead
      then show ?thesis using h ior by (simp add: rc_handler_def)
    next
      case HandleIoWrite
      then show ?thesis using h iow by (simp add: rc_handler_def)
    next
      case HandleMemRead
      then show ?thesis using h mr by (simp add: rc_handler_def)
    next
      case HandleMemWrite
      then show ?thesis using h mw by (simp add: rc_handler_def)
    qed (use h in \<open>simp_all add: rc_handler_def\<close>)
  qed
qed

lemma deliver_keeps:
  assumes "keeps_regions ucb"
  shows "host_deliver ucb F ts s = Inr s' \<Longrightarrow> length (rc_regions (fst s)) \<le> length (rc_regions (fst s'))"
proof (induction ts arbitrary: s)
  case (Cons t ts)
  then obtain r out e where r: "rc_downstream_recv ucb t (fst s) = Inr (r, out)"
    "host_deliver ucb F ts (r, e) = Inr s'"
    by (auto simp: bindE_Inr_iff)
  from handle_tlp_keeps[OF assms r(1)] Cons.IH[OF r(2)] show ?case by simp
qed simp

definition rc_live :: "('a, 'e) host \<Rightarrow> nat" where
  "rc_live s = length (rc_regions (fst s))"

lemma recv_cpl_regions:
  assumes "rc_recv_cpl tag r = Inr (c, r')"
  shows "rc_regions r' = rc_regions r"
proof -
  obtain k where k: "py_index (length (rc_cpl_queues r)) tag = Inr k"
    using assms by (auto simp: rc_recv_cpl_def bindE_Inr_iff)
  show ?thesis using assms k by (cases "rc_cpl_queues r ! k") (auto simp: rc_recv_cpl_def)
qed

lemma rc_master_keeps:
  assumes "keeps_regions ucb"
  shows "master_keeps (\<lambda>s. N \<le> rc_live s) (rc_master ucb F)"
proof -
  have tag: "rc_live (snd (m_free_tag (rc_master ucb F) s)) = rc_live s" for s
    by (simp add: rc_master_def rc_get_free_tag_def rc_live_def split: prod.splits)
  have send: "rc_live s' = rc_live s" if "m_send (rc_master ucb F) t s = Inr s'" for t s s'
    using that by (auto simp: rc_master_def host_send_def bindE_Inr_iff rc_live_def)
  have recv: "rc_live s \<le> rc_live s'" if r: "m_recv (rc_master ucb F) tag s = Inr (c, s')" for tag c s s'
  proof -
    obtain ts e where w: "fab_wait F tag (snd s) = (ts, e)" by (cases "fab_wait F tag (snd s)")
    with r obtain s1 r2 where "host_deliver ucb F ts (fst s, e) = Inr s1"
      "s' = (r2, snd s1)" "rc_recv_cpl tag (fst s1) = Inr (c, r2)"
      by (auto simp: rc_master_def host_recv_cpl_def bindE_Inr_iff)
    moreover from this(3) have "rc_regions r2 = rc_regions (fst s1)"
      by (rule recv_cpl_regions)
    ultimately show ?thesis using deliver_keeps[OF assms, of F ts "(fst s, e)" s1]
      by (simp add: rc_live_def)
  qed
  show ?thesis unfolding master_keeps_def using tag send recv by (metis le_trans)
qed

lemma rc_mem_read_keeps:
  assumes "keeps_regions ucb" "rc_mem_read_dword ucb F attr tc addr s = Some (Inr (v, s'))"
  shows "rc_live s \<le> rc_live s'"
proof -
  obtain d where "rc_mem_read ucb F attr tc addr 4 s = Some (Inr (d, s'))"
    using assms(2) by (auto simp: rc_mem_read_dword_def first_opt_def first_of_def rc_mem_read_dwords_def
        rc_mem_read_words_def bindE_Inr_iff split: if_splits)
  then consider "s' = s" | d' where "mem_read_loop (\<lambda>l b. b) (rc_master ucb F) attr tc 4 0 addr [] s = Some (Inr (d', s'))"
    by (auto simp: rc_mem_read_def bindE_Inr_iff split: if_splits)
  then show ?thesis
  proof cases
    case 2
    from read_loop_keeps[OF 2 rc_master_keeps[OF assms(1)]] show ?thesis by simp
  qed simp
qed

lemma rc_mem_write_keeps:
  assumes "keeps_regions ucb" "rc_mem_write_dword ucb F attr tc addr v s = Inr s'"
  shows "rc_live s \<le> rc_live s'"
proof -
  obtain d where "rc_mem_write ucb F attr tc addr (PyBytes d) s = Inr s'"
    using assms(2) by (auto simp: rc_mem_write_dword_def rc_mem_write_dwords_def rc_mem_write_words_def bindE_Inr_iff)
  then consider r where "rc_write_region ucb addr d (fst s) = Inr r" "s' = (r, snd s)"
    | "mem_write_loop (rc_master ucb F) attr tc d 0 addr s = Inr s'"
    by (auto simp: rc_mem_write_def bindE_Inr_iff split: if_splits)
  then show ?thesis
  proof cases
    case 1
    then show ?thesis using write_region_keeps(1)[OF assms(1)] by (simp add: rc_live_def)
  next
    case 2
    from write_loop_keeps[OF 2 rc_master_keeps[OF assms(1)]] show ?thesis by simp
  qed
qed

lemma length_set_region_bytes [simp]: "length (set_region_bytes h d rs) = length rs"
  by (auto simp: set_region_bytes_def split: rc_region.splits)

lemma rc_buffer_host:
  assumes "keeps_regions ucb"
  shows "buffer_host (rc_bus lg ucb F) rc_live"
proof
  show "rc_live s \<le> h \<and> h < rc_live s'" if "nb_alloc (rc_bus lg ucb F) sz s = Inr (a, h, s')" for sz s a h s'
    using that by (auto simp: rc_bus_def rc_live_def alloc_region_def bindE_Inr_iff Let_def split: if_splits)
  show "rc_live s \<le> rc_live s'" if "nb_read (rc_bus lg ucb F) addr s = Some (Inr (v, s'))" for addr s v s'
    using that rc_mem_read_keeps[OF assms] by (simp add: rc_bus_def)
  show "rc_live s \<le> rc_live s'" if "nb_write (rc_bus lg ucb F) addr v s = Inr s'" for addr s v s'
    using that rc_mem_write_keeps[OF assms] by (simp add: rc_bus_def)
  show "rc_live (nb_set_mem (rc_bus lg ucb F) h d s) = rc_live s" for h d s
    by (simp add: rc_bus_def rc_live_def)
qed

text \<open>The bus of a root complex whose test bench registers no regions of its own.\<close>

lemma quiet_keeps: "keeps_regions (\<lambda>_ _ _ r. Inr r)"
  by (simp add: keeps_regions_def)

interpretation rc_host: buffer_host "rc_bus lg (\<lambda>_ _ _ r. Inr r) F" rc_live
  by (rule rc_buffer_host[OF quiet_keeps])

section \<open>Start-up\<close>

text \<open>Discovery gives queues without buffers; opening fills the receive queues.\<close>

lemma init_all_held:
  assumes "init_all f qs s = Some (Inr (qs', s'))"
    and "\<And>q s q' s'. f q s = Some (Inr (q', s')) \<Longrightarrow> held (dr_info q') = {#}"
  shows "held_all qs' = {#}"
  using assms(1)
proof (induction qs arbitrary: s qs')
  case (Cons q qs)
  then obtain q1 s1 qs1 s2 where "f q s = Some (Inr (q1, s1))" "init_all f qs s1 = Some (Inr (qs1, s2))"
    "qs' = q1 # qs1" "s' = s2"
    by (auto simp: bindO_Inr_iff)
  with Cons.IH assms(2) show ?case by auto
qed simp

lemma if_init_held:
  assumes "if_init B dev i s = Some (Inr (i', s'))"
  shows "if_held i' = {#}"
proof -
  obtain a s1 b s2 txs c s3 rxs s4 where i:
    "init_all (\<lambda>q s. Some (tx_init B q s)) a s1 = Some (Inr (txs, s2))"
    "init_all (\<lambda>q s. Some (rx_init B q s)) b s3 = Some (Inr (rxs, s4))"
    "if_txs i' = txs" "if_rxs i' = rxs"
    using assms by (auto simp: if_init_def bindO_Inr_iff Let_def)
  have "held_all txs = {#}"
    by (rule init_all_held[OF i(1)]) (auto simp: tx_init_def bindE_Inr_iff)
  moreover have "held_all rxs = {#}"
    by (rule init_all_held[OF i(2)]) (auto simp: rx_init_def bindE_Inr_iff)
  ultimately show ?thesis using i(3,4) by (simp add: if_held_def)
qed

lemma pool_init_owned: "owned live s pool_init {#}"
  by (simp add: owned_def pool_init_def)

lemma update_all_slots:
  assumes "update_all f qs s = Inr (qs', s')" "\<And>q s q' s'. f q s = Inr (q', s') \<Longrightarrow> dr_info q' = dr_info q"
  shows "map dr_info qs' = map dr_info qs"
  using assms(1)
proof (induction qs arbitrary: s qs')
  case (Cons q qs)
  then show ?case using assms(2) by (auto simp: bindE_Inr_iff)
qed simp

context buffer_host
begin

lemma update_all_live:
  assumes "update_all f qs s = Inr (qs', s')" "\<And>q s q' s'. f q s = Inr (q', s') \<Longrightarrow> live s \<le> live s'"
  shows "live s \<le> live s'"
  using assms(1)
proof (induction qs arbitrary: s qs')
  case (Cons q qs)
  then obtain q1 s1 qs1 where "f q s = Inr (q1, s1)" "update_all f qs s1 = Inr (qs1, s')"
    by (auto simp: bindE_Inr_iff)
  with Cons.IH assms(2) show ?case by (meson le_trans)
qed simp

lemma open_rx_moves:
  "update_all (open_rx B) qs (p, s) = Inr (qs', p', s') \<Longrightarrow>
   moves live (s, p, held_all qs) (s', p', held_all qs')"
proof (induction qs arbitrary: p s qs')
  case Nil
  then show ?case by (simp add: moves_same)
next
  case (Cons q qs)
  then obtain q1 p1 s1 qs1 where o: "open_rx B q (p, s) = Inr (q1, p1, s1)"
    "update_all (open_rx B) qs (p1, s1) = Inr (qs1, p', s')" "qs' = q1 # qs1"
    by (auto simp: bindE_Inr_iff)
  from o(1) obtain s0 where s0: "live s \<le> live s0"
    "refill_buffers B (q\<lparr>dr_cpl_index := dr_index q\<rparr>) p s0 = Inr (q1, p1, s1)"
    using reg_writes_live by (auto simp: open_rx_def rx_activate_def bindE_Inr_iff)
  have "ring_moves live s p q s0 p q" using s0(1) by (rule moves_same)
  from moves_trans[OF this] refill_buffers_moves[OF s0(2)] have "ring_moves live s p q s1 p1 q1" by simp
  from moves_frame[OF this, of "held_all qs"]
  have "moves live (s, p, held_all (q # qs)) (s1, p1, held_all qs + held (dr_info q1))"
    by (simp add: ac_simps)
  from moves_trans[OF this moves_frame[OF Cons.IH[OF o(2)]]] show ?case unfolding o(3) by (simp add: ac_simps)
qed

lemma if_open_owned:
  assumes "if_open B n = Inr n'" "nic_owned live n"
  shows "nic_owned live n'"
proof -
  have eq: "live s \<le> live s'" if "open_eq B i q s = Inr (q', s')" for i q s q' s'
    using that by (auto simp: open_eq_def eq_activate_def eq_arm_def bindE_Inr_iff dest!: reg_writes_live write_live)
  have cq: "live s \<le> live s'" if "open_cq B i q s = Inr (q', s')" for i q s q' s'
    using that by (auto simp: open_cq_def cq_activate_def cq_arm_def bindE_Inr_iff Let_def split: if_splits
        dest!: reg_writes_live write_live)
  have tx: "live s \<le> live s'" "dr_info q' = dr_info q" if "open_tx B q s = Inr (q', s')" for q s q' s'
    using that by (auto simp: open_tx_def tx_activate_def bindE_Inr_iff dest!: reg_writes_live)
  let ?i = "nic_if n"
  obtain c eqs s1 rcqs s2 rxs p s3 tcqs s4 txs s5 where
    o: "update_all (open_eq B (if_index ?i)) (if_eqs ?i) (nic_host n) = Inr (eqs, s1)"
      "update_all (open_cq B c) (if_rx_cqs ?i) s1 = Inr (rcqs, s2)"
      "update_all (open_rx B) (if_rxs ?i) (nic_pool n, s2) = Inr (rxs, p, s3)"
      "update_all (open_cq B c) (if_tx_cqs ?i) s3 = Inr (tcqs, s4)"
      "update_all (open_tx B) (if_txs ?i) s4 = Inr (txs, s5)"
    and n': "nic_pool n' = p" "nic_host n' = s5" "if_held (nic_if n') = held_all txs + held_all rxs"
    using assms(1) by (auto simp: if_open_def bindE_Inr_iff Let_def if_held_def split: option.splits)
  have l1: "live (nic_host n) \<le> live s1" by (rule update_all_live[OF o(1)]) (rule eq)
  have l2: "live s1 \<le> live s2" by (rule update_all_live[OF o(2)]) (rule cq)
  have l3: "live s3 \<le> live s4" by (rule update_all_live[OF o(4)]) (rule cq)
  have l4: "live s4 \<le> live s5" by (rule update_all_live[OF o(5)]) (rule tx(1))
  have "held_all txs = held_all (if_txs ?i)"
    by (rule held_all_cong, rule update_all_slots[OF o(5)], rule tx(2))
  then have h: "if_held (nic_if n') = held_all rxs + held_all (if_txs ?i)" using n'(3) by (simp add: ac_simps)
  have "moves live (nic_host n, nic_pool n, if_held ?i) (s2, nic_pool n, if_held ?i)"
    using l1 l2 by (intro moves_same) simp
  moreover have "moves live (s2, nic_pool n, if_held ?i) (s3, p, if_held (nic_if n'))"
    using moves_frame[OF open_rx_moves[OF o(3)], of "held_all (if_txs ?i)"] h
    by (simp add: if_held_def ac_simps)
  moreover have "moves live (s3, p, if_held (nic_if n')) (s5, p, if_held (nic_if n'))"
    using l3 l4 by (intro moves_same) simp
  ultimately have "moves live (nic_host n, nic_pool n, if_held ?i) (s5, p, if_held (nic_if n'))"
    by (blast intro: moves_trans)
  from owned_moves[OF assms(2)[unfolded nic_owned_def] this] show ?thesis
    unfolding nic_owned_def n'(1,2) .
qed

end

section \<open>Properties\<close>


text \<open>A pool with one buffer, and a transmit queue of one slot with one descriptor block.\<close>

definition demo_nic :: "(root_complex \<times> unit) nic" where
  "demo_nic =
     \<lparr>nic_pool = \<lparr>pool_allocated = [(0, 0)], pool_free = [(0, 0)]\<rparr>,
      nic_if = (if_new 0 0x1000 0)\<lparr>if_port_up := True,
        if_txs := [(tx_new 1 16 0 0x1000)\<lparr>dr_buf := 1, dr_info := [None]\<rparr>]\<rparr>,
      nic_host = (root_complex_init\<lparr>rc_regions := [RcMem 0 16 (replicate 16 0), RcMem 64 16 (replicate 16 0)]\<rparr>, ())\<rparr>"

abbreviation demo_bus :: "(root_complex \<times> unit) nic_bus" where
  "demo_bus \<equiv> rc_bus clog2 (\<lambda>_ _ _ r. Inr r) \<lparr>fab_send = (\<lambda>_ e. Inr e), fab_wait = (\<lambda>_ e. ([], e))\<rparr>"

lemma demo_fill:
  "\<exists>n'. xmit_fill demo_bus [1, 2, 3] 0 0 demo_nic = Inr n' \<and> if_held (nic_if n') = {#(0, 0)#} \<and>
     pool_free (nic_pool n') = []"
  by (simp add: xmit_fill_def xmit_ring_def demo_nic_def alloc_pkt_def py_set_def dr_slot_def dr_mask_def
      dr_size_def tx_new_def if_new_def bit_length.simps mmap_assign_def rc_bus_def region_bytes_def
      set_region_bytes_def xmit_descs_def dr_block_def put_desc_def pack_desc_def pack_le_def fits_def
      pack_into_def if_held_def)




end
