(* ===== verification/NicDma.thy ===== *)
theory NicDma
  imports NicDriver
begin

text \<open>
  The data path of the NIC driver model as the device sees it on the bus. The descriptors of a
  slot are read back from host memory (\<open>slot_descs\<close>) and followed (\<open>gather\<close>): on the transmit
  side they give exactly the bytes of the packet, on the receive side every address of the
  buffer once. The locale \<open>dma_host\<close> is what this needs of host memory: a buffer is a range of
  bus addresses, and storing into one leaves the others alone. Completion records are followed
  on the other side: draining a queue delivers what they describe, in order.
\<close>

unbundle bit_operations_syntax

section \<open>Pointers\<close>

text \<open>A pointer below the one of the device by less than \<open>2 ^ 16\<close> catches up exactly.\<close>

lemma catch_up_mod: "catch_up ptr val = ptr + (val - ptr) mod 65536"
  by (simp add: catch_up_def masks take_bit_eq_mod)

lemma catch_up_exact:
  assumes "ptr \<le> hw" "hw - ptr < 65536"
  shows "catch_up ptr (hw AND 0xffff) = hw"
proof -
  have "hw AND 0xffff = hw mod 65536" by (simp add: masks take_bit_eq_mod)
  then have "((hw AND 0xffff) - ptr) mod 65536 = (hw - ptr) mod 65536" by (simp add: mod_diff_left_eq)
  then show ?thesis using assms by (simp add: catch_up_mod)
qed

lemma dr_slot_mod: "dr_slot r ptr = nat (ptr mod 2 ^ dr_log_size r)"
  by (simp add: dr_slot_def dr_mask_def dr_size_def and_low_mask[of _ "dr_log_size r"]
      mask_eq_exp_minus_1 take_bit_eq_mod)

lemma dr_slot_less: "int (dr_slot r ptr) < dr_size r"
  by (simp add: dr_slot_mod dr_size_def)

lemma cr_slot_mod: "cr_slot r ptr = ptr mod 2 ^ cr_log_size r"
  by (simp add: cr_slot_def cr_mask_def cr_size_def and_low_mask[of _ "cr_log_size r"]
      mask_eq_exp_minus_1 take_bit_eq_mod)

section \<open>Descriptors as bytes\<close>

text \<open>A descriptor as the device reads it: checksum command, length, address.\<close>

type_synonym desc = "int \<times> int \<times> int"

definition unpack_desc :: "bytes \<Rightarrow> desc result" where
  "unpack_desc d = (if length d = 16 then Inr (field d 2 2, field d 4 4, field d 8 8) else Inl StructError)"

definition desc_ok :: "desc \<Rightarrow> bool" where
  "desc_ok x \<longleftrightarrow> (case x of (c, l, p) \<Rightarrow> fits 16 c \<and> fits 32 l \<and> fits 64 p)"

lemma field_of: "length a = off \<Longrightarrow> fits (8 * n) x \<Longrightarrow> field (a @ to_le n x @ b) off n = x"
  by (simp add: field_def slice_def from_le_to_le)

interpretation desc: fixed_codec "\<lambda>(c, l, p). pack_desc c l p" unpack_desc desc_ok 16
proof
  fix x :: desc
  obtain c l p where x: "x = (c, l, p)" by (cases x)
  show "\<exists>y. (\<lambda>(c, l, p). pack_desc c l p) x = Inr y" if "desc_ok x"
    using that by (simp add: x desc_ok_def pack_desc_def pack_le_def fits_def)
  show "unpack_desc y = Inr x" if "desc_ok x" "(\<lambda>(c, l, p). pack_desc c l p) x = Inr y" for y
  proof -
    have y: "y = to_le 2 0 @ to_le 2 c @ to_le 4 l @ to_le 8 p"
      and f: "fits (8 * 2) c" "fits (8 * 4) l" "fits (8 * 8) p"
      using that by (auto simp: x desc_ok_def pack_desc_def pack_le_def bindE_Inr_iff split: if_splits)
    have "field y 2 2 = c" unfolding y by (rule field_of[OF _ f(1)]) simp
    moreover have "field (to_le 2 0 @ to_le 2 c @ to_le 4 l @ to_le 8 p) 4 4 = l"
      using field_of[OF _ f(2), of "to_le 2 0 @ to_le 2 c" 4 "to_le 8 p"] by simp
    moreover have "field (to_le 2 0 @ to_le 2 c @ to_le 4 l @ to_le 8 p) 8 8 = p"
      using field_of[OF _ f(3), of "to_le 2 0 @ to_le 2 c @ to_le 4 l" 8 "[]"] by simp
    ultimately show ?thesis by (simp add: unpack_desc_def x y)
  qed
  show "length bs = 16" if "(\<lambda>(c, l, p). pack_desc c l p) x = Inr bs" for bs
    using that by (auto simp: x pack_desc_def pack_le_def bindE_Inr_iff split: if_splits)
qed simp

text \<open>The descriptor at an offset of a buffer.\<close>

definition desc_at :: "bytes \<Rightarrow> nat \<Rightarrow> desc result" where
  "desc_at mem pos = unpack_desc (slice mem pos (pos + 16))"

lemma put_desc_at:
  assumes "desc_ok (c, l, p)" "pos + 16 \<le> length mem"
  obtains mem' where "put_desc (int pos) c l p mem = Inr mem'" "length mem' = length mem"
    "desc_at mem' pos = Inr (c, l, p)"
    "\<And>i. i < length mem \<Longrightarrow> i < pos \<or> pos + 16 \<le> i \<Longrightarrow> mem' ! i = mem ! i"
proof -
  obtain d where d: "pack_desc c l p = Inr d" using desc.enc_total[OF assms(1)] by auto
  have len: "length d = 16" using desc.enc_width[of "(c, l, p)" d] d by simp
  have dec: "unpack_desc d = Inr (c, l, p)" using desc.dec_enc[OF assms(1)] d by simp
  show ?thesis
  proof (rule that)
    show "put_desc (int pos) c l p mem = Inr (splice mem pos d)"
      using assms(2) len by (simp add: put_desc_def d pack_into_def)
    show "length (splice mem pos d) = length mem" using assms(2) len by simp
    have "slice (splice mem pos d) pos (pos + 16) = d"
      using slice_splice_same[of pos d mem] assms(2) len by simp
    then show "desc_at (splice mem pos d) pos = Inr (c, l, p)" using dec by (simp add: desc_at_def)
    show "splice mem pos d ! i = mem ! i" if "i < length mem" "i < pos \<or> pos + 16 \<le> i" for i
      using that assms(2) len by (subst nth_splice) auto
  qed
qed

lemma desc_at_cong:
  assumes "length mem' = length mem" "pos + 16 \<le> length mem"
    and "\<And>i. pos \<le> i \<Longrightarrow> i < pos + 16 \<Longrightarrow> mem' ! i = mem ! i"
  shows "desc_at mem' pos = desc_at mem pos"
proof -
  have "slice mem' pos (pos + 16) = slice mem pos (pos + 16)"
    using assms by (intro nth_equalityI) (auto simp: nth_slice)
  then show ?thesis by (simp add: desc_at_def)
qed

section \<open>The blocks of a slot\<close>

lemma mapE_cong_upt: "(\<And>j. j \<in> set xs \<Longrightarrow> f j = g j) \<Longrightarrow> mapE f xs = mapE g xs"
  by (induction xs) auto

text \<open>What the loop writes: the blocks from number \<open>k\<close> on, as a list.\<close>

fun blocks :: "nat \<Rightarrow> int \<Rightarrow> int \<Rightarrow> nat list \<Rightarrow> int \<Rightarrow> desc list" where
  "blocks n len ptr [] off = []"
| "blocks n len ptr (k # ks) off =
     (let l = (if k < n - 1 then min (len - off) 4096 else len - off)
      in (0, l, if l \<noteq> 0 then ptr + off else 0) # blocks n len ptr ks (off + l))"

text \<open>Following a list of descriptors with a function on addresses.\<close>

fun gather :: "(int \<Rightarrow> 'x) \<Rightarrow> desc list \<Rightarrow> 'x list" where
  "gather f [] = []"
| "gather f ((c, l, p) # ds) = map (\<lambda>i. f (p + i)) [0..l - 1] @ gather f ds"

lemma map_upto_split:
  fixes f :: "int \<Rightarrow> 'x"
  assumes "0 \<le> a" "a \<le> b"
  shows "map f [0..a - 1] @ map (\<lambda>i. f (a + i)) [0..b - a - 1] = map f [0..b - 1]"
proof (rule nth_equalityI)
  show "length (map f [0..a - 1] @ map (\<lambda>i. f (a + i)) [0..b - a - 1]) = length (map f [0..b - 1])"
    using assms by simp
  fix i assume "i < length (map f [0..a - 1] @ map (\<lambda>i. f (a + i)) [0..b - a - 1])"
  then show "(map f [0..a - 1] @ map (\<lambda>i. f (a + i)) [0..b - a - 1]) ! i = map f [0..b - 1] ! i"
    using assms by (auto simp: nth_append)
qed

lemma gather_step:
  fixes f :: "int \<Rightarrow> 'x"
  assumes "0 \<le> l" "off + l \<le> len"
    and "gather f ds = map (\<lambda>i. f (ptr + (off + l) + i)) [0..len - (off + l) - 1]"
  shows "gather f ((c, l, if l \<noteq> 0 then ptr + off else 0) # ds) = map (\<lambda>i. f (ptr + off + i)) [0..len - off - 1]"
proof -
  have "map (\<lambda>i. f (ptr + off + i)) [0..len - off - 1] =
      map (\<lambda>i. f (ptr + off + i)) [0..l - 1] @ map (\<lambda>i. f (ptr + off + (l + i))) [0..len - off - l - 1]"
    by (rule map_upto_split[symmetric]) (use assms in auto)
  also have "\<dots> = map (\<lambda>i. f (ptr + off + i)) [0..l - 1] @ gather f ds"
    using assms(3) by (simp add: ac_simps diff_diff_eq)
  finally show ?thesis by simp
qed

lemma gather_blocks:
  "k < n \<Longrightarrow> 0 \<le> off \<Longrightarrow> off \<le> len \<Longrightarrow>
   gather f (blocks n len ptr [k..<n] off) = map (\<lambda>i. f (ptr + off + i)) [0..len - off - 1]"
proof (induction "n - k" arbitrary: k off)
  case (Suc m)
  define l where "l = (if k < n - 1 then min (len - off) 4096 else len - off)"
  have l: "0 \<le> l" "off + l \<le> len" using Suc.prems by (auto simp: l_def)
  have ks: "[k..<n] = k # [Suc k..<n]" using Suc.prems(1) by (simp add: upt_rec)
  have "gather f (blocks n len ptr [Suc k..<n] (off + l)) =
      map (\<lambda>i. f (ptr + (off + l) + i)) [0..len - (off + l) - 1]"
  proof (cases "Suc k < n")
    case True
    then show ?thesis using Suc.hyps(2) l Suc.prems by (intro Suc.hyps(1)) auto
  next
    case False
    then have "l = len - off" by (simp add: l_def)
    then show ?thesis using False by simp
  qed
  from gather_step[OF l this] show ?case unfolding ks by (simp add: Let_def l_def)
qed simp

lemma desc_loop_writes:
  assumes "pos + 16 * n \<le> length mem" "0 \<le> off" "off \<le> len" "fits 32 len" "0 \<le> ptr" "ptr + len \<le> 2 ^ 64 - 1"
  shows "\<exists>mem'. desc_loop n (int pos) len ptr [k..<n] off mem = Inr mem' \<and> length mem' = length mem \<and>
    mapE (\<lambda>j. desc_at mem' (pos + 16 * j)) [k..<n] = Inr (blocks n len ptr [k..<n] off) \<and>
    (\<forall>i < length mem. i < pos + 16 * k \<or> pos + 16 * n \<le> i \<longrightarrow> mem' ! i = mem ! i)"
  using assms
proof (induction "n - k" arbitrary: k off mem)
  case 0
  then show ?case by simp
next
  case (Suc m)
  define l where "l = (if k < n - 1 then min (len - off) 4096 else len - off)"
  define p where "p = (if l \<noteq> 0 then ptr + off else 0)"
  have l: "0 \<le> l" "off + l \<le> len" using Suc.prems by (auto simp: l_def)
  have k: "k < n" and ks: "[k..<n] = k # [Suc k..<n]" using Suc.hyps(2) by (simp_all add: upt_rec)
  have "fits 32 l" using l Suc.prems(2,4) by (auto simp: fits_def)
  moreover have "fits 64 p" using l Suc.prems by (auto simp: fits_def p_def)
  ultimately have ok: "desc_ok (0, l, p)" by (simp add: desc_ok_def fits_def)
  have room: "pos + 16 * k + 16 \<le> length mem" using Suc.prems(1) k by simp
  obtain m1 where m1: "put_desc (int (pos + 16 * k)) 0 l p mem = Inr m1" "length m1 = length mem"
    "desc_at m1 (pos + 16 * k) = Inr (0, l, p)"
    "\<And>i. i < length mem \<Longrightarrow> i < pos + 16 * k \<or> pos + 16 * k + 16 \<le> i \<Longrightarrow> m1 ! i = mem ! i"
    by (rule put_desc_at[OF ok room]) blast
  have "m = n - Suc k" "pos + 16 * n \<le> length m1" "0 \<le> off + l"
    using Suc.hyps(2) Suc.prems(1,2) l m1(2) by simp_all
  note ih = Suc.hyps(1)[OF this l(2) Suc.prems(4,5,6)]
  obtain m2 where m2: "desc_loop n (int pos) len ptr [Suc k..<n] (off + l) m1 = Inr m2" "length m2 = length m1"
    "mapE (\<lambda>j. desc_at m2 (pos + 16 * j)) [Suc k..<n] = Inr (blocks n len ptr [Suc k..<n] (off + l))"
    "\<And>i. i < length m1 \<Longrightarrow> i < pos + 16 * Suc k \<or> pos + 16 * n \<le> i \<Longrightarrow> m2 ! i = m1 ! i"
    using ih by blast
  have "desc_at m2 (pos + 16 * k) = desc_at m1 (pos + 16 * k)"
    using m2(2,4) m1(2) room by (intro desc_at_cong) auto
  then have d: "desc_at m2 (pos + 16 * k) = Inr (0, l, p)" using m1(3) by simp
  have run: "desc_loop n (int pos) len ptr [k..<n] off mem = Inr m2"
    unfolding ks desc_loop.simps Let_def l_def[symmetric] p_def[symmetric]
    using m1(1) m2(1) by (simp add: ac_simps)
  have desc: "mapE (\<lambda>j. desc_at m2 (pos + 16 * j)) [k..<n] = Inr (blocks n len ptr [k..<n] off)"
    unfolding ks blocks.simps Let_def l_def[symmetric] p_def[symmetric] using d m2(3) by simp
  have "m2 ! i = mem ! i" if "i < length mem" "i < pos + 16 * k \<or> pos + 16 * n \<le> i" for i
    using that k m1(2) m1(4)[of i] m2(4)[of i] by auto
  with run desc m2(2) m1(2) show ?case by (intro exI[of _ m2]) simp
qed

lemma xmit_descs_writes:
  assumes "pos + 16 * dr_block r \<le> length mem" "0 \<le> len" "fits 32 len" "0 \<le> ptr" "ptr + len \<le> 2 ^ 64 - 1"
    and "fits 16 csum"
  shows "\<exists>mem' ds. xmit_descs r (int pos) csum len ptr mem = Inr mem' \<and> length mem' = length mem \<and>
    mapE (\<lambda>j. desc_at mem' (pos + 16 * j)) [0..<dr_block r] = Inr ds \<and> ds \<noteq> [] \<and> fst (hd ds) = csum \<and>
    (\<forall>f :: int \<Rightarrow> 'x. gather f ds = map (\<lambda>i. f (ptr + i)) [0..len - 1]) \<and>
    (\<forall>i < length mem. i < pos \<or> pos + 16 * dr_block r \<le> i \<longrightarrow> mem' ! i = mem ! i)"
proof -
  let ?n = "dr_block r"
  define l where "l = (if ?n > 1 then min len 42 else len)"
  define p where "p = (if l \<noteq> 0 then ptr else 0)"
  have l: "0 \<le> l" "l \<le> len" using assms(2) by (auto simp: l_def)
  have n: "0 < ?n" by (simp add: dr_block_def)
  have "fits 32 l" "fits 64 p" using l assms by (auto simp: fits_def p_def)
  then have ok: "desc_ok (csum, l, p)" using assms(6) by (simp add: desc_ok_def)
  have room: "pos + 16 \<le> length mem" using assms(1) n by linarith
  obtain m1 where m1: "put_desc (int pos) csum l p mem = Inr m1" "length m1 = length mem"
    "desc_at m1 pos = Inr (csum, l, p)"
    "\<And>i. i < length mem \<Longrightarrow> i < pos \<or> pos + 16 \<le> i \<Longrightarrow> m1 ! i = mem ! i"
    by (rule put_desc_at[OF ok room]) blast
  obtain m2 where m2: "desc_loop ?n (int pos) len ptr [1..<?n] l m1 = Inr m2" "length m2 = length m1"
    "mapE (\<lambda>j. desc_at m2 (pos + 16 * j)) [1..<?n] = Inr (blocks ?n len ptr [1..<?n] l)"
    "\<And>i. i < length m1 \<Longrightarrow> i < pos + 16 * 1 \<or> pos + 16 * ?n \<le> i \<Longrightarrow> m2 ! i = m1 ! i"
    using desc_loop_writes[of pos ?n m1 l len ptr 1] assms m1(2) l by auto
  let ?ds = "(csum, l, p) # blocks ?n len ptr [1..<?n] l"
  have "desc_at m2 pos = desc_at m1 pos"
    using m2(2,4) m1(2) room by (intro desc_at_cong) auto
  then have d: "mapE (\<lambda>j. desc_at m2 (pos + 16 * j)) [0..<?n] = Inr ?ds"
    using m1(3) m2(3) n by (simp add: upt_rec[of 0])
  have run: "xmit_descs r (int pos) csum len ptr mem = Inr m2"
    unfolding xmit_descs_def Let_def l_def[symmetric] p_def[symmetric] using m1(1) m2(1) by simp
  have g: "gather f ?ds = map (\<lambda>i. f (ptr + i)) [0..len - 1]" for f :: "int \<Rightarrow> 'x"
  proof -
    have rest: "gather f (blocks ?n len ptr [1..<?n] l) = map (\<lambda>i. f (ptr + (0 + l) + i)) [0..len - (0 + l) - 1]"
    proof (cases "1 < ?n")
      case True
      then show ?thesis using gather_blocks[of 1 ?n l len f ptr] l by simp
    next
      case False
      then show ?thesis by (simp add: l_def)
    qed
    have "gather f ((csum, l, if l \<noteq> 0 then ptr + 0 else 0) # blocks ?n len ptr [1..<?n] l) =
        map (\<lambda>i. f (ptr + 0 + i)) [0..len - 0 - 1]"
      by (rule gather_step[OF l(1) _ rest]) (use l in simp)
    then show ?thesis by (cases "l = 0") (simp_all add: p_def)
  qed
  have "m2 ! i = mem ! i" if "i < length mem" "i < pos \<or> pos + 16 * ?n \<le> i" for i
    using that n m1(2) m1(4)[of i] m2(4)[of i] by auto
  with run d g m2(2) m1(2) show ?thesis by (intro exI[of _ m2] exI[of _ ?ds]) auto
qed

section \<open>Reading over the bus\<close>

text \<open>The views of a device: \<open>peek\<close> reads a byte of the bus, \<open>at b n\<close> says that the buffer
  \<open>b\<close> is the range of \<open>n\<close> addresses from its bus address on.\<close>

definition bus_bytes :: "(int \<Rightarrow> byte) \<Rightarrow> int \<Rightarrow> nat \<Rightarrow> bytes" where
  "bus_bytes peek a n = map (\<lambda>i. peek (a + int i)) [0..<n]"

definition slot_descs :: "(int \<Rightarrow> byte) \<Rightarrow> dring \<Rightarrow> nat \<Rightarrow> desc list result" where
  "slot_descs peek r i =
     mapE (\<lambda>j. unpack_desc (bus_bytes peek (dr_dma r + int (i * (16 * dr_block r) + 16 * j)) 16)) [0..<dr_block r]"

text \<open>The free buffers are on the bus, and none is the ring buffer \<open>h\<close>.\<close>

definition pool_at :: "(pkt_buf \<Rightarrow> nat \<Rightarrow> bool) \<Rightarrow> pkt_pool \<Rightarrow> nat \<Rightarrow> bool" where
  "pool_at at p h \<longleftrightarrow> (\<forall>b \<in> set (pool_free p). at b 16384 \<and> snd b \<noteq> h)"

text \<open>The ring buffer of a queue is on the bus.\<close>

definition ring_at :: "(pkt_buf \<Rightarrow> nat \<Rightarrow> bool) \<Rightarrow> dring \<Rightarrow> bool" where
  "ring_at at r \<longleftrightarrow> at (dr_dma r, dr_buf r) (2 ^ dr_log_size r * (16 * dr_block r)) \<and>
     dr_stride r = 16 * int (dr_block r) \<and> length (dr_info r) = 2 ^ dr_log_size r"

text \<open>A receive slot is armed: it holds a buffer, and its descriptors name every address of
  the buffer once, in order.\<close>

definition armed :: "(pkt_buf \<Rightarrow> nat \<Rightarrow> bool) \<Rightarrow> (int \<Rightarrow> byte) \<Rightarrow> dring \<Rightarrow> nat \<Rightarrow> bool" where
  "armed at peek r i \<longleftrightarrow> (\<exists>b ds. dr_info r ! i = Some b \<and> at b 16384 \<and> slot_descs peek r i = Inr ds \<and>
     gather (\<lambda>x. x) ds = [fst b..fst b + 16383])"

section \<open>Interface: host memory on the bus\<close>

locale dma_host =
  fixes B :: "'s nic_bus" and at :: "'s \<Rightarrow> int \<times> nat \<Rightarrow> nat \<Rightarrow> bool"
    and peek :: "'s \<Rightarrow> int \<Rightarrow> byte" and room :: "'s \<Rightarrow> nat \<Rightarrow> bool"
  assumes at_addr: "at s (a, h) n \<Longrightarrow> 0 \<le> a \<and> a + int n < 2 ^ 64"
    and at_len: "at s (a, h) n \<Longrightarrow> length (nb_mem B s h) = n"
    and at_peek: "at s (a, h) n \<Longrightarrow> i < n \<Longrightarrow> peek s (a + int i) = nb_mem B s h ! i"
    and set_at: "at s (a, h) n \<Longrightarrow> length d = n \<Longrightarrow> at s b m \<Longrightarrow> at (nb_set_mem B h d s) b m"
    and set_mem: "at s (a, h) n \<Longrightarrow> length d = n \<Longrightarrow>
      nb_mem B (nb_set_mem B h d s) h' = (if h' = h then d else nb_mem B s h')"
    and set_room: "at s (a, h) n \<Longrightarrow> length d = n \<Longrightarrow> room s k \<Longrightarrow> room (nb_set_mem B h d s) k"
    and room_less: "room s (Suc k) \<Longrightarrow> room s k"
    and alloc_ok: "room s (Suc k) \<Longrightarrow> \<exists>a h s'. nb_alloc B pkt_buf_size s = Inr (a, h, s') \<and> room s' k \<and>
      at s' (a, h) 16384 \<and> (\<forall>b m. at s b m \<longrightarrow> at s' b m \<and> snd b \<noteq> h \<and> nb_mem B s' (snd b) = nb_mem B s (snd b))"
begin

lemma bus_bytes_mem:
  assumes "at s (a, h) m" "pos + n \<le> m"
  shows "bus_bytes (peek s) (a + int pos) n = slice (nb_mem B s h) pos (pos + n)"
proof (rule nth_equalityI)
  show "length (bus_bytes (peek s) (a + int pos) n) = length (slice (nb_mem B s h) pos (pos + n))"
    using assms at_len by (simp add: bus_bytes_def)
  fix i assume "i < length (bus_bytes (peek s) (a + int pos) n)"
  then have i: "i < n" by (simp add: bus_bytes_def)
  have "peek s (a + int (pos + i)) = nb_mem B s h ! (pos + i)"
    using at_peek[OF assms(1), of "pos + i"] i assms(2) by simp
  then show "bus_bytes (peek s) (a + int pos) n ! i = slice (nb_mem B s h) pos (pos + n) ! i"
    using i assms at_len by (simp add: bus_bytes_def nth_slice ac_simps)
qed

lemma alloc_pkt_ok:
  assumes "room s (Suc k)" "pool_at (at s) p h" "at s (a, h) n"
  obtains b p' s' where "alloc_pkt B p s = Inr (b, p', s')" "room s' k" "at s' b 16384"
    "snd b \<noteq> h" "pool_at (at s') p' h" "\<And>b m. at s b m \<Longrightarrow> at s' b m" "nb_mem B s' h = nb_mem B s h"
proof (cases "pool_free p = []")
  case True
  obtain a' h' s' where a: "nb_alloc B pkt_buf_size s = Inr (a', h', s')" "room s' k" "at s' (a', h') 16384"
    "\<forall>b m. at s b m \<longrightarrow> at s' b m \<and> snd b \<noteq> h' \<and> nb_mem B s' (snd b) = nb_mem B s (snd b)"
    using alloc_ok[OF assms(1)] by blast
  show ?thesis
  proof (rule that)
    show "alloc_pkt B p s = Inr ((a', h'), p\<lparr>pool_allocated := pool_allocated p @ [(a', h')]\<rparr>, s')"
      by (simp add: alloc_pkt_def True a(1))
    show "snd (a', h') \<noteq> h" "nb_mem B s' h = nb_mem B s h" using a(4) assms(3) by fastforce+
    show "pool_at (at s') (p\<lparr>pool_allocated := pool_allocated p @ [(a', h')]\<rparr>) h" using True by (simp add: pool_at_def)
  qed (use a in auto)
next
  case False
  then have "last (pool_free p) \<in> set (pool_free p)" by simp
  moreover have "set (butlast (pool_free p)) \<subseteq> set (pool_free p)" by (auto dest: in_set_butlastD)
  ultimately show ?thesis
    using False assms room_less by (intro that[of "last (pool_free p)" "p\<lparr>pool_free := butlast (pool_free p)\<rparr>" s])
      (auto simp: alloc_pkt_def pool_at_def)
qed

lemma slot_room: "i < 2 ^ dr_log_size r \<Longrightarrow> i * (16 * dr_block r) + 16 * dr_block r \<le> 2 ^ dr_log_size r * (16 * dr_block r)"
proof -
  assume "i < 2 ^ dr_log_size r"
  then have "Suc i * (16 * dr_block r) \<le> 2 ^ dr_log_size r * (16 * dr_block r)" by (intro mult_le_mono1) simp
  then show ?thesis by simp
qed

lemma slot_descs_mem:
  assumes "at s (dr_dma r, dr_buf r) (2 ^ dr_log_size r * (16 * dr_block r))" "i < 2 ^ dr_log_size r"
  shows "slot_descs (peek s) r i = mapE (\<lambda>j. desc_at (nb_mem B s (dr_buf r)) (i * (16 * dr_block r) + 16 * j)) [0..<dr_block r]"
proof -
  have "unpack_desc (bus_bytes (peek s) (dr_dma r + int (i * (16 * dr_block r) + 16 * j)) 16) =
      desc_at (nb_mem B s (dr_buf r)) (i * (16 * dr_block r) + 16 * j)" if "j < dr_block r" for j
  proof -
    have "i * (16 * dr_block r) + 16 * j + 16 \<le> 2 ^ dr_log_size r * (16 * dr_block r)"
      using slot_room[OF assms(2)] that by linarith
    from bus_bytes_mem[OF assms(1) this] show ?thesis by (simp add: desc_at_def)
  qed
  then show ?thesis unfolding slot_descs_def by (intro mapE_cong_upt) auto
qed

lemma xmit_ring_gathers:
  assumes "room s (Suc k)" "pool_at (at s) p (dr_buf r)" "ring_at (at s) r" "length d \<le> 16374" "fits 16 csum"
  defines "i \<equiv> dr_slot r (dr_head r)"
  shows "\<exists>r' p' s' b ds. xmit_ring B d csum r p s = Inr (r', p', s') \<and> dr_info r' = (dr_info r)[i := Some b] \<and>
    dr_head r' = dr_head r + 1 \<and> slot_descs (peek s') r i = Inr ds \<and> fst (hd ds) = csum \<and> gather (peek s') ds = d"
proof -
  let ?n = "dr_block r" and ?m = "2 ^ dr_log_size r * (16 * dr_block r)"
  have at0: "at s (dr_dma r, dr_buf r) ?m" and stride: "dr_stride r = 16 * int ?n"
    and info: "length (dr_info r) = 2 ^ dr_log_size r" using assms(3) by (auto simp: ring_at_def)
  have i: "i < 2 ^ dr_log_size r" using dr_slot_less[of r "dr_head r"] by (simp add: i_def dr_size_def)
  have d: "take 16384 d = d" using assms(4) by simp
  obtain b p1 s1 where a: "alloc_pkt B p s = Inr (b, p1, s1)" "at s1 b 16384" "snd b \<noteq> dr_buf r"
    "\<And>b m. at s b m \<Longrightarrow> at s1 b m"
    by (rule alloc_pkt_ok[OF assms(1,2) at0]) blast
  obtain pa ph where b: "b = (pa, ph)" by (cases b)
  note at1 = a(4)[OF at0]
  let ?pm = "splice (nb_mem B s1 ph) 10 d"
  have len: "length (nb_mem B s1 ph) = 16384" using at_len a(2) b by simp
  have pm: "mmap_assign (nb_mem B s1 ph) 10 d = Inr ?pm" "length ?pm = 16384"
    using assms(4) len by (simp_all add: mmap_assign_def)
  define s2 where "s2 = nb_set_mem B ph ?pm s1"
  have at2: "at s2 c m" if "at s1 c m" for c m
    using set_at[OF a(2)[unfolded b] pm(2) that] by (simp add: s2_def)
  have mem2: "nb_mem B s2 h = (if h = ph then ?pm else nb_mem B s1 h)" for h
    using set_mem[OF a(2)[unfolded b] pm(2)] by (simp add: s2_def)
  let ?mem = "nb_mem B s2 (dr_buf r)" and ?pos = "i * (16 * ?n)"
  have mlen: "length ?mem = ?m" by (rule at_len[OF at2[OF at1]])
  have pa: "0 \<le> pa" "pa + 16384 < 2 ^ 64" using at_addr a(2) b by fastforce+
  have "?pos + 16 * ?n \<le> length ?mem" using slot_room[OF i] mlen by simp
  moreover have "fits 32 (int (length d))" "0 \<le> pa + 10" "pa + 10 + int (length d) \<le> 2 ^ 64 - 1"
    using assms(4) pa by (simp_all add: fits_def)
  ultimately obtain mem' ds where w: "xmit_descs r (int ?pos) csum (int (length d)) (pa + 10) ?mem = Inr mem'"
    "length mem' = length ?mem" "mapE (\<lambda>j. desc_at mem' (?pos + 16 * j)) [0..<?n] = Inr ds"
    "fst (hd ds) = csum" "\<And>f :: int \<Rightarrow> byte. gather f ds = map (\<lambda>i. f (pa + 10 + i)) [0..int (length d) - 1]"
    using xmit_descs_writes[of ?pos r ?mem "int (length d)" "pa + 10" csum] assms(5) by auto
  define s3 where "s3 = nb_set_mem B (dr_buf r) mem' s2"
  have at3: "at s3 c m" if "at s1 c m" for c m
    using set_at[OF at2[OF at1] _ at2[OF that], of mem'] w(2) mlen by (simp add: s3_def)
  have mem3: "nb_mem B s3 h = (if h = dr_buf r then mem' else nb_mem B s2 h)" for h
    using set_mem[OF at2[OF at1], of mem'] w(2) mlen by (simp add: s3_def)
  have run: "xmit_ring B d csum r p s = Inr (r\<lparr>dr_packets := dr_packets r + 1,
      dr_bytes := dr_bytes r + int (length d), dr_info := (dr_info r)[i := Some b], dr_head := dr_head r + 1\<rparr>, p1, s3)"
    using a(1) b pm(1) w(1) i info unfolding xmit_ring_def Let_def d i_def[symmetric]
    by (simp add: py_set_def stride s2_def[symmetric] s3_def[symmetric] ac_simps)
  have descs: "slot_descs (peek s3) r i = Inr ds"
    using slot_descs_mem[OF at3[OF at1] i] w(3) mem3 by simp
  have "gather (peek s3) ds = d"
  proof (rule nth_equalityI)
    show "length (gather (peek s3) ds) = length d" by (simp add: w(5))
    fix j assume "j < length (gather (peek s3) ds)"
    then have j: "j < length d" by (simp add: w(5))
    have "nb_mem B s3 ph = ?pm" using mem3 mem2 a(3) b by simp
    then have "peek s3 (pa + int (10 + j)) = ?pm ! (10 + j)"
      using at_peek[OF at3[OF a(2)[unfolded b]], of "10 + j"] j assms(4) by simp
    also have "\<dots> = d ! j" using j assms(4) len by (subst nth_splice) auto
    finally show "gather (peek s3) ds ! j = d ! j" using j by (simp add: w(5) ac_simps)
  qed
  then show ?thesis using run descs w(4) by (auto simp: b)
qed

text \<open>A longer packet does not fit behind the ten spare bytes of its buffer.\<close>

lemma xmit_ring_long:
  assumes "room s (Suc k)" "pool_at (at s) p (dr_buf r)" "ring_at (at s) r" "16374 < length d"
  shows "xmit_ring B d csum r p s = Inl IndexError"
proof -
  have at0: "at s (dr_dma r, dr_buf r) (2 ^ dr_log_size r * (16 * dr_block r))"
    and info: "length (dr_info r) = 2 ^ dr_log_size r" using assms(3) by (auto simp: ring_at_def)
  have i: "dr_slot r (dr_head r) < 2 ^ dr_log_size r"
    using dr_slot_less[of r "dr_head r"] by (simp add: dr_size_def)
  obtain b p1 s1 where a: "alloc_pkt B p s = Inr (b, p1, s1)" "at s1 b 16384"
    by (rule alloc_pkt_ok[OF assms(1,2) at0]) blast
  have "length (nb_mem B s1 (snd b)) = 16384" using at_len[of s1 "fst b" "snd b"] a(2) by simp
  moreover have "\<not> min (length d) 16384 \<le> 16374" using assms(4) by simp
  ultimately show ?thesis using a(1) i info
    by (simp add: xmit_ring_def py_set_def mmap_assign_def Let_def)
qed

lemma map_shift_upto: "map (\<lambda>i. a + i) [0..n - 1] = [a..a + n - (1 :: int)]"
  by (rule nth_equalityI) auto

lemma prepare_desc_arms:
  assumes "room s (Suc k)" "pool_at (at s) p (dr_buf r)" "ring_at (at s) r" "i < 2 ^ dr_log_size r"
  obtains b p' s' where "prepare_desc B i r p s = Inr (r\<lparr>dr_info := (dr_info r)[i := Some b]\<rparr>, p', s')"
    "room s' k" "pool_at (at s') p' (dr_buf r)" "ring_at (at s') (r\<lparr>dr_info := (dr_info r)[i := Some b]\<rparr>)"
    "armed (at s') (peek s') (r\<lparr>dr_info := (dr_info r)[i := Some b]\<rparr>) i"
    "\<And>j. j \<noteq> i \<Longrightarrow> j < 2 ^ dr_log_size r \<Longrightarrow> armed (at s) (peek s) r j \<Longrightarrow> armed (at s') (peek s') (r\<lparr>dr_info := (dr_info r)[i := Some b]\<rparr>) j"
proof -
  let ?n = "dr_block r" and ?m = "2 ^ dr_log_size r * (16 * dr_block r)"
  have at0: "at s (dr_dma r, dr_buf r) ?m" and stride: "dr_stride r = 16 * int ?n"
    and info: "length (dr_info r) = 2 ^ dr_log_size r" using assms(3) by (auto simp: ring_at_def)
  have n: "0 < ?n" by (simp add: dr_block_def)
  obtain b p1 s1 where a: "alloc_pkt B p s = Inr (b, p1, s1)" "room s1 k" "at s1 b 16384"
    "pool_at (at s1) p1 (dr_buf r)" "\<And>b m. at s b m \<Longrightarrow> at s1 b m" "nb_mem B s1 (dr_buf r) = nb_mem B s (dr_buf r)"
    by (rule alloc_pkt_ok[OF assms(1,2) at0]) blast
  obtain pa ph where b: "b = (pa, ph)" by (cases b)
  note at1 = a(5)[OF at0]
  let ?r = "r\<lparr>dr_info := (dr_info r)[i := Some b]\<rparr>"
  let ?mem = "nb_mem B s1 (dr_buf r)" and ?pos = "i * (16 * ?n)"
  have mlen: "length ?mem = ?m" by (rule at_len[OF at1])
  have plen: "length (nb_mem B s1 ph) = 16384" using at_len a(3) b by simp
  have pa: "0 \<le> pa" "pa + 16384 < 2 ^ 64" using at_addr a(3) b by fastforce+
  have "?pos + 16 * ?n \<le> length ?mem" using slot_room[OF assms(4)] mlen by simp
  moreover have "fits 32 16384" "pa + 16384 \<le> 2 ^ 64 - 1" using pa by (simp_all add: fits_def)
  ultimately obtain mem' where w: "desc_loop ?n (int ?pos) 16384 pa [0..<?n] 0 ?mem = Inr mem'"
    "length mem' = length ?mem"
    "mapE (\<lambda>j. desc_at mem' (?pos + 16 * j)) [0..<?n] = Inr (blocks ?n 16384 pa [0..<?n] 0)"
    "\<And>q. q < length ?mem \<Longrightarrow> q < ?pos \<or> ?pos + 16 * ?n \<le> q \<Longrightarrow> mem' ! q = ?mem ! q"
    using desc_loop_writes[of ?pos ?n ?mem 0 16384 pa 0] pa by auto
  define s2 where "s2 = nb_set_mem B (dr_buf r) mem' s1"
  have at2: "at s2 c m" if "at s1 c m" for c m
    using set_at[OF at1 _ that, of mem'] w(2) mlen by (simp add: s2_def)
  have mem2: "nb_mem B s2 (dr_buf r) = mem'"
    using set_mem[OF at1, of mem'] w(2) mlen by (simp add: s2_def)
  have run: "prepare_desc B i r p s = Inr (?r, p1, s2)"
    using a(1) b w(1) assms(4) info plen unfolding prepare_desc_def
    by (simp add: py_set_def stride s2_def[symmetric] ac_simps)
  have descs: "slot_descs (peek s2) ?r i = Inr (blocks ?n 16384 pa [0..<?n] 0)"
    using slot_descs_mem[of s2 ?r i] at2[OF at1] assms(4) w(3) mem2 by (simp add: dr_block_def)
  have cover: "gather (\<lambda>x. x) (blocks ?n 16384 pa [0..<?n] 0) = [pa..pa + 16383]"
    using gather_blocks[of 0 ?n 0 16384 "\<lambda>x. x" pa] n map_shift_upto[of pa 16384] by (simp add: ac_simps)
  show ?thesis
  proof (rule that[OF run])
    show "room s2 k" using set_room[OF at1 _ a(2), of mem'] w(2) mlen by (simp add: s2_def)
    show "pool_at (at s2) p1 (dr_buf r)" using a(4) at2 by (simp add: pool_at_def)
    show "ring_at (at s2) ?r" using at2[OF at1] stride info by (simp add: ring_at_def dr_block_def)
    show "armed (at s2) (peek s2) ?r i"
      using descs cover at2[OF a(3)] assms(4) info b by (auto simp: armed_def)
    show "armed (at s2) (peek s2) ?r j" if j: "j \<noteq> i" "j < 2 ^ dr_log_size r" "armed (at s) (peek s) r j" for j
    proof -
      obtain b' ds where o: "dr_info r ! j = Some b'" "at s b' 16384" "slot_descs (peek s) r j = Inr ds"
        "gather (\<lambda>x. x) ds = [fst b'..fst b' + 16383]" using j(3) by (auto simp: armed_def)
      have "desc_at mem' (j * (16 * ?n) + 16 * q) = desc_at ?mem (j * (16 * ?n) + 16 * q)" if q: "q < ?n" for q
      proof (rule desc_at_cong[OF w(2)])
        have "16 * q + 16 \<le> 16 * ?n" using q by simp
        then show lim: "j * (16 * ?n) + 16 * q + 16 \<le> length ?mem" using slot_room[OF j(2)] mlen by linarith
        fix t assume t: "j * (16 * ?n) + 16 * q \<le> t" "t < j * (16 * ?n) + 16 * q + 16"
        have "t < ?pos \<or> ?pos + 16 * ?n \<le> t"
        proof (cases "j < i")
          case True
          then have "Suc j * (16 * ?n) \<le> ?pos" by (intro mult_le_mono1) simp
          then show ?thesis using t \<open>16 * q + 16 \<le> 16 * ?n\<close> by simp
        next
          case False
          then have "Suc i * (16 * ?n) \<le> j * (16 * ?n)" using j(1) by (intro mult_le_mono1) simp
          then show ?thesis using t by simp
        qed
        then show "mem' ! t = ?mem ! t" using t lim by (intro w(4)) auto
      qed
      then have "slot_descs (peek s2) ?r j = slot_descs (peek s) r j"
        using slot_descs_mem[of s2 ?r j] slot_descs_mem[OF at0 j(2)] at2[OF at1] j(2) mem2 a(6)
        by (auto simp: dr_block_def intro: mapE_cong_upt)
      then show ?thesis using o j at2 a(5) info by (auto simp: armed_def)
    qed
  qed
qed

lemma refill_slots_arm:
  assumes "room s n" "pool_at (at s) p (dr_buf r)" "ring_at (at s) r"
  shows "\<exists>r' p' s'. refill_slots B n r p s = Inr (r', p', s') \<and> dr_head r' = dr_head r + int n \<and>
    dr_clean r' = dr_clean r \<and> ring_at (at s') r' \<and>
    (\<forall>i < 2 ^ dr_log_size r. armed (at s) (peek s) r i \<or> (\<exists>q < n. i = dr_slot r (dr_head r + int q)) \<longrightarrow> armed (at s') (peek s') r' i)"
  using assms
proof (induction n arbitrary: r p s)
  case 0
  then show ?case by simp
next
  case (Suc n)
  have i: "dr_slot r (dr_head r) < 2 ^ dr_log_size r"
    using dr_slot_less[of r "dr_head r"] by (simp add: dr_size_def)
  obtain b p1 s1 where a: "prepare_desc B (dr_slot r (dr_head r)) r p s =
      Inr (r\<lparr>dr_info := (dr_info r)[dr_slot r (dr_head r) := Some b]\<rparr>, p1, s1)"
    "room s1 n" "pool_at (at s1) p1 (dr_buf r)"
    "ring_at (at s1) (r\<lparr>dr_info := (dr_info r)[dr_slot r (dr_head r) := Some b]\<rparr>)"
    "armed (at s1) (peek s1) (r\<lparr>dr_info := (dr_info r)[dr_slot r (dr_head r) := Some b]\<rparr>) (dr_slot r (dr_head r))"
    "\<And>j. j \<noteq> dr_slot r (dr_head r) \<Longrightarrow> j < 2 ^ dr_log_size r \<Longrightarrow> armed (at s) (peek s) r j \<Longrightarrow>
      armed (at s1) (peek s1) (r\<lparr>dr_info := (dr_info r)[dr_slot r (dr_head r) := Some b]\<rparr>) j"
    by (rule prepare_desc_arms[OF Suc.prems i]) blast
  let ?r = "r\<lparr>dr_info := (dr_info r)[dr_slot r (dr_head r) := Some b], dr_head := dr_head r + 1\<rparr>"
  have arm: "armed (at s') (peek s') ?r j = armed (at s') (peek s') (r\<lparr>dr_info := (dr_info r)[dr_slot r (dr_head r) := Some b]\<rparr>) j" for s' j
    by (simp add: armed_def slot_descs_def dr_block_def)
  have "ring_at (at s1) ?r" using a(4) by (simp add: ring_at_def dr_block_def)
  moreover have "pool_at (at s1) p1 (dr_buf ?r)" using a(3) by simp
  ultimately obtain r' p' s' where r0: "refill_slots B n ?r p1 s1 = Inr (r', p', s') \<and>
      dr_head r' = dr_head ?r + int n \<and> dr_clean r' = dr_clean ?r \<and> ring_at (at s') r' \<and>
      (\<forall>i < 2 ^ dr_log_size ?r. armed (at s1) (peek s1) ?r i \<or> (\<exists>q < n. i = dr_slot ?r (dr_head ?r + int q)) \<longrightarrow> armed (at s') (peek s') r' i)"
    using Suc.IH[OF a(2)] by blast
  then have r': "refill_slots B n ?r p1 s1 = Inr (r', p', s')"
    "dr_head r' = dr_head r + 1 + int n" "dr_clean r' = dr_clean r" "ring_at (at s') r'"
    by simp_all
  have h: "dr_head ?r = dr_head r + 1" "dr_log_size ?r = dr_log_size r" by simp_all
  have r5: "armed (at s') (peek s') r' i" if "i < 2 ^ dr_log_size r"
    "armed (at s1) (peek s1) ?r i \<or> (\<exists>q < n. i = dr_slot ?r (dr_head r + 1 + int q))" for i
    using r0[unfolded h] that by blast
  have slot: "dr_slot ?r x = dr_slot r x" for x by (simp add: dr_slot_def dr_mask_def dr_size_def)
  have "armed (at s') (peek s') r' i" if h: "i < 2 ^ dr_log_size r"
    "armed (at s) (peek s) r i \<or> (\<exists>q < Suc n. i = dr_slot r (dr_head r + int q))" for i
  proof (cases "i = dr_slot r (dr_head r)")
    case True
    then show ?thesis using a(5) arm r5[OF h(1)] by simp
  next
    case False
    have "armed (at s1) (peek s1) ?r i \<or> (\<exists>q < n. i = dr_slot ?r (dr_head r + 1 + int q))"
      using h(2)
    proof
      assume "armed (at s) (peek s) r i"
      then show ?thesis using a(6)[OF False h(1)] arm by simp
    next
      assume "\<exists>q < Suc n. i = dr_slot r (dr_head r + int q)"
      then obtain q where q: "q < Suc n" "i = dr_slot r (dr_head r + int q)" by blast
      with False obtain t where "q = Suc t" by (cases q) auto
      with q show ?thesis unfolding slot by (intro disjI2 exI[of _ t]) (simp add: ac_simps)
    qed
    then show ?thesis by (rule r5[OF h(1)])
  qed
  then show ?case using a(1) r'(1,2,3,4) by (intro exI[of _ r'] exI[of _ p'] exI[of _ s']) simp
qed

end

section \<open>The memory of the root complex\<close>

definition rc_at :: "('a, 'e) host \<Rightarrow> int \<times> nat \<Rightarrow> nat \<Rightarrow> bool" where
  "rc_at s b n \<longleftrightarrow> alloc_inv (fst s) \<and> snd b < length (rc_regions (fst s)) \<and>
     (\<exists>mem. rc_regions (fst s) ! snd b = RcMem (fst b) (int n) mem \<and> length mem = n) \<and>
     0 \<le> fst b \<and> fst b + int n < 2 ^ 64"

definition rc_peek :: "('a, 'e) host \<Rightarrow> int \<Rightarrow> byte" where
  "rc_peek s = rl_peek (rc_regions (fst s))"

definition rc_room :: "(int \<Rightarrow> nat) \<Rightarrow> ('a, 'e) host \<Rightarrow> nat \<Rightarrow> bool" where
  "rc_room lg s k \<longleftrightarrow> alloc_inv (fst s) \<and> lg 16384 = 14 \<and> region_limit (fst s) + 32768 * (int k + 1) < 2 ^ 64"

lemma find_index_nth:
  "h < length xs \<Longrightarrow> P (xs ! h) \<Longrightarrow> (\<And>j. j < h \<Longrightarrow> \<not> P (xs ! j)) \<Longrightarrow> find_index P xs = Some h"
proof (induction xs arbitrary: h)
  case (Cons x xs)
  show ?case
  proof (cases h)
    case 0
    then show ?thesis using Cons.prems by simp
  next
    case (Suc j)
    have "\<not> P x" using Cons.prems(3)[of 0] Suc by simp
    moreover have "find_index P xs = Some j"
    proof (rule Cons.IH)
      show "\<not> P (xs ! i)" if "i < j" for i using Cons.prems(3)[of "Suc i"] Suc that by simp
    qed (use Cons.prems Suc in auto)
    ultimately show ?thesis using Suc by simp
  qed
qed simp

lemma region_of_address:
  assumes "alloc_inv r" "h < length (rc_regions r)" "in_region i (rc_regions r ! h)"
  shows "find_index (in_region i) (rc_regions r) = Some h"
proof (rule find_index_nth[where P = "in_region i", OF assms(2,3)])
  fix j assume "j < h"
  then have "rr_addr (rc_regions r ! j) + rr_size (rc_regions r ! j) \<le> rr_addr (rc_regions r ! h)"
    using assms(1,2) by (auto simp: alloc_inv_def sorted_wrt_iff_nth_less)
  then show "\<not> in_region i (rc_regions r ! j)" using assms(3) by (auto simp: in_region_def)
qed

lemma set_bytes_at:
  assumes "rc_regions r ! h = RcMem a sz mem" "h < length (rc_regions r)"
  shows "set_region_bytes h d (rc_regions r) = (rc_regions r)[h := RcMem a sz d]"
  using assms by (simp add: set_region_bytes_def)

lemma alloc_inv_cong:
  assumes "map rr_addr (rc_regions r') = map rr_addr (rc_regions r)"
    "map rr_size (rc_regions r') = map rr_size (rc_regions r)" "region_limit r' = region_limit r"
  shows "alloc_inv r' = alloc_inv r"
proof -
  have len: "length (rc_regions r') = length (rc_regions r)" using assms(1) by (rule map_eq_imp_length_eq)
  have a: "rr_addr (rc_regions r' ! i) = rr_addr (rc_regions r ! i)"
    "rr_size (rc_regions r' ! i) = rr_size (rc_regions r ! i)" if "i < length (rc_regions r)" for i
    using that assms(1,2) len by (metis nth_map)+
  have "rc_regions r' = [] \<longleftrightarrow> rc_regions r = []" using len by (metis length_0_conv)
  then show ?thesis
    unfolding alloc_inv_def sorted_wrt_iff_nth_less all_set_conv_all_nth len assms(3)
    using a by (auto simp: less_trans)
qed

lemma alloc_inv_set:
  assumes "rc_regions r ! h = RcMem a sz mem" "h < length (rc_regions r)"
  shows "alloc_inv (r\<lparr>rc_regions := (rc_regions r)[h := RcMem a sz d]\<rparr>) = alloc_inv r"
  by (rule alloc_inv_cong) (simp_all add: map_update assms list_update_same_conv nth_map)

lemma rc_at_set:
  assumes "rc_at s (a, h) n" "length d = n" "rc_at s b m"
  shows "rc_at (nb_set_mem (rc_bus lg ucb F) h d s) b m"
proof -
  obtain mem where h: "h < length (rc_regions (fst s))" "rc_regions (fst s) ! h = RcMem a (int n) mem"
    using assms(1) by (auto simp: rc_at_def)
  have s': "nb_set_mem (rc_bus lg ucb F) h d s =
      ((fst s)\<lparr>rc_regions := (rc_regions (fst s))[h := RcMem a (int n) d]\<rparr>, snd s)"
    by (simp add: rc_bus_def set_bytes_at[OF h(2,1)])
  show ?thesis
    using assms alloc_inv_set[OF h(2,1), of d] h unfolding s'
    by (cases "snd b = h") (auto simp: rc_at_def)
qed

lemma rc_alloc:
  assumes "rc_room lg s (Suc k)"
  shows "\<exists>a h s'. nb_alloc (rc_bus lg ucb F) pkt_buf_size s = Inr (a, h, s') \<and> rc_room lg s' k \<and>
    rc_at s' (a, h) 16384 \<and> (\<forall>b m. rc_at s b m \<longrightarrow> rc_at s' b m \<and> snd b \<noteq> h \<and>
      nb_mem (rc_bus lg ucb F) s' (snd b) = nb_mem (rc_bus lg ucb F) s (snd b))"
proof -
  let ?r = "fst s"
  have room: "alloc_inv ?r" "lg 16384 = 14" "region_limit ?r + 32768 * (int k + 2) < 2 ^ 64"
    using assms by (auto simp: rc_room_def algebra_simps)
  define a where "a = align (region_limit ?r) (2 ^ 14 - 1)"
  define r' where "r' = ?r\<lparr>region_limit := a + 16384 - 1, rc_regions := rc_regions ?r @ [new_region a 16384 None]\<rparr>"
  have al: "alloc_region lg 16384 None ?r = Inr (a, r')"
    by (simp add: alloc_region_def Let_def room(2) a_def r'_def)
  have inv: "alloc_inv r'" "\<forall>r \<in> set (rc_regions ?r). rr_addr r + rr_size r \<le> a"
    using alloc_region_inv[OF room(1) _ _ al] room(2) by simp_all
  have "0 \<le> region_limit ?r" using room(1) by (simp add: alloc_inv_def)
  moreover have "region_limit ?r \<le> a" "a \<le> region_limit ?r + 16384"
  proof -
    show "region_limit ?r \<le> a" unfolding a_def by (rule align_bounds(1))
    have "a = - (- region_limit ?r div 2 ^ 14) * 2 ^ 14" unfolding a_def by (rule align_mask)
    moreover have "- region_limit ?r mod 2 ^ 14 < 2 ^ 14" "- region_limit ?r mod 2 ^ 14 \<ge> 0" by simp_all
    ultimately show "a \<le> region_limit ?r + 16384"
      using div_mult_mod_eq[of "- region_limit ?r" "2 ^ 14"] by (simp add: algebra_simps)
  qed
  ultimately have lim: "0 \<le> a" "a + 16384 + 16384 * (int k + 1) < 2 ^ 64" "a + 16383 + 32768 * (int k + 1) < 2 ^ 64"
    using room(3) by auto
  let ?s = "(r', snd s)" and ?h = "length (rc_regions ?r)"
  have alloc: "nb_alloc (rc_bus lg ucb F) pkt_buf_size s = Inr (a, ?h, ?s)"
    by (simp add: rc_bus_def pkt_buf_size_def al)
  have "rc_room lg ?s k" using inv(1) room(2) lim(3) by (simp add: rc_room_def r'_def)
  moreover have "rc_at ?s (a, ?h) 16384"
    using inv(1) lim(1,2) by (simp add: rc_at_def r'_def new_region_def)
  moreover have "rc_at ?s b m \<and> snd b \<noteq> ?h \<and>
      nb_mem (rc_bus lg ucb F) ?s (snd b) = nb_mem (rc_bus lg ucb F) s (snd b)" if "rc_at s b m" for b m
    using that inv(1) by (auto simp: rc_at_def r'_def nth_append rc_bus_def region_bytes_def)
  ultimately show ?thesis using alloc by blast
qed

interpretation rc_dma: dma_host "rc_bus lg ucb F" rc_at rc_peek "rc_room lg"
proof
  fix s :: "('a, 'b) host" and a h n d b m h' k
  show "0 \<le> a \<and> a + int n < 2 ^ 64" if "rc_at s (a, h) n" using that by (simp add: rc_at_def)
  show "length (nb_mem (rc_bus lg ucb F) s h) = n" if "rc_at s (a, h) n"
    using that by (auto simp: rc_at_def rc_bus_def region_bytes_def)
  show "rc_peek s (a + int i) = nb_mem (rc_bus lg ucb F) s h ! i" if at: "rc_at s (a, h) n" "i < n" for i
  proof -
    obtain mem where h: "alloc_inv (fst s)" "h < length (rc_regions (fst s))"
      "rc_regions (fst s) ! h = RcMem a (int n) mem" "length mem = n"
      using at(1) by (auto simp: rc_at_def)
    have "find_index (in_region (a + int i)) (rc_regions (fst s)) = Some h"
      using h at(2) by (intro region_of_address) (auto simp: in_region_def)
    then show ?thesis using h at(2) by (simp add: rc_peek_def rl_peek_def rc_bus_def region_bytes_def)
  qed
  show "rc_at (nb_set_mem (rc_bus lg ucb F) h d s) b m" if "rc_at s (a, h) n" "length d = n" "rc_at s b m"
    using that by (rule rc_at_set)
  show "nb_mem (rc_bus lg ucb F) (nb_set_mem (rc_bus lg ucb F) h d s) h' =
      (if h' = h then d else nb_mem (rc_bus lg ucb F) s h')" if "rc_at s (a, h) n" "length d = n"
    using that by (auto simp: rc_at_def rc_bus_def region_bytes_def set_region_bytes_def)
  show "rc_room lg (nb_set_mem (rc_bus lg ucb F) h d s) k"
    if at: "rc_at s (a, h) n" "length d = n" and r: "rc_room lg s k"
  proof -
    obtain mem where h: "h < length (rc_regions (fst s))" "rc_regions (fst s) ! h = RcMem a (int n) mem"
      using at(1) by (auto simp: rc_at_def)
    show ?thesis using r alloc_inv_set[OF h(2,1), of d]
      by (simp add: rc_bus_def rc_room_def set_bytes_at[OF h(2,1)])
  qed
  show "rc_room lg s k" if "rc_room lg s (Suc k)" using that by (simp add: rc_room_def)
  show "\<exists>a h s'. nb_alloc (rc_bus lg ucb F) pkt_buf_size s = Inr (a, h, s') \<and> rc_room lg s' k \<and>
    rc_at s' (a, h) 16384 \<and> (\<forall>b m. rc_at s b m \<longrightarrow> rc_at s' b m \<and> snd b \<noteq> h \<and>
      nb_mem (rc_bus lg ucb F) s' (snd b) = nb_mem (rc_bus lg ucb F) s (snd b))" if "rc_room lg s (Suc k)"
    using that by (rule rc_alloc)
qed

section \<open>Refilling a receive queue\<close>

lemma slot_surj:
  assumes "i < 2 ^ dr_log_size r"
  shows "\<exists>q. c \<le> q \<and> q < c + 2 ^ dr_log_size r \<and> dr_slot r q = i"
proof -
  let ?n = "2 ^ dr_log_size r :: int"
  let ?q = "c + (int i - c) mod ?n"
  have "0 \<le> (int i - c) mod ?n" "(int i - c) mod ?n < ?n" by simp_all
  moreover have "int i < ?n" using assms by (metis of_nat_less_iff of_nat_numeral of_nat_power)
  then have "?q mod ?n = int i" by (simp add: mod_add_right_eq)
  then have "dr_slot r ?q = i" by (simp add: dr_slot_mod)
  ultimately show ?thesis by (intro exI[of _ ?q]) simp
qed


text \<open>A queue of one slot, its ring buffer at bus address 0, and no packet buffers yet.\<close>

definition demo_ring :: dring where
  "demo_ring = (tx_new 1 16 0 0x1000)\<lparr>dr_info := [None]\<rparr>"

definition demo_host :: "root_complex \<times> unit" where
  "demo_host = (root_complex_init\<lparr>region_limit := 15, rc_regions := [RcMem 0 16 (replicate 16 0)]\<rparr>, ())"

lemma demo_ok:
  "rc_room clog2 demo_host 1" "pool_at (rc_at demo_host) pool_init (dr_buf demo_ring)"
  "ring_at (rc_at demo_host) demo_ring"
  by (simp_all add: rc_room_def demo_host_def alloc_inv_def clog2.simps pool_at_def pool_init_def
      ring_at_def rc_at_def demo_ring_def tx_new_def dr_block_def bit_length.simps)


section \<open>Transmission\<close>

text \<open>Property C27: a transmission of at most 16374 bytes succeeds, and the device that reads the
  descriptors of the slot over the bus and follows them reads exactly the bytes of the packet;
  the first descriptor carries the checksum command. A longer packet raises an exception,
  although the code means to accept 16384 bytes.\<close>

theorem nic_xmit_gathers:
  assumes "rc_room lg s (Suc k)" "pool_at (rc_at s) p (dr_buf r)" "ring_at (rc_at s) r" "fits 16 csum"
  shows "if length d \<le> 16374 then
      \<exists>r' p' s' b ds. xmit_ring (rc_bus lg ucb F) d csum r p s = Inr (r', p', s') \<and>
        dr_info r' = (dr_info r)[dr_slot r (dr_head r) := Some b] \<and> dr_head r' = dr_head r + 1 \<and>
        slot_descs (rc_peek s') r (dr_slot r (dr_head r)) = Inr ds \<and> fst (hd ds) = csum \<and>
        gather (rc_peek s') ds = d
    else xmit_ring (rc_bus lg ucb F) d csum r p s = Inl IndexError"
  using rc_dma.xmit_ring_gathers[OF assms(1,2,3) _ assms(4), where d = d and ucb = ucb and F = F]
    rc_dma.xmit_ring_long[OF assms(1,2,3), where d = d and ucb = ucb and F = F and csum = csum]
  by (simp add: not_le)

theorem nic_xmit_gathers_witness:
  "\<exists>r' p' s' ds. xmit_ring (rc_bus clog2 (\<lambda>_ _ _ r. Inr r) \<lparr>fab_send = (\<lambda>_ e. Inr e), fab_wait = (\<lambda>_ e. ([], e))\<rparr>)
     [1, 2, 3] 0x8622 demo_ring pool_init demo_host = Inr (r', p', s') \<and>
     slot_descs (rc_peek s') demo_ring (dr_slot demo_ring 0) = Inr ds \<and> gather (rc_peek s') ds = [1, 2, 3]"
proof -
  let ?F = "\<lparr>fab_send = (\<lambda>_ e. Inr e), fab_wait = (\<lambda>_ e. ([], e))\<rparr> :: unit fabric"
  have room: "rc_room clog2 demo_host (Suc 0)" and csum: "fits 16 0x8622" and len: "length [1, 2, 3 :: byte] \<le> 16374"
    using demo_ok(1) by (simp_all add: fits_def)
  have head: "dr_head demo_ring = 0" by (simp add: demo_ring_def tx_new_def)
  note x = nic_xmit_gathers[OF room demo_ok(2,3) csum, where d = "[1, 2, 3]" and F = ?F and ucb = "\<lambda>_ _ _ r. Inr r"]
  from x[unfolded if_P[OF len] head] show ?thesis by blast
qed

section \<open>Completion queues\<close>

definition cq_fits :: "bytes \<Rightarrow> cring \<Rightarrow> bool" where
  "cq_fits mem cq \<longleftrightarrow> 16 \<le> cr_stride cq \<and> int (length mem) = cr_size cq * cr_stride cq"

definition cq_record :: "bytes \<Rightarrow> cring \<Rightarrow> int \<Rightarrow> bytes" where
  "cq_record mem cq t = slice mem (nat (cr_slot cq t * cr_stride cq)) (nat (cr_slot cq t * cr_stride cq) + 16)"

definition rec_index :: "bytes \<Rightarrow> nat" where
  "rec_index d = nat (field d 2 2)"

text \<open>The packet a completion record describes, from the contents of its buffer.\<close>

definition rx_skb :: "bytes \<Rightarrow> bytes \<Rightarrow> packet" where
  "rx_skb d buf = \<lparr>pkt_data = take (nat (field d 4 2)) buf, pkt_timestamp_s = Some (field d 12 2),
     pkt_timestamp_ns = Some (field d 8 4), pkt_rx_checksum = Some (field d 14 2)\<rparr>"

lemma cq_unpack:
  assumes "cq_fits mem cq"
  shows "unpack_from mem (cr_slot cq t * cr_stride cq) 16 = Inr (cq_record mem cq t)"
proof -
  have lt: "cr_slot cq t < cr_size cq" by (simp add: cr_slot_mod cr_size_def)
  have s: "0 \<le> cr_slot cq t" "cr_slot cq t + 1 \<le> cr_size cq" using lt by (simp_all add: cr_slot_mod)
  have st: "16 \<le> cr_stride cq" "int (length mem) = cr_size cq * cr_stride cq" using assms by (auto simp: cq_fits_def)
  have "(cr_slot cq t + 1) * cr_stride cq \<le> cr_size cq * cr_stride cq"
    using s(2) st(1) by (intro mult_right_mono) auto
  then have "cr_slot cq t * cr_stride cq + 16 \<le> int (length mem)" using st by (simp add: algebra_simps)
  moreover have "0 \<le> cr_slot cq t * cr_stride cq" using s(1) st(1) by simp
  ultimately show ?thesis by (simp add: unpack_from_def cq_record_def nat_le_iff)
qed

definition clear :: "nat set \<Rightarrow> 'b option list \<Rightarrow> 'b option list" where
  "clear S xs = map (\<lambda>i. if i \<in> S then None else xs ! i) [0..<length xs]"

lemma clear_empty [simp]: "clear {} xs = xs"
  by (simp add: clear_def map_nth)

lemma clear_update: "i < length xs \<Longrightarrow> clear S (xs[i := None]) = clear (insert i S) xs"
  by (rule nth_equalityI) (auto simp: clear_def nth_list_update)

lemma rx_entry_ok:
  assumes "cq_fits (mem (cr_buf cq)) cq" "rec_index d < length (dr_info r)"
    and "d = cq_record (mem (cr_buf cq)) cq t" "dr_info r ! rec_index d = Some b" "b \<in> set (pool_allocated p)"
  shows "rx_entry mem cq t (r, p, ps) =
    Inr (r\<lparr>dr_info := (dr_info r)[rec_index d := None]\<rparr>, p\<lparr>pool_free := pool_free p @ [b]\<rparr>, ps @ [rx_skb d (mem (snd b))])"
  using assms cq_unpack[OF assms(1), of t]
  by (simp add: rx_entry_def rx_free_desc_def free_pkt_def rec_index_def[symmetric] rx_skb_def Let_def)

lemma rx_drain_all:
  assumes "cq_fits (mem (cr_buf cq)) cq"
    and "\<And>j. j < m \<Longrightarrow> I (t + int j) = rec_index (cq_record (mem (cr_buf cq)) cq (t + int j))"
    and "\<And>j. j < m \<Longrightarrow> I (t + int j) < length (dr_info r) \<and> dr_info r ! I (t + int j) = Some (b (t + int j)) \<and>
      b (t + int j) \<in> set (pool_allocated p)"
    and "distinct (map (\<lambda>j. I (t + int j)) [0..<m])"
  shows "drain (rx_entry mem cq) (t + int m) t (r, p, ps) =
    Some (Inr (t + int m, r\<lparr>dr_info := clear ((\<lambda>j. I (t + int j)) ` {..<m}) (dr_info r)\<rparr>,
      p\<lparr>pool_free := pool_free p @ map (\<lambda>j. b (t + int j)) [0..<m]\<rparr>,
      ps @ map (\<lambda>j. rx_skb (cq_record (mem (cr_buf cq)) cq (t + int j)) (mem (snd (b (t + int j))))) [0..<m]))"
  using assms(2-4)
proof (induction m arbitrary: t r p ps)
  case 0
  then show ?case by (simp add: drain.simps)
next
  case (Suc m)
  let ?i = "I t" and ?d = "cq_record (mem (cr_buf cq)) cq t"
  let ?r = "r\<lparr>dr_info := (dr_info r)[?i := None]\<rparr>" and ?p = "p\<lparr>pool_free := pool_free p @ [b t]\<rparr>"
  have i: "?i = rec_index ?d" "?i < length (dr_info r)" "dr_info r ! ?i = Some (b t)" "b t \<in> set (pool_allocated p)"
    using Suc.prems(1)[of 0] Suc.prems(2)[of 0] by simp_all
  have e: "rx_entry mem cq t (r, p, ps) = Inr (?r, ?p, ps @ [rx_skb ?d (mem (snd (b t)))])"
    unfolding i(1) using i assms(1) by (intro rx_entry_ok[where mem = mem and cq = cq and d = ?d]) simp_all
  have sh: "t + 1 + int j = t + int (Suc j)" for j by simp
  have upt: "[0..<Suc m] = 0 # map Suc [0..<m]" by (simp only: map_Suc_upt) (rule upt_conv_Cons, simp)
  have d: "distinct (map (\<lambda>j. I (t + 1 + int j)) [0..<m])" "?i \<notin> (\<lambda>j. I (t + 1 + int j)) ` {..<m}"
    using Suc.prems(3) unfolding upt by (auto simp: comp_def sh simp del: of_nat_Suc)
  have "drain (rx_entry mem cq) (t + 1 + int m) (t + 1) (?r, ?p, ps @ [rx_skb ?d (mem (snd (b t)))]) =
    Some (Inr (t + 1 + int m, ?r\<lparr>dr_info := clear ((\<lambda>j. I (t + 1 + int j)) ` {..<m}) (dr_info ?r)\<rparr>,
      ?p\<lparr>pool_free := pool_free ?p @ map (\<lambda>j. b (t + 1 + int j)) [0..<m]\<rparr>,
      (ps @ [rx_skb ?d (mem (snd (b t)))]) @
        map (\<lambda>j. rx_skb (cq_record (mem (cr_buf cq)) cq (t + 1 + int j)) (mem (snd (b (t + 1 + int j))))) [0..<m]))"
  proof (rule Suc.IH)
    fix j assume j: "j < m"
    show "I (t + 1 + int j) = rec_index (cq_record (mem (cr_buf cq)) cq (t + 1 + int j))"
      using Suc.prems(1)[of "Suc j"] j unfolding sh by simp
    have "I (t + 1 + int j) \<in> (\<lambda>j. I (t + 1 + int j)) ` {..<m}" by (rule imageI) (simp add: j)
    then have "I (t + 1 + int j) \<noteq> ?i" using d(2) by metis
    then show "I (t + 1 + int j) < length (dr_info ?r) \<and> dr_info ?r ! I (t + 1 + int j) = Some (b (t + 1 + int j)) \<and>
      b (t + 1 + int j) \<in> set (pool_allocated ?p)"
      using Suc.prems(2)[of "Suc j"] j unfolding sh by simp
  qed (rule d(1))
  moreover have "clear ((\<lambda>j. I (t + 1 + int j)) ` {..<m}) (dr_info ?r) = clear ((\<lambda>j. I (t + int j)) ` {..<Suc m}) (dr_info r)"
  proof -
    have "(\<lambda>j. I (t + int j)) ` {..<Suc m} = insert ?i ((\<lambda>j. I (t + 1 + int j)) ` {..<m})"
      by (auto simp: lessThan_Suc_eq_insert_0 image_image sh simp del: of_nat_Suc)
    then show ?thesis using clear_update[OF i(2)] by simp
  qed
  moreover have "drain (rx_entry mem cq) (t + int (Suc m)) t (r, p, ps) =
      drain (rx_entry mem cq) (t + 1 + int m) (t + 1) (?r, ?p, ps @ [rx_skb ?d (mem (snd (b t)))])"
    by (subst drain.simps) (simp add: e ac_simps)
  ultimately show ?case unfolding upt by (simp add: comp_def sh[symmetric] ac_simps)
qed

text \<open>Property C29: draining a receive completion queue whose records name different slots in
  flight hands the application one packet per record, in the order of the queue, each with the first
  \<open>length\<close> bytes of its buffer, the time stamp and the checksum of its record; it empties
  exactly those slots, returns their buffers to the pool and moves the tail to the head.\<close>

theorem nic_rx_delivers:
  assumes "cq_fits (nb_mem B (nic_host n) (cr_buf cq)) cq" "cr_head cq = cr_tail cq + int m"
    and "\<And>j. j < m \<Longrightarrow> I j = rec_index (cq_record (nb_mem B (nic_host n) (cr_buf cq)) cq (cr_tail cq + int j))"
    and "\<And>j. j < m \<Longrightarrow> I j < length (dr_info (if_rxs (nic_if n) ! k)) \<and>
      dr_info (if_rxs (nic_if n) ! k) ! I j = Some (b j) \<and> b j \<in> set (pool_allocated (nic_pool n))"
    and "distinct (map I [0..<m])"
  shows "\<exists>n'. rx_drain B c k cq n = Some (Inr n') \<and> nic_host n' = nic_host n \<and>
    if_rx_packets (nic_if n') = if_rx_packets (nic_if n) @
      map (\<lambda>j. rx_skb (cq_record (nb_mem B (nic_host n) (cr_buf cq)) cq (cr_tail cq + int j))
        (nb_mem B (nic_host n) (snd (b j)))) [0..<m] \<and>
    if_rxs (nic_if n') = (if_rxs (nic_if n))[k := (if_rxs (nic_if n) ! k)
      \<lparr>dr_info := clear (I ` {..<m}) (dr_info (if_rxs (nic_if n) ! k))\<rparr>] \<and>
    pool_free (nic_pool n') = pool_free (nic_pool n) @ map b [0..<m] \<and>
    if_rx_cqs (nic_if n') = (if_rx_cqs (nic_if n))[c := cq\<lparr>cr_tail := cr_head cq\<rparr>]"
proof -
  let ?t = "cr_tail cq" and ?mem = "nb_mem B (nic_host n)"
  have sh: "nat (?t + int j - ?t) = j" for j by simp
  have "drain (rx_entry ?mem cq) (?t + int m) ?t (if_rxs (nic_if n) ! k, nic_pool n, []) =
    Some (Inr (?t + int m, (if_rxs (nic_if n) ! k)
      \<lparr>dr_info := clear ((\<lambda>j. I (nat (?t + int j - ?t))) ` {..<m}) (dr_info (if_rxs (nic_if n) ! k))\<rparr>,
      (nic_pool n)\<lparr>pool_free := pool_free (nic_pool n) @ map (\<lambda>j. b (nat (?t + int j - ?t))) [0..<m]\<rparr>,
      [] @ map (\<lambda>j. rx_skb (cq_record (?mem (cr_buf cq)) cq (?t + int j)) (?mem (snd (b (nat (?t + int j - ?t)))))) [0..<m]))"
    using assms(3,4,5) by (intro rx_drain_all[where mem = ?mem and cq = cq and I = "\<lambda>x. I (nat (x - ?t))" and b = "\<lambda>x. b (nat (x - ?t))", OF assms(1)])
      simp_all
  then show ?thesis unfolding sh by (simp add: rx_drain_def Let_def assms(2))
qed

section \<open>Clean-up\<close>

text \<open>The loop stops at the first slot still in use, or where the device is, whichever comes first.\<close>

lemma clean_loop_spec:
  assumes "c \<le> tail" "\<And>q. slot q < length info"
  shows "\<exists>c'. clean_loop info slot tail c = Some (Inr c') \<and> c \<le> c' \<and> c' \<le> tail \<and>
    (\<forall>q. c \<le> q \<and> q < c' \<longrightarrow> info ! slot q = None) \<and> (c' = tail \<or> info ! slot c' \<noteq> None)"
  using assms(1)
proof (induction "nat (tail - c)" arbitrary: c)
  case 0
  then show ?case by (auto simp: clean_loop.simps)
next
  case (Suc m)
  show ?case
  proof (cases "info ! slot c = None")
    case False
    then show ?thesis using assms(2) Suc.prems by (intro exI[of _ c]) (auto simp: clean_loop.simps)
  next
    case True
    have "m = nat (tail - (c + 1))" "c + 1 \<le> tail" using Suc.hyps(2) by simp_all
    from Suc.hyps(1)[OF this] obtain c' where c': "clean_loop info slot tail (c + 1) = Some (Inr c')"
      "c + 1 \<le> c'" "c' \<le> tail" "\<And>q. c + 1 \<le> q \<Longrightarrow> q < c' \<Longrightarrow> info ! slot q = None"
      "c' = tail \<or> info ! slot c' \<noteq> None" by blast
    have "c \<noteq> tail" using \<open>c + 1 \<le> tail\<close> by simp
    then have "clean_loop info slot tail c = Some (Inr c')"
      using True assms(2) c'(1) by (subst clean_loop.simps) simp
    moreover have "info ! slot q = None" if "c \<le> q" "q < c'" for q
      using that True c'(4)[of q] by (cases "q = c") auto
    ultimately show ?thesis using c' by (intro exI[of _ c']) auto
  qed
qed

text \<open>Property C30: as long as the device is ahead of the clean-up by less than \<open>2 ^ 16\<close>
  slots, reading its 16-bit tail gives its exact position, and the clean-up that follows ends,
  passes only empty slots and stops at the device or at the first slot still in use.\<close>

theorem nic_clean_bounds:
  assumes "nb_read B (dr_hw_addr r + 0x18) s = Some (Inr (hw AND 0xffff, s1))"
    and "dr_clean r \<le> dr_tail r" "dr_tail r \<le> hw" "hw - dr_tail r < 65536" "length (dr_info r) = 2 ^ dr_log_size r"
  shows "\<exists>r1 c'. tx_read_tail_ptr B r s = Some (Inr (r1, s1)) \<and> dr_tail r1 = hw \<and>
    clean_loop (dr_info r1) (dr_slot r1) (dr_tail r1) (dr_clean r1) = Some (Inr c') \<and>
    dr_clean r \<le> c' \<and> c' \<le> hw \<and> (\<forall>q. dr_clean r \<le> q \<and> q < c' \<longrightarrow> dr_info r ! dr_slot r q = None) \<and>
    (c' = hw \<or> dr_info r ! dr_slot r c' \<noteq> None)"
proof -
  let ?r = "r\<lparr>dr_tail := hw\<rparr>"
  have slot: "dr_slot ?r = dr_slot r" by (intro ext) (simp add: dr_slot_def dr_mask_def dr_size_def)
  have "dr_slot r q < length (dr_info r)" for q
    using dr_slot_less[of r q] assms(5) by (simp add: dr_size_def)
  moreover have "dr_clean r \<le> hw" using assms(2,3) by simp
  ultimately obtain c' where c: "clean_loop (dr_info r) (dr_slot r) hw (dr_clean r) = Some (Inr c')"
    "dr_clean r \<le> c'" "c' \<le> hw" "\<forall>q. dr_clean r \<le> q \<and> q < c' \<longrightarrow> dr_info r ! dr_slot r q = None"
    "c' = hw \<or> dr_info r ! dr_slot r c' \<noteq> None"
    using clean_loop_spec[of "dr_clean r" hw "dr_slot r" "dr_info r"] by blast
  have "tx_read_tail_ptr B r s = Some (Inr (?r, s1))"
    using assms(1) catch_up_exact[OF assms(3,4)] by (simp add: tx_read_tail_ptr_def)
  with c slot show ?thesis by (intro exI[of _ ?r] exI[of _ c']) simp
qed

theorem nic_clean_bounds_witness:
  "\<exists>c'. clean_loop [None, Some (0, 0), None, None] (\<lambda>q. nat (q mod 4)) 3 0 = Some (Inr c') \<and> c' = 1"
proof -
  let ?r = "(tx_new 4 16 0 0x1000)\<lparr>dr_info := [None, Some (0, 0), None, None]\<rparr>"
  let ?B = "(rc_bus clog2 (\<lambda>_ _ _ r. Inr r) \<lparr>fab_send = (\<lambda>_ e. Inr e), fab_wait = (\<lambda>_ e. ([], e))\<rparr>)
    \<lparr>nb_read := (\<lambda>a s :: root_complex \<times> unit. Some (Inr (3 AND 0xffff, s)))\<rparr>"
  have log: "dr_log_size ?r = 2" "dr_log_size (tx_new 4 16 0 0x1000) = 2"
    by (simp_all add: tx_new_def bit_length.simps)
  have slot: "dr_slot ?r = (\<lambda>q. nat (q mod 4))" by (intro ext) (simp add: dr_slot_mod log)
  obtain r1 c' where c: "tx_read_tail_ptr ?B ?r demo_host = Some (Inr (r1, demo_host))"
    "clean_loop (dr_info r1) (dr_slot r1) (dr_tail r1) (dr_clean r1) = Some (Inr c')" "0 \<le> c'" "c' \<le> 3"
    "\<forall>q. 0 \<le> q \<and> q < c' \<longrightarrow> dr_info ?r ! dr_slot ?r q = None" "c' = 3 \<or> dr_info ?r ! dr_slot ?r c' \<noteq> None"
    using nic_clean_bounds[of ?B ?r demo_host 3 demo_host] log by (auto simp: tx_new_def)
  have r1: "r1 = ?r\<lparr>dr_tail := 3\<rparr>"
    using c(1) by (simp add: tx_read_tail_ptr_def tx_new_def catch_up_def)
  have slot1: "dr_slot r1 = (\<lambda>q. nat (q mod 4))"
    unfolding r1 by (intro ext) (simp add: dr_slot_mod log)
  have "c' \<noteq> 0" using c(6) slot by auto
  moreover have "\<not> 1 < c'"
  proof
    assume "1 < c'"
    then have "dr_info ?r ! dr_slot ?r 1 = None" using c(5) by simp
    then show False unfolding slot by simp
  qed
  ultimately have "c' = 1" using c(3) by simp
  then show ?thesis using c(2) slot1 unfolding r1 by (simp add: tx_new_def)
qed

text \<open>One receive slot in flight, and a completion record for two bytes of it.\<close>

definition demo_cq :: cring where
  "demo_cq = (cq_new 1 32 0 0x2000)\<lparr>cr_head := 1, cr_buf := 1\<rparr>"

definition demo_rx :: "(root_complex \<times> unit) nic" where
  "demo_rx =
     \<lparr>nic_pool = \<lparr>pool_allocated = [(0, 0)], pool_free = []\<rparr>,
      nic_if = (if_new 0 0x1000 0)\<lparr>if_port_up := True, if_rxs := [(rx_new 1 16 0 0x1000)\<lparr>dr_info := [Some (0, 0)]\<rparr>],
        if_rx_cqs := [demo_cq]\<rparr>,
      nic_host = (root_complex_init\<lparr>rc_regions := [RcMem 0 3 [7, 8, 9],
        RcMem 32 32 ([0, 0, 0, 0, 2, 0, 0, 0] @ replicate 24 0)]\<rparr>, ())\<rparr>"

theorem nic_rx_delivers_witness:
  "\<exists>n'. rx_drain (rc_bus clog2 (\<lambda>_ _ _ r. Inr r) \<lparr>fab_send = (\<lambda>_ e. Inr e), fab_wait = (\<lambda>_ e. ([], e))\<rparr>) 0 0 demo_cq demo_rx =
      Some (Inr n') \<and> map pkt_data (if_rx_packets (nic_if n')) = [[7, 8]] \<and> pool_free (nic_pool n') = [(0, 0)]"
proof -
  let ?B = "rc_bus clog2 (\<lambda>_ _ _ r. Inr r) \<lparr>fab_send = (\<lambda>_ e. Inr e), fab_wait = (\<lambda>_ e. ([], e))\<rparr>
    :: (root_complex \<times> unit) nic_bus"
  have mem: "nb_mem ?B (nic_host demo_rx) = region_bytes [RcMem 0 3 [7, 8, 9],
      RcMem 32 32 ([0, 0, 0, 0, 2, 0, 0, 0] @ replicate 24 0)]"
    by (simp add: rc_bus_def demo_rx_def)
  have cq: "cr_buf demo_cq = 1" "cr_tail demo_cq = 0" "cr_head demo_cq = 1" "cr_stride demo_cq = 32"
    "cr_log_size demo_cq = 0"
    by (simp_all add: demo_cq_def cq_new_def bit_length.simps)
  have buf: "nb_mem ?B (nic_host demo_rx) (cr_buf demo_cq) = [0, 0, 0, 0, 2, 0, 0, 0] @ replicate 24 0"
    unfolding mem cq by (simp add: region_bytes_def)
  have rec: "cq_record (nb_mem ?B (nic_host demo_rx) (cr_buf demo_cq)) demo_cq (cr_tail demo_cq + int 0) =
      [0, 0, 0, 0, 2, 0, 0, 0] @ replicate 8 0"
    unfolding buf by (simp add: cq_record_def cr_slot_mod cq slice_def take_Cons')
  have "cq_fits (nb_mem ?B (nic_host demo_rx) (cr_buf demo_cq)) demo_cq"
    unfolding buf by (simp add: cq_fits_def cr_size_def cq)
  moreover have "cr_head demo_cq = cr_tail demo_cq + int 1" by (simp add: cq)
  moreover have "\<And>j. j < 1 \<Longrightarrow> (0 :: nat) = rec_index (cq_record (nb_mem ?B (nic_host demo_rx) (cr_buf demo_cq)) demo_cq
      (cr_tail demo_cq + int j))"
    using rec by (simp add: rec_index_def field_def slice_def)
  moreover have "\<And>j. j < (1 :: nat) \<Longrightarrow> 0 < length (dr_info (if_rxs (nic_if demo_rx) ! 0)) \<and>
      dr_info (if_rxs (nic_if demo_rx) ! 0) ! 0 = Some (0, 0) \<and> (0, 0) \<in> set (pool_allocated (nic_pool demo_rx))"
    by (simp add: demo_rx_def)
  ultimately obtain n' where n': "rx_drain ?B 0 0 demo_cq demo_rx = Some (Inr n')"
    "if_rx_packets (nic_if n') = if_rx_packets (nic_if demo_rx) @
      map (\<lambda>j. rx_skb (cq_record (nb_mem ?B (nic_host demo_rx) (cr_buf demo_cq)) demo_cq (cr_tail demo_cq + int j))
        (nb_mem ?B (nic_host demo_rx) 0)) [0..<1]"
    "pool_free (nic_pool n') = pool_free (nic_pool demo_rx) @ [(0, 0)]"
    using nic_rx_delivers[of ?B demo_rx demo_cq 1 "\<lambda>_. 0" 0 "\<lambda>_. (0, 0)" 0] by auto
  have "if_rx_packets (nic_if n') = [rx_skb ([0, 0, 0, 0, 2, 0, 0, 0] @ replicate 8 0) [7, 8, 9]]"
  proof -
    have "[0..<1] = [0 :: nat]" by simp
    moreover have "if_rx_packets (nic_if demo_rx) = []" by (simp add: demo_rx_def if_new_def)
    moreover have "nb_mem ?B (nic_host demo_rx) 0 = [7, 8, 9]" unfolding mem by (simp add: region_bytes_def)
    ultimately show ?thesis using n'(2) rec by (simp only: list.map append_Nil)
  qed
  then show ?thesis using n'(1,3)
    by (intro exI[of _ n']) (simp add: rx_skb_def field_def slice_def demo_rx_def)
qed

section \<open>Closing\<close>

lemma each_cq_deactivate: "each (cq_deactivate B) qs s = Inr s' \<Longrightarrow> qs = []"
  by (cases qs) (auto simp: cq_deactivate_def bindE_Inr_iff)

lemma close_free_Inr: "close_free fb qs n = Some (Inr n') \<Longrightarrow> qs = []"
  by (cases qs) (auto simp: close_free_def bindO_Inr_iff)



end
