(* ===== verification/UsTlp.thy ===== *)
theory UsTlp
  imports Tlp
begin

text \<open>
  Packets on the user side of the Xilinx UltraScale PCIe core, after
  \<open>fpga/lib/pcie/tb/pcie_us.py\<close>: \<open>dword_parity\<close>, the frame of words that crosses a bus of the core
  (\<open>USPcieFrame\<close>), and the packet with its side information (\<open>TLP_us\<close>), which is packed behind a
  descriptor and unpacked again on each of the four interfaces: completer requests (CQ), completer
  completions (CC), requester requests (RQ) and requester completions (RC).
\<close>

unbundle bit_operations_syntax

section \<open>Constants\<close>

abbreviation (input) TLP_FETCH_ADD :: fmt_type where "TLP_FETCH_ADD \<equiv> (FMT_3DW_DATA, 0x0C)"
abbreviation (input) TLP_FETCH_ADD_64 :: fmt_type where "TLP_FETCH_ADD_64 \<equiv> (FMT_4DW_DATA, 0x0C)"
abbreviation (input) TLP_SWAP :: fmt_type where "TLP_SWAP \<equiv> (FMT_3DW_DATA, 0x0D)"
abbreviation (input) TLP_SWAP_64 :: fmt_type where "TLP_SWAP_64 \<equiv> (FMT_4DW_DATA, 0x0D)"
abbreviation (input) TLP_CAS :: fmt_type where "TLP_CAS \<equiv> (FMT_3DW_DATA, 0x0E)"
abbreviation (input) TLP_CAS_64 :: fmt_type where "TLP_CAS_64 \<equiv> (FMT_4DW_DATA, 0x0E)"

abbreviation (input) REQ_MEM_READ :: int where "REQ_MEM_READ \<equiv> 0x0"
abbreviation (input) REQ_MEM_WRITE :: int where "REQ_MEM_WRITE \<equiv> 0x1"
abbreviation (input) REQ_IO_READ :: int where "REQ_IO_READ \<equiv> 0x2"
abbreviation (input) REQ_IO_WRITE :: int where "REQ_IO_WRITE \<equiv> 0x3"
abbreviation (input) REQ_MEM_FETCH_ADD :: int where "REQ_MEM_FETCH_ADD \<equiv> 0x4"
abbreviation (input) REQ_MEM_SWAP :: int where "REQ_MEM_SWAP \<equiv> 0x5"
abbreviation (input) REQ_MEM_CAS :: int where "REQ_MEM_CAS \<equiv> 0x6"
abbreviation (input) REQ_MEM_READ_LOCKED :: int where "REQ_MEM_READ_LOCKED \<equiv> 0x7"
abbreviation (input) REQ_CFG_READ_0 :: int where "REQ_CFG_READ_0 \<equiv> 0x8"
abbreviation (input) REQ_CFG_READ_1 :: int where "REQ_CFG_READ_1 \<equiv> 0x9"
abbreviation (input) REQ_CFG_WRITE_0 :: int where "REQ_CFG_WRITE_0 \<equiv> 0xa"
abbreviation (input) REQ_CFG_WRITE_1 :: int where "REQ_CFG_WRITE_1 \<equiv> 0xb"

abbreviation (input) RC_ERROR_NORMAL_TERMINATION :: int where "RC_ERROR_NORMAL_TERMINATION \<equiv> 0"
abbreviation (input) RC_ERROR_BAD_STATUS :: int where "RC_ERROR_BAD_STATUS \<equiv> 2"

section \<open>Frames\<close>

definition dword_parity :: "int \<Rightarrow> int" where
  "dword_parity d0 =
     (let d1 = d0 XOR drop_bit 4 d0;
          d2 = d1 XOR drop_bit 2 d1;
          d = d2 XOR drop_bit 1 d2
      in (d AND 0x1) OR drop_bit 7 (d AND 0x100) OR drop_bit 14 (d AND 0x10000) OR
         drop_bit 21 (d AND 0x1000000))"

record us_frame =
  uf_data :: "int list"
  uf_byte_en :: "int list"
  uf_parity :: "int list"
  uf_first_be :: int
  uf_last_be :: int
  uf_discontinue :: bool
  uf_seq_num :: int

definition us_frame_new :: us_frame where
  "us_frame_new = \<lparr>uf_data = [], uf_byte_en = [], uf_parity = [], uf_first_be = 0, uf_last_be = 0,
     uf_discontinue = False, uf_seq_num = 0\<rparr>"

definition update_parity :: "us_frame \<Rightarrow> us_frame" where
  "update_parity f = f\<lparr>uf_parity := map (\<lambda>d. dword_parity d XOR 0xf) (uf_data f)\<rparr>"

definition check_parity :: "us_frame \<Rightarrow> bool" where
  "check_parity f \<longleftrightarrow> uf_parity f = map (\<lambda>d. dword_parity d XOR 0xf) (uf_data f)"

section \<open>Packets\<close>

record tlp_us = tlp +
  us_bar_id :: int
  us_bar_aperture :: int
  us_completer_id_enable :: bool
  us_requester_id_enable :: bool
  us_discontinue :: bool
  us_seq_num :: int
  us_error_code :: int

definition tlp_us_of :: "tlp \<Rightarrow> tlp_us" where
  "tlp_us_of t = tlp.extend (tlp_copy t)
     \<lparr>us_bar_id = 0, us_bar_aperture = 0, us_completer_id_enable = False, us_requester_id_enable = False,
      us_discontinue = False, us_seq_num = 0, us_error_code = RC_ERROR_NORMAL_TERMINATION\<rparr>"

definition tlp_us_new :: tlp_us where
  "tlp_us_new = tlp_us_of tlp_new"

definition us_fmt_type :: "tlp_us \<Rightarrow> fmt_type" where
  "us_fmt_type t = (tlp_fmt t, tlp_type t)"

definition set_us_fmt_type :: "fmt_type \<Rightarrow> tlp_us \<Rightarrow> tlp_us" where
  "set_us_fmt_type v t = t\<lparr>tlp_fmt := fst v, tlp_type := snd v\<rparr>"

text \<open>\<open>TLP(tlp)\<close> of such a packet: the side information is dropped.\<close>

definition tlp_of_us :: "tlp_us \<Rightarrow> tlp" where
  "tlp_of_us t = tlp_copy (tlp.truncate t)"

text \<open>\<open>USPcieFrame.__eq__\<close> tests for the class of packets. A frame is never equal to a frame; a
  packet with the same data has no \<open>byte_en\<close> to compare.\<close>

datatype us_object = UsFrame us_frame | UsTlp tlp_us

fun us_frame_eq :: "us_frame \<Rightarrow> us_object \<Rightarrow> bool result" where
  "us_frame_eq f (UsTlp t) = (if uf_data f = tlp_data t then Inl AttributeError else Inr False)"
| "us_frame_eq f (UsFrame g) = Inr False"

text \<open>\<open>TLP_us.__eq__\<close> against another packet of the class.\<close>

definition tlp_us_eq :: "tlp_us \<Rightarrow> tlp_us \<Rightarrow> bool" where
  "tlp_us_eq a b \<longleftrightarrow> tlp_eq (tlp.truncate a) (tlp.truncate b)"

section \<open>The four interfaces\<close>

text \<open>Byte enables of a payload of \<open>n\<close> words behind a descriptor of \<open>pad\<close> words.\<close>

definition us_byte_en :: "nat \<Rightarrow> nat \<Rightarrow> int \<Rightarrow> int \<Rightarrow> int list" where
  "us_byte_en pad n fbe lbe =
     replicate pad 0 @ (if 1 \<le> n then [fbe] else []) @
     (if 2 < n then replicate (n - 2) 0xf else []) @ (if 1 < n then [lbe] else [])"

definition us_mem_io :: "fmt_type \<Rightarrow> bool" where
  "us_mem_io ft \<longleftrightarrow> ft = TLP_IO_READ \<or> ft = TLP_IO_WRITE \<or> ft = TLP_MEM_READ \<or> ft = TLP_MEM_READ_64 \<or>
     ft = TLP_MEM_WRITE \<or> ft = TLP_MEM_WRITE_64"

definition us_req_code :: "fmt_type \<Rightarrow> int" where
  "us_req_code ft =
     (if ft = TLP_MEM_READ \<or> ft = TLP_MEM_READ_64 then REQ_MEM_READ
      else if ft = TLP_MEM_WRITE \<or> ft = TLP_MEM_WRITE_64 then REQ_MEM_WRITE
      else if ft = TLP_IO_READ then REQ_IO_READ
      else if ft = TLP_IO_WRITE then REQ_IO_WRITE
      else if ft = TLP_FETCH_ADD \<or> ft = TLP_FETCH_ADD_64 then REQ_MEM_FETCH_ADD
      else if ft = TLP_SWAP \<or> ft = TLP_SWAP_64 then REQ_MEM_SWAP
      else if ft = TLP_CAS \<or> ft = TLP_CAS_64 then REQ_MEM_CAS
      else if ft = TLP_MEM_READ_LOCKED \<or> ft = TLP_MEM_READ_LOCKED_64 then REQ_MEM_READ_LOCKED
      else if ft = TLP_CFG_READ_0 then REQ_CFG_READ_0
      else if ft = TLP_CFG_READ_1 then REQ_CFG_READ_1
      else if ft = TLP_CFG_WRITE_0 then REQ_CFG_WRITE_0
      else if ft = TLP_CFG_WRITE_1 then REQ_CFG_WRITE_1
      else 0)"

definition us_req_type :: "int \<Rightarrow> fmt_type result" where
  "us_req_type c =
     (if c = REQ_MEM_READ then Inr TLP_MEM_READ
      else if c = REQ_MEM_WRITE then Inr TLP_MEM_WRITE
      else if c = REQ_IO_READ then Inr TLP_IO_READ
      else if c = REQ_IO_WRITE then Inr TLP_IO_WRITE
      else if c = REQ_MEM_FETCH_ADD then Inr TLP_FETCH_ADD
      else if c = REQ_MEM_SWAP then Inr TLP_SWAP
      else if c = REQ_MEM_CAS then Inr TLP_CAS
      else if c = REQ_MEM_READ_LOCKED then Inr TLP_MEM_READ_LOCKED
      else Inl (PyException ''Invalid packet type''))"

definition us_rq_req_type :: "int \<Rightarrow> fmt_type result" where
  "us_rq_req_type c =
     (if c = REQ_CFG_READ_0 then Inr TLP_CFG_READ_0
      else if c = REQ_CFG_READ_1 then Inr TLP_CFG_READ_1
      else if c = REQ_CFG_WRITE_0 then Inr TLP_CFG_WRITE_0
      else if c = REQ_CFG_WRITE_1 then Inr TLP_CFG_WRITE_1
      else us_req_type c)"

text \<open>A decoded address above 4 GB turns a three word header into a four word one.\<close>

definition us_widen :: "tlp_us \<Rightarrow> tlp_us" where
  "us_widen t =
     (if tlp_address t > 0xffffffff then
        if tlp_fmt t = FMT_3DW then t\<lparr>tlp_fmt := FMT_4DW\<rparr>
        else if tlp_fmt t = FMT_3DW_DATA then t\<lparr>tlp_fmt := FMT_4DW_DATA\<rparr>
        else t
      else t)"

definition us_addr_words :: "tlp_us \<Rightarrow> int list" where
  "us_addr_words t = [(tlp_at t AND 0x3) OR (tlp_address t AND 0xfffffffc),
     drop_bit 32 (tlp_address t AND 0xffffffff00000000)]"

definition us_req_word :: "tlp_us \<Rightarrow> int" where
  "us_req_word t = (tlp_length t AND 0x7ff) OR push_bit 11 (us_req_code (us_fmt_type t)) OR
     push_bit 16 (id_to_int (tlp_requester_id t))"

definition pack_us_cq :: "tlp_us \<Rightarrow> us_frame result" where
  "pack_us_cq t =
     (if us_mem_io (us_fmt_type t) then
        Inr (update_parity (us_frame_new
          \<lparr>uf_data := us_addr_words t @
             [us_req_word t,
              (tlp_tag t AND 0xff) OR push_bit 8 (pid_function (tlp_completer_id t) AND 0xff) OR
              push_bit 16 (us_bar_id t AND 0x7) OR push_bit 19 (us_bar_aperture t AND 0x3f) OR
              push_bit 25 (tlp_tc t AND 0x7) OR push_bit 28 (tlp_attr t AND 0x7)] @ tlp_data t,
           uf_byte_en := us_byte_en 4 (length (tlp_data t)) (tlp_first_be t) (tlp_last_be t),
           uf_first_be := tlp_first_be t, uf_last_be := tlp_last_be t,
           uf_discontinue := us_discontinue t\<rparr>))
      else Inl (PyException ''Invalid packet type for interface''))"

definition unpack_us_cq :: "bool \<Rightarrow> tlp_us \<Rightarrow> us_frame \<Rightarrow> tlp_us result" where
  "unpack_us_cq chk t f = bindE (py_nth (uf_data f) 2) (\<lambda>w2.
     bindE (us_req_type (drop_bit 11 w2 AND 0xf)) (\<lambda>ft.
     bindE (py_nth (uf_data f) 3) (\<lambda>w3.
     bindE (py_nth (uf_data f) 0) (\<lambda>w0. bindE (py_nth (uf_data f) 1) (\<lambda>w1.
       let t1 = (set_us_fmt_type ft t)\<lparr>tlp_length := w2 AND 0x7ff,
             tlp_requester_id := id_from_int (drop_bit 16 w2), tlp_tag := w3 AND 0xff,
             tlp_tc := drop_bit 25 w3 AND 0x7, tlp_attr := drop_bit 28 w3 AND 0x7,
             tlp_at := w0 AND 3, tlp_address := push_bit 32 w1 OR (w0 AND 0xfffffffc)\<rparr>;
           t2 = (us_widen t1)\<lparr>tlp_completer_id := mk_id 0 0 (drop_bit 8 w3 AND 0xff),
             us_bar_id := drop_bit 16 w3 AND 7, us_bar_aperture := drop_bit 19 w3 AND 0x3f,
             tlp_first_be := uf_first_be f, tlp_last_be := uf_last_be f,
             us_discontinue := uf_discontinue f, tlp_data := drop 4 (uf_data f)\<rparr>
       in bindE (assertE (us_byte_en 4 (length (tlp_data t2)) (tlp_first_be t2) (tlp_last_be t2)
              = uf_byte_en f)) (\<lambda>_.
          bindE (assertE (chk \<longrightarrow> check_parity f)) (\<lambda>_. Inr t2)))))))"

definition us_cpl_locked :: "fmt_type \<Rightarrow> bool" where
  "us_cpl_locked ft \<longleftrightarrow> ft = TLP_CPL_LOCKED \<or> ft = TLP_CPL_LOCKED_DATA"

definition us_cpl_word :: "tlp_us \<Rightarrow> int" where
  "us_cpl_word t = (tlp_length t AND 0x7ff) OR push_bit 11 (tlp_status t AND 0x7) OR
     push_bit 16 (id_to_int (tlp_requester_id t))"

definition pack_us_cc :: "tlp_us \<Rightarrow> us_frame result" where
  "pack_us_cc t =
     (if is_cpl_type (us_fmt_type t) then
        Inr (update_parity (us_frame_new
          \<lparr>uf_data :=
             [(tlp_lower_address t AND 0x7f) OR push_bit 8 (tlp_at t AND 3) OR
              push_bit 16 (tlp_byte_count t AND 0x1fff) OR flag 29 (us_cpl_locked (us_fmt_type t)),
              us_cpl_word t,
              (tlp_tag t AND 0xff) OR push_bit 8 (id_to_int (tlp_completer_id t)) OR
              flag 24 (us_completer_id_enable t) OR push_bit 25 (tlp_tc t AND 0x7) OR
              push_bit 28 (tlp_attr t AND 0x7)] @ tlp_data t,
           uf_discontinue := us_discontinue t\<rparr>))
      else Inl (PyException ''Invalid packet type for interface''))"

definition unpack_us_cc :: "bool \<Rightarrow> tlp_us \<Rightarrow> us_frame \<Rightarrow> tlp_us result" where
  "unpack_us_cc chk t f = bindE (py_nth (uf_data f) 0) (\<lambda>w0. bindE (py_nth (uf_data f) 1) (\<lambda>w1.
     bindE (py_nth (uf_data f) 2) (\<lambda>w2.
       let t1 = (set_us_fmt_type (if tst w0 29 then TLP_CPL_LOCKED else TLP_CPL) t)
             \<lparr>tlp_lower_address := w0 AND 0x7f, tlp_at := drop_bit 8 w0 AND 3,
              tlp_byte_count := drop_bit 16 w0 AND 0x1fff, tlp_length := w1 AND 0x7ff\<rparr>;
           t2 = (if tlp_length t1 > 0 then t1\<lparr>tlp_fmt := FMT_3DW_DATA\<rparr> else t1)
             \<lparr>tlp_status := drop_bit 11 w1 AND 7, tlp_requester_id := id_from_int (drop_bit 16 w1),
              tlp_completer_id := id_from_int (drop_bit 8 w2),
              us_completer_id_enable := drop_bit 24 w2 AND 1 \<noteq> 0, tlp_tag := w2 AND 0xff,
              tlp_tc := drop_bit 25 w2 AND 0x7, tlp_attr := drop_bit 28 w2 AND 0x7,
              us_discontinue := uf_discontinue f\<rparr>;
           t3 = (if tlp_length t2 > 0
                 then t2\<lparr>tlp_data := slice (uf_data f) 3 (3 + nat (tlp_length t2))\<rparr> else t2)
       in bindE (assertE (chk \<longrightarrow> check_parity f)) (\<lambda>_. Inr t3))))"

definition pack_us_rq :: "tlp_us \<Rightarrow> us_frame result" where
  "pack_us_rq t =
     (if us_mem_io (us_fmt_type t) \<or> is_cfg_type (us_fmt_type t) then
        Inr (update_parity (us_frame_new
          \<lparr>uf_data := (if us_mem_io (us_fmt_type t) then us_addr_words t
                       else [push_bit 2 (tlp_register_number t AND 0x3ff), 0]) @
             [us_req_word t,
              (tlp_tag t AND 0xff) OR push_bit 8 (id_to_int (tlp_completer_id t)) OR
              flag 24 (us_requester_id_enable t) OR push_bit 25 (tlp_tc t AND 0x7) OR
              push_bit 28 (tlp_attr t AND 0x7)] @ tlp_data t,
           uf_first_be := tlp_first_be t, uf_last_be := tlp_last_be t,
           uf_discontinue := us_discontinue t, uf_seq_num := us_seq_num t\<rparr>))
      else Inl (PyException ''Invalid packet type for interface''))"

text \<open>The types below 8 are requests to an address; every type that is accepted is below 12.\<close>

definition unpack_us_rq :: "bool \<Rightarrow> tlp_us \<Rightarrow> us_frame \<Rightarrow> tlp_us result" where
  "unpack_us_rq chk t f = bindE (py_nth (uf_data f) 2) (\<lambda>w2.
     let req = drop_bit 11 w2 AND 0xf in
     bindE (us_rq_req_type req) (\<lambda>ft.
     bindE (py_nth (uf_data f) 3) (\<lambda>w3. bindE (py_nth (uf_data f) 0) (\<lambda>w0.
     bindE (py_nth (uf_data f) 1) (\<lambda>w1.
       let t1 = (set_us_fmt_type ft t)\<lparr>tlp_length := w2 AND 0x7ff,
             tlp_requester_id := id_from_int (drop_bit 16 w2), tlp_tag := w3 AND 0xff,
             tlp_tc := drop_bit 25 w3 AND 0x7, tlp_attr := drop_bit 28 w3 AND 0x7\<rparr>;
           t2 = (if req < 8 then
                   us_widen (t1\<lparr>tlp_at := w0 AND 3,
                     tlp_address := push_bit 32 w1 OR (w0 AND 0xfffffffc)\<rparr>)
                 else t1\<lparr>tlp_register_number := drop_bit 2 w0 AND 0x3ff\<rparr>)
             \<lparr>tlp_completer_id := id_from_int (drop_bit 8 w3),
              us_requester_id_enable := drop_bit 24 w3 AND 1 \<noteq> 0,
              tlp_first_be := uf_first_be f, tlp_last_be := uf_last_be f,
              us_discontinue := uf_discontinue f, us_seq_num := uf_seq_num f,
              tlp_data := drop 4 (uf_data f)\<rparr>
       in bindE (assertE (chk \<longrightarrow> check_parity f)) (\<lambda>_. Inr t2))))))"

text \<open>The byte enables of a completion are computed from its address and its byte count, on both
  sides.\<close>

definition rc_byte_en :: "int \<Rightarrow> int \<Rightarrow> int \<Rightarrow> nat \<Rightarrow> int list" where
  "rc_byte_en lower_address byte_count len n =
     (let off = lower_address AND 3;
          fbe = push_bit (nat off) 0xf AND 0xf;
          lbe = if byte_count + off > len * 4 then 0xf
                else drop_bit (nat ((4 - byte_count - lower_address) AND 3)) 0xf
      in us_byte_en 3 n (if n = 1 then fbe AND lbe else fbe) (if n = 1 then 0 else lbe))"

definition us_rc_byte_en :: "tlp_us \<Rightarrow> int list" where
  "us_rc_byte_en t = rc_byte_en (tlp_lower_address t) (tlp_byte_count t) (tlp_length t) (length (tlp_data t))"

definition pack_us_rc :: "tlp_us \<Rightarrow> us_frame result" where
  "pack_us_rc t =
     (if is_cpl_type (us_fmt_type t) then
        Inr (update_parity (us_frame_new
          \<lparr>uf_data :=
             [(tlp_lower_address t AND 0xfff) OR push_bit 12 (us_error_code t AND 0xf) OR
              push_bit 16 (tlp_byte_count t AND 0x1fff) OR flag 29 (us_cpl_locked (us_fmt_type t)),
              us_cpl_word t,
              (tlp_tag t AND 0xff) OR push_bit 8 (id_to_int (tlp_completer_id t)) OR
              push_bit 25 (tlp_tc t AND 0x7) OR push_bit 28 (tlp_attr t AND 0x7)] @ tlp_data t,
           uf_byte_en := us_rc_byte_en t, uf_discontinue := us_discontinue t\<rparr>))
      else Inl (PyException ''Invalid packet type for interface''))"

definition unpack_us_rc :: "bool \<Rightarrow> tlp_us \<Rightarrow> us_frame \<Rightarrow> tlp_us result" where
  "unpack_us_rc chk t f = bindE (py_nth (uf_data f) 0) (\<lambda>w0. bindE (py_nth (uf_data f) 1) (\<lambda>w1.
     bindE (py_nth (uf_data f) 2) (\<lambda>w2.
       let t1 = (set_us_fmt_type (if tst w0 29 then TLP_CPL_LOCKED else TLP_CPL) t)
             \<lparr>tlp_lower_address := w0 AND 0xfff, us_error_code := drop_bit 12 w0 AND 0xf,
              tlp_byte_count := drop_bit 16 w0 AND 0x1fff, tlp_length := w1 AND 0x7ff\<rparr>;
           t2 = (if tlp_length t1 > 0 then t1\<lparr>tlp_fmt := FMT_3DW_DATA\<rparr> else t1)
             \<lparr>tlp_status := drop_bit 11 w1 AND 7, tlp_requester_id := id_from_int (drop_bit 16 w1),
              tlp_completer_id := id_from_int (drop_bit 8 w2), tlp_tag := w2 AND 0xff,
              tlp_tc := drop_bit 25 w2 AND 0x7, tlp_attr := drop_bit 28 w2 AND 0x7,
              us_discontinue := uf_discontinue f\<rparr>;
           t3 = (if tlp_length t2 > 0
                 then t2\<lparr>tlp_data := slice (uf_data f) 3 (3 + nat (tlp_length t2))\<rparr> else t2)
       in bindE (assertE (us_rc_byte_en t3 = uf_byte_en f)) (\<lambda>_.
          bindE (assertE (chk \<longrightarrow> check_parity f)) (\<lambda>_. Inr t3)))))"

section \<open>Parity\<close>

definition byte_odd :: "int \<Rightarrow> nat \<Rightarrow> bool" where
  "byte_odd d k \<longleftrightarrow> odd (length (filter (\<lambda>j. bit d (8 * k + j)) [0..<8]))"

lemma upt_8: "[0..<8] = [0, 1, 2, 3, 4, 5, 6, 7 :: nat]"
  by (simp add: upt_rec)

lemma odd_filter_Cons: "odd (length (filter P (x # xs))) \<longleftrightarrow> \<not> (P x \<longleftrightarrow> odd (length (filter P xs)))"
  by simp

lemma odd_filter_Nil: "odd (length (filter P [])) \<longleftrightarrow> False"
  by simp

lemma bit_and_one_bit: "bit (x AND 2 ^ n :: int) i \<longleftrightarrow> i = n \<and> bit x n"
  by (auto simp: bit_simps)

lemma bit_dword_parity: "bit (dword_parity d) k \<longleftrightarrow> k < 4 \<and> byte_odd d k"
proof -
  define d1 where "d1 = d XOR drop_bit 4 d"
  define d2 where "d2 = d1 XOR drop_bit 2 d1"
  define e where "e = d2 XOR drop_bit 1 d2"
  have b: "bit d1 n \<longleftrightarrow> \<not> (bit d n \<longleftrightarrow> bit d (4 + n))" "bit d2 n \<longleftrightarrow> \<not> (bit d1 n \<longleftrightarrow> bit d1 (2 + n))"
    "bit e n \<longleftrightarrow> \<not> (bit d2 n \<longleftrightarrow> bit d2 (1 + n))" for n
    by (simp only: d1_def bit_xor_iff bit_drop_bit_eq comp_def, simp only: d2_def bit_xor_iff bit_drop_bit_eq comp_def,
        simp only: e_def bit_xor_iff bit_drop_bit_eq comp_def)
  have i: "4 + n = n + 4" "2 + n = n + 2" "1 + n = n + 1" "n + 1 + 2 = n + 3" "n + 1 + 4 = n + 5"
    "n + 2 + 4 = n + 6" "n + 3 + 4 = n + 7" "n + 0 = n" for n :: nat
    by simp_all
  have e: "bit e (8 * k) \<longleftrightarrow> byte_odd d k" for k
    unfolding byte_odd_def upt_8 odd_filter_Cons odd_filter_Nil b i by (simp only: not_iff simp_thms eq_ac)
  have p: "dword_parity d = (e AND 2 ^ 0) OR drop_bit 7 (e AND 2 ^ 8) OR drop_bit 14 (e AND 2 ^ 16) OR
      drop_bit 21 (e AND 2 ^ 24)"
    unfolding dword_parity_def Let_def d1_def[symmetric] d2_def[symmetric] e_def[symmetric] by simp
  have idx: "7 + k = 8 \<longleftrightarrow> k = 1" "14 + k = 16 \<longleftrightarrow> k = 2" "21 + k = 24 \<longleftrightarrow> k = 3" for k :: nat
    by auto
  have "bit (dword_parity d) k \<longleftrightarrow> k = 0 \<and> bit e 0 \<or> k = 1 \<and> bit e 8 \<or>
      k = 2 \<and> bit e 16 \<or> k = 3 \<and> bit e 24"
    unfolding p bit_or_iff bit_drop_bit_eq comp_def bit_and_one_bit idx by (simp only: mult_0_right mult_1_right disj_assoc)
  moreover have "bit e 0 \<longleftrightarrow> byte_odd d 0" "bit e 8 \<longleftrightarrow> byte_odd d 1" "bit e 16 \<longleftrightarrow> byte_odd d 2"
    "bit e 24 \<longleftrightarrow> byte_odd d 3"
    unfolding e[symmetric] by simp_all
  ultimately have "bit (dword_parity d) k \<longleftrightarrow> k = 0 \<and> byte_odd d 0 \<or> k = 1 \<and> byte_odd d 1 \<or>
      k = 2 \<and> byte_odd d 2 \<or> k = 3 \<and> byte_odd d 3"
    by (simp only:)
  also have "\<dots> \<longleftrightarrow> (k = 0 \<or> k = 1 \<or> k = 2 \<or> k = 3) \<and> byte_odd d k" by metis
  also have "(k = 0 \<or> k = 1 \<or> k = 2 \<or> k = 3) \<longleftrightarrow> k < 4" by linarith
  finally show ?thesis .
qed

lemma parity_fits: "fits 4 (dword_parity d)"
  unfolding fits_iff_take_bit by (rule bit_eqI) (auto simp: bit_take_bit_iff bit_dword_parity)

lemma parity_nibble: "fits 4 (dword_parity d XOR 0xf)"
proof -
  have "take_bit 4 (15 :: int) = 15" by simp
  then show ?thesis using parity_fits[of d] by (simp only: fits_iff_take_bit take_bit_xor)
qed

lemma byte_odd_flip:
  assumes "r < 8"
  shows "byte_odd (d XOR push_bit (8 * k + r) 1) k \<longleftrightarrow> \<not> byte_odd d k"
proof -
  have "bit (d XOR push_bit (8 * k + r) 1) (8 * k + j) = (bit d (8 * k + j) \<noteq> (j = r))" for j
    by (auto simp: bit_simps)
  moreover have "r = 0 \<or> r = 1 \<or> r = 2 \<or> r = 3 \<or> r = 4 \<or> r = 5 \<or> r = 6 \<or> r = 7"
    using assms by linarith
  ultimately show ?thesis unfolding byte_odd_def by (elim disjE) (simp_all add: upt_8)
qed

lemma parity_flip:
  assumes "j < 32"
  shows "dword_parity (d XOR push_bit j 1) \<noteq> dword_parity d"
proof -
  have "j = 8 * (j div 8) + j mod 8" by simp
  then have "byte_odd (d XOR push_bit j 1) (j div 8) \<longleftrightarrow> \<not> byte_odd d (j div 8)"
    using byte_odd_flip[of "j mod 8" d "j div 8"] by simp
  moreover have "j div 8 < 4" using assms by simp
  ultimately show ?thesis using bit_dword_parity by metis
qed

lemma check_update_parity [simp]: "check_parity (update_parity f)"
  by (simp add: check_parity_def update_parity_def)

lemma update_parity_simps [simp]:
  "uf_data (update_parity f) = uf_data f" "uf_byte_en (update_parity f) = uf_byte_en f"
  "uf_first_be (update_parity f) = uf_first_be f" "uf_last_be (update_parity f) = uf_last_be f"
  "uf_discontinue (update_parity f) = uf_discontinue f" "uf_seq_num (update_parity f) = uf_seq_num f"
  by (simp_all add: update_parity_def)

text \<open>Property C34: bit \<open>k\<close> of \<open>dword_parity\<close> says whether byte \<open>k\<close> of the word has an odd
  number of ones, and the parity check of a frame finds every flip of one bit of its data.\<close>

theorem us_parity_detects:
  assumes "check_parity f" "i < length (uf_data f)" "j < 32"
  shows "(bit (dword_parity (uf_data f ! i)) k \<longleftrightarrow>
      k < 4 \<and> odd (length (filter (\<lambda>b. bit (uf_data f ! i) (8 * k + b)) [0..<8]))) \<and>
    \<not> check_parity (f\<lparr>uf_data := (uf_data f)[i := uf_data f ! i XOR push_bit j 1]\<rparr>)"
proof
  show "bit (dword_parity (uf_data f ! i)) k \<longleftrightarrow>
      k < 4 \<and> odd (length (filter (\<lambda>b. bit (uf_data f ! i) (8 * k + b)) [0..<8]))"
    using bit_dword_parity unfolding byte_odd_def .
  let ?g = "f\<lparr>uf_data := (uf_data f)[i := uf_data f ! i XOR push_bit j 1]\<rparr>"
  show "\<not> check_parity ?g"
  proof
    assume "check_parity ?g"
    then have "map (\<lambda>d. dword_parity d XOR 0xf) (uf_data ?g) ! i = map (\<lambda>d. dword_parity d XOR 0xf) (uf_data f) ! i"
      using assms(1) by (simp add: check_parity_def)
    then have "dword_parity (uf_data f ! i XOR push_bit j 1) XOR 0xf = dword_parity (uf_data f ! i) XOR 0xf"
      using assms(2) by simp
    then have "(dword_parity (uf_data f ! i XOR push_bit j 1) XOR 0xf) XOR 0xf =
        (dword_parity (uf_data f ! i) XOR 0xf) XOR 0xf" by simp
    then show False using parity_flip[OF assms(3)] by (simp only: xor.assoc xor_self_eq xor.right_neutral)
  qed
qed

theorem us_parity_detects_witness:
  "\<not> check_parity ((update_parity (us_frame_new\<lparr>uf_data := [0, 0x12345678]\<rparr>))\<lparr>uf_data := [0, 0x12345678 XOR push_bit 31 1]\<rparr>)"
  using us_parity_detects[of "update_parity (us_frame_new\<lparr>uf_data := [0, 0x12345678]\<rparr>)" 1 31] by simp

section \<open>What each interface carries\<close>

text \<open>The part of a packet that fits the descriptor, and what the other side makes of it. The
  header fields that have no place in a descriptor come back with their initial values; a request
  to an address below 4 GB comes back with a three word header.\<close>

definition us_hdr_ok :: "tlp_us \<Rightarrow> bool" where
  "us_hdr_ok t \<longleftrightarrow> fits 11 (tlp_length t) \<and> id_ok (tlp_requester_id t) \<and> fits 8 (tlp_tag t) \<and>
     fits 3 (tlp_tc t) \<and> fits 3 (tlp_attr t)"

definition us_addr_ok :: "tlp_us \<Rightarrow> bool" where
  "us_addr_ok t \<longleftrightarrow> fits 2 (tlp_at t) \<and> fits 64 (tlp_address t) \<and> take_bit 2 (tlp_address t) = 0"

definition us_req_fmt :: "tlp_us \<Rightarrow> int" where
  "us_req_fmt t = (if 2 \<le> tlp_fmt t then FMT_3DW_DATA else FMT_3DW) + (if tlp_address t > 0xffffffff then 1 else 0)"

definition cq_ok :: "tlp_us \<Rightarrow> bool" where
  "cq_ok t \<longleftrightarrow> us_mem_io (us_fmt_type t) \<and> us_hdr_ok t \<and> us_addr_ok t \<and>
     fits 8 (pid_function (tlp_completer_id t)) \<and> fits 3 (us_bar_id t) \<and> fits 6 (us_bar_aperture t)"

definition cq_image :: "tlp_us \<Rightarrow> tlp_us" where
  "cq_image t = tlp_us_new\<lparr>tlp_fmt := us_req_fmt t, tlp_type := tlp_type t, tlp_tc := tlp_tc t,
     tlp_attr := tlp_attr t, tlp_at := tlp_at t, tlp_length := tlp_length t,
     tlp_completer_id := mk_id 0 0 (pid_function (tlp_completer_id t)),
     tlp_requester_id := tlp_requester_id t, tlp_tag := tlp_tag t, tlp_first_be := tlp_first_be t,
     tlp_last_be := tlp_last_be t, tlp_address := tlp_address t, tlp_data := tlp_data t,
     us_bar_id := us_bar_id t, us_bar_aperture := us_bar_aperture t, us_discontinue := us_discontinue t\<rparr>"

definition rq_ok :: "tlp_us \<Rightarrow> bool" where
  "rq_ok t \<longleftrightarrow> (us_mem_io (us_fmt_type t) \<and> us_addr_ok t \<or>
       is_cfg_type (us_fmt_type t) \<and> fits 10 (tlp_register_number t)) \<and>
     us_hdr_ok t \<and> id_ok (tlp_completer_id t)"

definition rq_image :: "tlp_us \<Rightarrow> tlp_us" where
  "rq_image t = (if is_cfg_type (us_fmt_type t)
       then tlp_us_new\<lparr>tlp_fmt := tlp_fmt t, tlp_register_number := tlp_register_number t\<rparr>
       else tlp_us_new\<lparr>tlp_fmt := us_req_fmt t, tlp_at := tlp_at t, tlp_address := tlp_address t\<rparr>)
     \<lparr>tlp_type := tlp_type t, tlp_tc := tlp_tc t, tlp_attr := tlp_attr t, tlp_length := tlp_length t,
      tlp_completer_id := tlp_completer_id t, tlp_requester_id := tlp_requester_id t,
      tlp_tag := tlp_tag t, tlp_first_be := tlp_first_be t, tlp_last_be := tlp_last_be t,
      tlp_data := tlp_data t, us_requester_id_enable := us_requester_id_enable t,
      us_discontinue := us_discontinue t, us_seq_num := us_seq_num t\<rparr>"

text \<open>A completion has data exactly if its length is not zero.\<close>

definition us_cpl_ok :: "tlp_us \<Rightarrow> bool" where
  "us_cpl_ok t \<longleftrightarrow> is_cpl_type (us_fmt_type t) \<and> us_hdr_ok t \<and> fits 13 (tlp_byte_count t) \<and>
     fits 3 (tlp_status t) \<and> id_ok (tlp_completer_id t) \<and> tlp_length t = int (length (tlp_data t)) \<and>
     (tlp_fmt t = FMT_3DW_DATA \<longleftrightarrow> tlp_data t \<noteq> [])"

definition us_cpl_image :: "tlp_us \<Rightarrow> tlp_us" where
  "us_cpl_image t = tlp_us_new\<lparr>tlp_fmt := tlp_fmt t, tlp_type := tlp_type t, tlp_tc := tlp_tc t,
     tlp_attr := tlp_attr t, tlp_length := tlp_length t, tlp_completer_id := tlp_completer_id t,
     tlp_status := tlp_status t, tlp_byte_count := tlp_byte_count t,
     tlp_requester_id := tlp_requester_id t, tlp_tag := tlp_tag t,
     tlp_lower_address := tlp_lower_address t, tlp_data := tlp_data t,
     us_discontinue := us_discontinue t\<rparr>"

definition cc_ok :: "tlp_us \<Rightarrow> bool" where
  "cc_ok t \<longleftrightarrow> us_cpl_ok t \<and> fits 7 (tlp_lower_address t) \<and> fits 2 (tlp_at t)"

definition cc_image :: "tlp_us \<Rightarrow> tlp_us" where
  "cc_image t = (us_cpl_image t)\<lparr>tlp_at := tlp_at t, us_completer_id_enable := us_completer_id_enable t\<rparr>"

definition rc_ok :: "tlp_us \<Rightarrow> bool" where
  "rc_ok t \<longleftrightarrow> us_cpl_ok t \<and> fits 12 (tlp_lower_address t) \<and> fits 4 (us_error_code t)"

definition rc_image :: "tlp_us \<Rightarrow> tlp_us" where
  "rc_image t = (us_cpl_image t)\<lparr>us_error_code := us_error_code t\<rparr>"

section \<open>Round trips\<close>

lemma and_high_mask: "drop_bit 32 (x AND 0xffffffff00000000) = take_bit 32 (drop_bit 32 (x :: int))"
proof -
  have "drop_bit 32 (x AND push_bit 32 (mask 32)) = take_bit 32 (drop_bit 32 x)"
    by (rule bit_eqI) (auto simp: bit_simps)
  then show ?thesis by (simp add: push_bit_eq_mult mask_eq_exp_minus_1)
qed

lemma us_addr_join:
  assumes "us_addr_ok t" "us_addr_words t = [w0, w1]"
  shows "w0 AND 3 = tlp_at t" "push_bit 32 w1 OR (w0 AND 0xfffffffc) = tlp_address t"
proof -
  have a: "fits 2 (tlp_at t)" "fits 64 (tlp_address t)" "take_bit 2 (tlp_address t) = 0"
    using assms(1) by (simp_all add: us_addr_ok_def)
  have w: "w0 = (tlp_at t AND 0x3) OR (tlp_address t AND 0xfffffffc)"
    "w1 = take_bit 32 (drop_bit 32 (tlp_address t))"
    using assms(2) unfolding us_addr_words_def and_high_mask by simp_all
  have lo: "\<not> bit (tlp_address t) i" if "i < 2" for i
    using a(3) that by (metis bit_0_eq bit_take_bit_iff bot_apply bot_bool_def)
  have hi: "\<not> bit (tlp_address t) i" if "64 \<le> i" for i using fits_bit_high[OF a(2) that] .
  have hat: "\<not> bit (tlp_at t) i" if "2 \<le> i" for i using fits_bit_high[OF a(1) that] .
  have "bit (x AND push_bit 2 (mask 30)) i \<longleftrightarrow> 2 \<le> i \<and> i < 32 \<and> bit x i" for x :: int and i
    by (auto simp: bit_and_iff bit_push_bit_iff bit_mask_iff)
  then have m: "bit (x AND 0xfffffffc) i \<longleftrightarrow> 2 \<le> i \<and> i < 32 \<and> bit x i" for x :: int and i
    by (simp add: push_bit_eq_mult mask_eq_exp_minus_1)
  have m3: "bit (x AND 3) i \<longleftrightarrow> i < 2 \<and> bit x i" for x :: int and i
    by (simp add: and_masks bit_take_bit_iff)
  show "w0 AND 3 = tlp_at t"
  proof (rule bit_eqI)
    fix i
    show "bit (w0 AND 3) i \<longleftrightarrow> bit (tlp_at t) i"
      using hat[of i] by (cases "i < 2") (simp_all add: w m m3 bit_or_iff)
  qed
  show "push_bit 32 w1 OR (w0 AND 0xfffffffc) = tlp_address t"
  proof (rule bit_eqI)
    fix i
    have "bit (push_bit 32 w1 OR (w0 AND 0xfffffffc)) i \<longleftrightarrow>
        32 \<le> i \<and> i < 64 \<and> bit (tlp_address t) i \<or> 2 \<le> i \<and> i < 32 \<and> bit (tlp_address t) i"
      by (auto simp: w m m3 bit_or_iff bit_push_bit_iff bit_take_bit_iff bit_drop_bit_eq)
    then show "bit (push_bit 32 w1 OR (w0 AND 0xfffffffc)) i \<longleftrightarrow> bit (tlp_address t) i"
      using lo[of i] hi[of i] by (cases "i < 2"; cases "i < 32"; cases "i < 64") auto
  qed
qed

lemma us_req_code_fits: "fits 4 (us_req_code ft)"
  by (simp add: us_req_code_def fits_def)

lemma us_req_word_fields:
  assumes "us_hdr_ok t"
  shows "us_req_word t AND 0x7ff = tlp_length t" "drop_bit 11 (us_req_word t) AND 0xf = us_req_code (us_fmt_type t)"
    "id_from_int (drop_bit 16 (us_req_word t)) = tlp_requester_id t"
proof -
  have h: "fits 11 (tlp_length t)" "id_ok (tlp_requester_id t)" "fits 4 (us_req_code (us_fmt_type t))"
    using assms us_req_code_fits by (simp_all add: us_hdr_ok_def)
  show "us_req_word t AND 0x7ff = tlp_length t" "drop_bit 11 (us_req_word t) AND 0xf = us_req_code (us_fmt_type t)"
    "id_from_int (drop_bit 16 (us_req_word t)) = tlp_requester_id t"
    using h by (simp_all add: us_req_word_def masks pybits id_from_to_int)
qed

lemma us_req_type_code:
  "us_mem_io ft \<Longrightarrow> us_req_type (us_req_code ft) = Inr (if 2 \<le> fst ft then FMT_3DW_DATA else FMT_3DW, snd ft)"
  by (auto simp: us_mem_io_def us_req_code_def us_req_type_def)

lemma cq_word_fields:
  assumes "us_hdr_ok t" "fits 8 f" "fits 3 (us_bar_id t)" "fits 6 (us_bar_aperture t)"
    and w: "w = (tlp_tag t AND 0xff) OR push_bit 8 (f AND 0xff) OR push_bit 16 (us_bar_id t AND 0x7) OR
      push_bit 19 (us_bar_aperture t AND 0x3f) OR push_bit 25 (tlp_tc t AND 0x7) OR push_bit 28 (tlp_attr t AND 0x7)"
  shows "w AND 0xff = tlp_tag t" "drop_bit 8 w AND 0xff = f" "drop_bit 16 w AND 7 = us_bar_id t"
    "drop_bit 19 w AND 0x3f = us_bar_aperture t" "drop_bit 25 w AND 7 = tlp_tc t" "drop_bit 28 w AND 7 = tlp_attr t"
proof -
  have h: "fits 8 (tlp_tag t)" "fits 3 (tlp_tc t)" "fits 3 (tlp_attr t)"
    using assms(1) by (simp_all add: us_hdr_ok_def)
  show "w AND 0xff = tlp_tag t" "drop_bit 8 w AND 0xff = f" "drop_bit 16 w AND 7 = us_bar_id t"
    "drop_bit 19 w AND 0x3f = us_bar_aperture t" "drop_bit 25 w AND 7 = tlp_tc t" "drop_bit 28 w AND 7 = tlp_attr t"
    using h assms(2-4) by (simp_all add: w masks pybits)
qed

lemma tlp_us_new_data [simp]: "tlp_data tlp_us_new = []"
  by (simp add: tlp_us_new_def tlp_us_of_def tlp.defs tlp_copy_def tlp_new_def)

lemma flag_field:
  obtains v where "flag k b = push_bit k v" "fits 1 v" "v \<noteq> 0 \<longleftrightarrow> b"
  by (rule that[of "of_bool b"]) (simp_all add: flag_def fits_def)

lemma id_word_fields:
  assumes "us_hdr_ok t" "id_ok i"
    and w: "w = (tlp_tag t AND 0xff) OR push_bit 8 (id_to_int i) OR flag 24 b OR push_bit 25 (tlp_tc t AND 0x7) OR
      push_bit 28 (tlp_attr t AND 0x7)"
  shows "w AND 0xff = tlp_tag t" "id_from_int (drop_bit 8 w) = i" "drop_bit 24 w AND 1 \<noteq> 0 \<longleftrightarrow> b"
    "drop_bit 25 w AND 7 = tlp_tc t" "drop_bit 28 w AND 7 = tlp_attr t"
proof -
  have h: "fits 8 (tlp_tag t)" "fits 3 (tlp_tc t)" "fits 3 (tlp_attr t)"
    using assms(1) by (simp_all add: us_hdr_ok_def)
  obtain v where f: "flag 24 b = push_bit 24 v" "fits 1 v" "v \<noteq> 0 \<longleftrightarrow> b" by (rule flag_field)
  have i: "16 \<le> m \<Longrightarrow> drop_bit m (id_to_int i) = 0" for m by (rule drop_bit_fits[OF fits_id_to_int])
  show "w AND 0xff = tlp_tag t" "drop_bit 24 w AND 1 \<noteq> 0 \<longleftrightarrow> b"
    "drop_bit 25 w AND 7 = tlp_tc t" "drop_bit 28 w AND 7 = tlp_attr t"
    using h f(2) by (simp_all add: w f(1,3) i masks pybits)
  have "take_bit 16 (drop_bit 8 w) = id_to_int i"
    using h f(2) by (simp add: w f(1) i pybits masks)
  then show "id_from_int (drop_bit 8 w) = i"
    using id_from_int_high[of "drop_bit 8 w"] id_from_to_int[OF assms(2)] by simp
qed

lemma unpack_pack_cq:
  assumes "cq_ok t" "pack_us_cq t = Inr f"
  shows "unpack_us_cq chk tlp_us_new f = Inr (cq_image t)"
proof -
  have ok: "us_mem_io (us_fmt_type t)" "us_hdr_ok t" "us_addr_ok t" "fits 8 (pid_function (tlp_completer_id t))"
    "fits 3 (us_bar_id t)" "fits 6 (us_bar_aperture t)"
    using assms(1) by (simp_all add: cq_ok_def)
  obtain w0 w1 where a: "us_addr_words t = [w0, w1]" by (simp add: us_addr_words_def)
  define w3 where "w3 = (tlp_tag t AND 0xff) OR push_bit 8 (pid_function (tlp_completer_id t) AND 0xff) OR
      push_bit 16 (us_bar_id t AND 0x7) OR push_bit 19 (us_bar_aperture t AND 0x3f) OR
      push_bit 25 (tlp_tc t AND 0x7) OR push_bit 28 (tlp_attr t AND 0x7)"
  note w3 = cq_word_fields[OF ok(2,4-6) w3_def]
  have f: "f = update_parity (us_frame_new
          \<lparr>uf_data := w0 # w1 # us_req_word t # w3 # tlp_data t,
           uf_byte_en := us_byte_en 4 (length (tlp_data t)) (tlp_first_be t) (tlp_last_be t),
           uf_first_be := tlp_first_be t, uf_last_be := tlp_last_be t,
           uf_discontinue := us_discontinue t\<rparr>)"
    using assms(2) ok(1) unfolding pack_us_cq_def a w3_def[symmetric] by simp
  have ft: "us_req_type (us_req_code (us_fmt_type t)) = Inr (if 2 \<le> tlp_fmt t then FMT_3DW_DATA else FMT_3DW, tlp_type t)"
    using us_req_type_code[OF ok(1)] by (simp add: us_fmt_type_def)
  show ?thesis
    unfolding unpack_us_cq_def f
    by (simp add: us_req_word_fields[OF ok(2)] us_addr_join[OF ok(3) a] w3 ft Let_def set_us_fmt_type_def
        us_widen_def cq_image_def us_req_fmt_def)
qed

lemma us_rq_req_type_code:
  "us_mem_io ft \<Longrightarrow> us_rq_req_type (us_req_code ft) = us_req_type (us_req_code ft) \<and> us_req_code ft < 8"
  "is_cfg_type ft \<Longrightarrow> us_rq_req_type (us_req_code ft) = Inr ft \<and> \<not> us_req_code ft < 8"
  by (auto simp: us_mem_io_def is_cfg_type_def us_req_code_def us_rq_req_type_def)

lemma cfg_not_mem_io: "is_cfg_type ft \<Longrightarrow> \<not> us_mem_io ft"
  by (auto simp: us_mem_io_def is_cfg_type_def)

lemma unpack_pack_rq:
  assumes "rq_ok t" "pack_us_rq t = Inr f"
  shows "unpack_us_rq chk tlp_us_new f = Inr (rq_image t)"
proof -
  have ok: "us_hdr_ok t" "id_ok (tlp_completer_id t)"
    "us_mem_io (us_fmt_type t) \<and> us_addr_ok t \<or> is_cfg_type (us_fmt_type t) \<and> fits 10 (tlp_register_number t)"
    using assms(1) by (simp_all add: rq_ok_def)
  define w3 where "w3 = (tlp_tag t AND 0xff) OR push_bit 8 (id_to_int (tlp_completer_id t)) OR
      flag 24 (us_requester_id_enable t) OR push_bit 25 (tlp_tc t AND 0x7) OR push_bit 28 (tlp_attr t AND 0x7)"
  note w3 = id_word_fields[OF ok(1,2) w3_def]
  have f: "f = update_parity (us_frame_new
          \<lparr>uf_data := (if us_mem_io (us_fmt_type t) then us_addr_words t
                       else [push_bit 2 (tlp_register_number t AND 0x3ff), 0]) @
             us_req_word t # w3 # tlp_data t,
           uf_first_be := tlp_first_be t, uf_last_be := tlp_last_be t,
           uf_discontinue := us_discontinue t, uf_seq_num := us_seq_num t\<rparr>)"
    using assms(2) ok(3) unfolding pack_us_rq_def w3_def[symmetric] by auto
  from ok(3) show ?thesis
  proof
    assume m: "us_mem_io (us_fmt_type t) \<and> us_addr_ok t"
    obtain w0 w1 where a: "us_addr_words t = [w0, w1]" by (simp add: us_addr_words_def)
    have ft: "us_rq_req_type (us_req_code (us_fmt_type t)) =
        Inr (if 2 \<le> tlp_fmt t then FMT_3DW_DATA else FMT_3DW, tlp_type t)"
      "us_req_code (us_fmt_type t) < 8" "\<not> is_cfg_type (us_fmt_type t)"
      using m us_req_type_code us_rq_req_type_code(1) cfg_not_mem_io by (auto simp: us_fmt_type_def)
    show ?thesis
      unfolding unpack_us_rq_def f
      by (simp add: us_req_word_fields[OF ok(1)] us_addr_join[OF _ a] m a w3 ft Let_def set_us_fmt_type_def
          us_widen_def rq_image_def us_req_fmt_def)
  next
    assume m: "is_cfg_type (us_fmt_type t) \<and> fits 10 (tlp_register_number t)"
    have ft: "us_rq_req_type (us_req_code (us_fmt_type t)) = Inr (us_fmt_type t)"
      "\<not> us_req_code (us_fmt_type t) < 8" "\<not> us_mem_io (us_fmt_type t)"
      using m us_rq_req_type_code(2) cfg_not_mem_io by auto
    have reg: "drop_bit 2 (push_bit 2 (tlp_register_number t AND 0x3ff)) AND 0x3ff = tlp_register_number t"
      using m by (simp add: masks pybits)
    show ?thesis
      unfolding unpack_us_rq_def f
      by (simp add: us_req_word_fields[OF ok(1)] m reg w3 ft Let_def set_us_fmt_type_def rq_image_def)
         (simp add: us_fmt_type_def)
  qed
qed

lemma us_cpl_word_fields:
  assumes "us_hdr_ok t" "fits 3 (tlp_status t)"
  shows "us_cpl_word t AND 0x7ff = tlp_length t" "drop_bit 11 (us_cpl_word t) AND 7 = tlp_status t"
    "id_from_int (drop_bit 16 (us_cpl_word t)) = tlp_requester_id t"
proof -
  have h: "fits 11 (tlp_length t)" "id_ok (tlp_requester_id t)" "fits 16 (id_to_int (tlp_requester_id t))"
    using assms by (simp_all add: us_hdr_ok_def)
  show "us_cpl_word t AND 0x7ff = tlp_length t" "drop_bit 11 (us_cpl_word t) AND 7 = tlp_status t"
    "id_from_int (drop_bit 16 (us_cpl_word t)) = tlp_requester_id t"
    using h assms(2) by (simp_all add: us_cpl_word_def masks pybits id_from_to_int)
qed

text \<open>The type of a completion, after the decoder has chosen it from the lock bit and the length.\<close>

lemma us_cpl_type:
  assumes "us_cpl_ok t"
  shows "tlp_type t = (if us_cpl_locked (us_fmt_type t) then 0xB else 0xA)"
    "tlp_fmt t = (if tlp_length t > 0 then FMT_3DW_DATA else FMT_3DW)"
    "\<not> tlp_length t > 0 \<Longrightarrow> tlp_data t = []" "nat (tlp_length t) = length (tlp_data t)"
proof -
  have h: "is_cpl_type (us_fmt_type t)" "tlp_length t = int (length (tlp_data t))"
    "tlp_fmt t = FMT_3DW_DATA \<longleftrightarrow> tlp_data t \<noteq> []"
    using assms by (simp_all add: us_cpl_ok_def)
  show "tlp_type t = (if us_cpl_locked (us_fmt_type t) then 0xB else 0xA)"
    using h(1) by (auto simp: is_cpl_type_def us_cpl_locked_def us_fmt_type_def)
  show "tlp_fmt t = (if tlp_length t > 0 then FMT_3DW_DATA else FMT_3DW)"
    using h by (auto simp: is_cpl_type_def us_fmt_type_def)
qed (use assms in \<open>auto simp: us_cpl_ok_def\<close>)

lemma unpack_pack_cc:
  assumes "cc_ok t" "pack_us_cc t = Inr f"
  shows "unpack_us_cc chk tlp_us_new f = Inr (cc_image t)"
proof -
  have ok: "us_cpl_ok t" "us_hdr_ok t" "fits 3 (tlp_status t)" "id_ok (tlp_completer_id t)"
    "is_cpl_type (us_fmt_type t)"
    using assms(1) by (simp_all add: cc_ok_def us_cpl_ok_def)
  have w: "fits 7 (tlp_lower_address t)" "fits 2 (tlp_at t)" "fits 13 (tlp_byte_count t)"
    using assms(1) by (simp_all add: cc_ok_def us_cpl_ok_def)
  define l where "l = us_cpl_locked (us_fmt_type t)"
  define w0 where "w0 = (tlp_lower_address t AND 0x7f) OR push_bit 8 (tlp_at t AND 3) OR
      push_bit 16 (tlp_byte_count t AND 0x1fff) OR flag 29 l"
  obtain v where fl: "flag 29 l = push_bit 29 v" "fits 1 v" "v \<noteq> 0 \<longleftrightarrow> l" by (rule flag_field)
  have w0: "w0 AND 0x7f = tlp_lower_address t" "drop_bit 8 w0 AND 3 = tlp_at t"
    "drop_bit 16 w0 AND 0x1fff = tlp_byte_count t"
    using w fl(2) by (simp_all add: w0_def fl(1) masks pybits)
  have w029: "bit w0 29 \<longleftrightarrow> l"
    using fits_bit_high[OF w(1), of 29] fits_bit_high[OF w(2), of 21] fits_bit_high[OF w(3), of 13]
    by (simp add: w0_def bit_or_iff bit_and_iff bit_push_bit_iff)
  define w2 where "w2 = (tlp_tag t AND 0xff) OR push_bit 8 (id_to_int (tlp_completer_id t)) OR
      flag 24 (us_completer_id_enable t) OR push_bit 25 (tlp_tc t AND 0x7) OR push_bit 28 (tlp_attr t AND 0x7)"
  note w2 = id_word_fields[OF ok(2,4) w2_def]
  have f: "f = update_parity (us_frame_new\<lparr>uf_data := w0 # us_cpl_word t # w2 # tlp_data t,
      uf_discontinue := us_discontinue t\<rparr>)"
    using assms(2) ok(5) unfolding pack_us_cc_def l_def[symmetric] w0_def[symmetric] w2_def[symmetric] by simp
  note ty = us_cpl_type[OF ok(1)]
  show ?thesis
    unfolding unpack_us_cc_def f
    using ty(2,3)
    by (cases "tlp_length t > 0"; cases "us_cpl_locked (us_fmt_type t)";
        simp add: us_cpl_word_fields[OF ok(2,3)] w0 w2 Let_def set_us_fmt_type_def ty(4) slice_def w029 l_def)
       (unfold cc_image_def us_cpl_image_def, (rule tlp_us.equality; simp add: ty(1))+)
qed

lemma unpack_pack_rc:
  assumes "rc_ok t" "pack_us_rc t = Inr f"
  shows "unpack_us_rc chk tlp_us_new f = Inr (rc_image t)"
proof -
  have ok: "us_cpl_ok t" "us_hdr_ok t" "fits 3 (tlp_status t)" "id_ok (tlp_completer_id t)"
    "is_cpl_type (us_fmt_type t)"
    using assms(1) by (simp_all add: rc_ok_def us_cpl_ok_def)
  have w: "fits 12 (tlp_lower_address t)" "fits 4 (us_error_code t)" "fits 13 (tlp_byte_count t)"
    using assms(1) by (simp_all add: rc_ok_def us_cpl_ok_def)
  define l where "l = us_cpl_locked (us_fmt_type t)"
  define w0 where "w0 = (tlp_lower_address t AND 0xfff) OR push_bit 12 (us_error_code t AND 0xf) OR
      push_bit 16 (tlp_byte_count t AND 0x1fff) OR flag 29 l"
  obtain v where fl: "flag 29 l = push_bit 29 v" "fits 1 v" "v \<noteq> 0 \<longleftrightarrow> l" by (rule flag_field)
  have w0: "w0 AND 0xfff = tlp_lower_address t" "drop_bit 12 w0 AND 0xf = us_error_code t"
    "drop_bit 16 w0 AND 0x1fff = tlp_byte_count t"
    using w fl(2) by (simp_all add: w0_def fl(1) masks pybits)
  have w029: "bit w0 29 \<longleftrightarrow> l"
    using fits_bit_high[OF w(1), of 29] fits_bit_high[OF w(2), of 17] fits_bit_high[OF w(3), of 13]
    by (simp add: w0_def bit_or_iff bit_and_iff bit_push_bit_iff)
  define w2 where "w2 = (tlp_tag t AND 0xff) OR push_bit 8 (id_to_int (tlp_completer_id t)) OR
      flag 24 False OR push_bit 25 (tlp_tc t AND 0x7) OR push_bit 28 (tlp_attr t AND 0x7)"
  note w2 = id_word_fields[OF ok(2,4) w2_def]
  have f: "f = update_parity (us_frame_new\<lparr>uf_data := w0 # us_cpl_word t # w2 # tlp_data t,
      uf_byte_en := us_rc_byte_en t, uf_discontinue := us_discontinue t\<rparr>)"
    using assms(2) ok(5) unfolding pack_us_rc_def l_def[symmetric] w0_def[symmetric]
    by (simp add: w2_def flag_def)
  note ty = us_cpl_type[OF ok(1)]
  show ?thesis
    unfolding unpack_us_rc_def f
    using ty(2,3)
    by (cases "tlp_length t > 0"; cases "us_cpl_locked (us_fmt_type t)";
        simp add: us_cpl_word_fields[OF ok(2,3)] w0 w2 Let_def set_us_fmt_type_def ty(4) slice_def w029 l_def us_rc_byte_en_def)
       (unfold rc_image_def us_cpl_image_def, (rule tlp_us.equality; simp add: ty(1))+)
qed

lemma pack_us_total:
  "cq_ok t \<Longrightarrow> \<exists>f. pack_us_cq t = Inr f" "rq_ok t \<Longrightarrow> \<exists>f. pack_us_rq t = Inr f"
  "cc_ok t \<Longrightarrow> \<exists>f. pack_us_cc t = Inr f" "rc_ok t \<Longrightarrow> \<exists>f. pack_us_rc t = Inr f"
  by (auto simp: cq_ok_def pack_us_cq_def rq_ok_def pack_us_rq_def cc_ok_def pack_us_cc_def rc_ok_def pack_us_rc_def
      us_cpl_ok_def)

interpretation us_cq: codec pack_us_cq "unpack_us_cq chk tlp_us_new" "\<lambda>t. cq_ok t \<and> cq_image t = t" for chk
  by unfold_locales (metis pack_us_total(1), metis unpack_pack_cq)

interpretation us_rq: codec pack_us_rq "unpack_us_rq chk tlp_us_new" "\<lambda>t. rq_ok t \<and> rq_image t = t" for chk
  by unfold_locales (metis pack_us_total(2), metis unpack_pack_rq)

interpretation us_cc: codec pack_us_cc "unpack_us_cc chk tlp_us_new" "\<lambda>t. cc_ok t \<and> cc_image t = t" for chk
  by unfold_locales (metis pack_us_total(3), metis unpack_pack_cc)

interpretation us_rc: codec pack_us_rc "unpack_us_rc chk tlp_us_new" "\<lambda>t. rc_ok t \<and> rc_image t = t" for chk
  by unfold_locales (metis pack_us_total(4), metis unpack_pack_rc)

text \<open>Property C32: a request survives the completer request interface and the requester request
  interface of the core: what the other side unpacks, with or without its parity check, is the
  packet with every field that has a place in the descriptor; on packets with nothing else in
  them, packing is injective.\<close>

theorem us_request_roundtrip:
  assumes "cq_ok t" "rq_ok u"
  shows "bindE (pack_us_cq t) (unpack_us_cq chk tlp_us_new) = Inr (cq_image t) \<and>
    bindE (pack_us_rq u) (unpack_us_rq chk tlp_us_new) = Inr (rq_image u) \<and>
    (cq_ok t' \<and> cq_image t = t \<and> cq_image t' = t' \<and> pack_us_cq t = pack_us_cq t' \<longrightarrow> t = t') \<and>
    (rq_ok u' \<and> rq_image u = u \<and> rq_image u' = u' \<and> pack_us_rq u = pack_us_rq u' \<longrightarrow> u = u')"
proof -
  obtain f g where "pack_us_cq t = Inr f" "pack_us_rq u = Inr g" using pack_us_total assms by blast
  then have "bindE (pack_us_cq t) (unpack_us_cq chk tlp_us_new) = Inr (cq_image t)"
    "bindE (pack_us_rq u) (unpack_us_rq chk tlp_us_new) = Inr (rq_image u)"
    using unpack_pack_cq[OF assms(1)] unpack_pack_rq[OF assms(2)] by simp_all
  then show ?thesis using us_cq.enc_inj[of t t'] us_rq.enc_inj[of u u'] assms by blast
qed

definition us_request_example :: tlp_us where
  "us_request_example = tlp_us_of ((fst (set_be (set_fmt_type TLP_MEM_READ_64 tlp_new) 0x123456789a 6))
     \<lparr>tlp_tag := 5, tlp_requester_id := mk_id 1 2 3\<rparr>)"

theorem us_request_roundtrip_witness:
  "bindE (pack_us_cq us_request_example) (unpack_us_cq True tlp_us_new) = Inr us_request_example"
proof -
  have e: "us_request_example = tlp_us_new\<lparr>tlp_fmt := 1, tlp_address := 0x1234567898, tlp_length := 2,
      tlp_first_be := 0xc, tlp_last_be := 0xf, tlp_tag := 5, tlp_requester_id := mk_id 1 2 3\<rparr>"
    by (simp add: us_request_example_def tlp_us_new_def tlp_us_of_def set_be_def set_fmt_type_def Let_def
        ceil_div4_def tlp.defs tlp_copy_def tlp_new_def)
  have "us_request_example = cq_image us_request_example"
    unfolding e by (simp add: cq_image_def us_req_fmt_def tlp_us_new_def tlp_us_of_def tlp.defs tlp_copy_def tlp_new_def)
  moreover have "cq_ok us_request_example" "rq_ok us_request_example"
    unfolding e by (simp_all add: cq_ok_def rq_ok_def us_mem_io_def us_hdr_ok_def us_addr_ok_def us_fmt_type_def
        tlp_us_new_def tlp_us_of_def tlp.defs tlp_copy_def tlp_new_def fits_def id_ok_def)
  ultimately show ?thesis
    using us_request_roundtrip[of us_request_example us_request_example True] by simp
qed

text \<open>A completion survives the completer completion interface and the requester
  completion interface of the core, with or without the parity check; on packets with nothing else
  in them, packing is injective.\<close>

theorem us_completion_roundtrip:
  assumes "cc_ok t" "rc_ok u"
  shows "bindE (pack_us_cc t) (unpack_us_cc chk tlp_us_new) = Inr (cc_image t) \<and>
    bindE (pack_us_rc u) (unpack_us_rc chk tlp_us_new) = Inr (rc_image u) \<and>
    (cc_ok t' \<and> cc_image t = t \<and> cc_image t' = t' \<and> pack_us_cc t = pack_us_cc t' \<longrightarrow> t = t') \<and>
    (rc_ok u' \<and> rc_image u = u \<and> rc_image u' = u' \<and> pack_us_rc u = pack_us_rc u' \<longrightarrow> u = u')"
proof -
  obtain f g where "pack_us_cc t = Inr f" "pack_us_rc u = Inr g" using pack_us_total assms by blast
  then have "bindE (pack_us_cc t) (unpack_us_cc chk tlp_us_new) = Inr (cc_image t)"
    "bindE (pack_us_rc u) (unpack_us_rc chk tlp_us_new) = Inr (rc_image u)"
    using unpack_pack_cc[OF assms(1)] unpack_pack_rc[OF assms(2)] by simp_all
  then show ?thesis using us_cc.enc_inj[of t t'] us_rc.enc_inj[of u u'] assms by blast
qed

definition us_cpl_example :: tlp_us where
  "us_cpl_example = tlp_us_of ((set_completion_data tlp_new tlp_new (mk_id 1 2 3))
     \<lparr>tlp_byte_count := 5, tlp_length := 2, tlp_data := [0xdeadbeef, 7], tlp_lower_address := 2\<rparr>)"

lemma us_cpl_example_ok: "cc_ok us_cpl_example" "rc_ok us_cpl_example"
  by (simp_all add: cc_ok_def rc_ok_def us_cpl_ok_def us_hdr_ok_def us_fmt_type_def us_cpl_example_def completion_defs
      tlp_us_of_def tlp.defs tlp_copy_def tlp_new_def fits_def id_ok_def is_cpl_type_def)

theorem us_completion_roundtrip_witness:
  "bindE (pack_us_rc us_cpl_example) (unpack_us_rc True tlp_us_new) = Inr (rc_image us_cpl_example)"
  using us_completion_roundtrip[OF us_cpl_example_ok] by blast

section \<open>Byte enables\<close>

lemma us_byte_en_length: "length (us_byte_en pad n a b) = pad + n"
  by (auto simp: us_byte_en_def)

lemma us_byte_en_nth:
  assumes "i < n"
  shows "us_byte_en pad n a b ! (pad + i) = (if i = 0 then a else if i = n - 1 then b else 0xf)"
proof -
  have "n = 1 \<or> n = 2 \<or> 2 < n" using assms by linarith
  then show ?thesis using assms
    by (elim disjE) (auto simp: us_byte_en_def nth_append nth_Cons')
qed

lemma bit_nibble: "bit (0xf :: int) j \<longleftrightarrow> j < 4"
proof -
  have "bit (mask 4 :: int) j \<longleftrightarrow> j < 4" by (simp add: bit_mask_iff)
  then show ?thesis by (simp add: mask_eq_exp_minus_1)
qed

lemma rc_byte_en_bit:
  assumes "i < n" "j < 4" "1 \<le> bc" "4 * (int n - 1) < la mod 4 + bc"
  shows "bit (rc_byte_en la bc (int n) n ! (3 + i)) j \<longleftrightarrow>
    la mod 4 \<le> 4 * int i + int j \<and> 4 * int i + int j < la mod 4 + bc"
proof -
  define off where "off = nat (la mod 4)"
  have off: "int off = la mod 4" "off < 4" by (simp_all add: off_def nat_less_iff)
  have and3: "x AND 3 = x mod 4" for x :: int by (simp add: and_masks take_bit_eq_mod)
  define lp where "lp = nat ((4 - bc - la) mod 4)"
  have lp: "int lp = (4 - bc - la) mod 4" "lp < 4" by (simp_all add: lp_def nat_less_iff)
  define lbe where "lbe = (if bc + int off > int n * 4 then 0xf else drop_bit lp (0xf :: int))"
  have last: "bit lbe j \<longleftrightarrow> 4 * (int n - 1) + int j < int off + bc"
  proof (cases "bc + int off > int n * 4")
    case True
    then show ?thesis using assms(2) by (simp add: lbe_def bit_nibble)
  next
    case False
    have "(4 - bc - la) mod 4 = (4 * int n - (int off + bc)) mod 4"
    proof -
      have "4 - bc - la = (4 * int n - (int off + bc)) + 4 * (1 - int n - la div 4)"
        using off(1) by (simp add: algebra_simps minus_mult_div_eq_mod[symmetric])
      then show ?thesis by (simp only: mod_mult_self2)
    qed
    also have "\<dots> = 4 * int n - (int off + bc)"
    proof (rule mod_pos_pos_trivial)
      show "0 \<le> 4 * int n - (int off + bc)" using False by simp
      have "4 * (int n - 1) < int off + bc" using assms(4) off(1) by simp
      then show "4 * int n - (int off + bc) < 4" by (simp add: algebra_simps)
    qed
    finally have "int lp = 4 * int n - (int off + bc)" using lp(1) by simp
    then have "j + lp < 4 \<longleftrightarrow> 4 * (int n - 1) + int j < int off + bc" by presburger
    moreover have "bit lbe j \<longleftrightarrow> j + lp < 4" using False lp(2) by (simp add: lbe_def bit_last_nibble)
    ultimately show ?thesis by simp
  qed
  have first: "bit (push_bit off (0xf :: int) AND 0xf) j \<longleftrightarrow> off \<le> j"
    using assms(2) by (simp add: bit_first_nibble)
  have be: "rc_byte_en la bc (int n) n = us_byte_en 3 n
      (if n = 1 then (push_bit off 0xf AND 0xf) AND lbe else push_bit off 0xf AND 0xf) (if n = 1 then 0 else lbe)"
    unfolding rc_byte_en_def Let_def and3 off_def[symmetric] lp_def[symmetric] lbe_def off(1) ..
  show ?thesis
    unfolding be us_byte_en_nth[OF assms(1)]
    using assms first last off
    by (cases "n = 1"; cases "i = 0"; cases "i = n - 1"; simp add: bit_and_iff[of "_ AND _"] bit_nibble; linarith?)
qed

text \<open>Property C33: on the requester completion interface the byte enables select exactly the bytes
  of the completion: from the offset of its lower address in the first word, as many as its byte
  count or as the payload holds; the three words of the descriptor have none.\<close>

theorem us_rc_byte_enables:
  assumes "pack_us_rc t = Inr f" "tlp_length t = int (length (tlp_data t))" "1 \<le> tlp_byte_count t"
    "4 * (tlp_length t - 1) < tlp_lower_address t mod 4 + tlp_byte_count t"
    "i < length (tlp_data t)" "j < 4"
  shows "length (uf_byte_en f) = 3 + length (tlp_data t) \<and> take 3 (uf_byte_en f) = [0, 0, 0] \<and>
    (bit (uf_byte_en f ! (3 + i)) j \<longleftrightarrow> tlp_lower_address t mod 4 \<le> 4 * int i + int j \<and>
       4 * int i + int j < tlp_lower_address t mod 4 + tlp_byte_count t)"
proof -
  have f: "uf_byte_en f = rc_byte_en (tlp_lower_address t) (tlp_byte_count t) (int (length (tlp_data t))) (length (tlp_data t))"
    using assms(1,2) by (auto simp: pack_us_rc_def us_rc_byte_en_def split: if_splits)
  have "take 3 (us_byte_en 3 n a b) = [0, 0, 0]" for n a b
    by (simp add: us_byte_en_def numeral_eq_Suc)
  then show ?thesis
    unfolding f using rc_byte_en_bit[OF assms(5,6,3), of "tlp_lower_address t"] assms(2,4)
    by (simp add: rc_byte_en_def us_byte_en_length Let_def)
qed

theorem us_rc_byte_enables_witness:
  "\<exists>f. pack_us_rc us_cpl_example = Inr f \<and> bit (uf_byte_en f ! 4) 2 \<and> \<not> bit (uf_byte_en f ! 4) 3"
proof -
  obtain f where f: "pack_us_rc us_cpl_example = Inr f" using pack_us_total(4)[OF us_cpl_example_ok(2)] by blast
  have e: "tlp_data us_cpl_example = [0xdeadbeef, 7]" "tlp_length us_cpl_example = 2" "tlp_byte_count us_cpl_example = 5"
    "tlp_lower_address us_cpl_example = 2"
    by (simp_all add: us_cpl_example_def tlp_us_of_def tlp.defs tlp_copy_def)
  show ?thesis
    using f us_rc_byte_enables[OF f, of 1 2] us_rc_byte_enables[OF f, of 1 3] by (simp add: e)
qed

end
