(* ===== verification/UsBus.thy ===== *)
theory UsBus
  imports UsTlp AxisLink
begin

text \<open>
  The four stream interfaces of the Xilinx UltraScale PCIe core, after \<open>CQSource\<close> to \<open>RCSink\<close> of
  \<open>fpga/lib/pcie/tb/pcie_us.py\<close>: the words of a frame travel in beats of up to sixteen lanes, with
  byte enables, parity and markers in the side signal \<open>tuser\<close>, whose layout depends on the
  interface and the width. A source and a sink on one bus are clocked machines; one step is one
  rising clock edge. The four pairs differ in the layout alone, so the delivery of frames is proved
  once, over the locale \<open>us_stream\<close>.
\<close>

unbundle bit_operations_syntax

section \<open>Buses\<close>

text \<open>Widths of \<open>tdata\<close>, \<open>tkeep\<close> and \<open>tuser\<close>, and what \<open>create_logic\<close> asserts of them.\<close>

record us_bus =
  bw_data :: nat
  bw_keep :: nat
  bw_user :: nat

definition us_width_ok :: "us_bus \<Rightarrow> bool" where
  "us_width_ok u \<longleftrightarrow> bw_data u \<in> {64, 128, 256, 512} \<and> bw_keep u * 32 = bw_data u"

definition cq_bus_ok :: "us_bus \<Rightarrow> bool" where
  "cq_bus_ok u \<longleftrightarrow> us_width_ok u \<and> (if bw_data u = 512 then bw_user u = 183 else bw_user u \<in> {85, 88})"

definition cc_bus_ok :: "us_bus \<Rightarrow> bool" where
  "cc_bus_ok u \<longleftrightarrow> us_width_ok u \<and> (if bw_data u = 512 then bw_user u = 81 else bw_user u = 33)"

definition rq_bus_ok :: "us_bus \<Rightarrow> bool" where
  "rq_bus_ok u \<longleftrightarrow> us_width_ok u \<and> (if bw_data u = 512 then bw_user u = 137 else bw_user u \<in> {60, 62})"

definition rc_bus_ok :: "us_bus \<Rightarrow> bool" where
  "rc_bus_ok u \<longleftrightarrow> us_width_ok u \<and> (if bw_data u = 512 then bw_user u = 161 else bw_user u = 75)"

record us_beat =
  bt_data :: int
  bt_keep :: int
  bt_user :: int

record us_wires =
  wr_valid :: bool
  wr_last :: bool
  wr_beat :: us_beat

record us_source =
  sr_active :: bool
  sr_queue :: "us_frame list"
  sr_frame :: us_frame
  sr_data :: "int list"
  sr_byte_en :: "int list"
  sr_parity :: "int list"
  sr_first :: bool

record us_sink =
  sk_ready :: bool
  sk_first :: bool
  sk_frame :: us_frame
  sk_queue :: "us_frame list"

section \<open>Beats\<close>

text \<open>The lists a source pops from: the data, the byte enables and the parity that are left.\<close>

type_synonym us_lists = "int list \<times> int list \<times> int list"

record us_lane =
  ln_left :: us_lists
  ln_d :: int
  ln_k :: int
  ln_u :: int
  ln_last :: nat

text \<open>One turn of the loop over the lanes; the byte enables go to bit \<open>bo\<close> of \<open>tuser\<close>, when the
  interface has them, and the parity to bit \<open>po\<close>. Popping from an empty list raises.\<close>

definition lane_step :: "nat option \<Rightarrow> nat \<Rightarrow> nat \<Rightarrow> us_lane \<Rightarrow> us_lane result" where
  "lane_step bo po i s =
     (case ln_left s of (data, byte_en, parity) \<Rightarrow>
        (case data of
           [] \<Rightarrow> Inr (s\<lparr>ln_u := ln_u s OR push_bit (i * 4 + po) 0xf\<rparr>)
         | x # xs \<Rightarrow>
             bindE (case bo of
                 None \<Rightarrow> Inr (byte_en, ln_u s)
               | Some k \<Rightarrow>
                   (case byte_en of
                      [] \<Rightarrow> Inl IndexError
                    | b # bs \<Rightarrow> Inr (bs, ln_u s OR push_bit (i * 4 + k) b))) (\<lambda>(byte_en', u).
             (case parity of
                [] \<Rightarrow> Inl IndexError
              | p # ps \<Rightarrow>
                  Inr \<lparr>ln_left = (xs, byte_en', ps), ln_d = ln_d s OR push_bit (i * 32) x,
                       ln_k = ln_k s OR push_bit i 1, ln_u = u OR push_bit (i * 4 + po) p, ln_last = i\<rparr>))))"

fun lane_run :: "nat option \<Rightarrow> nat \<Rightarrow> nat list \<Rightarrow> us_lane \<Rightarrow> us_lane result" where
  "lane_run bo po [] s = Inr s"
| "lane_run bo po (i # is) s = bindE (lane_step bo po i s) (lane_run bo po is)"

text \<open>The loop of a beat with \<open>u0\<close> already in \<open>tuser\<close>; \<open>fin\<close> is what the code adds once the
  loop has found the last lane and whether data is left. A value too large for its signal
  raises.\<close>

definition us_beat_of ::
  "us_bus \<Rightarrow> nat option \<Rightarrow> nat \<Rightarrow> int \<Rightarrow> (bool \<Rightarrow> nat \<Rightarrow> int) \<Rightarrow> us_lists \<Rightarrow> (us_lists \<times> us_beat) result" where
  "us_beat_of u bo po u0 fin ls =
     bindE (lane_run bo po [0..<bw_keep u] \<lparr>ln_left = ls, ln_d = 0, ln_k = 0, ln_u = u0, ln_last = 0\<rparr>) (\<lambda>s.
       let user = ln_u s OR fin (fst (ln_left s) = []) (ln_last s)
       in if fits (bw_data u) (ln_d s) \<and> fits (bw_keep u) (ln_k s) \<and> fits (bw_user u) user
          then Inr (ln_left s, \<lparr>bt_data = ln_d s, bt_keep = ln_k s, bt_user = user\<rparr>)
          else Inl ValueError)"

definition no_fin :: "bool \<Rightarrow> nat \<Rightarrow> int" where
  "no_fin e l = 0"

definition cq_beat :: "us_bus \<Rightarrow> bool \<Rightarrow> us_frame \<Rightarrow> us_lists \<Rightarrow> (us_lists \<times> us_beat) result" where
  "cq_beat u first f ls =
     (if bw_data u = 512 then
        us_beat_of u (Some 16) 119
          ((if first then (uf_first_be f AND 0xf) OR push_bit 8 (uf_last_be f AND 0xf) OR push_bit 80 1
            else 0) OR flag 96 (uf_discontinue f))
          (\<lambda>e l. if e then push_bit 86 1 OR push_bit 88 (int l AND 0xf) else 0) ls
      else
        us_beat_of u (Some 8) 53
          ((if first then (uf_first_be f AND 0xf) OR push_bit 4 (uf_last_be f AND 0xf) OR push_bit 40 1
            else 0) OR flag 41 (uf_discontinue f))
          no_fin ls)"

definition cc_beat :: "us_bus \<Rightarrow> bool \<Rightarrow> us_frame \<Rightarrow> us_lists \<Rightarrow> (us_lists \<times> us_beat) result" where
  "cc_beat u first f ls =
     (if bw_data u = 512 then
        us_beat_of u None 17 ((if first then 1 else 0) OR flag 16 (uf_discontinue f))
          (\<lambda>e l. if e then push_bit 6 1 OR push_bit 8 (int l AND 0xf) else 0) ls
      else us_beat_of u None 1 (flag 0 (uf_discontinue f)) no_fin ls)"

definition rq_beat :: "us_bus \<Rightarrow> bool \<Rightarrow> us_frame \<Rightarrow> us_lists \<Rightarrow> (us_lists \<times> us_beat) result" where
  "rq_beat u first f ls =
     (if bw_data u = 512 then
        us_beat_of u None 73
          ((if first then (uf_first_be f AND 0xf) OR push_bit 8 (uf_last_be f AND 0xf) OR push_bit 20 1
            else 0) OR flag 36 (uf_discontinue f) OR push_bit 61 (uf_seq_num f AND 0x3f))
          (\<lambda>e l. if e then push_bit 26 1 OR push_bit 28 (int l AND 0xf) else 0) ls
      else
        us_beat_of u None 28
          ((if first then (uf_first_be f AND 0xf) OR push_bit 4 (uf_last_be f AND 0xf) else 0) OR
           flag 11 (uf_discontinue f) OR push_bit 24 (uf_seq_num f AND 0xf) OR
           (if bw_user u = 62 then push_bit 60 (drop_bit 4 (uf_seq_num f) AND 0x3) else 0))
          no_fin ls)"

definition rc_beat :: "us_bus \<Rightarrow> bool \<Rightarrow> us_frame \<Rightarrow> us_lists \<Rightarrow> (us_lists \<times> us_beat) result" where
  "rc_beat u first f ls =
     (if bw_data u = 512 then
        us_beat_of u (Some 0) 97
          ((if first then push_bit 64 1 else 0) OR flag 96 (uf_discontinue f))
          (\<lambda>e l. if e then push_bit 76 1 OR push_bit 80 (int l) else 0) ls
      else
        us_beat_of u (Some 0) 43
          ((if first then push_bit 32 1 else 0) OR flag 42 (uf_discontinue f))
          (\<lambda>e l. if e then push_bit 34 (1 OR push_bit 1 (int l)) else 0) ls)"

text \<open>The other direction: the lanes with their keep bit set, appended to the frame.\<close>

definition us_take_lanes :: "us_bus \<Rightarrow> nat option \<Rightarrow> nat \<Rightarrow> us_beat \<Rightarrow> us_frame \<Rightarrow> us_frame" where
  "us_take_lanes u bo po b f =
     (let is = filter (tst (bt_keep b)) [0..<bw_keep u]
      in f\<lparr>uf_data := uf_data f @ map (\<lambda>i. drop_bit (i * 32) (bt_data b) AND 0xffffffff) is,
           uf_byte_en := uf_byte_en f @
             (case bo of None \<Rightarrow> [] | Some k \<Rightarrow> map (\<lambda>i. drop_bit (i * 4 + k) (bt_user b) AND 0xf) is),
           uf_parity := uf_parity f @ map (\<lambda>i. drop_bit (i * 4 + po) (bt_user b) AND 0xf) is\<rparr>)"

definition us_take_first :: "nat \<Rightarrow> bool \<Rightarrow> us_beat \<Rightarrow> us_frame \<Rightarrow> us_frame" where
  "us_take_first k first b f =
     (if first then f\<lparr>uf_first_be := bt_user b AND 0xf, uf_last_be := drop_bit k (bt_user b) AND 0xf\<rparr> else f)"

definition us_take_disc :: "nat \<Rightarrow> us_beat \<Rightarrow> us_frame \<Rightarrow> us_frame" where
  "us_take_disc k b f = (if tst (bt_user b) k then f\<lparr>uf_discontinue := True\<rparr> else f)"

definition cq_take :: "us_bus \<Rightarrow> bool \<Rightarrow> us_beat \<Rightarrow> us_frame \<Rightarrow> us_frame" where
  "cq_take u first b f =
     (if bw_data u = 512 then us_take_lanes u (Some 16) 119 b (us_take_disc 96 b (us_take_first 8 first b f))
      else us_take_lanes u (Some 8) 53 b (us_take_disc 41 b (us_take_first 4 first b f)))"

definition cc_take :: "us_bus \<Rightarrow> bool \<Rightarrow> us_beat \<Rightarrow> us_frame \<Rightarrow> us_frame" where
  "cc_take u first b f =
     (if bw_data u = 512 then us_take_lanes u None 17 b (us_take_disc 16 b f)
      else us_take_lanes u None 1 b (us_take_disc 0 b f))"

definition rq_take :: "us_bus \<Rightarrow> bool \<Rightarrow> us_beat \<Rightarrow> us_frame \<Rightarrow> us_frame" where
  "rq_take u first b f =
     (if bw_data u = 512 then
        us_take_lanes u None 73 b
          ((us_take_disc 36 b (us_take_first 8 first b f))\<lparr>uf_seq_num := drop_bit 61 (bt_user b) AND 0x3f\<rparr>)
      else
        us_take_lanes u None 28 b
          ((us_take_disc 11 b (us_take_first 4 first b f))
             \<lparr>uf_seq_num := (drop_bit 24 (bt_user b) AND 0xf) OR
                (if bw_user u = 62 then push_bit 4 (drop_bit 60 (bt_user b) AND 0x3) else 0)\<rparr>))"

definition rc_take :: "us_bus \<Rightarrow> bool \<Rightarrow> us_beat \<Rightarrow> us_frame \<Rightarrow> us_frame" where
  "rc_take u first b f =
     (if bw_data u = 512 then us_take_lanes u (Some 0) 97 b (us_take_disc 96 b f)
      else us_take_lanes u (Some 0) 43 b (us_take_disc 42 b f))"

section \<open>Sources and sinks\<close>

definition us_source_new :: us_source where
  "us_source_new = \<lparr>sr_active = False, sr_queue = [], sr_frame = us_frame_new, sr_data = [], sr_byte_en = [],
     sr_parity = [], sr_first = True\<rparr>"

definition us_send :: "us_frame \<Rightarrow> us_source \<Rightarrow> us_source" where
  "us_send f s = s\<lparr>sr_queue := sr_queue s @ [f]\<rparr>"

definition us_beat_zero :: us_beat where
  "us_beat_zero = \<lparr>bt_data = 0, bt_keep = 0, bt_user = 0\<rparr>"

definition us_source_reset :: "us_source \<Rightarrow> us_source \<times> us_wires" where
  "us_source_reset s = (s\<lparr>sr_active := False, sr_data := [], sr_byte_en := [], sr_parity := [], sr_first := True\<rparr>,
     \<lparr>wr_valid = False, wr_last = False, wr_beat = us_beat_zero\<rparr>)"

text \<open>A rising edge of a source, in two parts: taking the next frame from the queue when no data
  is left, and putting a beat on the wires when none is there.\<close>

definition us_source_load :: "us_source \<Rightarrow> us_source" where
  "us_source_load s =
     (if sr_data s = [] then
        (case sr_queue s of
           [] \<Rightarrow> s
         | f # fs \<Rightarrow> s\<lparr>sr_queue := fs, sr_frame := f, sr_data := uf_data f, sr_byte_en := uf_byte_en f,
             sr_parity := uf_parity f, sr_first := True\<rparr>)
      else s)"

definition us_source_put ::
  "(bool \<Rightarrow> us_frame \<Rightarrow> us_lists \<Rightarrow> (us_lists \<times> us_beat) result) \<Rightarrow> bool \<Rightarrow> us_source \<Rightarrow> us_wires \<Rightarrow>
   (us_source \<times> us_wires) result" where
  "us_source_put beat pause s w =
     (if sr_data s \<noteq> [] \<and> \<not> sr_active s then
        bindE (beat (sr_first s) (sr_frame s) (sr_data s, sr_byte_en s, sr_parity s)) (\<lambda>((d, e, p), b).
          Inr (s\<lparr>sr_data := d, sr_byte_en := e, sr_parity := p, sr_active := True, sr_first := False\<rparr>,
               \<lparr>wr_valid = (\<not> pause), wr_last = (d = []), wr_beat = b\<rparr>))
      else Inr (s, w))"

definition us_source_step ::
  "(bool \<Rightarrow> us_frame \<Rightarrow> us_lists \<Rightarrow> (us_lists \<times> us_beat) result) \<Rightarrow> bool \<Rightarrow> bool \<Rightarrow> us_source \<Rightarrow> us_wires \<Rightarrow>
   (us_source \<times> us_wires) result" where
  "us_source_step beat pause ready s w =
     (let taken = ready \<and> wr_valid w;
          s1 = (if taken then s\<lparr>sr_active := False\<rparr> else s);
          w1 = w\<lparr>wr_valid := \<not> taken \<and> sr_active s \<and> (wr_valid w \<or> \<not> pause)\<rparr>
      in us_source_put beat pause (us_source_load s1) w1)"

definition us_sink_new :: us_sink where
  "us_sink_new = \<lparr>sk_ready = False, sk_first = True, sk_frame = us_frame_new, sk_queue = []\<rparr>"

definition us_sink_reset :: "us_sink \<Rightarrow> us_sink" where
  "us_sink_reset k = k\<lparr>sk_ready := False, sk_first := True, sk_frame := us_frame_new\<rparr>"

definition us_keep_ok :: "nat \<Rightarrow> bool \<Rightarrow> bool \<Rightarrow> int \<Rightarrow> bool" where
  "us_keep_ok n first is_last k \<longleftrightarrow> k \<noteq> 0 \<and> strip_bits 1 (strip_bits 0 k) = 0 \<and>
     (\<not> first \<longrightarrow> k AND 1 \<noteq> 0) \<and> (\<not> is_last \<longrightarrow> k AND push_bit (n - 1) 1 \<noteq> 0)"

definition us_sink_step ::
  "(bool \<Rightarrow> us_beat \<Rightarrow> us_frame \<Rightarrow> us_frame) \<Rightarrow> nat \<Rightarrow> bool \<Rightarrow> us_wires \<Rightarrow> us_sink \<Rightarrow> us_sink result" where
  "us_sink_step take_beat lanes pause w k =
     (if wr_valid w \<and> \<not> pause then
        bindE (assertE (us_keep_ok lanes (sk_first k) (wr_last w) (bt_keep (wr_beat w)))) (\<lambda>_.
          let f = take_beat (sk_first k) (wr_beat w) (sk_frame k)
          in if wr_last w
             then Inr (k\<lparr>sk_ready := True, sk_first := True, sk_frame := us_frame_new, sk_queue := sk_queue k @ [f]\<rparr>)
             else Inr (k\<lparr>sk_ready := True, sk_first := False, sk_frame := f\<rparr>))
      else Inr (k\<lparr>sk_ready := True\<rparr>))"

definition us_recv :: "us_sink \<Rightarrow> us_frame option \<times> us_sink" where
  "us_recv k = (case sk_queue k of [] \<Rightarrow> (None, k) | f # fs \<Rightarrow> (Some f, k\<lparr>sk_queue := fs\<rparr>))"

text \<open>The eight classes. The requester request and the completer completion source have no list of
  byte enables; the one of the record is not looked at.\<close>

definition cq_source_step :: "us_bus \<Rightarrow> bool \<Rightarrow> bool \<Rightarrow> us_source \<Rightarrow> us_wires \<Rightarrow> (us_source \<times> us_wires) result" where
  "cq_source_step u = us_source_step (cq_beat u)"

definition cq_sink_step :: "us_bus \<Rightarrow> bool \<Rightarrow> us_wires \<Rightarrow> us_sink \<Rightarrow> us_sink result" where
  "cq_sink_step u = us_sink_step (cq_take u) (bw_keep u)"

definition cc_source_step :: "us_bus \<Rightarrow> bool \<Rightarrow> bool \<Rightarrow> us_source \<Rightarrow> us_wires \<Rightarrow> (us_source \<times> us_wires) result" where
  "cc_source_step u = us_source_step (cc_beat u)"

definition cc_sink_step :: "us_bus \<Rightarrow> bool \<Rightarrow> us_wires \<Rightarrow> us_sink \<Rightarrow> us_sink result" where
  "cc_sink_step u = us_sink_step (cc_take u) (bw_keep u)"

definition rq_source_step :: "us_bus \<Rightarrow> bool \<Rightarrow> bool \<Rightarrow> us_source \<Rightarrow> us_wires \<Rightarrow> (us_source \<times> us_wires) result" where
  "rq_source_step u = us_source_step (rq_beat u)"

definition rq_sink_step :: "us_bus \<Rightarrow> bool \<Rightarrow> us_wires \<Rightarrow> us_sink \<Rightarrow> us_sink result" where
  "rq_sink_step u = us_sink_step (rq_take u) (bw_keep u)"

definition rc_source_step :: "us_bus \<Rightarrow> bool \<Rightarrow> bool \<Rightarrow> us_source \<Rightarrow> us_wires \<Rightarrow> (us_source \<times> us_wires) result" where
  "rc_source_step u = us_source_step (rc_beat u)"

definition rc_sink_step :: "us_bus \<Rightarrow> bool \<Rightarrow> us_wires \<Rightarrow> us_sink \<Rightarrow> us_sink result" where
  "rc_sink_step u = us_sink_step (rc_take u) (bw_keep u)"

section \<open>Lanes as bit fields\<close>

primrec fields :: "nat \<Rightarrow> nat \<Rightarrow> int list \<Rightarrow> int" where
  "fields w off [] = 0"
| "fields w off (x # xs) = push_bit off x OR fields w (off + w) xs"

lemma fields_snoc: "fields w off (xs @ [x]) = fields w off xs OR push_bit (off + w * length xs) x"
  by (induction xs arbitrary: off) (simp_all add: or.assoc algebra_simps)

lemma bit_fields:
  assumes "\<forall>x \<in> set xs. fits w x" "0 < w"
  shows "bit (fields w off xs) j \<longleftrightarrow>
    off \<le> j \<and> (j - off) div w < length xs \<and> bit (xs ! ((j - off) div w)) ((j - off) mod w)"
  using assms(1)
proof (induction xs arbitrary: off)
  case (Cons x xs)
  show ?case
  proof (cases "off \<le> j \<and> j - off < w")
    case True
    then have "\<not> off + w \<le> j" by linarith
    then show ?thesis using True Cons by (simp add: bit_or_iff bit_push_bit_iff)
  next
    case False
    have "\<not> bit (push_bit off x) j"
      using False Cons.prems fits_bit_high[of w x "j - off"] by (auto simp: bit_push_bit_iff not_less)
    moreover have "(j - off) div w = Suc ((j - (off + w)) div w)" "(j - off) mod w = (j - (off + w)) mod w"
      if "off \<le> j"
    proof -
      have "j - off = (j - (off + w)) + w" using that False by simp
      then show "(j - off) div w = Suc ((j - (off + w)) div w)" "(j - off) mod w = (j - (off + w)) mod w"
        using assms(2) by (metis div_add_self2 less_numeral_extra(3) Suc_eq_plus1, metis mod_add_self2)
    qed
    ultimately show ?thesis using Cons False by (auto simp: bit_or_iff)
  qed
qed simp

lemma fields_fits: "\<forall>x \<in> set xs. fits w x \<Longrightarrow> fits (off + w * length xs) (fields w off xs)"
proof (induction xs arbitrary: off)
  case (Cons x xs)
  have "fits (off + w * length (x # xs)) (push_bit off x)"
    using Cons.prems by (intro fits_push_bit) (auto intro: fits_mono)
  moreover have "fits (off + w * length (x # xs)) (fields w (off + w) xs)"
    using Cons.IH[of "off + w"] Cons.prems by (simp add: algebra_simps)
  ultimately show ?case by (simp add: fits_or)
qed (simp add: fits_def)

text \<open>The bits of one slot.\<close>

lemma fields_slot:
  assumes "\<forall>x \<in> set xs. fits w x" "j < w" "i < length xs"
  shows "bit (fields w off xs) (i * w + off + j) \<longleftrightarrow> bit (xs ! i) j"
proof -
  have "(i * w + off + j - off) div w = i" "(i * w + off + j - off) mod w = j"
    using assms(2) by simp_all
  then show ?thesis using assms by (subst bit_fields) auto
qed

lemma fields_outside:
  assumes "\<forall>x \<in> set xs. fits w x" "0 < w" "j < off \<or> off + w * length xs \<le> j"
  shows "\<not> bit (fields w off xs) j"
proof (cases "j < off")
  case True
  then show ?thesis using bit_fields[OF assms(1,2)] by auto
next
  case False
  then show ?thesis using assms(3) fits_bit_high[OF fields_fits[OF assms(1)]] by auto
qed

section \<open>The loop over the lanes\<close>

definition opt_drop :: "nat option \<Rightarrow> nat \<Rightarrow> 'x list \<Rightarrow> 'x list" where
  "opt_drop bo n xs = (case bo of None \<Rightarrow> xs | Some _ \<Rightarrow> drop n xs)"

definition opt_fields :: "nat option \<Rightarrow> int list \<Rightarrow> int" where
  "opt_fields bo xs = (case bo of None \<Rightarrow> 0 | Some k \<Rightarrow> fields 4 k xs)"

text \<open>The parity lanes of a beat: the ones of its words, then ones.\<close>

definition par_lanes :: "nat \<Rightarrow> int list \<Rightarrow> int list" where
  "par_lanes n ps = take n ps @ replicate (n - length ps) 0xf"

lemma par_lanes_ok:
  "list_all (fits 4) ps \<Longrightarrow> \<forall>x \<in> set (par_lanes n ps). fits 4 x" "length (par_lanes n ps) = n"
  by (auto simp: par_lanes_def list_all_iff fits_def dest: in_set_takeD)

lemma mask_snoc: "mask n OR 2 ^ n = (mask (Suc n) :: int)"
  by (rule bit_eqI) (auto simp: bit_or_iff bit_mask_iff bit_exp_iff less_Suc_eq)

lemma lane_run_append: "lane_run bo po (is @ js) s = bindE (lane_run bo po is s) (lane_run bo po js)"
  by (induction "is" arbitrary: s) (simp_all add: bindE_assoc cong: bindE_cong)

lemma lane_run_result:
  assumes "length es = length ds \<or> bo = None" "length ps = length ds"
  shows "lane_run bo po [0..<n] \<lparr>ln_left = (ds, es, ps), ln_d = 0, ln_k = 0, ln_u = u0, ln_last = 0\<rparr> =
    Inr \<lparr>ln_left = (drop n ds, opt_drop bo n es, drop n ps), ln_d = fields 32 0 (take n ds),
         ln_k = mask (min n (length ds)),
         ln_u = u0 OR opt_fields bo (take n es) OR fields 4 po (par_lanes n ps),
         ln_last = min n (length ds) - 1\<rparr>"
proof (induction n)
  case 0
  then show ?case by (simp add: opt_drop_def opt_fields_def par_lanes_def split: option.splits)
next
  case (Suc n)
  show ?case
  proof (cases "n < length ds")
    case True
    have p: "drop n ps = ps ! n # drop (Suc n) ps" "take (Suc n) ps = take n ps @ [ps ! n]"
      using True assms(2) by (simp_all add: Cons_nth_drop_Suc take_Suc_conv_app_nth)
    have d: "drop n ds = ds ! n # drop (Suc n) ds" "take (Suc n) ds = take n ds @ [ds ! n]"
      using True by (simp_all add: Cons_nth_drop_Suc take_Suc_conv_app_nth)
    have e: "drop n es = es ! n # drop (Suc n) es" "take (Suc n) es = take n es @ [es ! n]" "length es = length ds"
      if "bo = Some k" for k
      using True assms(1) that by (simp_all add: Cons_nth_drop_Suc take_Suc_conv_app_nth)
    have l: "min n (length ps) = n" "min n (length ds) = n" "min (Suc n) (length ds) = Suc n" "n - length ps = 0"
      "Suc n - length ps = 0"
      using True assms(2) by simp_all
    have pl: "par_lanes (Suc n) ps = par_lanes n ps @ [ps ! n]" "length (par_lanes n ps) = n"
      using l p by (simp_all add: par_lanes_def)
    show ?thesis
    proof (cases bo)
      case None
      then show ?thesis
        using Suc l pl by (simp add: lane_run_append lane_step_def d p(1) fields_snoc opt_drop_def opt_fields_def mask_snoc
            or.assoc add.commute mult.commute)
    next
      case (Some k)
      then show ?thesis
        using Suc l pl e[OF Some]
        by (simp add: lane_run_append lane_step_def d p(1) fields_snoc opt_drop_def opt_fields_def mask_snoc
            or.assoc or.left_commute add.commute mult.commute)
    qed
  next
    case False
    have pl: "par_lanes (Suc n) ps = par_lanes n ps @ [0xf]" "length (par_lanes n ps) = n"
      using False assms(2) by (simp_all add: par_lanes_def Suc_diff_le replicate_append_same)
    have "opt_drop bo (Suc n) es = opt_drop bo n es" "opt_fields bo (take (Suc n) es) = opt_fields bo (take n es)"
      using False assms(1) by (auto simp: opt_drop_def opt_fields_def split: option.splits)
    then show ?thesis
      using Suc False pl assms(2)
      by (simp add: lane_run_append lane_step_def fields_snoc or.assoc min_absorb2 add.commute mult.commute)
  qed
qed

section \<open>A beat and back\<close>

definition us_left :: "nat option \<Rightarrow> us_frame \<Rightarrow> nat \<Rightarrow> us_lists" where
  "us_left bo f m = (drop m (uf_data f), opt_drop bo m (uf_byte_en f), drop m (uf_parity f))"

definition us_opt :: "nat option \<Rightarrow> 'x list \<Rightarrow> 'x list" where
  "us_opt bo xs = (case bo of None \<Rightarrow> [] | Some _ \<Rightarrow> xs)"

text \<open>The frames a bus carries: words, byte enables where the interface has them, and parity, each
  in the range of its field.\<close>

definition us_words_ok :: "bool \<Rightarrow> us_frame \<Rightarrow> bool" where
  "us_words_ok has_be f \<longleftrightarrow> uf_data f \<noteq> [] \<and> list_all (fits 32) (uf_data f) \<and>
     length (uf_parity f) = length (uf_data f) \<and> list_all (fits 4) (uf_parity f) \<and>
     (has_be \<longrightarrow> length (uf_byte_en f) = length (uf_data f) \<and> list_all (fits 4) (uf_byte_en f))"

definition bits_clear :: "int \<Rightarrow> nat \<Rightarrow> nat \<Rightarrow> bool" where
  "bits_clear h lo hi \<longleftrightarrow> (\<forall>j. lo \<le> j \<and> j < hi \<longrightarrow> \<not> bit h j)"

lemma field_eq:
  assumes "fits w x" "\<And>j. j < w \<Longrightarrow> bit u (o' + j) \<longleftrightarrow> bit x j"
  shows "drop_bit o' u AND (2 ^ w - 1) = x"
proof -
  have "take_bit w (drop_bit o' u) = x"
    by (rule bit_eqI)
      (use assms fits_bit_high[OF assms(1)] in \<open>auto simp: bit_take_bit_iff bit_drop_bit_eq not_le[symmetric]\<close>)
  then show ?thesis by (simp add: take_bit_eq_mask mask_eq_exp_minus_1)
qed

lemma nibble_eq: "fits 4 x \<Longrightarrow> (\<And>j. j < 4 \<Longrightarrow> bit u (o' + j) \<longleftrightarrow> bit x j) \<Longrightarrow> drop_bit o' u AND 0xf = x"
  using field_eq[of 4 x u o'] by simp

lemma word_eq: "fits 32 x \<Longrightarrow> (\<And>j. j < 32 \<Longrightarrow> bit u (o' + j) \<longleftrightarrow> bit x j) \<Longrightarrow> drop_bit o' u AND 0xffffffff = x"
  using field_eq[of 32 x u o'] by simp

lemma filter_mask: "c \<le> n \<Longrightarrow> filter (tst (mask c)) [0..<n] = [0..<c]"
proof -
  assume c: "c \<le> n"
  have "[0..<n] = [0..<c] @ [c..<n]" using upt_add_eq_append[of 0 c "n - c"] c by simp
  moreover have "filter (tst (mask c)) [0..<c] = [0..<c]" by (simp add: filter_id_conv bit_mask_iff)
  moreover have "filter (tst (mask c)) [c..<n] = []" by (simp add: filter_empty_conv bit_mask_iff)
  ultimately show ?thesis by simp
qed

text \<open>The fields of \<open>tuser\<close>: lanes in their two regions, markers outside.\<close>

lemma lanes_in_user:
  assumes u: "u = h OR opt_fields bo es OR fields 4 po (par_lanes n ps)"
    and clear: "bits_clear h po (po + 4 * n)" "\<And>k. bo = Some k \<Longrightarrow> bits_clear h k (k + 4 * n) \<and> k + 4 * n \<le> po"
    and ps: "list_all (fits 4) ps" "length ps \<le> n"
    and es: "\<And>k. bo = Some k \<Longrightarrow> list_all (fits 4) es \<and> length es \<le> n"
  shows "i < length ps \<Longrightarrow> drop_bit (i * 4 + po) u AND 0xf = ps ! i"
    and "bo = Some k \<Longrightarrow> i < length es \<Longrightarrow> drop_bit (i * 4 + k) u AND 0xf = es ! i"
    and "j < po \<or> po + 4 * n \<le> j \<Longrightarrow> (\<And>k. bo = Some k \<Longrightarrow> j < k \<or> k + 4 * n \<le> j) \<Longrightarrow> bit u j \<longleftrightarrow> bit h j"
proof -
  have p: "\<forall>x \<in> set (par_lanes n ps). fits 4 x" "length (par_lanes n ps) = n"
    using par_lanes_ok ps(1) by blast+
  have po: "\<not> bit (fields 4 po (par_lanes n ps)) j" if "j < po \<or> po + 4 * n \<le> j" for j
    using fields_outside[OF p(1)] p(2) that by simp
  have eo: "\<not> bit (opt_fields bo es) j" if "\<And>k. bo = Some k \<Longrightarrow> j < k \<or> k + 4 * n \<le> j" for j
  proof (cases bo)
    case (Some k)
    then have "j < k \<or> k + 4 * length es \<le> j" using that[OF Some] es[OF Some] by linarith
    then show ?thesis
      using fields_outside[of es 4 j k] es[OF Some] by (simp add: opt_fields_def Some list_all_iff)
  qed (simp add: opt_fields_def)
  show "j < po \<or> po + 4 * n \<le> j \<Longrightarrow> (\<And>k. bo = Some k \<Longrightarrow> j < k \<or> k + 4 * n \<le> j) \<Longrightarrow> bit u j \<longleftrightarrow> bit h j"
    using po eo by (simp add: u bit_or_iff)
  show "drop_bit (i * 4 + po) u AND 0xf = ps ! i" if i: "i < length ps"
  proof (rule nibble_eq)
    show "fits 4 (ps ! i)" using ps(1) i by (simp add: list_all_length)
    fix j :: nat assume j: "j < 4"
    have r: "po \<le> i * 4 + po + j" "i * 4 + po + j < po + 4 * n" using i j ps(2) by linarith+
    have "bit (fields 4 po (par_lanes n ps)) (i * 4 + po + j) \<longleftrightarrow> bit (par_lanes n ps ! i) j"
      using fields_slot[OF p(1) j] p(2) i ps(2) by simp
    also have "par_lanes n ps ! i = ps ! i" using i ps(2) by (simp add: par_lanes_def nth_append)
    finally have f: "bit (fields 4 po (par_lanes n ps)) (i * 4 + po + j) \<longleftrightarrow> bit (ps ! i) j" .
    have "\<not> bit (opt_fields bo es) (i * 4 + po + j)" using clear(2) r(1) by (intro eo) fastforce
    moreover have "\<not> bit h (i * 4 + po + j)" using clear(1) r by (simp add: bits_clear_def)
    ultimately show "bit u (i * 4 + po + j) \<longleftrightarrow> bit (ps ! i) j" using f by (simp add: u bit_or_iff)
  qed
  show "drop_bit (i * 4 + k) u AND 0xf = es ! i" if b: "bo = Some k" and i: "i < length es"
  proof (rule nibble_eq)
    show "fits 4 (es ! i)" using es[OF b] i by (simp add: list_all_length)
    fix j :: nat assume j: "j < 4"
    have r: "k \<le> i * 4 + k + j" "i * 4 + k + j < k + 4 * n" using i j es[OF b] by linarith+
    have "bit (fields 4 k es) (i * 4 + k + j) \<longleftrightarrow> bit (es ! i) j"
      using fields_slot[of es 4 j i k] es[OF b] i j by (simp add: list_all_iff)
    moreover have "\<not> bit h (i * 4 + k + j)" using clear(2)[OF b] r by (auto simp: bits_clear_def)
    moreover have "\<not> bit (fields 4 po (par_lanes n ps)) (i * 4 + k + j)"
      using po[of "i * 4 + k + j"] clear(2)[OF b] r by linarith
    ultimately show "bit u (i * 4 + k + j) \<longleftrightarrow> bit (es ! i) j" by (simp add: u bit_or_iff opt_fields_def b)
  qed
qed

lemma user_fits:
  assumes "u = h OR opt_fields bo es OR fields 4 po (par_lanes n ps)" "list_all (fits 4) ps"
    and es: "\<And>k. bo = Some k \<Longrightarrow> list_all (fits 4) es \<and> length es \<le> n"
    and "\<And>k. bo = Some k \<Longrightarrow> k + 4 * n \<le> po" "fits w h" "po + 4 * n \<le> w"
  shows "fits w u"
proof -
  have "fits w (fields 4 po (par_lanes n ps))"
    using fields_fits[OF par_lanes_ok(1)[OF assms(2)], of po n] assms(6) by (auto simp: par_lanes_ok(2) intro: fits_mono)
  moreover have "fits w (opt_fields bo es)"
  proof (cases bo)
    case (Some k)
    have "fits (k + 4 * length es) (fields 4 k es)"
      using fields_fits[of es 4 k] es[OF Some] by (simp add: list_all_iff)
    moreover have "k + 4 * length es \<le> w" using assms(4,6) es[OF Some] Some by fastforce
    ultimately show ?thesis by (auto simp: opt_fields_def Some intro: fits_mono)
  qed (simp add: opt_fields_def fits_def)
  ultimately show ?thesis unfolding assms(1) using assms(5) by (intro fits_or)
qed

text \<open>The sink reads the lanes back.\<close>

lemma take_lanes_result:
  assumes ds: "list_all (fits 32) ds" "length ds = c" "c \<le> bw_keep u" "length ps = c"
    and es: "\<And>k. bo = Some k \<Longrightarrow> length es = c"
    and b: "bt_data b = fields 32 0 ds" "bt_keep b = mask c"
      "\<And>i. i < length ps \<Longrightarrow> drop_bit (i * 4 + po) (bt_user b) AND 0xf = ps ! i"
      "\<And>k i. bo = Some k \<Longrightarrow> i < length es \<Longrightarrow> drop_bit (i * 4 + k) (bt_user b) AND 0xf = es ! i"
  shows "us_take_lanes u bo po b g = g\<lparr>uf_data := uf_data g @ ds,
    uf_byte_en := uf_byte_en g @ us_opt bo es, uf_parity := uf_parity g @ ps\<rparr>"
proof -
  have "map (\<lambda>i. drop_bit (i * 32) (bt_data b) AND 0xffffffff) [0..<c] = ds"
  proof (rule nth_equalityI)
    fix i assume "i < length (map (\<lambda>i. drop_bit (i * 32) (bt_data b) AND 0xffffffff) [0..<c])"
    then have i: "i < c" by simp
    have "drop_bit (i * 32) (bt_data b) AND 0xffffffff = ds ! i"
    proof (rule word_eq)
      show "fits 32 (ds ! i)" using ds i by (simp add: list_all_length)
      show "bit (bt_data b) (i * 32 + j) \<longleftrightarrow> bit (ds ! i) j" if "j < 32" for j
        using fields_slot[of ds 32 j i 0] ds i that by (simp add: b(1) list_all_iff)
    qed
    then show "map (\<lambda>i. drop_bit (i * 32) (bt_data b) AND 0xffffffff) [0..<c] ! i = ds ! i" using i by simp
  qed (simp add: ds(2))
  moreover have "map (\<lambda>i. drop_bit (i * 4 + po) (bt_user b) AND 0xf) [0..<c] = ps"
    by (rule nth_equalityI) (use ds(4) b(3) in auto)
  moreover have "map (\<lambda>i. drop_bit (i * 4 + k) (bt_user b) AND 0xf) [0..<c] = es" if "bo = Some k" for k
    by (rule nth_equalityI) (use es[OF that] b(4)[OF that] in auto)
  ultimately show ?thesis
    unfolding us_take_lanes_def Let_def b(2) filter_mask[OF ds(3)]
    by (auto simp: us_opt_def split: option.splits)
qed

text \<open>The beat that starts at word \<open>m\<close> of a frame: what the source puts on the wires and what is
  left, and what the lanes and the markers are for the sink.\<close>

lemma us_beat_law:
  assumes ok: "us_words_ok (bo \<noteq> None) f" "m < length (uf_data f)" "us_width_ok u"
    and h: "h = u0 OR fin (length (uf_data f) \<le> m + bw_keep u) (min (bw_keep u) (length (uf_data f) - m) - 1)"
    and clear: "bits_clear h po (po + 4 * bw_keep u)"
      "\<And>k. bo = Some k \<Longrightarrow> bits_clear h k (k + 4 * bw_keep u) \<and> k + 4 * bw_keep u \<le> po"
    and wide: "fits (bw_user u) h" "po + 4 * bw_keep u \<le> bw_user u"
  obtains b where "us_beat_of u bo po u0 fin (us_left bo f m) = Inr (us_left bo f (m + bw_keep u), b)"
    "bt_keep b = mask (min (bw_keep u) (length (uf_data f) - m))"
    "\<And>g. us_take_lanes u bo po b g = g\<lparr>uf_data := uf_data g @ take (bw_keep u) (drop m (uf_data f)),
       uf_byte_en := uf_byte_en g @ us_opt bo (take (bw_keep u) (drop m (uf_byte_en f))),
       uf_parity := uf_parity g @ take (bw_keep u) (drop m (uf_parity f))\<rparr>"
    "\<And>j. j < po \<or> po + 4 * bw_keep u \<le> j \<Longrightarrow> (\<And>k. bo = Some k \<Longrightarrow> j < k \<or> k + 4 * bw_keep u \<le> j) \<Longrightarrow>
       bit (bt_user b) j \<longleftrightarrow> bit h j"
proof -
  define n where "n = bw_keep u"
  define ds where "ds = drop m (uf_data f)"
  define es where "es = opt_drop bo m (uf_byte_en f)"
  define ps where "ps = drop m (uf_parity f)"
  define c where "c = min n (length ds)"
  have w: "list_all (fits 32) (uf_data f)" "length (uf_parity f) = length (uf_data f)" "list_all (fits 4) (uf_parity f)"
    "bo = Some k \<Longrightarrow> length (uf_byte_en f) = length (uf_data f) \<and> list_all (fits 4) (uf_byte_en f)" for k
    using ok(1) by (auto simp: us_words_ok_def)
  have dw: "bw_data u = 32 * n" using ok(3) by (simp add: us_width_ok_def n_def)
  have l: "length es = length ds \<or> bo = None" "length ps = length ds" "length ds = length (uf_data f) - m"
    using w by (cases bo; simp add: es_def ds_def ps_def opt_drop_def)+
  have d: "list_all (fits 32) (take n ds)" "length (take n ds) = c"
    using w(1) by (auto simp: ds_def c_def list_all_iff dest: in_set_takeD in_set_dropD)
  have e: "list_all (fits 4) (take n es) \<and> length (take n es) \<le> n" "length (take n es) = c" if "bo = Some k" for k
    using w(4)[OF that] l that by (auto simp: es_def opt_drop_def c_def list_all_iff dest: in_set_takeD in_set_dropD)
  have p: "list_all (fits 4) (take n ps)" "length (take n ps) = c" "length (take n ps) \<le> n"
    using w(2,3) l by (auto simp: ps_def c_def list_all_iff dest: in_set_takeD in_set_dropD)
  have pl: "par_lanes n (take n ps) = par_lanes n ps" using p(3) by (auto simp: par_lanes_def)
  define usr where "usr = h OR opt_fields bo (take n es) OR fields 4 po (par_lanes n (take n ps))"
  define b where "b = \<lparr>bt_data = fields 32 0 (take n ds), bt_keep = mask c, bt_user = usr\<rparr>"
  note lu = lanes_in_user[OF usr_def clear[folded n_def] p(1,3) e(1)]
  have "fits (bw_user u) usr"
    using clear(2) wide by (intro user_fits[OF usr_def p(1) e(1)]) (auto simp: n_def)
  moreover have "fits (bw_data u) (fields 32 0 (take n ds))"
    using fields_fits[of "take n ds" 32 0] d by (auto simp: dw list_all_iff c_def intro: fits_mono)
  moreover have "fits (bw_keep u) (mask c :: int)"
    by (simp add: fits_iff_take_bit take_bit_of_mask c_def n_def min.absorb2)
  moreover have "drop n ds = [] \<longleftrightarrow> length (uf_data f) \<le> m + n" using l(3) by auto
  moreover have "u0 OR opt_fields bo (take n es) OR fields 4 po (par_lanes n ps) OR
      fin (length (uf_data f) \<le> m + n) (c - 1) = usr"
    unfolding usr_def h n_def[symmetric] pl c_def l(3) by (simp only: or.assoc or.commute or.left_commute)
  ultimately have "us_beat_of u bo po u0 fin (us_left bo f m) = Inr ((drop n ds, opt_drop bo n es, drop n ps), b)"
    unfolding us_beat_of_def us_left_def ds_def[symmetric] es_def[symmetric] ps_def[symmetric]
      lane_run_result[OF l(1,2)] n_def[symmetric]
    by (simp add: Let_def b_def or.assoc c_def[symmetric])
  moreover have "(drop n ds, opt_drop bo n es, drop n ps) = us_left bo f (m + bw_keep u)"
    by (auto simp: us_left_def ds_def es_def ps_def opt_drop_def n_def add.commute split: option.splits)
  moreover have "bt_keep b = mask (min (bw_keep u) (length (uf_data f) - m))"
    by (simp add: b_def c_def n_def l(3))
  moreover have "us_take_lanes u bo po b g = g\<lparr>uf_data := uf_data g @ take (bw_keep u) (drop m (uf_data f)),
       uf_byte_en := uf_byte_en g @ us_opt bo (take (bw_keep u) (drop m (uf_byte_en f))),
       uf_parity := uf_parity g @ take (bw_keep u) (drop m (uf_parity f))\<rparr>" for g
  proof -
    have "us_take_lanes u bo po b g = g\<lparr>uf_data := uf_data g @ take n ds,
        uf_byte_en := uf_byte_en g @ us_opt bo (take n es), uf_parity := uf_parity g @ take n ps\<rparr>"
      using d p(2) e(2) lu(1,2) by (intro take_lanes_result) (auto simp: b_def c_def n_def)
    moreover have "us_opt bo (take n es) = us_opt bo (take n (drop m (uf_byte_en f)))"
      by (cases bo) (simp_all add: us_opt_def es_def opt_drop_def)
    ultimately show ?thesis by (simp only: ds_def ps_def n_def)
  qed
  moreover have "bit (bt_user b) j \<longleftrightarrow> bit h j"
    if "j < po \<or> po + 4 * bw_keep u \<le> j" "\<And>k. bo = Some k \<Longrightarrow> j < k \<or> k + 4 * bw_keep u \<le> j" for j
    using lu(3) that by (simp add: b_def n_def)
  ultimately show ?thesis using that by metis
qed

end
