(* ===== verification/UsLink.thy ===== *)
theory UsLink
  imports UsBus
begin

text \<open>
  Delivery over a bus of the UltraScale core: a source and a sink of \<open>fpga/lib/pcie/tb/pcie_us.py\<close>
  on one bus, proved once over the locale \<open>us_stream\<close> and interpreted for the four interfaces.
\<close>

unbundle bit_operations_syntax

section \<open>Interface: an interface of the core\<close>

text \<open>What the source still holds: whole frames, or a frame of which \<open>n\<close> words are sent, in front of
  its queue; and what is on the wires. \<open>left f m\<close> is what a source has left of a frame after \<open>m\<close>
  words, \<open>part f m\<close> the frame the sink has made of them.\<close>

definition us_holds :: "(us_frame \<Rightarrow> nat \<Rightarrow> us_lists) \<Rightarrow> us_source \<Rightarrow> us_frame list \<Rightarrow> nat \<Rightarrow> bool" where
  "us_holds left s gs n \<longleftrightarrow> sr_data s = [] \<and> sr_queue s = gs \<and> n = 0 \<or>
     (\<exists>g rest. gs = g # rest \<and> sr_queue s = rest \<and> n < length (uf_data g) \<and> sr_frame s = g \<and>
        (sr_data s, sr_byte_en s, sr_parity s) = left g n \<and> sr_first s = (n = 0))"

definition us_on_wire ::
  "nat \<Rightarrow> (bool \<Rightarrow> us_beat \<Rightarrow> us_frame \<Rightarrow> us_frame) \<Rightarrow> (us_frame \<Rightarrow> nat \<Rightarrow> us_frame) \<Rightarrow> us_frame \<Rightarrow> nat \<Rightarrow> us_wires \<Rightarrow> bool" where
  "us_on_wire lanes take_beat part f m w \<longleftrightarrow> m < length (uf_data f) \<and>
     bt_keep (wr_beat w) = mask (min lanes (length (uf_data f) - m)) \<and>
     take_beat (m = 0) (wr_beat w) (part f m) = part f (min (m + lanes) (length (uf_data f))) \<and>
     (wr_last w \<longleftrightarrow> length (uf_data f) \<le> m + lanes)"

definition us_after :: "nat \<Rightarrow> (us_frame \<Rightarrow> nat \<Rightarrow> us_lists) \<Rightarrow> us_source \<Rightarrow> us_frame \<Rightarrow> nat \<Rightarrow> us_frame list \<Rightarrow> bool" where
  "us_after lanes left s f m gs \<longleftrightarrow>
     (if length (uf_data f) \<le> m + lanes then us_holds left s gs 0 else us_holds left s (f # gs) (m + lanes))"

definition us_beats :: "nat \<Rightarrow> nat \<Rightarrow> nat" where
  "us_beats lanes n = (n + lanes - 1) div lanes"

definition us_total :: "nat \<Rightarrow> us_frame list \<Rightarrow> nat" where
  "us_total lanes fs = sum_list (map (\<lambda>f. us_beats lanes (length (uf_data f))) fs)"

text \<open>A source and a sink on one bus. At an edge frames may be sent, and either side be paused.\<close>

type_synonym us_pair = "us_source \<times> us_wires \<times> us_sink"
type_synonym us_edge = "us_frame list \<times> bool \<times> bool"

definition us_pair_edge ::
  "(bool \<Rightarrow> bool \<Rightarrow> us_source \<Rightarrow> us_wires \<Rightarrow> (us_source \<times> us_wires) result) \<Rightarrow>
   (bool \<Rightarrow> us_wires \<Rightarrow> us_sink \<Rightarrow> us_sink result) \<Rightarrow> us_edge \<Rightarrow> us_pair \<Rightarrow> us_pair result" where
  "us_pair_edge src snk e st =
     (case (e, st) of ((fs, ps, pk), (s, w, k)) \<Rightarrow>
        bindE (src ps (sk_ready k \<and> \<not> pk) (fold us_send fs s) w) (\<lambda>(s', w').
        bindE (snk pk w k) (\<lambda>k'. Inr (s', w', k'))))"

fun us_pair_run ::
  "(bool \<Rightarrow> bool \<Rightarrow> us_source \<Rightarrow> us_wires \<Rightarrow> (us_source \<times> us_wires) result) \<Rightarrow>
   (bool \<Rightarrow> us_wires \<Rightarrow> us_sink \<Rightarrow> us_sink result) \<Rightarrow> us_edge list \<Rightarrow> us_pair \<Rightarrow> us_pair result" where
  "us_pair_run src snk [] st = Inr st"
| "us_pair_run src snk (e # es) st = bindE (us_pair_edge src snk e st) (us_pair_run src snk es)"

definition us_pair_new :: us_pair where
  "us_pair_new = (case us_source_reset us_source_new of (s, w) \<Rightarrow> (s, w, us_sink_reset us_sink_new))"

definition us_inv ::
  "nat \<Rightarrow> (bool \<Rightarrow> us_beat \<Rightarrow> us_frame \<Rightarrow> us_frame) \<Rightarrow> (us_frame \<Rightarrow> nat \<Rightarrow> us_lists) \<Rightarrow>
   (us_frame \<Rightarrow> nat \<Rightarrow> us_frame) \<Rightarrow> us_frame list \<Rightarrow> nat \<Rightarrow> us_pair \<Rightarrow> bool" where
  "us_inv lanes take_beat left part fs n st \<longleftrightarrow> (case st of (s, w, k) \<Rightarrow>
     \<exists>past gs. sk_queue k = map (\<lambda>f. part f (length (uf_data f))) past \<and> (wr_valid w \<longrightarrow> sk_ready k) \<and>
       (\<not> sr_active s \<and> \<not> wr_valid w \<and> us_holds left s gs 0 \<and> sk_frame k = us_frame_new \<and> sk_first k \<and>
          fs = past @ gs \<and> n = us_total lanes gs \<or>
        (\<exists>f m. sr_active s \<and> us_on_wire lanes take_beat part f m w \<and> us_after lanes left s f m gs \<and>
           sk_frame k = part f m \<and> sk_first k = (m = 0) \<and>
           fs = past @ f # gs \<and> n = us_beats lanes (length (uf_data f) - m) + us_total lanes gs)))"

definition us_measure :: "nat \<Rightarrow> us_pair \<Rightarrow> nat" where
  "us_measure n st = 2 * n - (if wr_valid (fst (snd st)) then 1 else 0)"

lemma us_beats_0 [simp]: "0 < L \<Longrightarrow> us_beats L 0 = 0"
  by (simp add: us_beats_def)

lemma us_beats_step: "0 < L \<Longrightarrow> 0 < n \<Longrightarrow> us_beats L n = Suc (us_beats L (n - L))"
  unfolding us_beats_def using ceil_div_step by simp

lemma us_total_simps [simp]:
  "us_total L [] = 0" "us_total L (f # fs) = us_beats L (length (uf_data f)) + us_total L fs"
  "us_total L (fs @ gs) = us_total L fs + us_total L gs"
  by (simp_all add: us_total_def)

lemma us_holds_active [simp]: "us_holds left (s\<lparr>sr_active := a\<rparr>) gs n = us_holds left s gs n"
  by (simp add: us_holds_def)

lemma us_keep_ok_mask: "0 < c \<Longrightarrow> is_last \<or> c = n \<Longrightarrow> us_keep_ok n first is_last (mask c)"
  using keep_ok_mask[of c is_last "\<lparr>bus_N = 0, bus_M = n\<rparr>" first] by (simp add: keep_ok_def us_keep_ok_def)

lemma fold_us_send: "fold us_send fs s = s\<lparr>sr_queue := sr_queue s @ fs\<rparr>"
  by (induction fs arbitrary: s) (simp_all add: us_send_def)

locale us_stream =
  fixes lanes :: nat
    and beat :: "bool \<Rightarrow> us_frame \<Rightarrow> us_lists \<Rightarrow> (us_lists \<times> us_beat) result"
    and take_beat :: "bool \<Rightarrow> us_beat \<Rightarrow> us_frame \<Rightarrow> us_frame"
    and ok :: "us_frame \<Rightarrow> bool"
    and left :: "us_frame \<Rightarrow> nat \<Rightarrow> us_lists"
    and part :: "us_frame \<Rightarrow> nat \<Rightarrow> us_frame"
  assumes ok_words: "ok f \<Longrightarrow> 0 < lanes \<and> uf_data f \<noteq> []"
    and left_data: "fst (left f m) = drop m (uf_data f)"
    and left_start: "ok f \<Longrightarrow> left f 0 = (uf_data f, uf_byte_en f, uf_parity f)"
    and part_start: "part f 0 = us_frame_new"
    and beat_law: "ok f \<Longrightarrow> m < length (uf_data f) \<Longrightarrow> \<exists>b. beat (m = 0) f (left f m) = Inr (left f (m + lanes), b) \<and>
      bt_keep b = mask (min lanes (length (uf_data f) - m)) \<and>
      take_beat (m = 0) b (part f m) = part f (min (m + lanes) (length (uf_data f)))"
begin

lemma load_holds:
  assumes "us_holds left s gs n" "\<forall>g \<in> set gs. ok g"
  shows "us_holds left (us_source_load s) gs n" "sr_active (us_source_load s) = sr_active s"
    "gs = [] \<Longrightarrow> us_source_load s = s \<and> sr_data s = []"
    "gs = g # rest \<Longrightarrow> sr_queue (us_source_load s) = rest \<and> n < length (uf_data g) \<and>
       sr_frame (us_source_load s) = g \<and> sr_first (us_source_load s) = (n = 0) \<and>
       (sr_data (us_source_load s), sr_byte_en (us_source_load s), sr_parity (us_source_load s)) = left g n"
proof -
  have data: "sr_data s \<noteq> []" if "(sr_data s, sr_byte_en s, sr_parity s) = left g n" "n < length (uf_data g)" for g
    using that left_data[of g n] by (metis drop_eq_Nil fst_conv not_le)
  show a: "sr_active (us_source_load s) = sr_active s"
    by (simp add: us_source_load_def split: list.split)
  show e: "gs = [] \<Longrightarrow> us_source_load s = s \<and> sr_data s = []"
    using assms(1) by (auto simp: us_holds_def us_source_load_def)
  show g: "gs = g # rest \<Longrightarrow> sr_queue (us_source_load s) = rest \<and> n < length (uf_data g) \<and>
       sr_frame (us_source_load s) = g \<and> sr_first (us_source_load s) = (n = 0) \<and>
       (sr_data (us_source_load s), sr_byte_en (us_source_load s), sr_parity (us_source_load s)) = left g n" for g rest
    using assms ok_words left_start data by (auto simp: us_holds_def us_source_load_def)
  show "us_holds left (us_source_load s) gs n"
    using assms(1) e g by (cases gs) (auto simp: us_holds_def)
qed

lemma put_next:
  assumes "us_holds left s gs n" "\<forall>g \<in> set gs. ok g" "\<not> sr_active s"
  shows "\<exists>s' w'. us_source_put beat pause (us_source_load s) w = Inr (s', w') \<and>
    (case gs of [] \<Rightarrow> s' = s \<and> w' = w
     | g # rest \<Rightarrow> sr_active s' \<and> us_on_wire lanes take_beat part g n w' \<and> us_after lanes left s' g n rest \<and>
         wr_valid w' = (\<not> pause))"
proof (cases gs)
  case Nil
  then show ?thesis using load_holds(3)[OF assms(1,2)] by (simp add: us_source_put_def)
next
  case (Cons g rest)
  let ?s = "us_source_load s"
  have g: "sr_queue ?s = rest" "n < length (uf_data g)" "sr_frame ?s = g" "sr_first ?s = (n = 0)"
    "(sr_data ?s, sr_byte_en ?s, sr_parity ?s) = left g n"
    using load_holds(4)[OF assms(1,2) Cons] by blast+
  have ok: "ok g" using assms(2) Cons by simp
  obtain b where b: "beat (n = 0) g (left g n) = Inr (left g (n + lanes), b)"
    "bt_keep b = mask (min lanes (length (uf_data g) - n))"
    "take_beat (n = 0) b (part g n) = part g (min (n + lanes) (length (uf_data g)))"
    using beat_law[OF ok g(2)] by blast
  obtain d e p where l: "left g (n + lanes) = (d, e, p)" by (cases "left g (n + lanes)")
  have d: "d = drop (n + lanes) (uf_data g)" using left_data[of g "n + lanes"] l by simp
  have "sr_data ?s = drop n (uf_data g)" using g(5) left_data[of g n] by (metis fst_conv)
  then have nd: "sr_data ?s \<noteq> []" using g(2) by simp
  have na: "\<not> sr_active ?s" using load_holds(2)[OF assms(1,2)] assms(3) by simp
  have pos: "0 < lanes" using ok_words[OF ok] by simp
  show ?thesis
    using nd na g b l d pos
    by (auto simp: Cons us_source_put_def us_on_wire_def us_after_def us_holds_def)
qed

text \<open>Words still to be sent of the first frame, and the frames behind it.\<close>

definition beats_left :: "us_frame list \<Rightarrow> nat \<Rightarrow> nat" where
  "beats_left gs m = (case gs of [] \<Rightarrow> 0 | g # rest \<Rightarrow> us_beats lanes (length (uf_data g) - m) + us_total lanes rest)"

lemma beats_left_simps [simp]:
  "beats_left gs 0 = us_total lanes gs"
  "beats_left (g # rest) m = us_beats lanes (length (uf_data g) - m) + us_total lanes rest"
  by (auto simp: beats_left_def split: list.split)

lemma put_inv:
  assumes "us_holds left s gs m" "\<forall>g \<in> set gs. ok g" "\<not> sr_active s" "\<not> wr_valid w" "gs = [] \<Longrightarrow> m = 0"
    and "sk_queue k = map (\<lambda>f. part f (length (uf_data f))) past" "sk_ready k" "sk_first k = (m = 0)"
    and "sk_frame k = (case gs of [] \<Rightarrow> us_frame_new | g # _ \<Rightarrow> part g m)"
  shows "\<exists>s' w'. us_source_put beat pause (us_source_load s) w = Inr (s', w') \<and>
    us_inv lanes take_beat left part (past @ gs) (beats_left gs m) (s', w', k) \<and> (gs \<noteq> [] \<longrightarrow> wr_valid w' = (\<not> pause))"
proof -
  obtain s' w' where p: "us_source_put beat pause (us_source_load s) w = Inr (s', w')"
    "case gs of [] \<Rightarrow> s' = s \<and> w' = w
     | g # rest \<Rightarrow> sr_active s' \<and> us_on_wire lanes take_beat part g m w' \<and> us_after lanes left s' g m rest \<and>
         wr_valid w' = (\<not> pause)"
    using put_next[OF assms(1-3)] by blast
  show ?thesis
  proof (cases gs)
    case Nil
    have "us_inv lanes take_beat left part (past @ gs) (beats_left gs m) (s', w', k)"
      unfolding us_inv_def prod.case
      by (intro exI[of _ past] exI[of _ "[]"]) (use p(2) assms Nil in simp)
    then show ?thesis using p(1) Nil by blast
  next
    case (Cons g rest)
    have "us_inv lanes take_beat left part (past @ gs) (beats_left gs m) (s', w', k)"
      unfolding us_inv_def prod.case
      by (intro exI[of _ past] exI[of _ rest]) (use p(2) assms(6-9) Cons in auto)
    then show ?thesis using p Cons by auto
  qed
qed

lemma step_idle:
  assumes "\<not> sr_active s" "\<not> wr_valid w" "us_holds left s gs 0" "\<forall>g \<in> set gs. ok g"
    and "sk_frame k = us_frame_new" "sk_first k" "sk_queue k = map (\<lambda>f. part f (length (uf_data f))) past"
  shows "\<exists>s' w' k'. us_source_step beat ps rdy s w = Inr (s', w') \<and>
    us_sink_step take_beat lanes pk w k = Inr k' \<and>
    us_inv lanes take_beat left part (past @ gs) (us_total lanes gs) (s', w', k') \<and> (gs \<noteq> [] \<longrightarrow> wr_valid w' = (\<not> ps))"
proof -
  let ?k = "k\<lparr>sk_ready := True\<rparr>" and ?w = "w\<lparr>wr_valid := False\<rparr>"
  have "sk_frame ?k = (case gs of [] \<Rightarrow> us_frame_new | g # _ \<Rightarrow> part g 0)"
    using assms(5) by (simp add: part_start split: list.split)
  then obtain s' w' where "us_source_put beat ps (us_source_load s) ?w = Inr (s', w')"
    "us_inv lanes take_beat left part (past @ gs) (us_total lanes gs) (s', w', ?k)" "gs \<noteq> [] \<longrightarrow> wr_valid w' = (\<not> ps)"
    using put_inv[of s gs 0 ?w ?k past ps] assms by auto
  then show ?thesis using assms(1,2) by (auto simp: us_source_step_def us_sink_step_def)
qed

lemma step_taken:
  assumes "us_on_wire lanes take_beat part f m w" "us_after lanes left s f m gs" "\<forall>g \<in> set (f # gs). ok g"
    and "sk_frame k = part f m" "sk_first k = (m = 0)" "sk_queue k = map (\<lambda>f. part f (length (uf_data f))) past"
    and "wr_valid w" "sk_ready k"
  shows "\<exists>s' w' k' n'. us_source_step beat ps True s w = Inr (s', w') \<and>
    us_sink_step take_beat lanes False w k = Inr k' \<and>
    us_inv lanes take_beat left part (past @ f # gs) n' (s', w', k') \<and>
    Suc n' = us_beats lanes (length (uf_data f) - m) + us_total lanes gs"
proof -
  have pos: "0 < lanes" using ok_words[of f] assms(3) by simp
  have wire: "m < length (uf_data f)" "bt_keep (wr_beat w) = mask (min lanes (length (uf_data f) - m))"
    "take_beat (m = 0) (wr_beat w) (part f m) = part f (min (m + lanes) (length (uf_data f)))"
    "wr_last w \<longleftrightarrow> length (uf_data f) \<le> m + lanes"
    using assms(1) by (simp_all add: us_on_wire_def)
  have keep: "us_keep_ok lanes (sk_first k) (wr_last w) (bt_keep (wr_beat w))"
    unfolding wire(2) using wire(1,4) pos by (intro us_keep_ok_mask) auto
  have n: "us_beats lanes (length (uf_data f) - m) = Suc (us_beats lanes (length (uf_data f) - (m + lanes)))"
    using us_beats_step[OF pos, of "length (uf_data f) - m"] wire(1) by simp
  let ?s = "s\<lparr>sr_active := False\<rparr>" and ?w = "w\<lparr>wr_valid := False\<rparr>"
  show ?thesis
  proof (cases "wr_last w")
    case True
    define k' where "k' = k\<lparr>sk_ready := True, sk_first := True, sk_frame := us_frame_new,
        sk_queue := sk_queue k @ [part f (length (uf_data f))]\<rparr>"
    have k': "us_sink_step take_beat lanes False w k = Inr k'"
      using keep assms(4,5,7) wire True by (simp add: us_sink_step_def k'_def min_absorb2)
    have "us_holds left ?s gs 0" using assms(2) wire(4) True by (simp add: us_after_def)
    moreover have "sk_frame k' = (case gs of [] \<Rightarrow> us_frame_new | g # _ \<Rightarrow> part g 0)"
      by (simp add: k'_def part_start split: list.split)
    ultimately obtain s' w' where "us_source_put beat ps (us_source_load ?s) ?w = Inr (s', w')"
      "us_inv lanes take_beat left part ((past @ [f]) @ gs) (us_total lanes gs) (s', w', k')"
      using put_inv[of ?s gs 0 ?w k' "past @ [f]" ps] assms(3,6) by (auto simp: k'_def)
    then show ?thesis
      using k' n wire(4) True assms(7) pos
      by (intro exI[of _ s'] exI[of _ w'] exI[of _ k'] exI[of _ "us_total lanes gs"])
         (simp add: us_source_step_def)
  next
    case False
    define k' where "k' = k\<lparr>sk_ready := True, sk_first := False, sk_frame := part f (m + lanes)\<rparr>"
    have k': "us_sink_step take_beat lanes False w k = Inr k'"
      using keep assms(4,5,7) wire False by (simp add: us_sink_step_def k'_def min_absorb1)
    have "us_holds left ?s (f # gs) (m + lanes)" using assms(2) wire(4) False by (simp add: us_after_def)
    then obtain s' w' where "us_source_put beat ps (us_source_load ?s) ?w = Inr (s', w')"
      "us_inv lanes take_beat left part (past @ f # gs) (beats_left (f # gs) (m + lanes)) (s', w', k')"
      using put_inv[of ?s "f # gs" "m + lanes" ?w k' past ps] assms(3,6) pos by (auto simp: k'_def)
    then show ?thesis
      using k' n assms(7)
      by (intro exI[of _ s'] exI[of _ w'] exI[of _ k'] exI[of _ "beats_left (f # gs) (m + lanes)"])
         (simp add: us_source_step_def)
  qed
qed

lemma step_held:
  assumes "sr_active s" "us_on_wire lanes take_beat part f m w" "us_after lanes left s f m gs" "\<forall>g \<in> set (f # gs). ok g"
    and "sk_frame k = part f m" "sk_first k = (m = 0)" "sk_queue k = map (\<lambda>f. part f (length (uf_data f))) past"
    and "\<not> wr_valid w \<or> pk"
  shows "\<exists>s' w' k'. us_source_step beat ps (r \<and> \<not> pk) s w = Inr (s', w') \<and>
    us_sink_step take_beat lanes pk w k = Inr k' \<and>
    us_inv lanes take_beat left part (past @ f # gs) (us_beats lanes (length (uf_data f) - m) + us_total lanes gs) (s', w', k') \<and>
    wr_valid w' = (wr_valid w \<or> \<not> ps)"
proof -
  let ?s = "us_source_load s" and ?w = "w\<lparr>wr_valid := wr_valid w \<or> \<not> ps\<rparr>" and ?k = "k\<lparr>sk_ready := True\<rparr>"
  have "us_after lanes left ?s f m gs"
    using assms(3,4) load_holds(1)[of s gs 0] load_holds(1)[of s "f # gs" "m + lanes"]
    by (simp add: us_after_def split: if_splits)
  moreover have a: "sr_active ?s" using assms(1) by (simp add: us_source_load_def split: list.split)
  ultimately have "us_inv lanes take_beat left part (past @ f # gs)
      (us_beats lanes (length (uf_data f) - m) + us_total lanes gs) (?s, ?w, ?k)"
    unfolding us_inv_def prod.case
    by (intro exI[of _ past] exI[of _ gs]) (use assms(2,5,6,7) in \<open>auto simp: us_on_wire_def\<close>)
  moreover have "us_source_step beat ps (r \<and> \<not> pk) s w = Inr (?s, ?w)"
    using assms(1,8) a by (auto simp: us_source_step_def us_source_put_def)
  moreover have "us_sink_step take_beat lanes pk w k = Inr ?k" using assms(8) by (auto simp: us_sink_step_def)
  ultimately show ?thesis by (intro exI conjI) (assumption, assumption, assumption, simp)
qed

lemma step:
  assumes "us_inv lanes take_beat left part fs n (s, w, k)" "\<forall>f \<in> set fs. ok f"
  shows "\<exists>s' w' k' n'. us_source_step beat ps (sk_ready k \<and> \<not> pk) s w = Inr (s', w') \<and>
    us_sink_step take_beat lanes pk w k = Inr k' \<and> us_inv lanes take_beat left part fs n' (s', w', k') \<and>
    us_measure n' (s', w', k') \<le> us_measure n (s, w, k) \<and>
    (\<not> ps \<and> \<not> pk \<and> 0 < n \<longrightarrow> us_measure n' (s', w', k') < us_measure n (s, w, k))"
proof -
  obtain past gs where i: "sk_queue k = map (\<lambda>f. part f (length (uf_data f))) past" "wr_valid w \<longrightarrow> sk_ready k"
    and c: "\<not> sr_active s \<and> \<not> wr_valid w \<and> us_holds left s gs 0 \<and> sk_frame k = us_frame_new \<and> sk_first k \<and>
          fs = past @ gs \<and> n = us_total lanes gs \<or>
        (\<exists>f m. sr_active s \<and> us_on_wire lanes take_beat part f m w \<and> us_after lanes left s f m gs \<and>
           sk_frame k = part f m \<and> sk_first k = (m = 0) \<and>
           fs = past @ f # gs \<and> n = us_beats lanes (length (uf_data f) - m) + us_total lanes gs)"
    using assms(1) unfolding us_inv_def by auto
  from c show ?thesis
  proof (elim disjE exE conjE)
    assume d: "\<not> sr_active s" "\<not> wr_valid w" "us_holds left s gs 0" "sk_frame k = us_frame_new" "sk_first k"
      "fs = past @ gs" "n = us_total lanes gs"
    have g: "\<forall>g \<in> set gs. ok g" using assms(2) d(6) by simp
    have "gs = [] \<Longrightarrow> n = 0" using d(7) by simp
    then show ?thesis using step_idle[OF d(1-3) g d(4,5) i(1), of ps "sk_ready k \<and> \<not> pk" pk] d
      by (fastforce simp: us_measure_def)
  next
    fix f m
    assume d: "sr_active s" "us_on_wire lanes take_beat part f m w" "us_after lanes left s f m gs"
      "sk_frame k = part f m" "sk_first k = (m = 0)"
      "fs = past @ f # gs" "n = us_beats lanes (length (uf_data f) - m) + us_total lanes gs"
    have g: "\<forall>g \<in> set (f # gs). ok g" using assms(2) d(6) by simp
    show ?thesis
    proof (cases "wr_valid w \<and> \<not> pk")
      case True
      then have v: "wr_valid w" "sk_ready k" "pk = False" using i(2) by auto
      obtain s' w' k' n' where "us_source_step beat ps True s w = Inr (s', w')"
        "us_sink_step take_beat lanes False w k = Inr k'"
        "us_inv lanes take_beat left part (past @ f # gs) n' (s', w', k')" "Suc n' = n"
        using step_taken[OF d(2,3) g d(4,5) i(1) v(1,2), of ps] d(7) by blast
      then show ?thesis using v d(6)
        by (intro exI[of _ s'] exI[of _ w'] exI[of _ k'] exI[of _ n']) (auto simp: us_measure_def)
    next
      case False
      obtain s' w' k' where "us_source_step beat ps (sk_ready k \<and> \<not> pk) s w = Inr (s', w')"
        "us_sink_step take_beat lanes pk w k = Inr k'"
        "us_inv lanes take_beat left part (past @ f # gs) n (s', w', k')" "wr_valid w' = (wr_valid w \<or> \<not> ps)"
        using step_held[OF d(1-3) g d(4,5) i(1), of pk ps "sk_ready k"] False d(7) by blast
      then show ?thesis using d(6) False
        by (intro exI[of _ s'] exI[of _ w'] exI[of _ k'] exI[of _ n]) (auto simp: us_measure_def)
    qed
  qed
qed

lemma send_inv:
  assumes "us_inv lanes take_beat left part fs n (s, w, k)"
  shows "us_inv lanes take_beat left part (fs @ gs) (n + us_total lanes gs) (fold us_send gs s, w, k)"
proof -
  have h: "us_holds left (fold us_send gs s) (hs @ gs) m" if "us_holds left s hs m" for hs m
    using that by (auto simp: us_holds_def fold_us_send)
  then have a: "us_after lanes left (fold us_send gs s) f m (hs @ gs)" if "us_after lanes left s f m hs" for f m hs
    using that h[of "f # hs"] by (auto simp: us_after_def split: if_splits)
  have act: "sr_active (fold us_send gs s) = sr_active s" by (simp add: fold_us_send)
  obtain past hs where i: "sk_queue k = map (\<lambda>f. part f (length (uf_data f))) past \<and> (wr_valid w \<longrightarrow> sk_ready k)"
    and c: "\<not> sr_active s \<and> \<not> wr_valid w \<and> us_holds left s hs 0 \<and> sk_frame k = us_frame_new \<and> sk_first k \<and>
          fs = past @ hs \<and> n = us_total lanes hs \<or>
        (\<exists>f m. sr_active s \<and> us_on_wire lanes take_beat part f m w \<and> us_after lanes left s f m hs \<and>
           sk_frame k = part f m \<and> sk_first k = (m = 0) \<and>
           fs = past @ f # hs \<and> n = us_beats lanes (length (uf_data f) - m) + us_total lanes hs)"
    using assms unfolding us_inv_def by auto
  have d: "\<not> sr_active (fold us_send gs s) \<and> \<not> wr_valid w \<and> us_holds left (fold us_send gs s) (hs @ gs) 0 \<and>
        sk_frame k = us_frame_new \<and> sk_first k \<and> fs @ gs = past @ hs @ gs \<and> n + us_total lanes gs = us_total lanes (hs @ gs) \<or>
      (\<exists>f m. sr_active (fold us_send gs s) \<and> us_on_wire lanes take_beat part f m w \<and>
        us_after lanes left (fold us_send gs s) f m (hs @ gs) \<and> sk_frame k = part f m \<and> sk_first k = (m = 0) \<and>
        fs @ gs = past @ f # hs @ gs \<and>
        n + us_total lanes gs = us_beats lanes (length (uf_data f) - m) + us_total lanes (hs @ gs))"
    using c
  proof (elim disjE exE conjE)
    fix f m
    assume "sr_active s" "us_on_wire lanes take_beat part f m w" "us_after lanes left s f m hs" "sk_frame k = part f m"
      "sk_first k = (m = 0)" "fs = past @ f # hs" "n = us_beats lanes (length (uf_data f) - m) + us_total lanes hs"
    then show ?thesis using a act by (intro disjI2 exI[of _ f] exI[of _ m]) simp
  qed (use h act in auto)
  show ?thesis
    unfolding us_inv_def prod.case
    by (intro exI[of _ past] exI[of _ "hs @ gs"] conjI) (use i d in simp_all)
qed

lemma edge:
  assumes "us_inv lanes take_beat left part fs n st" "\<forall>f \<in> set (fs @ gs). ok f"
  shows "\<exists>st' n'. us_pair_edge (us_source_step beat) (us_sink_step take_beat lanes) (gs, ps, pk) st = Inr st' \<and>
    us_inv lanes take_beat left part (fs @ gs) n' st' \<and>
    us_measure n' st' \<le> us_measure n st + 2 * us_total lanes gs \<and>
    (\<not> ps \<and> \<not> pk \<and> n' \<noteq> 0 \<longrightarrow> us_measure n' st' < us_measure n st + 2 * us_total lanes gs)"
proof -
  obtain s w k where st: "st = (s, w, k)" by (cases st)
  let ?s = "fold us_send gs s" and ?n = "n + us_total lanes gs"
  obtain s' w' k' n' where e: "us_source_step beat ps (sk_ready k \<and> \<not> pk) ?s w = Inr (s', w')"
    "us_sink_step take_beat lanes pk w k = Inr k'" "us_inv lanes take_beat left part (fs @ gs) n' (s', w', k')"
    "us_measure n' (s', w', k') \<le> us_measure ?n (?s, w, k)"
    "\<not> ps \<and> \<not> pk \<and> 0 < ?n \<longrightarrow> us_measure n' (s', w', k') < us_measure ?n (?s, w, k)"
    using step[OF send_inv[OF assms(1)[unfolded st], of gs] assms(2), of ps pk] by (elim exE conjE)
  have m: "us_measure ?n (?s, w, k) \<le> us_measure n st + 2 * us_total lanes gs"
    by (auto simp: us_measure_def st)
  have "us_measure n' (s', w', k') = 0" if "?n = 0" using e(4) that by (simp add: us_measure_def)
  then have "n' = 0" if "?n = 0" using that by (auto simp: us_measure_def split: if_splits)
  then have "\<not> ps \<and> \<not> pk \<and> n' \<noteq> 0 \<longrightarrow> us_measure n' (s', w', k') < us_measure n st + 2 * us_total lanes gs"
    using e(5) m by force
  then show ?thesis
    using e m by (intro exI[of _ "(s', w', k')"] exI[of _ n']) (simp add: us_pair_edge_def st)
qed

lemma inv_0:
  assumes "us_inv lanes take_beat left part fs n (s, w, k)" "\<forall>f \<in> set fs. ok f"
  shows "\<exists>past rest. fs = past @ rest \<and> sk_queue k = map (\<lambda>f. part f (length (uf_data f))) past \<and> (n = 0 \<longrightarrow> rest = [])"
proof -
  have beats: "us_beats lanes (length (uf_data f) - m) > 0" if "ok f" "m < length (uf_data f)" for f m
    using that us_beats_step[of lanes "length (uf_data f) - m"] ok_words[OF that(1)] by simp
  have total: "gs = []" if "us_total lanes gs = 0" "\<forall>g \<in> set gs. ok g" for gs
    using that beats[of "hd gs" 0] ok_words by (cases gs) auto
  obtain past gs where i: "sk_queue k = map (\<lambda>f. part f (length (uf_data f))) past"
    and c: "fs = past @ gs \<and> n = us_total lanes gs \<or>
        (\<exists>f m. m < length (uf_data f) \<and>
           fs = past @ f # gs \<and> n = us_beats lanes (length (uf_data f) - m) + us_total lanes gs)"
    using assms(1) unfolding us_inv_def us_on_wire_def prod.case by (elim exE conjE) (rule that, assumption, blast)
  from c show ?thesis
  proof (elim disjE exE conjE)
    assume "fs = past @ gs" "n = us_total lanes gs"
    then show ?thesis using i total[of gs] assms(2) by (intro exI[of _ past] exI[of _ gs]) auto
  next
    fix f m
    assume d: "m < length (uf_data f)" "fs = past @ f # gs" "n = us_beats lanes (length (uf_data f) - m) + us_total lanes gs"
    then have "n > 0" using beats[of f m] assms(2) by simp
    then show ?thesis using i d(2) by auto
  qed
qed

lemma run:
  assumes "us_inv lanes take_beat left part fs n st" "\<forall>f \<in> set (fs @ concat (map fst es)). ok f"
  shows "\<exists>st' n'. us_pair_run (us_source_step beat) (us_sink_step take_beat lanes) es st = Inr st' \<and>
    us_inv lanes take_beat left part (fs @ concat (map fst es)) n' st' \<and>
    us_measure n' st' \<le> us_measure n st + 2 * us_total lanes (concat (map fst es)) \<and>
    ((\<forall>e \<in> set es. fst e = []) \<longrightarrow> n' = 0 \<or> us_measure n' st' + length (filter (\<lambda>e. snd e = (False, False)) es) \<le> us_measure n st)"
  using assms
proof (induction es arbitrary: fs n st)
  case Nil
  then show ?case by auto
next
  case (Cons e es)
  obtain gs ps pk where e: "e = (gs, ps, pk)" by (cases e)
  have ok1: "\<forall>f \<in> set (fs @ gs). ok f" and ok2: "\<forall>f \<in> set ((fs @ gs) @ concat (map fst es)). ok f"
    using Cons.prems(2) by (auto simp: e)
  obtain st1 n1 where 1: "us_pair_edge (us_source_step beat) (us_sink_step take_beat lanes) (gs, ps, pk) st = Inr st1"
    "us_inv lanes take_beat left part (fs @ gs) n1 st1"
    "us_measure n1 st1 \<le> us_measure n st + 2 * us_total lanes gs"
    "\<not> ps \<and> \<not> pk \<and> n1 \<noteq> 0 \<longrightarrow> us_measure n1 st1 < us_measure n st + 2 * us_total lanes gs"
    using edge[OF Cons.prems(1) ok1, of ps pk] by (elim exE conjE)
  obtain st2 n2 where 2: "us_pair_run (us_source_step beat) (us_sink_step take_beat lanes) es st1 = Inr st2"
    "us_inv lanes take_beat left part ((fs @ gs) @ concat (map fst es)) n2 st2"
    "us_measure n2 st2 \<le> us_measure n1 st1 + 2 * us_total lanes (concat (map fst es))"
    "(\<forall>e \<in> set es. fst e = []) \<longrightarrow> n2 = 0 \<or> us_measure n2 st2 + length (filter (\<lambda>e. snd e = (False, False)) es) \<le> us_measure n1 st1"
    using Cons.IH[OF 1(2) ok2] by (elim exE conjE)
  have "n2 = 0 \<or> us_measure n2 st2 + length (filter (\<lambda>e. snd e = (False, False)) (e # es)) \<le> us_measure n st"
    if q: "\<forall>e \<in> set (e # es). fst e = []"
  proof (cases "n1 = 0")
    case True
    then have "us_measure n1 st1 = 0" by (simp add: us_measure_def)
    moreover have "us_total lanes (concat (map fst es)) = us_total lanes []" by (rule arg_cong[of _ "[]"]) (use q in simp)
    ultimately have "us_measure n2 st2 = 0" using 2(3) by simp
    then show ?thesis by (auto simp: us_measure_def split: if_splits)
  next
    case False
    then show ?thesis using q 1(3,4) 2(4) e by auto
  qed
  then show ?case using 1 2 by (intro exI[of _ st2] exI[of _ n2]) (simp add: e)
qed

lemma new_inv: "us_inv lanes take_beat left part [] 0 us_pair_new"
  unfolding us_inv_def us_pair_new_def us_source_reset_def prod.case
  by (intro exI[of _ "[]"]) (simp add: us_source_new_def us_sink_reset_def us_sink_new_def us_holds_def)

lemma safe:
  assumes "\<forall>f \<in> set (concat (map fst es)). ok f"
  shows "\<exists>s w k past rest. us_pair_run (us_source_step beat) (us_sink_step take_beat lanes) es us_pair_new = Inr (s, w, k) \<and>
    concat (map fst es) = past @ rest \<and> sk_queue k = map (\<lambda>f. part f (length (uf_data f))) past"
proof -
  obtain st n where r: "us_pair_run (us_source_step beat) (us_sink_step take_beat lanes) es us_pair_new = Inr st"
    "us_inv lanes take_beat left part (concat (map fst es)) n st"
    using run[OF new_inv, of es] assms by auto
  obtain s w k where st: "st = (s, w, k)" by (cases st)
  show ?thesis using inv_0[OF r(2)[unfolded st] assms] r(1) st by blast
qed

lemma delivers:
  assumes "\<forall>f \<in> set (concat (map fst es)). ok f" "\<forall>e \<in> set ds. fst e = []"
    and "2 * us_total lanes (concat (map fst es)) \<le> length (filter (\<lambda>e. snd e = (False, False)) ds)"
  shows "\<exists>s w k. us_pair_run (us_source_step beat) (us_sink_step take_beat lanes) (es @ ds) us_pair_new = Inr (s, w, k) \<and>
    sk_queue k = map (\<lambda>f. part f (length (uf_data f))) (concat (map fst es))"
proof -
  have measure_0: "us_measure 0 x = 0" for x by (simp add: us_measure_def)
  obtain st n where r: "us_pair_run (us_source_step beat) (us_sink_step take_beat lanes) es us_pair_new = Inr st"
    "us_inv lanes take_beat left part (concat (map fst es)) n st"
    "us_measure n st \<le> 2 * us_total lanes (concat (map fst es))"
    using run[OF new_inv, of es] assms(1) measure_0 by auto
  have d: "concat (map fst ds) = []" using assms(2) by simp
  obtain st' n' where r': "us_pair_run (us_source_step beat) (us_sink_step take_beat lanes) ds st = Inr st'"
    "us_inv lanes take_beat left part (concat (map fst es)) n' st'"
    "n' = 0 \<or> us_measure n' st' + length (filter (\<lambda>e. snd e = (False, False)) ds) \<le> us_measure n st"
    using run[OF r(2), of ds] assms(1,2) d by auto
  obtain s w k where st: "st' = (s, w, k)" by (cases st')
  have "us_pair_run src snk (xs @ ys) x = bindE (us_pair_run src snk xs x) (us_pair_run src snk ys)" for src snk xs ys x
    by (induction xs arbitrary: x) (simp_all add: bindE_assoc cong: bindE_cong)
  then have "us_pair_run (us_source_step beat) (us_sink_step take_beat lanes) (es @ ds) us_pair_new = Inr (s, w, k)"
    using r(1) r'(1) st by simp
  moreover have "n' = 0" using r'(3) r(3) assms(3) by (cases n') (auto simp: us_measure_def split: if_splits)
  ultimately show ?thesis using inv_0[OF r'(2)[unfolded st] assms(1)] by auto
qed

end

section \<open>The four interfaces\<close>

text \<open>What the side signal carries of a frame besides its words, and the frame a sink has after
  \<open>m\<close> words.\<close>

definition cc_head :: "us_frame \<Rightarrow> us_frame" where
  "cc_head f = us_frame_new\<lparr>uf_discontinue := uf_discontinue f\<rparr>"

definition cq_head :: "us_frame \<Rightarrow> us_frame" where
  "cq_head f = (cc_head f)\<lparr>uf_first_be := uf_first_be f AND 0xf, uf_last_be := uf_last_be f AND 0xf\<rparr>"

definition rq_head :: "us_bus \<Rightarrow> us_frame \<Rightarrow> us_frame" where
  "rq_head u f = (cq_head f)\<lparr>uf_seq_num :=
     uf_seq_num f AND (if bw_data u = 512 \<or> bw_user u = 62 then 0x3f else 0xf)\<rparr>"

definition us_part :: "nat option \<Rightarrow> (us_frame \<Rightarrow> us_frame) \<Rightarrow> us_frame \<Rightarrow> nat \<Rightarrow> us_frame" where
  "us_part bo head f m = (if m = 0 then us_frame_new
     else (head f)\<lparr>uf_data := take m (uf_data f), uf_byte_en := us_opt bo (take m (uf_byte_en f)),
       uf_parity := take m (uf_parity f)\<rparr>)"

text \<open>The bits of \<open>tuser\<close> that belong to no lane.\<close>

definition us_outside :: "nat option \<Rightarrow> nat \<Rightarrow> nat \<Rightarrow> nat \<Rightarrow> bool" where
  "us_outside bo po n j \<longleftrightarrow> (j < po \<or> po + 4 * n \<le> j) \<and> (case bo of None \<Rightarrow> True | Some k \<Rightarrow> j < k \<or> k + 4 * n \<le> j)"

text \<open>One layout: the markers \<open>h\<close> of a beat keep clear of the lanes and fit, and the sink reads
  the head of the frame from them.\<close>

definition us_layout :: "us_bus \<Rightarrow> nat option \<Rightarrow> nat \<Rightarrow> (us_frame \<Rightarrow> us_frame) \<Rightarrow> (us_beat \<Rightarrow> us_frame \<Rightarrow> us_frame) \<Rightarrow>
    us_frame \<Rightarrow> nat \<Rightarrow> int \<Rightarrow> bool" where
  "us_layout u bo po head tk f m h \<longleftrightarrow>
     fits (bw_user u) h \<and> po + 4 * bw_keep u \<le> bw_user u \<and> (\<forall>j. \<not> us_outside bo po (bw_keep u) j \<longrightarrow> \<not> bit h j) \<and>
     (case bo of None \<Rightarrow> True | Some k \<Rightarrow> k + 4 * bw_keep u \<le> po) \<and>
     (\<forall>b. (\<forall>j. us_outside bo po (bw_keep u) j \<longrightarrow> bit (bt_user b) j = bit h j) \<longrightarrow>
       tk b (us_part bo head f m) = (head f)\<lparr>uf_data := take m (uf_data f),
         uf_byte_en := us_opt bo (take m (uf_byte_en f)), uf_parity := take m (uf_parity f)\<rparr>)"

lemma us_part_beat:
  assumes ok: "us_words_ok (bo \<noteq> None) f" "m < length (uf_data f)" "us_width_ok u"
    and h: "us_layout u bo po head tk f m
      (u0 OR fin (length (uf_data f) \<le> m + bw_keep u) (min (bw_keep u) (length (uf_data f) - m) - 1))"
  shows "\<exists>b. us_beat_of u bo po u0 fin (us_left bo f m) = Inr (us_left bo f (m + bw_keep u), b) \<and>
    bt_keep b = mask (min (bw_keep u) (length (uf_data f) - m)) \<and>
    us_take_lanes u bo po b (tk b (us_part bo head f m)) = us_part bo head f (min (m + bw_keep u) (length (uf_data f)))"
proof -
  define h where "h = u0 OR fin (length (uf_data f) \<le> m + bw_keep u) (min (bw_keep u) (length (uf_data f) - m) - 1)"
  have l: "fits (bw_user u) h" "po + 4 * bw_keep u \<le> bw_user u" "bits_clear h po (po + 4 * bw_keep u)"
    "\<And>k. bo = Some k \<Longrightarrow> bits_clear h k (k + 4 * bw_keep u) \<and> k + 4 * bw_keep u \<le> po"
    using h[folded h_def] by (auto simp: us_layout_def us_outside_def bits_clear_def)
  obtain b where b: "us_beat_of u bo po u0 fin (us_left bo f m) = Inr (us_left bo f (m + bw_keep u), b)"
    "bt_keep b = mask (min (bw_keep u) (length (uf_data f) - m))"
    "\<And>g. us_take_lanes u bo po b g = g\<lparr>uf_data := uf_data g @ take (bw_keep u) (drop m (uf_data f)),
       uf_byte_en := uf_byte_en g @ us_opt bo (take (bw_keep u) (drop m (uf_byte_en f))),
       uf_parity := uf_parity g @ take (bw_keep u) (drop m (uf_parity f))\<rparr>"
    "\<And>j. j < po \<or> po + 4 * bw_keep u \<le> j \<Longrightarrow> (\<And>k. bo = Some k \<Longrightarrow> j < k \<or> k + 4 * bw_keep u \<le> j) \<Longrightarrow>
       bit (bt_user b) j \<longleftrightarrow> bit h j"
    by (rule us_beat_law[where bo = bo and po = po and u = u and ?u0.0 = u0 and fin = fin and h = h,
        OF ok h_def l(3,4,1,2)]) (assumption, (rule that; blast))
  have "bit (bt_user b) j = bit h j" if "us_outside bo po (bw_keep u) j" for j
    using that by (intro b(4)) (auto simp: us_outside_def)
  then have tk: "tk b (us_part bo head f m) = (head f)\<lparr>uf_data := take m (uf_data f),
         uf_byte_en := us_opt bo (take m (uf_byte_en f)), uf_parity := take m (uf_parity f)\<rparr>"
    using h[folded h_def] unfolding us_layout_def by blast
  have len: "length (uf_parity f) = length (uf_data f)" "bo = Some k \<Longrightarrow> length (uf_byte_en f) = length (uf_data f)" for k
    using ok(1) by (auto simp: us_words_ok_def)
  have n: "0 < min (m + bw_keep u) (length (uf_data f))" using ok(2,3) by (auto simp: us_width_ok_def)
  have t: "take m xs @ take (bw_keep u) (drop m xs) = take (min (m + bw_keep u) (length (uf_data f))) xs"
    if "length xs = length (uf_data f)" for xs :: "int list"
    using that by (simp add: take_add[symmetric] min_def)
  have o: "us_opt bo (take m (uf_byte_en f)) @ us_opt bo (take (bw_keep u) (drop m (uf_byte_en f))) =
      us_opt bo (take (min (m + bw_keep u) (length (uf_data f))) (uf_byte_en f))"
    using t[of "uf_byte_en f"] len(2) by (cases bo) (simp_all add: us_opt_def)
  have part: "us_part bo head f k = (head f)\<lparr>uf_data := take k (uf_data f), uf_byte_en := us_opt bo (take k (uf_byte_en f)),
       uf_parity := take k (uf_parity f)\<rparr>" if "0 < k" for k
    using that by (simp add: us_part_def)
  have "us_take_lanes u bo po b (tk b (us_part bo head f m)) = us_part bo head f (min (m + bw_keep u) (length (uf_data f)))"
    unfolding b(3) tk part[OF n] using o t[OF refl] t[OF len(1)] by simp
  then show ?thesis using b(1,2) by blast
qed

text \<open>Bits of the markers.\<close>

lemma bit_small: "bit (x AND 0xf) j \<longleftrightarrow> bit x j \<and> j < 4" "bit (x AND 0x3f) j \<longleftrightarrow> bit x j \<and> j < 6"
  "bit (x AND 0x3) j \<longleftrightarrow> bit x j \<and> j < 2" for x :: int
  by (auto simp: and_masks bit_take_bit_iff)

lemmas us_bits = bit_small bit_or_iff bit_push_bit_iff bit_flag bit_1_iff bit_0_eq bot_apply if_distrib[of "\<lambda>x. bit x _"]

lemma lane_bit: "bit (int l) j \<Longrightarrow> l < 16 \<Longrightarrow> j < 4"
  by (rule ccontr) (use fits_bit_high[of 4 "int l" j] in \<open>auto simp: fits_def\<close>)

lemma fits_small [simp]: "4 \<le> n \<Longrightarrow> fits n (x AND 0xf)" "6 \<le> n \<Longrightarrow> fits n (x AND 0x3f)" "2 \<le> n \<Longrightarrow> fits n (x AND 0x3)"
  by (simp_all add: and_masks fits_take_bit_le)

lemma fits_one [simp]: "0 < n \<Longrightarrow> fits n 1" "fits n 0" "k < n \<Longrightarrow> fits n (flag k b)"
  by (auto simp: fits_def flag_def push_bit_of_1 power_strict_increasing intro: one_less_power)

lemma flag_True: "flag k True = push_bit k 1"
  by (simp add: flag_def)

lemma fits_numeral [simp]: "numeral k < (2 :: int) ^ n \<Longrightarrow> fits n (numeral k)"
  by (simp add: fits_def)

lemma fits_lane: "l < 16 \<Longrightarrow> 4 \<le> n \<Longrightarrow> fits n (int l)"
  using fits_mono[of 4 "int l" n] by (simp add: fits_def)

lemma us_width_lanes: "us_width_ok u \<Longrightarrow> bw_keep u = bw_data u div 32 \<and> 0 < bw_keep u \<and> bw_keep u \<le> 16 \<and>
    (bw_data u \<noteq> 512 \<longrightarrow> bw_keep u \<le> 8)"
  by (auto simp: us_width_ok_def)

lemma lane_bound: "us_width_ok u \<Longrightarrow> min (bw_keep u) k - 1 < 16 \<and> (bw_data u \<noteq> 512 \<longrightarrow> min (bw_keep u) k - 1 < 8)"
  using us_width_lanes[of u] by auto

lemma us_left_some: "us_left (Some k) = us_left (Some 0)"
  by (auto simp: us_left_def opt_drop_def fun_eq_iff)

lemma us_part_some: "us_part (Some k) = us_part (Some 0)"
  by (auto simp: us_part_def us_opt_def fun_eq_iff)

lemma nibble_of: "(\<And>j. j < 4 \<Longrightarrow> bit u (k + j) \<longleftrightarrow> bit x j) \<Longrightarrow> drop_bit k u AND 0xf = x AND 0xf" for u x :: int
  by (rule nibble_eq) (auto simp: bit_small)

lemmas us_tk = us_take_disc_def us_take_first_def us_part_def rq_head_def cq_head_def cc_head_def us_frame_new_def us_opt_def

lemma no_fin_eq: "no_fin = (\<lambda>e l. 0)"
  by (simp add: no_fin_def fun_eq_iff)

lemma eof_bits: "push_bit 34 (1 OR push_bit 1 (int l)) = push_bit 34 1 OR push_bit 35 (int l)"
  by (rule bit_eqI) (auto simp: bit_simps Suc_le_eq)

lemma pair_of: "(\<And>j. j < 2 \<Longrightarrow> bit u (k + j) \<longleftrightarrow> bit x j) \<Longrightarrow> drop_bit k u AND 0x3 = x AND 0x3" for u x :: int
  using field_eq[of 2 "x AND 0x3" u k] by (simp add: bit_small)

lemma seq_split: "(x AND 0xf) OR push_bit 4 (drop_bit 4 x AND 0x3) = x AND 0x3f" for x :: int
proof (rule bit_eqI)
  fix j show "bit ((x AND 0xf) OR push_bit 4 (drop_bit 4 x AND 0x3)) j = bit (x AND 0x3f) j"
    by (cases "j < 4") (auto simp: us_bits bit_drop_bit_eq)
qed

lemma seq_of: "(\<And>j. j < 6 \<Longrightarrow> bit u (k + j) \<longleftrightarrow> bit x j) \<Longrightarrow> drop_bit k u AND 0x3f = x AND 0x3f" for u x :: int
  using field_eq[of 6 "x AND 0x3f" u k] by (simp add: bit_small)

lemma cq_beat_wide:
  assumes "cq_bus_ok u" "us_words_ok True f" "m < length (uf_data f)" "bw_data u = 512"
  shows "\<exists>b. cq_beat u (m = 0) f (us_left (Some 0) f m) = Inr (us_left (Some 0) f (m + bw_keep u), b) \<and>
    bt_keep b = mask (min (bw_keep u) (length (uf_data f) - m)) \<and>
    cq_take u (m = 0) b (us_part (Some 0) cq_head f m) = us_part (Some 0) cq_head f (min (m + bw_keep u) (length (uf_data f)))"
proof -
  have u: "us_width_ok u" "bw_user u = 183" "bw_keep u = 16"
    using assms(1,4) by (auto simp: cq_bus_ok_def us_width_ok_def)
  have lane: "min (bw_keep u) (length (uf_data f) - m) - 1 < 16" using u(3) by auto
  define u0 where "u0 = (if m = 0 then (uf_first_be f AND 0xf) OR push_bit 8 (uf_last_be f AND 0xf) OR flag 80 True else 0) OR flag 96 (uf_discontinue f)"
  define fin where "fin = (\<lambda>(e :: bool) (l :: nat). (if e then flag 86 True OR push_bit 88 (int l AND 0xf) else 0 :: int))"
  define h where "h = u0 OR fin (length (uf_data f) \<le> m + bw_keep u) (min (bw_keep u) (length (uf_data f) - m) - 1)"
  note hb = h_def u0_def fin_def us_bits us_outside_def
  have ok: "us_words_ok (Some (16 :: nat) \<noteq> None) f" using assms(2) by simp
  have L: "us_layout u (Some 16) 119 cq_head (\<lambda>b g. us_take_disc 96 b (us_take_first 8 (m = 0) b g)) f m h"
    unfolding us_layout_def u option.case
  proof (intro conjI allI impI)
    show "fits 183 h" unfolding h_def u0_def fin_def using u lane
      by (auto intro!: fits_or fits_push_bit fits_lane)
    show "(119 :: nat) + 4 * 16 \<le> 183" using u by auto
    show "\<not> us_outside (Some 16) 119 16 j \<Longrightarrow> \<not> bit h j" for j using u(3) lane by (auto simp: hb dest: lane_bit)
    fix b :: us_beat assume b: "\<forall>j. us_outside (Some 16) 119 16 j \<longrightarrow> bit (bt_user b) j = bit h j"
    have c0: "bit (bt_user b) 96 = uf_discontinue f" using b[rule_format, of 96] u(3) lane by (auto simp: hb dest: lane_bit)
    have c1: "drop_bit 0 (bt_user b) AND 0xf = uf_first_be f AND 0xf" if "m = 0"
      by (rule nibble_of) (use b u(3) that in \<open>auto simp: hb\<close>)
    have c2: "drop_bit 8 (bt_user b) AND 0xf = uf_last_be f AND 0xf" if "m = 0"
      by (rule nibble_of) (use b u(3) that in \<open>auto simp: hb\<close>)
    show "us_take_disc 96 b (us_take_first 8 (m = 0) b (us_part (Some 16) cq_head f m)) =
      (cq_head f)\<lparr>uf_data := take m (uf_data f), uf_byte_en := us_opt (Some 16) (take m (uf_byte_en f)),
        uf_parity := take m (uf_parity f)\<rparr>"
      using c0 c1 c2 by (cases "m = 0") (auto simp: us_tk)
  qed (use u(3) in simp)
  moreover have "cq_beat u (m = 0) f ls = us_beat_of u (Some 16) 119 u0 fin ls" for ls
    by (simp only: cq_beat_def assms(4) refl simp_thms if_True u0_def fin_def flag_True)
  moreover have "cq_take u (m = 0) b g = us_take_lanes u (Some 16) 119 b (us_take_disc 96 b (us_take_first 8 (m = 0) b g))" for b g
    using assms(4) by (simp add: cq_take_def)
  ultimately show ?thesis
    using us_part_beat[where ?u0.0 = u0 and fin = fin, OF ok assms(3) u(1) L[unfolded h_def]]
    by (simp add: us_left_some[of 16] us_part_some[of 16])
qed

lemma cq_beat_narrow:
  assumes "cq_bus_ok u" "us_words_ok True f" "m < length (uf_data f)" "bw_data u \<noteq> 512"
  shows "\<exists>b. cq_beat u (m = 0) f (us_left (Some 0) f m) = Inr (us_left (Some 0) f (m + bw_keep u), b) \<and>
    bt_keep b = mask (min (bw_keep u) (length (uf_data f) - m)) \<and>
    cq_take u (m = 0) b (us_part (Some 0) cq_head f m) = us_part (Some 0) cq_head f (min (m + bw_keep u) (length (uf_data f)))"
proof -
  have u: "us_width_ok u" "bw_user u \<in> {85, 88}" "bw_keep u \<le> 8"
    using assms(1,4) by (auto simp: cq_bus_ok_def us_width_ok_def)
  have lane: "min (bw_keep u) (length (uf_data f) - m) - 1 < 16" using u(3) by auto
  define u0 where "u0 = (if m = 0 then (uf_first_be f AND 0xf) OR push_bit 4 (uf_last_be f AND 0xf) OR flag 40 True else 0) OR flag 41 (uf_discontinue f)"
  define fin where "fin = (\<lambda>(e :: bool) (l :: nat). (0 :: int))"
  define h where "h = u0 OR fin (length (uf_data f) \<le> m + bw_keep u) (min (bw_keep u) (length (uf_data f) - m) - 1)"
  note hb = h_def u0_def fin_def us_bits us_outside_def
  have ok: "us_words_ok (Some (8 :: nat) \<noteq> None) f" using assms(2) by simp
  have L: "us_layout u (Some 8) 53 cq_head (\<lambda>b g. us_take_disc 41 b (us_take_first 4 (m = 0) b g)) f m h"
    unfolding us_layout_def option.case
  proof (intro conjI allI impI)
    show "fits (bw_user u) h" unfolding h_def u0_def fin_def using u lane
      by (auto intro!: fits_or fits_push_bit fits_lane)
    show "(53 :: nat) + 4 * (bw_keep u) \<le> bw_user u" using u by auto
    show "\<not> us_outside (Some 8) 53 (bw_keep u) j \<Longrightarrow> \<not> bit h j" for j using u(3) lane by (auto simp: hb dest: lane_bit)
    fix b :: us_beat assume b: "\<forall>j. us_outside (Some 8) 53 (bw_keep u) j \<longrightarrow> bit (bt_user b) j = bit h j"
    have c0: "bit (bt_user b) 41 = uf_discontinue f" using b[rule_format, of 41] u(3) lane by (auto simp: hb dest: lane_bit)
    have c1: "drop_bit 0 (bt_user b) AND 0xf = uf_first_be f AND 0xf" if "m = 0"
      by (rule nibble_of) (use b u(3) that in \<open>auto simp: hb\<close>)
    have c2: "drop_bit 4 (bt_user b) AND 0xf = uf_last_be f AND 0xf" if "m = 0"
      by (rule nibble_of) (use b u(3) that in \<open>auto simp: hb\<close>)
    show "us_take_disc 41 b (us_take_first 4 (m = 0) b (us_part (Some 8) cq_head f m)) =
      (cq_head f)\<lparr>uf_data := take m (uf_data f), uf_byte_en := us_opt (Some 8) (take m (uf_byte_en f)),
        uf_parity := take m (uf_parity f)\<rparr>"
      using c0 c1 c2 by (cases "m = 0") (auto simp: us_tk)
  qed (use u(3) in simp)
  moreover have "cq_beat u (m = 0) f ls = us_beat_of u (Some 8) 53 u0 fin ls" for ls
    by (simp only: cq_beat_def assms(4) refl simp_thms if_False u0_def fin_def flag_True no_fin_eq)
  moreover have "cq_take u (m = 0) b g = us_take_lanes u (Some 8) 53 b (us_take_disc 41 b (us_take_first 4 (m = 0) b g))" for b g
    using assms(4) by (simp add: cq_take_def)
  ultimately show ?thesis
    using us_part_beat[where ?u0.0 = u0 and fin = fin, OF ok assms(3) u(1) L[unfolded h_def]]
    by (simp add: us_left_some[of 8] us_part_some[of 8])
qed

lemma cq_beat_law:
  assumes "cq_bus_ok u" "us_words_ok True f" "m < length (uf_data f)"
  shows "\<exists>b. cq_beat u (m = 0) f (us_left (Some 0) f m) = Inr (us_left (Some 0) f (m + bw_keep u), b) \<and>
    bt_keep b = mask (min (bw_keep u) (length (uf_data f) - m)) \<and>
    cq_take u (m = 0) b (us_part (Some 0) cq_head f m) = us_part (Some 0) cq_head f (min (m + bw_keep u) (length (uf_data f)))"
  using cq_beat_wide[OF assms] cq_beat_narrow[OF assms] by blast

lemma cc_beat_wide:
  assumes "cc_bus_ok u" "us_words_ok False f" "m < length (uf_data f)" "bw_data u = 512"
  shows "\<exists>b. cc_beat u (m = 0) f (us_left None f m) = Inr (us_left None f (m + bw_keep u), b) \<and>
    bt_keep b = mask (min (bw_keep u) (length (uf_data f) - m)) \<and>
    cc_take u (m = 0) b (us_part None cc_head f m) = us_part None cc_head f (min (m + bw_keep u) (length (uf_data f)))"
proof -
  have u: "us_width_ok u" "bw_user u = 81" "bw_keep u = 16"
    using assms(1,4) by (auto simp: cc_bus_ok_def us_width_ok_def)
  have lane: "min (bw_keep u) (length (uf_data f) - m) - 1 < 16" using u(3) by auto
  define u0 where "u0 = (if m = 0 then 1 else 0) OR flag 16 (uf_discontinue f)"
  define fin where "fin = (\<lambda>(e :: bool) (l :: nat). (if e then flag 6 True OR push_bit 8 (int l AND 0xf) else 0 :: int))"
  define h where "h = u0 OR fin (length (uf_data f) \<le> m + bw_keep u) (min (bw_keep u) (length (uf_data f) - m) - 1)"
  note hb = h_def u0_def fin_def us_bits us_outside_def
  have ok: "us_words_ok ((None :: nat option) \<noteq> None) f" using assms(2) by simp
  have L: "us_layout u None 17 cc_head (\<lambda>b g. us_take_disc 16 b g) f m h"
    unfolding us_layout_def u option.case
  proof (intro conjI allI impI)
    show "fits 81 h" unfolding h_def u0_def fin_def using u lane
      by (auto intro!: fits_or fits_push_bit fits_lane)
    show "(17 :: nat) + 4 * 16 \<le> 81" using u by auto
    show "\<not> us_outside None 17 16 j \<Longrightarrow> \<not> bit h j" for j using u(3) lane by (auto simp: hb dest: lane_bit)
    fix b :: us_beat assume b: "\<forall>j. us_outside None 17 16 j \<longrightarrow> bit (bt_user b) j = bit h j"
    have c0: "bit (bt_user b) 16 = uf_discontinue f" using b[rule_format, of 16] u(3) lane by (auto simp: hb dest: lane_bit)
    show "us_take_disc 16 b (us_part None cc_head f m) =
      (cc_head f)\<lparr>uf_data := take m (uf_data f), uf_byte_en := us_opt None (take m (uf_byte_en f)),
        uf_parity := take m (uf_parity f)\<rparr>"
      using c0 by (cases "m = 0") (auto simp: us_tk)
  qed simp
  moreover have "cc_beat u (m = 0) f ls = us_beat_of u None 17 u0 fin ls" for ls
    by (simp only: cc_beat_def assms(4) refl simp_thms if_True u0_def fin_def flag_True)
  moreover have "cc_take u (m = 0) b g = us_take_lanes u None 17 b (us_take_disc 16 b g)" for b g
    using assms(4) by (simp add: cc_take_def)
  ultimately show ?thesis
    using us_part_beat[where ?u0.0 = u0 and fin = fin, OF ok assms(3) u(1) L[unfolded h_def]]
    by simp
qed

lemma cc_beat_narrow:
  assumes "cc_bus_ok u" "us_words_ok False f" "m < length (uf_data f)" "bw_data u \<noteq> 512"
  shows "\<exists>b. cc_beat u (m = 0) f (us_left None f m) = Inr (us_left None f (m + bw_keep u), b) \<and>
    bt_keep b = mask (min (bw_keep u) (length (uf_data f) - m)) \<and>
    cc_take u (m = 0) b (us_part None cc_head f m) = us_part None cc_head f (min (m + bw_keep u) (length (uf_data f)))"
proof -
  have u: "us_width_ok u" "bw_user u \<in> {33}" "bw_keep u \<le> 8"
    using assms(1,4) by (auto simp: cc_bus_ok_def us_width_ok_def)
  have lane: "min (bw_keep u) (length (uf_data f) - m) - 1 < 16" using u(3) by auto
  define u0 where "u0 = flag 0 (uf_discontinue f)"
  define fin where "fin = (\<lambda>(e :: bool) (l :: nat). (0 :: int))"
  define h where "h = u0 OR fin (length (uf_data f) \<le> m + bw_keep u) (min (bw_keep u) (length (uf_data f) - m) - 1)"
  note hb = h_def u0_def fin_def us_bits us_outside_def
  have ok: "us_words_ok ((None :: nat option) \<noteq> None) f" using assms(2) by simp
  have L: "us_layout u None 1 cc_head (\<lambda>b g. us_take_disc 0 b g) f m h"
    unfolding us_layout_def option.case
  proof (intro conjI allI impI)
    show "fits (bw_user u) h" unfolding h_def u0_def fin_def using u lane
      by (auto intro!: fits_or fits_push_bit fits_lane)
    show "(1 :: nat) + 4 * (bw_keep u) \<le> bw_user u" using u by auto
    show "\<not> us_outside None 1 (bw_keep u) j \<Longrightarrow> \<not> bit h j" for j using u(3) lane by (auto simp: hb dest: lane_bit)
    fix b :: us_beat assume b: "\<forall>j. us_outside None 1 (bw_keep u) j \<longrightarrow> bit (bt_user b) j = bit h j"
    have c0: "bit (bt_user b) 0 = uf_discontinue f" using b[rule_format, of 0] u(3) lane by (auto simp: hb dest: lane_bit)
    show "us_take_disc 0 b (us_part None cc_head f m) =
      (cc_head f)\<lparr>uf_data := take m (uf_data f), uf_byte_en := us_opt None (take m (uf_byte_en f)),
        uf_parity := take m (uf_parity f)\<rparr>"
      using c0 by (cases "m = 0") (auto simp: us_tk)
  qed simp
  moreover have "cc_beat u (m = 0) f ls = us_beat_of u None 1 u0 fin ls" for ls
    by (simp only: cc_beat_def assms(4) refl simp_thms if_False u0_def fin_def flag_True no_fin_eq)
  moreover have "cc_take u (m = 0) b g = us_take_lanes u None 1 b (us_take_disc 0 b g)" for b g
    using assms(4) by (simp add: cc_take_def)
  ultimately show ?thesis
    using us_part_beat[where ?u0.0 = u0 and fin = fin, OF ok assms(3) u(1) L[unfolded h_def]]
    by simp
qed

lemma cc_beat_law:
  assumes "cc_bus_ok u" "us_words_ok False f" "m < length (uf_data f)"
  shows "\<exists>b. cc_beat u (m = 0) f (us_left None f m) = Inr (us_left None f (m + bw_keep u), b) \<and>
    bt_keep b = mask (min (bw_keep u) (length (uf_data f) - m)) \<and>
    cc_take u (m = 0) b (us_part None cc_head f m) = us_part None cc_head f (min (m + bw_keep u) (length (uf_data f)))"
  using cc_beat_wide[OF assms] cc_beat_narrow[OF assms] by blast

lemma rq_beat_wide:
  assumes "rq_bus_ok u" "us_words_ok False f" "m < length (uf_data f)" "bw_data u = 512"
  shows "\<exists>b. rq_beat u (m = 0) f (us_left None f m) = Inr (us_left None f (m + bw_keep u), b) \<and>
    bt_keep b = mask (min (bw_keep u) (length (uf_data f) - m)) \<and>
    rq_take u (m = 0) b (us_part None (rq_head u) f m) = us_part None (rq_head u) f (min (m + bw_keep u) (length (uf_data f)))"
proof -
  have u: "us_width_ok u" "bw_user u = 137" "bw_keep u = 16"
    using assms(1,4) by (auto simp: rq_bus_ok_def us_width_ok_def)
  have lane: "min (bw_keep u) (length (uf_data f) - m) - 1 < 16" using u(3) by auto
  define u0 where "u0 = (if m = 0 then (uf_first_be f AND 0xf) OR push_bit 8 (uf_last_be f AND 0xf) OR flag 20 True else 0) OR flag 36 (uf_discontinue f) OR push_bit 61 (uf_seq_num f AND 0x3f)"
  define fin where "fin = (\<lambda>(e :: bool) (l :: nat). (if e then flag 26 True OR push_bit 28 (int l AND 0xf) else 0 :: int))"
  define h where "h = u0 OR fin (length (uf_data f) \<le> m + bw_keep u) (min (bw_keep u) (length (uf_data f) - m) - 1)"
  note hb = h_def u0_def fin_def us_bits us_outside_def
  have ok: "us_words_ok ((None :: nat option) \<noteq> None) f" using assms(2) by simp
  have L: "us_layout u None 73 (rq_head u) (\<lambda>b g. (us_take_disc 36 b (us_take_first 8 (m = 0) b g))\<lparr>uf_seq_num := drop_bit 61 (bt_user b) AND 0x3f\<rparr>) f m h"
    unfolding us_layout_def u option.case
  proof (intro conjI allI impI)
    show "fits 137 h" unfolding h_def u0_def fin_def using u lane
      by (auto intro!: fits_or fits_push_bit fits_lane)
    show "(73 :: nat) + 4 * 16 \<le> 137" using u by auto
    show "\<not> us_outside None 73 16 j \<Longrightarrow> \<not> bit h j" for j using u(3) lane by (auto simp: hb dest: lane_bit)
    fix b :: us_beat assume b: "\<forall>j. us_outside None 73 16 j \<longrightarrow> bit (bt_user b) j = bit h j"
    have c0: "bit (bt_user b) 36 = uf_discontinue f" using b[rule_format, of 36] u(3) lane by (auto simp: hb dest: lane_bit)
    have c1: "drop_bit 0 (bt_user b) AND 0xf = uf_first_be f AND 0xf" if "m = 0"
      by (rule nibble_of) (use b u(3) that in \<open>auto simp: hb\<close>)
    have c2: "drop_bit 8 (bt_user b) AND 0xf = uf_last_be f AND 0xf" if "m = 0"
      by (rule nibble_of) (use b u(3) that in \<open>auto simp: hb\<close>)
    have c3: "drop_bit 61 (bt_user b) AND 0x3f = uf_seq_num f AND 0x3f"
      by (rule seq_of) (use b u(3) in \<open>auto simp: hb\<close>)
    show "(us_take_disc 36 b (us_take_first 8 (m = 0) b (us_part None (rq_head u) f m)))\<lparr>uf_seq_num := drop_bit 61 (bt_user b) AND 0x3f\<rparr> =
      (rq_head u f)\<lparr>uf_data := take m (uf_data f), uf_byte_en := us_opt None (take m (uf_byte_en f)),
        uf_parity := take m (uf_parity f)\<rparr>"
      using c0 c1 c2 c3 by (cases "m = 0") (auto simp: us_tk assms(4))
  qed simp
  moreover have "rq_beat u (m = 0) f ls = us_beat_of u None 73 u0 fin ls" for ls
    by (simp only: rq_beat_def assms(4) refl simp_thms if_True u0_def fin_def flag_True)
  moreover have "rq_take u (m = 0) b g = us_take_lanes u None 73 b ((us_take_disc 36 b (us_take_first 8 (m = 0) b g))\<lparr>uf_seq_num := drop_bit 61 (bt_user b) AND 0x3f\<rparr>)" for b g
    using assms(4) by (simp add: rq_take_def)
  ultimately show ?thesis
    using us_part_beat[where ?u0.0 = u0 and fin = fin, OF ok assms(3) u(1) L[unfolded h_def]]
    by simp
qed

lemma rq_beat_narrow:
  assumes "rq_bus_ok u" "us_words_ok False f" "m < length (uf_data f)" "bw_data u \<noteq> 512"
  shows "\<exists>b. rq_beat u (m = 0) f (us_left None f m) = Inr (us_left None f (m + bw_keep u), b) \<and>
    bt_keep b = mask (min (bw_keep u) (length (uf_data f) - m)) \<and>
    rq_take u (m = 0) b (us_part None (rq_head u) f m) = us_part None (rq_head u) f (min (m + bw_keep u) (length (uf_data f)))"
proof -
  have u: "us_width_ok u" "bw_user u \<in> {60, 62}" "bw_keep u \<le> 8"
    using assms(1,4) by (auto simp: rq_bus_ok_def us_width_ok_def)
  have lane: "min (bw_keep u) (length (uf_data f) - m) - 1 < 16" using u(3) by auto
  define u0 where "u0 = (if m = 0 then (uf_first_be f AND 0xf) OR push_bit 4 (uf_last_be f AND 0xf) else 0) OR flag 11 (uf_discontinue f) OR push_bit 24 (uf_seq_num f AND 0xf) OR
      (if bw_user u = 62 then push_bit 60 (drop_bit 4 (uf_seq_num f) AND 0x3) else 0)"
  define fin where "fin = (\<lambda>(e :: bool) (l :: nat). (0 :: int))"
  define h where "h = u0 OR fin (length (uf_data f) \<le> m + bw_keep u) (min (bw_keep u) (length (uf_data f) - m) - 1)"
  note hb = h_def u0_def fin_def us_bits us_outside_def
  have ok: "us_words_ok ((None :: nat option) \<noteq> None) f" using assms(2) by simp
  have L: "us_layout u None 28 (rq_head u) (\<lambda>b g. (us_take_disc 11 b (us_take_first 4 (m = 0) b g))\<lparr>uf_seq_num := (drop_bit 24 (bt_user b) AND 0xf) OR
        (if bw_user u = 62 then push_bit 4 (drop_bit 60 (bt_user b) AND 0x3) else 0)\<rparr>) f m h"
    unfolding us_layout_def option.case
  proof (intro conjI allI impI)
    show "fits (bw_user u) h" unfolding h_def u0_def fin_def using u lane
      by (auto intro!: fits_or fits_push_bit fits_lane)
    show "(28 :: nat) + 4 * (bw_keep u) \<le> bw_user u" using u by auto
    show "\<not> us_outside None 28 (bw_keep u) j \<Longrightarrow> \<not> bit h j" for j using u(3) lane by (auto simp: hb dest: lane_bit)
    fix b :: us_beat assume b: "\<forall>j. us_outside None 28 (bw_keep u) j \<longrightarrow> bit (bt_user b) j = bit h j"
    have c0: "bit (bt_user b) 11 = uf_discontinue f" using b[rule_format, of 11] u(3) lane by (auto simp: hb dest: lane_bit)
    have c1: "drop_bit 0 (bt_user b) AND 0xf = uf_first_be f AND 0xf" if "m = 0"
      by (rule nibble_of) (use b u(3) that in \<open>auto simp: hb\<close>)
    have c2: "drop_bit 4 (bt_user b) AND 0xf = uf_last_be f AND 0xf" if "m = 0"
      by (rule nibble_of) (use b u(3) that in \<open>auto simp: hb\<close>)
    have c3: "(drop_bit 24 (bt_user b) AND 0xf) OR
        (if bw_user u = 62 then push_bit 4 (drop_bit 60 (bt_user b) AND 0x3) else 0) =
        uf_seq_num f AND (if bw_user u = 62 then 0x3f else 0xf)"
    proof -
      have "drop_bit 24 (bt_user b) AND 0xf = uf_seq_num f AND 0xf"
        by (rule nibble_of) (use b u(2,3) in \<open>auto simp: hb\<close>)
      moreover have "drop_bit 60 (bt_user b) AND 0x3 = drop_bit 4 (uf_seq_num f) AND 0x3" if "bw_user u = 62"
        by (rule pair_of) (use b u(3) that in \<open>auto simp: hb bit_drop_bit_eq\<close>)
      ultimately show ?thesis by (simp add: seq_split)
    qed
    show "(us_take_disc 11 b (us_take_first 4 (m = 0) b (us_part None (rq_head u) f m)))\<lparr>uf_seq_num := (drop_bit 24 (bt_user b) AND 0xf) OR
        (if bw_user u = 62 then push_bit 4 (drop_bit 60 (bt_user b) AND 0x3) else 0)\<rparr> =
      (rq_head u f)\<lparr>uf_data := take m (uf_data f), uf_byte_en := us_opt None (take m (uf_byte_en f)),
        uf_parity := take m (uf_parity f)\<rparr>"
      using c0 c1 c2 c3 by (cases "m = 0") (auto simp: us_tk assms(4))
  qed simp
  moreover have "rq_beat u (m = 0) f ls = us_beat_of u None 28 u0 fin ls" for ls
    by (simp only: rq_beat_def assms(4) refl simp_thms if_False u0_def fin_def flag_True no_fin_eq)
  moreover have "rq_take u (m = 0) b g = us_take_lanes u None 28 b ((us_take_disc 11 b (us_take_first 4 (m = 0) b g))\<lparr>uf_seq_num := (drop_bit 24 (bt_user b) AND 0xf) OR
        (if bw_user u = 62 then push_bit 4 (drop_bit 60 (bt_user b) AND 0x3) else 0)\<rparr>)" for b g
    using assms(4) by (simp add: rq_take_def)
  ultimately show ?thesis
    using us_part_beat[where ?u0.0 = u0 and fin = fin, OF ok assms(3) u(1) L[unfolded h_def]]
    by simp
qed

lemma rq_beat_law:
  assumes "rq_bus_ok u" "us_words_ok False f" "m < length (uf_data f)"
  shows "\<exists>b. rq_beat u (m = 0) f (us_left None f m) = Inr (us_left None f (m + bw_keep u), b) \<and>
    bt_keep b = mask (min (bw_keep u) (length (uf_data f) - m)) \<and>
    rq_take u (m = 0) b (us_part None (rq_head u) f m) = us_part None (rq_head u) f (min (m + bw_keep u) (length (uf_data f)))"
  using rq_beat_wide[OF assms] rq_beat_narrow[OF assms] by blast

lemma rc_beat_wide:
  assumes "rc_bus_ok u" "us_words_ok True f" "m < length (uf_data f)" "bw_data u = 512"
  shows "\<exists>b. rc_beat u (m = 0) f (us_left (Some 0) f m) = Inr (us_left (Some 0) f (m + bw_keep u), b) \<and>
    bt_keep b = mask (min (bw_keep u) (length (uf_data f) - m)) \<and>
    rc_take u (m = 0) b (us_part (Some 0) cc_head f m) = us_part (Some 0) cc_head f (min (m + bw_keep u) (length (uf_data f)))"
proof -
  have u: "us_width_ok u" "bw_user u = 161" "bw_keep u = 16"
    using assms(1,4) by (auto simp: rc_bus_ok_def us_width_ok_def)
  have lane: "min (bw_keep u) (length (uf_data f) - m) - 1 < 16" using u(3) by auto
  define u0 where "u0 = (if m = 0 then flag 64 True else 0) OR flag 96 (uf_discontinue f)"
  define fin where "fin = (\<lambda>(e :: bool) (l :: nat). (if e then flag 76 True OR push_bit 80 (int l) else 0 :: int))"
  define h where "h = u0 OR fin (length (uf_data f) \<le> m + bw_keep u) (min (bw_keep u) (length (uf_data f) - m) - 1)"
  note hb = h_def u0_def fin_def us_bits us_outside_def
  have ok: "us_words_ok (Some (0 :: nat) \<noteq> None) f" using assms(2) by simp
  have L: "us_layout u (Some 0) 97 cc_head (\<lambda>b g. us_take_disc 96 b g) f m h"
    unfolding us_layout_def u option.case
  proof (intro conjI allI impI)
    show "fits 161 h" unfolding h_def u0_def fin_def using u lane
      by (auto intro!: fits_or fits_push_bit fits_lane)
    show "(97 :: nat) + 4 * 16 \<le> 161" using u by auto
    show "\<not> us_outside (Some 0) 97 16 j \<Longrightarrow> \<not> bit h j" for j using u(3) lane by (auto simp: hb dest: lane_bit)
    fix b :: us_beat assume b: "\<forall>j. us_outside (Some 0) 97 16 j \<longrightarrow> bit (bt_user b) j = bit h j"
    have c0: "bit (bt_user b) 96 = uf_discontinue f" using b[rule_format, of 96] u(3) lane by (auto simp: hb dest: lane_bit)
    show "us_take_disc 96 b (us_part (Some 0) cc_head f m) =
      (cc_head f)\<lparr>uf_data := take m (uf_data f), uf_byte_en := us_opt (Some 0) (take m (uf_byte_en f)),
        uf_parity := take m (uf_parity f)\<rparr>"
      using c0 by (cases "m = 0") (auto simp: us_tk)
  qed (use u(3) in simp)
  moreover have "rc_beat u (m = 0) f ls = us_beat_of u (Some 0) 97 u0 fin ls" for ls
    by (simp only: rc_beat_def assms(4) refl simp_thms if_True u0_def fin_def flag_True)
  moreover have "rc_take u (m = 0) b g = us_take_lanes u (Some 0) 97 b (us_take_disc 96 b g)" for b g
    using assms(4) by (simp add: rc_take_def)
  ultimately show ?thesis
    using us_part_beat[where ?u0.0 = u0 and fin = fin, OF ok assms(3) u(1) L[unfolded h_def]]
    by simp
qed

lemma rc_beat_narrow:
  assumes "rc_bus_ok u" "us_words_ok True f" "m < length (uf_data f)" "bw_data u \<noteq> 512"
  shows "\<exists>b. rc_beat u (m = 0) f (us_left (Some 0) f m) = Inr (us_left (Some 0) f (m + bw_keep u), b) \<and>
    bt_keep b = mask (min (bw_keep u) (length (uf_data f) - m)) \<and>
    rc_take u (m = 0) b (us_part (Some 0) cc_head f m) = us_part (Some 0) cc_head f (min (m + bw_keep u) (length (uf_data f)))"
proof -
  have u: "us_width_ok u" "bw_user u \<in> {75}" "bw_keep u \<le> 8"
    using assms(1,4) by (auto simp: rc_bus_ok_def us_width_ok_def)
  have lane: "min (bw_keep u) (length (uf_data f) - m) - 1 < 16" using u(3) by auto
  define u0 where "u0 = (if m = 0 then flag 32 True else 0) OR flag 42 (uf_discontinue f)"
  define fin where "fin = (\<lambda>(e :: bool) (l :: nat). (if e then flag 34 True OR push_bit 35 (int l) else 0 :: int))"
  define h where "h = u0 OR fin (length (uf_data f) \<le> m + bw_keep u) (min (bw_keep u) (length (uf_data f) - m) - 1)"
  note hb = h_def u0_def fin_def us_bits us_outside_def
  have ok: "us_words_ok (Some (0 :: nat) \<noteq> None) f" using assms(2) by simp
  have L: "us_layout u (Some 0) 43 cc_head (\<lambda>b g. us_take_disc 42 b g) f m h"
    unfolding us_layout_def option.case
  proof (intro conjI allI impI)
    show "fits (bw_user u) h" unfolding h_def u0_def fin_def using u lane
      by (auto intro!: fits_or fits_push_bit fits_lane)
    show "(43 :: nat) + 4 * (bw_keep u) \<le> bw_user u" using u by auto
    show "\<not> us_outside (Some 0) 43 (bw_keep u) j \<Longrightarrow> \<not> bit h j" for j using u(3) lane by (auto simp: hb dest: lane_bit)
    fix b :: us_beat assume b: "\<forall>j. us_outside (Some 0) 43 (bw_keep u) j \<longrightarrow> bit (bt_user b) j = bit h j"
    have c0: "bit (bt_user b) 42 = uf_discontinue f" using b[rule_format, of 42] u(3) lane by (auto simp: hb dest: lane_bit)
    show "us_take_disc 42 b (us_part (Some 0) cc_head f m) =
      (cc_head f)\<lparr>uf_data := take m (uf_data f), uf_byte_en := us_opt (Some 0) (take m (uf_byte_en f)),
        uf_parity := take m (uf_parity f)\<rparr>"
      using c0 by (cases "m = 0") (auto simp: us_tk)
  qed (use u(3) in simp)
  moreover have "rc_beat u (m = 0) f ls = us_beat_of u (Some 0) 43 u0 fin ls" for ls
    by (simp only: rc_beat_def assms(4) refl simp_thms if_False u0_def fin_def flag_True eof_bits)
  moreover have "rc_take u (m = 0) b g = us_take_lanes u (Some 0) 43 b (us_take_disc 42 b g)" for b g
    using assms(4) by (simp add: rc_take_def)
  ultimately show ?thesis
    using us_part_beat[where ?u0.0 = u0 and fin = fin, OF ok assms(3) u(1) L[unfolded h_def]]
    by simp
qed

lemma rc_beat_law:
  assumes "rc_bus_ok u" "us_words_ok True f" "m < length (uf_data f)"
  shows "\<exists>b. rc_beat u (m = 0) f (us_left (Some 0) f m) = Inr (us_left (Some 0) f (m + bw_keep u), b) \<and>
    bt_keep b = mask (min (bw_keep u) (length (uf_data f) - m)) \<and>
    rc_take u (m = 0) b (us_part (Some 0) cc_head f m) = us_part (Some 0) cc_head f (min (m + bw_keep u) (length (uf_data f)))"
  using rc_beat_wide[OF assms] rc_beat_narrow[OF assms] by blast

lemma us_left_data: "fst (us_left bo f m) = drop m (uf_data f)"
  by (simp add: us_left_def)

lemma us_left_0: "us_left bo f 0 = (uf_data f, uf_byte_en f, uf_parity f)"
  by (simp add: us_left_def opt_drop_def split: option.split)

lemma us_part_0: "us_part bo head f 0 = us_frame_new"
  by (simp add: us_part_def)

lemma us_ok_words: "us_width_ok u \<Longrightarrow> us_words_ok b f \<Longrightarrow> 0 < bw_keep u \<and> uf_data f \<noteq> []"
  using us_width_lanes[of u] by (simp add: us_words_ok_def)

text \<open>The interface by name.\<close>

datatype us_kind = CQ | CC | RQ | RC

definition us_bus_ok :: "us_kind \<Rightarrow> us_bus \<Rightarrow> bool" where
  "us_bus_ok k = (case k of CQ \<Rightarrow> cq_bus_ok | CC \<Rightarrow> cc_bus_ok | RQ \<Rightarrow> rq_bus_ok | RC \<Rightarrow> rc_bus_ok)"

definition us_run :: "us_kind \<Rightarrow> us_bus \<Rightarrow> us_edge list \<Rightarrow> us_pair result" where
  "us_run k u es = (case k of
     CQ \<Rightarrow> us_pair_run (cq_source_step u) (cq_sink_step u) es us_pair_new
   | CC \<Rightarrow> us_pair_run (cc_source_step u) (cc_sink_step u) es us_pair_new
   | RQ \<Rightarrow> us_pair_run (rq_source_step u) (rq_sink_step u) es us_pair_new
   | RC \<Rightarrow> us_pair_run (rc_source_step u) (rc_sink_step u) es us_pair_new)"

definition us_frame_ok :: "us_kind \<Rightarrow> us_frame \<Rightarrow> bool" where
  "us_frame_ok k = us_words_ok (k = CQ \<or> k = RC)"

text \<open>What the sink makes of a frame: the fields the interface has.\<close>

definition us_seen :: "us_kind \<Rightarrow> us_bus \<Rightarrow> us_frame \<Rightarrow> us_frame" where
  "us_seen k u f =
     (case k of CQ \<Rightarrow> cq_head f | CC \<Rightarrow> cc_head f | RQ \<Rightarrow> rq_head u f | RC \<Rightarrow> cc_head f)
       \<lparr>uf_data := uf_data f, uf_byte_en := if k = CQ \<or> k = RC then uf_byte_en f else [], uf_parity := uf_parity f\<rparr>"

text \<open>What the classes of an interface put on its bus and take from it; the four give one locale.\<close>

definition kind_beat :: "us_kind \<Rightarrow> us_bus \<Rightarrow> bool \<Rightarrow> us_frame \<Rightarrow> us_lists \<Rightarrow> (us_lists \<times> us_beat) result" where
  "kind_beat k = (case k of CQ \<Rightarrow> cq_beat | CC \<Rightarrow> cc_beat | RQ \<Rightarrow> rq_beat | RC \<Rightarrow> rc_beat)"

definition kind_take :: "us_kind \<Rightarrow> us_bus \<Rightarrow> bool \<Rightarrow> us_beat \<Rightarrow> us_frame \<Rightarrow> us_frame" where
  "kind_take k = (case k of CQ \<Rightarrow> cq_take | CC \<Rightarrow> cc_take | RQ \<Rightarrow> rq_take | RC \<Rightarrow> rc_take)"

definition kind_head :: "us_kind \<Rightarrow> us_bus \<Rightarrow> us_frame \<Rightarrow> us_frame" where
  "kind_head k u = (case k of CQ \<Rightarrow> cq_head | CC \<Rightarrow> cc_head | RQ \<Rightarrow> rq_head u | RC \<Rightarrow> cc_head)"

definition kind_be :: "us_kind \<Rightarrow> nat option" where
  "kind_be k = (if k = CQ \<or> k = RC then Some 0 else None)"

lemmas kind_defs = kind_beat_def kind_take_def kind_head_def kind_be_def us_bus_ok_def us_frame_ok_def

lemma us_run_eq: "us_run k u es =
    us_pair_run (us_source_step (kind_beat k u)) (us_sink_step (kind_take k u) (bw_keep u)) es us_pair_new"
  by (cases k) (simp_all add: us_run_def kind_defs cq_source_step_def cq_sink_step_def cc_source_step_def
      cc_sink_step_def rq_source_step_def rq_sink_step_def rc_source_step_def rc_sink_step_def)

lemma us_bus_width: "us_bus_ok k u \<Longrightarrow> us_width_ok u"
  by (cases k) (simp_all add: us_bus_ok_def cq_bus_ok_def cc_bus_ok_def rq_bus_ok_def rc_bus_ok_def)

lemma kind_beat_law:
  assumes "us_bus_ok k u" "us_frame_ok k f" "m < length (uf_data f)"
  shows "\<exists>b. kind_beat k u (m = 0) f (us_left (kind_be k) f m) = Inr (us_left (kind_be k) f (m + bw_keep u), b) \<and>
    bt_keep b = mask (min (bw_keep u) (length (uf_data f) - m)) \<and>
    kind_take k u (m = 0) b (us_part (kind_be k) (kind_head k u) f m) =
      us_part (kind_be k) (kind_head k u) f (min (m + bw_keep u) (length (uf_data f)))"
  using assms cq_beat_law[of u f m] cc_beat_law[of u f m] rq_beat_law[of u f m] rc_beat_law[of u f m]
  by (cases k) (simp_all add: kind_defs)

interpretation us: us_stream "bw_keep u" "kind_beat k u" "kind_take k u" "\<lambda>f. us_bus_ok k u \<and> us_frame_ok k f"
  "us_left (kind_be k)" "us_part (kind_be k) (kind_head k u)" for k u
proof
  show "us_bus_ok k u \<and> us_frame_ok k f \<Longrightarrow> 0 < bw_keep u \<and> uf_data f \<noteq> []" for f
    using us_ok_words us_bus_width unfolding us_frame_ok_def by blast
qed (auto simp: us_left_data us_left_0 us_part_0 intro: kind_beat_law)

lemma us_part_seen:
  assumes "us_frame_ok k f"
  shows "us_part (kind_be k) (kind_head k u) f (length (uf_data f)) = us_seen k u f"
  using assms by (cases k) (auto simp: us_part_def us_words_ok_def us_opt_def us_seen_def kind_defs)

lemma us_part_map: "\<forall>f \<in> set fs. us_frame_ok k f \<Longrightarrow>
    map (\<lambda>f. us_part (kind_be k) (kind_head k u) f (length (uf_data f))) fs = map (us_seen k u) fs"
  by (simp add: us_part_seen)

lemma us_run_safe:
  assumes "us_bus_ok k u" "\<forall>f \<in> set (concat (map fst es)). us_frame_ok k f"
  shows "\<exists>s w sk past rest. us_run k u es = Inr (s, w, sk) \<and> concat (map fst es) = past @ rest \<and>
    sk_queue sk = map (us_seen k u) past"
proof -
  obtain s w sk past rest where r: "us_run k u es = Inr (s, w, sk)" "concat (map fst es) = past @ rest"
    "sk_queue sk = map (\<lambda>f. us_part (kind_be k) (kind_head k u) f (length (uf_data f))) past"
    using us.safe[of es k u] assms unfolding us_run_eq by blast
  have "\<forall>f \<in> set past. us_frame_ok k f" using assms(2) unfolding r(2) by simp
  then show ?thesis using r us_part_map[of past k u] by metis
qed

text \<open>A bus of the core is safe under every schedule. On each of the four interfaces and
  for each legal width, whatever well-formed frames are sent at whichever edges, and whenever the
  source or the sink is paused, no check of the sink fails, no value overflows its signal and
  nothing raises; at any time the frames in the sink's queue are the first ones sent, in order,
  each once, with the words, byte enables, parity, markers and sequence number the interface has.\<close>

theorem us_link_safe:
  assumes "us_bus_ok k u" "\<forall>f \<in> set (concat (map fst es)). us_frame_ok k f"
  shows "\<exists>s w sk past rest. us_run k u es = Inr (s, w, sk) \<and> concat (map fst es) = past @ rest \<and>
    sk_queue sk = map (us_seen k u) past"
  by (rule us_run_safe[OF assms])

lemma us_run_delivers:
  assumes "us_bus_ok k u" "\<forall>f \<in> set (concat (map fst es)). us_frame_ok k f" "\<forall>e \<in> set ds. fst e = []"
    and "2 * us_total (bw_keep u) (concat (map fst es)) \<le> length (filter (\<lambda>e. snd e = (False, False)) ds)"
  shows "\<exists>s w sk. us_run k u (es @ ds) = Inr (s, w, sk) \<and> sk_queue sk = map (us_seen k u) (concat (map fst es))"
  using us.delivers[of es k u ds] assms unfolding us_run_eq us_part_map[OF assms(2)] by blast

text \<open>A bus of the core delivers. Once nothing more is sent, all frames have arrived as
  soon as two cycles without a pause have passed for each beat, \<open>ceil(len / lanes)\<close> of them for a
  frame, however the paused cycles are spread.\<close>

theorem us_link_delivers:
  assumes "us_bus_ok k u" "\<forall>f \<in> set (concat (map fst es)). us_frame_ok k f" "\<forall>e \<in> set ds. fst e = []"
    and "2 * sum_list (map (\<lambda>f. (length (uf_data f) + bw_keep u - 1) div bw_keep u) (concat (map fst es)))
      \<le> length (filter (\<lambda>e. snd e = (False, False)) ds)"
  shows "\<exists>s w sk. us_run k u (es @ ds) = Inr (s, w, sk) \<and> sk_queue sk = map (us_seen k u) (concat (map fst es))"
  using us_run_delivers[OF assms(1-3)] assms(4) by (simp add: us_total_def us_beats_def)

section \<open>Packets over a bus\<close>

definition us_pack :: "us_kind \<Rightarrow> tlp_us \<Rightarrow> us_frame result" where
  "us_pack k = (case k of CQ \<Rightarrow> pack_us_cq | CC \<Rightarrow> pack_us_cc | RQ \<Rightarrow> pack_us_rq | RC \<Rightarrow> pack_us_rc)"

definition us_unpack :: "us_kind \<Rightarrow> bool \<Rightarrow> tlp_us \<Rightarrow> us_frame \<Rightarrow> tlp_us result" where
  "us_unpack k = (case k of CQ \<Rightarrow> unpack_us_cq | CC \<Rightarrow> unpack_us_cc | RQ \<Rightarrow> unpack_us_rq | RC \<Rightarrow> unpack_us_rc)"

definition us_image :: "us_kind \<Rightarrow> tlp_us \<Rightarrow> tlp_us" where
  "us_image k = (case k of CQ \<Rightarrow> cq_image | CC \<Rightarrow> cc_image | RQ \<Rightarrow> rq_image | RC \<Rightarrow> rc_image)"

text \<open>The packets an interface carries: their payload are words, byte enables have four bits and a
  sequence number as many as the side signal has for it.\<close>

definition us_pkt_ok :: "us_kind \<Rightarrow> us_bus \<Rightarrow> tlp_us \<Rightarrow> bool" where
  "us_pkt_ok k u t \<longleftrightarrow> list_all (fits 32) (tlp_data t) \<and>
     (case k of
        CQ \<Rightarrow> cq_ok t \<and> fits 4 (tlp_first_be t) \<and> fits 4 (tlp_last_be t)
      | CC \<Rightarrow> cc_ok t
      | RQ \<Rightarrow> rq_ok t \<and> fits 4 (tlp_first_be t) \<and> fits 4 (tlp_last_be t) \<and>
          fits (if bw_data u = 512 \<or> bw_user u = 62 then 6 else 4) (us_seq_num t)
      | RC \<Rightarrow> rc_ok t)"

lemmas word_fits = fits_or fits_push_bit fits_take_bit_le fits_mono[OF fits_id_to_int] fits_one(3)

lemma us_req_word_fits: "fits 32 (us_req_word t)"
  unfolding us_req_word_def masks by (intro word_fits fits_mono[OF us_req_code_fits]) simp_all

lemma us_cpl_word_fits: "fits 32 (us_cpl_word t)"
  unfolding us_cpl_word_def masks by (intro word_fits) simp_all

lemma us_addr_words_fit: "list_all (fits 32) (us_addr_words t)"
  unfolding us_addr_words_def and_high_mask masks by (simp, intro conjI word_fits) simp_all

lemma us_byte_en_fits: "fits 4 a \<Longrightarrow> fits 4 b \<Longrightarrow> list_all (fits 4) (us_byte_en pad n a b)"
  by (auto simp: us_byte_en_def list_all_iff)

lemma nibble_fits: "fits 4 (x AND 0xf)" "fits 4 (drop_bit j 0xf :: int)" "fits 4 x \<Longrightarrow> fits 4 (x AND y)" for x y :: int
proof -
  show "fits 4 (x AND 0xf)" by simp
  show "fits 4 (drop_bit j 0xf :: int)"
    unfolding fits_iff_take_bit by (rule bit_eqI) (simp only: bit_take_bit_iff bit_drop_bit_eq bit_nibble comp_def, linarith)
  show "fits 4 x \<Longrightarrow> fits 4 (x AND y)"
    unfolding fits_iff_take_bit by (metis and.assoc and.commute take_bit_eq_mask)
qed

lemma rc_byte_en_fits: "list_all (fits 4) (rc_byte_en la bc len n)"
  unfolding rc_byte_en_def Let_def by (intro us_byte_en_fits) (simp_all add: nibble_fits)

lemma packed_words_ok:
  assumes "list_all (fits 32) (uf_data g)" "uf_data g \<noteq> []"
    and "has_be \<Longrightarrow> length (uf_byte_en g) = length (uf_data g) \<and> list_all (fits 4) (uf_byte_en g)"
  shows "us_words_ok has_be (update_parity g)"
  using assms parity_nibble by (simp add: us_words_ok_def) (simp add: update_parity_def list_all_iff)

lemma cq_packed:
  assumes "us_pkt_ok CQ u t" "pack_us_cq t = Inr f"
  shows "us_frame_ok CQ f" "us_seen CQ u f = f"
proof -
  have ok: "list_all (fits 32) (tlp_data t)" "us_mem_io (us_fmt_type t)" "fits 4 (tlp_first_be t)" "fits 4 (tlp_last_be t)"
    using assms(1) by (simp_all add: us_pkt_ok_def cq_ok_def)
  define w where "w = (tlp_tag t AND 0xff) OR push_bit 8 (pid_function (tlp_completer_id t) AND 0xff) OR
      push_bit 16 (us_bar_id t AND 0x7) OR push_bit 19 (us_bar_aperture t AND 0x3f) OR
      push_bit 25 (tlp_tc t AND 0x7) OR push_bit 28 (tlp_attr t AND 0x7)"
  have w: "fits 32 w" unfolding w_def masks by (intro word_fits) simp_all
  define g where "g = us_frame_new\<lparr>uf_data := us_addr_words t @ [us_req_word t, w] @ tlp_data t,
      uf_byte_en := us_byte_en 4 (length (tlp_data t)) (tlp_first_be t) (tlp_last_be t),
      uf_first_be := tlp_first_be t, uf_last_be := tlp_last_be t, uf_discontinue := us_discontinue t\<rparr>"
  have f: "f = update_parity g"
    using assms(2) ok(2) unfolding pack_us_cq_def w_def[symmetric] g_def by simp
  have "length (us_addr_words t) = 2" by (simp add: us_addr_words_def)
  then show "us_frame_ok CQ f"
    unfolding f us_frame_ok_def using ok w us_addr_words_fit us_req_word_fits
    by (intro packed_words_ok) (simp_all add: g_def us_byte_en_length us_byte_en_fits)
  show "us_seen CQ u f = f"
    unfolding f using ok(3,4)
    by (intro us_frame.equality) (simp_all add: us_seen_def us_tk g_def update_parity_def masks)
qed

lemma rq_packed:
  assumes "us_pkt_ok RQ u t" "pack_us_rq t = Inr f"
  shows "us_frame_ok RQ f" "us_seen RQ u f = f"
proof -
  have ok: "list_all (fits 32) (tlp_data t)" "us_mem_io (us_fmt_type t) \<or> is_cfg_type (us_fmt_type t)"
    "fits 4 (tlp_first_be t)" "fits 4 (tlp_last_be t)"
    "fits (if bw_data u = 512 \<or> bw_user u = 62 then 6 else 4) (us_seq_num t)"
    using assms(1) by (auto simp: us_pkt_ok_def rq_ok_def)
  define w where "w = (tlp_tag t AND 0xff) OR push_bit 8 (id_to_int (tlp_completer_id t)) OR
      flag 24 (us_requester_id_enable t) OR push_bit 25 (tlp_tc t AND 0x7) OR push_bit 28 (tlp_attr t AND 0x7)"
  have w: "fits 32 w" unfolding w_def masks by (intro word_fits) simp_all
  define as where "as = (if us_mem_io (us_fmt_type t) then us_addr_words t else [push_bit 2 (tlp_register_number t AND 0x3ff), 0])"
  have "fits 32 (push_bit 2 (tlp_register_number t AND 0x3ff))" unfolding masks by (intro word_fits) simp_all
  then have as: "list_all (fits 32) as" "as \<noteq> []" using us_addr_words_fit by (simp_all add: as_def us_addr_words_def)
  define g where "g = us_frame_new\<lparr>uf_data := as @ [us_req_word t, w] @ tlp_data t,
      uf_first_be := tlp_first_be t, uf_last_be := tlp_last_be t, uf_discontinue := us_discontinue t,
      uf_seq_num := us_seq_num t\<rparr>"
  have f: "f = update_parity g"
    using assms(2) ok(2) unfolding pack_us_rq_def w_def[symmetric] as_def[symmetric] g_def by simp
  show "us_frame_ok RQ f"
    unfolding f us_frame_ok_def using ok w as us_req_word_fits by (intro packed_words_ok) (simp_all add: g_def)
  show "us_seen RQ u f = f"
    unfolding f using ok(3-5)
    by (intro us_frame.equality) (auto simp: us_seen_def us_tk g_def update_parity_def masks)
qed

lemma cc_packed:
  assumes "us_pkt_ok CC u t" "pack_us_cc t = Inr f"
  shows "us_frame_ok CC f" "us_seen CC u f = f"
proof -
  have ok: "list_all (fits 32) (tlp_data t)" "is_cpl_type (us_fmt_type t)"
    using assms(1) by (auto simp: us_pkt_ok_def cc_ok_def us_cpl_ok_def)
  define w0 where "w0 = (tlp_lower_address t AND 0x7f) OR push_bit 8 (tlp_at t AND 3) OR
      push_bit 16 (tlp_byte_count t AND 0x1fff) OR flag 29 (us_cpl_locked (us_fmt_type t))"
  define w2 where "w2 = (tlp_tag t AND 0xff) OR push_bit 8 (id_to_int (tlp_completer_id t)) OR
      flag 24 (us_completer_id_enable t) OR push_bit 25 (tlp_tc t AND 0x7) OR push_bit 28 (tlp_attr t AND 0x7)"
  have w: "fits 32 w0" "fits 32 w2" unfolding w0_def w2_def masks by (intro word_fits, simp_all)+
  define g where "g = us_frame_new\<lparr>uf_data := [w0, us_cpl_word t, w2] @ tlp_data t, uf_discontinue := us_discontinue t\<rparr>"
  have f: "f = update_parity g"
    using assms(2) ok(2) unfolding pack_us_cc_def w0_def[symmetric] w2_def[symmetric] g_def by simp
  show "us_frame_ok CC f"
    unfolding f us_frame_ok_def using ok w us_cpl_word_fits by (intro packed_words_ok) (simp_all add: g_def)
  show "us_seen CC u f = f"
    unfolding f by (intro us_frame.equality) (simp_all add: us_seen_def us_tk g_def update_parity_def)
qed

lemma rc_packed:
  assumes "us_pkt_ok RC u t" "pack_us_rc t = Inr f"
  shows "us_frame_ok RC f" "us_seen RC u f = f"
proof -
  have ok: "list_all (fits 32) (tlp_data t)" "is_cpl_type (us_fmt_type t)"
    using assms(1) by (auto simp: us_pkt_ok_def rc_ok_def us_cpl_ok_def)
  define w0 where "w0 = (tlp_lower_address t AND 0xfff) OR push_bit 12 (us_error_code t AND 0xf) OR
      push_bit 16 (tlp_byte_count t AND 0x1fff) OR flag 29 (us_cpl_locked (us_fmt_type t))"
  define w2 where "w2 = (tlp_tag t AND 0xff) OR push_bit 8 (id_to_int (tlp_completer_id t)) OR
      push_bit 25 (tlp_tc t AND 0x7) OR push_bit 28 (tlp_attr t AND 0x7)"
  have w: "fits 32 w0" "fits 32 w2" unfolding w0_def w2_def masks by (intro word_fits, simp_all)+
  define g where "g = us_frame_new\<lparr>uf_data := [w0, us_cpl_word t, w2] @ tlp_data t,
      uf_byte_en := us_rc_byte_en t, uf_discontinue := us_discontinue t\<rparr>"
  have f: "f = update_parity g"
    using assms(2) ok(2) unfolding pack_us_rc_def w0_def[symmetric] w2_def[symmetric] g_def by simp
  have "length (us_rc_byte_en t) = 3 + length (tlp_data t)"
    by (simp add: us_rc_byte_en_def rc_byte_en_def Let_def us_byte_en_length)
  then show "us_frame_ok RC f"
    unfolding f us_frame_ok_def using ok w us_cpl_word_fits rc_byte_en_fits
    by (intro packed_words_ok) (simp_all add: g_def us_rc_byte_en_def)
  show "us_seen RC u f = f"
    unfolding f by (intro us_frame.equality) (simp_all add: us_seen_def us_tk g_def update_parity_def)
qed

lemma us_packed:
  assumes "us_pkt_ok k u t" "us_pack k t = Inr f"
  shows "us_frame_ok k f \<and> us_seen k u f = f \<and> us_unpack k chk tlp_us_new f = Inr (us_image k t)"
proof (cases k)
  case CQ
  then show ?thesis using assms cq_packed unpack_pack_cq by (simp add: us_pack_def us_unpack_def us_image_def us_pkt_ok_def)
next
  case CC
  then show ?thesis using assms cc_packed unpack_pack_cc by (simp add: us_pack_def us_unpack_def us_image_def us_pkt_ok_def)
next
  case RQ
  then show ?thesis using assms rq_packed unpack_pack_rq by (simp add: us_pack_def us_unpack_def us_image_def us_pkt_ok_def)
next
  case RC
  then show ?thesis using assms rc_packed unpack_pack_rc by (simp add: us_pack_def us_unpack_def us_image_def us_pkt_ok_def)
qed

lemma mapE_packed:
  "mapE (us_pack k) ts = Inr fs \<Longrightarrow> \<forall>t \<in> set ts. us_pkt_ok k u t \<Longrightarrow>
   (\<forall>f \<in> set fs. us_frame_ok k f) \<and> map (us_seen k u) fs = fs \<and>
   mapE (us_unpack k chk tlp_us_new) fs = Inr (map (us_image k) ts)"
proof (induction ts arbitrary: fs)
  case (Cons t ts)
  from Cons.prems(1) obtain f gs where "us_pack k t = Inr f" "mapE (us_pack k) ts = Inr gs" "fs = f # gs"
    by (cases "us_pack k t"; cases "mapE (us_pack k) ts") auto
  then show ?case using Cons.IH[of gs] Cons.prems(2) us_packed[of k u t f chk] by simp
qed simp

text \<open>Property C35: packets survive an interface of the core end to end. Packed behind their descriptors,
  sent in any pattern over a bus of any legal width, whatever the pauses, and unpacked again by
  the other side with the check of the parity on, they are the packets sent, in order, with every
  field that has a place in the descriptor.\<close>

theorem us_packets_arrive:
  assumes "us_bus_ok k u" "\<forall>t \<in> set ts. us_pkt_ok k u t" "mapE (us_pack k) ts = Inr (concat (map fst es))"
    and "\<forall>e \<in> set ds. fst e = []"
    and "2 * us_total (bw_keep u) (concat (map fst es)) \<le> length (filter (\<lambda>e. snd e = (False, False)) ds)"
  shows "\<exists>s w sk. us_run k u (es @ ds) = Inr (s, w, sk) \<and>
    mapE (us_unpack k True tlp_us_new) (sk_queue sk) = Inr (map (us_image k) ts)"
proof -
  have p: "\<forall>f \<in> set (concat (map fst es)). us_frame_ok k f"
    "map (us_seen k u) (concat (map fst es)) = concat (map fst es)"
    "mapE (us_unpack k True tlp_us_new) (concat (map fst es)) = Inr (map (us_image k) ts)"
    using mapE_packed[OF assms(3,2)] by blast+
  then show ?thesis using us_run_delivers[OF assms(1) p(1) assms(4,5)] by metis
qed

section \<open>Witnesses\<close>

definition us_demo_bus :: us_bus where
  "us_demo_bus = \<lparr>bw_data = 64, bw_keep = 2, bw_user = 75\<rparr>"

definition us_demo_frame :: us_frame where
  "us_demo_frame = update_parity (us_frame_new\<lparr>uf_data := [1, 0xffffffff, 7], uf_byte_en := [0xf, 3, 0]\<rparr>)"

lemma us_demo_ok: "us_bus_ok RC us_demo_bus" "us_frame_ok RC us_demo_frame" "length (uf_data us_demo_frame) = 3"
  "us_total 2 [us_demo_frame] = 2"
proof -
  show "us_bus_ok RC us_demo_bus"
    by (simp add: us_bus_ok_def rc_bus_ok_def us_width_ok_def us_demo_bus_def)
  show "us_frame_ok RC us_demo_frame"
    unfolding us_demo_frame_def us_frame_ok_def by (intro packed_words_ok) (simp_all add: fits_def)
  show "length (uf_data us_demo_frame) = 3" by (simp add: us_demo_frame_def)
  then show "us_total 2 [us_demo_frame] = 2" by (simp add: us_beats_def)
qed

theorem us_link_safe_witness:
  "\<exists>s w sk past rest. us_run RC us_demo_bus [([us_demo_frame], True, False), ([us_demo_frame], False, True)] =
     Inr (s, w, sk) \<and> [us_demo_frame, us_demo_frame] = past @ rest \<and> sk_queue sk = map (us_seen RC us_demo_bus) past"
  using us_link_safe[OF us_demo_ok(1), of "[([us_demo_frame], True, False), ([us_demo_frame], False, True)]"] us_demo_ok(2)
  by simp

theorem us_link_delivers_witness:
  "\<exists>s w sk. us_run RC us_demo_bus (([us_demo_frame], True, True) # replicate 4 ([], False, False)) = Inr (s, w, sk) \<and>
     sk_queue sk = [us_seen RC us_demo_bus us_demo_frame]"
  using us_link_delivers[OF us_demo_ok(1), of "[([us_demo_frame], True, True)]" "replicate 4 ([], False, False)"] us_demo_ok(2,3)
  by (simp add: us_demo_bus_def)

theorem us_packets_arrive_witness:
  "\<exists>f s w sk. pack_us_rc us_cpl_example = Inr f \<and>
     us_run RC us_demo_bus (([f], False, False) # replicate 6 ([], False, False)) = Inr (s, w, sk) \<and>
     mapE (us_unpack RC True tlp_us_new) (sk_queue sk) = Inr [rc_image us_cpl_example]"
proof -
  obtain f where f: "pack_us_rc us_cpl_example = Inr f" using pack_us_total(4)[OF us_cpl_example_ok(2)] by blast
  have d: "tlp_data us_cpl_example = [0xdeadbeef, 7]" by (simp add: us_cpl_example_def tlp_us_of_def tlp.defs tlp_copy_def)
  have ok: "us_pkt_ok RC us_demo_bus us_cpl_example"
    using us_cpl_example_ok(2) by (simp add: us_pkt_ok_def d fits_def)
  have "length (uf_data f) = 5" using f d by (auto simp: pack_us_rc_def split: if_splits)
  then have "us_total 2 [f] = 3" by (simp add: us_beats_def)
  then show ?thesis
    using us_packets_arrive[OF us_demo_ok(1), of "[us_cpl_example]" "[([f], False, False)]" "replicate 6 ([], False, False)"] f ok
    by (simp add: us_pack_def us_image_def us_demo_bus_def)
qed

end
