(* ===== verification/UsDevice.thy ===== *)
theory UsDevice
  imports UsLink PcieDevice PcieFnOps
begin

text \<open>
  The device of the Xilinx UltraScale PCIe core: \<open>UltrascalePCIe\<close> of
  \<open>fpga/lib/pcie/tb/pcie_us.py\<close> and \<open>UltrascalePlusPCIe\<close> of \<open>fpga/lib/pcie/tb/pcie_usp.py\<close>. It
  takes packets from the link, hands requests to the user side through the completer request
  source and completions through the requester completion source, sends what arrives in the
  completer completion and the requester request sink, and drives the configuration ports. The
  process \<open>logic\<close> is a step: one rising edge of the clock, or the start of a reset, at which the
  inputs are read once. What is sent goes to a fabric \<open>F\<close> above the device, as in the theory of hosts.
\<close>

unbundle bit_operations_syntax

section \<open>State\<close>

text \<open>The outputs \<open>logic\<close> drives; the ones it never drives are left out.\<close>

record us_out =
  o_cq_np_req_count :: int
  o_rq_seq_num :: int
  o_rq_seq_num_vld :: bool
  o_rq_seq_num1 :: int
  o_rq_seq_num_vld1 :: bool
  o_tfc_nph_av :: int
  o_tfc_npd_av :: int
  o_mgmt_read_data :: int
  o_mgmt_done :: bool
  o_phy_link_down :: bool
  o_lnk_up :: bool
  o_negotiated_width :: int
  o_current_speed :: int
  o_max_payload :: int
  o_max_read_req :: int
  o_function_status :: int
  o_ltr_enable :: bool
  o_rcb_status :: int
  o_fc_header :: int
  o_fc_data :: int
  o_msi_enable :: int
  o_msi_sent :: bool
  o_msi_fail :: bool
  o_msi_mmenable :: int
  o_msi_data :: int
  o_msix_enable :: int
  o_msix_mask :: int
  o_msix_sent :: bool
  o_msix_fail :: bool

text \<open>The inputs it reads. \<open>in_running\<close> is \<open>sys_reset\<close>, which is low while the core is in reset.\<close>

record us_in =
  in_running :: bool
  in_cq_np_req :: bool
  in_mgmt_addr :: int
  in_mgmt_function :: int
  in_mgmt_read :: bool
  in_mgmt_write :: bool
  in_mgmt_write_data :: int
  in_mgmt_byte_enable :: int
  in_fc_sel :: int
  in_config_space_enable :: bool
  in_msi_int :: int
  in_msi_function :: nat
  in_msi_attr :: int
  in_msi_select :: nat
  in_msi_pending_status :: int
  in_msi_pending_enable :: bool
  in_msi_pending_function :: nat
  in_msix_int :: bool
  in_msix_address :: int
  in_msix_data :: int

record us_device = "endpoint device" +
  ud_enable_parity :: bool
  ud_config_space_enable :: bool
  ud_cq_queue :: "tlp_us list"
  ud_cq_np_queue :: "tlp_us list"
  ud_cq_np_req_count :: int
  ud_rc_queue :: "tlp_us list"
  ud_rq_seq_num :: "int list"
  ud_cq_source :: us_source
  ud_rc_source :: us_source
  ud_cc_sink :: us_sink
  ud_rq_sink :: us_sink
  ud_out :: us_out

type_synonym 'e us_sys = "us_device \<times> 'e"

definition us_out_zero :: us_out where
  "us_out_zero = \<lparr>o_cq_np_req_count = 0, o_rq_seq_num = 0, o_rq_seq_num_vld = False, o_rq_seq_num1 = 0,
     o_rq_seq_num_vld1 = False, o_tfc_nph_av = 0, o_tfc_npd_av = 0, o_mgmt_read_data = 0, o_mgmt_done = False,
     o_phy_link_down = False, o_lnk_up = False, o_negotiated_width = 0, o_current_speed = 0, o_max_payload = 0,
     o_max_read_req = 0, o_function_status = 0, o_ltr_enable = False, o_rcb_status = 0, o_fc_header = 0,
     o_fc_data = 0, o_msi_enable = 0, o_msi_sent = False, o_msi_fail = False, o_msi_mmenable = 0, o_msi_data = 0,
     o_msix_enable = 0, o_msix_mask = 0, o_msix_sent = False, o_msix_fail = False\<rparr>"

text \<open>The function of the core: the constructors register MSI-X, MSI, PCI Express and power
  management in this order, and the class moves them to their places.\<close>

definition core_function :: "int \<Rightarrow> int \<Rightarrow> int \<Rightarrow> int \<Rightarrow> endpoint result" where
  "core_function pm msi msix pcie =
     bindE (register_capability 0x11 (Some 3) (Some MsixHandler) None pfunction_blank) (\<lambda>f1.
     bindE (register_capability 0x05 (Some 6) (Some MsiHandler) None f1) (\<lambda>f2.
     bindE (register_capability 0x10 (Some 15) (Some PcieHandler) None f2) (\<lambda>f3.
     bindE (register_capability 0x01 (Some 2) (Some PmHandler) None f3) (\<lambda>f4.
     let f = pfunction.extend (f4\<lparr>bar := replicate 6 0, bar_mask := replicate 6 0,
                 fn_msi := (fn_msi f4)\<lparr>msi_64bit_address_capable := True, msi_per_vector_mask_capable := False\<rparr>\<rparr>)
               (endpoint.fields 0 0 0)
     in bindE (register_capability 0x01 None None (Some pm) f) (\<lambda>f5.
        bindE (register_capability 0x05 None None (Some msi) f5) (\<lambda>f6.
        bindE (register_capability 0x11 None None (Some msix) f6)
          (register_capability 0x10 None None (Some pcie))))))))"

definition us_function_init :: "endpoint result" where
  "us_function_init = core_function 0x20 0x24 0x2c 0x30"

definition usp_function_init :: "endpoint result" where
  "usp_function_init = core_function 0x10 0x12 0x18 0x1c"

definition core_init :: "endpoint result \<Rightarrow> us_device result" where
  "core_init new =
     bindE new (\<lambda>f.
     bindE (append_function f device_init) (\<lambda>d.
       Inr (device.extend d
         (us_device.fields False False [] [] 0 [] [] us_source_new us_source_new us_sink_new us_sink_new us_out_zero))))"

definition us_device_init :: "us_device result" where
  "us_device_init = core_init us_function_init"

definition usp_device_init :: "us_device result" where
  "usp_device_init = core_init usp_function_init"

section \<open>Packets from the link\<close>

definition us_ur :: "tlp \<Rightarrow> us_device \<Rightarrow> tlp" where
  "us_ur t d = set_ur_completion tlp_new t (mk_id (dev_bus_num d) (dev_device_num d) 0)"

text \<open>The first function with exactly one matching register.\<close>

fun us_find_bar :: "int \<Rightarrow> bool \<Rightarrow> endpoint list \<Rightarrow> (endpoint \<times> nat) option result" where
  "us_find_bar addr io [] = Inr None"
| "us_find_bar addr io (f # fs) = bindE (match_bar f addr io) (\<lambda>m.
     case m of [(i, _)] \<Rightarrow> Inr (Some (f, i)) | _ \<Rightarrow> us_find_bar addr io fs)"

text \<open>The aperture is computed from the registers of the first function of the device, whichever
  matched. \<open>lg\<close> is \<open>int(math.log2(...))\<close>.\<close>

definition us_io_aperture :: "(int \<Rightarrow> int) \<Rightarrow> nat \<Rightarrow> us_device \<Rightarrow> int result" where
  "us_io_aperture lg i d = bindE (py_nth (dev_functions d) 0) (\<lambda>f. bindE (py_nth (bar_mask f) i) (\<lambda>m.
     Inr (lg ((NOT m AND 0xffffffff) + 1))))"

definition us_mem_aperture :: "(int \<Rightarrow> int) \<Rightarrow> nat \<Rightarrow> us_device \<Rightarrow> int result" where
  "us_mem_aperture lg i d = bindE (py_nth (dev_functions d) 0) (\<lambda>f. bindE (py_nth (bar f) i) (\<lambda>b.
     if b AND 4 \<noteq> 0 then
       bindE (py_nth (bar_mask f) i) (\<lambda>m. bindE (py_nth (bar_mask f) (i + 1)) (\<lambda>m2.
         Inr (lg ((NOT (m OR push_bit 32 m2) AND 0xffffffffffffffff) + 1))))
     else us_io_aperture lg i d))"

definition us_completer_request :: "tlp \<Rightarrow> endpoint \<Rightarrow> nat \<Rightarrow> int \<Rightarrow> us_device \<Rightarrow> us_device" where
  "us_completer_request t f i ap d = d\<lparr>ud_cq_queue := ud_cq_queue d @
     [(tlp_us_of t)\<lparr>us_bar_id := int i, us_bar_aperture := ap,
        tlp_completer_id := mk_id (dev_bus_num d) (dev_device_num d) (function_num f)\<rparr>]\<rparr>"

text \<open>A completion with an unsuccessful status sets an attribute \<open>error\<close> that nothing reads, so
  its error code says normal termination.\<close>

definition us_upstream_recv :: "(int \<Rightarrow> int) \<Rightarrow> tlp \<Rightarrow> us_device \<Rightarrow> (us_device \<times> tlp list) result" where
  "us_upstream_recv lg t d =
     (let ft = fmt_type_of t in
      if ft = TLP_CFG_READ_0 \<or> ft = TLP_CFG_WRITE_0 then
        if \<not> ud_config_space_enable d then
          bindE (device_upstream_send
              (set_crs_completion tlp_new t (mk_id (dev_bus_num d) (dev_device_num d) 0))) (\<lambda>out. Inr (d, out))
        else if pid_device (tlp_dest_id t) = dev_device_num d then
          let d1 = d\<lparr>dev_bus_num := pid_bus (tlp_dest_id t),
                     dev_functions := map (\<lambda>g. g\<lparr>bus_num := pid_bus (tlp_dest_id t)\<rparr>) (dev_functions d)\<rparr>
          in bindE (give_first (\<lambda>g. Inr (function_num g = pid_function (tlp_dest_id t)))
                 (upstream_recv endpoint_handler t) (dev_functions d1)) (\<lambda>r.
               case r of
                 Some (fs, out) \<Rightarrow> Inr (d1\<lparr>dev_functions := fs\<rparr>, out)
               | None \<Rightarrow> bindE (device_upstream_send (us_ur t d1)) (\<lambda>out. Inr (d1, out)))
        else bindE (device_upstream_send (us_ur t d)) (\<lambda>out. Inr (d, out))
      else if is_cpl_type ft then
        if pid_bus (tlp_requester_id t) = dev_bus_num d \<and> pid_device (tlp_requester_id t) = dev_device_num d \<and>
           (\<exists>f \<in> set (dev_functions d). function_num f = pid_function (tlp_requester_id t))
        then Inr (d\<lparr>ud_rc_queue := ud_rc_queue d @ [(tlp_us_of t)\<lparr>us_error_code := RC_ERROR_NORMAL_TERMINATION\<rparr>]\<rparr>, [])
        else Inr (d, [])
      else if ft = TLP_IO_READ \<or> ft = TLP_IO_WRITE then
        bindE (us_find_bar (tlp_address t) True (dev_functions d)) (\<lambda>r.
          case r of
            Some (f, i) \<Rightarrow> bindE (us_io_aperture lg i d) (\<lambda>ap. Inr (us_completer_request t f i ap d, []))
          | None \<Rightarrow> bindE (device_upstream_send (us_ur t d)) (\<lambda>out. Inr (d, out)))
      else if ft = TLP_MEM_READ \<or> ft = TLP_MEM_READ_64 \<or> ft = TLP_MEM_WRITE \<or> ft = TLP_MEM_WRITE_64 then
        bindE (us_find_bar (tlp_address t) False (dev_functions d)) (\<lambda>r.
          case r of
            Some (f, i) \<Rightarrow> bindE (us_mem_aperture lg i d) (\<lambda>ap. Inr (us_completer_request t f i ap d, []))
          | None \<Rightarrow>
              if ft = TLP_MEM_READ \<or> ft = TLP_MEM_READ_64
              then bindE (device_upstream_send (us_ur t d)) (\<lambda>out. Inr (d, out))
              else Inr (d, []))
      else Inl (PyException ''TODO''))"

text \<open>The method of the UltraScale+ device has the same body.\<close>

definition usp_upstream_recv :: "(int \<Rightarrow> int) \<Rightarrow> tlp \<Rightarrow> us_device \<Rightarrow> (us_device \<times> tlp list) result" where
  "usp_upstream_recv = us_upstream_recv"

section \<open>Requests to the user\<close>

text \<open>A non-posted request needs a credit; the credits come from \<open>pcie_cq_np_req\<close>.\<close>

definition us_non_posted :: "tlp_us \<Rightarrow> bool" where
  "us_non_posted t \<longleftrightarrow> us_fmt_type t = TLP_IO_READ \<or> us_fmt_type t = TLP_IO_WRITE \<or>
     us_fmt_type t = TLP_MEM_READ \<or> us_fmt_type t = TLP_MEM_READ_64"

definition us_credit :: "us_in \<Rightarrow> us_device \<Rightarrow> us_device" where
  "us_credit i d =
     (if \<not> in_running i then d\<lparr>ud_cq_np_req_count := 0\<rparr>
      else if in_cq_np_req i \<and> ud_cq_np_req_count d < 32
      then d\<lparr>ud_cq_np_req_count := ud_cq_np_req_count d + 1\<rparr> else d)"

definition us_cq_send :: "tlp_us \<Rightarrow> us_device \<Rightarrow> us_device result" where
  "us_cq_send t d = bindE (pack_us_cq t) (\<lambda>f. Inr (d\<lparr>ud_cq_source := us_send f (ud_cq_source d)\<rparr>))"

text \<open>The two loops; the first argument is the queue.\<close>

fun us_drain_np :: "tlp_us list \<Rightarrow> us_device \<Rightarrow> us_device result" where
  "us_drain_np [] d = Inr (d\<lparr>ud_cq_np_queue := []\<rparr>)"
| "us_drain_np (t # ts) d =
     (if ud_cq_np_req_count d > 0 then
        bindE (us_cq_send t (d\<lparr>ud_cq_np_req_count := ud_cq_np_req_count d - 1\<rparr>)) (us_drain_np ts)
      else Inr (d\<lparr>ud_cq_np_queue := t # ts\<rparr>))"

fun us_drain_cq :: "tlp_us list \<Rightarrow> us_device \<Rightarrow> us_device result" where
  "us_drain_cq [] d = Inr (d\<lparr>ud_cq_queue := []\<rparr>)"
| "us_drain_cq (t # ts) d =
     (if us_non_posted t then
        if ud_cq_np_req_count d > 0 then
          bindE (us_cq_send t (d\<lparr>ud_cq_np_req_count := ud_cq_np_req_count d - 1\<rparr>)) (us_drain_cq ts)
        else us_drain_cq ts (d\<lparr>ud_cq_np_queue := ud_cq_np_queue d @ [t]\<rparr>)
      else bindE (us_cq_send t d) (us_drain_cq ts))"

text \<open>Assigning a value to a signal that is too narrow for it raises.\<close>

definition drive :: "nat \<Rightarrow> int \<Rightarrow> int result" where
  "drive w v = (if fits w v then Inr v else Inl ValueError)"

definition us_requests :: "us_in \<Rightarrow> us_device \<Rightarrow> us_device result" where
  "us_requests i d0 =
     (let d1 = us_credit i d0 in
      bindE (us_drain_np (ud_cq_np_queue d1) d1) (\<lambda>d2.
      bindE (us_drain_cq (ud_cq_queue d2) d2) (\<lambda>d3.
      bindE (drive 6 (ud_cq_np_req_count d3)) (\<lambda>n.
        Inr (d3\<lparr>ud_out := (ud_out d3)\<lparr>o_cq_np_req_count := n\<rparr>\<rparr>)))))"

section \<open>Packets of the user\<close>

definition us_link_send :: "'e fabric \<Rightarrow> tlp_us \<Rightarrow> 'e \<Rightarrow> 'e result" where
  "us_link_send F t e = bindE (device_upstream_send (tlp_of_us t)) (\<lambda>out. fab_send_all F out e)"

definition us_own_completer :: "us_device \<Rightarrow> tlp_us \<Rightarrow> tlp_us" where
  "us_own_completer d t =
     (if us_completer_id_enable t then t
      else t\<lparr>tlp_completer_id := mk_id (dev_bus_num d) (dev_device_num d) (pid_function (tlp_completer_id t))\<rparr>)"

definition us_own_requester :: "us_device \<Rightarrow> tlp_us \<Rightarrow> tlp_us" where
  "us_own_requester d t =
     (if us_requester_id_enable t then t
      else t\<lparr>tlp_requester_id := mk_id (dev_bus_num d) (dev_device_num d) (pid_function (tlp_requester_id t))\<rparr>)"

fun us_completions :: "'e fabric \<Rightarrow> us_frame list \<Rightarrow> 'e us_sys \<Rightarrow> 'e us_sys result" where
  "us_completions F [] (d, e) = Inr (d\<lparr>ud_cc_sink := (ud_cc_sink d)\<lparr>sk_queue := []\<rparr>\<rparr>, e)"
| "us_completions F (p # ps) (d, e) =
     bindE (unpack_us_cc (ud_enable_parity d) tlp_us_new p) (\<lambda>t.
       if us_discontinue t then us_completions F ps (d, e)
       else bindE (us_link_send F (us_own_completer d t) e) (\<lambda>e'. us_completions F ps (d, e')))"

fun us_own_requests :: "'e fabric \<Rightarrow> us_frame list \<Rightarrow> 'e us_sys \<Rightarrow> 'e us_sys result" where
  "us_own_requests F [] (d, e) = Inr (d\<lparr>ud_rq_sink := (ud_rq_sink d)\<lparr>sk_queue := []\<rparr>\<rparr>, e)"
| "us_own_requests F (p # ps) (d, e) =
     bindE (unpack_us_rq (ud_enable_parity d) tlp_us_new p) (\<lambda>t.
       let t' = us_own_requester d t in
       if us_discontinue t' then us_own_requests F ps (d, e)
       else bindE (py_nth (dev_functions d) (nat (pid_function (tlp_requester_id t')))) (\<lambda>f.
         if bus_master_enable (fn_cfg f) then
           bindE (us_link_send F t' e) (\<lambda>e'.
             us_own_requests F ps (d\<lparr>ud_rq_seq_num := ud_rq_seq_num d @ [us_seq_num t']\<rparr>, e'))
         else us_own_requests F ps (d, e)))"

definition us_seq_out :: "us_device \<Rightarrow> us_device result" where
  "us_seq_out d =
     (case ud_rq_seq_num d of
        [] \<Rightarrow> Inr (d\<lparr>ud_out := (ud_out d)\<lparr>o_rq_seq_num_vld := False\<rparr>\<rparr>)
      | n # ns \<Rightarrow> bindE (drive 4 n) (\<lambda>v.
          Inr (d\<lparr>ud_rq_seq_num := ns, ud_out := (ud_out d)\<lparr>o_rq_seq_num := v, o_rq_seq_num_vld := True\<rparr>\<rparr>)))"

text \<open>The UltraScale+ device reports two in a cycle.\<close>

definition usp_seq_out :: "us_device \<Rightarrow> us_device result" where
  "usp_seq_out d =
     (let off = (ud_out d)\<lparr>o_rq_seq_num_vld := False, o_rq_seq_num_vld1 := False\<rparr> in
      case ud_rq_seq_num d of
        [] \<Rightarrow> Inr (d\<lparr>ud_out := off\<rparr>)
      | n # ns \<Rightarrow> bindE (drive 6 n) (\<lambda>v.
          let one = off\<lparr>o_rq_seq_num := v, o_rq_seq_num_vld := True\<rparr> in
          case ns of
            [] \<Rightarrow> Inr (d\<lparr>ud_rq_seq_num := [], ud_out := one\<rparr>)
          | n1 # ns1 \<Rightarrow> bindE (drive 6 n1) (\<lambda>v1.
              Inr (d\<lparr>ud_rq_seq_num := ns1, ud_out := one\<lparr>o_rq_seq_num1 := v1, o_rq_seq_num_vld1 := True\<rparr>\<rparr>))))"

text \<open>Completions for the user.\<close>

fun us_drain_rc :: "tlp_us list \<Rightarrow> us_device \<Rightarrow> us_device result" where
  "us_drain_rc [] d = Inr (d\<lparr>ud_rc_queue := []\<rparr>)"
| "us_drain_rc (t # ts) d = bindE (pack_us_rc t) (\<lambda>f.
     us_drain_rc ts (d\<lparr>ud_rc_source := us_send f (ud_rc_source d)\<rparr>))"

section \<open>Configuration ports\<close>

definition us_mgmt_function :: "int \<Rightarrow> us_device \<Rightarrow> endpoint result" where
  "us_mgmt_function n d = py_nth (dev_functions d) (nat n)"

definition us_mgmt_read :: "int \<Rightarrow> int \<Rightarrow> us_device \<Rightarrow> us_device result" where
  "us_mgmt_read n reg d =
     bindE (us_mgmt_function n d) (\<lambda>f. bindE (read_endpoint_register f reg) (\<lambda>v.
       case v of
         None \<Rightarrow> Inl TypeError
       | Some x \<Rightarrow> bindE (drive 32 x) (\<lambda>x'. Inr (d\<lparr>ud_out := (ud_out d)\<lparr>o_mgmt_read_data := x'\<rparr>\<rparr>))))"

definition us_mgmt_write :: "int \<Rightarrow> int \<Rightarrow> us_in \<Rightarrow> us_device \<Rightarrow> us_device result" where
  "us_mgmt_write n reg i d =
     bindE (us_mgmt_function n d) (\<lambda>f.
     bindE (write_endpoint_register reg (in_mgmt_write_data i) (in_mgmt_byte_enable i) f) (\<lambda>f'.
       Inr (d\<lparr>dev_functions := (dev_functions d)[nat n := f']\<rparr>)))"

definition us_mgmt_done :: "bool \<Rightarrow> us_device \<Rightarrow> us_device" where
  "us_mgmt_done b d = d\<lparr>ud_out := (ud_out d)\<lparr>o_mgmt_done := b\<rparr>\<rparr>"

text \<open>A request is served in the cycle after the last one was acknowledged. Bit 18 of the address
  selects registers the model does not have.\<close>

definition us_mgmt :: "us_in \<Rightarrow> us_device \<Rightarrow> us_device result" where
  "us_mgmt i d =
     (let n = drop_bit 10 (in_mgmt_addr i) AND 0x7f; reg = in_mgmt_addr i AND 0x3ff in
      if o_mgmt_done (ud_out d) then Inr (us_mgmt_done False d)
      else if in_mgmt_read i then
        bindE (if tst (in_mgmt_addr i) 18 then Inr d else us_mgmt_read n reg d) (\<lambda>d'. Inr (us_mgmt_done True d'))
      else if in_mgmt_write i then
        bindE (if tst (in_mgmt_addr i) 18 then Inr d else us_mgmt_write n reg i d) (\<lambda>d'. Inr (us_mgmt_done True d'))
      else Inr d)"

definition usp_mgmt :: "us_in \<Rightarrow> us_device \<Rightarrow> us_device result" where
  "usp_mgmt i d =
     (if o_mgmt_done (ud_out d) then Inr (us_mgmt_done False d)
      else if in_mgmt_read i then
        bindE (us_mgmt_read (in_mgmt_function i) (in_mgmt_addr i) d) (\<lambda>d'. Inr (us_mgmt_done True d'))
      else if in_mgmt_write i then
        bindE (us_mgmt_write (in_mgmt_function i) (in_mgmt_addr i) i d) (\<lambda>d'. Inr (us_mgmt_done True d'))
      else Inr d)"

definition us_link_state :: "us_in \<Rightarrow> us_device \<Rightarrow> us_device" where
  "us_link_state i d = d\<lparr>ud_out := (ud_out d)\<lparr>o_phy_link_down := \<not> in_running i, o_lnk_up := in_running i\<rparr>\<rparr>"

definition us_function_flags :: "endpoint \<Rightarrow> int" where
  "us_function_flags f = (if bus_master_enable (fn_cfg f) then 0x07 else 0) OR
     (if interrupt_disable (fn_cfg f) then 0x08 else 0)"

text \<open>The status of the second function is reported from the first one where the code tests
  \<open>functions[0]\<close> twice.\<close>

definition us_status :: "us_device \<Rightarrow> us_device result" where
  "us_status d =
     bindE (py_nth (dev_functions d) 0) (\<lambda>f.
     let two = length (dev_functions d) > 1;
         status = us_function_flags f OR (if two then push_bit 4 (us_function_flags (dev_functions d ! 1)) else 0);
         rcb = read_completion_boundary (r_link_ctl (fn_pcie f))
     in
     bindE (drive 4 (negotiated_link_width (r_link_sta (fn_pcie f)))) (\<lambda>w.
     bindE (drive 3 (drop_bit 1 (push_bit (nat (current_link_speed (r_link_sta (fn_pcie f)) AND 3)) 1))) (\<lambda>sp.
     bindE (drive 3 (max_payload_size (r_dev_ctl (fn_pcie f)))) (\<lambda>mp.
     bindE (drive 3 (max_read_request_size (r_dev_ctl (fn_pcie f)))) (\<lambda>mr.
       Inr (d\<lparr>ud_out := (ud_out d)\<lparr>o_negotiated_width := w, o_current_speed := sp, o_max_payload := mp,
         o_max_read_req := mr, o_function_status := status,
         o_ltr_enable := ltr_mechanism_enable (r_dev_ctl2 (fn_pcie f)),
         o_rcb_status := flag 0 rcb OR flag 1 (two \<and> rcb)\<rparr>\<rparr>))))))"

fun usp_join :: "nat \<Rightarrow> (endpoint \<Rightarrow> int) \<Rightarrow> nat \<Rightarrow> endpoint list \<Rightarrow> int" where
  "usp_join w g k [] = 0"
| "usp_join w g k (f # fs) = push_bit (k * w) (g f) OR usp_join w g (Suc k) fs"

definition usp_status :: "us_device \<Rightarrow> us_device result" where
  "usp_status d =
     bindE (py_nth (dev_functions d) 0) (\<lambda>f.
     bindE (drive 3 (min (max (int (bit_length (nat \<bar>negotiated_link_width (r_link_sta (fn_pcie f))\<bar>)) - 1) 0) 4)) (\<lambda>w.
     bindE (drive 2 (min (max (current_link_speed (r_link_sta (fn_pcie f)) - 1) 0) 3)) (\<lambda>sp.
     bindE (drive 2 (max_payload_size (r_dev_ctl (fn_pcie f)) AND 3)) (\<lambda>mp.
     bindE (drive 3 (max_read_request_size (r_dev_ctl (fn_pcie f)))) (\<lambda>mr.
     bindE (drive 16 (usp_join 4 us_function_flags 0 (dev_functions d))) (\<lambda>status.
     bindE (drive 4 (usp_join 1 (\<lambda>f. flag 0 (read_completion_boundary (r_link_ctl (fn_pcie f)))) 0 (dev_functions d))) (\<lambda>rcb.
       Inr (d\<lparr>ud_out := (ud_out d)\<lparr>o_negotiated_width := w, o_current_speed := sp, o_max_payload := mp,
         o_max_read_req := mr, o_function_status := status, o_rcb_status := rcb\<rparr>\<rparr>))))))))"

text \<open>Flow control credits: constants by \<open>cfg_fc_sel\<close>, the same for the three kinds of packets.\<close>

definition us_flow :: "us_in \<Rightarrow> us_device \<Rightarrow> us_device" where
  "us_flow i d = (let on = in_fc_sel i \<in> {1, 4, 5} in
     d\<lparr>ud_out := (ud_out d)\<lparr>o_fc_header := (if on then 0x80 else 0), o_fc_data := (if on then 0x800 else 0)\<rparr>\<rparr>)"

definition usp_flow :: "us_in \<Rightarrow> us_device \<Rightarrow> us_device" where
  "usp_flow i d = (let on = in_fc_sel i \<in> {4, 5} in
     d\<lparr>ud_out := (ud_out d)\<lparr>o_fc_header := (if on then 0x80 else 0), o_fc_data := (if on then 0x800 else 0)\<rparr>\<rparr>)"

definition us_config_enable :: "us_in \<Rightarrow> us_device \<Rightarrow> us_device" where
  "us_config_enable i d = d\<lparr>ud_config_space_enable := in_running i \<and> in_config_space_enable i\<rparr>"

section \<open>Interrupts\<close>

definition us_pair_flags :: "(endpoint \<Rightarrow> bool) \<Rightarrow> endpoint list \<Rightarrow> int" where
  "us_pair_flags P fs = flag 0 (P (fs ! 0)) OR flag 1 (length fs > 1 \<and> P (fs ! 1))"

text \<open>An interrupt of a function is a memory write of the function.\<close>

definition us_issue ::
  "'e fabric \<Rightarrow> nat \<Rightarrow> int \<Rightarrow> (endpoint \<Rightarrow> (int \<times> bytes) option result) \<Rightarrow> 'e us_sys \<Rightarrow> 'e us_sys result" where
  "us_issue F k attr irq s =
     (case s of (d, e) \<Rightarrow>
        bindE (py_nth (dev_functions d) k) (\<lambda>f. bindE (irq f) (\<lambda>r.
          case r of
            None \<Rightarrow> Inr (d, e)
          | Some (addr, bs) \<Rightarrow>
              bindE (fn_mem_write endpoint_handler F attr 0 addr (PyBytes bs) (f, e)) (\<lambda>(f', e').
                Inr (d\<lparr>dev_functions := (dev_functions d)[k := f']\<rparr>, e')))))"

definition us_msi :: "'e fabric \<Rightarrow> us_in \<Rightarrow> 'e us_sys \<Rightarrow> 'e us_sys result" where
  "us_msi F i s0 =
     (case s0 of (d0, e0) \<Rightarrow>
        let d = d0\<lparr>ud_out := (ud_out d0)\<lparr>o_msi_enable := us_pair_flags (\<lambda>f. msi_enable (fn_msi f)) (dev_functions d0),
                     o_msi_sent := False, o_msi_fail := False\<rparr>\<rparr>;
            bits = filter (tst (in_msi_int i)) [0..<32]
        in if in_msi_int i \<noteq> 0 \<and> length bits = 1 \<and> in_msi_function i < length (dev_functions d) then
             bindE (us_issue F (in_msi_function i) (in_msi_attr i)
                 (\<lambda>f. issue_msi_interrupt (fn_msi f) (int (hd bits))) (d, e0)) (\<lambda>(d', e').
               Inr (d'\<lparr>ud_out := (ud_out d')\<lparr>o_msi_sent := True\<rparr>\<rparr>, e'))
           else Inr (d, e0))"

definition us_msi_ports :: "us_in \<Rightarrow> us_device \<Rightarrow> us_device result" where
  "us_msi_ports i d =
     (let fs = dev_functions d;
          mm = (msi_multiple_message_enable (fn_msi (fs ! 0)) AND 7) OR
               (if length fs > 1 then push_bit 3 (msi_multiple_message_enable (fn_msi (fs ! 1)) AND 7) else 0)
      in bindE (drive 32 (if in_msi_select i \<noteq> 15 \<and> in_msi_select i < length fs
                          then msi_mask_bits (fn_msi (fs ! in_msi_select i)) else 0)) (\<lambda>dat.
         Inr (d\<lparr>ud_out := (ud_out d)\<lparr>o_msi_mmenable := mm, o_msi_data := dat\<rparr>,
                dev_functions := (if in_msi_pending_enable i \<and> in_msi_pending_function i < length fs
                  then fs[in_msi_pending_function i := (fs ! in_msi_pending_function i)
                         \<lparr>fn_msi := (fn_msi (fs ! in_msi_pending_function i))
                            \<lparr>msi_pending_bits := in_msi_pending_status i\<rparr>\<rparr>]
                  else fs)\<rparr>)))"

definition us_msix_ports :: "us_device \<Rightarrow> us_device" where
  "us_msix_ports d = d\<lparr>ud_out := (ud_out d)
     \<lparr>o_msix_enable := us_pair_flags (\<lambda>f. msix_enable (fn_msix f)) (dev_functions d),
      o_msix_mask := us_pair_flags (\<lambda>f. msix_function_mask (fn_msix f)) (dev_functions d)\<rparr>\<rparr>"

definition us_msix_send :: "'e fabric \<Rightarrow> us_in \<Rightarrow> (us_out \<Rightarrow> us_out) \<Rightarrow> 'e us_sys \<Rightarrow> 'e us_sys result" where
  "us_msix_send F i ack s =
     (if in_msix_int i \<and> in_msi_function i < length (dev_functions (fst s)) then
        bindE (us_issue F (in_msi_function i) (in_msi_attr i)
            (\<lambda>f. issue_msix_interrupt (fn_msix f) (in_msix_address i) (in_msix_data i)) s) (\<lambda>(d', e').
          Inr (d'\<lparr>ud_out := ack (ud_out d')\<rparr>, e'))
      else Inr s)"

text \<open>MSI-X has its own acknowledgement in the UltraScale device; the UltraScale+ device uses the
  one of MSI.\<close>

definition us_msix :: "'e fabric \<Rightarrow> us_in \<Rightarrow> 'e us_sys \<Rightarrow> 'e us_sys result" where
  "us_msix F i s =
     (let d = us_msix_ports (fst s); d' = d\<lparr>ud_out := (ud_out d)\<lparr>o_msix_sent := False, o_msix_fail := False\<rparr>\<rparr>
      in us_msix_send F i (\<lambda>v. v\<lparr>o_msix_sent := True\<rparr>) (d', snd s))"

definition usp_msix :: "'e fabric \<Rightarrow> us_in \<Rightarrow> 'e us_sys \<Rightarrow> 'e us_sys result" where
  "usp_msix F i s =
     us_msix_send F i (\<lambda>v. v\<lparr>o_msi_sent := True\<rparr>) (us_msix_ports (fst s), snd s)"

section \<open>One clock edge\<close>

text \<open>The steps of \<open>logic\<close> in their order.\<close>

definition on_dev :: "(us_device \<Rightarrow> us_device result) \<Rightarrow> 'e us_sys \<Rightarrow> 'e us_sys result" where
  "on_dev g s = bindE (g (fst s)) (\<lambda>d. Inr (d, snd s))"

definition us_traffic :: "(us_device \<Rightarrow> us_device result) \<Rightarrow> 'e fabric \<Rightarrow> us_in \<Rightarrow> 'e us_sys \<Rightarrow> 'e us_sys result" where
  "us_traffic seq_out F i s0 =
     bindE (on_dev (us_requests i) s0) (\<lambda>s1.
     bindE (us_completions F (sk_queue (ud_cc_sink (fst s1))) s1) (\<lambda>s2.
     bindE (us_own_requests F (sk_queue (ud_rq_sink (fst s2))) s2) (\<lambda>s3.
     bindE (on_dev seq_out s3)
       (on_dev (\<lambda>d. us_drain_rc (ud_rc_queue d) d)))))"

definition us_logic :: "'e fabric \<Rightarrow> us_in \<Rightarrow> 'e us_sys \<Rightarrow> 'e us_sys result" where
  "us_logic F i s0 =
     bindE (us_traffic us_seq_out F i s0) (\<lambda>s1.
     bindE (on_dev (\<lambda>d. Inr (d\<lparr>ud_out := (ud_out d)\<lparr>o_tfc_nph_av := 3, o_tfc_npd_av := 3\<rparr>\<rparr>)) s1) (\<lambda>s2.
     bindE (on_dev (us_mgmt i) s2) (\<lambda>s3.
     bindE (on_dev (\<lambda>d. us_status (us_link_state i d)) s3) (\<lambda>s4.
     bindE (on_dev (\<lambda>d. Inr (us_config_enable i (us_flow i d))) s4) (\<lambda>s5.
     bindE (us_msi F i s5) (\<lambda>s6.
     bindE (on_dev (us_msi_ports i) s6) (us_msix F i)))))))"

definition usp_logic :: "'e fabric \<Rightarrow> us_in \<Rightarrow> 'e us_sys \<Rightarrow> 'e us_sys result" where
  "usp_logic F i s0 =
     bindE (us_traffic usp_seq_out F i s0) (\<lambda>s1.
     bindE (on_dev (\<lambda>d. Inr (d\<lparr>ud_out := (ud_out d)\<lparr>o_tfc_nph_av := 0xf, o_tfc_npd_av := 0xf\<rparr>\<rparr>)) s1) (\<lambda>s2.
     bindE (on_dev (usp_mgmt i) s2) (\<lambda>s3.
     bindE (on_dev (\<lambda>d. usp_status (us_link_state i d)) s3) (\<lambda>s4.
     bindE (on_dev (\<lambda>d. Inr (us_config_enable i (usp_flow i d))) s4) (\<lambda>s5.
     bindE (us_msi F i s5) (\<lambda>s6.
     bindE (on_dev (us_msi_ports i) s6) (usp_msix F i)))))))"

end
