(* ===== verification/UsCredit.thy ===== *)
theory UsCredit
  imports UsDevice "HOL-Library.Multiset"
begin

text \<open>
  One clock edge of the core, seen from the queues of requests: which requests \<open>logic\<close> hands to
  the completer request source, what the credits do to their order, that the other parts of an
  edge leave them alone, and that an edge on which the user asks for nothing raises nothing.
\<close>

section \<open>Reordering by credits\<close>

text \<open>A posted request may overtake a non-posted one that waits for a credit; nothing else moves.\<close>

inductive us_pass :: "tlp_us list \<Rightarrow> tlp_us list \<Rightarrow> bool" where
  "us_non_posted a \<Longrightarrow> \<not> us_non_posted b \<Longrightarrow> us_pass (xs @ a # b # ys) (xs @ b # a # ys)"

abbreviation us_passes :: "tlp_us list \<Rightarrow> tlp_us list \<Rightarrow> bool" where
  "us_passes \<equiv> us_pass\<^sup>*\<^sup>*"

lemma pass_swap: "us_non_posted a \<Longrightarrow> \<not> us_non_posted b \<Longrightarrow> us_passes (a # b # ys) (b # a # ys)"
  using us_pass.intros[of a b "[]" ys] by auto

lemma pass_append: "us_pass as bs \<Longrightarrow> us_pass (as @ ys) (bs @ ys)"
  by (elim us_pass.cases) (use us_pass.intros in fastforce)

lemma passes_append: "us_passes as bs \<Longrightarrow> us_passes (as @ ys) (bs @ ys)"
  by (induction rule: rtranclp_induct) (auto intro: pass_append rtranclp.rtrancl_into_rtrancl)

lemma pass_prepend: "us_pass as bs \<Longrightarrow> us_pass (zs @ as) (zs @ bs)"
  by (elim us_pass.cases) (use us_pass.intros[where xs = "zs @ _"] in fastforce)

lemma passes_prepend: "us_passes as bs \<Longrightarrow> us_passes (zs @ as) (zs @ bs)"
  by (induction rule: rtranclp_induct) (auto intro: pass_prepend rtranclp.rtrancl_into_rtrancl)

lemma passes_Cons: "us_passes as bs \<Longrightarrow> us_passes (z # as) (z # bs)"
  using passes_prepend[of as bs "[z]"] by simp

lemma passes_over: "\<forall>x \<in> set xs. us_non_posted x \<Longrightarrow> \<not> us_non_posted b \<Longrightarrow> us_passes (xs @ b # ys) (b # xs @ ys)"
proof (induction xs)
  case (Cons x xs)
  then have "us_passes (x # xs @ b # ys) (x # b # xs @ ys)" by (intro passes_Cons) simp
  also have "us_passes (x # b # xs @ ys) (b # x # xs @ ys)" using Cons.prems by (intro pass_swap) simp_all
  finally show ?case by simp
qed simp

lemma pass_keeps: "us_pass as bs \<Longrightarrow> filter us_non_posted as = filter us_non_posted bs \<and>
    filter (\<lambda>t. \<not> us_non_posted t) as = filter (\<lambda>t. \<not> us_non_posted t) bs \<and> mset as = mset bs"
  by (elim us_pass.cases) (simp add: add_mset_commute)

lemma passes_keep: "us_passes as bs \<Longrightarrow> filter us_non_posted as = filter us_non_posted bs \<and>
    filter (\<lambda>t. \<not> us_non_posted t) as = filter (\<lambda>t. \<not> us_non_posted t) bs \<and> mset as = mset bs"
  by (induction rule: rtranclp_induct) (simp, metis pass_keeps)

abbreviation us_np_count :: "tlp_us list \<Rightarrow> int" where
  "us_np_count ts \<equiv> int (length (filter us_non_posted ts))"

section \<open>The request part of a clock edge\<close>

lemma us_cq_send_Inr: "us_cq_send t d = Inr d' \<longleftrightarrow>
    (\<exists>f. pack_us_cq t = Inr f \<and> d' = d\<lparr>ud_cq_source := us_send f (ud_cq_source d)\<rparr>)"
  by (auto simp: us_cq_send_def bindE_Inr_iff)

lemma mapE_append: "mapE f (xs @ ys) = bindE (mapE f xs) (\<lambda>as. bindE (mapE f ys) (\<lambda>bs. Inr (as @ bs)))"
proof (induction xs)
  case Nil
  show ?case by (cases "mapE f ys") simp_all
next
  case (Cons x xs)
  show ?case by (simp add: Cons.IH bindE_assoc)
qed

text \<open>What the two loops have done: \<open>snt\<close> is what they sent, in order, \<open>fs\<close> its frames.\<close>

definition us_drained :: "tlp_us list \<Rightarrow> us_frame list \<Rightarrow> us_device \<Rightarrow> us_device \<Rightarrow> bool" where
  "us_drained snt fs d d' \<longleftrightarrow> mapE pack_us_cq snt = Inr fs \<and>
     ud_cq_source d' = fold us_send fs (ud_cq_source d) \<and>
     ud_cq_np_req_count d' + us_np_count snt = ud_cq_np_req_count d \<and> 0 \<le> ud_cq_np_req_count d' \<and>
     (\<forall>t \<in> set (ud_cq_np_queue d'). us_non_posted t) \<and>
     (ud_cq_np_queue d' = [] \<or> ud_cq_np_req_count d' = 0)"

lemma us_drain_np:
  assumes "us_drain_np ts d = Inr d'" "\<forall>t \<in> set ts. us_non_posted t" "0 \<le> ud_cq_np_req_count d"
  shows "\<exists>snt fs. us_drained snt fs d d' \<and> ts = snt @ ud_cq_np_queue d' \<and> ud_cq_queue d' = ud_cq_queue d"
  using assms
proof (induction ts arbitrary: d)
  case Nil
  then show ?case by (intro exI[of _ "[]"]) (auto simp: us_drained_def)
next
  case (Cons t ts)
  show ?case
  proof (cases "0 < ud_cq_np_req_count d")
    case True
    then obtain f where f: "pack_us_cq t = Inr f" and r: "us_drain_np ts (d\<lparr>ud_cq_np_req_count := ud_cq_np_req_count d - 1,
        ud_cq_source := us_send f (ud_cq_source d)\<rparr>) = Inr d'"
      using Cons.prems(1) by (auto simp: bindE_Inr_iff us_cq_send_Inr)
    then obtain snt fs where "us_drained snt fs (d\<lparr>ud_cq_np_req_count := ud_cq_np_req_count d - 1,
        ud_cq_source := us_send f (ud_cq_source d)\<rparr>) d'" "ts = snt @ ud_cq_np_queue d'" "ud_cq_queue d' = ud_cq_queue d"
      using Cons.IH[OF r] Cons.prems(2) True by auto
    then show ?thesis
      using f Cons.prems(2) by (intro exI[of _ "t # snt"] exI[of _ "f # fs"]) (auto simp: us_drained_def)
  next
    case False
    then show ?thesis using Cons.prems by (intro exI[of _ "[]"]) (auto simp: us_drained_def)
  qed
qed

lemma us_drain_cq:
  assumes "us_drain_cq ts d = Inr d'" "\<forall>t \<in> set (ud_cq_np_queue d). us_non_posted t" "0 \<le> ud_cq_np_req_count d"
    and "ud_cq_np_queue d = [] \<or> ud_cq_np_req_count d = 0"
  shows "\<exists>snt fs. us_drained snt fs d d' \<and> us_passes (ud_cq_np_queue d @ ts) (snt @ ud_cq_np_queue d') \<and> ud_cq_queue d' = []"
  using assms
proof (induction ts arbitrary: d)
  case Nil
  then show ?case by (intro exI[of _ "[]"]) (auto simp: us_drained_def)
next
  case (Cons t ts)
  have sent: ?case if np: "us_non_posted t \<Longrightarrow> 0 < ud_cq_np_req_count d"
    and r: "bindE (us_cq_send t (d\<lparr>ud_cq_np_req_count := ud_cq_np_req_count d - (if us_non_posted t then 1 else 0)\<rparr>)) (us_drain_cq ts) = Inr d'"
  proof -
    define d1 where "d1 = d\<lparr>ud_cq_np_req_count := ud_cq_np_req_count d - (if us_non_posted t then 1 else 0)\<rparr>"
    obtain f where f: "pack_us_cq t = Inr f" and r': "us_drain_cq ts (d1\<lparr>ud_cq_source := us_send f (ud_cq_source d1)\<rparr>) = Inr d'"
      using r by (auto simp: bindE_Inr_iff us_cq_send_Inr d1_def)
    have ok: "0 \<le> ud_cq_np_req_count d1" "ud_cq_np_queue d1 = [] \<or> ud_cq_np_req_count d1 = 0"
      using np Cons.prems(3,4) by (auto simp: d1_def)
    have "\<exists>snt fs. us_drained snt fs (d1\<lparr>ud_cq_source := us_send f (ud_cq_source d1)\<rparr>) d' \<and>
        us_passes (ud_cq_np_queue d @ ts) (snt @ ud_cq_np_queue d') \<and> ud_cq_queue d' = []"
      using Cons.IH[OF r'] ok Cons.prems(2) by (simp add: d1_def)
    then obtain snt fs where s: "us_drained snt fs (d1\<lparr>ud_cq_source := us_send f (ud_cq_source d1)\<rparr>) d'"
      "us_passes (ud_cq_np_queue d @ ts) (snt @ ud_cq_np_queue d')" "ud_cq_queue d' = []"
      by (elim exE conjE)
    have "us_passes (ud_cq_np_queue d @ t # ts) (t # ud_cq_np_queue d @ ts)"
    proof (cases "us_non_posted t")
      case True
      then show ?thesis using np Cons.prems(4) by simp
    next
      case False
      then show ?thesis by (rule passes_over[OF Cons.prems(2)])
    qed
    also have "us_passes \<dots> (t # snt @ ud_cq_np_queue d')" by (rule passes_Cons[OF s(2)])
    finally show ?thesis
      using s(1,3) f by (intro exI[of _ "t # snt"] exI[of _ "f # fs"]) (auto simp: us_drained_def d1_def)
  qed
  show ?case
  proof (cases "us_non_posted t \<and> \<not> 0 < ud_cq_np_req_count d")
    case True
    then have r: "us_drain_cq ts (d\<lparr>ud_cq_np_queue := ud_cq_np_queue d @ [t]\<rparr>) = Inr d'" using Cons.prems(1) by simp
    have "ud_cq_np_req_count d = 0" using True Cons.prems(3) by simp
    then show ?thesis using Cons.IH[OF r] Cons.prems True by (auto simp: us_drained_def)
  next
    case False
    then show ?thesis using Cons.prems(1) by (intro sent) (auto split: if_splits)
  qed
qed

definition us_cq_inv :: "us_device \<Rightarrow> bool" where
  "us_cq_inv d \<longleftrightarrow> (\<forall>t \<in> set (ud_cq_np_queue d). us_non_posted t) \<and>
     0 \<le> ud_cq_np_req_count d \<and> ud_cq_np_req_count d \<le> 32 \<and>
     (ud_cq_np_queue d = [] \<or> ud_cq_np_req_count d = 0)"

definition us_grant :: "us_in \<Rightarrow> bool" where
  "us_grant i \<longleftrightarrow> in_running i \<and> in_cq_np_req i"

lemma us_credit_frame [simp]:
  "ud_cq_queue (us_credit i d) = ud_cq_queue d" "ud_cq_np_queue (us_credit i d) = ud_cq_np_queue d"
  "ud_cq_source (us_credit i d) = ud_cq_source d"
  by (simp_all add: us_credit_def)

lemma us_credit_count: "us_cq_inv d \<Longrightarrow> 0 \<le> ud_cq_np_req_count (us_credit i d) \<and> ud_cq_np_req_count (us_credit i d) \<le> 32 \<and>
    ud_cq_np_req_count (us_credit i d) \<le> ud_cq_np_req_count d + (if us_grant i then 1 else 0) \<and>
    (us_grant i \<longrightarrow> 0 < ud_cq_np_req_count (us_credit i d))"
  by (auto simp: us_credit_def us_cq_inv_def us_grant_def)

text \<open>An edge sends a prefix of a permitted reordering, spends a credit for each non-posted request
  sent, and stops at a non-posted request only without a credit.\<close>

lemma us_requests_edge:
  assumes "us_requests i d = Inr d'" "us_cq_inv d"
  shows "\<exists>snt fs. mapE pack_us_cq snt = Inr fs \<and> ud_cq_source d' = fold us_send fs (ud_cq_source d) \<and>
    us_passes (ud_cq_np_queue d @ ud_cq_queue d) (snt @ ud_cq_np_queue d') \<and> ud_cq_queue d' = [] \<and> us_cq_inv d' \<and>
    ud_cq_np_req_count d' + us_np_count snt = ud_cq_np_req_count (us_credit i d)"
proof -
  define c where "c = us_credit i d"
  obtain d2 d3 where r: "us_drain_np (ud_cq_np_queue c) c = Inr d2" "us_drain_cq (ud_cq_queue d2) d2 = Inr d3"
    "d' = d3\<lparr>ud_out := (ud_out d3)\<lparr>o_cq_np_req_count := ud_cq_np_req_count d3\<rparr>\<rparr>"
    using assms(1) by (auto simp: us_requests_def Let_def bindE_Inr_iff drive_def c_def split: if_splits)
  have c: "\<forall>t \<in> set (ud_cq_np_queue c). us_non_posted t" "0 \<le> ud_cq_np_req_count c" "ud_cq_np_req_count c \<le> 32"
    using assms(2) us_credit_count[OF assms(2)] by (simp_all add: c_def us_cq_inv_def)
  obtain s1 f1 where 1: "us_drained s1 f1 c d2" "ud_cq_np_queue c = s1 @ ud_cq_np_queue d2" "ud_cq_queue d2 = ud_cq_queue c"
    using us_drain_np[OF r(1) c(1,2)] by blast
  obtain s2 f2 where 2: "us_drained s2 f2 d2 d3" "us_passes (ud_cq_np_queue d2 @ ud_cq_queue d2) (s2 @ ud_cq_np_queue d3)"
    "ud_cq_queue d3 = []"
    using us_drain_cq[OF r(2)] 1(1) by (auto simp: us_drained_def)
  have "us_passes (ud_cq_np_queue d @ ud_cq_queue d) ((s1 @ s2) @ ud_cq_np_queue d')"
    using passes_prepend[OF 2(2), of s1] 1(2,3) by (simp add: c_def r(3))
  moreover have "us_cq_inv d'" using 1(1) 2(1) c(3) by (auto simp: us_drained_def us_cq_inv_def r(3))
  ultimately show ?thesis
    using 1(1) 2(1,3) by (intro exI[of _ "s1 @ s2"] exI[of _ "f1 @ f2"])
      (auto simp: us_drained_def mapE_append c_def r(3) fold_us_send)
qed

section \<open>The other parts of an edge\<close>

definition us_cq_view :: "us_device \<Rightarrow> tlp_us list \<times> tlp_us list \<times> int \<times> us_source" where
  "us_cq_view d = (ud_cq_queue d, ud_cq_np_queue d, ud_cq_np_req_count d, ud_cq_source d)"

named_theorems cq_view

lemma on_dev_Inr: "on_dev g s = Inr s' \<longleftrightarrow> (\<exists>d. g (fst s) = Inr d \<and> s' = (d, snd s))"
  by (auto simp: on_dev_def bindE_Inr_iff)

lemma on_dev_view [cq_view]:
  "on_dev g s = Inr s' \<Longrightarrow> (\<And>d d'. g d = Inr d' \<Longrightarrow> us_cq_view d' = us_cq_view d) \<Longrightarrow> us_cq_view (fst s') = us_cq_view (fst s)"
  by (auto simp: on_dev_Inr)

lemma us_completions_view [cq_view]: "us_completions F ps s = Inr s' \<Longrightarrow> us_cq_view (fst s') = us_cq_view (fst s)"
  by (induction F ps s rule: us_completions.induct) (auto simp: us_cq_view_def bindE_Inr_iff split: if_splits)

lemma us_own_requests_view [cq_view]: "us_own_requests F ps s = Inr s' \<Longrightarrow> us_cq_view (fst s') = us_cq_view (fst s)"
proof (induction ps arbitrary: s)
  case Nil
  then show ?case by (cases s) (auto simp: us_cq_view_def)
next
  case (Cons p ps)
  obtain d e where s: "s = (d, e)" by (cases s)
  show ?case
    using Cons.prems unfolding s us_own_requests.simps Let_def bindE_Inr_iff
    by (elim exE conjE) (auto simp: bindE_Inr_iff us_cq_view_def dest!: Cons.IH split: if_splits)
qed

lemma us_drain_rc_view [cq_view]: "us_drain_rc ts d = Inr d' \<Longrightarrow> us_cq_view d' = us_cq_view d"
  by (induction ts arbitrary: d) (auto simp: us_cq_view_def bindE_Inr_iff)

lemma seq_out_view [cq_view]:
  "us_seq_out d = Inr d' \<Longrightarrow> us_cq_view d' = us_cq_view d"
  "usp_seq_out d = Inr d' \<Longrightarrow> us_cq_view d' = us_cq_view d"
  by (cases "ud_rq_seq_num d"; cases "tl (ud_rq_seq_num d)";
      force simp: us_seq_out_def usp_seq_out_def us_cq_view_def bindE_Inr_iff Let_def)+

lemma mgmt_view [cq_view]:
  "us_mgmt i d = Inr d' \<Longrightarrow> us_cq_view d' = us_cq_view d"
  "usp_mgmt i d = Inr d' \<Longrightarrow> us_cq_view d' = us_cq_view d"
  by (auto simp: us_mgmt_def usp_mgmt_def us_mgmt_read_def us_mgmt_write_def us_mgmt_done_def us_cq_view_def
      bindE_Inr_iff Let_def split: if_splits option.splits)

lemma status_view [cq_view]:
  "us_status d = Inr d' \<Longrightarrow> us_cq_view d' = us_cq_view d"
  "usp_status d = Inr d' \<Longrightarrow> us_cq_view d' = us_cq_view d"
  by (auto simp: us_status_def usp_status_def us_cq_view_def bindE_Inr_iff Let_def)

lemma simple_view [simp]:
  "us_cq_view (us_link_state i d) = us_cq_view d" "us_cq_view (us_config_enable i d) = us_cq_view d"
  "us_cq_view (us_flow i d) = us_cq_view d" "us_cq_view (usp_flow i d) = us_cq_view d"
  "us_cq_view (us_msix_ports d) = us_cq_view d" "us_cq_view (d\<lparr>ud_out := v\<rparr>) = us_cq_view d"
  "us_cq_view (d\<lparr>dev_functions := fs\<rparr>) = us_cq_view d"
  by (simp_all add: us_link_state_def us_config_enable_def us_flow_def usp_flow_def us_msix_ports_def us_cq_view_def Let_def)

lemma us_issue_view [cq_view]: "us_issue F k attr irq s = Inr s' \<Longrightarrow> us_cq_view (fst s') = us_cq_view (fst s)"
  by (cases s) (auto simp: us_issue_def bindE_Inr_iff split: option.splits)

lemma us_msi_view [cq_view]: "us_msi F i s = Inr s' \<Longrightarrow> us_cq_view (fst s') = us_cq_view (fst s)"
  by (cases s) (auto simp: us_msi_def bindE_Inr_iff Let_def dest!: us_issue_view split: if_splits)

lemma us_msi_ports_view [cq_view]: "us_msi_ports i d = Inr d' \<Longrightarrow> us_cq_view d' = us_cq_view d"
  by (auto simp: us_msi_ports_def bindE_Inr_iff Let_def us_cq_view_def)

lemma us_msix_send_view: "us_msix_send F i ack s = Inr s' \<Longrightarrow> us_cq_view (fst s') = us_cq_view (fst s)"
  by (auto simp: us_msix_send_def bindE_Inr_iff dest!: us_issue_view split: if_splits)

lemma us_msix_view [cq_view]:
  "us_msix F i s = Inr s' \<Longrightarrow> us_cq_view (fst s') = us_cq_view (fst s)"
  "usp_msix F i s = Inr s' \<Longrightarrow> us_cq_view (fst s') = us_cq_view (fst s)"
  by (auto simp: us_msix_def usp_msix_def Let_def dest!: us_msix_send_view)

lemma us_traffic_view:
  assumes "us_traffic q F i s = Inr s'" "\<And>d d'. q d = Inr d' \<Longrightarrow> us_cq_view d' = us_cq_view d"
  shows "\<exists>d. us_requests i (fst s) = Inr d \<and> us_cq_view (fst s') = us_cq_view d"
proof -
  obtain s1 s2 s3 s4 where r: "on_dev (us_requests i) s = Inr s1" "us_completions F (sk_queue (ud_cc_sink (fst s1))) s1 = Inr s2"
    "us_own_requests F (sk_queue (ud_rq_sink (fst s2))) s2 = Inr s3" "on_dev q s3 = Inr s4"
    "on_dev (\<lambda>d. us_drain_rc (ud_rc_queue d) d) s4 = Inr s'"
    using assms(1) unfolding us_traffic_def bindE_Inr_iff by blast
  show ?thesis
    using r(1) us_completions_view[OF r(2)] us_own_requests_view[OF r(3)] on_dev_view[OF r(4) assms(2)]
      on_dev_view[OF r(5) us_drain_rc_view] by (auto simp: on_dev_Inr)
qed

definition core_logic :: "bool \<Rightarrow> 'e fabric \<Rightarrow> us_in \<Rightarrow> 'e us_sys \<Rightarrow> 'e us_sys result" where
  "core_logic up = (if up then usp_logic else us_logic)"

lemma core_logic_view:
  assumes "core_logic up F i s = Inr s'"
  shows "\<exists>d. us_requests i (fst s) = Inr d \<and> us_cq_view (fst s') = us_cq_view d"
proof (cases up)
  case True
  then have l: "usp_logic F i s = Inr s'" using assms by (simp add: core_logic_def)
  obtain s1 s2 s3 s4 s5 s6 s7 where r: "us_traffic usp_seq_out F i s = Inr s1"
    "on_dev (\<lambda>d. Inr (d\<lparr>ud_out := (ud_out d)\<lparr>o_tfc_nph_av := 0xf, o_tfc_npd_av := 0xf\<rparr>\<rparr>)) s1 = Inr s2"
    "on_dev (usp_mgmt i) s2 = Inr s3" "on_dev (\<lambda>d. usp_status (us_link_state i d)) s3 = Inr s4"
    "on_dev (\<lambda>d. Inr (us_config_enable i (usp_flow i d))) s4 = Inr s5" "us_msi F i s5 = Inr s6"
    "on_dev (us_msi_ports i) s6 = Inr s7" "usp_msix F i s7 = Inr s'"
    using l unfolding usp_logic_def bindE_Inr_iff by blast
  show ?thesis
    using us_traffic_view[OF r(1) seq_out_view(2)] r(2,5) on_dev_view[OF r(3) mgmt_view(2)] on_dev_view[OF r(4)]
      status_view(2) us_msi_view[OF r(6)] on_dev_view[OF r(7) us_msi_ports_view] us_msix_view(2)[OF r(8)]
    by (auto simp: on_dev_Inr)
next
  case False
  then have l: "us_logic F i s = Inr s'" using assms by (simp add: core_logic_def)
  obtain s1 s2 s3 s4 s5 s6 s7 where r: "us_traffic us_seq_out F i s = Inr s1"
    "on_dev (\<lambda>d. Inr (d\<lparr>ud_out := (ud_out d)\<lparr>o_tfc_nph_av := 3, o_tfc_npd_av := 3\<rparr>\<rparr>)) s1 = Inr s2"
    "on_dev (us_mgmt i) s2 = Inr s3" "on_dev (\<lambda>d. us_status (us_link_state i d)) s3 = Inr s4"
    "on_dev (\<lambda>d. Inr (us_config_enable i (us_flow i d))) s4 = Inr s5" "us_msi F i s5 = Inr s6"
    "on_dev (us_msi_ports i) s6 = Inr s7" "us_msix F i s7 = Inr s'"
    using l unfolding us_logic_def bindE_Inr_iff by blast
  show ?thesis
    using us_traffic_view[OF r(1) seq_out_view(1)] r(2,5) on_dev_view[OF r(3) mgmt_view(1)] on_dev_view[OF r(4)]
      status_view(1) us_msi_view[OF r(6)] on_dev_view[OF r(7) us_msi_ports_view] us_msix_view(1)[OF r(8)]
    by (auto simp: on_dev_Inr)
qed

text \<open>A packet from the link only adds to the queue of requests, at most one.\<close>

lemma us_upstream_recv_view:
  assumes "us_upstream_recv lg t d = Inr (d', out)"
  shows "\<exists>new. ud_cq_queue d' = ud_cq_queue d @ new \<and> ud_cq_np_queue d' = ud_cq_np_queue d \<and>
    ud_cq_np_req_count d' = ud_cq_np_req_count d \<and> ud_cq_source d' = ud_cq_source d \<and> length new \<le> 1"
proof -
  define P where "P x \<longleftrightarrow> (\<exists>new. ud_cq_queue x = ud_cq_queue d @ new \<and> ud_cq_np_queue x = ud_cq_np_queue d \<and>
    ud_cq_np_req_count x = ud_cq_np_req_count d \<and> ud_cq_source x = ud_cq_source d \<and> length new \<le> 1)" for x :: us_device
  have P: "P d" "P (d\<lparr>ud_rc_queue := q\<rparr>)" "P (us_completer_request t f k ap d)" "P (d\<lparr>dev_bus_num := b, dev_functions := fs\<rparr>)"
    for q f k ap b fs by (auto simp: P_def us_completer_request_def)
  have "P d'"
    using assms P unfolding us_upstream_recv_def Let_def
    by (auto simp: bindE_Inr_iff split: if_splits option.splits)
  then show ?thesis by (simp add: P_def)
qed

section \<open>An edge that raises nothing\<close>

text \<open>The registers the ports show fit their signals, the user's packets have been handled, sequence
  numbers fit their signal, and only completions wait for the user.\<close>

definition us_function_ok :: "endpoint \<Rightarrow> bool" where
  "us_function_ok f \<longleftrightarrow> fits 4 (negotiated_link_width (r_link_sta (fn_pcie f))) \<and>
     fits 3 (max_payload_size (r_dev_ctl (fn_pcie f))) \<and> fits 3 (max_read_request_size (r_dev_ctl (fn_pcie f))) \<and>
     fits 32 (msi_mask_bits (fn_msi f))"

definition us_ports_ok :: "us_device \<Rightarrow> bool" where
  "us_ports_ok d \<longleftrightarrow> dev_functions d \<noteq> [] \<and> length (dev_functions d) \<le> 4 \<and>
     list_all us_function_ok (dev_functions d) \<and> sk_queue (ud_cc_sink d) = [] \<and> sk_queue (ud_rq_sink d) = [] \<and>
     list_all (fits 4) (ud_rq_seq_num d) \<and> list_all (\<lambda>t. is_cpl_type (us_fmt_type t)) (ud_rc_queue d)"

definition us_queues_ok :: "us_device \<Rightarrow> bool" where
  "us_queues_ok d \<longleftrightarrow> list_all (\<lambda>t. us_mem_io (us_fmt_type t)) (ud_cq_np_queue d @ ud_cq_queue d) \<and> us_cq_inv d"

text \<open>The user asks for no configuration access and no interrupt.\<close>

definition us_quiet :: "us_in \<Rightarrow> bool" where
  "us_quiet i \<longleftrightarrow> \<not> in_mgmt_read i \<and> \<not> in_mgmt_write i \<and> in_msi_int i = 0 \<and> \<not> in_msix_int i"

definition us_returns :: "'e us_sys result \<Rightarrow> 'e \<Rightarrow> bool" where
  "us_returns m e \<longleftrightarrow> (\<exists>d. m = Inr (d, e) \<and> us_ports_ok d)"

lemma us_returns_bind: "us_returns m e \<Longrightarrow> (\<And>d. us_ports_ok d \<Longrightarrow> us_returns (f (d, e)) e) \<Longrightarrow> us_returns (bindE m f) e"
  by (auto simp: us_returns_def)

lemma us_returns_dev: "us_ports_ok d \<Longrightarrow> (\<And>d. us_ports_ok d \<Longrightarrow> \<exists>d'. g d = Inr d' \<and> us_ports_ok d') \<Longrightarrow> us_returns (on_dev g (d, e)) e"
  by (fastforce simp: us_returns_def on_dev_def)

lemma ports_ok_frame [simp]:
  "us_ports_ok (d\<lparr>ud_out := v\<rparr>) = us_ports_ok d" "us_ports_ok (d\<lparr>ud_cq_queue := q\<rparr>) = us_ports_ok d"
  "us_ports_ok (d\<lparr>ud_cq_np_queue := q\<rparr>) = us_ports_ok d" "us_ports_ok (d\<lparr>ud_cq_np_req_count := n\<rparr>) = us_ports_ok d"
  "us_ports_ok (d\<lparr>ud_cq_source := c\<rparr>) = us_ports_ok d" "us_ports_ok (d\<lparr>ud_rc_source := c\<rparr>) = us_ports_ok d"
  "us_ports_ok (d\<lparr>ud_config_space_enable := b\<rparr>) = us_ports_ok d"
  "us_ports_ok (us_link_state i d) = us_ports_ok d" "us_ports_ok (us_config_enable i d) = us_ports_ok d"
  "us_ports_ok (us_flow i d) = us_ports_ok d" "us_ports_ok (usp_flow i d) = us_ports_ok d"
  "us_ports_ok (us_msix_ports d) = us_ports_ok d" "us_ports_ok (us_credit i d) = us_ports_ok d"
  "us_ports_ok (us_mgmt_done b d) = us_ports_ok d"
  by (simp_all add: us_ports_ok_def us_link_state_def us_config_enable_def us_flow_def usp_flow_def us_msix_ports_def
      us_credit_def us_mgmt_done_def Let_def)

lemma pack_us_cq_total: "us_mem_io (us_fmt_type t) \<Longrightarrow> \<exists>f. pack_us_cq t = Inr f"
  by (simp add: pack_us_cq_def)

lemma us_drain_np_total:
  "list_all (\<lambda>t. us_mem_io (us_fmt_type t)) ts \<Longrightarrow> us_ports_ok d \<Longrightarrow>
   \<exists>d'. us_drain_np ts d = Inr d' \<and> us_ports_ok d' \<and> ud_cq_queue d' = ud_cq_queue d"
proof (induction ts arbitrary: d)
  case (Cons t ts)
  obtain f where f: "pack_us_cq t = Inr f" using pack_us_cq_total[of t] Cons.prems by auto
  show ?case
    using Cons.IH[of "d\<lparr>ud_cq_np_req_count := ud_cq_np_req_count d - 1, ud_cq_source := us_send f (ud_cq_source d)\<rparr>"]
      Cons.prems f by (auto simp: us_cq_send_def)
qed auto

lemma us_drain_cq_total:
  "list_all (\<lambda>t. us_mem_io (us_fmt_type t)) ts \<Longrightarrow> us_ports_ok d \<Longrightarrow> \<exists>d'. us_drain_cq ts d = Inr d' \<and> us_ports_ok d'"
proof (induction ts arbitrary: d)
  case (Cons t ts)
  have ok: "us_mem_io (us_fmt_type t)" "list_all (\<lambda>t. us_mem_io (us_fmt_type t)) ts" using Cons.prems by simp_all
  obtain f where f: "pack_us_cq t = Inr f" using pack_us_cq_total[OF ok(1)] by blast
  have "\<exists>d'. bindE (us_cq_send t d1) (us_drain_cq ts) = Inr d' \<and> us_ports_ok d'" if "us_ports_ok d1" for d1
    using Cons.IH[OF ok(2), of "d1\<lparr>ud_cq_source := us_send f (ud_cq_source d1)\<rparr>"] that f by (simp add: us_cq_send_def)
  then show ?case using Cons.IH[OF ok(2)] Cons.prems(2) by simp
qed simp

lemma us_requests_total:
  assumes "us_ports_ok d" "us_queues_ok d"
  shows "\<exists>d'. us_requests i d = Inr d' \<and> us_ports_ok d'"
proof -
  define c where "c = us_credit i d"
  have ok: "list_all (\<lambda>t. us_mem_io (us_fmt_type t)) (ud_cq_np_queue c)" "list_all (\<lambda>t. us_mem_io (us_fmt_type t)) (ud_cq_queue c)"
    "us_ports_ok c" using assms by (simp_all add: us_queues_ok_def c_def)
  obtain d2 where d2: "us_drain_np (ud_cq_np_queue c) c = Inr d2" "us_ports_ok d2" "ud_cq_queue d2 = ud_cq_queue c"
    using us_drain_np_total[OF ok(1,3)] by (elim exE conjE)
  obtain d3 where d3: "us_drain_cq (ud_cq_queue d2) d2 = Inr d3" "us_ports_ok d3"
    using us_drain_cq_total[of "ud_cq_queue d2" d2] ok(2) d2(2,3) by auto
  have c: "\<forall>t \<in> set (ud_cq_np_queue c). us_non_posted t" "0 \<le> ud_cq_np_req_count c" "ud_cq_np_req_count c \<le> 32"
    using assms(2) us_credit_count[of d i] by (simp_all add: c_def us_queues_ok_def us_cq_inv_def)
  obtain s1 f1 where 1: "us_drained s1 f1 c d2" using us_drain_np[OF d2(1) c(1,2)] by blast
  obtain s2 f2 where 2: "us_drained s2 f2 d2 d3" using us_drain_cq[OF d3(1)] 1 by (auto simp: us_drained_def)
  have "fits 6 (ud_cq_np_req_count d3)" using 1 2 c(3) by (auto simp: us_drained_def fits_def)
  then show ?thesis using d2 d3 by (auto simp: us_requests_def Let_def c_def drive_def)
qed

lemma us_drain_rc_total:
  "list_all (\<lambda>t. is_cpl_type (us_fmt_type t)) ts \<Longrightarrow> us_ports_ok d \<Longrightarrow> \<exists>d'. us_drain_rc ts d = Inr d' \<and> us_ports_ok d'"
proof (induction ts arbitrary: d)
  case Nil
  then show ?case by (auto simp: us_ports_ok_def)
next
  case (Cons t ts)
  have "\<exists>f. pack_us_rc t = Inr f" using Cons.prems(1) by (simp add: pack_us_rc_def)
  then show ?case using Cons.IH Cons.prems by auto
qed

lemma seq_out_total:
  assumes "us_ports_ok d"
  shows "\<exists>d'. us_seq_out d = Inr d' \<and> us_ports_ok d'" "\<exists>d'. usp_seq_out d = Inr d' \<and> us_ports_ok d'"
proof -
  have "fits 6 x" if "fits 4 x" for x using fits_mono[OF that] by simp
  then show "\<exists>d'. us_seq_out d = Inr d' \<and> us_ports_ok d'" "\<exists>d'. usp_seq_out d = Inr d' \<and> us_ports_ok d'"
    using assms by (cases "ud_rq_seq_num d"; cases "tl (ud_rq_seq_num d)";
      simp add: us_seq_out_def usp_seq_out_def drive_def us_ports_ok_def Let_def)+
qed

lemma mgmt_total:
  assumes "us_ports_ok d" "us_quiet i"
  shows "\<exists>d'. us_mgmt i d = Inr d' \<and> us_ports_ok d'" "\<exists>d'. usp_mgmt i d = Inr d' \<and> us_ports_ok d'"
  using assms by (auto simp: us_mgmt_def usp_mgmt_def us_quiet_def Let_def)

lemma us_flags_fit: "fits 4 (us_function_flags f)"
  by (simp add: us_function_flags_def fits_def)

lemma usp_join_fits: "(\<And>f. fits w (g f)) \<Longrightarrow> w * (k + length fs) \<le> n \<Longrightarrow> fits n (usp_join w g k fs)"
proof (induction fs arbitrary: k)
  case (Cons f fs)
  have "fits n (push_bit (k * w) (g f))"
    using Cons.prems(2) by (intro fits_push_bit fits_mono[OF Cons.prems(1)]) (simp_all add: algebra_simps)
  then show ?case using Cons.IH[of "Suc k"] Cons.prems by (simp add: fits_or)
qed (simp add: fits_def)

lemma us_status_total:
  assumes "us_ports_ok d"
  shows "\<exists>d'. us_status d = Inr d' \<and> us_ports_ok d'"
proof -
  obtain f fs where f: "dev_functions d = f # fs" "us_function_ok f" using assms by (cases "dev_functions d") (auto simp: us_ports_ok_def)
  define s where "s = nat (current_link_speed (r_link_sta (fn_pcie f)) AND 3)"
  have "fits 2 (x AND 3)" for x :: int by (auto simp: fits_def and_int_unfold)
  from this[of "current_link_speed (r_link_sta (fn_pcie f))"] have "s < 4" by (simp add: s_def fits_def nat_less_iff)
  then have "s = 0 \<or> s = 1 \<or> s = 2 \<or> s = 3" by arith
  then have "fits 3 (drop_bit 1 (push_bit s 1))" by (auto simp: fits_def)
  then show ?thesis
    using assms f(2) unfolding us_status_def f(1) by (simp add: py_nth_def us_function_ok_def drive_def Let_def s_def)
qed

lemma usp_status_total:
  assumes "us_ports_ok d"
  shows "\<exists>d'. usp_status d = Inr d' \<and> us_ports_ok d'"
proof -
  obtain f fs where f: "dev_functions d = f # fs" "us_function_ok f" using assms by (cases "dev_functions d") (auto simp: us_ports_ok_def)
  have len: "length (f # fs) \<le> 4" using assms by (simp add: us_ports_ok_def f(1))
  have "fits 16 (usp_join 4 us_function_flags 0 (f # fs))"
    using len by (intro usp_join_fits us_flags_fit) simp
  moreover have "fits 4 (usp_join 1 (\<lambda>f. flag 0 (read_completion_boundary (r_link_ctl (fn_pcie f)))) 0 (f # fs))"
    using len by (intro usp_join_fits) simp_all
  moreover have "fits 3 (min (max x 0) 4)" "fits 2 (min (max x 0) 3)" "fits 2 (x AND 3)" for x :: int
    by (auto simp: fits_def and_int_unfold)
  ultimately show ?thesis
    using assms f(2) unfolding usp_status_def f(1) by (simp add: py_nth_def us_function_ok_def drive_def)
qed

lemma us_msi_ports_total:
  assumes "us_ports_ok d"
  shows "\<exists>d'. us_msi_ports i d = Inr d' \<and> us_ports_ok d'"
proof -
  have fs: "us_function_ok f" if "f \<in> set (dev_functions d)" for f using that assms by (auto simp: us_ports_ok_def list_all_iff)
  have "us_function_ok (f\<lparr>fn_msi := (fn_msi f)\<lparr>msi_pending_bits := p\<rparr>\<rparr>) = us_function_ok f" for f p
    by (simp add: us_function_ok_def)
  then have set: "list_all us_function_ok ((dev_functions d)[k := (dev_functions d ! k)\<lparr>fn_msi := (fn_msi (dev_functions d ! k))\<lparr>msi_pending_bits := p\<rparr>\<rparr>])"
    if "k < length (dev_functions d)" for k p
    using fs that by (auto simp: list_all_iff dest!: set_update_subset_insert[THEN subsetD])
  have "fits 32 (msi_mask_bits (fn_msi (dev_functions d ! k)))" if "k < length (dev_functions d)" for k
    using fs[OF nth_mem[OF that]] by (simp add: us_function_ok_def)
  then show ?thesis using assms set by (auto simp: us_msi_ports_def us_ports_ok_def drive_def Let_def)
qed

lemma us_msi_quiet:
  assumes "us_ports_ok d" "us_quiet i"
  shows "us_returns (us_msi F i (d, e)) e" "us_returns (us_msix F i (d, e)) e" "us_returns (usp_msix F i (d, e)) e"
  using assms by (simp_all add: us_returns_def us_msi_def us_msix_def usp_msix_def us_msix_send_def us_quiet_def Let_def)

lemma us_traffic_returns:
  assumes "us_ports_ok d" "us_queues_ok d" "\<And>d. us_ports_ok d \<Longrightarrow> \<exists>d'. q d = Inr d' \<and> us_ports_ok d'"
  shows "us_returns (us_traffic q F i (d, e)) e"
proof -
  have "us_returns (on_dev (us_requests i) (d, e)) e"
    using us_requests_total[OF assms(1,2), of i] by (elim exE conjE) (simp add: us_returns_def on_dev_def)
  moreover have "us_returns (us_completions F (sk_queue (ud_cc_sink (fst (d, e)))) (d, e)) e"
    "us_returns (us_own_requests F (sk_queue (ud_rq_sink (fst (d, e)))) (d, e)) e"
    if "us_ports_ok d" for d using that by (simp_all add: us_ports_ok_def us_returns_def)
  moreover have "us_returns (on_dev (\<lambda>d. us_drain_rc (ud_rc_queue d) d) (d, e)) e" if "us_ports_ok d" for d
    using that by (intro us_returns_dev us_drain_rc_total) (simp_all add: us_ports_ok_def)
  ultimately show ?thesis
    unfolding us_traffic_def using us_returns_dev[OF _ assms(3)] by (intro us_returns_bind) simp_all
qed

lemma core_logic_returns:
  assumes "us_ports_ok d" "us_queues_ok d" "us_quiet i"
  shows "us_returns (core_logic up F i (d, e)) e"
proof -
  have out: "us_returns (on_dev (\<lambda>d. Inr (d\<lparr>ud_out := v d\<rparr>)) (d, e)) e" if "us_ports_ok d" for d v
    using that by (intro us_returns_dev) simp_all
  note parts = us_traffic_returns[OF assms(1,2)] us_returns_dev us_msi_quiet[OF _ assms(3)] us_msi_ports_total
    mgmt_total[OF _ assms(3)] us_status_total usp_status_total seq_out_total
  have "us_returns (us_logic F i (d, e)) e"
    unfolding us_logic_def by (intro us_returns_bind parts) simp_all
  moreover have "us_returns (usp_logic F i (d, e)) e"
    unfolding usp_logic_def by (intro us_returns_bind parts) simp_all
  ultimately show ?thesis by (simp add: core_logic_def)
qed

lemma us_queues_kept:
  assumes "core_logic up F i (d, e) = Inr (d', e')" "us_queues_ok d"
  shows "us_queues_ok d'"
proof -
  obtain d1 where d1: "us_requests i d = Inr d1" "us_cq_view d' = us_cq_view d1"
    using core_logic_view[OF assms(1)] by auto
  obtain snt where s: "us_passes (ud_cq_np_queue d @ ud_cq_queue d) (snt @ ud_cq_np_queue d1)" "ud_cq_queue d1 = []" "us_cq_inv d1"
    using us_requests_edge[OF d1(1)] assms(2) by (auto simp: us_queues_ok_def)
  have "set (ud_cq_np_queue d1) \<subseteq> set (ud_cq_np_queue d @ ud_cq_queue d)"
    using passes_keep[OF s(1)] by (metis mset_eq_setD set_append Un_upper2)
  then show ?thesis using d1(2) s(2,3) assms(2) by (auto simp: us_queues_ok_def us_cq_inv_def us_cq_view_def list_all_iff)
qed

text \<open>Property C38: an edge is safe: in a device whose registers fit the ports, whatever memory and I/O
  requests and completions wait in its queues, an edge at which the user asks for no access and no
  interrupt raises nothing (no packet is refused, no value is too wide for its signal), changes
  nothing above the device, and leaves the device in such a state.\<close>

theorem us_edge_safe:
  assumes "us_ports_ok d" "us_queues_ok d" "us_quiet i"
  shows "\<exists>d'. (if up then usp_logic else us_logic) F i (d, e) = Inr (d', e) \<and> us_ports_ok d' \<and> us_queues_ok d'"
  using core_logic_returns[OF assms, of up F e] us_queues_kept[of up F i d e] assms(2)
  unfolding us_returns_def core_logic_def by (metis (no_types, lifting))

end
