(* ===== verification/UsSystem.thy ===== *)
theory UsSystem
  imports UsCredit
begin

text \<open>
  The core at work: the device of the core, its completer request source and the user's sink on
  one clock, and packets that come from the link in between. Requests reach the user, in an
  order that only the credits change.
\<close>

section \<open>The core and the user on one clock\<close>

text \<open>The state: the device beside what is above it, the wires of the completer request interface
  and the user's sink. At an edge \<open>logic\<close> runs, then the source and the sink, each possibly
  paused; in between packets arrive from the link. A run also gives the requests the device has
  accepted, in order.\<close>

type_synonym 'e us_core = "'e us_sys \<times> us_wires \<times> us_sink"

datatype us_act = Packet tlp | Clock us_in bool bool

definition us_core_packet ::
  "bool \<Rightarrow> (int \<Rightarrow> int) \<Rightarrow> 'e fabric \<Rightarrow> tlp \<Rightarrow> 'e us_core \<Rightarrow> (tlp_us list \<times> 'e us_core) result" where
  "us_core_packet up lg F t c =
     (case c of ((d, e), w, k) \<Rightarrow>
        bindE ((if up then usp_upstream_recv else us_upstream_recv) lg t d) (\<lambda>(d', out).
        bindE (fab_send_all F out e) (\<lambda>e'.
          Inr (drop (length (ud_cq_queue d)) (ud_cq_queue d'), ((d', e'), w, k)))))"

definition us_core_clock ::
  "bool \<Rightarrow> us_bus \<Rightarrow> 'e fabric \<Rightarrow> us_in \<Rightarrow> bool \<Rightarrow> bool \<Rightarrow> 'e us_core \<Rightarrow> 'e us_core result" where
  "us_core_clock up u F i ps pk c =
     (case c of (s, w, k) \<Rightarrow>
        bindE (core_logic up F i s) (\<lambda>(d, e).
        bindE (us_pair_edge (cq_source_step u) (cq_sink_step u) ([], ps, pk) (ud_cq_source d, w, k)) (\<lambda>(q, w', k').
          Inr ((d\<lparr>ud_cq_source := q\<rparr>, e), w', k'))))"

fun us_core_run ::
  "bool \<Rightarrow> (int \<Rightarrow> int) \<Rightarrow> us_bus \<Rightarrow> 'e fabric \<Rightarrow> us_act list \<Rightarrow> 'e us_core \<Rightarrow> (tlp_us list \<times> 'e us_core) result" where
  "us_core_run up lg u F [] c = Inr ([], c)"
| "us_core_run up lg u F (Packet t # xs) c =
     bindE (us_core_packet up lg F t c) (\<lambda>(new, c1).
     bindE (us_core_run up lg u F xs c1) (\<lambda>(acc, c2). Inr (new @ acc, c2)))"
| "us_core_run up lg u F (Clock i ps pk # xs) c =
     bindE (us_core_clock up u F i ps pk c) (us_core_run up lg u F xs)"

definition us_core_start :: "us_device \<Rightarrow> 'e \<Rightarrow> 'e us_core" where
  "us_core_start d e =
     ((d\<lparr>ud_cq_queue := [], ud_cq_np_queue := [], ud_cq_np_req_count := 0, ud_cq_source := fst us_pair_new\<rparr>, e),
      snd us_pair_new)"

definition us_grants :: "us_act list \<Rightarrow> nat" where
  "us_grants xs = length (filter (\<lambda>x. case x of Packet t \<Rightarrow> False | Clock i ps pk \<Rightarrow> us_grant i) xs)"

definition us_pauses :: "us_act list \<Rightarrow> (bool \<times> bool) list" where
  "us_pauses xs = concat (map (\<lambda>x. case x of Packet t \<Rightarrow> [] | Clock i ps pk \<Rightarrow> [(ps, pk)]) xs)"

definition us_is_clock :: "us_act \<Rightarrow> bool" where
  "us_is_clock x = (case x of Packet t \<Rightarrow> False | Clock i ps pk \<Rightarrow> True)"

lemma us_acts_simps [simp]:
  "us_grants [] = 0" "us_grants (Packet t # xs) = us_grants xs"
  "us_grants (Clock i ps pk # xs) = (if us_grant i then 1 else 0) + us_grants xs"
  "us_pauses [] = []" "us_pauses (Packet t # xs) = us_pauses xs"
  "us_pauses (Clock i ps pk # xs) = (ps, pk) # us_pauses xs"
  "us_is_clock (Clock i ps pk)" "\<not> us_is_clock (Packet t)"
  by (simp_all add: us_grants_def us_pauses_def us_is_clock_def)

lemma us_core_clock_edge:
  assumes "us_core_clock up u F i ps pk ((d, e), w, k) = Inr ((d', e'), w', k')" "us_cq_inv d"
  shows "\<exists>snt fs. mapE pack_us_cq snt = Inr fs \<and>
    us_pair_edge (cq_source_step u) (cq_sink_step u) (fs, ps, pk) (ud_cq_source d, w, k) = Inr (ud_cq_source d', w', k') \<and>
    us_passes (ud_cq_np_queue d @ ud_cq_queue d) (snt @ ud_cq_np_queue d') \<and> ud_cq_queue d' = [] \<and> us_cq_inv d' \<and>
    ud_cq_np_req_count d' + us_np_count snt = ud_cq_np_req_count (us_credit i d)"
proof -
  obtain d1 e1 where l1: "core_logic up F i (d, e) = Inr (d1, e1)"
    using assms(1) by (cases "core_logic up F i (d, e)") (auto simp: us_core_clock_def)
  obtain q w1 k1 where l2: "us_pair_edge (cq_source_step u) (cq_sink_step u) ([], ps, pk) (ud_cq_source d1, w, k) = Inr (q, w1, k1)"
    using assms(1) l1
    by (cases "us_pair_edge (cq_source_step u) (cq_sink_step u) ([], ps, pk) (ud_cq_source d1, w, k)") (auto simp: us_core_clock_def)
  have l3: "d' = d1\<lparr>ud_cq_source := q\<rparr>" "w' = w1" "k' = k1" using assms(1) l1 l2 by (auto simp: us_core_clock_def)
  obtain d2 where d2: "us_requests i d = Inr d2" "us_cq_view d1 = us_cq_view d2"
    using core_logic_view[OF l1] by auto
  obtain snt fs where s: "mapE pack_us_cq snt = Inr fs" "ud_cq_source d2 = fold us_send fs (ud_cq_source d)"
    "us_passes (ud_cq_np_queue d @ ud_cq_queue d) (snt @ ud_cq_np_queue d2)" "ud_cq_queue d2 = []" "us_cq_inv d2"
    "ud_cq_np_req_count d2 + us_np_count snt = ud_cq_np_req_count (us_credit i d)"
    using us_requests_edge[OF d2(1) assms(2)] by blast
  have "us_pair_edge (cq_source_step u) (cq_sink_step u) (fs, ps, pk) (ud_cq_source d, w, k) = Inr (ud_cq_source d', w', k')"
    using l2 d2(2) s(2) by (simp add: us_pair_edge_def l3 us_cq_view_def)
  then show ?thesis
    using s d2(2) by (intro exI[of _ snt] exI[of _ fs]) (simp add: us_cq_view_def us_cq_inv_def l3)
qed

lemma us_core_packet_new:
  assumes "us_core_packet up lg F t ((d, e), w, k) = Inr (new, ((d', e'), w', k'))"
  shows "ud_cq_queue d' = ud_cq_queue d @ new \<and> ud_cq_np_queue d' = ud_cq_np_queue d \<and>
    ud_cq_np_req_count d' = ud_cq_np_req_count d \<and> ud_cq_source d' = ud_cq_source d \<and> w' = w \<and> k' = k"
proof -
  obtain d1 out where l1: "us_upstream_recv lg t d = Inr (d1, out)"
    using assms by (cases "us_upstream_recv lg t d") (auto simp: us_core_packet_def usp_upstream_recv_def split: if_splits)
  have "d' = d1" "new = drop (length (ud_cq_queue d)) (ud_cq_queue d')" "w' = w" "k' = k"
    using assms l1 by (auto simp: us_core_packet_def usp_upstream_recv_def bindE_Inr_iff split: if_splits)
  then show ?thesis using us_upstream_recv_view[OF l1] by auto
qed

lemma us_pair_run_snoc: "us_pair_run src snk (es @ [x]) st = bindE (us_pair_run src snk es st) (us_pair_edge src snk x)"
proof (induction es arbitrary: st)
  case Nil
  show ?case by (cases "us_pair_edge src snk x st") simp_all
next
  case (Cons e es)
  show ?case by (cases "us_pair_edge src snk e st") (simp_all add: Cons.IH)
qed

text \<open>The invariant of a run: \<open>es\<close> is what the bus has seen, \<open>snt\<close> what was handed to the source.\<close>

definition us_core_inv ::
  "us_bus \<Rightarrow> us_edge list \<Rightarrow> tlp_us list \<Rightarrow> int \<Rightarrow> tlp_us list \<Rightarrow> 'e us_core \<Rightarrow> bool" where
  "us_core_inv u es acc g snt c \<longleftrightarrow> (case c of ((d, e), w, k) \<Rightarrow>
     us_run CQ u es = Inr (ud_cq_source d, w, k) \<and> mapE pack_us_cq snt = Inr (concat (map fst es)) \<and>
     us_passes acc (snt @ ud_cq_np_queue d @ ud_cq_queue d) \<and> us_cq_inv d \<and>
     us_np_count snt + ud_cq_np_req_count d \<le> g)"

lemma us_core_inv_start: "us_core_inv u [] [] 0 [] (us_core_start d e)"
  by (simp add: us_core_inv_def us_core_start_def us_run_def us_cq_inv_def split: prod.split)

lemma us_core_inv_packet:
  assumes "us_core_inv u es acc g snt ((d, e), w, k)" "us_core_packet up lg F t ((d, e), w, k) = Inr (new, ((d', e'), w', k'))"
  shows "us_core_inv u es (acc @ new) g snt ((d', e'), w', k')"
  using assms(1) us_core_packet_new[OF assms(2)] passes_append[of acc _ new]
  by (fastforce simp: us_core_inv_def us_cq_inv_def)

lemma us_core_inv_clock:
  assumes "us_core_inv u es acc g snt ((d, e), w, k)" "us_core_clock up u F i ps pk ((d, e), w, k) = Inr ((d', e'), w', k')"
  shows "\<exists>fs snt'. us_core_inv u (es @ [(fs, ps, pk)]) acc (g + (if us_grant i then 1 else 0)) (snt @ snt') ((d', e'), w', k')"
proof -
  have inv: "us_run CQ u es = Inr (ud_cq_source d, w, k)" "mapE pack_us_cq snt = Inr (concat (map fst es))"
    "us_passes acc (snt @ ud_cq_np_queue d @ ud_cq_queue d)" "us_cq_inv d" "us_np_count snt + ud_cq_np_req_count d \<le> g"
    using assms(1) by (simp_all add: us_core_inv_def)
  obtain snt' fs where s: "mapE pack_us_cq snt' = Inr fs"
    "us_pair_edge (cq_source_step u) (cq_sink_step u) (fs, ps, pk) (ud_cq_source d, w, k) = Inr (ud_cq_source d', w', k')"
    "us_passes (ud_cq_np_queue d @ ud_cq_queue d) (snt' @ ud_cq_np_queue d')" "ud_cq_queue d' = []" "us_cq_inv d'"
    "ud_cq_np_req_count d' + us_np_count snt' = ud_cq_np_req_count (us_credit i d)"
    using us_core_clock_edge[OF assms(2) inv(4)] by blast
  have "us_passes acc (snt @ snt' @ ud_cq_np_queue d' @ ud_cq_queue d')"
    using inv(3) passes_prepend[OF s(3), of snt] s(4) by simp
  moreover have "us_run CQ u (es @ [(fs, ps, pk)]) = Inr (ud_cq_source d', w', k')"
    using inv(1) s(2) by (simp add: us_run_def us_pair_run_snoc)
  ultimately show ?thesis
    using inv(2,5) s(1,5,6) us_credit_count[OF inv(4), of i]
    by (intro exI[of _ fs] exI[of _ snt']) (simp add: us_core_inv_def mapE_append)
qed

lemma us_core_inv_run:
  assumes "us_core_run up lg u F xs c = Inr (acc', c')" "us_core_inv u es acc g snt c"
  shows "\<exists>es' snt'. us_core_inv u (es @ es') (acc @ acc') (g + int (us_grants xs)) (snt @ snt') c' \<and> map snd es' = us_pauses xs"
  using assms
proof (induction xs arbitrary: c es acc g snt acc')
  case Nil
  then show ?case by (intro exI[of _ "[]"]) simp
next
  case (Cons x xs)
  obtain d e w k where c: "c = ((d, e), w, k)" by (metis prod.exhaust)
  show ?case
  proof (cases x)
    case (Packet t)
    then obtain new c1 acc2 where r: "us_core_packet up lg F t c = Inr (new, c1)" "us_core_run up lg u F xs c1 = Inr (acc2, c')" "acc' = new @ acc2"
      using Cons.prems(1) by (fastforce simp: bindE_Inr_iff split: prod.splits)
    obtain d1 e1 w1 k1 where c1: "c1 = ((d1, e1), w1, k1)" by (metis prod.exhaust)
    have i: "us_core_inv u es (acc @ new) g snt c1"
      using us_core_inv_packet[OF Cons.prems(2)[unfolded c] r(1)[unfolded c c1]] by (simp add: c1)
    show ?thesis using Cons.IH[OF r(2) i] by (simp add: r(3) Packet)
  next
    case (Clock i ps pk)
    then obtain c1 where r: "us_core_clock up u F i ps pk c = Inr c1" "us_core_run up lg u F xs c1 = Inr (acc', c')"
      using Cons.prems(1) by (fastforce simp: bindE_Inr_iff)
    obtain d1 e1 w1 k1 where c1: "c1 = ((d1, e1), w1, k1)" by (metis prod.exhaust)
    obtain fs s1 where i: "us_core_inv u (es @ [(fs, ps, pk)]) acc (g + (if us_grant i then 1 else 0)) (snt @ s1) c1"
      using us_core_inv_clock[OF Cons.prems(2)[unfolded c] r(1)[unfolded c c1]] unfolding c1 by blast
    obtain es' snt' where "us_core_inv u ((es @ [(fs, ps, pk)]) @ es') (acc @ acc') (g + (if us_grant i then 1 else 0) + int (us_grants xs))
        ((snt @ s1) @ snt') c'" "map snd es' = us_pauses xs"
      using Cons.IH[OF r(2) i] by blast
    then show ?thesis
      by (intro exI[of _ "(fs, ps, pk) # es'"] exI[of _ "s1 @ snt'"]) (cases "us_grant i"; simp add: Clock algebra_simps)
  qed
qed

lemma us_core_sent:
  assumes "us_core_inv u es acc g snt ((d, e), w, k)" "us_bus_ok CQ u" "\<forall>t \<in> set acc. us_pkt_ok CQ u t"
  shows "\<forall>t \<in> set snt. us_pkt_ok CQ u t" "\<forall>f \<in> set (concat (map fst es)). us_frame_ok CQ f"
proof -
  have "mset acc = mset (snt @ ud_cq_np_queue d @ ud_cq_queue d)" using assms(1) passes_keep by (auto simp: us_core_inv_def)
  then have "set acc = set (snt @ ud_cq_np_queue d @ ud_cq_queue d)" by (rule mset_eq_setD)
  then show s: "\<forall>t \<in> set snt. us_pkt_ok CQ u t" using assms(3) by auto
  have "mapE (us_pack CQ) snt = Inr (concat (map fst es))" using assms(1) by (simp add: us_core_inv_def us_pack_def)
  then show "\<forall>f \<in> set (concat (map fst es)). us_frame_ok CQ f" using mapE_packed s by blast
qed

lemma mapE_prefix: "mapE f xs = Inr (as @ bs) \<Longrightarrow> \<exists>ys zs. xs = ys @ zs \<and> mapE f ys = Inr as"
proof (induction xs arbitrary: as)
  case (Cons x xs)
  show ?case
  proof (cases as)
    case Nil
    then show ?thesis by (intro exI[of _ "[]"] exI[of _ "x # xs"]) simp
  next
    case (Cons a as')
    then have fx: "f x = Inr a" "mapE f xs = Inr (as' @ bs)" using Cons.prems by (auto simp: bindE_Inr_iff)
    then obtain ys zs where "xs = ys @ zs" "mapE f ys = Inr as'" using Cons.IH by blast
    then show ?thesis using fx(1) Cons by (intro exI[of _ "x # ys"] exI[of _ zs]) simp
  qed
qed simp


text \<open>Without further packets the waiting non-posted requests are used up by the credits.\<close>

definition us_waiting :: "us_device \<Rightarrow> nat" where
  "us_waiting d = length (filter us_non_posted (ud_cq_np_queue d @ ud_cq_queue d))"

lemma us_waiting_edge:
  assumes "us_core_clock up u F i ps pk ((d, e), w, k) = Inr ((d', e'), w', k')" "us_cq_inv d"
  shows "us_cq_inv d' \<and> ud_cq_queue d' = [] \<and> us_waiting d' \<le> us_waiting d - (if us_grant i then 1 else 0)"
proof -
  obtain snt where s: "us_passes (ud_cq_np_queue d @ ud_cq_queue d) (snt @ ud_cq_np_queue d')" "ud_cq_queue d' = []"
    "us_cq_inv d'" "ud_cq_np_req_count d' + us_np_count snt = ud_cq_np_req_count (us_credit i d)"
    using us_core_clock_edge[OF assms] by blast
  have "us_waiting d = length (filter us_non_posted snt) + us_waiting d'"
    using passes_keep[OF s(1)] s(2) by (simp add: us_waiting_def)
  moreover have "us_waiting d' = 0 \<or> ud_cq_np_req_count d' = 0" using s(2,3) by (auto simp: us_waiting_def us_cq_inv_def)
  ultimately show ?thesis using s(2,3,4) us_credit_count[OF assms(2), of i] by auto
qed

lemma us_waiting_run:
  assumes "us_core_run up lg u F xs ((d, e), w, k) = Inr (acc, ((d', e'), w', k'))" "list_all us_is_clock xs" "us_cq_inv d"
  shows "acc = [] \<and> us_cq_inv d' \<and> us_waiting d' \<le> us_waiting d - us_grants xs \<and> (xs \<noteq> [] \<or> ud_cq_queue d = [] \<longrightarrow> ud_cq_queue d' = [])"
  using assms
proof (induction xs arbitrary: d e w k)
  case (Cons x xs)
  obtain i ps pk where x: "x = Clock i ps pk" using Cons.prems(2) by (cases x) auto
  obtain d1 e1 w1 k1 where r: "us_core_clock up u F i ps pk ((d, e), w, k) = Inr ((d1, e1), w1, k1)"
    "us_core_run up lg u F xs ((d1, e1), w1, k1) = Inr (acc, ((d', e'), w', k'))"
    using Cons.prems(1) unfolding x us_core_run.simps bindE_Inr_iff by (metis prod.exhaust)
  have 1: "us_cq_inv d1" "ud_cq_queue d1 = []" "us_waiting d1 \<le> us_waiting d - (if us_grant i then 1 else 0)"
    using us_waiting_edge[OF r(1) Cons.prems(3)] by simp_all
  show ?case using Cons.IH[OF r(2) _ 1(1)] Cons.prems(2) 1(2,3) by (cases "us_grant i"; simp add: x; arith)
qed simp

lemma us_waiting_0: "us_cq_inv d \<Longrightarrow> us_waiting d = 0 \<Longrightarrow> ud_cq_queue d = [] \<Longrightarrow> ud_cq_np_queue d = []"
  by (auto simp: us_waiting_def us_cq_inv_def filter_empty_conv)

lemma us_core_run_append:
  "us_core_run up lg u F xs c = Inr (a, c1) \<Longrightarrow>
   us_core_run up lg u F (xs @ ys) c = bindE (us_core_run up lg u F ys c1) (\<lambda>(b, c2). Inr (a @ b, c2))"
proof (induction xs arbitrary: c a)
  case Nil
  then show ?case by (cases "us_core_run up lg u F ys c1") auto
next
  case (Cons x xs)
  show ?case
  proof (cases x)
    case (Packet t)
    then obtain new c2 a2 where r: "us_core_packet up lg F t c = Inr (new, c2)" "us_core_run up lg u F xs c2 = Inr (a2, c1)" "a = new @ a2"
      using Cons.prems by (fastforce simp: bindE_Inr_iff split: prod.splits)
    show ?thesis using Cons.IH[OF r(2)] r by (cases "us_core_run up lg u F ys c1") (auto simp: Packet)
  next
    case (Clock i ps pk)
    then obtain c2 where r: "us_core_clock up u F i ps pk c = Inr c2" "us_core_run up lg u F xs c2 = Inr (a, c1)"
      using Cons.prems by (fastforce simp: bindE_Inr_iff)
    show ?thesis using Cons.IH[OF r(2)] r(1) by (simp add: Clock)
  qed
qed

text \<open>While the user asks for nothing else, the clock never raises.\<close>

definition us_quiet_clock :: "us_act \<Rightarrow> bool" where
  "us_quiet_clock x = (case x of Packet t \<Rightarrow> False | Clock i ps pk \<Rightarrow> us_quiet i)"

lemma us_core_clock_returns:
  assumes "us_core_inv u es acc g snt ((d, e), w, k)" "us_bus_ok CQ u" "\<forall>t \<in> set acc. us_pkt_ok CQ u t" "us_ports_ok d" "us_quiet i"
  shows "\<exists>d' w' k'. us_core_clock up u F i ps pk ((d, e), w, k) = Inr ((d', e), w', k') \<and> us_ports_ok d'"
proof -
  have inv: "us_run CQ u es = Inr (ud_cq_source d, w, k)" "mapE pack_us_cq snt = Inr (concat (map fst es))"
    "us_passes acc (snt @ ud_cq_np_queue d @ ud_cq_queue d)" "us_cq_inv d"
    using assms(1) by (simp_all add: us_core_inv_def)
  have set: "set acc = set (snt @ ud_cq_np_queue d @ ud_cq_queue d)" using passes_keep[OF inv(3)] mset_eq_setD by blast
  have "us_mem_io (us_fmt_type t)" if "t \<in> set acc" for t using assms(3) that by (simp add: us_pkt_ok_def cq_ok_def)
  then have "us_queues_ok d" using inv(4) set by (auto simp: us_queues_ok_def list_all_iff)
  then obtain d1 where d1: "core_logic up F i (d, e) = Inr (d1, e)" "us_ports_ok d1"
    using core_logic_returns[OF assms(4) _ assms(5), where up = up and F = F and e = e] unfolding us_returns_def by (elim meta_impE exE conjE)
  obtain d2 where d2: "us_requests i d = Inr d2" "us_cq_view d1 = us_cq_view d2" using core_logic_view[OF d1(1)] by auto
  obtain snt' fs where s: "mapE pack_us_cq snt' = Inr fs" "ud_cq_source d2 = fold us_send fs (ud_cq_source d)"
    "us_passes (ud_cq_np_queue d @ ud_cq_queue d) (snt' @ ud_cq_np_queue d2)"
    using us_requests_edge[OF d2(1) inv(4)] by blast
  have "set snt' \<subseteq> set acc" using set passes_keep[OF s(3)] by (metis Un_upper1 mset_eq_setD set_append subset_trans sup.coboundedI2)
  then have "\<forall>t \<in> set (snt @ snt'). us_pkt_ok CQ u t" using set assms(3) by auto
  moreover have "mapE (us_pack CQ) (snt @ snt') = Inr (concat (map fst (es @ [(fs, ps, pk)])))"
    using inv(2) s(1) by (simp add: us_pack_def mapE_append)
  ultimately have "\<forall>f \<in> set (concat (map fst (es @ [(fs, ps, pk)]))). us_frame_ok CQ f" using mapE_packed by blast
  then obtain q w' k' where "us_run CQ u (es @ [(fs, ps, pk)]) = Inr (q, w', k')" using us_run_safe[OF assms(2)] by blast
  then have "us_pair_edge (cq_source_step u) (cq_sink_step u) (fs, ps, pk) (ud_cq_source d, w, k) = Inr (q, w', k')"
    using inv(1) by (simp add: us_run_def us_pair_run_snoc)
  then have "us_pair_edge (cq_source_step u) (cq_sink_step u) ([], ps, pk) (ud_cq_source d1, w, k) = Inr (q, w', k')"
    using d2(2) s(2) by (simp add: us_pair_edge_def us_cq_view_def)
  then show ?thesis using d1 by (simp add: us_core_clock_def)
qed

lemma us_core_quiet_run:
  assumes "us_core_inv u es acc g snt ((d, e), w, k)" "us_bus_ok CQ u" "\<forall>t \<in> set acc. us_pkt_ok CQ u t" "us_ports_ok d"
    and "list_all us_quiet_clock xs"
  shows "\<exists>d' w' k'. us_core_run up lg u F xs ((d, e), w, k) = Inr ([], ((d', e), w', k')) \<and> us_ports_ok d'"
  using assms
proof (induction xs arbitrary: es g snt d w k)
  case (Cons x xs)
  obtain i ps pk where x: "x = Clock i ps pk" "us_quiet i" using Cons.prems(5) by (cases x) (auto simp: us_quiet_clock_def)
  obtain d1 w1 k1 where r: "us_core_clock up u F i ps pk ((d, e), w, k) = Inr ((d1, e), w1, k1)" "us_ports_ok d1"
    using us_core_clock_returns[OF Cons.prems(1-4) x(2)] by blast
  obtain fs snt' where i: "us_core_inv u (es @ [(fs, ps, pk)]) acc (g + (if us_grant i then 1 else 0)) (snt @ snt') ((d1, e), w1, k1)"
    using us_core_inv_clock[OF Cons.prems(1) r(1)] by blast
  show ?case using Cons.IH[OF i Cons.prems(2,3) r(2)] Cons.prems(5) r(1) by (simp add: x(1))
qed simp

lemma pack_us_cq_length: "pack_us_cq t = Inr f \<Longrightarrow> length (uf_data f) = 4 + length (tlp_data t)"
  by (auto simp: pack_us_cq_def update_parity_def us_addr_words_def split: if_splits)

definition us_cq_beats :: "us_bus \<Rightarrow> tlp_us \<Rightarrow> nat" where
  "us_cq_beats u t = (4 + length (tlp_data t) + bw_keep u - 1) div bw_keep u"

lemma us_total_packed: "mapE pack_us_cq ts = Inr fs \<Longrightarrow> us_total (bw_keep u) fs = sum_list (map (us_cq_beats u) ts)"
  by (induction ts arbitrary: fs) (auto simp: us_total_def us_beats_def us_cq_beats_def bindE_Inr_iff dest: pack_us_cq_length)

lemma sum_list_mset_eq: "mset xs = mset ys \<Longrightarrow> sum_list (map f xs) = (sum_list (map f ys) :: nat)"
  by (metis mset_map sum_mset_sum_list)


end
