(* ===== verification/UsRequester.thy ===== *)
theory UsRequester
  imports UsDevice
begin

text \<open>
  The requester side of the core: what \<open>logic\<close> makes of the requests the user puts on the
  requester request interface. A request leaves with the device's own number unless the user
  gives one, only if it is not discontinued and its function is a bus master, and its sequence
  number is reported.
\<close>

definition us_master_ok :: "us_device \<Rightarrow> tlp_us \<Rightarrow> bool" where
  "us_master_ok d t \<longleftrightarrow> \<not> us_discontinue t \<and>
     bus_master_enable (fn_cfg (dev_functions d ! nat (pid_function (tlp_requester_id t))))"

definition us_allowed :: "us_device \<Rightarrow> tlp_us list \<Rightarrow> tlp_us list" where
  "us_allowed d ts = filter (us_master_ok d) (map (us_own_requester d) ts)"

lemma us_own_requester_same [simp]:
  "us_discontinue (us_own_requester d t) = us_discontinue t"
  "pid_function (tlp_requester_id (us_own_requester d t)) = pid_function (tlp_requester_id t)"
  "tlp_check (tlp_of_us (us_own_requester d t)) = tlp_check (tlp_of_us t)"
  by (simp_all add: us_own_requester_def mk_id_def tlp_check_def tlp_of_us_def tlp_copy_def tlp.defs fmt_type_of_def)

lemma us_own_frame [simp]:
  "us_own_requester (d\<lparr>ud_rq_seq_num := ns\<rparr>) = us_own_requester d" "us_own_requester (d\<lparr>ud_rq_sink := k\<rparr>) = us_own_requester d"
  "us_master_ok (d\<lparr>ud_rq_seq_num := ns\<rparr>) = us_master_ok d" "us_master_ok (d\<lparr>ud_rq_sink := k\<rparr>) = us_master_ok d"
  by (rule ext, simp add: us_own_requester_def us_master_ok_def)+

lemma us_allowed_simps [simp]:
  "us_allowed d [] = []"
  "us_allowed d (t # ts) = (if us_master_ok d (us_own_requester d t) then [us_own_requester d t] else []) @ us_allowed d ts"
  "us_allowed (d\<lparr>ud_rq_seq_num := ns\<rparr>) ts = us_allowed d ts"
  "us_allowed (d\<lparr>ud_rq_sink := k\<rparr>) ts = us_allowed d ts"
  by (simp_all add: us_allowed_def)

lemma us_own_requests_eq:
  assumes "mapE (unpack_us_rq (ud_enable_parity d) tlp_us_new) ps = Inr ts"
    and "\<forall>t \<in> set ts. nat (pid_function (tlp_requester_id t)) < length (dev_functions d) \<and> tlp_check (tlp_of_us t)"
  shows "us_own_requests F ps (d, e) =
    bindE (fab_send_all F (map tlp_of_us (us_allowed d ts)) e) (\<lambda>e'.
      Inr (d\<lparr>ud_rq_sink := (ud_rq_sink d)\<lparr>sk_queue := []\<rparr>,
             ud_rq_seq_num := ud_rq_seq_num d @ map us_seq_num (us_allowed d ts)\<rparr>, e'))"
  using assms
proof (induction ps arbitrary: d e ts)
  case (Cons p ps)
  obtain t us where t: "unpack_us_rq (ud_enable_parity d) tlp_us_new p = Inr t"
    "mapE (unpack_us_rq (ud_enable_parity d) tlp_us_new) ps = Inr us" "ts = t # us"
    using Cons.prems(1) by (auto simp: bindE_Inr_iff)
  have IH: "us_own_requests F ps (d\<lparr>ud_rq_seq_num := ns\<rparr>, e') =
      bindE (fab_send_all F (map tlp_of_us (us_allowed d us)) e') (\<lambda>e'.
        Inr (d\<lparr>ud_rq_sink := (ud_rq_sink d)\<lparr>sk_queue := []\<rparr>,
               ud_rq_seq_num := ns @ map us_seq_num (us_allowed d us)\<rparr>, e'))" for ns e'
    using Cons.IH[of "d\<lparr>ud_rq_seq_num := ns\<rparr>" us e'] t(2) Cons.prems(2) by (simp add: t(3))
  have skip: "us_own_requests F ps (d, e) =
      bindE (fab_send_all F (map tlp_of_us (us_allowed d us)) e) (\<lambda>e'.
        Inr (d\<lparr>ud_rq_sink := (ud_rq_sink d)\<lparr>sk_queue := []\<rparr>,
               ud_rq_seq_num := ud_rq_seq_num d @ map us_seq_num (us_allowed d us)\<rparr>, e'))"
    using IH[of "ud_rq_seq_num d" e] by simp
  have fn: "py_nth (dev_functions d) (nat (pid_function (tlp_requester_id t))) =
      Inr (dev_functions d ! nat (pid_function (tlp_requester_id t)))" and chk: "tlp_check (tlp_of_us t)"
    using Cons.prems(2) by (simp_all add: t(3) py_nth_def)
  show ?case
  proof (cases "us_master_ok d (us_own_requester d t)")
    case True
    then show ?thesis
      using fn chk IH by (simp add: t us_master_ok_def Let_def us_link_send_def device_upstream_send_def bindE_assoc)
  next
    case False
    then show ?thesis using fn skip by (cases "us_discontinue t") (simp_all add: t us_master_ok_def Let_def)
  qed
qed simp

text \<open>Property C39: direct memory access by the user: the requests the user packs and sends over the
  requester request bus, in any pattern, are put on the link by the core exactly once each, in
  order, with the device's own number where the user gives none, except those the user discontinues
  and those of a function that is not a bus master; and the sequence numbers queued for the user
  are those of the requests that were sent.\<close>

theorem us_dma_sent:
  assumes "us_bus_ok RQ u" "\<forall>t \<in> set ts. us_pkt_ok RQ u t" "mapE (us_pack RQ) ts = Inr (concat (map fst es))"
    and "\<forall>e \<in> set ds. fst e = []"
    and "2 * us_total (bw_keep u) (concat (map fst es)) \<le> length (filter (\<lambda>e. snd e = (False, False)) ds)"
    and "\<forall>t \<in> set ts. nat (pid_function (tlp_requester_id t)) < length (dev_functions d) \<and> tlp_check (tlp_of_us (us_image RQ t))"
  shows "\<exists>s w sk. us_run RQ u (es @ ds) = Inr (s, w, sk) \<and>
    us_own_requests F (sk_queue sk) (d\<lparr>ud_rq_sink := sk\<rparr>, e) =
      bindE (fab_send_all F (map tlp_of_us (us_allowed d (map (us_image RQ) ts))) e) (\<lambda>e'.
        Inr (d\<lparr>ud_rq_sink := sk\<lparr>sk_queue := []\<rparr>,
               ud_rq_seq_num := ud_rq_seq_num d @ map us_seq_num (us_allowed d (map (us_image RQ) ts))\<rparr>, e'))"
proof -
  have p: "\<forall>f \<in> set (concat (map fst es)). us_frame_ok RQ f" "map (us_seen RQ u) (concat (map fst es)) = concat (map fst es)"
    "mapE (unpack_us_rq (ud_enable_parity d) tlp_us_new) (concat (map fst es)) = Inr (map (us_image RQ) ts)"
    using mapE_packed[OF assms(3,2), of "ud_enable_parity d"] by (simp_all add: us_unpack_def)
  obtain s w sk where r: "us_run RQ u (es @ ds) = Inr (s, w, sk)" "sk_queue sk = concat (map fst es)"
    using us_run_delivers[OF assms(1) p(1) assms(4,5)] p(2) by auto
  have im: "pid_function (tlp_requester_id (us_image RQ t)) = pid_function (tlp_requester_id t)" for t
    by (simp add: us_image_def rq_image_def)
  show ?thesis
    using r us_own_requests_eq[of "d\<lparr>ud_rq_sink := sk\<rparr>" "sk_queue sk" "map (us_image RQ) ts" F e] p(3) assms(6)
    by (simp add: r(2) im)
qed

end
