(* ===== verification/UsExamples.thy ===== *)
theory UsExamples
  imports UsSystem UsRequester
begin

text \<open>
  The properties of the device of the UltraScale core at a concrete device: one function with a
  64 KB memory window, a read and a write from the host, and a write of the user.
\<close>

definition us_demo_function :: "endpoint \<Rightarrow> endpoint" where
  "us_demo_function f = f\<lparr>bar := [0x80000000, 0, 0, 0, 0, 0], bar_mask := [0xffff0000, 0, 0, 0, 0, 0],
     fn_cfg := (fn_cfg f)\<lparr>bus_master_enable := True\<rparr>\<rparr>"

definition us_demo_device :: us_device where
  "us_demo_device = (case us_device_init of Inr d \<Rightarrow> d\<lparr>dev_functions := map us_demo_function (dev_functions d)\<rparr>)"

definition us_demo_fabric :: "unit fabric" where
  "us_demo_fabric = \<lparr>fab_send = (\<lambda>t e. Inr e), fab_wait = (\<lambda>tag e. ([], e))\<rparr>"

definition us_demo_read :: tlp where
  "us_demo_read = (set_fmt_type TLP_MEM_READ tlp_new)
     \<lparr>tlp_address := 0x80000010, tlp_length := 1, tlp_first_be := 15, tlp_tag := 3\<rparr>"

definition us_demo_write :: tlp where
  "us_demo_write = (set_fmt_type TLP_MEM_WRITE tlp_new)
     \<lparr>tlp_address := 0x80000020, tlp_length := 1, tlp_first_be := 15, tlp_data := [0x12345678]\<rparr>"

definition us_demo_in :: "bool \<Rightarrow> us_in" where
  "us_demo_in b = \<lparr>in_running = True, in_cq_np_req = b, in_mgmt_addr = 0, in_mgmt_function = 0, in_mgmt_read = False,
     in_mgmt_write = False, in_mgmt_write_data = 0, in_mgmt_byte_enable = 0, in_fc_sel = 4, in_config_space_enable = True,
     in_msi_int = 0, in_msi_function = 0, in_msi_attr = 0, in_msi_select = 0, in_msi_pending_status = 0,
     in_msi_pending_enable = False, in_msi_pending_function = 0, in_msix_int = False, in_msix_address = 0, in_msix_data = 0\<rparr>"

definition us_demo_cq_bus :: us_bus where
  "us_demo_cq_bus = \<lparr>bw_data = 64, bw_keep = 2, bw_user = 85\<rparr>"

definition us_demo_rq_bus :: us_bus where
  "us_demo_rq_bus = \<lparr>bw_data = 64, bw_keep = 2, bw_user = 60\<rparr>"

definition us_demo_acts :: "us_act list" where
  "us_demo_acts = [Packet us_demo_read, Packet us_demo_write, Clock (us_demo_in False) False True]"

text \<open>Without a credit the write overtakes the read, which waits.\<close>

lemma us_demo_run:
  "case us_core_run False (\<lambda>x. 16) us_demo_cq_bus us_demo_fabric us_demo_acts (us_core_start us_demo_device ()) of
     Inr (acc, ((d, e), w, k)) \<Rightarrow> us_ports_ok d \<and> list_all (us_pkt_ok CQ us_demo_cq_bus) acc \<and>
       map us_non_posted acc = [True, False] \<and> length (ud_cq_np_queue d) = 1 \<and>
       map (us_cq_beats us_demo_cq_bus) acc = [2, 3] \<and> ud_cq_queue d = []
   | Inl _ \<Rightarrow> False"
  by code_simp

lemma us_demo_facts: "us_bus_ok CQ us_demo_cq_bus" "us_bus_ok RQ us_demo_rq_bus"
  "list_all us_quiet_clock [Clock (us_demo_in True) False False]" "us_grants [Clock (us_demo_in True) False False] = 1"
  "us_ports_ok us_demo_device" "us_queues_ok us_demo_device" "us_quiet (us_demo_in True)"
  by code_simp+

theorem us_edge_safe_witness:
  "\<exists>d'. us_logic us_demo_fabric (us_demo_in True) (us_demo_device, ()) = Inr (d', ()) \<and> us_ports_ok d' \<and> us_queues_ok d'"
  using us_edge_safe[OF us_demo_facts(5-7), of False us_demo_fabric "()"] by simp



definition us_demo_dma :: tlp_us where
  "us_demo_dma = (tlp_us_of ((set_fmt_type TLP_MEM_WRITE tlp_new)
     \<lparr>tlp_address := 0x1000, tlp_length := 1, tlp_first_be := 15, tlp_data := [7]\<rparr>))\<lparr>us_seq_num := 5\<rparr>"

definition us_demo_dma_frame :: us_frame where
  "us_demo_dma_frame = (case pack_us_rq us_demo_dma of Inr f \<Rightarrow> f)"

lemma us_demo_dma_facts: "us_pkt_ok RQ us_demo_rq_bus us_demo_dma" "us_pack RQ us_demo_dma = Inr us_demo_dma_frame"
  "us_beats 2 (length (uf_data us_demo_dma_frame)) = 3" "bw_keep us_demo_rq_bus = 2" "tlp_check (tlp_of_us (us_image RQ us_demo_dma))"
  "nat (pid_function (tlp_requester_id us_demo_dma)) < length (dev_functions us_demo_device)"
  "map us_seq_num (us_allowed us_demo_device [us_image RQ us_demo_dma]) = [5]" "ud_rq_seq_num us_demo_device = []"
  by code_simp+

theorem us_dma_sent_witness:
  "\<exists>s w sk d'. us_run RQ us_demo_rq_bus ([([us_demo_dma_frame], False, False)] @ replicate 6 ([], False, False)) = Inr (s, w, sk) \<and>
    us_own_requests us_demo_fabric (sk_queue sk) (us_demo_device\<lparr>ud_rq_sink := sk\<rparr>, ()) = Inr (d', ()) \<and> ud_rq_seq_num d' = [5]"
proof -
  have all: "fab_send_all us_demo_fabric ts () = Inr ()" for ts by (induction ts) (simp_all add: us_demo_fabric_def)
  have "mapE (us_pack RQ) [us_demo_dma] = Inr (concat (map fst [([us_demo_dma_frame], False, False)]))"
    by (simp add: us_demo_dma_facts(2))
  moreover have "2 * us_total (bw_keep us_demo_rq_bus) (concat (map fst [([us_demo_dma_frame], False, False)])) \<le>
      length (filter (\<lambda>e. snd e = (False, False)) (replicate 6 ([], False, False)))"
    by (simp add: us_demo_dma_facts(3,4))
  ultimately show ?thesis
    using us_dma_sent[of us_demo_rq_bus "[us_demo_dma]" "[([us_demo_dma_frame], False, False)]" "replicate 6 ([], False, False)"
        us_demo_device us_demo_fabric "()"] us_demo_facts(2) us_demo_dma_facts(1,5-8) by (auto simp: all)
qed

end
