(* ===== verification/UsConfig.thy ===== *)
theory UsConfig
  imports UsLink Complex_Main
begin

text \<open>
  The configurations the models of the UltraScale cores accept: the checks of parameters and
  widths with which \<open>create_logic\<close> of \<open>fpga/lib/pcie/tb/pcie_us.py\<close> and of
  \<open>fpga/lib/pcie/tb/pcie_usp.py\<close> begins. Frequencies are in Hz; one below a million is taken for
  MHz. Of the signals, the buses of the four stream interfaces are here; the widths of the
  other ports are the ones the theory of the device drives them with.
\<close>

record us_conf =
  uc_generation :: int
  uc_link_width :: int
  uc_frequency :: rat
  uc_alignment :: string
  uc_straddle :: bool
  uc_cq_cc_straddle :: bool
  uc_rq_rc_straddle :: bool
  uc_rc_4tlp_straddle :: bool
  uc_cq :: us_bus
  uc_cc :: us_bus
  uc_rq :: us_bus
  uc_rc :: us_bus
  uc_max_speed :: int
  uc_max_width :: int

text \<open>Widths and clocks by generation and link width. A combination that has no branch is accepted
  with any; the checks of the two before leave none.\<close>

definition us_rate_ok :: "int \<Rightarrow> int \<Rightarrow> nat \<Rightarrow> rat \<Rightarrow> bool" where
  "us_rate_ok g w dw f =
     (if g = 1 then
        if w = 1 \<or> w = 2 then dw = 64 \<and> f \<in> {62500000, 125000000, 250000000}
        else if w = 4 then dw = 64 \<and> f \<in> {125000000, 250000000}
        else if w = 8 then dw \<in> {64, 128} \<and> (if dw = 64 then f = 250000000 else f = 125000000)
        else True
      else if g = 2 then
        if w = 1 then dw = 64 \<and> f \<in> {62500000, 125000000, 250000000}
        else if w = 2 then dw = 64 \<and> f \<in> {125000000, 250000000}
        else if w = 4 then dw \<in> {64, 128} \<and> (if dw = 64 then f = 250000000 else f = 125000000)
        else if w = 8 then dw \<in> {128, 256} \<and> (if dw = 128 then f = 250000000 else f = 125000000)
        else True
      else if g = 3 then
        if w = 1 then dw = 64 \<and> f \<in> {125000000, 250000000}
        else if w = 2 then dw \<in> {64, 128} \<and> (if dw = 64 then f = 250000000 else f = 125000000)
        else if w = 4 then dw \<in> {128, 256} \<and> (if dw = 128 then f = 250000000 else f = 125000000)
        else if w = 8 then dw = 256 \<and> f = 250000000
        else True
      else True)"

text \<open>The UltraScale+ core has links of sixteen lanes besides.\<close>

definition usp_rate_ok :: "int \<Rightarrow> int \<Rightarrow> nat \<Rightarrow> rat \<Rightarrow> bool" where
  "usp_rate_ok g w dw f =
     (if w = 16 then
        if g = 1 then dw = 128 \<and> f = 250000000
        else if g = 2 then dw = 256 \<and> f = 250000000
        else if g = 3 then dw = 512 \<and> f = 250000000
        else True
      else us_rate_ok g w dw f)"

definition bus_widths :: "nat \<Rightarrow> nat \<Rightarrow> us_bus \<Rightarrow> bool" where
  "bus_widths dw user u \<longleftrightarrow> bw_data u = dw \<and> bw_user u = user \<and> bw_keep u * 32 = dw"

definition us_frequency :: "rat \<Rightarrow> rat" where
  "us_frequency f = (if f < 1000000 then f * 1000000 else f)"

definition us_link_limits :: "us_conf \<Rightarrow> us_conf" where
  "us_link_limits c = c\<lparr>uc_frequency := us_frequency (uc_frequency c),
     uc_max_speed := uc_generation c, uc_max_width := uc_link_width c\<rparr>"

definition us_check_config :: "us_conf \<Rightarrow> us_conf result" where
  "us_check_config c0 =
     (let c = us_link_limits c0; dw = bw_data (uc_cq c); f = uc_frequency c in
      bindE (assertE (dw \<in> {64, 128, 256})) (\<lambda>_.
      bindE (assertE (uc_generation c \<in> {1, 2, 3} \<and> uc_link_width c \<in> {1, 2, 4, 8} \<and>
        f \<in> {62500000, 125000000, 250000000} \<and> uc_alignment c \<in> {''address'', ''dword''})) (\<lambda>_.
      bindE (assertE ((dw \<noteq> 256 \<or> uc_alignment c \<noteq> ''dword'') \<longrightarrow> \<not> uc_straddle c)) (\<lambda>_.
      bindE (assertE (uc_alignment c = ''dword'' \<and> \<not> uc_straddle c)) (\<lambda>_.
      bindE (assertE (us_rate_ok (uc_generation c) (uc_link_width c) dw f)) (\<lambda>_.
      bindE (assertE (bus_widths dw 85 (uc_cq c) \<and> bus_widths dw 33 (uc_cc c) \<and>
        bus_widths dw 60 (uc_rq c) \<and> bus_widths dw 75 (uc_rc c))) (\<lambda>_. Inr c)))))))"

definition usp_check_config :: "us_conf \<Rightarrow> us_conf result" where
  "usp_check_config c0 =
     (let c = us_link_limits c0; dw = bw_data (uc_cq c); f = uc_frequency c; wide = (dw = 512) in
      bindE (assertE (dw \<in> {64, 128, 256, 512})) (\<lambda>_.
      bindE (assertE (uc_generation c \<in> {1, 2, 3} \<and> uc_link_width c \<in> {1, 2, 4, 8, 16} \<and>
        f \<in> {62500000, 125000000, 250000000} \<and> uc_alignment c \<in> {''address'', ''dword''})) (\<lambda>_.
      bindE (assertE ((dw < 256 \<or> uc_alignment c \<noteq> ''dword'') \<longrightarrow>
        \<not> uc_cq_cc_straddle c \<and> \<not> uc_rq_rc_straddle c \<and> (dw \<noteq> 512 \<longrightarrow> \<not> uc_rc_4tlp_straddle c))) (\<lambda>_.
      bindE (assertE (uc_alignment c = ''dword'' \<and> \<not> uc_cq_cc_straddle c \<and> \<not> uc_rq_rc_straddle c \<and>
        \<not> uc_rc_4tlp_straddle c)) (\<lambda>_.
      bindE (assertE (usp_rate_ok (uc_generation c) (uc_link_width c) dw f)) (\<lambda>_.
      bindE (assertE (bus_widths dw (if wide then 183 else 88) (uc_cq c) \<and>
        bus_widths dw (if wide then 81 else 33) (uc_cc c) \<and> bus_widths dw (if wide then 137 else 62) (uc_rq c) \<and>
        bus_widths dw (if wide then 161 else 75) (uc_rc c))) (\<lambda>_. Inr c)))))))"

section \<open>What is accepted\<close>

text \<open>Bits of packets per second and lane, after the line code.\<close>

definition us_lane_rate :: "int \<Rightarrow> rat" where
  "us_lane_rate g = (if g = 1 then 2500000000 * 8 / 10 else if g = 2 then 5000000000 * 8 / 10
     else 8000000000 * 128 / 130)"

lemma us_rate_bound:
  "us_rate_ok g w dw f \<Longrightarrow> g \<in> {1, 2, 3} \<Longrightarrow> w \<in> {1, 2, 4, 8} \<Longrightarrow> us_lane_rate g * of_int w \<le> of_nat dw * f"
  by (auto simp: us_rate_ok_def us_lane_rate_def split: if_splits)

lemma usp_rate_bound:
  "usp_rate_ok g w dw f \<Longrightarrow> g \<in> {1, 2, 3} \<Longrightarrow> w \<in> {1, 2, 4, 8, 16} \<Longrightarrow> us_lane_rate g * of_int w \<le> of_nat dw * f"
  using us_rate_bound[of g w dw f] by (auto simp: usp_rate_ok_def us_lane_rate_def split: if_splits)

lemma bus_widths_ok: "bus_widths dw n u \<Longrightarrow> dw \<in> {64, 128, 256, 512} \<Longrightarrow> us_width_ok u \<and> bw_data u = dw \<and> bw_user u = n"
  by (simp add: bus_widths_def us_width_ok_def)

lemma us_limits: "uc_max_speed (us_link_limits c) = uc_generation (us_link_limits c)"
  "uc_max_width (us_link_limits c) = uc_link_width (us_link_limits c)"
  by (simp_all add: us_link_limits_def)

text \<open>Property C40: an accepted configuration can carry its link: the data path of the user moves, in
  every direction, at least the bits per second that the link brings after its line code, and the
  buses have a layout the streams work on, so that every property of the streams holds on them.\<close>

theorem us_config_sound:
  assumes "(if up then usp_check_config else us_check_config) c = Inr c'"
  shows "us_lane_rate (uc_generation c') * of_int (uc_link_width c') \<le> of_nat (bw_data (uc_cq c')) * uc_frequency c' \<and>
    us_bus_ok CQ (uc_cq c') \<and> us_bus_ok CC (uc_cc c') \<and> us_bus_ok RQ (uc_rq c') \<and> us_bus_ok RC (uc_rc c') \<and>
    bw_data (uc_cc c') = bw_data (uc_cq c') \<and> bw_data (uc_rq c') = bw_data (uc_cq c') \<and> bw_data (uc_rc c') = bw_data (uc_cq c') \<and>
    uc_max_speed c' = uc_generation c' \<and> uc_max_width c' = uc_link_width c'"
proof (cases up)
  case True
  then have c: "usp_check_config c = Inr c'" using assms by simp
  define dw where "dw = bw_data (uc_cq c')"
  have a: "dw \<in> {64, 128, 256, 512}" "uc_generation c' \<in> {1, 2, 3}" "uc_link_width c' \<in> {1, 2, 4, 8, 16}"
    "usp_rate_ok (uc_generation c') (uc_link_width c') dw (uc_frequency c')"
    "bus_widths dw (if dw = 512 then 183 else 88) (uc_cq c')" "bus_widths dw (if dw = 512 then 81 else 33) (uc_cc c')"
    "bus_widths dw (if dw = 512 then 137 else 62) (uc_rq c')" "bus_widths dw (if dw = 512 then 161 else 75) (uc_rc c')"
    "uc_max_speed c' = uc_generation c'" "uc_max_width c' = uc_link_width c'"
    using c unfolding dw_def usp_check_config_def Let_def bindE_Inr_iff assertE_Inr_iff sum.inject
    by (elim exE conjE, hypsubst, simp only: us_limits simp_thms)+
  note w = a(5-8)[THEN bus_widths_ok, OF a(1)]
  have "us_bus_ok CQ (uc_cq c') \<and> us_bus_ok CC (uc_cc c') \<and> us_bus_ok RQ (uc_rq c') \<and> us_bus_ok RC (uc_rc c')"
    using w by (cases "dw = 512") (simp_all add: us_bus_ok_def cq_bus_ok_def cc_bus_ok_def rq_bus_ok_def rc_bus_ok_def)
  then show ?thesis using usp_rate_bound[OF a(4,2,3)] a(9,10) w unfolding dw_def by metis
next
  case False
  then have c: "us_check_config c = Inr c'" using assms by simp
  define dw where "dw = bw_data (uc_cq c')"
  have a: "dw \<in> {64, 128, 256}" "uc_generation c' \<in> {1, 2, 3}" "uc_link_width c' \<in> {1, 2, 4, 8}"
    "us_rate_ok (uc_generation c') (uc_link_width c') dw (uc_frequency c')"
    "bus_widths dw 85 (uc_cq c')" "bus_widths dw 33 (uc_cc c')" "bus_widths dw 60 (uc_rq c')" "bus_widths dw 75 (uc_rc c')"
    "uc_max_speed c' = uc_generation c'" "uc_max_width c' = uc_link_width c'"
    using c unfolding dw_def us_check_config_def Let_def bindE_Inr_iff assertE_Inr_iff sum.inject
    by (elim exE conjE, hypsubst, simp only: us_limits simp_thms)+
  have dw: "dw \<in> {64, 128, 256, 512}" "dw \<noteq> 512" using a(1) by auto
  note w = a(5-8)[THEN bus_widths_ok, OF dw(1)]
  have "us_bus_ok CQ (uc_cq c') \<and> us_bus_ok CC (uc_cc c') \<and> us_bus_ok RQ (uc_rq c') \<and> us_bus_ok RC (uc_rc c')"
    using w dw(2) by (simp add: us_bus_ok_def cq_bus_ok_def cc_bus_ok_def rq_bus_ok_def rc_bus_ok_def)
  then show ?thesis using us_rate_bound[OF a(4,2,3)] a(9,10) w unfolding dw_def by metis
qed

text \<open>Eight lanes of the third generation behind a data path of 256 bits.\<close>

definition us_conf_x8 :: us_conf where
  "us_conf_x8 = \<lparr>uc_generation = 3, uc_link_width = 8, uc_frequency = 250, uc_alignment = ''dword'', uc_straddle = False,
     uc_cq_cc_straddle = False, uc_rq_rc_straddle = False, uc_rc_4tlp_straddle = False,
     uc_cq = \<lparr>bw_data = 256, bw_keep = 8, bw_user = 85\<rparr>, uc_cc = \<lparr>bw_data = 256, bw_keep = 8, bw_user = 33\<rparr>,
     uc_rq = \<lparr>bw_data = 256, bw_keep = 8, bw_user = 60\<rparr>, uc_rc = \<lparr>bw_data = 256, bw_keep = 8, bw_user = 75\<rparr>,
     uc_max_speed = 0, uc_max_width = 0\<rparr>"

theorem us_config_sound_witness:
  "\<exists>c'. us_check_config us_conf_x8 = Inr c' \<and> uc_frequency c' = 250000000 \<and>
    us_lane_rate 3 * 8 \<le> of_nat 256 * uc_frequency c' \<and> us_bus_ok RC (uc_rc c')"
proof -
  obtain c' where c': "us_check_config us_conf_x8 = Inr c'" "uc_frequency c' = 250000000" "uc_generation c' = 3"
    "uc_link_width c' = 8" "bw_data (uc_cq c') = 256"
    by (simp add: us_check_config_def us_conf_x8_def us_link_limits_def us_frequency_def us_rate_ok_def bus_widths_def Let_def)
  then show ?thesis using us_config_sound[of False us_conf_x8 c'] by simp
qed

end
