(* ===== verification/Spec2Isabelle.thy ===== *)
theory Spec2Isabelle
  imports PcieConfigPath PcieRouting PcieEnum PcieFnOps NetLink NicSteps NicDma UsExamples UsConfig
begin

text \<open>
  Verification library for the Python models of FastRMT: the simulation models with which the
  hardware of the repository is exercised, under \<open>fpga/\<close>. Four parts of them are modelled.

  \<^bold>\<open>PCI Express\<close> (\<open>fpga/lib/pcie/tb/pcie.py\<close>). Packets (\<open>TLP\<close>), functions with their configuration
  space and capabilities, endpoints with memory behind base address registers, bridges and
  switches, links, and a root complex that enumerates what is connected below it and accesses it.

  \<^bold>\<open>The Xilinx UltraScale cores\<close> (\<open>fpga/lib/pcie/tb/pcie_us.py\<close> and \<open>pcie_usp.py\<close>). The packets of
  the core behind their descriptors, the four clocked stream interfaces that carry them, and the
  device that joins these streams and its configuration ports to the link.

  \<^bold>\<open>Streams and network frames\<close> (\<open>fpga/lib/eth/lib/axis/tb/axis_ep.py\<close> and
  \<open>fpga/lib/eth/tb/*_ep.py\<close>). AXI stream frames, the clocked source and sink of a stream bus, the
  Ethernet, ARP, IP and UDP frames and their clocked sources and sinks.

  \<^bold>\<open>The NIC driver\<close> (\<open>fpga/common/tb/mqnic.py\<close>). Rings of descriptors and events in host memory, the
  discovery of a NIC, transmission, and the interrupt handler. It runs on the root complex.

  \<^bold>\<open>Conventions\<close>

  Python integers are \<open>int\<close>; bytes are 8-bit words; an exception is the left value of a sum
  (\<open>Prelude\<close>), a call that may not return is an option around it. An object is a record, a
  subclass extends the record of its class, and a method that a subclass overrides is a parameter
  of the operations that call it through \<open>self\<close>. A coroutine that sends packets returns the
  packets it sends. What the rest of a simulation does while a coroutine waits is a record of
  functions (\<open>master\<close> in \<open>PcieMaster\<close>, \<open>fabric\<close> in \<open>PcieHost\<close>, \<open>nic_bus\<close> in \<open>NicRing\<close>) over
  which the theorems are stated; \<open>PcieLink\<close>, and the interpretations on the root complex in
  \<open>NicSteps\<close> and \<open>NicDma\<close>, give these records their meaning in the code.

  \<^bold>\<open>Theories of PCI Express\<close>

  \<^item> \<open>Prelude\<close>: errors, slices, little-endian packing, the rewrite collections for bit operations,
    and the locales \<open>codec\<close> and \<open>chunking\<close> that several components interpret.
  \<^item> \<open>PcieId\<close>: \<open>align\<close>, \<open>byte_mask_update\<close>, \<open>PcieId\<close>.
  \<^item> \<open>Tlp\<close>: class \<open>TLP\<close>. The byte enables of \<open>set_be\<close> select exactly a range; \<open>unpack\<close> inverts
    \<open>pack\<close> on completions and on requests.
  \<^item> \<open>PcieCap\<close>: \<open>PcieCapList\<close> and \<open>PcieExtCapList\<close>. Registration keeps the lists linked.
  \<^item> \<open>PcieRegs\<close>, \<open>PcieMsi\<close>: the registers of \<open>PMCapability\<close>, \<open>PCIECapability\<close>, \<open>MSICapability\<close> and
    \<open>MSIXCapability\<close>, lane by lane, and the memory write of an interrupt.
  \<^item> \<open>PcieFunction\<close>, \<open>PcieBar\<close>, \<open>PcieRx\<close>: \<open>Function\<close> and \<open>Endpoint\<close>. Configuration space, base
    address registers and the window a register decodes, packet reception, tags, and the
    configuration handlers.
  \<^item> \<open>MemAccess\<close>, \<open>PcieEndpoint\<close>: the walk over byte enables and the splitting of completions, which
    \<open>MemoryEndpoint\<close> and \<open>RootComplex\<close> share, over the locale \<open>byte_memory\<close>; \<open>MemoryEndpoint\<close>.
  \<^item> \<open>PcieMaster\<close>: the loops \<open>io_read\<close>, \<open>io_write\<close>, \<open>mem_read\<close>, \<open>mem_write\<close>, which \<open>Function\<close> and
    \<open>RootComplex\<close> share; \<open>PcieFnOps\<close> is \<open>Function\<close> as a requester.
  \<^item> \<open>PcieTree\<close>: \<open>TreeItem\<close>. \<open>PcieRoot\<close>: state, regions and handlers of \<open>RootComplex\<close>; \<open>PcieHost\<close>:
    its requests and the set-up of interrupts; \<open>PcieEnum\<close>: the enumeration.
  \<^item> \<open>PcieConfig\<close>, \<open>PcieConfigPath\<close>: a configuration access from the host to a function.
  \<^item> \<open>PcieBridge\<close>, \<open>PcieRouting\<close>: \<open>Bridge\<close>, \<open>HostBridge\<close>, \<open>RootPort\<close> and the switch ports: windows,
    forwarding, and the choice of a port.
  \<^item> \<open>PcieDevice\<close>: \<open>Port\<close>, \<open>Device\<close>, \<open>Switch\<close>. \<open>PcieLink\<close>: a root complex wired to endpoints behind
    root ports. The host writes and reads endpoint memory through all of the above.

  \<^bold>\<open>Theories of the UltraScale cores\<close>

  \<^item> \<open>UsTlp\<close>: \<open>USPcieFrame\<close> and \<open>TLP_us\<close>: the descriptors of the completer request (CQ), completer
    completion (CC), requester request (RQ) and requester completion (RC) interfaces, their byte
    enables and their parity. Each \<open>unpack\<close> inverts its \<open>pack\<close> up to the fields without a place.
  \<^item> \<open>UsBus\<close>: \<open>CQSource\<close> to \<open>RCSink\<close>, one step per rising edge, with the layout of the side signal.
    \<open>UsLink\<close>: a source and a sink on one bus, over the locale \<open>us_stream\<close>, which the four layouts
    interpret: what is sent arrives, and packets survive an interface end to end.
  \<^item> \<open>UsConfig\<close>: the parameters and bus widths that \<open>create_logic\<close> accepts; they are those for which
    the theorems of \<open>UsLink\<close> hold.
  \<^item> \<open>UsDevice\<close>: \<open>UltrascalePCIe\<close> and \<open>UltrascalePlusPCIe\<close>: packets from the link, and the process
    \<open>logic\<close> as one step per edge, with the configuration and interrupt ports. Inputs are a record
    read at the edge; the logarithm of the aperture is a parameter.
  \<^item> \<open>UsCredit\<close>: one edge, seen from the queues of requests: what the credits for non-posted requests
    do to their order, and that an edge raises nothing. \<open>UsSystem\<close>: the device, its CQ source and
    the user's sink on one clock; every request reaches the user, in a permitted order.
  \<^item> \<open>UsRequester\<close>: the requests of the user on their way to the link. \<open>UsExamples\<close>: the properties
    at a concrete device.

  \<^bold>\<open>Theories of streams and frames\<close>

  \<^item> \<open>AxisFrame\<close>: \<open>AXIStreamFrame\<close>. \<open>AxisLink\<close>: \<open>AXIStreamSource\<close> and \<open>AXIStreamSink\<close> on one bus, one
    step per clock edge.
  \<^item> \<open>NetFrames\<close>: \<open>EthFrame\<close>, \<open>ARPFrame\<close>, \<open>IPFrame\<close>, \<open>UDPFrame\<close>, with \<open>zlib.crc32\<close> as a parameter.
    \<open>NetLink\<close>: their sources and sinks, each a header bus beside a stream bus.

  \<^bold>\<open>Theories of the NIC driver\<close>

  \<^item> \<open>NicRing\<close>: \<open>EqRing\<close>, \<open>CqRing\<close>, \<open>TxRing\<close>, \<open>RxRing\<close> and the packet pool of \<open>Driver\<close>.
  \<^item> \<open>NicDriver\<close>: \<open>Port\<close>, \<open>Scheduler\<close>, \<open>Interface\<close>, \<open>Driver\<close>.
  \<^item> \<open>NicOwn\<close>, \<open>NicSteps\<close>: who owns a packet buffer, as an invariant of a transition system whose
    steps are the bodies between two bus accesses; every operation is a sequence of steps.
  \<^item> \<open>NicDma\<close>: what the device finds when it follows the descriptors in host memory.

  \<^bold>\<open>Bounds\<close>

  A packet makes at most seven hops in the system of \<open>PcieLink\<close> (host bridge, root port, device and
  back), which is the fuel of \<open>carry\<close>. The enumeration recurses over buses and is given
  \<open>256 - bus\<close> levels; \<open>enumerate_segment_depth\<close> shows that more are never used. The walk over a
  capability list, and the loops of the NIC driver on ring pointers that the device controls, may
  run forever: they are partial functions, and not returning is \<open>None\<close>. A stream link needs two
  unpaused cycles per transfer. The UltraScale device holds at most 32 credits for non-posted
  requests; a waiting request is sent once a credit comes, so as many credits as there are such
  requests are enough.

  \<^bold>\<open>Not modelled\<close>

  The models of AXI and AXI lite (\<open>axi.py\<close>, \<open>axil.py\<close>), of MAC and PHY interfaces, and of the DMA
  memory; the generators of Verilog wrappers, which expand text templates. Of the UltraScale
  cores: the generation of the user clock and its reset, the pass-through of the reset pins, and
  the widths of single ports. Of the modelled files: printing, \<open>__repr__\<close> and log
  messages; delays and timeouts in simulated time, which are left to the environment; \<open>wait\<close>
  methods, which only wait for a signal.
\<close>

end
